(* ===== verification/GBM_Prelude.thy ===== *)
theory GBM_Prelude
  imports Main "HOL-Library.Word" "HOL-Library.AList" "HOL-Library.Multiset"
    "HOL-Library.Product_Lexorder" "HOL-Library.List_Lexorder"
begin

text \<open>
  The shared layer of the development: the named collections, the machine-integer casts the
  sources write as \<^verbatim>\<open>static_cast<std::uint32_t>\<close>, the parts of
  \<^verbatim>\<open>std::string_view\<close>, \<^verbatim>\<open>std::to_string\<close> and
  \<^verbatim>\<open>std::from_chars\<close> the sources use, reachability over a step relation with the
  contract every invariant proof uses, and the list lemmas the components share.
\<close>

unbundle bit_operations_syntax

named_theorems sv_simps \<open>evaluation rules for the string-view operations\<close>
named_theorems inv_intros \<open>operations keep the invariant of their component\<close>

section \<open>Machine integers\<close>

definition u32 :: "nat \<Rightarrow> nat" where
  "u32 n = n mod 2 ^ 32"

lemma u32_id [simp]: "n < 2 ^ 32 \<Longrightarrow> u32 n = n"
  by (simp add: u32_def)

lemma u32_less [simp]: "u32 n < 2 ^ 32"
  by (simp add: u32_def)

lemma u32_less_numeral [simp]: "u32 n < 4294967296"
  using u32_less [of n] by simp

lemma u32_add_u32 [simp]: "u32 (u32 a + b) = u32 (a + b)"
  by (simp add: u32_def mod_simps)

lemma u32_le: "u32 n \<le> n"
  by (simp add: u32_def)

section \<open>String views\<close>

text \<open>
  Positions are \<^typ>\<open>nat\<close> and \<^verbatim>\<open>npos\<close> is \<^const>\<open>None\<close>. A
  \<^verbatim>\<open>char\<close> of the sources is a byte, as \<^typ>\<open>char\<close> is.
\<close>

definition starts_with :: "string \<Rightarrow> string \<Rightarrow> bool" where
  "starts_with s p \<longleftrightarrow> take (length p) s = p"

fun find_char :: "char \<Rightarrow> string \<Rightarrow> nat option" where
  "find_char c [] = None"
| "find_char c (x # xs) = (if x = c then Some 0 else map_option Suc (find_char c xs))"

definition find_char_from :: "char \<Rightarrow> string \<Rightarrow> nat \<Rightarrow> nat option" where
  "find_char_from c s i = map_option ((+) i) (find_char c (drop i s))"

fun find_str :: "string \<Rightarrow> string \<Rightarrow> nat option" where
  "find_str p [] = (if p = [] then Some 0 else None)"
| "find_str p (x # xs) =
     (if starts_with (x # xs) p then Some 0 else map_option Suc (find_str p xs))"

definition find_str_from :: "string \<Rightarrow> string \<Rightarrow> nat \<Rightarrow> nat option" where
  "find_str_from p s i = (if i \<le> length s then map_option ((+) i) (find_str p (drop i s)) else None)"

fun rfind_str :: "string \<Rightarrow> string \<Rightarrow> nat option" where
  "rfind_str p [] = (if p = [] then Some 0 else None)"
| "rfind_str p (x # xs) =
     (case rfind_str p xs of
        Some i \<Rightarrow> Some (Suc i)
      | None \<Rightarrow> if starts_with (x # xs) p then Some 0 else None)"

definition substr :: "string \<Rightarrow> nat \<Rightarrow> nat \<Rightarrow> string" where
  "substr s pos n = take n (drop pos s)"

definition ends_with_char :: "string \<Rightarrow> char \<Rightarrow> bool" where
  "ends_with_char s c \<longleftrightarrow> s \<noteq> [] \<and> last s = c"

abbreviation nl :: char where "nl \<equiv> CHR 0x0A"
abbreviation cr :: char where "cr \<equiv> CHR 0x0D"

lemma starts_with_simps [simp, sv_simps]:
  "starts_with s []"
  "starts_with [] (p # ps) \<longleftrightarrow> False"
  "starts_with (x # xs) (p # ps) \<longleftrightarrow> x = p \<and> starts_with xs ps"
  by (auto simp: starts_with_def)

lemma starts_with_append [simp]: "starts_with (p @ s) p"
  by (simp add: starts_with_def)

lemma starts_with_iff: "starts_with s p \<longleftrightarrow> (\<exists>t. s = p @ t)"
  by (metis append_eq_conv_conj append_take_drop_id starts_with_def)

lemma find_char_None: "find_char c s = None \<longleftrightarrow> c \<notin> set s"
  by (induction s) auto

lemma find_char_append_notin [simp]:
  "c \<notin> set s \<Longrightarrow> find_char c (s @ c # t) = Some (length s)"
  by (induction s) auto

lemma find_char_Some:
  assumes "find_char c s = Some i"
  shows "i < length s" "s ! i = c" "c \<notin> set (take i s)"
proof -
  have "i < length s \<and> s ! i = c \<and> c \<notin> set (take i s)"
    using assms by (induction s arbitrary: i) (auto split: if_splits)
  then show "i < length s" "s ! i = c" "c \<notin> set (take i s)" by auto
qed

lemma find_char_split:
  assumes "find_char c s = Some i"
  shows "s = take i s @ c # drop (Suc i) s"
  using find_char_Some [OF assms] by (metis id_take_nth_drop)

section \<open>Decimal numbers\<close>

text \<open>\<^verbatim>\<open>std::to_string\<close> of an unsigned value.\<close>

definition digit_char :: "nat \<Rightarrow> char" where
  "digit_char d = char_of (48 + d)"

fun to_string :: "nat \<Rightarrow> string" where
  "to_string n = (if n < 10 then [digit_char n] else to_string (n div 10) @ [digit_char (n mod 10)])"

declare to_string.simps [simp del]

definition int_to_string :: "int \<Rightarrow> string" where
  "int_to_string n = (if n < 0 then CHR ''-'' # to_string (nat (- n)) else to_string (nat n))"

definition is_digit :: "char \<Rightarrow> bool" where
  "is_digit c \<longleftrightarrow> 48 \<le> (of_char c :: nat) \<and> (of_char c :: nat) \<le> 57"

definition digit_val :: "char \<Rightarrow> nat" where
  "digit_val c = of_char c - 48"

definition dec_value :: "string \<Rightarrow> nat" where
  "dec_value ds = foldl (\<lambda>acc c. 10 * acc + digit_val c) 0 ds"

text \<open>
  \<^verbatim>\<open>std::from_chars\<close> for an unsigned type of \<open>w\<close> bits: the longest run of
  decimal digits; \<^const>\<open>None\<close> (the target keeps its value) when there is none or when the
  number does not fit. The second component is the number of characters consumed, the
  \<^verbatim>\<open>ptr\<close> of the result.
\<close>

definition from_chars :: "nat \<Rightarrow> string \<Rightarrow> nat option \<times> nat" where
  "from_chars w s =
     (let ds = takeWhile is_digit s
      in if ds = [] then (None, 0)
         else if dec_value ds < 2 ^ w then (Some (dec_value ds), length ds)
         else (None, length ds))"

lemma of_char_digit [simp]: "d < 10 \<Longrightarrow> (of_char (digit_char d) :: nat) = 48 + d"
  by (simp add: digit_char_def)

lemma is_digit_digit_char [simp]: "d < 10 \<Longrightarrow> is_digit (digit_char d)"
  by (simp add: is_digit_def)

lemma digit_val_digit_char [simp]: "d < 10 \<Longrightarrow> digit_val (digit_char d) = d"
  by (simp add: digit_val_def)

lemma to_string_nonempty [simp]: "to_string n \<noteq> []"
  by (subst to_string.simps) simp

lemma to_string_digits: "c \<in> set (to_string n) \<Longrightarrow> is_digit c"
proof (induction n rule: to_string.induct)
  case (1 n)
  then show ?case
    by (subst (asm) (2) to_string.simps) (auto split: if_splits)
qed

lemma dec_value_append [simp]: "dec_value (xs @ [c]) = 10 * dec_value xs + digit_val c"
  by (simp add: dec_value_def)

lemma dec_value_to_string [simp]: "dec_value (to_string n) = n"
proof (induction n rule: to_string.induct)
  case (1 n)
  show ?case
  proof (cases "n < 10")
    case True
    then show ?thesis by (simp add: to_string.simps [of n] dec_value_def)
  next
    case False
    with 1 show ?thesis by (simp add: to_string.simps [of n])
  qed
qed

text \<open>Printing then reading a number gives it back, whatever non-digit follows it.\<close>

lemma takeWhile_digits_to_string:
  "(\<forall>c cs. t = c # cs \<longrightarrow> \<not> is_digit c) \<Longrightarrow> takeWhile is_digit (to_string n @ t) = to_string n"
  by (cases t) (auto simp: takeWhile_append dest: to_string_digits)

lemma from_chars_to_string:
  assumes "n < 2 ^ w" and "\<forall>c cs. t = c # cs \<longrightarrow> \<not> is_digit c"
  shows "from_chars w (to_string n @ t) = (Some n, length (to_string n))"
  using assms by (simp add: from_chars_def takeWhile_digits_to_string Let_def)

lemma from_chars_bound: "from_chars w s = (Some n, k) \<Longrightarrow> n < 2 ^ w \<and> k \<le> length s"
  by (auto simp: from_chars_def Let_def length_takeWhile_le split: if_splits)

section \<open>Reachable states\<close>

inductive reachable :: "('s \<Rightarrow> bool) \<Rightarrow> ('s \<Rightarrow> 's \<Rightarrow> bool) \<Rightarrow> 's \<Rightarrow> bool"
  for init :: "'s \<Rightarrow> bool" and step :: "'s \<Rightarrow> 's \<Rightarrow> bool" where
  reach_init: "init s \<Longrightarrow> reachable init step s"
| reach_step: "reachable init step s \<Longrightarrow> step s t \<Longrightarrow> reachable init step t"

text \<open>The contract of a component that is a state machine: its steps keep its invariant.\<close>

locale state_machine =
  fixes init :: "'s \<Rightarrow> bool"
    and step :: "'s \<Rightarrow> 's \<Rightarrow> bool"
    and inv :: "'s \<Rightarrow> bool"
  assumes inv_init: "init s \<Longrightarrow> inv s"
    and inv_step: "inv s \<Longrightarrow> step s t \<Longrightarrow> inv t"
begin

lemma reachable_inv: "reachable init step s \<Longrightarrow> inv s"
  by (induction rule: reachable.induct) (auto intro: inv_init inv_step)

end

section \<open>List lemmas\<close>

lemma filter_eq_takeWhile_sorted:
  assumes "sorted (map f xs)"
  shows "filter (\<lambda>x. f x \<le> (b::'b::linorder)) xs = takeWhile (\<lambda>x. f x \<le> b) xs"
  using assms
proof (induction xs)
  case Nil
  then show ?case by simp
next
  case (Cons x xs)
  then show ?case
    by (cases xs) (auto dest: order_trans)
qed

lemma sum_list_map_append_const: "sum_list (map f (xs @ [x])) = sum_list (map f xs) + (f x :: nat)"
  by simp

lemma nth_list_update_if: "i < length xs \<Longrightarrow> xs[j := v] ! i = (if i = j then v else xs ! i)"
  by simp

end
