(* ===== verification/ObjectIds.thy ===== *)
theory ObjectIds
  imports GBM_Prelude
begin

text \<open>
  \<^verbatim>\<open>src/core/base/ObjectId.h\<close>: a packed git object id, the first
  \<^verbatim>\<open>length_\<close> of 32 bytes. The constructors leave every byte past
  \<^verbatim>\<open>length_\<close> zero (\<open>wf_oid\<close>), which is why the comparisons of the source,
  which read only the significant bytes, agree with equality and with the linear order the type
  is given here.
\<close>

datatype ObjectId = ObjectId (oid_bytes: "8 word list") (oid_length: nat)

definition kMaxBytes :: nat where "kMaxBytes = 32"
definition kSha1Bytes :: nat where "kSha1Bytes = 20"

definition null_oid :: ObjectId where
  "null_oid = ObjectId (replicate kMaxBytes 0) 0"

definition hexValue :: "char \<Rightarrow> int" where
  "hexValue c =
     (let n = int (of_char c)
      in if 48 \<le> n \<and> n \<le> 57 then n - 48
         else if 97 \<le> n \<and> n \<le> 102 then n - 97 + 10
         else if 65 \<le> n \<and> n \<le> 70 then n - 65 + 10
         else - 1)"

text \<open>The loop of \<^verbatim>\<open>parseHex\<close> over the pairs of digits; \<^const>\<open>None\<close> is its early return.\<close>

fun parse_pairs :: "string \<Rightarrow> 8 word list option" where
  "parse_pairs (a # b # rest) =
     (let hi = hexValue a; lo = hexValue b
      in if hi < 0 \<or> lo < 0 then None
         else map_option ((#) (word_of_int (push_bit 4 hi OR lo))) (parse_pairs rest))"
| "parse_pairs _ = Some []"

definition parseHex :: "ObjectId \<Rightarrow> string \<Rightarrow> bool \<times> ObjectId" where
  "parseHex self hex =
     (if length hex \<noteq> 40 \<and> length hex \<noteq> 64 then (False, self)
      else (case parse_pairs hex of
              None \<Rightarrow> (False, self)
            | Some parsed \<Rightarrow>
                (True, ObjectId (parsed @ replicate (kMaxBytes - length parsed) 0)
                         (length hex div 2))))"

definition fromHex :: "string \<Rightarrow> ObjectId" where
  "fromHex hex = snd (parseHex null_oid hex)"

definition isNull :: "ObjectId \<Rightarrow> bool" where
  "isNull o' \<longleftrightarrow> oid_length o' = 0"

definition kDigits :: string where
  "kDigits = ''0123456789abcdef''"

definition hex_byte :: "8 word \<Rightarrow> string" where
  "hex_byte b = [kDigits ! unat (drop_bit 4 b), kDigits ! unat (b AND 15)]"

definition hex :: "ObjectId \<Rightarrow> string" where
  "hex o' = concat (map hex_byte (take (oid_length o') (oid_bytes o')))"

definition shortHex :: "nat \<Rightarrow> ObjectId \<Rightarrow> string" where
  "shortHex chars o' = (let full = hex o' in if length full \<le> chars then full else substr full 0 chars)"

text \<open>\<^verbatim>\<open>std::memcmp\<close> of the first \<open>n\<close> bytes, as unsigned bytes.\<close>

fun memcmp :: "8 word list \<Rightarrow> 8 word list \<Rightarrow> nat \<Rightarrow> int" where
  "memcmp (x # xs) (y # ys) (Suc n) =
     (if x = y then memcmp xs ys n else if x < y then - 1 else 1)"
| "memcmp _ _ _ = 0"

definition oid_eq :: "ObjectId \<Rightarrow> ObjectId \<Rightarrow> bool" where
  "oid_eq a b \<longleftrightarrow> oid_length a = oid_length b \<and> memcmp (oid_bytes a) (oid_bytes b) (oid_length a) = 0"

definition oid_less :: "ObjectId \<Rightarrow> ObjectId \<Rightarrow> bool" where
  "oid_less a b =
     (if oid_length a \<noteq> oid_length b then oid_length a < oid_length b
      else memcmp (oid_bytes a) (oid_bytes b) (oid_length a) < 0)"

definition oid_hash :: "ObjectId \<Rightarrow> 64 word" where
  "oid_hash o' =
     foldl (\<lambda>h b. (h XOR ucast b) * 0x100000001b3) 0xcbf29ce484222325
       (take (oid_length o') (oid_bytes o'))"

text \<open>What every constructor of the class establishes.\<close>

definition wf_oid :: "ObjectId \<Rightarrow> bool" where
  "wf_oid o' \<longleftrightarrow> length (oid_bytes o') = kMaxBytes \<and> oid_length o' \<in> {0, kSha1Bytes, kMaxBytes} \<and>
     drop (oid_length o') (oid_bytes o') = replicate (kMaxBytes - oid_length o') 0"

section \<open>A linear order that extends the source's\<close>

definition oid_rank :: "ObjectId \<Rightarrow> nat \<times> 8 word list \<times> 8 word list" where
  "oid_rank o' = (oid_length o', take (oid_length o') (oid_bytes o'), oid_bytes o')"

lemma oid_rank_inj: "oid_rank a = oid_rank b \<longleftrightarrow> a = b"
  by (cases a; cases b) (auto simp: oid_rank_def)

instantiation ObjectId :: linorder
begin

definition less_eq_ObjectId :: "ObjectId \<Rightarrow> ObjectId \<Rightarrow> bool" where
  "less_eq_ObjectId a b \<longleftrightarrow> oid_rank a \<le> oid_rank b"

definition less_ObjectId :: "ObjectId \<Rightarrow> ObjectId \<Rightarrow> bool" where
  "less_ObjectId a b \<longleftrightarrow> oid_rank a < oid_rank b"

instance
  by standard
    (auto simp: less_eq_ObjectId_def less_ObjectId_def oid_rank_inj [symmetric])

end

section \<open>Equality and order of well-formed ids\<close>

lemma memcmp_zero_iff:
  "n \<le> length xs \<Longrightarrow> n \<le> length ys \<Longrightarrow> memcmp xs ys n = 0 \<longleftrightarrow> take n xs = take n ys"
  by (induction xs ys n rule: memcmp.induct) auto

lemma memcmp_neg_iff:
  "n \<le> length xs \<Longrightarrow> n \<le> length ys \<Longrightarrow> memcmp xs ys n < 0 \<longleftrightarrow> take n xs < take n ys"
  by (induction xs ys n rule: memcmp.induct) auto

lemma wf_oid_eqI:
  assumes "wf_oid a" "wf_oid b" "oid_length a = oid_length b"
    and "take (oid_length a) (oid_bytes a) = take (oid_length b) (oid_bytes b)"
  shows "a = b"
proof -
  have "oid_bytes a = oid_bytes b"
    using assms by (metis append_take_drop_id wf_oid_def)
  with assms(3) show ?thesis by (simp add: ObjectId.expand)
qed

lemma wf_oid_length_le: "wf_oid a \<Longrightarrow> oid_length a \<le> length (oid_bytes a)"
  by (auto simp: wf_oid_def kMaxBytes_def kSha1Bytes_def)

lemma oid_eq_iff: "wf_oid a \<Longrightarrow> wf_oid b \<Longrightarrow> oid_eq a b \<longleftrightarrow> a = b"
  using wf_oid_eqI [of a b] wf_oid_length_le [of a] wf_oid_length_le [of b]
  by (auto simp: oid_eq_def memcmp_zero_iff)

lemma oid_less_iff:
  assumes "wf_oid a" "wf_oid b"
  shows "oid_less a b \<longleftrightarrow> a < b"
proof (cases "oid_length a = oid_length b")
  case True
  with assms have eq: "take (oid_length a) (oid_bytes a) = take (oid_length b) (oid_bytes b) \<Longrightarrow> a = b"
    by (intro wf_oid_eqI)
  have "oid_less a b \<longleftrightarrow> take (oid_length a) (oid_bytes a) < take (oid_length b) (oid_bytes b)"
    using True wf_oid_length_le [OF assms(1)] wf_oid_length_le [OF assms(2)]
    by (simp add: oid_less_def memcmp_neg_iff)
  with True eq show ?thesis
    by (auto simp: less_ObjectId_def oid_rank_def order.order_iff_strict)
next
  case False
  then show ?thesis by (auto simp: oid_less_def less_ObjectId_def oid_rank_def)
qed

section \<open>Parsing and printing\<close>

lemma parse_pairs_length:
  "parse_pairs s = Some bs \<Longrightarrow> even (length s) \<Longrightarrow> 2 * length bs = length s"
  by (induction s arbitrary: bs rule: parse_pairs.induct) (auto simp: Let_def split: if_splits)

lemma wf_null_oid [simp]: "wf_oid null_oid"
  by (simp add: wf_oid_def null_oid_def)

lemma parseHex_wf: "wf_oid self \<Longrightarrow> wf_oid (snd (parseHex self h))"
  using parse_pairs_length [of h]
  by (auto simp: parseHex_def wf_oid_def kMaxBytes_def kSha1Bytes_def split: option.splits)

lemma wf_fromHex [simp]: "wf_oid (fromHex h)"
  by (simp add: fromHex_def parseHex_wf)

text \<open>The nibbles of a byte built from two digits, and the byte built from its two nibbles.\<close>

lemma nibble_cases:
  "\<forall>hi \<in> set [0..15]. \<forall>lo \<in> set [0..15].
     unat (drop_bit 4 (word_of_int (push_bit 4 hi OR lo) :: 8 word)) = nat hi \<and>
     unat ((word_of_int (push_bit 4 hi OR lo) :: 8 word) AND 15) = nat lo"
  by code_simp

lemma nibbles_of_byte:
  assumes "0 \<le> hi" "hi < 16" "0 \<le> lo" "lo < 16"
  shows "unat (drop_bit 4 (word_of_int (push_bit 4 hi OR lo) :: 8 word)) = nat hi"
    and "unat ((word_of_int (push_bit 4 hi OR lo) :: 8 word) AND 15) = nat lo"
  using nibble_cases assms by auto

lemma hexValue_range: "0 \<le> hexValue c \<Longrightarrow> hexValue c < 16"
  by (auto simp: hexValue_def Let_def split: if_splits)

text \<open>The lower-case form of a hexadecimal digit.\<close>

definition hex_lower :: "char \<Rightarrow> char" where
  "hex_lower c =
     (if 65 \<le> (of_char c :: nat) \<and> (of_char c :: nat) \<le> 70
      then char_of (of_char c + (32::nat)) else c)"

text \<open>The printed digit of a value, and the value of a printed digit.\<close>

lemma kDigits_nth: "k < 16 \<Longrightarrow> kDigits ! k = char_of (if k < 10 then 48 + k else 87 + k)"
proof -
  have "\<forall>k \<in> set [0..<16]. kDigits ! k = char_of (if k < 10 then 48 + k else 87 + k)"
    by code_simp
  then show "k < 16 \<Longrightarrow> ?thesis" by simp
qed

lemma kDigits_hexValue: "0 \<le> hexValue c \<Longrightarrow> kDigits ! nat (hexValue c) = hex_lower c"
proof -
  assume ok: "0 \<le> hexValue c"
  define n :: nat where "n = of_char c"
  have n: "of_char c = n" "c = char_of n" "n < 256"
    by (simp_all add: n_def)
  have "int (nat (hexValue c)) = hexValue c" "nat (hexValue c) < 16"
    using ok hexValue_range [OF ok] by auto
  with ok show "kDigits ! nat (hexValue c) = hex_lower c"
    by (auto simp: kDigits_nth hexValue_def hex_lower_def Let_def n split: if_splits)
qed

lemma hexValue_kDigits: "k < 16 \<Longrightarrow> hexValue (kDigits ! k) = int k"
  by (auto simp: kDigits_nth hexValue_def Let_def)

lemma high_nibble_less: "unat (drop_bit 4 (b :: 8 word)) < 16"
proof -
  have "unat b < 2 ^ LENGTH(8)" by (rule unsigned_less)
  then show ?thesis by (simp add: drop_bit_eq_div unat_div)
qed

lemma low_nibble_less: "unat ((b :: 8 word) AND 15) < 16"
proof -
  have "b AND 15 = take_bit 4 b" by (simp add: take_bit_eq_mask mask_eq_exp_minus_1)
  then show ?thesis
    using take_bit_nat_less_exp [of 4 "unat b"] by (simp add: unsigned_take_bit_eq)
qed

lemma byte_of_nibbles:
  fixes b :: "8 word"
  shows "word_of_int (push_bit 4 (uint (drop_bit 4 b)) OR uint (b AND 15)) = b"
proof (rule bit_word_eqI)
  fix n assume "n < LENGTH(8)"
  have m: "(15::8 word) = mask 4" by (simp add: mask_eq_exp_minus_1)
  show "bit (word_of_int (push_bit 4 (uint (drop_bit 4 b)) OR uint (b AND 15)) :: 8 word) n = bit b n"
    using \<open>n < LENGTH(8)\<close> unfolding m by (auto simp: bit_simps)
qed

lemma hexValue_nibbles:
  fixes b :: "8 word"
  shows "hexValue (kDigits ! unat (drop_bit 4 b)) = uint (drop_bit 4 b)"
    and "hexValue (kDigits ! unat (b AND 15)) = uint (b AND 15)"
  using hexValue_kDigits [OF high_nibble_less [of b]] hexValue_kDigits [OF low_nibble_less [of b]]
  by simp_all

lemma parse_pairs_hex_bytes: "parse_pairs (concat (map hex_byte bs)) = Some bs"
  by (induction bs) (auto simp: hex_byte_def Let_def hexValue_nibbles byte_of_nibbles not_less [symmetric])

lemma hex_bytes_parse_pairs:
  "parse_pairs s = Some bs \<Longrightarrow> even (length s) \<Longrightarrow> concat (map hex_byte bs) = map hex_lower s"
  by (induction s arbitrary: bs rule: parse_pairs.induct)
    (auto simp: Let_def hex_byte_def nibbles_of_byte hexValue_range kDigits_hexValue
      not_less split: if_splits)

lemma parse_pairs_Some_iff:
  "even (length s) \<Longrightarrow> (\<exists>bs. parse_pairs s = Some bs) \<longleftrightarrow> (\<forall>c \<in> set s. 0 \<le> hexValue c)"
  by (induction s rule: parse_pairs.induct) (auto simp: Let_def not_less)

lemma length_concat_hex_bytes [simp]: "length (concat (map hex_byte bs)) = 2 * length bs"
  by (induction bs) (auto simp: hex_byte_def)

lemma parseHex_hex:
  assumes "wf_oid o'" and "\<not> isNull o'"
  shows "parseHex self (hex o') = (True, o')"
proof -
  let ?bs = "take (oid_length o') (oid_bytes o')"
  from assms have len: "length ?bs = oid_length o'" "oid_length o' \<in> {20, 32}"
    by (auto simp: wf_oid_def isNull_def kMaxBytes_def kSha1Bytes_def)
  then have "parseHex self (hex o') =
      (True, ObjectId (?bs @ replicate (kMaxBytes - oid_length o') 0) (oid_length o'))"
    by (auto simp: parseHex_def hex_def parse_pairs_hex_bytes simp del: length_take)
  moreover have "?bs @ replicate (kMaxBytes - oid_length o') 0 = oid_bytes o'"
    using assms(1) by (metis append_take_drop_id wf_oid_def)
  ultimately show ?thesis by simp
qed

text \<open>
  Printing a well-formed, non-null object id and parsing the text gives the id back: the
  hexadecimal form the application writes into argument vectors and log lines denotes exactly
  that id.
\<close>

theorem fromHex_hex:
  assumes "wf_oid o'" and "\<not> isNull o'"
  shows "fromHex (hex o') = o'"
  using parseHex_hex [OF assms] by (simp add: fromHex_def)

theorem fromHex_hex_witness:
  "wf_oid (ObjectId (replicate 20 171 @ replicate 12 0) 20) \<and>
   fromHex (hex (ObjectId (replicate 20 171 @ replicate 12 0) 20)) =
     ObjectId (replicate 20 171 @ replicate 12 0) 20"
proof -
  let ?o = "ObjectId (replicate 20 171 @ replicate 12 0) 20"
  have wf: "wf_oid ?o" by (simp add: wf_oid_def kMaxBytes_def kSha1Bytes_def)
  have "\<not> isNull ?o" by (simp add: isNull_def)
  from wf fromHex_hex [OF wf this] show ?thesis by simp
qed

text \<open>
  What a parse does to its target. On failure the target keeps its value: it is null afterwards only if it was null
  before.
\<close>

lemma parseHex_accepts:
  "case parseHex self s of (ok, o') \<Rightarrow>
     (ok \<longleftrightarrow> (length s = 40 \<or> length s = 64) \<and> list_all (\<lambda>c. 0 \<le> hexValue c) s) \<and>
     (if ok then hex o' = map hex_lower s \<and> wf_oid o' \<and> \<not> isNull o' else o' = self)"
proof (cases "length s = 40 \<or> length s = 64")
  case True
  then have ev: "even (length s)" by auto
  show ?thesis
  proof (cases "parse_pairs s")
    case None
    with parse_pairs_Some_iff [OF ev] show ?thesis
      by (auto simp: parseHex_def list_all_iff)
  next
    case (Some bs)
    from parse_pairs_length [OF this ev] True have "length bs = length s div 2" by auto
    with Some True parse_pairs_Some_iff [OF ev] hex_bytes_parse_pairs [OF Some ev] show ?thesis
      by (auto simp: parseHex_def hex_def list_all_iff isNull_def wf_oid_def kMaxBytes_def
          kSha1Bytes_def)
  qed
qed (simp add: parseHex_def)

lemma failed_parse_keeps_target: "\<not> fst (parseHex self s) \<Longrightarrow> snd (parseHex self s) = self"
  using parseHex_accepts [where self = self and s = s] by (auto split: prod.splits)

lemma hex_digits: "0 \<le> hexValue c \<longleftrightarrow> c \<in> set ''0123456789abcdefABCDEF''"
proof
  have ranges: "\<forall>n \<in> set ([48..<58] @ [65..<71] @ [97..<103]). (char_of (n :: nat) :: char) \<in> set ''0123456789abcdefABCDEF''" by code_simp
  assume "0 \<le> hexValue c"
  then have "(of_char c :: nat) \<in> {48..<58} \<union> ({65..<71} \<union> {97..<103})" by (auto simp: hexValue_def Let_def split: if_splits)
  then have "(of_char c :: nat) \<in> set ([48..<58] @ [65..<71] @ [97..<103])" by (simp only: set_append set_upt)
  with ranges have "(char_of (of_char c :: nat) :: char) \<in> set ''0123456789abcdefABCDEF''" by blast
  then show "c \<in> set ''0123456789abcdefABCDEF''" by simp
next
  have "\<forall>c \<in> set ''0123456789abcdefABCDEF''. 0 \<le> hexValue c" by code_simp
  then show "c \<in> set ''0123456789abcdefABCDEF'' \<Longrightarrow> 0 \<le> hexValue c" by blast
qed

text \<open>
  C40. Reading an object id from a text gives an id exactly for 40 or 64 hexadecimal digits, in either case; that id is
  well formed, prints as the same digits in lower case, and is read back from what it prints. Every other text gives
  the null id.
\<close>

theorem fromHex_accepts:
  "(\<not> isNull (fromHex s) \<longleftrightarrow> length s \<in> {40, 64} \<and> set s \<subseteq> set ''0123456789abcdefABCDEF'') \<and>
   wf_oid (fromHex s) \<and> hex (fromHex s) = (if isNull (fromHex s) then [] else map hex_lower s) \<and> fromHex (hex (fromHex s)) = fromHex s"
proof -
  have null: "isNull null_oid" "hex null_oid = []" "fromHex [] = null_oid" by (simp_all add: isNull_def hex_def null_oid_def fromHex_def parseHex_def)
  obtain ok oid where parsed: "parseHex null_oid s = (ok, oid)" by fastforce
  then have read: "fromHex s = oid" by (simp add: fromHex_def)
  have accepts: "ok \<longleftrightarrow> (length s = 40 \<or> length s = 64) \<and> list_all (\<lambda>c. 0 \<le> hexValue c) s"
    and result: "if ok then hex oid = map hex_lower s \<and> wf_oid oid \<and> \<not> isNull oid else oid = null_oid"
    using parseHex_accepts [where self = null_oid and s = s] by (simp_all add: parsed)
  have "list_all (\<lambda>c. 0 \<le> hexValue c) s \<longleftrightarrow> set s \<subseteq> set ''0123456789abcdefABCDEF''" unfolding list_all_iff hex_digits by blast
  with accepts have accepts': "ok \<longleftrightarrow> length s \<in> {40, 64} \<and> set s \<subseteq> set ''0123456789abcdefABCDEF''" by simp
  show ?thesis
  proof (cases ok)
    case True
    then have "fromHex (hex oid) = oid" using result parseHex_hex [of oid null_oid] by (simp add: fromHex_def)
    with True result accepts' show ?thesis unfolding read by presburger
  next
    case False
    with result accepts' null show ?thesis unfolding read by simp
  qed
qed

section \<open>The characters of a printed id\<close>

lemma hex_nibbles: "c \<in> set (hex oid) \<Longrightarrow> c \<in> set kDigits"
proof -
  have nib: "kDigits ! unat (drop_bit 4 b) \<in> set kDigits" "kDigits ! unat (b AND 15) \<in> set kDigits" for b :: "8 word"
  proof -
    have "length kDigits = 16" by (simp add: kDigits_def)
    then show "kDigits ! unat (drop_bit 4 b) \<in> set kDigits" "kDigits ! unat (b AND 15) \<in> set kDigits"
      using high_nibble_less [of b] low_nibble_less [of b] by (metis nth_mem)+
  qed
  assume "c \<in> set (hex oid)"
  then show ?thesis using nib by (auto simp: hex_def hex_byte_def)
qed

lemma hex_not_blank: "CHR '' '' \<notin> set (hex oid)" "nl \<notin> set (hex oid)" "cr \<notin> set (hex oid)" "CHR 0x09 \<notin> set (hex oid)"
  using hex_nibbles [of _ oid] by (force simp: kDigits_def)+

definition printable_oid :: "ObjectId \<Rightarrow> bool" where
  "printable_oid oid \<longleftrightarrow> wf_oid oid \<and> \<not> isNull oid"

lemma hex_nonempty: "printable_oid oid \<Longrightarrow> hex oid \<noteq> []"
  using parseHex_hex [of oid null_oid] by (auto simp: printable_oid_def parseHex_def)

lemma fromHex_printed: "printable_oid oid \<Longrightarrow> fromHex (hex oid) = oid"
  using parseHex_hex [of oid null_oid] by (simp add: printable_oid_def fromHex_def)

end
