(* ===== verification/GraphSnapshot.thy ===== *)
theory GraphSnapshot
  imports ObjectIds
begin

text \<open>
  \<^verbatim>\<open>src/core/graph/GraphSnapshot.h\<close> and \<^verbatim>\<open>GraphSnapshot.cpp\<close>: the
  published commit graph, its derived indices and the queries the paint path runs on them.
  Row, edge and lane numbers are natural numbers; where the source computes in
  \<^verbatim>\<open>std::uint32_t\<close> the wrap-around is written out with \<^const>\<open>u32\<close>.
\<close>

type_synonym RowId = nat
type_synonym LaneId = nat
type_synonym EdgeId = nat

definition kRowBoundary :: RowId where "kRowBoundary = 0xFFFFFFFF"
definition kMaxLanes :: LaneId where "kMaxLanes = 48"
definition kPaletteSize :: nat where "kPaletteSize = 12"
definition kBucketRows :: nat where "kBucketRows = 64"

datatype EdgeKind = FirstParent | MergeParent | Octopus

record RowMeta =
  rm_parentOffset :: nat
  rm_edgeOffset :: nat
  rm_commitTime :: nat
  rm_lane :: LaneId
  rm_color :: nat
  rm_flags :: "8 word"

definition FlagParentCountMask :: "8 word" where "FlagParentCountMask = 0x07"
definition FlagIsMerge :: "8 word" where "FlagIsMerge = 0x08"
definition FlagHasRefs :: "8 word" where "FlagHasRefs = 0x10"
definition FlagIsHead :: "8 word" where "FlagIsHead = 0x20"
definition FlagBoundary :: "8 word" where "FlagBoundary = 0x40"
definition FlagLaneOverflow :: "8 word" where "FlagLaneOverflow = 0x80"

definition rm_parentCount :: "RowMeta \<Rightarrow> 8 word" where
  "rm_parentCount m = rm_flags m AND FlagParentCountMask"

definition rm_isMerge :: "RowMeta \<Rightarrow> bool" where
  "rm_isMerge m \<longleftrightarrow> rm_flags m AND FlagIsMerge \<noteq> 0"

definition rm_isBoundary :: "RowMeta \<Rightarrow> bool" where
  "rm_isBoundary m \<longleftrightarrow> rm_flags m AND FlagBoundary \<noteq> 0"

definition rm_isOverflow :: "RowMeta \<Rightarrow> bool" where
  "rm_isOverflow m \<longleftrightarrow> rm_flags m AND FlagLaneOverflow \<noteq> 0"

record Edge =
  e_childRow :: RowId
  e_parentRow :: RowId
  e_lane :: LaneId
  e_childLane :: LaneId
  e_color :: nat
  e_kind :: EdgeKind

definition edge_end :: "Edge \<Rightarrow> RowId" where
  "edge_end e = (if e_parentRow e = kRowBoundary then u32 (e_childRow e + 1) else e_parentRow e)"

definition edge_spans :: "Edge \<Rightarrow> RowId \<Rightarrow> bool" where
  "edge_spans e row \<longleftrightarrow> e_childRow e \<le> row \<and> row \<le> edge_end e"

record GraphSnapshot =
  gs_oids :: "ObjectId list"
  gs_rows :: "RowMeta list"
  gs_parentPool :: "RowId list"
  gs_edges :: "Edge list"
  gs_laneCount :: LaneId
  gs_complete :: bool
  gs_truncated :: bool
  gs_overflowedEdges :: nat
  gs_edgeBucket :: "nat list"
  gs_bucketMaxLane :: "LaneId list"
  gs_oidOrder :: "RowId list"

definition empty_snapshot :: GraphSnapshot where
  "empty_snapshot = \<lparr>gs_oids = [], gs_rows = [], gs_parentPool = [], gs_edges = [],
     gs_laneCount = 0, gs_complete = False, gs_truncated = False, gs_overflowedEdges = 0,
     gs_edgeBucket = [], gs_bucketMaxLane = [], gs_oidOrder = []\<rparr>"

section \<open>Lookup by object id\<close>

text \<open>\<^verbatim>\<open>std::lower_bound\<close>: halve the range that still holds the first element not below the key.\<close>

function lower_bound :: "('a \<Rightarrow> bool) \<Rightarrow> 'a list \<Rightarrow> nat \<Rightarrow> nat \<Rightarrow> nat" where
  "lower_bound below xs first len =
     (if len = 0 then first
      else let step = len div 2
           in if below (xs ! (first + step))
              then lower_bound below xs (first + step + 1) (len - (step + 1))
              else lower_bound below xs first step)"
  by pat_completeness auto
termination
  by (relation "measure (\<lambda>(below, xs, first, len). len)") auto

declare lower_bound.simps [simp del]

definition findRow :: "GraphSnapshot \<Rightarrow> ObjectId \<Rightarrow> RowId option" where
  "findRow s oid =
     (let order = gs_oidOrder s;
          it = lower_bound (\<lambda>row. oid_less (gs_oids s ! row) oid) order 0 (length order)
      in if it = length order \<or> \<not> oid_eq (gs_oids s ! (order ! it)) oid then None
         else Some (order ! it))"

section \<open>Parents\<close>

definition parentCountOf :: "GraphSnapshot \<Rightarrow> RowId \<Rightarrow> nat" where
  "parentCountOf s row =
     (if row \<ge> length (gs_rows s) then 0
      else let begin' = rm_parentOffset (gs_rows s ! row);
               end' = (if u32 (row + 1) < length (gs_rows s)
                       then rm_parentOffset (gs_rows s ! u32 (row + 1))
                       else u32 (length (gs_parentPool s)))
           in if end' > begin' then end' - begin' else 0)"

definition parentsOf :: "GraphSnapshot \<Rightarrow> RowId \<Rightarrow> RowId list" where
  "parentsOf s row =
     (if row \<ge> length (gs_rows s) then []
      else let offset = rm_parentOffset (gs_rows s ! row)
           in map (\<lambda>i. gs_parentPool s ! u32 (offset + i))
                (filter (\<lambda>i. u32 (offset + i) < length (gs_parentPool s))
                   [0..<parentCountOf s row]))"

section \<open>The derived indices\<close>

text \<open>\<^verbatim>\<open>std::stable_sort\<close> with a comparator.\<close>

fun insort_by :: "('a \<Rightarrow> 'a \<Rightarrow> bool) \<Rightarrow> 'a \<Rightarrow> 'a list \<Rightarrow> 'a list" where
  "insort_by lt x [] = [x]"
| "insort_by lt x (y # ys) = (if lt y x then y # insort_by lt x ys else x # y # ys)"

definition stable_sort :: "('a \<Rightarrow> 'a \<Rightarrow> bool) \<Rightarrow> 'a list \<Rightarrow> 'a list" where
  "stable_sort lt xs = foldr (insort_by lt) xs []"

definition max_lane :: "RowMeta list \<Rightarrow> LaneId" where
  "max_lane rs = foldl (\<lambda>widest m. max widest (rm_lane m)) 0 rs"

text \<open>
  The loop over the buckets: advance past the edges already closed above the bucket, then record
  where the scan of the bucket starts and its widest lane.
\<close>

fun build_buckets :: "Edge list \<Rightarrow> RowMeta list \<Rightarrow> nat list \<Rightarrow> nat \<Rightarrow> (nat \<times> LaneId) list" where
  "build_buckets edges rows [] edgeIndex = []"
| "build_buckets edges rows (bucket # bs) edgeIndex =
     (let bucketStart = u32 (bucket * kBucketRows);
          edgeIndex' = edgeIndex +
            length (takeWhile (\<lambda>e. edge_end e < bucketStart) (drop edgeIndex edges));
          bucketEnd = min (u32 (bucketStart + kBucketRows)) (u32 (length rows));
          widest = max_lane (take (bucketEnd - bucketStart) (drop bucketStart rows))
      in (u32 edgeIndex', widest) # build_buckets edges rows bs edgeIndex')"

definition bucketCount :: "GraphSnapshot \<Rightarrow> nat" where
  "bucketCount s = (if gs_rows s = [] then 1 else length (gs_rows s) div kBucketRows + 1)"

definition finalizeIndices :: "GraphSnapshot \<Rightarrow> GraphSnapshot" where
  "finalizeIndices s =
     (let buckets = build_buckets (gs_edges s) (gs_rows s) [0..<bucketCount s] 0
      in s\<lparr>gs_oidOrder := stable_sort (\<lambda>a b. oid_less (gs_oids s ! a) (gs_oids s ! b))
                            [0..<length (gs_oids s)],
           gs_edgeBucket := map fst buckets,
           gs_bucketMaxLane := map snd buckets\<rparr>)"

section \<open>Range queries\<close>

definition edgesInRange :: "GraphSnapshot \<Rightarrow> RowId \<Rightarrow> RowId \<Rightarrow> Edge list" where
  "edgesInRange s firstRow lastRow =
     (if gs_edges s = [] \<or> gs_rows s = [] \<or> firstRow > lastRow then []
      else let bucket = min (firstRow div kBucketRows)
                 (if gs_edgeBucket s = [] then 0 else length (gs_edgeBucket s) - 1);
               index = (if gs_edgeBucket s = [] then 0 else gs_edgeBucket s ! bucket)
           in filter (\<lambda>e. edge_end e \<ge> firstRow)
                (takeWhile (\<lambda>e. \<not> e_childRow e > lastRow) (drop index (gs_edges s))))"

text \<open>What one bucket adds to the widest lane: its precomputed maximum, or a scan of its rows in range.\<close>

definition bucketWidest :: "GraphSnapshot \<Rightarrow> RowId \<Rightarrow> RowId \<Rightarrow> nat \<Rightarrow> LaneId" where
  "bucketWidest s firstRow lastRow bucket =
     (let bucketStart = u32 (bucket * kBucketRows);
          bucketEnd = u32 (bucketStart + kBucketRows - 1)
      in if bucketStart \<ge> firstRow \<and> bucketEnd \<le> lastRow then gs_bucketMaxLane s ! bucket
         else let scanFrom = max bucketStart firstRow;
                  scanTo = min bucketEnd lastRow
              in max_lane (take (scanTo + 1 - scanFrom) (drop scanFrom (gs_rows s))))"

definition maxLaneInRange :: "GraphSnapshot \<Rightarrow> RowId \<Rightarrow> RowId \<Rightarrow> LaneId" where
  "maxLaneInRange s firstRow lastRow0 =
     (if gs_rows s = [] then 0
      else let lastRow = min lastRow0 (u32 (length (gs_rows s)) - 1)
           in if firstRow > lastRow then 0
              else
                let buckets = filter (\<lambda>b. b < length (gs_bucketMaxLane s))
                      [firstRow div kBucketRows..<lastRow div kBucketRows + 1];
                    scanned = foldl (\<lambda>widest b. max widest (bucketWidest s firstRow lastRow b)) 0 buckets
                in foldl (\<lambda>widest e. max widest (max (e_lane e) (e_childLane e))) scanned
                     (edgesInRange s firstRow lastRow))"

section \<open>The sorted index\<close>

lemma insort_by_insort_key:
  "(\<And>y. y \<in> set ys \<Longrightarrow> lt y x \<longleftrightarrow> f y < (f x :: 'k::linorder)) \<Longrightarrow> insort_by lt x ys = insort_key f x ys"
  by (induction ys) (auto simp: not_le)

lemma set_insort_by [simp]: "set (insort_by lt x ys) = insert x (set ys)"
  by (induction ys) auto

lemma set_stable_sort [simp]: "set (stable_sort lt xs) = set xs"
  by (induction xs) (auto simp: stable_sort_def)

lemma stable_sort_sort_key:
  assumes "\<And>x y. x \<in> set xs \<Longrightarrow> y \<in> set xs \<Longrightarrow> lt x y \<longleftrightarrow> f x < (f y :: 'k::linorder)"
  shows "stable_sort lt xs = sort_key f xs"
  using assms
proof (induction xs)
  case Nil
  then show ?case by (simp add: stable_sort_def)
next
  case (Cons x xs)
  then have "stable_sort lt xs = sort_key f xs" by simp
  with Cons.prems show ?case by (auto simp: stable_sort_def intro!: insort_by_insort_key)
qed

text \<open>
  Binary search on a list whose elements below the key come first returns the length of that
  prefix, and so terminates at the position of the first element not below the key.
\<close>

lemma lower_bound_in:
  assumes "first + len \<le> length xs"
    and "\<And>i. i < first \<Longrightarrow> below (xs ! i)"
    and "\<And>i. first + len \<le> i \<Longrightarrow> i < length xs \<Longrightarrow> \<not> below (xs ! i)"
    and "\<And>i j. i \<le> j \<Longrightarrow> j < length xs \<Longrightarrow> below (xs ! j) \<Longrightarrow> below (xs ! i)"
  shows "lower_bound below xs first len = length (takeWhile below xs)"
  using assms
proof (induction below xs first len rule: lower_bound.induct)
  case (1 below xs first len)
  show ?case
  proof (cases "len = 0")
    case True
    have "takeWhile below xs = take first xs"
      using "1.prems" True by (intro takeWhile_eq_take_P_nth) auto
    with True "1.prems"(1) show ?thesis by (simp add: lower_bound.simps [of _ _ _ 0])
  next
    case False
    let ?step = "len div 2"
    have lt: "first + ?step < length xs" using False "1.prems"(1) by arith
    show ?thesis
    proof (cases "below (xs ! (first + ?step))")
      case True
      have "lower_bound below xs (first + ?step + 1) (len - (?step + 1)) = length (takeWhile below xs)"
      proof (rule "1.IH"(1) [OF False refl True])
        show "first + ?step + 1 + (len - (?step + 1)) \<le> length xs"
          using False "1.prems"(1) by arith
        show "below (xs ! i)" if "i < first + ?step + 1" for i
          using "1.prems"(4) [of i "first + ?step"] that lt True by simp
        show "\<not> below (xs ! i)" if "first + ?step + 1 + (len - (?step + 1)) \<le> i" "i < length xs" for i
          using "1.prems"(3) [of i] that False by auto
      qed (use "1.prems"(4) in blast)
      with False True show ?thesis by (simp add: lower_bound.simps [of _ _ _ len] Let_def)
    next
      case below: False
      have "lower_bound below xs first ?step = length (takeWhile below xs)"
      proof (rule "1.IH"(2) [OF False refl below])
        show "\<not> below (xs ! i)" if "first + ?step \<le> i" "i < length xs" for i
          using "1.prems"(4) [of "first + ?step" i] that below by blast
      qed (use "1.prems" lt in auto)
      with False below show ?thesis by (simp add: lower_bound.simps [of _ _ _ len] Let_def)
    qed
  qed
qed

lemma lower_bound_sorted:
  assumes "sorted (map f xs)"
  shows "lower_bound (\<lambda>x. f x < (k::'k::linorder)) xs 0 (length xs) = length (takeWhile (\<lambda>x. f x < k) xs)"
proof (rule lower_bound_in)
  show "f (xs ! i) < k" if "i \<le> j" "j < length xs" "f (xs ! j) < k" for i j
    using sorted_nth_mono [OF assms \<open>i \<le> j\<close>] that by simp
qed auto

lemma lower_bound_cong:
  "(\<And>x. x \<in> set xs \<Longrightarrow> below x = below' x) \<Longrightarrow> a + n \<le> length xs \<Longrightarrow>
     lower_bound below xs a n = lower_bound below' xs a n"
proof (induction below xs a n rule: lower_bound.induct)
  case (1 below xs a n)
  then show ?case
    by (simp add: lower_bound.simps [of _ _ _ n] Let_def)
qed

text \<open>The first row carrying an id: what a scan from row 0 would find.\<close>

definition first_row :: "ObjectId list \<Rightarrow> ObjectId \<Rightarrow> RowId option" where
  "first_row ids oid = find (\<lambda>r. ids ! r = oid) [0..<length ids]"

lemma find_hd_filter: "find P xs = (case filter P xs of [] \<Rightarrow> None | x # _ \<Rightarrow> Some x)"
  by (induction xs) auto

lemma hd_dropWhile_sorted:
  assumes "sorted (map f xs)"
  shows "(case dropWhile (\<lambda>x. f x < (k::'k::linorder)) xs of [] \<Rightarrow> None
            | x # _ \<Rightarrow> if f x = k then Some x else None) = find (\<lambda>x. f x = k) xs"
  using assms
proof (induction xs)
  case (Cons x xs)
  have "find (\<lambda>x. f x = k) xs = None" if "k < f x"
    using Cons.prems that by (auto simp: find_None_iff)
  with Cons show ?case by (auto simp: not_less)
qed simp

lemma sort_key_find:
  "find (\<lambda>x. f x = k) (sort_key f xs) = find (\<lambda>x. f x = (k::'k::linorder)) xs"
  by (simp add: find_hd_filter sort_key_stable)

text \<open>
  The search of \<^verbatim>\<open>findRow\<close> over any list sorted by a key: the position the binary search
  stops at holds the key exactly when a linear search would find it.
\<close>

lemma lower_bound_find:
  assumes sorted: "sorted (map f xs)"
    and cmp: "\<And>x. x \<in> set xs \<Longrightarrow> below x \<longleftrightarrow> f x < (k::'k::linorder)"
    and eq: "\<And>x. x \<in> set xs \<Longrightarrow> same x \<longleftrightarrow> f x = k"
  shows "(let it = lower_bound below xs 0 (length xs)
          in if it = length xs \<or> \<not> same (xs ! it) then None else Some (xs ! it)) =
         find (\<lambda>x. f x = k) xs"
proof -
  define it where "it = length (takeWhile (\<lambda>x. f x < k) xs)"
  have lb: "lower_bound below xs 0 (length xs) = it"
    using lower_bound_cong [of xs below "\<lambda>x. f x < k" 0 "length xs"] lower_bound_sorted [OF sorted]
    by (simp add: cmp it_def)
  have drop: "drop it xs = dropWhile (\<lambda>x. f x < k) xs"
    by (simp add: it_def dropWhile_eq_drop)
  have le: "it \<le> length xs" by (simp add: it_def length_takeWhile_le)
  have "(if it = length xs \<or> \<not> same (xs ! it) then None else Some (xs ! it)) =
      (case drop it xs of [] \<Rightarrow> None | x # _ \<Rightarrow> if f x = k then Some x else None)"
    using le eq [of "xs ! it"]
    by (cases "it < length xs") (auto simp: Cons_nth_drop_Suc [symmetric])
  with hd_dropWhile_sorted [OF sorted, of k] show ?thesis by (simp add: lb drop Let_def)
qed

lemma oidOrder_sorted:
  assumes "list_all wf_oid (gs_oids s)"
  shows "gs_oidOrder (finalizeIndices s) = sort_key (\<lambda>r. gs_oids s ! r) [0..<length (gs_oids s)]"
  using assms
  by (auto simp: finalizeIndices_def Let_def list_all_length intro!: stable_sort_sort_key oid_less_iff)

lemma finalizeIndices_frame [simp]:
  "gs_oids (finalizeIndices s) = gs_oids s" "gs_rows (finalizeIndices s) = gs_rows s"
  "gs_parentPool (finalizeIndices s) = gs_parentPool s" "gs_edges (finalizeIndices s) = gs_edges s"
  "gs_laneCount (finalizeIndices s) = gs_laneCount s"
  by (simp_all add: finalizeIndices_def Let_def)

text \<open>
  Looking an object id up in a published snapshot by binary search over the sorted row index
  returns exactly what a scan from row 0 would: the first row carrying the id, or nothing when no
  row does.
\<close>

theorem findRow_correct:
  assumes "list_all wf_oid (gs_oids s)" and "wf_oid oid"
  shows "findRow (finalizeIndices s) oid = first_row (gs_oids s) oid"
proof -
  let ?f = "\<lambda>r. gs_oids s ! r"
  define xs where "xs = gs_oidOrder (finalizeIndices s)"
  have xs: "xs = sort_key ?f [0..<length (gs_oids s)]"
    by (simp add: xs_def oidOrder_sorted [OF assms(1)])
  then have mem: "x \<in> set xs \<Longrightarrow> wf_oid (?f x)" for x
    using assms(1) by (simp add: list_all_length)
  have sorted: "sorted (map ?f xs)" by (simp add: xs)
  have "findRow (finalizeIndices s) oid = find (\<lambda>r. ?f r = oid) xs"
    using lower_bound_find [OF sorted, of "\<lambda>r. oid_less (?f r) oid" oid "\<lambda>r. oid_eq (?f r) oid"]
    by (simp add: findRow_def xs_def [symmetric] Let_def mem assms(2) oid_less_iff oid_eq_iff)
  then show ?thesis by (simp add: xs sort_key_find first_row_def)
qed

theorem findRow_correct_witness:
  "findRow (finalizeIndices (empty_snapshot\<lparr>gs_oids := [fromHex (replicate 40 CHR ''b''),
       fromHex (replicate 40 CHR ''a'')]\<rparr>)) (fromHex (replicate 40 CHR ''a'')) = Some 1"
proof -
  let ?s = "empty_snapshot\<lparr>gs_oids := [fromHex (replicate 40 CHR ''b''),
       fromHex (replicate 40 CHR ''a'')]\<rparr>"
  let ?a = "fromHex (replicate 40 CHR ''a'')"
  have wf: "list_all wf_oid (gs_oids ?s)" "wf_oid ?a" by simp_all
  have "hex ?a = replicate 40 CHR ''a''" "hex (fromHex (replicate 40 CHR ''b'')) = replicate 40 CHR ''b''"
    by code_simp+
  then have "fromHex (replicate 40 CHR ''b'') \<noteq> ?a" by auto
  then have "first_row (gs_oids ?s) ?a = Some 1"
    by (simp add: first_row_def numeral_2_eq_2)
  with findRow_correct [OF wf] show ?thesis by simp
qed

section \<open>The bucket index\<close>

text \<open>Every edge before the position a bucket records has ended above that bucket.\<close>

lemma build_buckets_length [simp]: "length (build_buckets es rs bs i) = length bs"
  by (induction bs arbitrary: i) (auto simp: Let_def)

lemma build_buckets_closed:
  assumes "sorted bs" and "\<And>b e. b \<in> set bs \<Longrightarrow> e \<in> set (take i es) \<Longrightarrow> edge_end e < b * kBucketRows"
    and "j < length bs" and "e \<in> set (take (fst (build_buckets es rs bs i ! j)) es)"
  shows "edge_end e < bs ! j * kBucketRows"
  using assms
proof (induction bs arbitrary: i j)
  case (Cons b bs)
  let ?closed = "\<lambda>e. edge_end e < u32 (b * kBucketRows)"
  define i' where "i' = i + length (takeWhile ?closed (drop i es))"
  have "take i' es = take i es @ takeWhile ?closed (drop i es)"
    by (simp add: i'_def take_add takeWhile_eq_take [symmetric])
  then have upto: "edge_end e < b * kBucketRows" if "e \<in> set (take i' es)" for e
    using that Cons.prems(2) [of b e] u32_le [of "b * kBucketRows"] by (auto dest!: set_takeWhileD)
  have le: "b \<le> b'" if "b' \<in> set bs" for b' using Cons.prems(1) that by simp
  have later: "edge_end e < b' * kBucketRows" if "b' \<in> set bs" "e \<in> set (take i' es)" for b' e
    using upto [OF that(2)] mult_le_mono1 [OF le [OF that(1)], of kBucketRows] by linarith
  show ?case
  proof (cases j)
    case 0
    then have "e \<in> set (take i' es)"
      using Cons.prems(4) set_take_subset_set_take [OF u32_le [of i'], of es]
      by (auto simp: i'_def Let_def)
    with upto 0 show ?thesis by simp
  next
    case (Suc j')
    with Cons.prems(3,4) have "j' < length bs" "e \<in> set (take (fst (build_buckets es rs bs i' ! j')) es)"
      by (simp_all add: Let_def i'_def)
    with Cons.IH [of i' j'] later Cons.prems(1) Suc show ?thesis by simp
  qed
qed simp

lemma edgeBucket_closed:
  assumes "j < bucketCount s" and "e \<in> set (take (gs_edgeBucket (finalizeIndices s) ! j) (gs_edges s))"
  shows "edge_end e < j * kBucketRows"
  using build_buckets_closed [of "[0..<bucketCount s]" 0 "gs_edges s" j e "gs_rows s"] assms
  by (simp add: finalizeIndices_def Let_def)

lemma bucketCount_pos: "0 < bucketCount s"
  by (simp add: bucketCount_def)

lemma edgeBucket_length [simp]: "length (gs_edgeBucket (finalizeIndices s)) = bucketCount s"
  by (simp add: finalizeIndices_def Let_def)

text \<open>
  The paint-path query is exact. On a finalised snapshot whose edges are sorted by child row,
  asking for the edges of a row range returns every edge that overlaps the range and no other, in
  order, although the scan starts at the bucket of the first row and stops at the last row.
\<close>

theorem edgesInRange_exact:
  assumes "sorted (map e_childRow (gs_edges s))" and "gs_rows s \<noteq> []" and "lo \<le> hi"
  shows "edgesInRange (finalizeIndices s) lo hi =
    filter (\<lambda>e. e_childRow e \<le> hi \<and> lo \<le> edge_end e) (gs_edges s)"
proof -
  define j where "j = min (lo div kBucketRows) (bucketCount s - 1)"
  define i where "i = gs_edgeBucket (finalizeIndices s) ! j"
  let ?es = "gs_edges s"
  have j: "j < bucketCount s" using bucketCount_pos [of s] by (simp add: j_def min_less_iff_disj)
  have "j \<le> lo div kBucketRows" by (simp add: j_def)
  then have "j * kBucketRows \<le> lo"
    by (metis div_times_less_eq_dividend le_trans mult_le_mono1)
  then have closed: "\<not> lo \<le> edge_end e" if "e \<in> set (take i ?es)" for e
    using edgeBucket_closed [OF j, of e] that by (simp add: i_def not_le)
  have ne: "gs_edgeBucket (finalizeIndices s) \<noteq> []"
    using bucketCount_pos [of s] edgeBucket_length [of s] by (metis length_0_conv less_not_refl)
  have "edgesInRange (finalizeIndices s) lo hi =
      filter (\<lambda>e. lo \<le> edge_end e) (takeWhile (\<lambda>e. e_childRow e \<le> hi) (drop i ?es))"
    using assms(2,3) ne by (cases "?es = []") (auto simp: edgesInRange_def Let_def i_def j_def not_less)
  also have "takeWhile (\<lambda>e. e_childRow e \<le> hi) (drop i ?es) =
      filter (\<lambda>e. e_childRow e \<le> hi) (drop i ?es)"
    using assms(1) by (intro filter_eq_takeWhile_sorted [symmetric]) (simp add: sorted_wrt_drop flip: drop_map)
  also have "filter (\<lambda>e. lo \<le> edge_end e) (filter (\<lambda>e. e_childRow e \<le> hi) (drop i ?es)) =
      filter (\<lambda>e. e_childRow e \<le> hi \<and> lo \<le> edge_end e) (take i ?es @ drop i ?es)"
    unfolding filter_append using closed by (simp add: filter_empty_conv conj_commute)
  finally show ?thesis by simp
qed

text \<open>A two-row snapshot with one edge, shared by the witnesses of the range queries.\<close>

definition demo_snapshot :: GraphSnapshot where
  "demo_snapshot = empty_snapshot\<lparr>
     gs_rows := [\<lparr>rm_parentOffset = 0, rm_edgeOffset = 0, rm_commitTime = 7, rm_lane = 0, rm_color = 0, rm_flags = 1\<rparr>,
                 \<lparr>rm_parentOffset = 1, rm_edgeOffset = 1, rm_commitTime = 5, rm_lane = 2, rm_color = 3, rm_flags = 0\<rparr>],
     gs_parentPool := [1],
     gs_edges := [\<lparr>e_childRow = 0, e_parentRow = 1, e_lane = 3, e_childLane = 0, e_color = 0, e_kind = FirstParent\<rparr>]\<rparr>"

theorem edgesInRange_exact_witness:
  "edgesInRange (finalizeIndices demo_snapshot) 1 5 = gs_edges demo_snapshot"
  using edgesInRange_exact [of demo_snapshot 1 5]
  by (simp add: demo_snapshot_def edge_end_def kRowBoundary_def)

section \<open>The widest lane of a range\<close>

definition lane_bound :: "nat set \<Rightarrow> nat" where
  "lane_bound A = Max (insert 0 A)"

lemma foldl_max: "foldl (\<lambda>w x. max w (g x)) a xs = Max (insert (a::'a::linorder) (g ` set xs))"
proof (induction xs arbitrary: a)
  case (Cons x xs)
  have "Max (insert (max a (g x)) (g ` set xs)) = Max (insert a (insert (g x) (g ` set xs)))"
    by (cases "set xs = {}") (simp_all add: max.assoc)
  with Cons show ?case by simp
qed simp

lemma lane_bound_le_iff: "finite A \<Longrightarrow> lane_bound A \<le> b \<longleftrightarrow> (\<forall>x \<in> A. x \<le> b)"
  by (simp add: lane_bound_def)

lemma lane_bound_ge: "finite A \<Longrightarrow> x \<in> A \<Longrightarrow> x \<le> lane_bound A"
  by (simp add: lane_bound_def)

lemma lane_bound_Un: "finite A \<Longrightarrow> finite B \<Longrightarrow> lane_bound (A \<union> B) = max (lane_bound A) (lane_bound B)"
  using Max_Un [of "insert 0 A" "insert 0 B"] by (simp add: lane_bound_def)

lemma foldl_max_lane: "foldl (\<lambda>w x. max w (g x)) a xs = max a (lane_bound (g ` set xs))"
  by (cases "set xs = {}") (auto simp: foldl_max lane_bound_def)

lemma lane_bound_UN:
  assumes "finite I" "\<And>i. i \<in> I \<Longrightarrow> finite (A i)"
  shows "lane_bound ((\<lambda>i. lane_bound (A i)) ` I) = lane_bound (\<Union>i \<in> I. A i)"
proof (rule order.antisym)
  show "lane_bound ((\<lambda>i. lane_bound (A i)) ` I) \<le> lane_bound (\<Union>i \<in> I. A i)"
    using assms by (auto simp: lane_bound_le_iff intro!: lane_bound_ge)
  show "lane_bound (\<Union>i \<in> I. A i) \<le> lane_bound ((\<lambda>i. lane_bound (A i)) ` I)"
    using assms
    by (auto simp: lane_bound_le_iff intro!: order_trans [OF lane_bound_ge [of "A _"] lane_bound_ge])
qed

lemma max_lane_slice:
  "y \<le> length rs \<Longrightarrow> max_lane (take (y - x) (drop x rs)) = lane_bound ((\<lambda>r. rm_lane (rs ! r)) ` {x..<y})"
proof -
  assume y: "y \<le> length rs"
  have "set (take (y - x) (drop x rs)) = (!) rs ` {x..<y}"
  proof (cases "x \<le> y")
    case True
    with y have "take (y - x) (drop x rs) = map ((!) rs) [x..<y]"
      by (intro nth_equalityI) auto
    then show ?thesis by simp
  qed simp
  then show ?thesis
    by (simp add: max_lane_def foldl_max lane_bound_def image_image)
qed

lemma build_buckets_snd:
  "j < length bs \<Longrightarrow> snd (build_buckets es rs bs i ! j) =
     (let start = u32 (bs ! j * kBucketRows); stop = min (u32 (start + kBucketRows)) (u32 (length rs))
      in max_lane (take (stop - start) (drop start rs)))"
proof (induction bs arbitrary: i j)
  case (Cons b bs)
  then show ?case by (cases j) (simp_all add: Let_def)
qed simp

lemma bucketMaxLane_full:
  assumes "length (gs_rows s) + kBucketRows < 2 ^ 32"
    and "b * kBucketRows + kBucketRows \<le> length (gs_rows s)"
  shows "gs_bucketMaxLane (finalizeIndices s) ! b =
    lane_bound ((\<lambda>r. rm_lane (gs_rows s ! r)) ` {b * kBucketRows..<b * kBucketRows + kBucketRows})"
proof -
  let ?rs = "gs_rows s"
  have "(b + 1) * kBucketRows \<le> length ?rs" using assms(2) by simp
  then have "b + 1 \<le> length ?rs div kBucketRows"
    by (simp add: less_eq_div_iff_mult_less_eq kBucketRows_def)
  then have "b < bucketCount s" by (auto simp: bucketCount_def)
  then have "gs_bucketMaxLane (finalizeIndices s) ! b =
      max_lane (take (b * kBucketRows + kBucketRows - b * kBucketRows) (drop (b * kBucketRows) ?rs))"
    using assms
    by (simp add: finalizeIndices_def Let_def build_buckets_snd)
  then show ?thesis using assms(2) by (simp only: max_lane_slice)
qed

text \<open>The rows of one bucket that lie in a range; over the buckets the query visits they make up the range.\<close>

definition bucket_slice :: "nat \<Rightarrow> nat \<Rightarrow> nat \<Rightarrow> nat set" where
  "bucket_slice lo hi b = {max (b * kBucketRows) lo..<min (b * kBucketRows + kBucketRows) (hi + 1)}"

lemma bucket_slices_cover:
  "(\<Union>b \<in> set [lo div kBucketRows..<hi div kBucketRows + 1]. bucket_slice lo hi b) = {lo..hi}"
proof (intro equalityI subsetI)
  fix r assume "r \<in> {lo..hi}"
  then have "r div kBucketRows \<in> set [lo div kBucketRows..<hi div kBucketRows + 1] \<and>
      r \<in> bucket_slice lo hi (r div kBucketRows)"
    by (auto simp: bucket_slice_def kBucketRows_def div_le_mono less_Suc_eq_le)
  then show "r \<in> (\<Union>b \<in> set [lo div kBucketRows..<hi div kBucketRows + 1]. bucket_slice lo hi b)"
    by blast
qed (auto simp: bucket_slice_def)

lemma bucketWidest_slice:
  assumes "length (gs_rows s) + kBucketRows < 2 ^ 32" and "hi < length (gs_rows s)"
    and "b * kBucketRows \<le> hi"
  shows "bucketWidest (finalizeIndices s) lo hi b =
    lane_bound ((\<lambda>r. rm_lane (gs_rows s ! r)) ` bucket_slice lo hi b)"
proof -
  from assms have start: "u32 (b * kBucketRows) = b * kBucketRows"
    and stop: "u32 (b * kBucketRows + kBucketRows - 1) = b * kBucketRows + kBucketRows - 1"
    by (simp_all add: kBucketRows_def)
  show ?thesis
  proof (cases "lo \<le> b * kBucketRows \<and> b * kBucketRows + kBucketRows - 1 \<le> hi")
    case True
    then have "b * kBucketRows + kBucketRows \<le> length (gs_rows s)"
      "bucket_slice lo hi b = {b * kBucketRows..<b * kBucketRows + kBucketRows}"
      using assms(2) by (auto simp: bucket_slice_def min_def max_def kBucketRows_def)
    with True bucketMaxLane_full [OF assms(1)] show ?thesis
      by (simp add: bucketWidest_def Let_def start stop del: One_nat_def)
  next
    case False
    have "min (b * kBucketRows + kBucketRows - 1) hi + 1 = min (b * kBucketRows + kBucketRows) (hi + 1)"
      by (simp add: kBucketRows_def)
    with False assms(2) show ?thesis
      by (auto simp: bucketWidest_def Let_def start stop max_lane_slice bucket_slice_def
          simp del: One_nat_def Suc_eq_plus1)
  qed
qed

lemma buckets_all_indexed:
  assumes "hi < length (gs_rows s)"
  shows "filter (\<lambda>b. b < length (gs_bucketMaxLane (finalizeIndices s)))
      [lo div kBucketRows..<hi div kBucketRows + 1] = [lo div kBucketRows..<hi div kBucketRows + 1]"
proof -
  have "hi div kBucketRows < bucketCount s"
    using assms div_le_mono [of hi "length (gs_rows s)" kBucketRows] by (auto simp: bucketCount_def)
  then show ?thesis by (auto simp: finalizeIndices_def Let_def intro!: filter_True)
qed

text \<open>
  The gutter width is right. On a finalised snapshot, the widest lane reported for a row range
  is the largest lane of any row of the range and of any edge overlapping it, although whole
  64-row buckets are answered from precomputed maxima.
\<close>

theorem maxLaneInRange_exact:
  assumes "length (gs_rows s) + kBucketRows < 2 ^ 32"
    and "sorted (map e_childRow (gs_edges s))"
    and "lo \<le> hi" and "hi < length (gs_rows s)"
  shows "maxLaneInRange (finalizeIndices s) lo hi =
    lane_bound ((\<lambda>r. rm_lane (gs_rows s ! r)) ` {lo..hi} \<union>
      (\<Union>e \<in> {e \<in> set (gs_edges s). e_childRow e \<le> hi \<and> lo \<le> edge_end e}. {e_lane e, e_childLane e}))"
proof -
  let ?L = "\<lambda>r. rm_lane (gs_rows s ! r)"
  let ?E = "{e \<in> set (gs_edges s). e_childRow e \<le> hi \<and> lo \<le> edge_end e}"
  define bs where "bs = [lo div kBucketRows..<hi div kBucketRows + 1]"
  have in_bs: "b * kBucketRows \<le> hi" if "b \<in> set bs" for b
    using that by (simp add: bs_def kBucketRows_def) arith
  have "foldl (\<lambda>w b. max w (bucketWidest (finalizeIndices s) lo hi b)) 0 bs =
      lane_bound ((\<lambda>b. lane_bound (?L ` bucket_slice lo hi b)) ` set bs)"
    by (simp add: foldl_max_lane bucketWidest_slice [OF assms(1,4)] in_bs)
  also have "\<dots> = lane_bound (?L ` {lo..hi})"
    unfolding bucket_slices_cover [symmetric] bs_def
    by (subst lane_bound_UN) (auto simp: bucket_slice_def image_UN)
  finally have rows: "foldl (\<lambda>w b. max w (bucketWidest (finalizeIndices s) lo hi b)) 0 bs =
      lane_bound (?L ` {lo..hi})" .
  have edges: "set (edgesInRange (finalizeIndices s) lo hi) = ?E"
    using assms(2-4) by (subst edgesInRange_exact) auto
  have "min hi (u32 (length (gs_rows s)) - 1) = hi" "gs_rows s \<noteq> []" using assms(1,4) by auto
  then have "maxLaneInRange (finalizeIndices s) lo hi =
      foldl (\<lambda>w e. max w (max (e_lane e) (e_childLane e))) (lane_bound (?L ` {lo..hi}))
        (edgesInRange (finalizeIndices s) lo hi)"
    using assms(3) buckets_all_indexed [OF assms(4), of lo]
    by (simp add: maxLaneInRange_def Let_def rows [symmetric] bs_def)
  also have "\<dots> = max (lane_bound (?L ` {lo..hi}))
      (lane_bound ((\<lambda>e. lane_bound {e_lane e, e_childLane e}) ` ?E))"
    by (simp add: foldl_max_lane edges lane_bound_def)
  also have "\<dots> = lane_bound (?L ` {lo..hi} \<union> (\<Union>e \<in> ?E. {e_lane e, e_childLane e}))"
    by (simp add: lane_bound_UN lane_bound_Un)
  finally show ?thesis .
qed

theorem maxLaneInRange_exact_witness:
  "maxLaneInRange (finalizeIndices demo_snapshot) 0 1 = 3"
proof -
  have "{0..Suc 0} = {0, 1}" by auto
  moreover have "{e \<in> set (gs_edges demo_snapshot). e_childRow e \<le> 1 \<and> 0 \<le> edge_end e} = set (gs_edges demo_snapshot)"
    by (auto simp: demo_snapshot_def)
  ultimately show ?thesis
    using maxLaneInRange_exact [of demo_snapshot 0 1]
    by (simp add: demo_snapshot_def kBucketRows_def lane_bound_def)
qed

end
