(* ===== verification/LaneAllocator.thy ===== *)
theory LaneAllocator
  imports GraphSnapshot
begin

text \<open>
  \<^verbatim>\<open>src/core/graph/LaneAllocator.h\<close>: the columns of the commit graph. Occupancy is
  the 64-bit mask of the source, kept as a \<^typ>\<open>64 word\<close>; the two allocation policies are
  the mask-and-count-trailing-zeros queries, refined here to searches over the set of free lanes.
  The interface the graph builder relies on is the locale \<open>lane_pool\<close>.
\<close>

record LaneAllocator =
  la_used :: "64 word"
  la_highWater :: LaneId
  la_seeds :: "ObjectId list"
  la_colors :: "nat list"

definition new_lanes :: LaneAllocator where
  "new_lanes = \<lparr>la_used = 0, la_highWater = 0, la_seeds = replicate kMaxLanes null_oid,
     la_colors = replicate kMaxLanes 0\<rparr>"

section \<open>Occupancy\<close>

definition kOverflowLane :: LaneId where "kOverflowLane = kMaxLanes"

definition isOverflow :: "LaneId \<Rightarrow> bool" where
  "isOverflow lane \<longleftrightarrow> lane \<ge> kMaxLanes"

text \<open>
  Shift right until the lowest bit is set. The source never calls it on 0, where the builtin is
  undefined; the model answers the width there.
\<close>

function countTrailingZeros :: "64 word \<Rightarrow> nat" where
  "countTrailingZeros v =
     (if v = 0 then 64
      else if v AND 1 = 0 then Suc (countTrailingZeros (drop_bit 1 v)) else 0)"
  by pat_completeness auto
termination
proof (relation "measure unat")
  fix v :: "64 word"
  assume "v \<noteq> 0"
  then have "0 < unat v" by (simp add: unat_gt_0)
  then show "(drop_bit 1 v, v) \<in> measure unat"
    by (simp add: drop_bit_eq_div unat_div)
qed simp

declare countTrailingZeros.simps [simp del]

definition markUsed :: "LaneAllocator \<Rightarrow> LaneId \<Rightarrow> LaneAllocator" where
  "markUsed la lane =
     (let la' = la\<lparr>la_used := la_used la OR push_bit lane 1\<rparr>
      in if lane + 1 > la_highWater la then la'\<lparr>la_highWater := lane + 1\<rparr> else la')"

definition lowestFreeAtOrAfter :: "LaneAllocator \<Rightarrow> LaneId \<Rightarrow> LaneId" where
  "lowestFreeAtOrAfter la start =
     (if start \<ge> kMaxLanes then kOverflowLane
      else let mask = NOT (la_used la) AND push_bit start (NOT 0)
           in if mask = 0 then kOverflowLane
              else let index = countTrailingZeros mask
                   in if index \<ge> kMaxLanes then kOverflowLane else index)"

definition allocateLeftmost :: "LaneAllocator \<Rightarrow> LaneId \<times> LaneAllocator" where
  "allocateLeftmost la =
     (let lane = lowestFreeAtOrAfter la 0
      in if isOverflow lane then (kOverflowLane, la) else (lane, markUsed la lane))"

definition allocateAfter :: "LaneAllocator \<Rightarrow> LaneId \<Rightarrow> LaneId \<times> LaneAllocator" where
  "allocateAfter la after =
     (if isOverflow after then (kOverflowLane, la)
      else let lane = lowestFreeAtOrAfter la (after + 1)
           in if isOverflow lane then (kOverflowLane, la) else (lane, markUsed la lane))"

definition reserve :: "LaneAllocator \<Rightarrow> LaneId \<Rightarrow> LaneAllocator" where
  "reserve la lane = (if isOverflow lane then la else markUsed la lane)"

definition release :: "LaneAllocator \<Rightarrow> LaneId \<Rightarrow> LaneAllocator" where
  "release la lane =
     (if isOverflow lane then la
      else la\<lparr>la_used := la_used la AND NOT (push_bit lane 1)\<rparr>)"

definition inUse :: "LaneAllocator \<Rightarrow> LaneId \<Rightarrow> bool" where
  "inUse la lane \<longleftrightarrow> \<not> isOverflow lane \<and> la_used la AND push_bit lane 1 \<noteq> 0"

section \<open>Colours\<close>

definition kNoNeighbor :: int where "kNoNeighbor = - 1"
definition kNeighborWindow :: nat where "kNeighborWindow = 5"
definition kMinColorSeparation :: int where "kMinColorSeparation = 3"

definition requiredSeparation :: "nat \<Rightarrow> int" where
  "requiredSeparation columns =
     (if columns = 1 then kMinColorSeparation
      else if columns = 2 then 2
      else if columns \<le> kNeighborWindow then 1 else 0)"

definition penaltyWeight :: "nat \<Rightarrow> int" where
  "penaltyWeight columns = (if columns = 1 then 100 else if columns = 2 then 10 else 1)"

definition colorDistance :: "int \<Rightarrow> int \<Rightarrow> int" where
  "colorDistance a b = (let d = \<bar>a - b\<bar> in min d (int kPaletteSize - d))"

definition shortfall :: "int \<Rightarrow> int \<Rightarrow> nat \<Rightarrow> int" where
  "shortfall candidate neighbor columns =
     (if neighbor = kNoNeighbor then 0
      else let missing = requiredSeparation columns - colorDistance candidate neighbor
           in if missing \<le> 0 then 0 else missing * penaltyWeight columns)"

definition crowdingOf :: "int \<Rightarrow> int list \<Rightarrow> int list \<Rightarrow> int" where
  "crowdingOf candidate left right =
     foldl (\<lambda>total i. total + shortfall candidate (left ! i) (i + 1) + shortfall candidate (right ! i) (i + 1))
       0 [0..<kNeighborWindow]"

definition kChoices :: int where "kChoices = int kPaletteSize - 1"

definition probe_candidate :: "int \<Rightarrow> nat \<Rightarrow> int" where
  "probe_candidate base step =
     (let offset = (if step mod 2 = 0 then int (step div 2) else - int ((step + 1) div 2));
          index = (base - 1 + offset + kChoices * 2) mod kChoices
      in 1 + index)"

text \<open>The probing loop: return the first uncrowded candidate, else the least crowded one so far.\<close>

fun probe :: "int list \<Rightarrow> int list \<Rightarrow> int \<Rightarrow> nat list \<Rightarrow> int \<Rightarrow> int \<Rightarrow> int" where
  "probe left right base [] best bestPenalty = best"
| "probe left right base (step # steps) best bestPenalty =
     (let candidate = probe_candidate base step;
          penalty = crowdingOf candidate left right
      in if penalty = 0 then candidate
         else if bestPenalty < 0 \<or> penalty < bestPenalty
         then probe left right base steps candidate penalty
         else probe left right base steps best bestPenalty)"

definition seed_base :: "ObjectId \<Rightarrow> int" where
  "seed_base oid = 1 + uint (oid_hash oid) mod kChoices"

definition colorForSeed :: "LaneId \<Rightarrow> ObjectId \<Rightarrow> int list \<Rightarrow> int list \<Rightarrow> nat" where
  "colorForSeed lane oid left right =
     (if lane = 0 then 0
      else let base = seed_base oid
           in nat (probe left right base [0..<nat kChoices] base (- 1)))"

definition neighborColor :: "LaneAllocator \<Rightarrow> LaneId \<Rightarrow> int \<Rightarrow> int" where
  "neighborColor la lane delta =
     (let index = int lane + delta
      in if index < 0 \<or> index \<ge> int kMaxLanes then kNoNeighbor
         else if inUse la (nat index) then int (la_colors la ! nat index) else kNoNeighbor)"

definition sideColors :: "LaneAllocator \<Rightarrow> LaneId \<Rightarrow> int \<Rightarrow> int list" where
  "sideColors la lane direction =
     map (\<lambda>i. neighborColor la lane (direction * (int i + 1))) [0..<kNeighborWindow]"

definition seed :: "LaneAllocator \<Rightarrow> LaneId \<Rightarrow> ObjectId \<Rightarrow> LaneAllocator" where
  "seed la lane oid =
     (if isOverflow lane then la
      else let la' = la\<lparr>la_seeds := (la_seeds la)[lane := oid]\<rparr>
           in la'\<lparr>la_colors := (la_colors la')
                [lane := colorForSeed lane oid (sideColors la' lane (- 1)) (sideColors la' lane 1)]\<rparr>)"

definition colorOf :: "LaneAllocator \<Rightarrow> LaneId \<Rightarrow> nat" where
  "colorOf la lane = (if isOverflow lane then 0 else la_colors la ! lane)"

definition seedOf :: "LaneAllocator \<Rightarrow> LaneId \<Rightarrow> ObjectId" where
  "seedOf la lane = (if isOverflow lane then null_oid else la_seeds la ! lane)"

section \<open>The mask as a set of lanes\<close>

definition occupied :: "LaneAllocator \<Rightarrow> LaneId set" where
  "occupied la = {lane. lane < kMaxLanes \<and> bit (la_used la) lane}"

lemma inUse_iff: "inUse la lane \<longleftrightarrow> lane \<in> occupied la"
  by (auto simp: inUse_def occupied_def isOverflow_def bit_iff_and_push_bit_not_eq_0)

lemma countTrailingZeros_least:
  "v \<noteq> 0 \<Longrightarrow> bit v (countTrailingZeros v) \<and> (\<forall>i < countTrailingZeros v. \<not> bit v i)"
proof (induction v rule: countTrailingZeros.induct)
  case (1 v)
  show ?case
  proof (cases "even v")
    case True
    then have z: "v AND 1 = 0" by (simp add: and_one_eq even_iff_mod_2_eq_zero)
    have "v div 2 \<noteq> 0"
      using True "1.prems" mult_div_mod_eq [of 2 v] by (auto simp: even_iff_mod_2_eq_zero)
    with "1.IH" [OF "1.prems" z] have "bit (v div 2) (countTrailingZeros (v div 2)) \<and>
        (\<forall>i < countTrailingZeros (v div 2). \<not> bit (v div 2) i)"
      by (simp add: drop_bit_eq_div)
    moreover have "countTrailingZeros v = Suc (countTrailingZeros (v div 2))"
      using z "1.prems" by (simp add: countTrailingZeros.simps [of v] drop_bit_eq_div)
    ultimately show ?thesis
      using True by (auto simp: bit_Suc bit_0 less_Suc_eq_0_disj)
  next
    case False
    then have "v AND 1 \<noteq> 0" by (simp add: and_one_eq odd_iff_mod_2_eq_one)
    with False "1.prems" show ?thesis
      by (simp add: countTrailingZeros.simps [of v] bit_0)
  qed
qed

text \<open>The two mask queries find the lowest free lane at or after a start, or report overflow.\<close>

lemma lowestFree_spec:
  "if {start..<kMaxLanes} \<subseteq> occupied la then lowestFreeAtOrAfter la start = kOverflowLane
   else lowestFreeAtOrAfter la start < kMaxLanes \<and>
     start \<le> lowestFreeAtOrAfter la start \<and> lowestFreeAtOrAfter la start \<notin> occupied la \<and>
     {start..<lowestFreeAtOrAfter la start} \<subseteq> occupied la"
proof (cases "start < kMaxLanes")
  case False
  then show ?thesis by (simp add: lowestFreeAtOrAfter_def)
next
  case True
  define mask where "mask = NOT (la_used la) AND push_bit start (NOT 0)"
  have bits: "bit mask i \<longleftrightarrow> i < 64 \<and> start \<le> i \<and> \<not> bit (la_used la) i" for i
    by (auto simp: mask_def bit_simps)
  have eq: "lowestFreeAtOrAfter la start =
      (if mask = 0 \<or> countTrailingZeros mask \<ge> kMaxLanes then kOverflowLane else countTrailingZeros mask)"
    using True by (simp add: lowestFreeAtOrAfter_def mask_def Let_def)
  show ?thesis
  proof (cases "mask = 0")
    case True
    then have "\<not> bit mask i" for i by simp
    with bits have "{start..<kMaxLanes} \<subseteq> occupied la"
      by (auto simp: occupied_def kMaxLanes_def)
    with True show ?thesis by (simp add: eq)
  next
    case False
    from countTrailingZeros_least [OF False] bits
    have ctz: "start \<le> countTrailingZeros mask" "\<not> bit (la_used la) (countTrailingZeros mask)"
      and below: "start \<le> i \<Longrightarrow> i < countTrailingZeros mask \<Longrightarrow> i < 64 \<Longrightarrow> bit (la_used la) i" for i
      by auto
    show ?thesis
    proof (cases "countTrailingZeros mask < kMaxLanes")
      case True
      with ctz below False show ?thesis
        by (auto simp: eq occupied_def kMaxLanes_def)
    next
      case over: False
      then have "{start..<kMaxLanes} \<subseteq> occupied la"
        using below by (auto simp: occupied_def kMaxLanes_def)
      with over show ?thesis by (simp add: eq)
    qed
  qed
qed

lemma occupied_markUsed [simp]:
  "lane < kMaxLanes \<Longrightarrow> occupied (markUsed la lane) = insert lane (occupied la)"
  by (auto simp: occupied_def markUsed_def Let_def bit_simps kMaxLanes_def)

lemma occupied_release:
  "occupied (release la lane) = occupied la - {lane}"
  by (auto simp: occupied_def release_def isOverflow_def bit_simps kMaxLanes_def)

lemma occupied_reserve:
  "occupied (reserve la lane) = (if lane < kMaxLanes then insert lane (occupied la) else occupied la)"
  by (simp add: reserve_def isOverflow_def)

lemma occupied_seed [simp]: "occupied (seed la lane oid) = occupied la"
  by (simp add: seed_def occupied_def Let_def)

lemma occupied_new_lanes [simp]: "occupied new_lanes = {}"
  by (simp add: occupied_def new_lanes_def)

lemma occupied_less: "lane \<in> occupied la \<Longrightarrow> lane < kMaxLanes"
  by (simp add: occupied_def)

section \<open>The interface of a lane pool\<close>

text \<open>
  What the graph builder relies on: an allocation hands out a free lane and takes it, leftmost
  or strictly to the right of a given lane, and answers the overflow lane, changing nothing,
  only when there is none; a release frees one lane and no other.
\<close>

locale lane_pool =
  fixes taken :: "'p \<Rightarrow> nat set"
    and cap :: nat
    and leftmost :: "'p \<Rightarrow> nat \<times> 'p"
    and after :: "'p \<Rightarrow> nat \<Rightarrow> nat \<times> 'p"
    and free :: "'p \<Rightarrow> nat \<Rightarrow> 'p"
  assumes taken_bound: "taken p \<subseteq> {..<cap}"
    and leftmost_ok: "leftmost p = (l, p') \<Longrightarrow> l < cap \<Longrightarrow>
      l \<notin> taken p \<and> {..<l} \<subseteq> taken p \<and> taken p' = insert l (taken p)"
    and leftmost_full: "leftmost p = (l, p') \<Longrightarrow> \<not> l < cap \<Longrightarrow> l = cap \<and> p' = p \<and> {..<cap} = taken p"
    and after_ok: "after p k = (l, p') \<Longrightarrow> l < cap \<Longrightarrow>
      k < l \<and> l \<notin> taken p \<and> {k<..<l} \<subseteq> taken p \<and> taken p' = insert l (taken p)"
    and after_full: "after p k = (l, p') \<Longrightarrow> \<not> l < cap \<Longrightarrow> l = cap \<and> p' = p \<and> {k<..<cap} \<subseteq> taken p"
    and free_ok: "taken (free p l) = taken p - {l}"
begin

lemma leftmost_taken:
  "leftmost p = (l, p') \<Longrightarrow> taken p' = (if l < cap then insert l (taken p) else taken p) \<and>
     l \<notin> taken p \<and> l \<le> cap"
  using leftmost_ok [of p l p'] leftmost_full [of p l p'] by (cases "l < cap") auto

lemma after_taken:
  "after p k = (l, p') \<Longrightarrow> taken p' = (if l < cap then insert l (taken p) else taken p) \<and>
     l \<notin> taken p \<and> l \<le> cap \<and> (l < cap \<longrightarrow> k < l)"
  using after_ok [of p k l p'] after_full [of p k l p'] taken_bound [of p]
  by (cases "l < cap") auto

text \<open>The lowest lane is handed out first: a pool with lane 0 free gives lane 0.\<close>

lemma leftmost_zero: "leftmost p = (l, p') \<Longrightarrow> 0 < cap \<Longrightarrow> 0 \<notin> taken p \<Longrightarrow> l = 0"
  using leftmost_ok [of p l p'] leftmost_full [of p l p'] by (cases "l < cap") auto

end

interpretation lanes: lane_pool occupied kMaxLanes allocateLeftmost allocateAfter release
proof
  fix p :: LaneAllocator and l k p'
  show "occupied p \<subseteq> {..<kMaxLanes}" by (auto simp: occupied_def)
  show "l \<notin> occupied p \<and> {..<l} \<subseteq> occupied p \<and> occupied p' = insert l (occupied p)"
    if "allocateLeftmost p = (l, p')" "l < kMaxLanes"
    using that lowestFree_spec [of 0 p]
    by (auto simp: allocateLeftmost_def Let_def isOverflow_def kOverflowLane_def lessThan_atLeast0
        split: if_splits)
  show "l = kMaxLanes \<and> p' = p \<and> {..<kMaxLanes} = occupied p"
    if "allocateLeftmost p = (l, p')" "\<not> l < kMaxLanes"
    using that lowestFree_spec [of 0 p]
    by (auto simp: allocateLeftmost_def Let_def isOverflow_def kOverflowLane_def lessThan_atLeast0
        dest: occupied_less split: if_splits)
  show "k < l \<and> l \<notin> occupied p \<and> {k<..<l} \<subseteq> occupied p \<and> occupied p' = insert l (occupied p)"
    if "allocateAfter p k = (l, p')" "l < kMaxLanes"
    using that lowestFree_spec [of "Suc k" p]
    by (auto simp: allocateAfter_def Let_def isOverflow_def kOverflowLane_def
        atLeastSucLessThan_greaterThanLessThan split: if_splits)
  show "l = kMaxLanes \<and> p' = p \<and> {k<..<kMaxLanes} \<subseteq> occupied p"
    if "allocateAfter p k = (l, p')" "\<not> l < kMaxLanes"
    using that lowestFree_spec [of "Suc k" p]
    by (auto simp: allocateAfter_def Let_def isOverflow_def kOverflowLane_def
        atLeastSucLessThan_greaterThanLessThan split: if_splits)
  show "occupied (release p l) = occupied p - {l}" by (rule occupied_release)
qed

text \<open>
  A ref tip takes the leftmost free column. The mask query hands out a lane that was free with
  every lane to its left occupied, and marks exactly that lane; it answers the shared overflow
  lane, changing nothing, only when all 48 lanes are occupied.
\<close>

theorem allocateLeftmost_least_free:
  "case allocateLeftmost la of (lane, la') \<Rightarrow>
     if occupied la = {..<kMaxLanes} then lane = kOverflowLane \<and> la' = la
     else lane < kMaxLanes \<and> lane \<notin> occupied la \<and> {..<lane} \<subseteq> occupied la \<and>
       occupied la' = insert lane (occupied la)"
proof -
  obtain lane la' where eq: "allocateLeftmost la = (lane, la')" by force
  show ?thesis
    using lanes.leftmost_ok [OF eq] lanes.leftmost_full [OF eq]
    by (cases "lane < kMaxLanes") (auto simp: eq kOverflowLane_def)
qed

text \<open>
  A merged-in parent never lands to the left. The lane handed out for a second or later parent
  is free, strictly to the right of the merge commit's lane and the lowest such lane; the overflow
  lane is answered, changing nothing, only when every lane to the right is occupied.
\<close>

theorem allocateAfter_strictly_right:
  "case allocateAfter la k of (lane, la') \<Rightarrow>
     if {k<..<kMaxLanes} \<subseteq> occupied la then lane = kOverflowLane \<and> la' = la
     else k < lane \<and> lane < kMaxLanes \<and> lane \<notin> occupied la \<and> {k<..<lane} \<subseteq> occupied la \<and>
       occupied la' = insert lane (occupied la)"
proof -
  obtain lane la' where eq: "allocateAfter la k = (lane, la')" by force
  show ?thesis
    using lanes.after_ok [OF eq] lanes.after_full [OF eq]
    by (cases "lane < kMaxLanes") (auto simp: eq kOverflowLane_def)
qed

section \<open>Colour choice\<close>

lemmas color_defs = shortfall_def requiredSeparation_def penaltyWeight_def colorDistance_def
  kMinColorSeparation_def kNeighborWindow_def kPaletteSize_def kNoNeighbor_def

text \<open>The eleven probes visit every non-trunk colour, starting at the hash's own.\<close>

lemma probe_candidates_all:
  assumes "base \<in> {1..11}"
  shows "set (map (probe_candidate base) [0..<nat kChoices]) = {1..11}"
    and "probe_candidate base 0 = base"
proof -
  have "\<forall>b \<in> set [1..11]. set (map (probe_candidate b) [0..<nat kChoices]) = set [1..11] \<and>
      probe_candidate b 0 = b"
    by code_simp
  moreover have "set [1..11] = {1..11::int}" by simp
  ultimately show "set (map (probe_candidate base) [0..<nat kChoices]) = {1..11}"
    "probe_candidate base 0 = base"
    using assms by blast+
qed

lemma seed_base_range: "seed_base oid \<in> {1..11}"
  by (simp add: seed_base_def kChoices_def kPaletteSize_def)

lemma shortfall_nonneg [simp]: "0 \<le> shortfall c n k"
  by (auto simp: shortfall_def Let_def penaltyWeight_def)

lemma crowdingOf_nonneg [simp]: "0 \<le> crowdingOf c left right"
proof -
  have "0 \<le> foldl (\<lambda>total i. total + shortfall c (left ! i) (i + 1) + shortfall c (right ! i) (i + 1)) a xs"
    if "0 \<le> a" for a xs
    using that by (induction xs arbitrary: a) (simp_all add: add_nonneg_nonneg)
  then show ?thesis by (simp add: crowdingOf_def)
qed

text \<open>The loop returns a candidate it saw, or the one it came in with, and none it saw is less crowded.\<close>

lemma probe_minimal:
  assumes "0 \<le> bp \<Longrightarrow> crowdingOf best left right = bp"
  shows "(probe left right base steps best bp \<in> insert best (probe_candidate base ` set steps)) \<and>
     (\<forall>st \<in> set steps. crowdingOf (probe left right base steps best bp) left right
        \<le> crowdingOf (probe_candidate base st) left right) \<and>
     (0 \<le> bp \<longrightarrow> crowdingOf (probe left right base steps best bp) left right \<le> bp) \<and>
     (bp < 0 \<longrightarrow> steps \<noteq> [] \<longrightarrow> probe left right base steps best bp \<in> probe_candidate base ` set steps)"
  using assms
proof (induction steps arbitrary: best bp)
  case (Cons st steps)
  let ?c = "probe_candidate base st"
  let ?p = "crowdingOf ?c left right"
  show ?case
  proof (cases "?p = 0")
    case True
    then show ?thesis by (auto simp: Let_def)
  next
    case pos: False
    then have p: "0 \<le> ?p" by simp
    show ?thesis
    proof (cases "bp < 0 \<or> ?p < bp")
      case True
      with pos p Cons.IH [of ?p ?c] show ?thesis by (auto simp: Let_def)
    next
      case False
      with pos p Cons.IH [of bp best] Cons.prems show ?thesis by (auto simp: Let_def)
    qed
  qed
qed simp

lemma colorForSeed_minimal:
  assumes "lane \<noteq> 0"
  shows "int (colorForSeed lane oid left right) \<in> {1..11}"
    and "d \<in> {1..11} \<Longrightarrow> crowdingOf (int (colorForSeed lane oid left right)) left right \<le> crowdingOf d left right"
    and "crowdingOf (seed_base oid) left right = 0 \<Longrightarrow> int (colorForSeed lane oid left right) = seed_base oid"
proof -
  let ?b = "seed_base oid"
  let ?steps = "[0..<nat kChoices]"
  let ?r = "probe left right ?b ?steps ?b (- 1)"
  note all = probe_candidates_all [OF seed_base_range [of oid]]
  have ne: "?steps \<noteq> []" by (simp add: kChoices_def kPaletteSize_def)
  have img: "probe_candidate ?b ` set ?steps = {1..11}" using all(1) by (simp only: set_map)
  from probe_minimal [of "- 1" ?b left right ?b ?steps]
  have "?r \<in> probe_candidate ?b ` set ?steps"
    "\<forall>d \<in> probe_candidate ?b ` set ?steps. crowdingOf ?r left right \<le> crowdingOf d left right"
    using ne by auto
  then have min: "?r \<in> {1..11}" "\<forall>d \<in> {1..11}. crowdingOf ?r left right \<le> crowdingOf d left right"
    unfolding img by auto
  have eq: "int (colorForSeed lane oid left right) = ?r"
    using min(1) assms by (simp add: colorForSeed_def Let_def)
  from min show "int (colorForSeed lane oid left right) \<in> {1..11}"
    "d \<in> {1..11} \<Longrightarrow> crowdingOf (int (colorForSeed lane oid left right)) left right \<le> crowdingOf d left right"
    by (simp_all add: eq)
  have "?steps = 0 # [1..<nat kChoices]"
    by (simp add: kChoices_def kPaletteSize_def upt_conv_Cons)
  then show "int (colorForSeed lane oid left right) = ?b" if "crowdingOf ?b left right = 0"
    using that all(2) by (simp add: eq)
qed

text \<open>
  The colour of a new lane is the best the palette allows. A lane other than the trunk never
  gets the trunk colour; its colour is least crowded among the eleven others by the weighted
  shortfall against the lanes in the window; and when the colour its seed's hash asks for crowds
  nothing, that colour is kept.
\<close>

theorem colorForSeed_optimal:
  assumes "lane \<noteq> 0"
  shows "1 \<le> colorForSeed lane oid left right \<and> colorForSeed lane oid left right < kPaletteSize \<and>
    (\<forall>d \<in> {1..<int kPaletteSize}. crowdingOf (int (colorForSeed lane oid left right)) left right
        \<le> crowdingOf d left right) \<and>
    (crowdingOf (seed_base oid) left right = 0 \<longrightarrow> int (colorForSeed lane oid left right) = seed_base oid)"
  using colorForSeed_minimal [OF assms, where oid = oid and left = left and right = right]
  by (auto simp: kPaletteSize_def)

theorem colorForSeed_optimal_witness:
  "crowdingOf (int (colorForSeed 1 null_oid [0, -1, -1, -1, -1] [11, -1, -1, -1, -1]))
     [0, -1, -1, -1, -1] [11, -1, -1, -1, -1] = 0"
proof -
  let ?l = "[0, -1, -1, -1, -1] :: int list" and ?r = "[11, -1, -1, -1, -1] :: int list"
  have six: "crowdingOf 6 ?l ?r = 0" by code_simp
  have "\<forall>d \<in> {1..<int kPaletteSize}. crowdingOf (int (colorForSeed 1 null_oid ?l ?r)) ?l ?r \<le> crowdingOf d ?l ?r"
    using colorForSeed_optimal [of 1 null_oid ?l ?r] by blast
  then have "crowdingOf (int (colorForSeed 1 null_oid ?l ?r)) ?l ?r \<le> crowdingOf 6 ?l ?r"
    by (rule bspec) (simp add: kPaletteSize_def)
  then show ?thesis
    unfolding six using crowdingOf_nonneg order.antisym by blast
qed

text \<open>The two lanes beside a new one, and all the others in the window.\<close>

definition near_crowding :: "int \<Rightarrow> int list \<Rightarrow> int list \<Rightarrow> int" where
  "near_crowding c left right = shortfall c (left ! 0) 1 + shortfall c (right ! 0) 1"

lemma upt_window: "[0..<kNeighborWindow] = [0, 1, 2, 3, 4]"
  by code_simp

lemma colorDistance_nonneg: "0 \<le> c \<Longrightarrow> c \<le> 11 \<Longrightarrow> 0 \<le> n \<Longrightarrow> n \<le> 11 \<Longrightarrow> 0 \<le> colorDistance c n"
  by (auto simp: colorDistance_def Let_def kPaletteSize_def)

lemma shortfall_far:
  assumes "c \<in> {0..11}" "n \<in> {-1..11}" "1 < k"
  shows "shortfall c n k \<le> (if k = 2 then 20 else 1)"
  using colorDistance_nonneg [of c n] assms
  by (auto simp: shortfall_def Let_def requiredSeparation_def penaltyWeight_def kNoNeighbor_def)

lemma crowding_split:
  assumes "c \<in> {0..11}" "\<And>i. i < kNeighborWindow \<Longrightarrow> left ! i \<in> {-1..11} \<and> right ! i \<in> {-1..11}"
  shows "near_crowding c left right \<le> crowdingOf c left right"
    and "crowdingOf c left right \<le> near_crowding c left right + 46"
proof -
  have nb: "left ! i \<in> {-1..11}" "right ! i \<in> {-1..11}" if "i \<in> {1, 2, 3, 4}" for i
    using assms(2) [of i] that by (auto simp: kNeighborWindow_def)
  have f: "shortfall c (left ! i) (i + 1) \<le> (if i + 1 = 2 then 20 else 1)"
    "shortfall c (right ! i) (i + 1) \<le> (if i + 1 = 2 then 20 else 1)" if "i \<in> {1, 2, 3, 4}" for i
    using shortfall_far [OF assms(1) nb(1) [OF that], of "i + 1"]
      shortfall_far [OF assms(1) nb(2) [OF that], of "i + 1"] that by auto
  have n: "0 \<le> shortfall c (left ! i) k" "0 \<le> shortfall c (right ! i) k" for i k by simp_all
  show "near_crowding c left right \<le> crowdingOf c left right"
    using n(1) [of 1 2] n(1) [of 2 3] n(1) [of 3 4] n(1) [of 4 5]
      n(2) [of 1 2] n(2) [of 2 3] n(2) [of 3 4] n(2) [of 4 5]
    by (simp add: crowdingOf_def upt_window near_crowding_def)
  show "crowdingOf c left right \<le> near_crowding c left right + 46"
    using f [of 1] f [of 2] f [of 3] f [of 4]
    by (simp add: crowdingOf_def upt_window near_crowding_def)
qed

lemma near_crowding_steps:
  "near_crowding c left right = 0 \<or> near_crowding c left right \<ge> 100"
  by (auto simp: near_crowding_def shortfall_def penaltyWeight_def Let_def)

lemma near_clear_exists_code:
  "\<forall>l \<in> set [-1..11]. \<forall>r \<in> set [-1..11]. \<exists>c \<in> set [1..11].
     shortfall c l 1 + shortfall c r 1 = 0"
  by code_simp

lemma near_clear_exists:
  "l \<in> {-1..11} \<Longrightarrow> r \<in> {-1..11} \<Longrightarrow> \<exists>c \<in> {1..11}. shortfall c l 1 + shortfall c r 1 = 0"
  using near_clear_exists_code by auto

lemma colorForSeed_near_clear:
  assumes "lane \<noteq> 0" "\<And>i. i < kNeighborWindow \<Longrightarrow> left ! i \<in> {-1..11} \<and> right ! i \<in> {-1..11}"
  shows "near_crowding (int (colorForSeed lane oid left right)) left right = 0"
proof -
  let ?c = "int (colorForSeed lane oid left right)"
  have "left ! 0 \<in> {-1..11}" "right ! 0 \<in> {-1..11}"
    using assms(2) [of 0] by (auto simp: kNeighborWindow_def)
  from near_clear_exists [OF this] obtain d where d: "d \<in> {1..11}" "near_crowding d left right = 0"
    by (auto simp: near_crowding_def)
  note c = colorForSeed_minimal [OF assms(1), where oid = oid and left = left and right = right]
  have "near_crowding ?c left right \<le> crowdingOf ?c left right"
    using c(1) assms(2) by (intro crowding_split) auto
  also have "\<dots> \<le> crowdingOf d left right" using c(2) d(1) by blast
  also have "\<dots> \<le> 46" using crowding_split(2) [of d left right] d assms(2) by auto
  finally show ?thesis using near_crowding_steps [of ?c left right] by linarith
qed

section \<open>The allocator's invariant\<close>

definition lanes_wf :: "LaneAllocator \<Rightarrow> bool" where
  "lanes_wf la \<longleftrightarrow> length (la_seeds la) = kMaxLanes \<and> length (la_colors la) = kMaxLanes \<and>
     (\<forall>c \<in> set (la_colors la). c < kPaletteSize) \<and> la_highWater la \<le> kMaxLanes \<and>
     (\<forall>i. bit (la_used la) i \<longrightarrow> i < la_highWater la)"

lemma lanes_wf_new [simp]: "lanes_wf new_lanes"
  by (simp add: lanes_wf_def new_lanes_def kPaletteSize_def)

lemma lanes_wf_markUsed: "lanes_wf la \<Longrightarrow> lane < kMaxLanes \<Longrightarrow> lanes_wf (markUsed la lane)"
  by (auto simp: lanes_wf_def markUsed_def Let_def bit_simps intro: less_le_trans split: if_splits)

lemma lanes_wf_reserve [inv_intros]: "lanes_wf la \<Longrightarrow> lanes_wf (reserve la lane)"
  by (simp add: reserve_def isOverflow_def lanes_wf_markUsed)

lemma lanes_wf_release [inv_intros]: "lanes_wf la \<Longrightarrow> lanes_wf (release la lane)"
  by (auto simp: lanes_wf_def release_def bit_simps)

lemma lanes_wf_allocateLeftmost [inv_intros]: "lanes_wf la \<Longrightarrow> lanes_wf (snd (allocateLeftmost la))"
  by (simp add: allocateLeftmost_def Let_def isOverflow_def lanes_wf_markUsed)

lemma lanes_wf_allocateAfter [inv_intros]: "lanes_wf la \<Longrightarrow> lanes_wf (snd (allocateAfter la k))"
  by (simp add: allocateAfter_def Let_def isOverflow_def lanes_wf_markUsed)

lemma colorForSeed_less: "colorForSeed lane oid left right < kPaletteSize"
  using colorForSeed_minimal(1) [of lane oid left right]
  by (cases "lane = 0") (auto simp: colorForSeed_def kPaletteSize_def)

lemma lanes_wf_seed [inv_intros]: "lanes_wf la \<Longrightarrow> lanes_wf (seed la lane oid)"
  by (auto simp: lanes_wf_def seed_def Let_def colorForSeed_less dest!: set_update_subset_insert [THEN subsetD])

lemma colorOf_less: "lanes_wf la \<Longrightarrow> colorOf la lane < kPaletteSize"
  by (auto simp: lanes_wf_def colorOf_def isOverflow_def kPaletteSize_def)

lemma neighborColor_range:
  assumes "lanes_wf la"
  shows "neighborColor la lane d \<in> {-1..11}"
proof -
  let ?i = "nat (int lane + d)"
  have "la_colors la ! ?i \<le> 11" if "\<not> int lane + d < 0" "\<not> int lane + d \<ge> int kMaxLanes"
  proof -
    from that have "?i < length (la_colors la)" using assms by (simp add: lanes_wf_def nat_less_iff)
    with assms have "la_colors la ! ?i < kPaletteSize" unfolding lanes_wf_def by (meson nth_mem)
    then show ?thesis by (simp add: kPaletteSize_def)
  qed
  then show ?thesis by (auto simp: neighborColor_def Let_def kNoNeighbor_def)
qed

lemma sideColors_range:
  "lanes_wf la \<Longrightarrow> i < kNeighborWindow \<Longrightarrow> sideColors la lane d ! i \<in> {-1..11}"
  using neighborColor_range [of la lane "d * (int i + 1)"] by (simp add: sideColors_def)

text \<open>
  A new lane never looks like the lane drawn directly beside it. Whatever is on screen, seeding
  a lane other than the trunk gives it a colour at least three palette steps (a quarter turn of
  the colour wheel) from the colour of each occupied lane next to it.
\<close>

theorem seed_adjacent_separated:
  assumes "lanes_wf la" and "lane \<noteq> 0" and "lane < kMaxLanes"
    and "beside = lane + 1 \<or> beside = lane - 1" and "beside \<in> occupied la"
  shows "colorDistance (int (colorOf (seed la lane oid) lane)) (int (colorOf (seed la lane oid) beside))
     \<ge> kMinColorSeparation"
proof -
  define la' where "la' = la\<lparr>la_seeds := (la_seeds la)[lane := oid]\<rparr>"
  have wf': "lanes_wf la'" using assms(1) by (simp add: la'_def lanes_wf_def)
  let ?l = "sideColors la' lane (- 1)" and ?r = "sideColors la' lane 1"
  let ?c = "int (colorForSeed lane oid ?l ?r)"
  have clear: "near_crowding ?c ?l ?r = 0"
    using assms(2) sideColors_range [OF wf'] by (intro colorForSeed_near_clear) auto
  have own: "int (colorOf (seed la lane oid) lane) = ?c"
    using assms(1,3) by (simp add: colorOf_def seed_def isOverflow_def la'_def Let_def lanes_wf_def)
  have "beside \<noteq> lane" "beside < kMaxLanes" using assms(2,4,5) by (auto dest: occupied_less)
  then have other: "colorOf (seed la lane oid) beside = la_colors la ! beside"
    using assms(3) by (simp add: colorOf_def seed_def isOverflow_def Let_def)
  have "?l ! 0 = neighborColor la' lane (- 1)" "?r ! 0 = neighborColor la' lane 1"
    by (simp_all add: sideColors_def kNeighborWindow_def)
  moreover have "inUse la' beside" using assms(5) by (simp add: inUse_iff la'_def occupied_def)
  ultimately have "(beside = lane - 1 \<longrightarrow> ?l ! 0 = int (la_colors la ! beside)) \<and>
      (beside = lane + 1 \<longrightarrow> ?r ! 0 = int (la_colors la ! beside))"
    using assms(2,3) \<open>beside < kMaxLanes\<close>
    by (auto simp: neighborColor_def Let_def la'_def nat_diff_distrib' nat_add_distrib)
  moreover have "shortfall ?c (?l ! 0) 1 = 0 \<and> shortfall ?c (?r ! 0) 1 = 0"
    using clear by (simp add: near_crowding_def add_nonneg_eq_0_iff)
  ultimately have "shortfall ?c (int (la_colors la ! beside)) 1 = 0"
    using assms(4) by metis
  then show ?thesis
    unfolding own other
    by (auto simp: shortfall_def Let_def kNoNeighbor_def requiredSeparation_def penaltyWeight_def
        split: if_splits)
qed

theorem seed_adjacent_separated_witness:
  "colorDistance (int (colorOf (seed (reserve new_lanes 0) 1 null_oid) 1))
     (int (colorOf (seed (reserve new_lanes 0) 1 null_oid) 0)) \<ge> kMinColorSeparation"
  by (rule seed_adjacent_separated)
    (simp_all add: lanes_wf_reserve occupied_reserve kMaxLanes_def)

end
