(* ===== verification/GraphBuilder.thy ===== *)
theory GraphBuilder
  imports LaneAllocator
begin

text \<open>
  \<^verbatim>\<open>src/core/graph/GraphBuilder.h\<close> and \<^verbatim>\<open>GraphBuilder.cpp\<close>: the commit
  graph built one row at a time. The hash map of edges waiting for a parent is an association
  list (object ids that the parser produces compare equal exactly when they are equal, see
  \<open>oid_eq_iff\<close>); the handler \<^verbatim>\<open>add\<close> is the composition of its numbered steps in the
  source's order. The theory holds the definitions, what each step does to the builder's state,
  and the bookkeeping invariant that ties the pending edges, the parent pool, the edges and the
  lane reference counts to the links fed so far.
\<close>

record GraphOptions =
  go_maxRows :: nat
  go_trunkTip :: ObjectId

record PendingEdge =
  pe_edgeId :: EdgeId
  pe_parentPoolIndex :: nat
  pe_lane :: LaneId
  pe_childRow :: RowId
  pe_color :: nat
  pe_firstParent :: bool

record GraphBuilder =
  gb_options :: GraphOptions
  gb_lanes :: LaneAllocator
  gb_pending :: "(ObjectId \<times> PendingEdge list) list"
  gb_laneRefCount :: "nat list"
  gb_snapshot :: GraphSnapshot
  gb_finished :: bool

definition new_builder :: "GraphOptions \<Rightarrow> GraphBuilder" where
  "new_builder options =
     \<lparr>gb_options = options,
      gb_lanes = (if isNull (go_trunkTip options) then new_lanes else reserve new_lanes 0),
      gb_pending = [], gb_laneRefCount = replicate kMaxLanes 0,
      gb_snapshot = empty_snapshot, gb_finished = False\<rparr>"

section \<open>The pending map\<close>

definition pending_at :: "GraphBuilder \<Rightarrow> ObjectId \<Rightarrow> PendingEdge list" where
  "pending_at gb oid = (case map_of (gb_pending gb) oid of None \<Rightarrow> [] | Some es \<Rightarrow> es)"

definition push_pending :: "GraphBuilder \<Rightarrow> ObjectId \<Rightarrow> PendingEdge \<Rightarrow> GraphBuilder" where
  "push_pending gb oid pe =
     gb\<lparr>gb_pending := AList.update oid (pending_at gb oid @ [pe]) (gb_pending gb)\<rparr>"

definition takeIncoming :: "GraphBuilder \<Rightarrow> ObjectId \<Rightarrow> PendingEdge list \<times> GraphBuilder" where
  "takeIncoming gb oid = (pending_at gb oid, gb\<lparr>gb_pending := AList.delete oid (gb_pending gb)\<rparr>)"

section \<open>The steps of the handler\<close>

definition createEdge ::
  "GraphBuilder \<Rightarrow> RowId \<Rightarrow> LaneId \<Rightarrow> LaneId \<Rightarrow> nat \<Rightarrow> EdgeKind \<Rightarrow> EdgeId \<times> GraphBuilder" where
  "createEdge gb childRow childLane descendLane color kind =
     (let s = gb_snapshot gb;
          id' = u32 (length (gs_edges s));
          edge = \<lparr>e_childRow = childRow, e_parentRow = kRowBoundary, e_lane = descendLane,
                  e_childLane = childLane, e_color = color, e_kind = kind\<rparr>;
          s1 = s\<lparr>gs_edges := gs_edges s @ [edge]\<rparr>;
          s2 = (if isOverflow descendLane
                then s1\<lparr>gs_overflowedEdges := u32 (gs_overflowedEdges s1 + 1)\<rparr> else s1)
      in (id', gb\<lparr>gb_snapshot := s2\<rparr>))"

text \<open>The straightness rule: an incoming first-parent edge first, then the lowest lane.\<close>

definition pe_rank :: "PendingEdge \<Rightarrow> nat" where
  "pe_rank pe = (if pe_firstParent pe then 0 else 1)"

fun choose_best :: "PendingEdge option \<Rightarrow> PendingEdge list \<Rightarrow> PendingEdge option" where
  "choose_best best [] = best"
| "choose_best None (c # cs) = choose_best (Some c) cs"
| "choose_best (Some b) (c # cs) =
     (if pe_rank c < pe_rank b \<or> (pe_rank c = pe_rank b \<and> pe_lane c < pe_lane b)
      then choose_best (Some c) cs else choose_best (Some b) cs)"

definition chooseLane :: "PendingEdge list \<Rightarrow> LaneId" where
  "chooseLane incoming = (case choose_best None incoming of Some b \<Rightarrow> pe_lane b | None \<Rightarrow> 0)"

definition patchEdge :: "RowId \<Rightarrow> GraphBuilder \<Rightarrow> PendingEdge \<Rightarrow> GraphBuilder" where
  "patchEdge row gb pe =
     (let s = gb_snapshot gb;
          s1 = s\<lparr>gs_edges := (gs_edges s)[pe_edgeId pe := (gs_edges s ! pe_edgeId pe)\<lparr>e_parentRow := row\<rparr>]\<rparr>;
          s2 = (if pe_parentPoolIndex pe < length (gs_parentPool s1)
                then s1\<lparr>gs_parentPool := (gs_parentPool s1)[pe_parentPoolIndex pe := row]\<rparr> else s1);
          refs = gb_laneRefCount gb;
          refs' = (if \<not> isOverflow (pe_lane pe) \<and> refs ! pe_lane pe > 0
                   then refs[pe_lane pe := refs ! pe_lane pe - 1] else refs)
      in gb\<lparr>gb_snapshot := s2, gb_laneRefCount := refs'\<rparr>)"

definition patchIncoming :: "GraphBuilder \<Rightarrow> PendingEdge list \<Rightarrow> RowId \<Rightarrow> GraphBuilder" where
  "patchIncoming gb incoming row = foldl (patchEdge row) gb incoming"

definition isTrunkTip :: "GraphBuilder \<Rightarrow> ObjectId \<Rightarrow> bool" where
  "isTrunkTip gb oid \<longleftrightarrow>
     \<not> isNull (go_trunkTip (gb_options gb)) \<and> oid = go_trunkTip (gb_options gb)"

definition placeCommit :: "GraphBuilder \<Rightarrow> ObjectId \<Rightarrow> PendingEdge list \<Rightarrow> LaneId \<times> nat \<times> GraphBuilder" where
  "placeCommit gb oid incoming =
     (if isTrunkTip gb oid
      then let la = seed (gb_lanes gb) 0 oid
           in (0, colorOf la 0, gb\<lparr>gb_lanes := la\<rparr>)
      else if incoming = []
      then let (lane, la) = allocateLeftmost (gb_lanes gb);
               la' = seed la lane oid
           in (lane, colorOf la' lane, gb\<lparr>gb_lanes := la'\<rparr>)
      else let lane = chooseLane incoming
           in (lane, colorOf (gb_lanes gb) lane, gb))"

definition releaseEdge :: "LaneId \<Rightarrow> GraphBuilder \<Rightarrow> PendingEdge \<Rightarrow> GraphBuilder" where
  "releaseEdge lane gb pe =
     (if pe_lane pe \<noteq> lane \<and> \<not> isOverflow (pe_lane pe) \<and> gb_laneRefCount gb ! pe_lane pe = 0
      then gb\<lparr>gb_lanes := release (gb_lanes gb) (pe_lane pe)\<rparr> else gb)"

definition releaseIncoming :: "GraphBuilder \<Rightarrow> PendingEdge list \<Rightarrow> LaneId \<Rightarrow> GraphBuilder" where
  "releaseIncoming gb incoming lane = foldl (releaseEdge lane) gb incoming"

definition rowFlags :: "LaneId \<Rightarrow> nat \<Rightarrow> 8 word" where
  "rowFlags lane parents =
     (let f0 = word_of_nat (min parents 7);
          f1 = (if parents > 1 then f0 OR FlagIsMerge else f0)
      in if isOverflow lane then f1 OR FlagLaneOverflow else f1)"

definition pushRow :: "GraphBuilder \<Rightarrow> ObjectId \<Rightarrow> LaneId \<Rightarrow> nat \<Rightarrow> nat \<Rightarrow> nat \<Rightarrow> GraphBuilder" where
  "pushRow gb oid lane color parents commitTime =
     (let s = gb_snapshot gb;
          meta = \<lparr>rm_parentOffset = u32 (length (gs_parentPool s)),
                  rm_edgeOffset = u32 (length (gs_edges s)), rm_commitTime = commitTime,
                  rm_lane = lane, rm_color = color, rm_flags = rowFlags lane parents\<rparr>
      in gb\<lparr>gb_snapshot := s\<lparr>gs_oids := gs_oids s @ [oid], gs_rows := gs_rows s @ [meta],
             gs_parentPool := gs_parentPool s @ replicate parents kRowBoundary\<rparr>\<rparr>)"

text \<open>What both parent steps do once the target lane and colour are known.\<close>

definition linkParent ::
  "GraphBuilder \<Rightarrow> RowId \<Rightarrow> LaneId \<Rightarrow> LaneId \<Rightarrow> nat \<Rightarrow> EdgeKind \<Rightarrow> nat \<Rightarrow> bool \<Rightarrow> ObjectId \<Rightarrow> GraphBuilder" where
  "linkParent gb row lane targetLane targetColor kind poolIndex firstParent parent =
     (let (id', gb1) = createEdge gb row lane targetLane targetColor kind;
          pe = \<lparr>pe_edgeId = id', pe_parentPoolIndex = poolIndex, pe_lane = targetLane,
                pe_childRow = row, pe_color = targetColor, pe_firstParent = firstParent\<rparr>;
          gb2 = push_pending gb1 parent pe;
          refs = gb_laneRefCount gb2
      in if \<not> isOverflow targetLane
         then gb2\<lparr>gb_laneRefCount := refs[targetLane := u32 (refs ! targetLane + 1)]\<rparr> else gb2)"

definition addFirstParent ::
  "GraphBuilder \<Rightarrow> RowId \<Rightarrow> LaneId \<Rightarrow> nat \<Rightarrow> nat \<Rightarrow> ObjectId \<Rightarrow> GraphBuilder" where
  "addFirstParent gb row lane color parentOffset parent =
     linkParent gb row lane lane color FirstParent parentOffset True parent"

text \<open>The column of a second or later parent: the leftmost already waiting for it, else a new one.\<close>

definition targetLaneFor :: "GraphBuilder \<Rightarrow> LaneId \<Rightarrow> ObjectId \<Rightarrow> LaneId \<times> nat \<times> GraphBuilder" where
  "targetLaneFor gb lane parent =
     (case pending_at gb parent of
        pe # pes \<Rightarrow>
          let t = foldl (\<lambda>m c. min m (pe_lane c)) (pe_lane pe) (pe # pes)
          in (t, colorOf (gb_lanes gb) t, gb)
      | [] \<Rightarrow>
          let (t, la) = allocateAfter (gb_lanes gb) lane;
              la' = seed la t parent
          in (t, colorOf la' t, gb\<lparr>gb_lanes := la'\<rparr>))"

definition addOtherParent ::
  "GraphBuilder \<Rightarrow> RowId \<Rightarrow> LaneId \<Rightarrow> nat \<Rightarrow> nat \<Rightarrow> nat \<Rightarrow> ObjectId \<Rightarrow> GraphBuilder" where
  "addOtherParent gb row lane parentOffset parentCount i parent =
     (let kind = (if parentCount > 2 then Octopus else MergeParent);
          (t, c, gb1) = targetLaneFor gb lane parent
      in linkParent gb1 row lane t c kind (u32 (parentOffset + i)) False parent)"

fun addOtherParents ::
  "GraphBuilder \<Rightarrow> RowId \<Rightarrow> LaneId \<Rightarrow> nat \<Rightarrow> nat \<Rightarrow> nat \<Rightarrow> ObjectId list \<Rightarrow> GraphBuilder" where
  "addOtherParents gb row lane parentOffset parentCount i [] = gb"
| "addOtherParents gb row lane parentOffset parentCount i (p # ps) =
     addOtherParents (addOtherParent gb row lane parentOffset parentCount i p)
       row lane parentOffset parentCount (i + 1) ps"

definition setLaneCount :: "GraphBuilder \<Rightarrow> GraphBuilder" where
  "setLaneCount gb = gb\<lparr>gb_snapshot := (gb_snapshot gb)\<lparr>gs_laneCount := la_highWater (gb_lanes gb)\<rparr>\<rparr>"

definition linkParents ::
  "GraphBuilder \<Rightarrow> RowId \<Rightarrow> LaneId \<Rightarrow> nat \<Rightarrow> nat \<Rightarrow> ObjectId list \<Rightarrow> GraphBuilder" where
  "linkParents gb row lane color parentOffset parents =
     (case parents of
        [] \<Rightarrow>
          (if \<not> isOverflow lane \<and> gb_laneRefCount gb ! lane = 0
           then gb\<lparr>gb_lanes := release (gb_lanes gb) lane\<rparr> else gb)
      | p # ps \<Rightarrow>
          addOtherParents (addFirstParent gb row lane color parentOffset p)
            row lane parentOffset (length parents) 1 ps)"

text \<open>
  The first half of the handler: the row number, the lane and colour, the incoming edges
  resolved and their columns given back, and the row pushed with its open parent slots.
\<close>

definition startRow ::
  "GraphBuilder \<Rightarrow> ObjectId \<Rightarrow> nat \<Rightarrow> nat \<Rightarrow> RowId \<times> LaneId \<times> nat \<times> nat \<times> GraphBuilder" where
  "startRow gb oid parentCount commitTime =
     (let row = u32 (length (gs_rows (gb_snapshot gb)));
          (incoming, gb1) = takeIncoming gb oid;
          (lane, color, gb2) = placeCommit gb1 oid incoming;
          gb3 = (if incoming = [] then gb2
                 else releaseIncoming (patchIncoming gb2 incoming row) incoming lane);
          parentOffset = u32 (length (gs_parentPool (gb_snapshot gb3)))
      in (row, lane, color, parentOffset, pushRow gb3 oid lane color parentCount commitTime))"

definition add :: "GraphBuilder \<Rightarrow> ObjectId \<Rightarrow> ObjectId list \<Rightarrow> nat \<Rightarrow> GraphBuilder" where
  "add gb oid parents commitTime =
     (if length (gs_rows (gb_snapshot gb)) \<ge> go_maxRows (gb_options gb)
      then gb\<lparr>gb_snapshot := (gb_snapshot gb)\<lparr>gs_truncated := True\<rparr>\<rparr>
      else
        let (row, lane, color, parentOffset, gb4) = startRow gb oid (length parents) commitTime
        in setLaneCount (linkParents gb4 row lane color parentOffset parents))"

section \<open>Ending and publishing\<close>

definition setRowFlags :: "GraphBuilder \<Rightarrow> RowId \<Rightarrow> 8 word \<Rightarrow> GraphBuilder" where
  "setRowFlags gb row flagsToSet =
     (let s = gb_snapshot gb
      in if row < length (gs_rows s)
         then gb\<lparr>gb_snapshot := s\<lparr>gs_rows := (gs_rows s)
                 [row := (gs_rows s ! row)\<lparr>rm_flags := rm_flags (gs_rows s ! row) OR flagsToSet\<rparr>]\<rparr>\<rparr>
         else gb)"

definition markTruncated :: "GraphBuilder \<Rightarrow> GraphBuilder" where
  "markTruncated gb = gb\<lparr>gb_snapshot := (gb_snapshot gb)\<lparr>gs_truncated := True\<rparr>\<rparr>"

definition openEdge :: "GraphSnapshot \<Rightarrow> PendingEdge \<Rightarrow> GraphSnapshot" where
  "openEdge s pe =
     s\<lparr>gs_edges := (gs_edges s)
         [pe_edgeId pe := (gs_edges s ! pe_edgeId pe)\<lparr>e_parentRow := kRowBoundary\<rparr>]\<rparr>"

definition all_pending :: "GraphBuilder \<Rightarrow> PendingEdge list" where
  "all_pending gb = concat (map snd (gb_pending gb))"

definition finishEdge :: "GraphBuilder \<Rightarrow> PendingEdge \<Rightarrow> GraphBuilder" where
  "finishEdge gb pe =
     setRowFlags (gb\<lparr>gb_snapshot := openEdge (gb_snapshot gb) pe\<rparr>) (pe_childRow pe) FlagBoundary"

definition finish :: "GraphBuilder \<Rightarrow> GraphBuilder" where
  "finish gb =
     (let gb1 = foldl finishEdge gb (all_pending gb);
          s = gb_snapshot gb1
      in gb1\<lparr>gb_snapshot := s\<lparr>gs_complete := True, gs_laneCount := la_highWater (gb_lanes gb1)\<rparr>,
             gb_finished := True\<rparr>)"

definition snapshot :: "GraphBuilder \<Rightarrow> GraphSnapshot" where
  "snapshot gb =
     (let copy = (gb_snapshot gb)\<lparr>gs_complete := gb_finished gb\<rparr>;
          copy' = (if gb_finished gb then copy else foldl openEdge copy (all_pending gb))
      in finalizeIndices copy')"

text \<open>A walk: the commits in the order git prints them, each with its parents and time.\<close>

type_synonym commit = "ObjectId \<times> ObjectId list \<times> nat"

definition add_commit :: "GraphBuilder \<Rightarrow> commit \<Rightarrow> GraphBuilder" where
  "add_commit gb c = add gb (fst c) (fst (snd c)) (snd (snd c))"

definition build :: "GraphOptions \<Rightarrow> commit list \<Rightarrow> GraphBuilder" where
  "build options cs = foldl add_commit (new_builder options) cs"

section \<open>What each step changes\<close>

abbreviation edges_of :: "GraphBuilder \<Rightarrow> Edge list" where
  "edges_of gb \<equiv> gs_edges (gb_snapshot gb)"

abbreviation pool_of :: "GraphBuilder \<Rightarrow> RowId list" where
  "pool_of gb \<equiv> gs_parentPool (gb_snapshot gb)"

abbreviation rows_of :: "GraphBuilder \<Rightarrow> RowMeta list" where
  "rows_of gb \<equiv> gs_rows (gb_snapshot gb)"

abbreviation oids_of :: "GraphBuilder \<Rightarrow> ObjectId list" where
  "oids_of gb \<equiv> gs_oids (gb_snapshot gb)"

lemma takeIncoming_frame [simp]:
  "gb_snapshot (snd (takeIncoming gb oid)) = gb_snapshot gb"
  "gb_lanes (snd (takeIncoming gb oid)) = gb_lanes gb"
  "gb_options (snd (takeIncoming gb oid)) = gb_options gb"
  "gb_laneRefCount (snd (takeIncoming gb oid)) = gb_laneRefCount gb"
  "fst (takeIncoming gb oid) = pending_at gb oid"
  by (simp_all add: takeIncoming_def)

lemma pending_at_takeIncoming [simp]:
  "pending_at (snd (takeIncoming gb oid)) p = (if p = oid then [] else pending_at gb p)"
  by (simp add: takeIncoming_def pending_at_def delete_conv')

lemma placeCommit_frame [simp]:
  "gb_snapshot (snd (snd (placeCommit gb oid inc))) = gb_snapshot gb"
  "gb_pending (snd (snd (placeCommit gb oid inc))) = gb_pending gb"
  "gb_options (snd (snd (placeCommit gb oid inc))) = gb_options gb"
  "gb_laneRefCount (snd (snd (placeCommit gb oid inc))) = gb_laneRefCount gb"
  by (auto simp: placeCommit_def Let_def split: prod.splits)

lemma pending_at_cong: "gb_pending gb = gb_pending gb' \<Longrightarrow> pending_at gb p = pending_at gb' p"
  by (simp add: pending_at_def)

lemma releaseIncoming_frame [simp]:
  "gb_snapshot (releaseIncoming gb inc lane) = gb_snapshot gb"
  "gb_pending (releaseIncoming gb inc lane) = gb_pending gb"
  "gb_options (releaseIncoming gb inc lane) = gb_options gb"
  "gb_laneRefCount (releaseIncoming gb inc lane) = gb_laneRefCount gb"
  by (induction inc arbitrary: gb) (auto simp: releaseIncoming_def releaseEdge_def)

lemma occupied_releaseIncoming:
  "occupied (gb_lanes (releaseIncoming gb inc lane)) = occupied (gb_lanes gb) -
     {pe_lane pe |pe. pe \<in> set inc \<and> pe_lane pe \<noteq> lane \<and> \<not> isOverflow (pe_lane pe) \<and>
        gb_laneRefCount gb ! pe_lane pe = 0}"
proof (induction inc arbitrary: gb)
  case (Cons pe inc)
  have step: "releaseIncoming gb (pe # inc) lane = releaseIncoming (releaseEdge lane gb pe) inc lane"
    by (simp add: releaseIncoming_def)
  have refs: "gb_laneRefCount (releaseEdge lane gb pe) = gb_laneRefCount gb"
    by (simp add: releaseEdge_def)
  show ?case
    unfolding step Cons.IH refs by (auto simp: releaseEdge_def occupied_release)
qed (simp add: releaseIncoming_def)

lemma patchIncoming_frame [simp]:
  "gb_lanes (patchIncoming gb inc row) = gb_lanes gb"
  "gb_pending (patchIncoming gb inc row) = gb_pending gb"
  "gb_options (patchIncoming gb inc row) = gb_options gb"
  "rows_of (patchIncoming gb inc row) = rows_of gb"
  "oids_of (patchIncoming gb inc row) = oids_of gb"
  "length (edges_of (patchIncoming gb inc row)) = length (edges_of gb)"
  "length (pool_of (patchIncoming gb inc row)) = length (pool_of gb)"
  "length (gb_laneRefCount (patchIncoming gb inc row)) = length (gb_laneRefCount gb)"
  by (induction inc arbitrary: gb) (auto simp: patchIncoming_def patchEdge_def Let_def)

text \<open>Patching the edges of a list of ids sets their parent row, in both places, and nothing else.\<close>

lemma patchEdge_effect:
  assumes "pe_edgeId pe = k" "pe_parentPoolIndex pe = k" "k < length (pool_of gb)"
  shows "edges_of (patchEdge row gb pe) = (edges_of gb)[k := (edges_of gb ! k)\<lparr>e_parentRow := row\<rparr>]"
    and "pool_of (patchEdge row gb pe) = (pool_of gb)[k := row]"
  using assms by (simp_all add: patchEdge_def Let_def)

lemma patchIncoming_effect:
  assumes "\<forall>k \<in> set ks. pe_edgeId (f k) = k \<and> pe_parentPoolIndex (f k) = k \<and> k < length (pool_of gb)"
  shows "(\<forall>j < length (edges_of gb). edges_of (patchIncoming gb (map f ks) row) ! j =
      (if j \<in> set ks then (edges_of gb ! j)\<lparr>e_parentRow := row\<rparr> else edges_of gb ! j)) \<and>
    (\<forall>j < length (pool_of gb). pool_of (patchIncoming gb (map f ks) row) ! j =
      (if j \<in> set ks then row else pool_of gb ! j))"
  using assms
proof (induction ks arbitrary: gb)
  case (Cons k ks)
  let ?gb1 = "patchEdge row gb (f k)"
  from Cons.prems have e1: "edges_of ?gb1 = (edges_of gb)[k := (edges_of gb ! k)\<lparr>e_parentRow := row\<rparr>]"
    and p1: "pool_of ?gb1 = (pool_of gb)[k := row]"
    by (auto intro!: patchEdge_effect)
  have step: "patchIncoming gb (map f (k # ks)) row = patchIncoming ?gb1 (map f ks) row"
    by (simp add: patchIncoming_def)
  have "\<forall>k \<in> set ks. pe_edgeId (f k) = k \<and> pe_parentPoolIndex (f k) = k \<and> k < length (pool_of ?gb1)"
    using Cons.prems by (simp add: p1)
  from Cons.IH [OF this] show ?case
    unfolding step e1 p1 by (auto simp: nth_list_update nth_list_update_neq)
      (metis Edge.surjective Edge.update_convs(2) nth_list_update_eq nth_list_update_neq)
qed (simp add: patchIncoming_def)

lemma patchIncoming_refs:
  assumes "length (gb_laneRefCount gb) = kMaxLanes" and "l < kMaxLanes"
  shows "gb_laneRefCount (patchIncoming gb inc row) ! l =
    gb_laneRefCount gb ! l - length (filter (\<lambda>pe. pe_lane pe = l) inc)"
  using assms
proof (induction inc arbitrary: gb)
  case (Cons pe inc)
  have "gb_laneRefCount (patchEdge row gb pe) ! l =
      gb_laneRefCount gb ! l - (if pe_lane pe = l then 1 else 0)"
    using Cons.prems by (auto simp: patchEdge_def Let_def isOverflow_def nth_list_update)
  moreover have "length (gb_laneRefCount (patchEdge row gb pe)) = kMaxLanes"
    using Cons.prems by (simp add: patchEdge_def Let_def)
  ultimately show ?case using Cons.IH [of "patchEdge row gb pe"] Cons.prems
    by (auto simp: patchIncoming_def)
qed (simp add: patchIncoming_def)

lemma pushRow_frame [simp]:
  "gb_lanes (pushRow gb oid lane c n t) = gb_lanes gb"
  "gb_pending (pushRow gb oid lane c n t) = gb_pending gb"
  "gb_options (pushRow gb oid lane c n t) = gb_options gb"
  "gb_laneRefCount (pushRow gb oid lane c n t) = gb_laneRefCount gb"
  "edges_of (pushRow gb oid lane c n t) = edges_of gb"
  "oids_of (pushRow gb oid lane c n t) = oids_of gb @ [oid]"
  "pool_of (pushRow gb oid lane c n t) = pool_of gb @ replicate n kRowBoundary"
  "rows_of (pushRow gb oid lane c n t) = rows_of gb @
     [\<lparr>rm_parentOffset = u32 (length (pool_of gb)), rm_edgeOffset = u32 (length (edges_of gb)),
       rm_commitTime = t, rm_lane = lane, rm_color = c, rm_flags = rowFlags lane n\<rparr>]"
  by (simp_all add: pushRow_def Let_def)

lemma linkParent_frame [simp]:
  "gb_lanes (linkParent gb row lane t c kind i fp p) = gb_lanes gb"
  "gb_options (linkParent gb row lane t c kind i fp p) = gb_options gb"
  "rows_of (linkParent gb row lane t c kind i fp p) = rows_of gb"
  "oids_of (linkParent gb row lane t c kind i fp p) = oids_of gb"
  "pool_of (linkParent gb row lane t c kind i fp p) = pool_of gb"
  "edges_of (linkParent gb row lane t c kind i fp p) = edges_of gb @
     [\<lparr>e_childRow = row, e_parentRow = kRowBoundary, e_lane = t, e_childLane = lane,
       e_color = c, e_kind = kind\<rparr>]"
  by (auto simp: linkParent_def createEdge_def push_pending_def Let_def)

lemma linkParent_refs:
  "gb_laneRefCount (linkParent gb row lane t c kind i fp p) =
     (if isOverflow t then gb_laneRefCount gb
      else (gb_laneRefCount gb)[t := u32 (gb_laneRefCount gb ! t + 1)])"
  by (auto simp: linkParent_def createEdge_def push_pending_def Let_def)

lemma pending_at_linkParent:
  "pending_at (linkParent gb row lane t c kind i fp p) q =
     (if q = p then pending_at gb p @
        [\<lparr>pe_edgeId = u32 (length (edges_of gb)), pe_parentPoolIndex = i, pe_lane = t,
          pe_childRow = row, pe_color = c, pe_firstParent = fp\<rparr>]
      else pending_at gb q)"
  by (auto simp: linkParent_def createEdge_def push_pending_def pending_at_def Let_def update_conv')

lemma targetLaneFor_frame [simp]:
  "gb_snapshot (snd (snd (targetLaneFor gb lane p))) = gb_snapshot gb"
  "gb_pending (snd (snd (targetLaneFor gb lane p))) = gb_pending gb"
  "gb_options (snd (snd (targetLaneFor gb lane p))) = gb_options gb"
  "gb_laneRefCount (snd (snd (targetLaneFor gb lane p))) = gb_laneRefCount gb"
  by (auto simp: targetLaneFor_def Let_def split: prod.splits list.splits)

section \<open>The bookkeeping invariant\<close>

text \<open>
  Every parent link fed so far is a pair of its child's row and its parent's object id. Edge,
  pool slot and link share one index, and a slot is open while it holds the boundary value.
\<close>

type_synonym link = "RowId \<times> ObjectId"

abbreviation open_at :: "GraphBuilder \<Rightarrow> nat \<Rightarrow> bool" where
  "open_at gb k \<equiv> pool_of gb ! k = kRowBoundary"

definition waiting :: "GraphBuilder \<Rightarrow> link list \<Rightarrow> ObjectId \<Rightarrow> nat list" where
  "waiting gb ls p = filter (\<lambda>k. snd (ls ! k) = p \<and> open_at gb k) [0..<length ls]"

definition open_in :: "GraphBuilder \<Rightarrow> link list \<Rightarrow> LaneId \<Rightarrow> nat list" where
  "open_in gb ls l = filter (\<lambda>k. e_lane (edges_of gb ! k) = l \<and> open_at gb k) [0..<length ls]"

definition pe_of :: "GraphBuilder \<Rightarrow> nat \<Rightarrow> PendingEdge" where
  "pe_of gb k = (let e = edges_of gb ! k in
     \<lparr>pe_edgeId = k, pe_parentPoolIndex = k, pe_lane = e_lane e, pe_childRow = e_childRow e,
      pe_color = e_color e, pe_firstParent = (e_kind e = FirstParent)\<rparr>)"

definition book_inv :: "GraphBuilder \<Rightarrow> link list \<Rightarrow> bool" where
  "book_inv gb ls \<longleftrightarrow>
     length (edges_of gb) = length ls \<and> length ls \<le> length (pool_of gb) \<and>
     length (pool_of gb) < 2 ^ 32 \<and>
     (\<forall>k. length ls \<le> k \<and> k < length (pool_of gb) \<longrightarrow> open_at gb k) \<and>
     (\<forall>k < length ls. e_parentRow (edges_of gb ! k) = pool_of gb ! k \<and>
        e_childRow (edges_of gb ! k) = fst (ls ! k)) \<and>
     (\<forall>p. pending_at gb p = map (pe_of gb) (waiting gb ls p)) \<and>
     length (gb_laneRefCount gb) = kMaxLanes \<and>
     (\<forall>l < kMaxLanes. gb_laneRefCount gb ! l = length (open_in gb ls l)) \<and>
     distinct (map fst (gb_pending gb))"

lemma book_invD:
  assumes "book_inv gb ls"
  shows "length (edges_of gb) = length ls" "length ls \<le> length (pool_of gb)"
    "length (pool_of gb) < 2 ^ 32"
    "\<And>k. length ls \<le> k \<Longrightarrow> k < length (pool_of gb) \<Longrightarrow> open_at gb k"
    "\<And>k. k < length ls \<Longrightarrow> e_parentRow (edges_of gb ! k) = pool_of gb ! k"
    "\<And>k. k < length ls \<Longrightarrow> e_childRow (edges_of gb ! k) = fst (ls ! k)"
    "\<And>p. pending_at gb p = map (pe_of gb) (waiting gb ls p)"
    "length (gb_laneRefCount gb) = kMaxLanes"
    "\<And>l. l < kMaxLanes \<Longrightarrow> gb_laneRefCount gb ! l = length (open_in gb ls l)"
    "distinct (map fst (gb_pending gb))"
  using assms by (auto simp: book_inv_def)

lemma set_waiting: "set (waiting gb ls p) = {k. k < length ls \<and> snd (ls ! k) = p \<and> open_at gb k}"
  by (auto simp: waiting_def)

lemma set_open_in:
  "set (open_in gb ls l) = {k. k < length ls \<and> e_lane (edges_of gb ! k) = l \<and> open_at gb k}"
  by (auto simp: open_in_def)

text \<open>The invariant reads neither the lanes nor the rows.\<close>

lemma book_inv_cong:
  assumes "edges_of gb' = edges_of gb" "pool_of gb' = pool_of gb"
    "gb_pending gb' = gb_pending gb" "gb_laneRefCount gb' = gb_laneRefCount gb"
  shows "book_inv gb' ls = book_inv gb ls"
proof -
  have "waiting gb' = waiting gb" "open_in gb' = open_in gb" "pe_of gb' = pe_of gb"
    "pending_at gb' = pending_at gb"
    by (auto simp: waiting_def open_in_def pe_of_def pending_at_def assms fun_eq_iff)
  then show ?thesis by (simp add: book_inv_def assms)
qed

lemma book_inv_new [inv_intros]: "book_inv (new_builder options) []"
  by (simp add: book_inv_def new_builder_def empty_snapshot_def pending_at_def waiting_def open_in_def)

lemma keys_distinct_takeIncoming [simp]:
  "distinct (map fst (gb_pending gb)) \<Longrightarrow> distinct (map fst (gb_pending (snd (takeIncoming gb oid))))"
  by (simp add: takeIncoming_def distinct_delete)

text \<open>Resolving: the row's own edges leave the pending map and get their parent row.\<close>

lemma resolve_effect:
  assumes "book_inv gb ls" and "inc = pending_at gb oid"
  shows "\<And>k. k < length ls \<Longrightarrow> edges_of (patchIncoming gb inc row) ! k =
      (if k \<in> set (waiting gb ls oid) then (edges_of gb ! k)\<lparr>e_parentRow := row\<rparr> else edges_of gb ! k)"
    and "\<And>k. k < length (pool_of gb) \<Longrightarrow> pool_of (patchIncoming gb inc row) ! k =
      (if k \<in> set (waiting gb ls oid) then row else pool_of gb ! k)"
proof -
  have inc: "inc = map (pe_of gb) (waiting gb ls oid)" using assms by (simp add: book_invD)
  have "\<forall>k \<in> set (waiting gb ls oid). pe_edgeId (pe_of gb k) = k \<and>
      pe_parentPoolIndex (pe_of gb k) = k \<and> k < length (pool_of gb)"
    using book_invD(2) [OF assms(1)] by (auto simp: pe_of_def Let_def set_waiting)
  from patchIncoming_effect [OF this, of row] show
    "\<And>k. k < length ls \<Longrightarrow> edges_of (patchIncoming gb inc row) ! k =
      (if k \<in> set (waiting gb ls oid) then (edges_of gb ! k)\<lparr>e_parentRow := row\<rparr> else edges_of gb ! k)"
    "\<And>k. k < length (pool_of gb) \<Longrightarrow> pool_of (patchIncoming gb inc row) ! k =
      (if k \<in> set (waiting gb ls oid) then row else pool_of gb ! k)"
    unfolding inc using book_invD(1) [OF assms(1)] by auto
qed

lemma waiting_patch:
  assumes "book_inv gb ls" "inc = pending_at gb oid" "row \<noteq> kRowBoundary"
  shows "waiting (patchIncoming gb inc row) ls p = (if p = oid then [] else waiting gb ls p)"
  using resolve_effect(2) [OF assms(1,2), of _ row] book_invD(2) [OF assms(1)] assms(3)
  by (auto simp: waiting_def set_waiting intro!: filter_cong)

lemma open_in_patch:
  assumes "book_inv gb ls" "inc = pending_at gb oid" "row \<noteq> kRowBoundary"
  shows "open_in (patchIncoming gb inc row) ls l = filter (\<lambda>k. snd (ls ! k) \<noteq> oid) (open_in gb ls l)"
  using resolve_effect [OF assms(1,2), of _ row] book_invD(2) [OF assms(1)] assms(3)
  by (auto simp: open_in_def set_waiting split: if_splits intro!: filter_cong)

lemma refs_patch:
  assumes "book_inv gb ls" "inc = pending_at gb oid" "row \<noteq> kRowBoundary" "l < kMaxLanes"
  shows "gb_laneRefCount (patchIncoming gb inc row) ! l =
    length (open_in (patchIncoming gb inc row) ls l)"
proof -
  have "filter (\<lambda>pe. pe_lane pe = l) inc =
      map (pe_of gb) (filter (\<lambda>k. snd (ls ! k) = oid) (open_in gb ls l))"
    using assms(1,2) by (auto simp: book_invD(7) waiting_def open_in_def filter_map comp_def pe_of_def Let_def
        intro!: arg_cong [where f = "map _"] filter_cong)
  then have "length (filter (\<lambda>pe. pe_lane pe = l) inc) =
      length (filter (\<lambda>k. snd (ls ! k) = oid) (open_in gb ls l))" by simp
  moreover have "length (open_in gb ls l) = length (filter (\<lambda>k. snd (ls ! k) = oid) (open_in gb ls l)) +
      length (filter (\<lambda>k. snd (ls ! k) \<noteq> oid) (open_in gb ls l))"
    by (rule sum_length_filter_compl [symmetric])
  ultimately show ?thesis
    using patchIncoming_refs [OF book_invD(8) [OF assms(1)] assms(4), of inc row]
      book_invD(9) [OF assms(1,4)] open_in_patch [OF assms(1-3)] by simp
qed

lemma book_inv_resolve:
  assumes inv: "book_inv gb ls" and row: "row \<noteq> kRowBoundary"
    and eq: "edges_of gb' = edges_of (patchIncoming gb (pending_at gb oid) row)"
      "pool_of gb' = pool_of (patchIncoming gb (pending_at gb oid) row)"
      "gb_pending gb' = gb_pending (snd (takeIncoming gb oid))"
      "gb_laneRefCount gb' = gb_laneRefCount (patchIncoming gb (pending_at gb oid) row)"
  shows "book_inv gb' ls"
proof -
  let ?g = "patchIncoming gb (pending_at gb oid) row"
  note D = book_invD [OF inv] and R = resolve_effect [OF inv refl, of _ oid row]
  have views: "waiting gb' ls = waiting ?g ls" "open_in gb' ls = open_in ?g ls"
    by (auto simp: waiting_def open_in_def eq fun_eq_iff)
  have pe: "pe_of gb' k = pe_of gb k" if "k < length ls" for k
    using R(1) [OF that] by (simp add: pe_of_def eq Let_def)
  have pend: "pending_at gb' p = map (pe_of gb') (waiting gb' ls p)" for p
  proof -
    have "pending_at gb' p = (if p = oid then [] else map (pe_of gb) (waiting gb ls p))"
      using pending_at_cong [OF eq(3), of p] by (simp add: D)
    also have "\<dots> = map (pe_of gb') (waiting gb' ls p)"
      by (auto simp: views waiting_patch [OF inv refl row] set_waiting pe)
    finally show ?thesis .
  qed
  have edges: "e_parentRow (edges_of gb' ! k) = pool_of gb' ! k \<and> e_childRow (edges_of gb' ! k) = fst (ls ! k)"
    if "k < length ls" for k
    using R(1) [OF that] R(2) [of k] that D by (auto simp: eq)
  have pool: "open_at gb' k" if "length ls \<le> k" "k < length (pool_of gb)" for k
    using R(2) [of k] that D(4) by (auto simp: eq set_waiting)
  show ?thesis
    unfolding book_inv_def
    using D edges pool pend refs_patch [OF inv refl row] by (simp add: eq views)
qed

text \<open>Growing: a new row opens its slots, and each link fills one.\<close>

lemma book_inv_pushRow:
  assumes "book_inv gb ls" "length (pool_of gb) + n < 2 ^ 32"
  shows "book_inv (pushRow gb oid lane c n t) ls"
proof -
  let ?g = "pushRow gb oid lane c n t"
  note D = book_invD [OF assms(1)]
  have "waiting ?g ls = waiting gb ls" "open_in ?g ls = open_in gb ls" "pe_of ?g = pe_of gb"
    using D(2) by (auto simp: waiting_def open_in_def pe_of_def fun_eq_iff nth_append intro!: filter_cong)
  moreover have "pending_at ?g = pending_at gb" by (simp add: fun_eq_iff pending_at_def)
  ultimately show ?thesis
    using D assms(2) unfolding book_inv_def by (auto simp: nth_append)
qed

lemma book_inv_linkParent:
  assumes inv: "book_inv gb ls" and room: "length ls < length (pool_of gb)"
    and i: "i = length ls" and fp: "fp \<longleftrightarrow> kind = FirstParent"
  shows "book_inv (linkParent gb row lane t c kind i fp p) (ls @ [(row, p)])"
proof -
  let ?g = "linkParent gb row lane t c kind i fp p" and ?ls = "ls @ [(row, p)]"
  note D = book_invD [OF inv]
  have op: "open_at gb (length ls)" using D(4) [of "length ls"] room by simp
  have w: "waiting ?g ?ls q = (if q = p then waiting gb ls p @ [length ls] else waiting gb ls q)" for q
    using op by (auto simp: waiting_def nth_append intro!: filter_cong)
  have o: "open_in ?g ?ls l = (if l = t then open_in gb ls l @ [length ls] else open_in gb ls l)" for l
    using op D(1) by (auto simp: open_in_def nth_append intro!: filter_cong)
  have pe: "pe_of ?g k = pe_of gb k" if "k < length ls" for k
    using D(1) that by (simp add: pe_of_def nth_append)
  have pn: "pe_of ?g (length ls) = \<lparr>pe_edgeId = u32 (length (edges_of gb)), pe_parentPoolIndex = i,
      pe_lane = t, pe_childRow = row, pe_color = c, pe_firstParent = fp\<rparr>"
    using D(1-3) i fp by (simp add: pe_of_def nth_append)
  have pend: "pending_at ?g q = map (pe_of ?g) (waiting ?g ?ls q)" for q
    unfolding w pending_at_linkParent D(7) using pn by (auto simp: set_waiting pe)
  have refs: "gb_laneRefCount ?g ! l = length (open_in ?g ?ls l)" if "l < kMaxLanes" for l
  proof -
    have "length (open_in gb ls l) \<le> length ls"
      unfolding open_in_def by (metis diff_zero length_filter_le length_upt)
    then have "Suc (length (open_in gb ls l)) < 2 ^ 32" using room D(3) by linarith
    then show ?thesis using that D(8) D(9) [OF that]
      by (auto simp: linkParent_refs o isOverflow_def nth_list_update)
  qed
  have keys: "distinct (map fst (gb_pending ?g))"
    using D(10) by (auto simp: linkParent_def createEdge_def push_pending_def Let_def distinct_update)
  show ?thesis
    unfolding book_inv_def using D room pend refs keys op
    by (auto simp: nth_append linkParent_refs less_Suc_eq)
qed

section \<open>The first half of the handler\<close>

lemma patchIncoming_cong:
  assumes "gb_snapshot g = gb_snapshot g'" "gb_laneRefCount g = gb_laneRefCount g'"
  shows "gb_snapshot (patchIncoming g inc row) = gb_snapshot (patchIncoming g' inc row) \<and>
    gb_laneRefCount (patchIncoming g inc row) = gb_laneRefCount (patchIncoming g' inc row)"
  using assms
proof (induction inc arbitrary: g g')
  case (Cons pe inc)
  have "gb_snapshot (patchEdge row g pe) = gb_snapshot (patchEdge row g' pe)"
    "gb_laneRefCount (patchEdge row g pe) = gb_laneRefCount (patchEdge row g' pe)"
    using Cons.prems by (simp_all add: patchEdge_def Let_def)
  from Cons.IH [OF this] show ?case by (simp add: patchIncoming_def)
qed (simp add: patchIncoming_def)

lemma lanes_wf_releaseIncoming [inv_intros]:
  "lanes_wf (gb_lanes gb) \<Longrightarrow> lanes_wf (gb_lanes (releaseIncoming gb inc lane))"
  by (induction inc arbitrary: gb) (auto simp: releaseIncoming_def releaseEdge_def lanes_wf_release)

lemma colors_releaseIncoming [simp]:
  "la_colors (gb_lanes (releaseIncoming gb inc lane)) = la_colors (gb_lanes gb)"
  by (induction inc arbitrary: gb) (auto simp: releaseIncoming_def releaseEdge_def release_def)

definition placed :: "GraphBuilder \<Rightarrow> ObjectId \<Rightarrow> LaneId \<times> nat \<times> GraphBuilder" where
  "placed gb oid = placeCommit (snd (takeIncoming gb oid)) oid (pending_at gb oid)"

lemma startRow_effect:
  assumes start: "startRow gb oid n t = (row, lane, color, off, gb')"
  shows "row = u32 (length (rows_of gb))" "lane = fst (placed gb oid)"
    "color = fst (snd (placed gb oid))" "off = u32 (length (pool_of gb))"
    "edges_of gb' = edges_of (patchIncoming gb (pending_at gb oid) row)"
    "pool_of gb' = pool_of (patchIncoming gb (pending_at gb oid) row) @ replicate n kRowBoundary"
    "gb_pending gb' = gb_pending (snd (takeIncoming gb oid))"
    "gb_laneRefCount gb' = gb_laneRefCount (patchIncoming gb (pending_at gb oid) row)"
    "gb_options gb' = gb_options gb" "oids_of gb' = oids_of gb @ [oid]"
    "rows_of gb' = rows_of gb @
       [\<lparr>rm_parentOffset = off, rm_edgeOffset = u32 (length (edges_of gb)), rm_commitTime = t,
         rm_lane = lane, rm_color = color, rm_flags = rowFlags lane n\<rparr>]"
    "occupied (gb_lanes gb') = occupied (gb_lanes (snd (snd (placed gb oid)))) -
       {pe_lane pe |pe. pe \<in> set (pending_at gb oid) \<and> pe_lane pe \<noteq> lane \<and>
          \<not> isOverflow (pe_lane pe) \<and> gb_laneRefCount gb' ! pe_lane pe = 0}"
    "la_colors (gb_lanes gb') = la_colors (gb_lanes (snd (snd (placed gb oid))))"
    "lanes_wf (gb_lanes (snd (snd (placed gb oid)))) \<Longrightarrow> lanes_wf (gb_lanes gb')"
proof -
  let ?inc = "pending_at gb oid" and ?g2 = "snd (snd (placed gb oid))"
  let ?p = "patchIncoming ?g2 ?inc row"
  have snap: "gb_snapshot ?g2 = gb_snapshot gb" "gb_laneRefCount ?g2 = gb_laneRefCount gb"
    "gb_pending ?g2 = gb_pending (snd (takeIncoming gb oid))" "gb_options ?g2 = gb_options gb"
    by (simp_all add: placed_def)
  have nil: "?inc = [] \<Longrightarrow> releaseIncoming ?p ?inc lane = ?g2"
    by (simp add: releaseIncoming_def patchIncoming_def)
  have "row = u32 (length (rows_of gb)) \<and> lane = fst (placed gb oid) \<and>
      color = fst (snd (placed gb oid)) \<and>
      off = u32 (length (pool_of (releaseIncoming ?p ?inc lane))) \<and>
      gb' = pushRow (releaseIncoming ?p ?inc lane) oid lane color n t"
    using start nil by (cases "?inc = []") (auto simp: startRow_def Let_def split_beta placed_def)
  note eff = this patchIncoming_cong [OF snap(1,2), of ?inc row]
  then show "row = u32 (length (rows_of gb))" "lane = fst (placed gb oid)"
    "color = fst (snd (placed gb oid))" by blast+
  from eff show "off = u32 (length (pool_of gb))" by (simp add: snap)
  with eff show "rows_of gb' = rows_of gb @
       [\<lparr>rm_parentOffset = off, rm_edgeOffset = u32 (length (edges_of gb)), rm_commitTime = t,
         rm_lane = lane, rm_color = color, rm_flags = rowFlags lane n\<rparr>]" by (simp add: snap)
  from eff snap show "edges_of gb' = edges_of (patchIncoming gb (pending_at gb oid) row)"
    "pool_of gb' = pool_of (patchIncoming gb (pending_at gb oid) row) @ replicate n kRowBoundary"
    "gb_pending gb' = gb_pending (snd (takeIncoming gb oid))"
    "gb_laneRefCount gb' = gb_laneRefCount (patchIncoming gb (pending_at gb oid) row)"
    "gb_options gb' = gb_options gb" "oids_of gb' = oids_of gb @ [oid]" by simp_all
  from eff show "occupied (gb_lanes gb') = occupied (gb_lanes ?g2) -
       {pe_lane pe |pe. pe \<in> set ?inc \<and> pe_lane pe \<noteq> lane \<and>
          \<not> isOverflow (pe_lane pe) \<and> gb_laneRefCount gb' ! pe_lane pe = 0}"
    "la_colors (gb_lanes gb') = la_colors (gb_lanes ?g2)"
    "lanes_wf (gb_lanes ?g2) \<Longrightarrow> lanes_wf (gb_lanes gb')"
    by (simp_all add: occupied_releaseIncoming lanes_wf_releaseIncoming)
qed


lemma book_inv_startRow:
  assumes inv: "book_inv gb ls" and start: "startRow gb oid n t = (row, lane, color, off, gb')"
    and rows: "length (rows_of gb) < kRowBoundary" and pool: "length (pool_of gb) + n < 2 ^ 32"
  shows "book_inv gb' ls"
proof -
  note S = startRow_effect [OF start]
  let ?g = "gb'\<lparr>gb_snapshot := (gb_snapshot gb')\<lparr>gs_parentPool := take (length (pool_of gb)) (pool_of gb')\<rparr>\<rparr>"
  have row: "row \<noteq> kRowBoundary" using S(1) rows by (simp add: kRowBoundary_def)
  have "book_inv ?g ls"
    by (rule book_inv_resolve [OF inv row, of _ oid]) (simp_all add: S)
  moreover have "length (pool_of ?g) + n < 2 ^ 32" using pool by (simp add: S)
  ultimately have "book_inv (pushRow ?g oid lane color n t) ls" by (rule book_inv_pushRow)
  then show ?thesis by (rule book_inv_cong [THEN iffD1, rotated -1]) (simp_all add: S)
qed

section \<open>Linking the parents\<close>

lemma addOtherParent_eq:
  "addOtherParent gb row lane off n i p =
     linkParent (snd (snd (targetLaneFor gb lane p))) row lane (fst (targetLaneFor gb lane p))
       (fst (snd (targetLaneFor gb lane p))) (if n > 2 then Octopus else MergeParent)
       (u32 (off + i)) False p"
  by (simp add: addOtherParent_def Let_def split_beta)

lemma book_inv_targetLaneFor:
  "book_inv (snd (snd (targetLaneFor gb lane p))) ls = book_inv gb ls"
  by (rule book_inv_cong) simp_all

lemma book_inv_addOtherParents:
  assumes "book_inv gb ls" "off + i = length ls" "length ls + length ps \<le> length (pool_of gb)"
  shows "book_inv (addOtherParents gb row lane off n i ps) (ls @ map (Pair row) ps) \<and>
    pool_of (addOtherParents gb row lane off n i ps) = pool_of gb \<and>
    rows_of (addOtherParents gb row lane off n i ps) = rows_of gb \<and>
    oids_of (addOtherParents gb row lane off n i ps) = oids_of gb \<and>
    gb_options (addOtherParents gb row lane off n i ps) = gb_options gb"
  using assms
proof (induction ps arbitrary: gb ls i)
  case (Cons p ps)
  let ?g = "addOtherParent gb row lane off n i p"
  have "length (pool_of gb) < 2 ^ 32" using Cons.prems(1) by (rule book_invD)
  with Cons.prems have "u32 (off + i) = length ls" by simp
  with Cons.prems have "book_inv ?g (ls @ [(row, p)])"
    unfolding addOtherParent_eq
    by (intro book_inv_linkParent) (auto simp: book_inv_targetLaneFor)
  from Cons.IH [OF this, of "Suc i"] Cons.prems show ?case
    by (simp add: addOtherParent_eq)
qed simp

lemma book_inv_linkParents:
  assumes inv: "book_inv gb ls" and off: "off = length ls"
    and pool: "length ls + length ps \<le> length (pool_of gb)"
  shows "book_inv (linkParents gb row lane color off ps) (ls @ map (Pair row) ps) \<and>
    pool_of (linkParents gb row lane color off ps) = pool_of gb \<and>
    rows_of (linkParents gb row lane color off ps) = rows_of gb \<and>
    oids_of (linkParents gb row lane color off ps) = oids_of gb \<and>
    gb_options (linkParents gb row lane color off ps) = gb_options gb"
proof (cases ps)
  case Nil
  then show ?thesis using inv by (auto simp: linkParents_def intro: book_inv_cong [THEN iffD1, rotated -1])
next
  case (Cons p qs)
  have "book_inv (addFirstParent gb row lane color off p) (ls @ [(row, p)])"
    unfolding addFirstParent_def using inv off pool Cons by (intro book_inv_linkParent) auto
  from book_inv_addOtherParents [OF this, of off 1 qs row lane "length ps"] off pool Cons
  show ?thesis by (simp add: linkParents_def addFirstParent_def)
qed

lemma setLaneCount_frame [simp]:
  "edges_of (setLaneCount gb) = edges_of gb" "pool_of (setLaneCount gb) = pool_of gb"
  "rows_of (setLaneCount gb) = rows_of gb" "oids_of (setLaneCount gb) = oids_of gb"
  "gb_pending (setLaneCount gb) = gb_pending gb" "gb_lanes (setLaneCount gb) = gb_lanes gb"
  "gb_laneRefCount (setLaneCount gb) = gb_laneRefCount gb"
  "gb_options (setLaneCount gb) = gb_options gb"
  by (simp_all add: setLaneCount_def)

lemma book_inv_setLaneCount [simp]: "book_inv (setLaneCount gb) ls = book_inv gb ls"
  by (rule book_inv_cong) simp_all

end
