(* ===== verification/GraphWalk.thy ===== *)
theory GraphWalk
  imports GraphBuilder
begin

text \<open>
  Whole walks through \<^verbatim>\<open>GraphBuilder\<close>: the links a walk feeds, the contract of an
  invariant over a walk, and the theorems that hold of a built graph whatever its layout. Every
  parent slot resolves to the first later row that carries the parent, ending a walk flags
  exactly the rows whose history continues past it, and rows never change once emitted.
\<close>

section \<open>Walks and their links\<close>

definition parents_of_commit :: "commit \<Rightarrow> ObjectId list" where
  "parents_of_commit c = fst (snd c)"

definition links :: "commit list \<Rightarrow> link list" where
  "links hs = concat (map (\<lambda>(r, c). map (Pair r) (parents_of_commit c)) (List.enumerate 0 hs))"

lemma links_snoc [simp]: "links (hs @ [c]) = links hs @ map (Pair (length hs)) (parents_of_commit c)"
  by (simp add: links_def enumerate_append_eq)

lemma links_Nil [simp]: "links [] = []"
  by (simp add: links_def)

lemma length_links_take_Suc:
  "r < length hs \<Longrightarrow> length (links (take (Suc r) hs)) =
     length (links (take r hs)) + length (parents_of_commit (hs ! r))"
  by (simp add: take_Suc_conv_app_nth)

lemma links_prefix: "r \<le> length hs \<Longrightarrow> \<exists>ls. links hs = links (take r hs) @ ls"
proof (induction hs rule: rev_induct)
  case (snoc c hs)
  then show ?case by (cases "r = Suc (length hs)") auto
qed simp

lemma links_at:
  assumes "r < length hs" "i < length (parents_of_commit (hs ! r))"
  shows "length (links (take r hs)) + i < length (links hs)"
    "links hs ! (length (links (take r hs)) + i) = (r, parents_of_commit (hs ! r) ! i)"
proof -
  obtain ls where "links hs = links (take (Suc r) hs) @ ls" using links_prefix [of "Suc r" hs] assms by auto
  then show "length (links (take r hs)) + i < length (links hs)"
    "links hs ! (length (links (take r hs)) + i) = (r, parents_of_commit (hs ! r) ! i)"
    using assms by (simp_all add: take_Suc_conv_app_nth nth_append)
qed

lemma links_child_less: "k < length (links hs) \<Longrightarrow> fst (links hs ! k) < length hs"
proof (induction hs rule: rev_induct)
  case (snoc c hs)
  then show ?case by (cases "k < length (links hs)") (auto simp: nth_append less_SucI)
qed simp

lemma set_links: "(r, p) \<in> set (links hs) \<longleftrightarrow> r < length hs \<and> p \<in> set (parents_of_commit (hs ! r))"
proof (induction hs rule: rev_induct)
  case (snoc c hs)
  then show ?case by (auto simp: nth_append less_Suc_eq)
qed simp

text \<open>The row a link resolves to: the first later row that carries the parent.\<close>

definition next_row :: "ObjectId list \<Rightarrow> RowId \<Rightarrow> ObjectId \<Rightarrow> RowId" where
  "next_row oids r p =
     (case find (\<lambda>j. oids ! j = p) [Suc r..<length oids] of Some j \<Rightarrow> j | None \<Rightarrow> kRowBoundary)"

lemma next_row_last [simp]: "next_row (oids @ [q]) (length oids) p = kRowBoundary"
  by (simp add: next_row_def)

lemma find_cong_set: "(\<And>x. x \<in> set xs \<Longrightarrow> P x = Q x) \<Longrightarrow> find P xs = find Q xs"
  by (rule find_cong) simp_all

lemma find_append: "find P (xs @ ys) = (case find P xs of None \<Rightarrow> find P ys | Some x \<Rightarrow> Some x)"
  by (induction xs) auto

lemma next_row_snoc:
  assumes "r < length oids" "length oids < kRowBoundary"
  shows "next_row (oids @ [q]) r p =
    (if q = p \<and> next_row oids r p = kRowBoundary then length oids else next_row oids r p)"
proof -
  have same: "find (\<lambda>j. (oids @ [q]) ! j = p) [Suc r..<length oids] = find (\<lambda>j. oids ! j = p) [Suc r..<length oids]"
    by (rule find_cong_set) (simp add: nth_append)
  show ?thesis
  proof (cases "find (\<lambda>j. oids ! j = p) [Suc r..<length oids]")
    case None
    then show ?thesis using assms by (simp add: next_row_def find_append same)
  next
    case (Some j)
    then have "j \<in> set [Suc r..<length oids]" by (auto simp: find_Some_iff in_set_conv_nth simp del: set_upt)
    then have "j \<noteq> kRowBoundary" using assms by simp
    with Some show ?thesis using assms by (simp add: next_row_def find_append same)
  qed
qed

lemma next_row_spec:
  "next_row oids r p \<noteq> kRowBoundary \<Longrightarrow> length oids \<le> kRowBoundary \<Longrightarrow>
     r < next_row oids r p \<and> next_row oids r p < length oids \<and> oids ! next_row oids r p = p"
  by (auto simp: next_row_def find_Some_iff split: option.splits)

section \<open>Invariants of a walk\<close>

text \<open>
  The contract of an invariant over a walk: it holds of a new builder, one more commit within
  the row cap keeps it for the longer walk, and the truncation mark does not touch it. Then it
  holds of a built graph and the rows that fit the cap.
\<close>

locale walk_invariant =
  fixes I :: "GraphOptions \<Rightarrow> GraphBuilder \<Rightarrow> commit list \<Rightarrow> bool"
    and ok :: "GraphOptions \<Rightarrow> commit list \<Rightarrow> bool"
  assumes init: "ok options [] \<Longrightarrow> I options (new_builder options) []"
    and step: "I options gb hs \<Longrightarrow> ok options (hs @ [c]) \<Longrightarrow> length hs < go_maxRows options \<Longrightarrow>
      I options (add_commit gb c) (hs @ [c])"
    and mark: "I options gb hs \<Longrightarrow> I options (markTruncated gb) hs"
    and shape: "I options gb hs \<Longrightarrow> gb_options gb = options \<and> length (rows_of gb) = length hs"
    and prefix: "ok options (hs @ [c]) \<Longrightarrow> ok options hs"
begin

lemma build_inv: "ok options (take (go_maxRows options) cs) \<Longrightarrow>
    I options (build options cs) (take (go_maxRows options) cs)"
proof (induction cs rule: rev_induct)
  case Nil
  then show ?case by (simp add: build_def init)
next
  case (snoc c cs)
  show ?case
  proof (cases "length cs < go_maxRows options")
    case True
    with snoc.prems have ok': "ok options (cs @ [c])" by simp
    with snoc.IH True have "I options (build options cs) cs" using prefix by simp
    with ok' True show ?thesis using step by (simp add: build_def)
  next
    case False
    then have eq: "take (go_maxRows options) (cs @ [c]) = take (go_maxRows options) cs" by simp
    with snoc have I: "I options (build options cs) (take (go_maxRows options) cs)" by simp
    with shape [OF I] False have "add_commit (build options cs) c = markTruncated (build options cs)"
      by (simp add: add_commit_def add_def markTruncated_def)
    with I mark show ?thesis unfolding eq by (simp add: build_def)
  qed
qed

end

definition walk_ok :: "GraphOptions \<Rightarrow> commit list \<Rightarrow> bool" where
  "walk_ok options hs \<longleftrightarrow> go_maxRows options < 2 ^ 32 \<and> length (links hs) < 2 ^ 32"

text \<open>The meta data of a row, its lane and colour aside, is fixed by the walk.\<close>

definition row_shape :: "commit list \<Rightarrow> RowId \<Rightarrow> RowMeta \<Rightarrow> bool" where
  "row_shape hs r m \<longleftrightarrow>
     rm_parentOffset m = length (links (take r hs)) \<and> rm_edgeOffset m = length (links (take r hs)) \<and>
     rm_commitTime m = snd (snd (hs ! r)) \<and>
     rm_flags m = rowFlags (rm_lane m) (length (parents_of_commit (hs ! r)))"

definition walk_inv :: "GraphOptions \<Rightarrow> GraphBuilder \<Rightarrow> commit list \<Rightarrow> bool" where
  "walk_inv options gb hs \<longleftrightarrow>
     gb_options gb = options \<and> length (rows_of gb) = length hs \<and> oids_of gb = map fst hs \<and>
     length hs \<le> go_maxRows options \<and> length (pool_of gb) = length (links hs) \<and>
     book_inv gb (links hs) \<and>
     (\<forall>r < length hs. row_shape hs r (rows_of gb ! r)) \<and>
     (\<forall>k < length (links hs). pool_of gb ! k =
        next_row (map fst hs) (fst (links hs ! k)) (snd (links hs ! k)))"

lemma walk_invD:
  assumes "walk_inv options gb hs"
  shows "gb_options gb = options" "length (rows_of gb) = length hs" "oids_of gb = map fst hs"
    "length hs \<le> go_maxRows options" "length (pool_of gb) = length (links hs)"
    "book_inv gb (links hs)"
    "\<And>r. r < length hs \<Longrightarrow> row_shape hs r (rows_of gb ! r)"
    "\<And>k. k < length (links hs) \<Longrightarrow> pool_of gb ! k =
       next_row (map fst hs) (fst (links hs ! k)) (snd (links hs ! k))"
  using assms by (auto simp: walk_inv_def)

lemma add_unfold:
  assumes "length (rows_of gb) < go_maxRows (gb_options gb)"
    and "startRow gb oid (length ps) t = (row, lane, color, off, gb')"
  shows "add gb oid ps t = setLaneCount (linkParents gb' row lane color off ps)"
  using assms by (simp add: add_def)

lemma startRow_pool:
  assumes inv: "walk_inv options gb hs" and start: "startRow gb oid n t = (row, lane, color, off, gb')"
    and rows: "length hs < kRowBoundary" and k: "k < length (links hs)"
  shows "pool_of gb' ! k = next_row (map fst hs @ [oid]) (fst (links hs ! k)) (snd (links hs ! k))"
proof -
  note W = walk_invD [OF inv] and S = startRow_effect [OF start]
  have row: "row = length hs" using S(1) rows by (simp add: W kRowBoundary_def)
  have "pool_of gb' ! k = (if k \<in> set (waiting gb (links hs) oid) then row else pool_of gb ! k)"
    using resolve_effect(2) [OF W(6) refl, of k oid row] k by (simp add: S nth_append W)
  then show ?thesis
    using k rows links_child_less [OF k]
    by (auto simp: set_waiting W next_row_snoc row)
qed

lemma walk_inv_step:
  assumes inv: "walk_inv options gb hs" and ok: "walk_ok options (hs @ [c])"
    and rows: "length hs < go_maxRows options"
  shows "walk_inv options (add_commit gb c) (hs @ [c])"
proof -
  obtain oid ps t where c: "c = (oid, ps, t)" by (cases c)
  obtain row lane color off gb' where start: "startRow gb oid (length ps) t = (row, lane, color, off, gb')"
    by (metis prod_cases5)
  note W = walk_invD [OF inv] and S = startRow_effect [OF start]
  let ?g = "linkParents gb' row lane color off ps" and ?ls = "links hs @ map (Pair row) ps"
  have bound: "length hs < kRowBoundary" "length (links hs) + length ps < 2 ^ 32"
    using ok rows by (auto simp: walk_ok_def c parents_of_commit_def kRowBoundary_def)
  have row: "row = length hs" and off: "off = length (links hs)"
    using S(1,4) bound by (simp_all add: W kRowBoundary_def)
  have "book_inv gb' (links hs)"
    using book_inv_startRow [OF W(6) start] bound by (simp add: W)
  moreover have pool': "length (pool_of gb') = length (links hs) + length ps" by (simp add: S W)
  ultimately have L: "book_inv ?g ?ls" "pool_of ?g = pool_of gb'" "rows_of ?g = rows_of gb'"
      "oids_of ?g = oids_of gb'" "gb_options ?g = gb_options gb'"
    using book_inv_linkParents [OF _ off, of gb' ps row lane color] by simp_all
  have ls: "links (hs @ [c]) = ?ls" by (simp add: c parents_of_commit_def row)
  have tail: "pool_of gb' ! k = kRowBoundary" if "length (links hs) \<le> k" "k < length ?ls" for k
    using that by (simp add: S W nth_append)
  have res: "pool_of gb' ! k = next_row (map fst hs @ [oid]) (fst (?ls ! k)) (snd (?ls ! k))"
    if "k < length ?ls" for k
    using that startRow_pool [OF inv start bound(1), of k] tail [of k]
      next_row_last [of "map fst hs" oid]
    by (cases "k < length (links hs)") (auto simp: nth_append row)
  have "length (edges_of gb) = length (links hs)" using W(6) by (rule book_invD)
  then have offs: "row_shape (hs @ [c]) r (rows_of gb' ! r)" if "r < Suc (length hs)" for r
    using that W(2) W(7) [of r] off bound
    by (cases "r = length hs") (auto simp: S row_shape_def nth_append c parents_of_commit_def)
  have "add_commit gb c = setLaneCount ?g"
    using add_unfold [OF _ start] rows by (simp add: add_commit_def c W)
  then show ?thesis
    unfolding walk_inv_def using L S(9-11) W rows res offs pool' ls
    by (simp add: c)
qed

lemma walk_inv_mark: "walk_inv options gb hs \<Longrightarrow> walk_inv options (markTruncated gb) hs"
proof -
  have "book_inv (markTruncated gb) ls = book_inv gb ls" for ls
    by (rule book_inv_cong) (simp_all add: markTruncated_def)
  then show "walk_inv options gb hs \<Longrightarrow> walk_inv options (markTruncated gb) hs"
    by (simp add: walk_inv_def) (simp add: markTruncated_def)
qed

interpretation walk: walk_invariant walk_inv walk_ok
proof
  show "walk_inv options (new_builder options) []" for options
    using book_inv_new [of options] by (simp add: walk_inv_def new_builder_def empty_snapshot_def)
qed (auto simp: walk_invD walk_ok_def intro: walk_inv_step walk_inv_mark)


section \<open>Parents resolved\<close>

lemma snapshot_rows [simp]:
  "gs_rows (snapshot gb) = rows_of gb" "gs_parentPool (snapshot gb) = pool_of gb"
  "gs_oids (snapshot gb) = oids_of gb"
proof -
  have "gs_rows (foldl openEdge s pes) = gs_rows s \<and> gs_parentPool (foldl openEdge s pes) = gs_parentPool s \<and>
      gs_oids (foldl openEdge s pes) = gs_oids s" for s pes
    by (induction pes arbitrary: s) (simp_all add: openEdge_def)
  then show "gs_rows (snapshot gb) = rows_of gb" "gs_parentPool (snapshot gb) = pool_of gb"
    "gs_oids (snapshot gb) = oids_of gb"
    by (simp_all add: snapshot_def Let_def)
qed

lemma length_links_le: "r \<le> length hs \<Longrightarrow> length (links (take r hs)) \<le> length (links hs)"
  using links_prefix [of r hs] by auto

lemma parentCountOf_walk:
  assumes inv: "walk_inv options gb hs" and ok: "walk_ok options hs" and r: "r < length hs"
    and s: "gs_rows s = rows_of gb" "gs_parentPool s = pool_of gb"
  shows "parentCountOf s r = length (parents_of_commit (hs ! r))"
proof -
  note W = walk_invD [OF inv]
  have pool: "length (links hs) < 2 ^ 32" and suc: "u32 (Suc r) = Suc r"
    using ok r W(4) by (auto simp: walk_ok_def)
  have "rm_parentOffset (rows_of gb ! r) = length (links (take r hs))" using W(7) [OF r] by (simp add: row_shape_def)
  moreover have "Suc r < length hs \<Longrightarrow> rm_parentOffset (rows_of gb ! Suc r) = length (links (take (Suc r) hs))"
    using W(7) [of "Suc r"] by (simp add: row_shape_def)
  ultimately show ?thesis
    using r pool W(2,5) length_links_take_Suc [OF r]
    by (cases "Suc r < length hs") (auto simp: parentCountOf_def suc s Let_def)
qed

lemma parentsOf_walk:
  assumes inv: "walk_inv options gb hs" and ok: "walk_ok options hs" and r: "r < length hs"
    and s: "gs_rows s = rows_of gb" "gs_parentPool s = pool_of gb"
  shows "parentsOf s r = map (next_row (map fst hs) r) (parents_of_commit (hs ! r))"
proof -
  note W = walk_invD [OF inv]
  let ?n = "length (parents_of_commit (hs ! r))" and ?off = "length (links (take r hs))"
  have off: "rm_parentOffset (rows_of gb ! r) = ?off" using W(7) [OF r] by (simp add: row_shape_def)
  have idx: "u32 (?off + i) = ?off + i" "?off + i < length (pool_of gb)" if "i < ?n" for i
    using links_at(1) [OF r that] ok by (simp_all add: W walk_ok_def)
  have "parentsOf s r = map (\<lambda>i. pool_of gb ! (?off + i)) [0..<?n]"
    using r idx by (simp add: parentsOf_def parentCountOf_walk [OF inv ok r s] s W off Let_def)
  also have "\<dots> = map (next_row (map fst hs) r) (parents_of_commit (hs ! r))"
    by (rule nth_equalityI) (simp_all add: W(8) links_at [OF r])
  finally show ?thesis .
qed

text \<open>
  Every parent of every row is resolved exactly: the parents a published snapshot reports for
  a row are, in git's order, the first later row that carries each parent's object id, and the
  boundary value for a parent the walk does not reach. The walk is cut at the row cap, and fewer
  than 2^32 links are fed.
\<close>

theorem parentsOf_resolved:
  assumes "walk_ok options hs" "hs = take (go_maxRows options) cs" "r < length hs"
  shows "parentsOf (snapshot (build options cs)) r =
    map (next_row (map fst hs) r) (parents_of_commit (hs ! r))"
  using parentsOf_walk [OF walk.build_inv, of options cs r "snapshot (build options cs)"] assms by simp


definition demo_oid :: "8 word \<Rightarrow> ObjectId" where
  "demo_oid b = ObjectId (b # replicate 31 0) 20"

lemma demo_oid_eq [simp]: "demo_oid a = demo_oid b \<longleftrightarrow> a = b"
  by (simp add: demo_oid_def)

text \<open>A merge of two lines whose base lies past the end of the walk.\<close>

definition demo_walk :: "commit list" where
  "demo_walk = [(demo_oid 1, [demo_oid 2, demo_oid 3], 90), (demo_oid 3, [demo_oid 4], 80),
     (demo_oid 2, [demo_oid 4], 70)]"

definition demo_options :: GraphOptions where
  "demo_options = \<lparr>go_maxRows = 2000000, go_trunkTip = demo_oid 1\<rparr>"

lemma demo_walk_links:
  "links demo_walk = [(0, demo_oid 2), (0, demo_oid 3), (1, demo_oid 4), (2, demo_oid 4)]"
  by (simp add: links_def demo_walk_def parents_of_commit_def)

lemma demo_walk_ok: "walk_ok demo_options demo_walk"
  by (simp add: walk_ok_def demo_options_def demo_walk_links)

lemma demo_walk_take: "take (go_maxRows demo_options) demo_walk = demo_walk"
  by (simp add: demo_options_def demo_walk_def)

theorem parentsOf_resolved_witness:
  "parentsOf (snapshot (build demo_options demo_walk)) 0 = [2, 1]"
  using parentsOf_resolved [OF demo_walk_ok demo_walk_take [symmetric], of 0]
  by (simp add: demo_walk_def parents_of_commit_def next_row_def upt_rec)

section \<open>Ending a walk\<close>

lemma set_all_pending:
  assumes "book_inv gb ls"
  shows "set (all_pending gb) = pe_of gb ` {k. k < length ls \<and> open_at gb k}"
proof -
  note D = book_invD [OF assms]
  have "pe \<in> set (all_pending gb) \<longleftrightarrow> (\<exists>p. pe \<in> set (pending_at gb p))" for pe
  proof
    assume "pe \<in> set (all_pending gb)"
    then obtain p es where "(p, es) \<in> set (gb_pending gb)" "pe \<in> set es" by (auto simp: all_pending_def)
    then have "pe \<in> set (pending_at gb p)" using D(10) by (simp add: pending_at_def)
    then show "\<exists>p. pe \<in> set (pending_at gb p)" ..
  qed (auto simp: all_pending_def pending_at_def split: option.splits, metis map_of_SomeD snd_conv)
  moreover have "(\<exists>p. pe \<in> set (pending_at gb p)) \<longleftrightarrow> pe \<in> pe_of gb ` {k. k < length ls \<and> open_at gb k}" for pe
    by (auto simp: D(7) set_waiting)
  ultimately show ?thesis by blast
qed

text \<open>Opening the pending edges again changes nothing: they never stopped being open.\<close>

lemma openEdge_noop:
  assumes "pe_edgeId pe < length (gs_edges s) \<Longrightarrow> e_parentRow (gs_edges s ! pe_edgeId pe) = kRowBoundary"
  shows "openEdge s pe = s"
proof (cases "pe_edgeId pe < length (gs_edges s)")
  case True
  then have "(gs_edges s ! pe_edgeId pe)\<lparr>e_parentRow := kRowBoundary\<rparr> = gs_edges s ! pe_edgeId pe"
    using assms by simp
  then show ?thesis by (simp add: openEdge_def)
next
  case False
  then show ?thesis by (simp add: openEdge_def list_update_beyond)
qed

lemma pending_edges_open:
  assumes "book_inv gb ls" "pe \<in> set (all_pending gb)"
  shows "e_parentRow (edges_of gb ! pe_edgeId pe) = kRowBoundary"
  using assms book_invD(5) [OF assms(1)] by (auto simp: set_all_pending pe_of_def Let_def)

lemma foldl_openEdge_noop:
  "\<forall>pe \<in> set pes. e_parentRow (gs_edges s ! pe_edgeId pe) = kRowBoundary \<Longrightarrow> foldl openEdge s pes = s"
  by (induction pes) (simp_all add: openEdge_noop)

lemma snapshot_eq:
  assumes "book_inv gb ls"
  shows "snapshot gb = finalizeIndices ((gb_snapshot gb)\<lparr>gs_complete := gb_finished gb\<rparr>)"
  using pending_edges_open [OF assms] by (simp add: snapshot_def Let_def foldl_openEdge_noop)

lemma finishEdge_effect:
  assumes "e_parentRow (edges_of gb ! pe_edgeId pe) = kRowBoundary"
  shows "finishEdge gb pe = setRowFlags gb (pe_childRow pe) FlagBoundary"
  using assms by (simp add: finishEdge_def openEdge_noop)

text \<open>Ending a walk sets the boundary flag on the rows of the pending edges, and nothing else in the rows.\<close>

lemma finish_fold:
  assumes "\<forall>pe \<in> set pes. e_parentRow (edges_of gb ! pe_edgeId pe) = kRowBoundary"
  shows "length (rows_of (foldl finishEdge gb pes)) = length (rows_of gb) \<and>
    edges_of (foldl finishEdge gb pes) = edges_of gb \<and> pool_of (foldl finishEdge gb pes) = pool_of gb \<and>
    oids_of (foldl finishEdge gb pes) = oids_of gb \<and>
    (\<forall>r < length (rows_of gb). rows_of (foldl finishEdge gb pes) ! r =
      (if r \<in> pe_childRow ` set pes
       then (rows_of gb ! r)\<lparr>rm_flags := rm_flags (rows_of gb ! r) OR FlagBoundary\<rparr> else rows_of gb ! r))"
  using assms
proof (induction pes arbitrary: gb)
  case (Cons pe pes)
  let ?g = "finishEdge gb pe"
  have g: "?g = setRowFlags gb (pe_childRow pe) FlagBoundary" using Cons.prems by (simp add: finishEdge_effect)
  have "edges_of ?g = edges_of gb" unfolding g by (simp add: setRowFlags_def Let_def)
  with Cons.IH [of ?g] Cons.prems show ?case
    by (auto simp: g setRowFlags_def Let_def nth_list_update or.assoc)
qed simp


lemma rowFlags_not_boundary: "rowFlags lane n AND FlagBoundary = 0"
proof -
  have "min n 7 \<in> {0, 1, 2, 3, 4, 5, 6, 7}" by auto
  then show ?thesis
    by (auto simp: rowFlags_def Let_def FlagBoundary_def FlagIsMerge_def FlagLaneOverflow_def)
qed

lemma rm_isBoundary_set: "rm_isBoundary (m\<lparr>rm_flags := rm_flags m OR FlagBoundary\<rparr>)"
  by (simp add: rm_isBoundary_def FlagBoundary_def word_ao_absorbs)

lemma finish_rows:
  assumes inv: "walk_inv options gb hs" and r: "r < length hs"
  shows "rows_of (finish gb) ! r =
    (if \<exists>p \<in> set (parents_of_commit (hs ! r)). next_row (map fst hs) r p = kRowBoundary
     then (rows_of gb ! r)\<lparr>rm_flags := rm_flags (rows_of gb ! r) OR FlagBoundary\<rparr> else rows_of gb ! r)"
proof -
  note W = walk_invD [OF inv] and D = book_invD [OF walk_invD(6) [OF inv]]
  have "pe_childRow ` set (all_pending gb) = {fst (links hs ! k) |k. k < length (links hs) \<and> open_at gb k}"
    by (auto simp: set_all_pending [OF W(6)] pe_of_def Let_def D(6) image_iff)
  also have "\<dots> = fst ` {l \<in> set (links hs). next_row (map fst hs) (fst l) (snd l) = kRowBoundary}"
    by (auto simp: in_set_conv_nth W(8) image_iff) (metis W(8) fst_conv snd_conv)
  finally have "r \<in> pe_childRow ` set (all_pending gb) \<longleftrightarrow>
      (\<exists>p \<in> set (parents_of_commit (hs ! r)). next_row (map fst hs) r p = kRowBoundary)"
    using r by (force simp: set_links image_iff)
  then show ?thesis
    using finish_fold [of "all_pending gb" gb] pending_edges_open [OF W(6)] r W(2)
    by (simp add: finish_def Let_def)
qed


text \<open>
  Ending a walk flags exactly the rows that have a parent outside it: a row of a finished
  graph carries the boundary flag if and only if one of its parents never arrived below it.
\<close>

theorem finish_boundary_exact:
  assumes "walk_ok options hs" "hs = take (go_maxRows options) cs" "r < length hs"
  shows "rm_isBoundary (gs_rows (snapshot (finish (build options cs))) ! r) \<longleftrightarrow>
    (\<exists>p \<in> set (parents_of_commit (hs ! r)). next_row (map fst hs) r p = kRowBoundary)"
proof -
  have inv: "walk_inv options (build options cs) hs" using walk.build_inv assms by blast
  have "\<not> rm_isBoundary (rows_of (build options cs) ! r)"
    using walk_invD(7) [OF inv assms(3)] by (simp add: rm_isBoundary_def row_shape_def rowFlags_not_boundary)
  then show ?thesis using finish_rows [OF inv assms(3)] by (simp add: rm_isBoundary_set)
qed

theorem finish_boundary_exact_witness:
  "rm_isBoundary (gs_rows (snapshot (finish (build demo_options demo_walk))) ! 2)"
  using finish_boundary_exact [OF demo_walk_ok demo_walk_take [symmetric], of 2]
  by (simp add: demo_walk_def parents_of_commit_def next_row_def)

lemma finish_frame:
  assumes "book_inv gb ls"
  shows "edges_of (finish gb) = edges_of gb" "pool_of (finish gb) = pool_of gb"
    "gb_pending (finish gb) = gb_pending gb" "gb_laneRefCount (finish gb) = gb_laneRefCount gb"
    "gb_lanes (finish gb) = gb_lanes gb" "length (rows_of (finish gb)) = length (rows_of gb)"
proof -
  have "gb_pending (foldl finishEdge gb pes) = gb_pending gb \<and> gb_lanes (foldl finishEdge gb pes) = gb_lanes gb \<and>
      gb_laneRefCount (foldl finishEdge gb pes) = gb_laneRefCount gb" for pes
    by (induction pes arbitrary: gb) (simp_all add: finishEdge_def setRowFlags_def Let_def)
  moreover note finish_fold [of "all_pending gb" gb]
  ultimately show "edges_of (finish gb) = edges_of gb" "pool_of (finish gb) = pool_of gb"
    "gb_pending (finish gb) = gb_pending gb" "gb_laneRefCount (finish gb) = gb_laneRefCount gb"
    "gb_lanes (finish gb) = gb_lanes gb" "length (rows_of (finish gb)) = length (rows_of gb)"
    using pending_edges_open [OF assms] by (auto simp: finish_def Let_def)
qed

text \<open>A row that already has the flag keeps its value, so a second end is the first.\<close>

lemma setRowFlags_again:
  assumes "row < length (rows_of gb) \<Longrightarrow> rm_flags (rows_of gb ! row) OR f = rm_flags (rows_of gb ! row)"
  shows "setRowFlags gb row f = gb"
proof (cases "row < length (rows_of gb)")
  case True
  then have "(rows_of gb ! row)\<lparr>rm_flags := rm_flags (rows_of gb ! row) OR f\<rparr> = rows_of gb ! row"
    using assms by simp
  then show ?thesis by (simp add: setRowFlags_def Let_def)
qed (simp add: setRowFlags_def)

lemma finish_twice:
  assumes inv: "book_inv gb ls"
  shows "finish (finish gb) = finish gb"
proof -
  let ?g = "finish gb"
  have same: "all_pending ?g = all_pending gb" by (simp add: all_pending_def finish_frame [OF inv])
  have flagged: "rm_flags (rows_of ?g ! pe_childRow pe) OR FlagBoundary = rm_flags (rows_of ?g ! pe_childRow pe)"
    if "pe \<in> set (all_pending gb)" "pe_childRow pe < length (rows_of gb)" for pe
    using that finish_fold [of "all_pending gb" gb] pending_edges_open [OF inv]
    by (auto simp: finish_def Let_def or.assoc)
  have "finishEdge ?g pe = ?g" if "pe \<in> set (all_pending gb)" for pe
  proof -
    have "finishEdge ?g pe = setRowFlags ?g (pe_childRow pe) FlagBoundary"
      by (rule finishEdge_effect) (simp add: finish_frame [OF inv] pending_edges_open [OF inv that])
    also have "\<dots> = ?g"
      by (rule setRowFlags_again) (simp add: finish_frame [OF inv] flagged [OF that])
    finally show ?thesis .
  qed
  then have "foldl finishEdge ?g pes = ?g" if "set pes \<subseteq> set (all_pending gb)" for pes
    using that by (induction pes) auto
  then have "foldl finishEdge ?g (all_pending ?g) = ?g" by (simp add: same)
  then show ?thesis
    by (subst finish_def) (simp add: Let_def, simp add: finish_def Let_def)
qed

text \<open>
  Ending a walk is idempotent: ending an ended walk changes nothing at all.
\<close>

theorem finish_idempotent:
  assumes "walk_ok options (take (go_maxRows options) cs)"
  shows "finish (finish (build options cs)) = finish (build options cs)"
  using finish_twice [OF walk_invD(6) [OF walk.build_inv [OF assms]]] .

theorem finish_idempotent_witness:
  "finish (finish (build demo_options demo_walk)) = finish (build demo_options demo_walk)"
  using finish_idempotent [of demo_options demo_walk] demo_walk_ok by (simp add: demo_walk_take)

section \<open>Rows never change once emitted\<close>

lemma rows_addOtherParents [simp]:
  "rows_of (addOtherParents gb row lane off n i ps) = rows_of gb"
  "oids_of (addOtherParents gb row lane off n i ps) = oids_of gb"
  by (induction ps arbitrary: gb i) (simp_all add: addOtherParent_eq)

lemma rows_linkParents [simp]:
  "rows_of (linkParents gb row lane c off ps) = rows_of gb"
  "oids_of (linkParents gb row lane c off ps) = oids_of gb"
  by (simp_all add: linkParents_def addFirstParent_def split: list.splits)

lemma rows_add_commit:
  "\<exists>ms os. rows_of (add_commit gb c) = rows_of gb @ ms \<and> oids_of (add_commit gb c) = oids_of gb @ os"
proof -
  obtain row lane color off gb' where
    start: "startRow gb (fst c) (length (fst (snd c))) (snd (snd c)) = (row, lane, color, off, gb')"
    by (metis prod_cases5)
  from startRow_effect(10,11) [OF start] start show ?thesis
    by (auto simp: add_commit_def add_def)
qed

lemma rows_add_commits:
  "\<exists>ms os. rows_of (foldl add_commit gb cs) = rows_of gb @ ms \<and> oids_of (foldl add_commit gb cs) = oids_of gb @ os"
proof (induction cs rule: rev_induct)
  case (snoc c cs)
  then show ?case using rows_add_commit [of "foldl add_commit gb cs" c] by auto
qed simp

text \<open>
  A row never moves while the walk streams in: whatever is fed later, a row already emitted
  keeps its object id, lane, colour, offsets and flags. So what a snapshot published stays true
  of every later one; and a boundary flag set by ending a walk early stays set even when the
  missing parent is fed afterwards.
\<close>

theorem rows_stable:
  assumes "r < length (rows_of gb)" "length (oids_of gb) = length (rows_of gb)"
  shows "gs_rows (snapshot (foldl add_commit gb cs)) ! r = rows_of gb ! r \<and>
    gs_oids (snapshot (foldl add_commit gb cs)) ! r = oids_of gb ! r"
  using rows_add_commits [of gb cs] assms by (auto simp: nth_append)

theorem rows_stable_witness:
  "rm_isBoundary (gs_rows (snapshot (foldl add_commit (finish (build demo_options demo_walk))
     [(demo_oid 4, [], 60)])) ! 2)"
proof -
  let ?g = "finish (build demo_options demo_walk)"
  have inv: "walk_inv demo_options (build demo_options demo_walk) demo_walk"
    using walk.build_inv [of demo_options demo_walk] demo_walk_ok by (simp add: demo_walk_take)
  have "rm_isBoundary (rows_of ?g ! 2)"
    using finish_rows [OF inv, of 2] by (simp add: demo_walk_def parents_of_commit_def next_row_def rm_isBoundary_set)
  moreover have "length (rows_of ?g) = 3" "length (oids_of ?g) = 3"
    using walk_invD(2,3) [OF inv] finish_frame(6) [OF walk_invD(6) [OF inv]]
      finish_fold [of "all_pending (build demo_options demo_walk)"] pending_edges_open [OF walk_invD(6) [OF inv]]
    by (simp_all add: demo_walk_def finish_def Let_def)
  ultimately show ?thesis
    using rows_stable [of 2 ?g "[(demo_oid 4, [], 60)]"] by simp
qed

end
