(* ===== verification/GraphLayout.thy ===== *)
theory GraphLayout
  imports GraphWalk
begin

text \<open>
  The layout \<^verbatim>\<open>GraphBuilder\<close> promises in its header: straight first-parent chains, the
  trunk in lane 0, no line through another row's dot, no two lines over one another. One
  invariant over edges, rows and columns is kept by each step of the handler and, through the
  walk contract, by whole walks of distinct commits; the theorems read it off the published
  snapshot. Lines in the shared overflow lane are outside these promises.
\<close>

section \<open>The layout of the edges\<close>

text \<open>
  What holds of edge \<open>k\<close>, over the edges, the parent pool, the rows and the links: its column
  and colour are in range; no row it passes has its dot in that column; it leaves its child's
  dot, straight down if it is the first parent; the row it ends in inherits its colour with its
  column; and a first-parent edge ends in its own column or further left, where the trunk tip or
  another first-parent edge is.
\<close>

definition edge_inv ::
  "(ObjectId \<Rightarrow> bool) \<Rightarrow> Edge list \<Rightarrow> RowId list \<Rightarrow> RowMeta list \<Rightarrow> link list \<Rightarrow> nat \<Rightarrow> bool" where
  "edge_inv tip es pool ms ls k \<longleftrightarrow> (let e = es ! k; child = fst (ls ! k); parent = pool ! k in
     e_lane e \<le> kMaxLanes \<and> e_color e < kPaletteSize \<and> child < length ms \<and>
     (parent = kRowBoundary \<or> parent < length ms) \<and>
     (\<forall>r. child < r \<and> r < parent \<and> r < length ms \<and> e_lane e < kMaxLanes \<longrightarrow> rm_lane (ms ! r) \<noteq> e_lane e) \<and>
     e_childLane e = rm_lane (ms ! child) \<and>
     (e_kind e = FirstParent \<longrightarrow> e_lane e = rm_lane (ms ! child) \<and> e_color e = rm_color (ms ! child)) \<and>
     (parent \<noteq> kRowBoundary \<and> rm_lane (ms ! parent) = e_lane e \<and> e_lane e < kMaxLanes \<longrightarrow>
        rm_color (ms ! parent) = e_color e) \<and>
     (parent \<noteq> kRowBoundary \<and> e_kind e = FirstParent \<longrightarrow>
        rm_lane (ms ! parent) \<le> e_lane e \<and>
        (tip (snd (ls ! k)) \<or> (\<exists>j < length ls. pool ! j = parent \<and> e_kind (es ! j) = FirstParent \<and>
           e_lane (es ! j) = rm_lane (ms ! parent)))))"

text \<open>Two edges that share a column await the same parent or their rows do not overlap.\<close>

definition excl_inv :: "Edge list \<Rightarrow> RowId list \<Rightarrow> link list \<Rightarrow> bool" where
  "excl_inv es pool ls \<longleftrightarrow> (\<forall>j < length ls. \<forall>k < length ls.
     e_lane (es ! j) = e_lane (es ! k) \<and> e_lane (es ! k) < kMaxLanes \<longrightarrow>
     snd (ls ! j) = snd (ls ! k) \<or> pool ! j \<le> fst (ls ! k) \<or> pool ! k \<le> fst (ls ! j))"

definition edges_inv :: "(ObjectId \<Rightarrow> bool) \<Rightarrow> Edge list \<Rightarrow> RowId list \<Rightarrow> RowMeta list \<Rightarrow> link list \<Rightarrow> bool" where
  "edges_inv tip es pool ms ls \<longleftrightarrow>
     (\<forall>k < length ls. edge_inv tip es pool ms ls k) \<and> excl_inv es pool ls \<and>
     (\<forall>m \<in> set ms. rm_lane m \<le> kMaxLanes \<and> rm_color m < kPaletteSize)"

lemma edges_invD:
  assumes "edges_inv tip es pool ms ls" "k < length ls"
  shows "e_lane (es ! k) \<le> kMaxLanes" "e_color (es ! k) < kPaletteSize" "fst (ls ! k) < length ms"
    "pool ! k = kRowBoundary \<or> pool ! k < length ms"
    "\<And>r. fst (ls ! k) < r \<Longrightarrow> r < pool ! k \<Longrightarrow> r < length ms \<Longrightarrow> e_lane (es ! k) < kMaxLanes \<Longrightarrow>
       rm_lane (ms ! r) \<noteq> e_lane (es ! k)"
    "e_childLane (es ! k) = rm_lane (ms ! fst (ls ! k))"
    "e_kind (es ! k) = FirstParent \<Longrightarrow> e_lane (es ! k) = rm_lane (ms ! fst (ls ! k))"
    "e_kind (es ! k) = FirstParent \<Longrightarrow> e_color (es ! k) = rm_color (ms ! fst (ls ! k))"
    "pool ! k \<noteq> kRowBoundary \<Longrightarrow> rm_lane (ms ! (pool ! k)) = e_lane (es ! k) \<Longrightarrow> e_lane (es ! k) < kMaxLanes \<Longrightarrow>
       rm_color (ms ! (pool ! k)) = e_color (es ! k)"
    "pool ! k \<noteq> kRowBoundary \<Longrightarrow> e_kind (es ! k) = FirstParent \<Longrightarrow> rm_lane (ms ! (pool ! k)) \<le> e_lane (es ! k)"
    "pool ! k \<noteq> kRowBoundary \<Longrightarrow> e_kind (es ! k) = FirstParent \<Longrightarrow> tip (snd (ls ! k)) \<or>
       (\<exists>j < length ls. pool ! j = pool ! k \<and> e_kind (es ! j) = FirstParent \<and>
          e_lane (es ! j) = rm_lane (ms ! (pool ! k)))"
  using assms by (auto simp: edges_inv_def edge_inv_def Let_def)

lemma edges_inv_excl:
  assumes "edges_inv tip es pool ms ls" "j < length ls" "k < length ls"
    "e_lane (es ! j) = e_lane (es ! k)" "e_lane (es ! k) < kMaxLanes"
  shows "snd (ls ! j) = snd (ls ! k) \<or> pool ! j \<le> fst (ls ! k) \<or> pool ! k \<le> fst (ls ! j)"
  using assms by (simp add: edges_inv_def excl_inv_def)

text \<open>So the open edges of one column all await the same parent.\<close>

lemma open_column_same_parent:
  assumes inv: "edges_inv tip es pool ms ls" and j: "j < length ls" "pool ! j = kRowBoundary"
    and k: "k < length ls" "pool ! k = kRowBoundary"
    and lane: "e_lane (es ! j) = e_lane (es ! k)" "e_lane (es ! k) < kMaxLanes"
    and rows: "length ms \<le> kRowBoundary"
  shows "snd (ls ! j) = snd (ls ! k)"
  using edges_inv_excl [OF inv j(1) k(1) lane] edges_invD(3) [OF inv j(1)] edges_invD(3) [OF inv k(1)]
    j(2) k(2) rows by auto

text \<open>A new edge that leaves the last row in a column where every open edge awaits its parent.\<close>

lemma edges_inv_link:
  assumes inv: "edges_inv tip es pool ms ls" and len: "length es = length ls"
    and row: "length ms = Suc row" and op: "pool ! length ls = kRowBoundary"
    and bounds: "e_lane e \<le> kMaxLanes" "e_color e < kPaletteSize"
    and from_row: "e_childLane e = rm_lane (ms ! row)"
    and first: "e_kind e = FirstParent \<Longrightarrow> e_lane e = rm_lane (ms ! row) \<and> e_color e = rm_color (ms ! row)"
    and col: "\<And>k. k < length ls \<Longrightarrow> pool ! k = kRowBoundary \<Longrightarrow> e_lane (es ! k) = e_lane e \<Longrightarrow>
      e_lane e < kMaxLanes \<Longrightarrow> snd (ls ! k) = p"
  shows "edges_inv tip (es @ [e]) pool ms (ls @ [(row, p)])"
proof -
  note I = edges_invD [OF inv]
  have old: "edge_inv tip (es @ [e]) pool ms (ls @ [(row, p)]) k" if k: "k < length ls" for k
  proof -
    have "\<exists>j < Suc (length ls). pool ! j = pool ! k \<and> e_kind ((es @ [e]) ! j) = FirstParent \<and>
        e_lane ((es @ [e]) ! j) = rm_lane (ms ! (pool ! k))"
      if "\<exists>j < length ls. pool ! j = pool ! k \<and> e_kind (es ! j) = FirstParent \<and>
        e_lane (es ! j) = rm_lane (ms ! (pool ! k))"
      using that len by (metis less_SucI nth_append)
    then show ?thesis
      using I [OF k] k len by (auto simp: edge_inv_def Let_def nth_append)
  qed
  have new: "edge_inv tip (es @ [e]) pool ms (ls @ [(row, p)]) (length ls)"
    using bounds from_row first op row len by (simp add: edge_inv_def Let_def nth_append)
  have "snd (ls ! k) = p \<or> pool ! k \<le> row" if "k < length ls" "e_lane (es ! k) = e_lane e" "e_lane e < kMaxLanes" for k
    using I(4) [OF that(1)] col [OF that(1)] that row by auto
  then have "excl_inv (es @ [e]) pool (ls @ [(row, p)])"
    using inv len unfolding excl_inv_def edges_inv_def by (auto simp: nth_append less_Suc_eq) metis
  with old new inv show ?thesis
    by (auto simp: edges_inv_def less_Suc_eq)
qed

text \<open>A new row that resolves the edges awaiting it.\<close>

lemma edges_inv_row:
  assumes inv: "edges_inv tip es pool ms ls"
    and same: "\<And>k. k < length ls \<Longrightarrow> e_lane (es' ! k) = e_lane (es ! k) \<and> e_color (es' ! k) = e_color (es ! k) \<and>
      e_kind (es' ! k) = e_kind (es ! k) \<and> e_childLane (es' ! k) = e_childLane (es ! k)"
    and pool: "\<And>k. k < length ls \<Longrightarrow>
      pool' ! k = (if snd (ls ! k) = oid \<and> pool ! k = kRowBoundary then length ms else pool ! k)"
    and rows: "length ms < kRowBoundary"
    and m: "rm_lane m \<le> kMaxLanes" "rm_color m < kPaletteSize"
    and free: "\<And>k. k < length ls \<Longrightarrow> pool ! k = kRowBoundary \<Longrightarrow> snd (ls ! k) \<noteq> oid \<Longrightarrow>
      e_lane (es ! k) = rm_lane m \<Longrightarrow> rm_lane m < kMaxLanes \<Longrightarrow> False"
    and colour: "\<And>k. k < length ls \<Longrightarrow> pool ! k = kRowBoundary \<Longrightarrow> snd (ls ! k) = oid \<Longrightarrow>
      e_lane (es ! k) = rm_lane m \<Longrightarrow> rm_lane m < kMaxLanes \<Longrightarrow> rm_color m = e_color (es ! k)"
    and straight: "\<And>k. k < length ls \<Longrightarrow> pool ! k = kRowBoundary \<Longrightarrow> snd (ls ! k) = oid \<Longrightarrow>
      e_kind (es ! k) = FirstParent \<Longrightarrow> rm_lane m \<le> e_lane (es ! k) \<and> (tip oid \<or>
        (\<exists>j < length ls. pool ! j = kRowBoundary \<and> snd (ls ! j) = oid \<and> e_kind (es ! j) = FirstParent \<and>
           e_lane (es ! j) = rm_lane m))"
  shows "edges_inv tip es' pool' (ms @ [m]) ls"
proof -
  note I = edges_invD [OF inv]
  have "edge_inv tip es' pool' (ms @ [m]) ls k" if k: "k < length ls" for k
  proof (cases "pool ! k = kRowBoundary")
    case False
    then have parent: "pool' ! k = pool ! k" "pool ! k < length ms" using pool [OF k] I(4) [OF k] by auto
    have "\<exists>j < length ls. pool' ! j = pool' ! k \<and> e_kind (es' ! j) = FirstParent \<and>
        e_lane (es' ! j) = rm_lane (ms ! (pool ! k))"
      if "\<exists>j < length ls. pool ! j = pool ! k \<and> e_kind (es ! j) = FirstParent \<and>
        e_lane (es ! j) = rm_lane (ms ! (pool ! k))"
      using that same pool parent False by metis
    then show ?thesis
      using I [OF k] same [OF k] parent False by (auto simp: edge_inv_def Let_def nth_append)
  next
    case True
    note at = same [OF k] pool [OF k]
    show ?thesis
    proof (cases "snd (ls ! k) = oid")
      case True
      have "\<exists>j < length ls. pool' ! j = length ms \<and> e_kind (es' ! j) = FirstParent \<and> e_lane (es' ! j) = rm_lane m"
        if "\<exists>j < length ls. pool ! j = kRowBoundary \<and> snd (ls ! j) = oid \<and> e_kind (es ! j) = FirstParent \<and>
          e_lane (es ! j) = rm_lane m"
        using that same pool by metis
      then show ?thesis
        using I [OF k] at True \<open>pool ! k = kRowBoundary\<close> rows straight [OF k] colour [OF k]
        by (auto simp: edge_inv_def Let_def nth_append)
    next
      case False
      then show ?thesis
        using I [OF k] at True rows free [OF k]
        by (auto simp: edge_inv_def Let_def nth_append less_Suc_eq)
    qed
  qed
  moreover have "excl_inv es' pool' ls"
    unfolding excl_inv_def
  proof (intro allI impI)
    fix j k
    assume j: "j < length ls" and k: "k < length ls"
      and lane: "e_lane (es' ! j) = e_lane (es' ! k) \<and> e_lane (es' ! k) < kMaxLanes"
    show "snd (ls ! j) = snd (ls ! k) \<or> pool' ! j \<le> fst (ls ! k) \<or> pool' ! k \<le> fst (ls ! j)"
      using edges_inv_excl [OF inv j k] lane same [OF j] same [OF k] pool [OF j] pool [OF k]
        I(3) [OF j] I(3) [OF k] rows by auto
  qed
  ultimately show ?thesis using inv m by (auto simp: edges_inv_def)
qed


section \<open>The straightness rule\<close>

lemma choose_best_spec:
  "choose_best (Some b) cs = Some b' \<Longrightarrow> b' \<in> insert b (set cs) \<and>
     (\<forall>c \<in> insert b (set cs). (pe_rank b', pe_lane b') \<le> (pe_rank c, pe_lane c))"
proof (induction cs arbitrary: b)
  case (Cons c cs)
  then show ?case
    by (fastforce simp: less_eq_prod_def less_prod_def split: if_splits)
qed simp

lemma choose_best_Some: "\<exists>b'. choose_best (Some b) cs = Some b'"
  by (induction cs arbitrary: b) auto

lemma chooseLane_spec:
  assumes "inc \<noteq> []"
  obtains b where "b \<in> set inc" "chooseLane inc = pe_lane b"
    "\<And>c. c \<in> set inc \<Longrightarrow> pe_firstParent c \<Longrightarrow> pe_firstParent b \<and> pe_lane b \<le> pe_lane c"
proof -
  obtain c cs where inc: "inc = c # cs" using assms by (cases inc) auto
  obtain b where b: "choose_best (Some c) cs = Some b" using choose_best_Some by blast
  show thesis
  proof (rule that)
    show "b \<in> set inc" "chooseLane inc = pe_lane b"
      using choose_best_spec [OF b] b by (simp_all add: inc chooseLane_def)
    show "pe_firstParent b \<and> pe_lane b \<le> pe_lane c'" if "c' \<in> set inc" "pe_firstParent c'" for c'
    proof -
      have "(pe_rank b, pe_lane b) \<le> (pe_rank c', pe_lane c')"
        using choose_best_spec [OF b] that(1) inc by auto
      with that(2) show ?thesis by (auto simp: pe_rank_def less_eq_prod_def split: if_splits)
    qed
  qed
qed


section \<open>The layout invariant\<close>

definition tip_waits :: "GraphBuilder \<Rightarrow> bool" where
  "tip_waits gb \<longleftrightarrow> \<not> isNull (go_trunkTip (gb_options gb)) \<and> go_trunkTip (gb_options gb) \<notin> set (oids_of gb)"

text \<open>
  The columns in use are exactly those of the open edges, those of \<open>X\<close> (the row being built, or
  a column just handed out), and column 0 while the trunk tip is still to come. Until then no
  row and no edge lies in column 0.
\<close>

definition columns_inv :: "GraphBuilder \<Rightarrow> link list \<Rightarrow> LaneId set \<Rightarrow> bool" where
  "columns_inv gb ls X \<longleftrightarrow>
     occupied (gb_lanes gb) = {l. l < kMaxLanes \<and>
       ((\<exists>k < length ls. open_at gb k \<and> e_lane (edges_of gb ! k) = l) \<or> l \<in> X \<or> l = 0 \<and> tip_waits gb)}"

definition lay_inv :: "GraphBuilder \<Rightarrow> link list \<Rightarrow> LaneId set \<Rightarrow> bool" where
  "lay_inv gb ls X \<longleftrightarrow>
     lanes_wf (gb_lanes gb) \<and>
     edges_inv (isTrunkTip gb) (edges_of gb) (pool_of gb) (rows_of gb) ls \<and>
     (\<forall>k < length ls. open_at gb k \<and> e_lane (edges_of gb ! k) < kMaxLanes \<longrightarrow>
        e_color (edges_of gb ! k) = la_colors (gb_lanes gb) ! e_lane (edges_of gb ! k)) \<and>
     (tip_waits gb \<longrightarrow> (\<forall>k < length ls. e_lane (edges_of gb ! k) \<noteq> 0) \<and> (\<forall>m \<in> set (rows_of gb). rm_lane m \<noteq> 0)) \<and>
     columns_inv gb ls X"

lemma lay_invD:
  assumes "lay_inv gb ls X"
  shows "lanes_wf (gb_lanes gb)"
    "edges_inv (isTrunkTip gb) (edges_of gb) (pool_of gb) (rows_of gb) ls"
    "\<And>k. k < length ls \<Longrightarrow> open_at gb k \<Longrightarrow> e_lane (edges_of gb ! k) < kMaxLanes \<Longrightarrow>
       e_color (edges_of gb ! k) = la_colors (gb_lanes gb) ! e_lane (edges_of gb ! k)"
    "\<And>k. tip_waits gb \<Longrightarrow> k < length ls \<Longrightarrow> e_lane (edges_of gb ! k) \<noteq> 0"
    "\<And>m. tip_waits gb \<Longrightarrow> m \<in> set (rows_of gb) \<Longrightarrow> rm_lane m \<noteq> 0"
    "\<And>l. l \<in> occupied (gb_lanes gb) \<longleftrightarrow> l < kMaxLanes \<and>
       ((\<exists>k < length ls. open_at gb k \<and> e_lane (edges_of gb ! k) = l) \<or> l \<in> X \<or> l = 0 \<and> tip_waits gb)"
  using assms by (auto simp: lay_inv_def columns_inv_def)

lemma seed_colors:
  "lanes_wf la \<Longrightarrow> l \<noteq> lane \<Longrightarrow> la_colors (seed la lane oid) ! l = la_colors la ! l"
  by (simp add: seed_def Let_def)

lemma colors_allocate [simp]:
  "la_colors (snd (allocateLeftmost la)) = la_colors la"
  "la_colors (snd (allocateAfter la k)) = la_colors la"
  by (simp_all add: allocateLeftmost_def allocateAfter_def markUsed_def Let_def)

text \<open>What a row's lane and colour satisfy, on each of the three ways to place it.\<close>

definition placed_ok :: "GraphBuilder \<Rightarrow> link list \<Rightarrow> ObjectId \<Rightarrow> LaneId \<times> nat \<times> GraphBuilder \<Rightarrow> bool" where
  "placed_ok gb ls oid r \<longleftrightarrow> (case r of (lane, color, g2) \<Rightarrow>
     lanes_wf (gb_lanes g2) \<and> lane \<le> kMaxLanes \<and> color < kPaletteSize \<and>
     occupied (gb_lanes g2) = (if lane < kMaxLanes then insert lane (occupied (gb_lanes gb)) else occupied (gb_lanes gb)) \<and>
     (\<forall>l. l \<noteq> lane \<longrightarrow> la_colors (gb_lanes g2) ! l = la_colors (gb_lanes gb) ! l) \<and>
     (lane < kMaxLanes \<longrightarrow> color = la_colors (gb_lanes g2) ! lane) \<and>
     (tip_waits gb \<longrightarrow> lane = 0 \<longrightarrow> isTrunkTip gb oid) \<and>
     (isTrunkTip gb oid \<longrightarrow> lane = 0) \<and>
     (\<forall>k < length ls. open_at gb k \<and> e_lane (edges_of gb ! k) = lane \<and> lane < kMaxLanes \<longrightarrow>
        snd (ls ! k) = oid \<and> e_color (edges_of gb ! k) = color) \<and>
     (\<forall>k < length ls. open_at gb k \<and> snd (ls ! k) = oid \<and> e_kind (edges_of gb ! k) = FirstParent \<longrightarrow>
        lane \<le> e_lane (edges_of gb ! k) \<and> (isTrunkTip gb oid \<or> (\<exists>j < length ls. open_at gb j \<and>
          snd (ls ! j) = oid \<and> e_kind (edges_of gb ! j) = FirstParent \<and> e_lane (edges_of gb ! j) = lane))))"

lemma isTrunkTip_takeIncoming [simp]: "isTrunkTip (snd (takeIncoming gb p)) = isTrunkTip gb"
  by (simp add: isTrunkTip_def fun_eq_iff)

lemma placed_tip:
  assumes inv: "lay_inv gb ls {}" and tip: "isTrunkTip gb oid" and new: "oid \<notin> set (oids_of gb)"
  shows "placed_ok gb ls oid (placed gb oid)"
proof -
  note L = lay_invD [OF inv]
  have waits: "tip_waits gb" using tip new by (auto simp: tip_waits_def isTrunkTip_def)
  then have "0 \<in> occupied (gb_lanes gb)" using L(6) [of 0] by (simp add: kMaxLanes_def)
  moreover have "colorOf (seed (gb_lanes gb) 0 oid) 0 = la_colors (seed (gb_lanes gb) 0 oid) ! 0"
    by (simp add: colorOf_def isOverflow_def kMaxLanes_def)
  moreover have "k < length ls \<Longrightarrow> e_lane (edges_of gb ! k) = 0 \<Longrightarrow> False" for k using L(4) [OF waits] by simp
  ultimately show ?thesis
    using tip L(1) colorOf_less [OF lanes_wf_seed [OF L(1)], of 0 oid 0]
    by (auto simp: placed_ok_def placed_def placeCommit_def Let_def lanes_wf_seed seed_colors insert_absorb)
qed

lemma placed_new:
  assumes inv: "lay_inv gb ls {}" and tip: "\<not> isTrunkTip gb oid"
    and book: "book_inv gb ls" and none: "pending_at gb oid = []"
  shows "placed_ok gb ls oid (placed gb oid)"
proof -
  note L = lay_invD [OF inv]
  obtain lane la where alloc: "allocateLeftmost (gb_lanes gb) = (lane, la)" by force
  have la: "lanes_wf la" "la_colors la = la_colors (gb_lanes gb)"
    using lanes_wf_allocateLeftmost [OF L(1)] colors_allocate(1) [of "gb_lanes gb"] alloc by auto
  have place: "placed gb oid = (lane, colorOf (seed la lane oid) lane,
      (snd (takeIncoming gb oid))\<lparr>gb_lanes := seed la lane oid\<rparr>)"
    using tip by (simp add: placed_def placeCommit_def none alloc Let_def)
  note taken = lanes.leftmost_taken [OF alloc]
  have "\<not> (open_at gb k \<and> snd (ls ! k) = oid)" if "k < length ls" for k
  proof -
    have "waiting gb ls oid = []" using book_invD(7) [OF book, of oid] none by simp
    then have "k \<notin> set (waiting gb ls oid)" by simp
    with that show ?thesis by (auto simp: set_waiting)
  qed
  moreover have "\<not> (open_at gb k \<and> e_lane (edges_of gb ! k) = lane \<and> lane < kMaxLanes)" if "k < length ls" for k
    using taken L(6) [of lane] that by auto
  moreover have "tip_waits gb \<longrightarrow> 0 \<in> occupied (gb_lanes gb)"
    using L(6) [of 0] by (simp add: kMaxLanes_def)
  then have "tip_waits gb \<longrightarrow> lane \<noteq> 0" using taken by metis
  ultimately show ?thesis
    using tip la taken colorOf_less [OF lanes_wf_seed [OF la(1)], of lane oid lane]
    by (auto simp: placed_ok_def place lanes_wf_seed seed_colors colorOf_def isOverflow_def)
qed

lemma placed_incoming:
  assumes inv: "lay_inv gb ls {}" and tip: "\<not> isTrunkTip gb oid"
    and book: "book_inv gb ls" and some: "pending_at gb oid \<noteq> []"
    and rows: "length (rows_of gb) < kRowBoundary"
  shows "placed_ok gb ls oid (placed gb oid)"
proof -
  note L = lay_invD [OF inv] and inc = book_invD(7) [OF book, of oid]
  obtain b where b: "b \<in> set (pending_at gb oid)" "chooseLane (pending_at gb oid) = pe_lane b"
    "\<And>c. c \<in> set (pending_at gb oid) \<Longrightarrow> pe_firstParent c \<Longrightarrow> pe_firstParent b \<and> pe_lane b \<le> pe_lane c"
    using chooseLane_spec [OF some] by blast
  then obtain j where j: "j < length ls" "snd (ls ! j) = oid" "open_at gb j" "b = pe_of gb j"
    unfolding inc by (auto simp: set_waiting)
  let ?lane = "e_lane (edges_of gb ! j)"
  have place: "placed gb oid = (?lane, colorOf (gb_lanes gb) ?lane, snd (takeIncoming gb oid))"
    using tip some b(2) j(4) by (simp add: placed_def placeCommit_def pe_of_def Let_def)
  have lane: "?lane \<le> kMaxLanes" using edges_invD(1) [OF L(2) j(1)] .
  have same: "snd (ls ! k) = oid" if "k < length ls" "open_at gb k" "e_lane (edges_of gb ! k) = ?lane" "?lane < kMaxLanes" for k
    using open_column_same_parent [OF L(2) that(1,2) j(1,3) that(3,4)] rows j(2) by simp
  have straight: "?lane \<le> e_lane (edges_of gb ! k) \<and> e_kind (edges_of gb ! j) = FirstParent"
    if "k < length ls" "open_at gb k" "snd (ls ! k) = oid" "e_kind (edges_of gb ! k) = FirstParent" for k
  proof -
    have "pe_of gb k \<in> set (pending_at gb oid)" unfolding inc using that by (auto simp: set_waiting)
    from b(3) [OF this] that(4) show ?thesis by (simp add: pe_of_def Let_def j(4))
  qed
  have "?lane < kMaxLanes \<Longrightarrow> ?lane \<in> occupied (gb_lanes gb)" using L(6) j by auto
  moreover have "tip_waits gb \<longrightarrow> ?lane \<noteq> 0" using L(4) j(1) by blast
  ultimately show ?thesis
    using tip L(1) lane colorOf_less [OF L(1), of ?lane] same straight L(3) j
    by (auto simp: placed_ok_def place insert_absorb colorOf_def isOverflow_def)
qed

lemma placed_ok:
  assumes "lay_inv gb ls {}" "book_inv gb ls" "oid \<notin> set (oids_of gb)" "length (rows_of gb) < kRowBoundary"
  shows "placed_ok gb ls oid (placed gb oid)"
  using placed_tip placed_new placed_incoming assms by blast


section \<open>The steps keep the layout\<close>

lemma startRow_edges_inv:
  assumes inv: "lay_inv gb ls {}" and book: "book_inv gb ls" and new: "oid \<notin> set (oids_of gb)"
    and rows: "length (rows_of gb) < kRowBoundary"
    and start: "startRow gb oid n t = (row, lane, color, off, gb')"
  shows "edges_inv (isTrunkTip gb) (edges_of gb') (pool_of gb') (rows_of gb') ls"
proof -
  note L = lay_invD [OF inv] and S = startRow_effect [OF start]
    and P = placed_ok [OF inv book new rows] and R = resolve_effect [OF book refl, of _ oid row]
  have row: "row = length (rows_of gb)" using S(1) rows by (simp add: kRowBoundary_def)
  have pool: "pool_of gb' ! k = (if snd (ls ! k) = oid \<and> open_at gb k then length (rows_of gb) else pool_of gb ! k)"
    if "k < length ls" for k
    using R(2) [of k] that book_invD(2) [OF book] by (auto simp: S(6) nth_append row set_waiting)
  show ?thesis
    unfolding S(11)
    by (rule edges_inv_row [OF L(2) _ pool rows])
      (use P S(2,3) R(1) in \<open>auto simp: placed_ok_def S(5) split: prod.splits\<close>)
qed

lemma startRow_open:
  assumes book: "book_inv gb ls" and start: "startRow gb oid n t = (row, lane, color, off, gb')"
    and rows: "length (rows_of gb) < kRowBoundary" and k: "k < length ls"
  shows "open_at gb' k \<longleftrightarrow> open_at gb k \<and> snd (ls ! k) \<noteq> oid"
    "e_lane (edges_of gb' ! k) = e_lane (edges_of gb ! k)"
    "e_color (edges_of gb' ! k) = e_color (edges_of gb ! k)"
proof -
  note S = startRow_effect [OF start] and R = resolve_effect [OF book refl, of _ oid row]
  have "row \<noteq> kRowBoundary" using S(1) rows by (simp add: kRowBoundary_def)
  then show "open_at gb' k \<longleftrightarrow> open_at gb k \<and> snd (ls ! k) \<noteq> oid"
    using R(2) [of k] k book_invD(2) [OF book] by (auto simp: S nth_append set_waiting)
  show "e_lane (edges_of gb' ! k) = e_lane (edges_of gb ! k)" "e_color (edges_of gb' ! k) = e_color (edges_of gb ! k)"
    using R(1) [OF k] by (simp_all add: S)
qed

lemma startRow_columns:
  assumes inv: "lay_inv gb ls {}" and book: "book_inv gb ls" and new: "oid \<notin> set (oids_of gb)"
    and rows: "length (rows_of gb) < kRowBoundary"
    and start: "startRow gb oid n t = (row, lane, color, off, gb')" and book': "book_inv gb' ls"
  shows "columns_inv gb' ls {lane}"
proof -
  note L = lay_invD [OF inv] and S = startRow_effect [OF start] and O = startRow_open [OF book start rows]
  have P: "placed_ok gb ls oid (lane, color, snd (snd (placed gb oid)))"
    using placed_ok [OF inv book new rows] S(2,3) by simp
  have waits: "tip_waits gb' \<longleftrightarrow> tip_waits gb \<and> \<not> isTrunkTip gb oid"
    by (auto simp: tip_waits_def isTrunkTip_def S(9,10))
  have refs: "gb_laneRefCount gb' ! l = 0 \<longleftrightarrow> (\<forall>k < length ls. open_at gb' k \<longrightarrow> e_lane (edges_of gb' ! k) \<noteq> l)"
    if "l < kMaxLanes" for l
    using book_invD(9) [OF book' that] by (auto simp: open_in_def filter_empty_conv)
  have inc: "(\<exists>pe \<in> set (pending_at gb oid). pe_lane pe = l) \<longleftrightarrow>
      (\<exists>k < length ls. open_at gb k \<and> snd (ls ! k) = oid \<and> e_lane (edges_of gb ! k) = l)" for l
    by (auto simp: book_invD(7) [OF book] set_waiting pe_of_def Let_def)
  have "l \<in> occupied (gb_lanes gb') \<longleftrightarrow> l < kMaxLanes \<and> ((\<exists>k < length ls. open_at gb' k \<and>
      e_lane (edges_of gb' ! k) = l) \<or> l \<in> {lane} \<or> l = 0 \<and> tip_waits gb')" for l
  proof (cases "l < kMaxLanes \<and> l \<noteq> lane")
    case True
    then have "l \<in> occupied (gb_lanes gb') \<longleftrightarrow> l \<in> occupied (gb_lanes gb) \<and>
        \<not> ((\<exists>pe \<in> set (pending_at gb oid). pe_lane pe = l) \<and> gb_laneRefCount gb' ! l = 0)"
      using P unfolding S(12) by (auto simp: placed_ok_def isOverflow_def)
    also have "\<dots> \<longleftrightarrow> (\<exists>k < length ls. open_at gb' k \<and> e_lane (edges_of gb' ! k) = l) \<or> l = 0 \<and> tip_waits gb'"
    proof (cases "l = 0 \<and> tip_waits gb")
      case True
      then show ?thesis
        using P waits L(4) L(6) [of l] O \<open>l < kMaxLanes \<and> l \<noteq> lane\<close> unfolding inc by (auto simp: placed_ok_def)
    next
      case False
      then have "l \<in> occupied (gb_lanes gb) \<longleftrightarrow> (\<exists>k < length ls. open_at gb k \<and> e_lane (edges_of gb ! k) = l)"
        using True L(6) [of l] by auto
      moreover have "\<not> (l = 0 \<and> tip_waits gb')" using False waits by blast
      moreover have "gb_laneRefCount gb' ! l = 0 \<longleftrightarrow>
          \<not> (\<exists>k < length ls. open_at gb' k \<and> e_lane (edges_of gb' ! k) = l)" using refs [of l] True by blast
      moreover have "(\<exists>k < length ls. open_at gb' k \<and> e_lane (edges_of gb' ! k) = l) \<longleftrightarrow>
          (\<exists>k < length ls. open_at gb k \<and> snd (ls ! k) \<noteq> oid \<and> e_lane (edges_of gb ! k) = l)"
        using O(1,2) by auto
      ultimately show ?thesis unfolding inc by auto
    qed
    finally show ?thesis using True by simp
  next
    case False
    then show ?thesis
      using P unfolding S(12) by (auto simp: placed_ok_def dest: occupied_less)
  qed
  then show ?thesis by (auto simp: columns_inv_def)
qed

lemma startRow_lay_inv:
  assumes inv: "lay_inv gb ls {}" and book: "book_inv gb ls" and new: "oid \<notin> set (oids_of gb)"
    and rows: "length (rows_of gb) < kRowBoundary"
    and start: "startRow gb oid n t = (row, lane, color, off, gb')" and book': "book_inv gb' ls"
  shows "lay_inv gb' ls {lane}" "\<And>k. k < length ls \<Longrightarrow> open_at gb' k \<Longrightarrow> lane < kMaxLanes \<Longrightarrow> e_lane (edges_of gb' ! k) \<noteq> lane"
    "lane < kMaxLanes \<Longrightarrow> color = la_colors (gb_lanes gb') ! lane"
proof -
  note L = lay_invD [OF inv] and S = startRow_effect [OF start] and O = startRow_open [OF book start rows]
  have P: "placed_ok gb ls oid (lane, color, snd (snd (placed gb oid)))"
    using placed_ok [OF inv book new rows] S(2,3) by simp
  show free: "e_lane (edges_of gb' ! k) \<noteq> lane" if "k < length ls" "open_at gb' k" "lane < kMaxLanes" for k
    using P that O [OF that(1)] by (auto simp: placed_ok_def)
  show "lane < kMaxLanes \<Longrightarrow> color = la_colors (gb_lanes gb') ! lane"
    using P by (simp add: placed_ok_def S(13))
  have tip: "isTrunkTip gb' = isTrunkTip gb" by (simp add: isTrunkTip_def S(9) fun_eq_iff)
  have waits: "tip_waits gb' \<longleftrightarrow> tip_waits gb \<and> \<not> isTrunkTip gb oid"
    by (auto simp: tip_waits_def isTrunkTip_def S(9,10))
  have "e_color (edges_of gb' ! k) = la_colors (gb_lanes gb') ! e_lane (edges_of gb' ! k)"
    if "k < length ls" "open_at gb' k" "e_lane (edges_of gb' ! k) < kMaxLanes" for k
    using L(3) [OF that(1)] free [OF that(1,2)] that O [OF that(1)] P by (auto simp: placed_ok_def S(13))
  moreover have "lanes_wf (gb_lanes gb')" using P S(14) by (simp add: placed_ok_def)
  moreover have "edges_inv (isTrunkTip gb) (edges_of gb') (pool_of gb') (rows_of gb') ls"
    using startRow_edges_inv [OF inv book new rows start] .
  moreover have "tip_waits gb' \<longrightarrow> (\<forall>k < length ls. e_lane (edges_of gb' ! k) \<noteq> 0) \<and>
      (\<forall>m \<in> set (rows_of gb'). rm_lane m \<noteq> 0)"
    using P waits L(4,5) O(2) by (auto simp: placed_ok_def S(11))
  ultimately show "lay_inv gb' ls {lane}"
    using startRow_columns [OF inv book new rows start book'] by (simp add: lay_inv_def tip)
qed


text \<open>A link into a column that is in use and whose open edges await the same parent.\<close>

lemma lay_inv_link:
  assumes inv: "lay_inv gb ls (insert t X)" and book: "book_inv gb ls"
    and room: "length ls < length (pool_of gb)" and row: "length (rows_of gb) = Suc row"
    and lane: "lane = rm_lane (rows_of gb ! row)" and t: "t \<le> kMaxLanes" and c: "c < kPaletteSize"
    and colour: "t < kMaxLanes \<Longrightarrow> c = la_colors (gb_lanes gb) ! t"
    and first: "kind = FirstParent \<Longrightarrow> t = lane \<and> c = rm_color (rows_of gb ! row)"
    and col: "\<And>k. k < length ls \<Longrightarrow> open_at gb k \<Longrightarrow> e_lane (edges_of gb ! k) = t \<Longrightarrow> t < kMaxLanes \<Longrightarrow> snd (ls ! k) = p"
    and tip: "tip_waits gb \<Longrightarrow> t \<noteq> 0"
  shows "lay_inv (linkParent gb row lane t c kind i fp p) (ls @ [(row, p)]) X"
proof -
  let ?g = "linkParent gb row lane t c kind i fp p"
  let ?e = "\<lparr>e_childRow = row, e_parentRow = kRowBoundary, e_lane = t, e_childLane = lane, e_color = c, e_kind = kind\<rparr>"
  note L = lay_invD [OF inv] and B = book_invD [OF book]
  have op: "open_at gb (length ls)" using B(4) [of "length ls"] room by simp
  have same: "isTrunkTip ?g = isTrunkTip gb" "tip_waits ?g = tip_waits gb"
    by (simp_all add: isTrunkTip_def tip_waits_def fun_eq_iff)
  have "edges_inv (isTrunkTip gb) (edges_of gb @ [?e]) (pool_of gb) (rows_of gb) (ls @ [(row, p)])"
    by (rule edges_inv_link [OF L(2) B(1) row op]) (use t c lane first col in auto)
  moreover have "(\<exists>k < length (ls @ [(row, p)]). open_at ?g k \<and> e_lane (edges_of ?g ! k) = l) \<longleftrightarrow>
      (\<exists>k < length ls. open_at gb k \<and> e_lane (edges_of gb ! k) = l) \<or> l = t" for l
    using op B(1) by (auto simp: Ex_less_Suc nth_append cong: conj_cong)
  then have "columns_inv ?g (ls @ [(row, p)]) X"
    unfolding columns_inv_def using L(6) same(2) by auto
  moreover have "e_color (edges_of ?g ! k) = la_colors (gb_lanes gb) ! e_lane (edges_of ?g ! k)"
    if "k < Suc (length ls)" "open_at gb k" "e_lane (edges_of ?g ! k) < kMaxLanes" for k
    using L(3) [of k] that colour B(1) by (auto simp: nth_append less_Suc_eq)
  moreover have "tip_waits gb \<Longrightarrow> k < Suc (length ls) \<Longrightarrow> e_lane (edges_of ?g ! k) \<noteq> 0" for k
    using L(4) [of k] tip B(1) by (cases "k = length ls") (auto simp: nth_append)
  ultimately show ?thesis
    using L(1,5) by (simp add: lay_inv_def same)
qed

lemma foldl_min_in: "foldl (\<lambda>m c. min m (f c)) a xs \<in> insert a (f ` set xs)"
  by (induction xs arbitrary: a) (auto simp: min_def split: if_splits)

lemma targetLaneFor_lay_inv:
  assumes inv: "lay_inv gb ls {}" and book: "book_inv gb ls" and rows: "length (rows_of gb) \<le> kRowBoundary"
    and target: "targetLaneFor gb lane p = (t, c, gb')"
  shows "lay_inv gb' ls {t} \<and> t \<le> kMaxLanes \<and> c < kPaletteSize \<and> (t < kMaxLanes \<longrightarrow> c = la_colors (gb_lanes gb') ! t) \<and>
    (\<forall>k < length ls. open_at gb k \<and> e_lane (edges_of gb ! k) = t \<and> t < kMaxLanes \<longrightarrow> snd (ls ! k) = p) \<and>
    (tip_waits gb \<longrightarrow> t \<noteq> 0)"
proof (cases "pending_at gb p")
  case (Cons pe pes)
  note L = lay_invD [OF inv]
  have eq: "t = foldl (\<lambda>m c. min m (pe_lane c)) (pe_lane pe) (pe # pes)" "c = colorOf (gb_lanes gb) t" "gb' = gb"
    using target by (auto simp: targetLaneFor_def Cons Let_def)
  have "t \<in> pe_lane ` set (pending_at gb p)"
    using foldl_min_in [of pe_lane "pe_lane pe" "pe # pes"] by (auto simp: eq(1) Cons)
  then obtain j where j: "j < length ls" "snd (ls ! j) = p" "open_at gb j" "t = e_lane (edges_of gb ! j)"
    by (auto simp: book_invD(7) [OF book] set_waiting pe_of_def Let_def)
  have "columns_inv gb ls {t}" using L(6) j unfolding columns_inv_def by auto
  then have "lay_inv gb ls {t}" using inv by (simp add: lay_inv_def)
  then show ?thesis
    using edges_invD(1) [OF L(2) j(1)] colorOf_less [OF L(1), of t] L(4) j
      open_column_same_parent [OF L(2) _ _ j(1,3)] rows
    by (auto simp: eq(2,3) colorOf_def isOverflow_def)
next
  case Nil
  note L = lay_invD [OF inv]
  obtain la where alloc: "allocateAfter (gb_lanes gb) lane = (t, la)"
    and eq: "c = colorOf (seed la t p) t" "gb' = gb\<lparr>gb_lanes := seed la t p\<rparr>"
    using target by (auto simp: targetLaneFor_def Nil Let_def split: prod.splits)
  have la: "lanes_wf la" "la_colors la = la_colors (gb_lanes gb)"
    using lanes_wf_allocateAfter [OF L(1), of lane] colors_allocate(2) [of "gb_lanes gb" lane] alloc by auto
  note taken = lanes.after_taken [OF alloc]
  have free: "\<not> (open_at gb k \<and> e_lane (edges_of gb ! k) = t \<and> t < kMaxLanes)" if "k < length ls" for k
    using taken L(6) [of t] that by auto
  have "tip_waits gb \<longrightarrow> 0 \<in> occupied (gb_lanes gb)" using L(6) [of 0] by (simp add: kMaxLanes_def)
  then have tip: "tip_waits gb \<longrightarrow> t \<noteq> 0" using taken by metis
  have same: "isTrunkTip gb' = isTrunkTip gb" "tip_waits gb' = tip_waits gb"
    by (simp_all add: eq isTrunkTip_def tip_waits_def fun_eq_iff)
  have "columns_inv gb' ls {t}"
    using L(6) taken same(2) unfolding columns_inv_def by (auto simp: eq)
  moreover have "e_color (edges_of gb ! k) = la_colors (seed la t p) ! e_lane (edges_of gb ! k)"
    if "k < length ls" "open_at gb k" "e_lane (edges_of gb ! k) < kMaxLanes" for k
    using L(3) [OF that] free [OF that(1)] that seed_colors [OF la(1)] la(2) by metis
  ultimately have "lay_inv gb' ls {t}"
    using L same by (simp add: lay_inv_def eq lanes_wf_seed la)
  then show ?thesis
    using taken free tip colorOf_less [OF lanes_wf_seed [OF la(1)], of t p t]
    by (auto simp: eq colorOf_def isOverflow_def)
qed

lemma lay_inv_addOtherParents:
  assumes "lay_inv gb ls {}" "book_inv gb ls" "off + i = length ls" "length ls + length ps \<le> length (pool_of gb)"
    "length (rows_of gb) = Suc row" "row < kRowBoundary" "lane = rm_lane (rows_of gb ! row)"
  shows "lay_inv (addOtherParents gb row lane off n i ps) (ls @ map (Pair row) ps) {}"
  using assms
proof (induction ps arbitrary: gb ls i)
  case (Cons p ps)
  obtain t c gb' where target: "targetLaneFor gb lane p = (t, c, gb')" by (metis prod_cases3)
  have frame: "gb_snapshot gb' = gb_snapshot gb" "gb_options gb' = gb_options gb"
    using targetLaneFor_frame [of gb lane p] by (simp_all add: target)
  have book': "book_inv gb' ls" using book_inv_targetLaneFor [of gb lane p ls] Cons.prems(2) by (simp add: target)
  let ?kind = "if n > 2 then Octopus else MergeParent"
  let ?g = "linkParent gb' row lane t c ?kind (u32 (off + i)) False p"
  have T: "lay_inv gb' ls (insert t {})" "t \<le> kMaxLanes" "c < kPaletteSize" "t < kMaxLanes \<longrightarrow> c = la_colors (gb_lanes gb') ! t"
    "\<forall>k < length ls. open_at gb k \<and> e_lane (edges_of gb ! k) = t \<and> t < kMaxLanes \<longrightarrow> snd (ls ! k) = p"
    "tip_waits gb \<longrightarrow> t \<noteq> 0"
    using targetLaneFor_lay_inv [OF Cons.prems(1,2) _ target] Cons.prems(5,6) by auto
  have "tip_waits gb' = tip_waits gb" by (simp add: tip_waits_def frame)
  then have lay: "lay_inv ?g (ls @ [(row, p)]) {}"
    using Cons.prems T(2-6) by (intro lay_inv_link [OF T(1) book']) (simp_all add: frame split: if_splits)
  have "u32 (off + i) = length ls" using Cons.prems book_invD(3) [OF book'] by (simp add: frame)
  then have book'': "book_inv ?g (ls @ [(row, p)])"
    using Cons.prems by (intro book_inv_linkParent [OF book']) (auto simp: frame)
  have step: "addOtherParent gb row lane off n i p = ?g" by (simp add: addOtherParent_eq target)
  from Cons.IH [OF lay book'', of "Suc i"] Cons.prems(3-7)
  have "lay_inv (addOtherParents ?g row lane off n (Suc i) ps) ((ls @ [(row, p)]) @ map (Pair row) ps) {}"
    by (simp add: frame)
  then show ?case unfolding addOtherParents.simps step by simp
qed simp

lemma lay_inv_linkParents:
  assumes inv: "lay_inv gb ls {lane}" and book: "book_inv gb ls" and off: "off = length ls"
    and pool: "length ls + length ps \<le> length (pool_of gb)"
    and row: "length (rows_of gb) = Suc row" "row < kRowBoundary"
    and lane: "lane = rm_lane (rows_of gb ! row)" "color = rm_color (rows_of gb ! row)"
    and free: "\<And>k. k < length ls \<Longrightarrow> open_at gb k \<Longrightarrow> lane < kMaxLanes \<Longrightarrow> e_lane (edges_of gb ! k) \<noteq> lane"
    and colour: "lane < kMaxLanes \<Longrightarrow> color = la_colors (gb_lanes gb) ! lane"
  shows "lay_inv (linkParents gb row lane color off ps) (ls @ map (Pair row) ps) {}"
proof (cases ps)
  case Nil
  note L = lay_invD [OF inv]
  have tip: "tip_waits gb \<Longrightarrow> lane \<noteq> 0" using L(5) lane(1) row(1) by (simp add: nth_mem)
  have "lane < kMaxLanes \<Longrightarrow> set (open_in gb ls lane) = {}" unfolding set_open_in using free by blast
  then have refs: "lane < kMaxLanes \<Longrightarrow> gb_laneRefCount gb ! lane = 0"
    using book_invD(9) [OF book, of lane] by simp
  let ?g = "linkParents gb row lane color off []"
  have g: "?g = (if lane < kMaxLanes then gb\<lparr>gb_lanes := release (gb_lanes gb) lane\<rparr> else gb)"
    using refs by (simp add: linkParents_def isOverflow_def)
  have "tip_waits ?g = tip_waits gb" "isTrunkTip ?g = isTrunkTip gb" by (simp_all add: g tip_waits_def isTrunkTip_def fun_eq_iff)
  moreover have "columns_inv ?g ls {}"
    using L(6) tip free unfolding columns_inv_def g by (auto simp: occupied_release tip_waits_def)
  moreover have "la_colors (release (gb_lanes gb) lane) = la_colors (gb_lanes gb)" by (simp add: release_def)
  ultimately show ?thesis using L Nil by (simp add: lay_inv_def g lanes_wf_release)
next
  case (Cons p qs)
  note L = lay_invD [OF inv]
  have m: "rows_of gb ! row \<in> set (rows_of gb)" using row(1) by simp
  then have mb: "lane \<le> kMaxLanes" "color < kPaletteSize" "tip_waits gb \<Longrightarrow> lane \<noteq> 0"
    using L(2) L(5) [OF _ m] lane by (auto simp: edges_inv_def)
  let ?g = "addFirstParent gb row lane color off p"
  have "lay_inv ?g (ls @ [(row, p)]) {}"
    unfolding addFirstParent_def
    by (rule lay_inv_link [OF inv book _ row(1) lane(1) mb(1,2) colour]) (use pool Cons lane free mb in auto)
  moreover have "book_inv ?g (ls @ [(row, p)])"
    unfolding addFirstParent_def using book off pool Cons by (intro book_inv_linkParent) auto
  ultimately show ?thesis
    using lay_inv_addOtherParents [of ?g "ls @ [(row, p)]" off 1 qs row lane "length ps"] off pool row lane Cons
    by (simp add: linkParents_def addFirstParent_def)
qed

end
