(* ===== verification/GraphPromises.thy ===== *)
theory GraphPromises
  imports GraphLayout
begin

text \<open>
  The layout invariant carried to whole walks, and what it promises of every snapshot a
  \<^verbatim>\<open>GraphBuilder\<close> publishes: no line through a dot, no two lines over one another,
  straight first-parent chains of one colour, the trunk in lane 0 and lane 0 vacant above its
  tip, columns given back as soon as they end, and every coordinate in range.
\<close>

section \<open>Whole walks\<close>

definition layout_ok :: "GraphOptions \<Rightarrow> commit list \<Rightarrow> bool" where
  "layout_ok options hs \<longleftrightarrow> walk_ok options hs \<and> distinct (map fst hs)"

definition layout_inv :: "GraphOptions \<Rightarrow> GraphBuilder \<Rightarrow> commit list \<Rightarrow> bool" where
  "layout_inv options gb hs \<longleftrightarrow> walk_inv options gb hs \<and> lay_inv gb (links hs) {}"

lemma layout_inv_new: "layout_inv options (new_builder options) []"
proof -
  have "walk_inv options (new_builder options) []"
    using book_inv_new [of options] by (simp add: walk_inv_def new_builder_def empty_snapshot_def)
  moreover have "lay_inv (new_builder options) [] {}"
    by (auto simp: lay_inv_def edges_inv_def excl_inv_def columns_inv_def new_builder_def empty_snapshot_def
        tip_waits_def lanes_wf_reserve occupied_reserve kMaxLanes_def)
  ultimately show ?thesis by (simp add: layout_inv_def)
qed

lemma layout_inv_step:
  assumes inv: "layout_inv options gb hs" and ok: "layout_ok options (hs @ [c])"
    and rows: "length hs < go_maxRows options"
  shows "layout_inv options (add_commit gb c) (hs @ [c])"
proof -
  have walk: "walk_inv options gb hs" and lay: "lay_inv gb (links hs) {}" using inv by (simp_all add: layout_inv_def)
  obtain oid ps t where c: "c = (oid, ps, t)" by (cases c)
  obtain row lane color off gb' where start: "startRow gb oid (length ps) t = (row, lane, color, off, gb')"
    by (metis prod_cases5)
  note W = walk_invD [OF walk] and S = startRow_effect [OF start]
  have bound: "length hs < kRowBoundary" "length (links hs) + length ps < 2 ^ 32"
    using ok rows by (auto simp: layout_ok_def walk_ok_def c parents_of_commit_def kRowBoundary_def)
  have row: "row = length hs" and off: "off = length (links hs)"
    using S(1,4) bound by (simp_all add: W kRowBoundary_def)
  have new: "oid \<notin> set (oids_of gb)" using ok by (simp add: layout_ok_def c W)
  have book': "book_inv gb' (links hs)"
    using book_inv_startRow [OF W(6) start] bound by (simp add: W)
  note L = startRow_lay_inv [OF lay W(6) new _ start book']
  have last: "length (rows_of gb') = Suc row" "rm_lane (rows_of gb' ! row) = lane" "rm_color (rows_of gb' ! row) = color"
    using W(2) row by (simp_all add: S(11) nth_append)
  have "length (pool_of gb') = length (links hs) + length ps" by (simp add: S(6) W)
  then have "lay_inv (linkParents gb' row lane color off ps) (links hs @ map (Pair row) ps) {}"
    using L bound W(2) last row by (intro lay_inv_linkParents [OF _ book' off]) auto
  moreover have "add_commit gb c = setLaneCount (linkParents gb' row lane color off ps)"
    using add_unfold [OF _ start] rows by (simp add: add_commit_def c W)
  moreover have "lay_inv (setLaneCount g) ls X = lay_inv g ls X" for g ls X
    by (simp add: lay_inv_def columns_inv_def tip_waits_def isTrunkTip_def [abs_def])
  ultimately show ?thesis
    using walk_inv_step [OF walk _ rows, of c] ok
    by (simp add: layout_inv_def layout_ok_def) (simp add: c parents_of_commit_def row)
qed

lemma layout_inv_mark: "layout_inv options gb hs \<Longrightarrow> layout_inv options (markTruncated gb) hs"
proof -
  have "lay_inv (markTruncated gb) ls X = lay_inv gb ls X" for ls X
    by (simp add: lay_inv_def columns_inv_def tip_waits_def isTrunkTip_def [abs_def] markTruncated_def)
  then show "layout_inv options gb hs \<Longrightarrow> layout_inv options (markTruncated gb) hs"
    by (simp add: layout_inv_def walk_inv_mark)
qed

interpretation layout: walk_invariant layout_inv layout_ok
  by unfold_locales
    (auto simp: layout_inv_new layout_inv_step layout_inv_mark layout_inv_def [THEN iffD1, THEN conjunct1, THEN walk_invD(1)]
      layout_inv_def [THEN iffD1, THEN conjunct1, THEN walk_invD(2)] layout_ok_def walk_ok_def)

text \<open>What the published snapshot of a walk satisfies.\<close>

lemma layout_snapshot:
  assumes "layout_ok options hs" "hs = take (go_maxRows options) cs" "s = snapshot (build options cs)"
  shows "edges_inv (isTrunkTip (build options cs)) (gs_edges s) (gs_parentPool s) (gs_rows s) (links hs)"
    "length (gs_edges s) = length (links hs)" "length (gs_rows s) = length hs"
    "\<And>k. k < length (gs_edges s) \<Longrightarrow> e_parentRow (gs_edges s ! k) = gs_parentPool s ! k"
    "\<And>k. k < length (gs_edges s) \<Longrightarrow> e_childRow (gs_edges s ! k) = fst (links hs ! k)"
    "\<And>k. k < length (gs_edges s) \<Longrightarrow> gs_parentPool s ! k = next_row (map fst hs) (fst (links hs ! k)) (snd (links hs ! k))"
    "length hs \<le> kRowBoundary"
proof -
  have inv: "layout_inv options (build options cs) hs" using layout.build_inv assms by simp
  then have W: "walk_inv options (build options cs) hs" and L: "lay_inv (build options cs) (links hs) {}"
    by (simp_all add: layout_inv_def)
  note B = walk_invD(6) [OF W]
  have es: "gs_edges s = edges_of (build options cs)"
    using assms(3) snapshot_eq [OF B] by simp
  show "edges_inv (isTrunkTip (build options cs)) (gs_edges s) (gs_parentPool s) (gs_rows s) (links hs)"
    "length (gs_edges s) = length (links hs)" "length (gs_rows s) = length hs"
    "\<And>k. k < length (gs_edges s) \<Longrightarrow> e_parentRow (gs_edges s ! k) = gs_parentPool s ! k"
    "\<And>k. k < length (gs_edges s) \<Longrightarrow> e_childRow (gs_edges s ! k) = fst (links hs ! k)"
    "\<And>k. k < length (gs_edges s) \<Longrightarrow> gs_parentPool s ! k = next_row (map fst hs) (fst (links hs ! k)) (snd (links hs ! k))"
    using lay_invD(2) [OF L] walk_invD [OF W] book_invD [OF B] by (simp_all add: assms(3) es [unfolded assms(3)])
  show "length hs \<le> kRowBoundary"
    using walk_invD(4) [OF W] assms(1) by (simp add: layout_ok_def walk_ok_def kRowBoundary_def)
qed

lemma demo_layout_ok: "layout_ok demo_options demo_walk"
  using demo_walk_ok by (simp add: layout_ok_def demo_walk_def)


section \<open>Which edge is a first parent\<close>

definition edge_kinds :: "nat \<Rightarrow> EdgeKind list" where
  "edge_kinds n = (if n = 0 then [] else FirstParent # replicate (n - 1) (if n > 2 then Octopus else MergeParent))"

definition kinds_inv :: "GraphOptions \<Rightarrow> GraphBuilder \<Rightarrow> commit list \<Rightarrow> bool" where
  "kinds_inv options gb hs \<longleftrightarrow> walk_inv options gb hs \<and>
     map e_kind (edges_of gb) = concat (map (\<lambda>c. edge_kinds (length (parents_of_commit c))) hs)"

lemma kinds_addOtherParents:
  "map e_kind (edges_of (addOtherParents gb row lane off n i ps)) =
     map e_kind (edges_of gb) @ replicate (length ps) (if n > 2 then Octopus else MergeParent)"
  by (induction ps arbitrary: gb i) (simp_all add: addOtherParent_eq)

lemma kinds_linkParents:
  "map e_kind (edges_of (linkParents gb row lane c off ps)) = map e_kind (edges_of gb) @ edge_kinds (length ps)"
  by (simp add: linkParents_def addFirstParent_def kinds_addOtherParents edge_kinds_def split: list.splits)

lemma kinds_inv_step:
  assumes inv: "kinds_inv options gb hs" and ok: "walk_ok options (hs @ [c])" and rows: "length hs < go_maxRows options"
  shows "kinds_inv options (add_commit gb c) (hs @ [c])"
proof -
  have walk: "walk_inv options gb hs" using inv by (simp add: kinds_inv_def)
  obtain oid ps t where c: "c = (oid, ps, t)" by (cases c)
  obtain row lane color off gb' where start: "startRow gb oid (length ps) t = (row, lane, color, off, gb')"
    by (metis prod_cases5)
  note W = walk_invD [OF walk] and S = startRow_effect [OF start]
  have "map e_kind (edges_of gb') = map e_kind (edges_of gb)"
    using resolve_effect(1) [OF W(6) refl, of _ oid row] book_invD(1) [OF W(6)]
    by (intro nth_equalityI) (simp_all add: S(5))
  moreover have "add_commit gb c = setLaneCount (linkParents gb' row lane color off ps)"
    using add_unfold [OF _ start] rows by (simp add: add_commit_def c W)
  ultimately show ?thesis
    using walk_inv_step [OF walk ok rows] inv
    by (simp add: kinds_inv_def kinds_linkParents) (simp add: c parents_of_commit_def)
qed

interpretation kinds: walk_invariant kinds_inv walk_ok
proof
  show "kinds_inv options (new_builder options) []" for options
    using layout_inv_new [of options] by (simp add: kinds_inv_def layout_inv_def new_builder_def empty_snapshot_def)
  show "kinds_inv options (markTruncated gb) hs" if "kinds_inv options gb hs" for options gb hs
    using that walk_inv_mark by (simp add: kinds_inv_def) (simp add: markTruncated_def)
  show "gb_options gb = options \<and> length (rows_of gb) = length hs" if "kinds_inv options gb hs" for options gb hs
    using that walk.shape unfolding kinds_inv_def by blast
qed (simp_all add: kinds_inv_step walk.prefix)

lemma kinds_at:
  assumes "map e_kind es = concat (map (\<lambda>c. edge_kinds (length (parents_of_commit c))) hs)"
    and "r < length hs" "parents_of_commit (hs ! r) \<noteq> []"
  shows "e_kind (es ! length (links (take r hs))) = FirstParent"
proof -
  let ?ks = "\<lambda>hs. concat (map (\<lambda>c. edge_kinds (length (parents_of_commit c))) hs)"
  have len: "length (?ks xs) = length (links xs)" for xs
    by (induction xs rule: rev_induct) (simp_all add: edge_kinds_def)
  have "?ks hs = ?ks (take r hs) @ edge_kinds (length (parents_of_commit (hs ! r))) @ ?ks (drop (Suc r) hs)"
    using assms(2) by (subst id_take_nth_drop [OF assms(2)]) simp
  moreover have "edge_kinds (length (parents_of_commit (hs ! r))) \<noteq> [] \<and>
      hd (edge_kinds (length (parents_of_commit (hs ! r)))) = FirstParent" using assms(3) by (simp add: edge_kinds_def)
  ultimately have "?ks hs ! length (links (take r hs)) = FirstParent" "length (links (take r hs)) < length (?ks hs)"
    using len [of "take r hs"] by (auto simp: nth_append hd_conv_nth)
  then show ?thesis unfolding assms(1) [symmetric] by simp
qed

text \<open>The first-parent edge of a row, in a published snapshot.\<close>

definition first_edge :: "GraphSnapshot \<Rightarrow> RowId \<Rightarrow> Edge" where
  "first_edge s r = gs_edges s ! rm_edgeOffset (gs_rows s ! r)"

lemma first_edge_snapshot:
  assumes "walk_ok options hs" "hs = take (go_maxRows options) cs" "s = snapshot (build options cs)"
    "r < length hs" "parents_of_commit (hs ! r) = p # ps"
  shows "rm_edgeOffset (gs_rows s ! r) < length (links hs)" "links hs ! rm_edgeOffset (gs_rows s ! r) = (r, p)"
    "e_kind (first_edge s r) = FirstParent"
proof -
  have K: "kinds_inv options (build options cs) hs" using kinds.build_inv assms(1,2) by simp
  then have W: "walk_inv options (build options cs) hs" by (simp add: kinds_inv_def)
  have off: "rm_edgeOffset (gs_rows s ! r) = length (links (take r hs))"
    using walk_invD(7) [OF W assms(4)] by (simp add: assms(3) row_shape_def)
  show "rm_edgeOffset (gs_rows s ! r) < length (links hs)" "links hs ! rm_edgeOffset (gs_rows s ! r) = (r, p)"
    using links_at [OF assms(4), of 0] assms(5) by (simp_all add: off)
  have "gs_edges s = edges_of (build options cs)" using snapshot_eq [OF walk_invD(6) [OF W]] assms(3) by simp
  then show "e_kind (first_edge s r) = FirstParent"
    using kinds_at [of "edges_of (build options cs)" hs r] K assms(4,5) by (simp add: first_edge_def off kinds_inv_def)
qed


section \<open>The promises of the layout\<close>

text \<open>
  C1. No line passes through another commit's dot: a row strictly between the child row of an
  edge and its parent row (below the child, for an edge that is still open) never has its dot in
  the edge's column, the shared overflow column aside.
\<close>

theorem no_line_through_a_dot:
  assumes ok: "layout_ok options hs" and hs: "hs = take (go_maxRows options) cs" and s: "s = snapshot (build options cs)"
    and k: "k < length (gs_edges s)" and r: "r < length (gs_rows s)"
    and passes: "e_childRow (gs_edges s ! k) < r" "r < e_parentRow (gs_edges s ! k)"
  shows "rm_lane (gs_rows s ! r) \<noteq> e_lane (gs_edges s ! k) \<or> isOverflow (e_lane (gs_edges s ! k))"
  using layout_snapshot [OF ok hs s] edges_invD(5) [OF layout_snapshot(1) [OF ok hs s], of k r] k r passes
  by (cases "e_lane (gs_edges s ! k) < kMaxLanes") (simp_all add: isOverflow_def)

lemma demo_edges:
  defines "s \<equiv> snapshot (build demo_options demo_walk)"
  shows "length (gs_edges s) = 4" "length (gs_rows s) = 3"
    "map e_childRow (gs_edges s) = [0, 0, 1, 2]" "map e_parentRow (gs_edges s) = [2, 1, kRowBoundary, kRowBoundary]"
proof -
  note D = layout_snapshot [OF demo_layout_ok demo_walk_take [symmetric] s_def [THEN meta_eq_to_obj_eq]]
  show len: "length (gs_edges s) = 4" "length (gs_rows s) = 3"
    using D(2,3) by (simp_all add: demo_walk_links) (simp add: demo_walk_def)
  show "map e_childRow (gs_edges s) = [0, 0, 1, 2]" "map e_parentRow (gs_edges s) = [2, 1, kRowBoundary, kRowBoundary]"
    by (rule nth_equalityI; simp add: len D demo_walk_links;
        auto simp: less_Suc_eq numeral_eq_Suc next_row_def demo_walk_def)+
qed

theorem no_line_through_a_dot_witness:
  "let s = snapshot (build demo_options demo_walk)
   in rm_lane (gs_rows s ! 1) \<noteq> e_lane (gs_edges s ! 0) \<or> isOverflow (e_lane (gs_edges s ! 0))"
proof -
  have "e_childRow (gs_edges (snapshot (build demo_options demo_walk)) ! 0) = 0"
    "e_parentRow (gs_edges (snapshot (build demo_options demo_walk)) ! 0) = 2"
    using demo_edges by (metis nth_map nth_Cons_0 zero_less_numeral)+
  then show ?thesis
    using no_line_through_a_dot [OF demo_layout_ok demo_walk_take [symmetric] refl, of 0 1] demo_edges(1,2)
    by simp
qed


text \<open>
  C4. No two lines lie over one another: two edges towards different parents whose row ranges
  overlap are never in the same column, the shared overflow column aside.
\<close>

theorem lines_never_overlap:
  assumes ok: "layout_ok options hs" and hs: "hs = take (go_maxRows options) cs" and s: "s = snapshot (build options cs)"
    and jk: "j < length (gs_edges s)" "k < length (gs_edges s)" and parents: "snd (links hs ! j) \<noteq> snd (links hs ! k)"
    and overlap: "e_childRow (gs_edges s ! j) < e_parentRow (gs_edges s ! k)"
      "e_childRow (gs_edges s ! k) < e_parentRow (gs_edges s ! j)"
  shows "e_lane (gs_edges s ! j) \<noteq> e_lane (gs_edges s ! k) \<or> isOverflow (e_lane (gs_edges s ! k))"
proof (rule ccontr)
  assume "\<not> ?thesis"
  then have lane: "e_lane (gs_edges s ! j) = e_lane (gs_edges s ! k)" "e_lane (gs_edges s ! k) < kMaxLanes"
    by (auto simp: isOverflow_def)
  note D = layout_snapshot [OF ok hs s]
  have "gs_parentPool s ! j \<le> fst (links hs ! k) \<or> gs_parentPool s ! k \<le> fst (links hs ! j)"
    using edges_inv_excl [OF D(1) _ _ lane] jk parents by (simp add: D(2))
  then show False using overlap jk D(4,5) by simp
qed

lemma demo_edge_rows:
  defines "s \<equiv> snapshot (build demo_options demo_walk)"
  shows "e_childRow (gs_edges s ! 0) = 0" "e_childRow (gs_edges s ! 1) = 0" "e_childRow (gs_edges s ! 2) = 1"
    "e_parentRow (gs_edges s ! 0) = 2" "e_parentRow (gs_edges s ! 1) = 1" "e_parentRow (gs_edges s ! 2) = kRowBoundary"
  using arg_cong [OF demo_edges(3), of "\<lambda>xs. xs ! 0"] arg_cong [OF demo_edges(3), of "\<lambda>xs. xs ! 1"]
    arg_cong [OF demo_edges(3), of "\<lambda>xs. xs ! 2"] arg_cong [OF demo_edges(4), of "\<lambda>xs. xs ! 0"]
    arg_cong [OF demo_edges(4), of "\<lambda>xs. xs ! 1"] arg_cong [OF demo_edges(4), of "\<lambda>xs. xs ! 2"] demo_edges(1)
  unfolding s_def by simp_all

theorem lines_never_overlap_witness:
  "let s = snapshot (build demo_options demo_walk)
   in e_lane (gs_edges s ! 0) \<noteq> e_lane (gs_edges s ! 2) \<or> isOverflow (e_lane (gs_edges s ! 2))"
  using lines_never_overlap [OF demo_layout_ok demo_walk_take [symmetric] refl, of 0 2]
    demo_edges(1) demo_edge_rows by (simp add: demo_walk_links kRowBoundary_def)

text \<open>Where the first-parent edge of a row starts and where its parent's dot is.\<close>

lemma first_edge_layout:
  assumes ok: "layout_ok options hs" and hs: "hs = take (go_maxRows options) cs" and s: "s = snapshot (build options cs)"
    and r: "r < length hs" and p: "parents_of_commit (hs ! r) = p # ps"
    and q: "q = next_row (map fst hs) r p" "q \<noteq> kRowBoundary"
  shows "e_lane (first_edge s r) = rm_lane (gs_rows s ! r)" "e_color (first_edge s r) = rm_color (gs_rows s ! r)"
    "rm_lane (gs_rows s ! q) \<le> rm_lane (gs_rows s ! r)"
    "isTrunkTip (build options cs) p \<or> (\<exists>e \<in> set (gs_edges s). e_kind e = FirstParent \<and>
       e_parentRow e = q \<and> e_lane e = rm_lane (gs_rows s ! q))"
    "rm_lane (gs_rows s ! q) = rm_lane (gs_rows s ! r) \<Longrightarrow> rm_lane (gs_rows s ! r) < kMaxLanes \<Longrightarrow>
       rm_color (gs_rows s ! q) = rm_color (gs_rows s ! r)"
proof -
  note D = layout_snapshot [OF ok hs s]
  have F: "rm_edgeOffset (gs_rows s ! r) < length (links hs)" "links hs ! rm_edgeOffset (gs_rows s ! r) = (r, p)"
    "e_kind (first_edge s r) = FirstParent"
    using first_edge_snapshot [OF _ hs s r p] ok by (simp_all add: layout_ok_def)
  note I = edges_invD [OF D(1) F(1), folded first_edge_def]
  have pq: "gs_parentPool s ! rm_edgeOffset (gs_rows s ! r) = q" using D(2,6) F q(1) by simp
  show "isTrunkTip (build options cs) p \<or> (\<exists>e \<in> set (gs_edges s). e_kind e = FirstParent \<and>
       e_parentRow e = q \<and> e_lane e = rm_lane (gs_rows s ! q))"
    using I(11) F q(2) D(2,4) unfolding pq by (metis nth_mem snd_conv)
  show "e_lane (first_edge s r) = rm_lane (gs_rows s ! r)" "e_color (first_edge s r) = rm_color (gs_rows s ! r)"
    "rm_lane (gs_rows s ! q) \<le> rm_lane (gs_rows s ! r)"
    "rm_lane (gs_rows s ! q) = rm_lane (gs_rows s ! r) \<Longrightarrow> rm_lane (gs_rows s ! r) < kMaxLanes \<Longrightarrow>
       rm_color (gs_rows s ! q) = rm_color (gs_rows s ! r)"
    using I(7-10) F q(2) unfolding pq by simp_all
qed

text \<open>
  A first-parent chain is straight and only ever moves left. The edge from a commit to its
  first parent leaves in the commit's own column and colour, the parent's dot is in that column or
  further left, and it is further left only at the trunk tip or where another commit's
  first-parent edge comes down in the parent's column.
\<close>

theorem first_parent_chain_straight:
  assumes ok: "layout_ok options hs" and hs: "hs = take (go_maxRows options) cs" and s: "s = snapshot (build options cs)"
    and r: "r < length hs" and p: "parents_of_commit (hs ! r) = p # ps"
    and q: "q = next_row (map fst hs) r p" "q \<noteq> kRowBoundary"
  shows "e_lane (first_edge s r) = rm_lane (gs_rows s ! r) \<and> e_color (first_edge s r) = rm_color (gs_rows s ! r) \<and>
    rm_lane (gs_rows s ! q) \<le> rm_lane (gs_rows s ! r) \<and>
    (isTrunkTip (build options cs) p \<or> (\<exists>e \<in> set (gs_edges s). e_kind e = FirstParent \<and>
       e_parentRow e = q \<and> e_lane e = rm_lane (gs_rows s ! q)))"
  using first_edge_layout [OF ok hs s r p q] by simp

theorem first_parent_chain_straight_witness:
  "let s = snapshot (build demo_options demo_walk) in rm_lane (gs_rows s ! 2) \<le> rm_lane (gs_rows s ! 0)"
  using first_parent_chain_straight [OF demo_layout_ok demo_walk_take [symmetric] refl, of 0 "demo_oid 2" "[demo_oid 3]" 2]
  by (simp add: demo_walk_def parents_of_commit_def next_row_def upt_rec kRowBoundary_def)

section \<open>The trunk\<close>

text \<open>The rows of the trunk: its tip, and the first parent of a row of the trunk.\<close>

inductive trunk_row :: "ObjectId \<Rightarrow> commit list \<Rightarrow> RowId \<Rightarrow> bool" for tip hs where
  trunk_tip: "r < length hs \<Longrightarrow> fst (hs ! r) = tip \<Longrightarrow> trunk_row tip hs r"
| trunk_first: "trunk_row tip hs r \<Longrightarrow> r < length hs \<Longrightarrow> parents_of_commit (hs ! r) = p # ps \<Longrightarrow>
    next_row (map fst hs) r p \<noteq> kRowBoundary \<Longrightarrow> trunk_row tip hs (next_row (map fst hs) r p)"

lemma build_prefix:
  assumes "n \<le> length cs"
  shows "build options cs = foldl add_commit (build options (take n cs)) (drop n cs)"
  unfolding build_def foldl_append [symmetric] append_take_drop_id ..

text \<open>The state in which a row is emitted, and what the row got there.\<close>

lemma row_emitted:
  assumes ok: "layout_ok options hs" and hs: "hs = take (go_maxRows options) cs" and r: "r < length hs"
  obtains gb where "layout_inv options gb (take r hs)"
    "rm_lane (rows_of (build options cs) ! r) = fst (placed gb (fst (hs ! r)))"
    "\<And>q. q < r \<Longrightarrow> rows_of (build options cs) ! q = rows_of gb ! q"
proof -
  let ?gb = "build options (take r cs)" and ?oid = "fst (hs ! r)" and ?ps = "fst (snd (hs ! r))" and ?t = "snd (snd (hs ! r))"
  have len: "r < length cs" "r < go_maxRows options" using r hs by auto
  have "links hs = links (take r hs) @ drop (length (links (take r hs))) (links hs)"
    using links_prefix [of r hs] r by auto
  then have "layout_ok options (take r hs)"
    using ok length_links_le [of r hs] r by (auto simp: layout_ok_def walk_ok_def take_map [symmetric] distinct_take)
  moreover have pre: "take (go_maxRows options) (take r cs) = take r hs" using len hs by (simp add: min_def)
  ultimately have inv: "layout_inv options ?gb (take r hs)" using layout.build_inv [of options "take r cs"] by simp
  then have W: "walk_inv options ?gb (take r hs)" by (simp add: layout_inv_def)
  note L = walk_invD(1,2) [OF W]
  obtain row lane color off gb' where start: "startRow ?gb ?oid (length ?ps) ?t = (row, lane, color, off, gb')"
    by (metis prod_cases5)
  note S = startRow_effect [OF start]
  have step: "rows_of (add_commit ?gb (hs ! r)) = rows_of gb'"
    using start L len r by (simp add: add_commit_def add_def)
  have "build options cs = foldl add_commit (add_commit ?gb (hs ! r)) (drop (Suc r) cs)"
    using build_prefix [of r cs options] len hs by (simp add: Cons_nth_drop_Suc [symmetric])
  then obtain ms where ms: "rows_of (build options cs) = rows_of gb' @ ms"
    using rows_add_commits [of "add_commit ?gb (hs ! r)" "drop (Suc r) cs"] step by auto
  show thesis
  proof (rule that [OF inv])
    show "rm_lane (rows_of (build options cs) ! r) = fst (placed ?gb (fst (hs ! r)))"
      using L(2) r len by (simp add: ms S(11) S(2) nth_append)
    show "rows_of (build options cs) ! q = rows_of ?gb ! q" if "q < r" for q
      using that L(2) r len by (simp add: ms S(11) nth_append)
  qed
qed

text \<open>
  The trunk owns lane 0 forever: the row of the trunk tip and every row down its first-parent
  chain have their dot in lane 0, wherever in the walk the tip arrives.
\<close>

theorem trunk_in_lane_zero:
  assumes ok: "layout_ok options hs" and hs: "hs = take (go_maxRows options) cs"
    and tip: "\<not> isNull (go_trunkTip options)" and trunk: "trunk_row (go_trunkTip options) hs r"
  shows "rm_lane (gs_rows (snapshot (build options cs)) ! r) = 0"
  using trunk
proof induction
  case (trunk_tip r)
  obtain gb where gb: "layout_inv options gb (take r hs)"
    "rm_lane (rows_of (build options cs) ! r) = fst (placed gb (fst (hs ! r)))"
    using row_emitted [OF ok hs trunk_tip(1)] by blast
  then have "isTrunkTip gb (fst (hs ! r))"
    using tip trunk_tip(2) walk_invD(1) [of options gb "take r hs"] by (simp add: layout_inv_def isTrunkTip_def)
  then show ?case using gb(2) by (simp add: placed_def placeCommit_def Let_def)
next
  case (trunk_first r p ps)
  then show ?case
    using first_edge_layout(3) [OF ok hs refl trunk_first(2,3) refl trunk_first(4)] by simp
qed


theorem trunk_in_lane_zero_witness:
  "rm_lane (gs_rows (snapshot (build demo_options demo_walk)) ! 2) = 0"
proof -
  have "trunk_row (demo_oid 1) demo_walk 0" by (rule trunk_tip) (simp_all add: demo_walk_def)
  then have "trunk_row (demo_oid 1) demo_walk (next_row (map fst demo_walk) 0 (demo_oid 2))"
    by (rule trunk_first [of _ _ _ _ "[demo_oid 3]"])
      (simp_all add: demo_walk_def parents_of_commit_def next_row_def upt_rec kRowBoundary_def)
  moreover have "next_row (map fst demo_walk) 0 (demo_oid 2) = 2" by (simp add: demo_walk_def next_row_def upt_rec)
  ultimately have "trunk_row (go_trunkTip demo_options) demo_walk 2" by (simp add: demo_options_def)
  from trunk_in_lane_zero [OF demo_layout_ok demo_walk_take [symmetric] _ this] show ?thesis
    by (simp add: demo_options_def demo_oid_def isNull_def)
qed

text \<open>
  Lane 0 is held vacant for the trunk: no row above the trunk tip has its dot in lane 0.
\<close>

theorem lane_zero_vacant_above_tip:
  assumes ok: "layout_ok options hs" and hs: "hs = take (go_maxRows options) cs"
    and tip: "\<not> isNull (go_trunkTip options)" and t: "t < length hs" "fst (hs ! t) = go_trunkTip options" and r: "r < t"
  shows "rm_lane (gs_rows (snapshot (build options cs)) ! r) \<noteq> 0"
proof -
  obtain gb where gb: "layout_inv options gb (take t hs)"
    "\<And>q. q < t \<Longrightarrow> rows_of (build options cs) ! q = rows_of gb ! q"
    using row_emitted [OF ok hs t(1)] by blast
  then have W: "walk_inv options gb (take t hs)" and L: "lay_inv gb (links (take t hs)) {}" by (simp_all add: layout_inv_def)
  have "go_trunkTip options \<notin> set (map fst (take t hs))"
  proof
    assume "go_trunkTip options \<in> set (map fst (take t hs))"
    then obtain i where "i < t" "fst (hs ! i) = go_trunkTip options" using t(1) by (auto simp: in_set_conv_nth)
    with t ok nth_eq_iff_index_eq [of "map fst hs" i t] show False by (simp add: layout_ok_def)
  qed
  then have "tip_waits gb" using tip walk_invD(1,3) [OF W] by (simp add: tip_waits_def)
  moreover have "rows_of gb ! r \<in> set (rows_of gb)" using walk_invD(2) [OF W] r t(1) by simp
  ultimately show ?thesis using lay_invD(5) [OF L] gb(2) [OF r] by simp
qed

text \<open>A trunk whose tip is not the newest commit.\<close>

definition late_walk :: "commit list" where
  "late_walk = [(demo_oid 9, [demo_oid 1], 99), (demo_oid 1, [], 90)]"

theorem lane_zero_vacant_above_tip_witness:
  "rm_lane (gs_rows (snapshot (build demo_options late_walk)) ! 0) \<noteq> 0"
  using lane_zero_vacant_above_tip [of demo_options late_walk late_walk 1 0]
  by (simp add: layout_ok_def walk_ok_def demo_options_def late_walk_def links_def parents_of_commit_def demo_oid_def isNull_def)

text \<open>
  A straight chain keeps one colour: when the first parent of a row has its dot in the row's
  own column, it has the row's colour too.
\<close>

theorem straight_chain_one_colour:
  assumes ok: "layout_ok options hs" and hs: "hs = take (go_maxRows options) cs" and s: "s = snapshot (build options cs)"
    and r: "r < length hs" and p: "parents_of_commit (hs ! r) = p # ps"
    and q: "q = next_row (map fst hs) r p" "q \<noteq> kRowBoundary"
    and straight: "rm_lane (gs_rows s ! q) = rm_lane (gs_rows s ! r)" "\<not> isOverflow (rm_lane (gs_rows s ! r))"
  shows "rm_color (gs_rows s ! q) = rm_color (gs_rows s ! r)"
  using first_edge_layout(5) [OF ok hs s r p q] straight by (simp add: isOverflow_def)

lemma demo_trunk_lanes:
  "rm_lane (gs_rows (snapshot (build demo_options demo_walk)) ! 0) = 0"
  "rm_lane (gs_rows (snapshot (build demo_options demo_walk)) ! 2) = 0"
proof -
  let ?s = "snapshot (build demo_options demo_walk)"
  obtain gb where gb: "layout_inv demo_options gb (take 0 demo_walk)"
    "rm_lane (rows_of (build demo_options demo_walk) ! 0) = fst (placed gb (fst (demo_walk ! 0)))"
    using row_emitted [OF demo_layout_ok demo_walk_take [symmetric], of 0] by (auto simp: demo_walk_def)
  then have "isTrunkTip gb (fst (demo_walk ! 0))"
    using walk_invD(1) [of demo_options gb "[]"]
    by (simp add: layout_inv_def isTrunkTip_def demo_options_def demo_walk_def demo_oid_def isNull_def)
  then show zero: "rm_lane (gs_rows ?s ! 0) = 0" using gb(2) by (simp add: placed_def placeCommit_def Let_def)
  show "rm_lane (gs_rows ?s ! 2) = 0"
    using first_edge_layout(3) [OF demo_layout_ok demo_walk_take [symmetric] refl, of 0 "demo_oid 2" "[demo_oid 3]" 2] zero
    by (simp add: demo_walk_def parents_of_commit_def next_row_def upt_rec kRowBoundary_def)
qed

theorem straight_chain_one_colour_witness:
  "let s = snapshot (build demo_options demo_walk) in rm_color (gs_rows s ! 2) = rm_color (gs_rows s ! 0)"
  using straight_chain_one_colour [OF demo_layout_ok demo_walk_take [symmetric] refl, of 0 "demo_oid 2" "[demo_oid 3]" 2]
    demo_trunk_lanes
  by (simp add: demo_walk_def parents_of_commit_def next_row_def upt_rec kRowBoundary_def isOverflow_def kMaxLanes_def)

text \<open>
  No column is leaked and none is handed out twice: after any walk the columns in use are
  exactly those of the edges whose parent has not arrived, with lane 0 while the trunk tip has
  not arrived.
\<close>

theorem columns_in_use_exact:
  assumes ok: "layout_ok options hs" and hs: "hs = take (go_maxRows options) cs" and s: "s = snapshot (build options cs)"
  shows "occupied (gb_lanes (build options cs)) =
    {e_lane e |e. e \<in> set (gs_edges s) \<and> e_parentRow e = kRowBoundary \<and> \<not> isOverflow (e_lane e)} \<union>
    (if \<not> isNull (go_trunkTip options) \<and> go_trunkTip options \<notin> set (map fst hs) then {0} else {})"
    (is "_ = _ \<union> (if ?waits then _ else _)")
proof -
  have inv: "layout_inv options (build options cs) hs" using layout.build_inv ok hs by simp
  then have W: "walk_inv options (build options cs) hs" and L: "lay_inv (build options cs) (links hs) {}"
    by (simp_all add: layout_inv_def)
  note D = layout_snapshot [OF ok hs s]
  have es: "gs_edges s = edges_of (build options cs)" using s snapshot_eq [OF walk_invD(6) [OF W]] by simp
  have "tip_waits (build options cs) \<longleftrightarrow> ?waits"
    using walk_invD(1,3) [OF W] by (simp add: tip_waits_def)
  moreover have "(\<exists>k < length (links hs). open_at (build options cs) k \<and> e_lane (edges_of (build options cs) ! k) = l) \<longleftrightarrow>
      (\<exists>e \<in> set (gs_edges s). e_parentRow e = kRowBoundary \<and> e_lane e = l)" for l
  proof -
    have "pool_of (build options cs) = gs_parentPool s" by (simp add: s)
    then show ?thesis unfolding es [symmetric] using D(2,4) by (metis in_set_conv_nth)
  qed
  ultimately have mem: "l \<in> occupied (gb_lanes (build options cs)) \<longleftrightarrow> l < kMaxLanes \<and>
      ((\<exists>e \<in> set (gs_edges s). e_parentRow e = kRowBoundary \<and> e_lane e = l) \<or> l = 0 \<and> ?waits)" for l
    using lay_invD(6) [OF L, of l] by auto
  have "0 < kMaxLanes" by (simp add: kMaxLanes_def)
  then show ?thesis
    by (cases ?waits) (auto simp: set_eq_iff mem isOverflow_def not_le simp del: set_map)
qed

theorem columns_in_use_exact_witness:
  "occupied (gb_lanes (build demo_options late_walk)) = {}"
proof -
  have late: "layout_ok demo_options late_walk" "late_walk = take (go_maxRows demo_options) late_walk"
    and links: "links late_walk = [(0, demo_oid 1)]"
    by (simp_all add: layout_ok_def walk_ok_def demo_options_def late_walk_def links_def parents_of_commit_def)
  note D = layout_snapshot [OF late refl]
  have "e_parentRow e \<noteq> kRowBoundary" if "e \<in> set (gs_edges (snapshot (build demo_options late_walk)))" for e
  proof -
    have "next_row (map fst late_walk) 0 (demo_oid 1) = 1" by (simp add: next_row_def late_walk_def upt_rec)
    then show ?thesis using that D(2) D(4) [of 0] D(6) [of 0] by (auto simp: links in_set_conv_nth kRowBoundary_def)
  qed
  then show ?thesis
    using columns_in_use_exact [OF late refl] by (auto simp: late_walk_def demo_options_def)
qed

text \<open>
  Every coordinate a snapshot hands to the renderer is in range: the lane of a row or an edge
  is one of the 48 lanes or the overflow lane, its colour is a palette index, and an edge that
  has a parent row points at an existing row strictly below its child.
\<close>

theorem layout_in_range:
  assumes ok: "layout_ok options hs" and hs: "hs = take (go_maxRows options) cs" and s: "s = snapshot (build options cs)"
  shows "(\<forall>m \<in> set (gs_rows s). rm_lane m \<le> kOverflowLane \<and> rm_color m < kPaletteSize) \<and>
    (\<forall>e \<in> set (gs_edges s). e_lane e \<le> kOverflowLane \<and> e_color e < kPaletteSize \<and>
       (e_parentRow e = kRowBoundary \<or> e_childRow e < e_parentRow e \<and> e_parentRow e < length (gs_rows s)))"
proof -
  note D = layout_snapshot [OF ok hs s]
  have "e_lane e \<le> kMaxLanes \<and> e_color e < kPaletteSize \<and>
      (e_parentRow e = kRowBoundary \<or> e_childRow e < e_parentRow e \<and> e_parentRow e < length (gs_rows s))"
    if e: "e \<in> set (gs_edges s)" for e
  proof -
    from e obtain k where k: "k < length (gs_edges s)" "e = gs_edges s ! k" by (auto simp: in_set_conv_nth)
    have lt: "k < length (links hs)" using k(1) D(2) by simp
    have "next_row (map fst hs) (fst (links hs ! k)) (snd (links hs ! k)) = gs_parentPool s ! k" using D(6) [OF k(1)] by simp
    with next_row_spec [of "map fst hs" "fst (links hs ! k)" "snd (links hs ! k)"] D(7)
    have "gs_parentPool s ! k = kRowBoundary \<or>
        fst (links hs ! k) < gs_parentPool s ! k \<and> gs_parentPool s ! k < length hs" by auto
    then show ?thesis
      unfolding k(2) D(4,5) [OF k(1)] using edges_invD(1,2) [OF D(1) lt] D(3) by metis
  qed
  then show ?thesis using D(1) by (simp add: edges_inv_def kOverflowLane_def)
qed

theorem layout_in_range_witness:
  "list_all (\<lambda>e. e_color e < 12) (gs_edges (snapshot (build demo_options demo_walk)))"
  using layout_in_range [OF demo_layout_ok demo_walk_take [symmetric] refl] by (simp add: kPaletteSize_def list_all_iff)

end
