(* ===== verification/UnifiedDiff.thy ===== *)
theory UnifiedDiff
  imports GBM_Prelude
begin

text \<open>
  \<^verbatim>\<open>src/core/git/UnifiedDiffParser.h\<close> and \<^verbatim>\<open>UnifiedDiffParser.cpp\<close>: git's unified
  diff text parsed into files, hunks and numbered lines, and patches written back out for a hunk
  or for selected lines of one. The parser's pointers to the current file and hunk are two flags:
  when set, they stand for the last file and its last hunk. The theory holds the definitions; the
  theorems are in the theories on parsing and on patches.
\<close>

datatype DiffLineKind = Context | Added | Removed | NoNewlineMarker

record DiffLine =
  dl_kind :: DiffLineKind
  dl_oldLine :: nat
  dl_newLine :: nat
  dl_text :: string

record DiffHunk =
  dh_oldStart :: nat
  dh_oldCount :: nat
  dh_newStart :: nat
  dh_newCount :: nat
  dh_heading :: string
  dh_lines :: "DiffLine list"

datatype FileChangeKind =
  FileModified | FileAdded | FileDeleted | FileRenamed | FileCopied | FileTypeChanged | FileModeChanged

record DiffFile =
  df_oldPath :: string
  df_newPath :: string
  df_kind :: FileChangeKind
  df_oldMode :: string
  df_newMode :: string
  df_oldBlob :: string
  df_newBlob :: string
  df_binary :: bool
  df_similarity :: int
  df_hunks :: "DiffHunk list"
  df_addedLines :: nat
  df_removedLines :: nat

definition displayPath :: "DiffFile \<Rightarrow> string" where
  "displayPath f = (if df_kind f = FileDeleted then df_oldPath f else df_newPath f)"

record ParsedDiff =
  pd_files :: "DiffFile list"
  pd_truncated :: bool
  pd_inputBytes :: nat

record DiffOptions =
  do_maxBytes :: nat
  do_maxLineLength :: nat

definition default_options :: DiffOptions where
  "default_options = \<lparr>do_maxBytes = 2 * 1024 * 1024, do_maxLineLength = 8 * 1024\<rparr>"

definition new_line :: DiffLine where
  "new_line = \<lparr>dl_kind = Context, dl_oldLine = 0, dl_newLine = 0, dl_text = []\<rparr>"

definition new_hunk :: DiffHunk where
  "new_hunk = \<lparr>dh_oldStart = 0, dh_oldCount = 0, dh_newStart = 0, dh_newCount = 0, dh_heading = [], dh_lines = []\<rparr>"

definition new_file :: DiffFile where
  "new_file = \<lparr>df_oldPath = [], df_newPath = [], df_kind = FileModified, df_oldMode = [], df_newMode = [],
     df_oldBlob = [], df_newBlob = [], df_binary = False, df_similarity = 0, df_hunks = [],
     df_addedLines = 0, df_removedLines = 0\<rparr>"

section \<open>Text helpers\<close>

definition strip_cr :: "string \<Rightarrow> string" where
  "strip_cr line = (if ends_with_char line cr then butlast line else line)"

text \<open>The last piece, which no line feed ends, keeps its carriage return.\<close>

function splitLines :: "string \<Rightarrow> string list" where
  "splitLines text =
     (case find_char nl text of
        None \<Rightarrow> (if text = [] then [] else [text])
      | Some i \<Rightarrow> strip_cr (take i text) # splitLines (drop (Suc i) text))"
  by auto
termination
  by (relation "measure length") (auto dest: find_char_Some)

declare splitLines.simps [simp del]

definition parseUint :: "string \<Rightarrow> nat" where
  "parseUint text = (case fst (from_chars 32 text) of Some v \<Rightarrow> v | None \<Rightarrow> 0)"

text \<open>\<^verbatim>\<open>static_cast<int>\<close> of a 32-bit value, and \<^verbatim>\<open>std::to_string\<close> of an \<^verbatim>\<open>int\<close>.\<close>

definition to_int32 :: "nat \<Rightarrow> int" where
  "to_int32 v = (if v < 2 ^ 31 then int v else int v - 2 ^ 32)"

definition to_string_int :: "int \<Rightarrow> string" where
  "to_string_int i = (if i < 0 then CHR ''-'' # to_string (nat (- i)) else to_string (nat i))"

definition is_octal :: "char \<Rightarrow> bool" where
  "is_octal c \<longleftrightarrow> 48 \<le> (of_char c :: nat) \<and> (of_char c :: nat) \<le> 55"

text \<open>Up to two more octal digits after the first.\<close>

fun read_octal :: "nat \<Rightarrow> nat \<Rightarrow> string \<Rightarrow> nat \<times> string" where
  "read_octal 0 v s = (v, s)"
| "read_octal (Suc n) v [] = (v, [])"
| "read_octal (Suc n) v (c # cs) = (if is_octal c then read_octal n (v * 8 + digit_val c) cs else (v, c # cs))"

lemma read_octal_length: "length (snd (read_octal n v s)) \<le> length s"
  by (induction n v s rule: read_octal.induct) auto

function unescape :: "string \<Rightarrow> string" where
  "unescape [] = []"
| "unescape [c] = [c]"
| "unescape (c # e # s) =
     (if c \<noteq> CHR 0x5C then c # unescape (e # s)
      else if e = CHR ''n'' then nl # unescape s
      else if e = CHR ''t'' then CHR 0x09 # unescape s
      else if e = CHR ''r'' then cr # unescape s
      else if e = CHR 0x22 then CHR 0x22 # unescape s
      else if e = CHR 0x5C then CHR 0x5C # unescape s
      else if is_octal e then char_of (fst (read_octal 2 (digit_val e) s)) # unescape (snd (read_octal 2 (digit_val e) s))
      else e # unescape s)"
  by pat_completeness auto
termination
  by (relation "measure length") (auto simp: le_imp_less_Suc read_octal_length le_SucI)

definition unquotePath :: "string \<Rightarrow> string" where
  "unquotePath raw =
     (if length raw < 2 \<or> hd raw \<noteq> CHR 0x22 \<or> last raw \<noteq> CHR 0x22 then raw
      else unescape (substr raw 1 (length raw - 2)))"

definition stripPathPrefix :: "string \<Rightarrow> string" where
  "stripPathPrefix path =
     (if path = ''/dev/null'' then []
      else if length path > 2 \<and> (path ! 0 = CHR ''a'' \<or> path ! 0 = CHR ''b'') \<and> path ! 1 = CHR ''/''
      then drop 2 path else path)"

section \<open>The parser\<close>

record ParseState =
  ps_files :: "DiffFile list"
  ps_inFile :: bool
  ps_inHunk :: bool
  ps_oldLine :: nat
  ps_newLine :: nat

definition upd_last :: "('a \<Rightarrow> 'a) \<Rightarrow> 'a list \<Rightarrow> 'a list" where
  "upd_last f xs = (if xs = [] then [] else butlast xs @ [f (last xs)])"

abbreviation upd_file :: "(DiffFile \<Rightarrow> DiffFile) \<Rightarrow> ParseState \<Rightarrow> ParseState" where
  "upd_file f st \<equiv> st\<lparr>ps_files := upd_last f (ps_files st)\<rparr>"

definition startFile :: "ParseState \<Rightarrow> string \<Rightarrow> ParseState" where
  "startFile st line =
     (let rest = drop 11 line;
          file = (case rfind_str '' b/'' rest of
                    Some bAt \<Rightarrow> new_file\<lparr>df_oldPath := stripPathPrefix (unquotePath (take bAt rest)),
                                         df_newPath := stripPathPrefix (unquotePath (drop (bAt + 1) rest))\<rparr>
                  | None \<Rightarrow> new_file)
      in st\<lparr>ps_files := ps_files st @ [file], ps_inFile := True, ps_inHunk := False\<rparr>)"

text \<open>The extended headers: what each does to the current file, or nothing when the line is none.\<close>

definition indexLine :: "string \<Rightarrow> DiffFile \<Rightarrow> DiffFile" where
  "indexLine line f =
     (let rest = drop 6 line
      in case find_str ''..'' rest of
           None \<Rightarrow> f
         | Some dots \<Rightarrow>
             let after = drop (dots + 2) rest;
                 f1 = f\<lparr>df_oldBlob := take dots rest\<rparr>
             in case find_char CHR '' '' after of
                  None \<Rightarrow> f1\<lparr>df_newBlob := after\<rparr>
                | Some space \<Rightarrow>
                    let f2 = f1\<lparr>df_newBlob := take space after\<rparr>
                    in if df_newMode f2 = [] then f2\<lparr>df_newMode := drop (space + 1) after\<rparr> else f2)"

definition oldPathLine :: "string \<Rightarrow> DiffFile \<Rightarrow> DiffFile" where
  "oldPathLine line f = (let path = stripPathPrefix (unquotePath (drop 4 line))
     in if path \<noteq> [] then f\<lparr>df_oldPath := path\<rparr> else f)"

definition newPathLine :: "string \<Rightarrow> DiffFile \<Rightarrow> DiffFile" where
  "newPathLine line f = (let path = stripPathPrefix (unquotePath (drop 4 line))
     in if path \<noteq> [] then f\<lparr>df_newPath := path\<rparr> else f)"

definition extendedHeader :: "string \<Rightarrow> (DiffFile \<Rightarrow> DiffFile) option" where
  "extendedHeader line =
     (if starts_with line ''old mode '' then Some (\<lambda>f. f\<lparr>df_oldMode := drop 9 line, df_kind := FileModeChanged\<rparr>)
      else if starts_with line ''new mode '' then Some (\<lambda>f. f\<lparr>df_newMode := drop 9 line\<rparr>)
      else if starts_with line ''new file mode '' then Some (\<lambda>f. f\<lparr>df_newMode := drop 14 line, df_kind := FileAdded\<rparr>)
      else if starts_with line ''deleted file mode '' then Some (\<lambda>f. f\<lparr>df_oldMode := drop 18 line, df_kind := FileDeleted\<rparr>)
      else if starts_with line ''rename from '' then Some (\<lambda>f. f\<lparr>df_oldPath := unquotePath (drop 12 line), df_kind := FileRenamed\<rparr>)
      else if starts_with line ''rename to '' then Some (\<lambda>f. f\<lparr>df_newPath := unquotePath (drop 10 line), df_kind := FileRenamed\<rparr>)
      else if starts_with line ''copy from '' then Some (\<lambda>f. f\<lparr>df_oldPath := unquotePath (drop 10 line), df_kind := FileCopied\<rparr>)
      else if starts_with line ''copy to '' then Some (\<lambda>f. f\<lparr>df_newPath := unquotePath (drop 8 line), df_kind := FileCopied\<rparr>)
      else if starts_with line ''similarity index '' then Some (\<lambda>f. f\<lparr>df_similarity := to_int32 (parseUint (drop 17 line))\<rparr>)
      else if starts_with line ''index '' then Some (indexLine line)
      else if starts_with line ''Binary files '' \<or> starts_with line ''GIT binary patch'' then Some (\<lambda>f. f\<lparr>df_binary := True\<rparr>)
      else if starts_with line ''--- '' then Some (oldPathLine line)
      else if starts_with line ''+++ '' then Some (newPathLine line)
      else None)"

text \<open>One range after a sign: where it starts, its count, and the cursor behind it.\<close>

definition readRange :: "string \<Rightarrow> nat \<Rightarrow> char \<Rightarrow> (nat \<times> nat \<times> nat) option" where
  "readRange ranges cursor sign =
     (case find_char_from sign ranges cursor of
        None \<Rightarrow> None
      | Some at \<Rightarrow>
          let cur = at + 1;
              text = takeWhile (\<lambda>c. c \<noteq> CHR '' '') (drop cur ranges);
              end' = cur + length text
          in case find_char CHR '','' text of
               None \<Rightarrow> Some (parseUint text, 1, end')
             | Some comma \<Rightarrow> Some (parseUint (take comma text), parseUint (drop (comma + 1) text), end'))"

lemma readRange_cursor:
  "readRange ranges cursor sign = Some (a, b, cursor') \<Longrightarrow> cursor < cursor' \<and> cursor' \<le> length ranges"
proof -
  assume r: "readRange ranges cursor sign = Some (a, b, cursor')"
  then obtain i where i: "find_char sign (drop cursor ranges) = Some i"
    by (auto simp: readRange_def find_char_from_def split: option.splits)
  have "cursor' = cursor + i + 1 + length (takeWhile (\<lambda>c. c \<noteq> CHR '' '') (drop (cursor + i + 1) ranges))"
    using r i by (auto simp: readRange_def find_char_from_def Let_def split: option.splits)
  moreover have "cursor + i < length ranges" using find_char_Some(1) [OF i] by simp
  moreover have "length (takeWhile (\<lambda>c. c \<noteq> CHR '' '') (drop (cursor + i + 1) ranges)) \<le> length ranges - (cursor + i + 1)"
    by (metis length_drop length_takeWhile_le)
  ultimately show ?thesis by linarith
qed

text \<open>Every minus range is read; the last one wins.\<close>

function readOldRanges :: "string \<Rightarrow> nat \<Rightarrow> nat \<times> nat \<Rightarrow> nat \<times> nat" where
  "readOldRanges ranges cursor acc =
     (case readRange ranges cursor CHR ''-'' of
        None \<Rightarrow> acc
      | Some (a, b, cursor') \<Rightarrow> readOldRanges ranges cursor' (a, b))"
  by auto
termination
  by (relation "measure (\<lambda>(ranges, cursor, acc). length ranges - cursor)")
    (auto dest: readRange_cursor)

declare readOldRanges.simps [simp del]

definition startHunk :: "ParseState \<Rightarrow> string \<Rightarrow> nat \<Rightarrow> ParseState" where
  "startHunk st line closing =
     (let ranges = substr line 2 (closing - 2);
          heading = (if closing + 2 < length line then dropWhile (\<lambda>c. c = CHR '' '') (drop (closing + 2) line) else []);
          (oldStart, oldCount) = readOldRanges ranges 0 (0, 0);
          (newStart, newCount) = (case readRange ranges 0 CHR ''+'' of Some (a, b, _) \<Rightarrow> (a, b) | None \<Rightarrow> (0, 0));
          hunk = \<lparr>dh_oldStart = oldStart, dh_oldCount = oldCount, dh_newStart = newStart,
                  dh_newCount = newCount, dh_heading = heading, dh_lines = []\<rparr>
      in (upd_file (\<lambda>f. f\<lparr>df_hunks := df_hunks f @ [hunk]\<rparr>) st)
           \<lparr>ps_inHunk := True, ps_oldLine := oldStart, ps_newLine := newStart\<rparr>)"

definition pushLine :: "DiffLine \<Rightarrow> DiffFile \<Rightarrow> DiffFile" where
  "pushLine l f = f\<lparr>df_hunks := upd_last (\<lambda>h. h\<lparr>dh_lines := dh_lines h @ [l]\<rparr>) (df_hunks f)\<rparr>"

text \<open>
  A body line. The Boolean says that the line is not part of the hunk: the hunk is left and the
  same line is read again.
\<close>

definition bodyLine :: "DiffOptions \<Rightarrow> ParseState \<Rightarrow> string \<Rightarrow> ParseState \<times> bool" where
  "bodyLine opts st line =
     (if starts_with line (CHR 0x5C # '' No newline'')
      then (upd_file (pushLine (new_line\<lparr>dl_kind := NoNewlineMarker, dl_text := line\<rparr>)) st, False)
      else
        let marker = (case line of [] \<Rightarrow> CHR '' '' | c # _ \<Rightarrow> c);
            content = take (do_maxLineLength opts) (drop 1 line)
        in if marker = CHR ''+'' then
             ((upd_file (\<lambda>f. pushLine (new_line\<lparr>dl_kind := Added, dl_newLine := ps_newLine st, dl_text := content\<rparr>)
                (f\<lparr>df_addedLines := u32 (df_addedLines f + 1)\<rparr>)) st)\<lparr>ps_newLine := u32 (ps_newLine st + 1)\<rparr>, False)
           else if marker = CHR ''-'' then
             ((upd_file (\<lambda>f. pushLine (new_line\<lparr>dl_kind := Removed, dl_oldLine := ps_oldLine st, dl_text := content\<rparr>)
                (f\<lparr>df_removedLines := u32 (df_removedLines f + 1)\<rparr>)) st)\<lparr>ps_oldLine := u32 (ps_oldLine st + 1)\<rparr>, False)
           else if marker = CHR '' '' then
             ((upd_file (pushLine (new_line\<lparr>dl_kind := Context, dl_oldLine := ps_oldLine st, dl_newLine := ps_newLine st,
                dl_text := content\<rparr>)) st)\<lparr>ps_oldLine := u32 (ps_oldLine st + 1), ps_newLine := u32 (ps_newLine st + 1)\<rparr>, False)
           else (st\<lparr>ps_inHunk := False\<rparr>, True))"

definition parseLine :: "DiffOptions \<Rightarrow> ParseState \<Rightarrow> string \<Rightarrow> ParseState \<times> bool" where
  "parseLine opts st line =
     (if starts_with line ''diff --git '' then (startFile st line, False)
      else if \<not> ps_inFile st then (st, False)
      else case extendedHeader line of
             Some change \<Rightarrow> (upd_file change st, False)
           | None \<Rightarrow>
               if starts_with line ''@@''
               then (case find_str_from ''@@'' line 2 of None \<Rightarrow> (st, False) | Some closing \<Rightarrow> (startHunk st line closing, False))
               else if \<not> ps_inHunk st then (st, False)
               else bodyLine opts st line)"

lemma parseLine_again: "parseLine opts st line = (st', True) \<Longrightarrow> ps_inHunk st \<and> \<not> ps_inHunk st'"
  by (auto simp: parseLine_def bodyLine_def Let_def split: if_splits option.splits)

text \<open>The loop over the lines; a line that leaves its hunk is read again with no hunk open.\<close>

function parseLines :: "DiffOptions \<Rightarrow> ParseState \<Rightarrow> string list \<Rightarrow> ParseState" where
  "parseLines opts st [] = st"
| "parseLines opts st (line # lines) =
     (case parseLine opts st line of
        (st', again) \<Rightarrow> if again then parseLines opts st' (line # lines) else parseLines opts st' lines)"
  by pat_completeness auto
termination
  by (relation "measures [\<lambda>(opts, st, lines). length lines, \<lambda>(opts, st, lines). if ps_inHunk st then 1 else 0]")
    (auto dest: parseLine_again [OF sym])

definition new_state :: ParseState where
  "new_state = \<lparr>ps_files = [], ps_inFile = False, ps_inHunk = False, ps_oldLine = 0, ps_newLine = 0\<rparr>"

definition parse :: "DiffOptions \<Rightarrow> string \<Rightarrow> ParsedDiff" where
  "parse opts diffText =
     (if length diffText > do_maxBytes opts
      then \<lparr>pd_files = [], pd_truncated = True, pd_inputBytes = length diffText\<rparr>
      else \<lparr>pd_files = ps_files (parseLines opts new_state (splitLines diffText)), pd_truncated = False,
            pd_inputBytes = length diffText\<rparr>)"

section \<open>Patches\<close>

definition patchHeader :: "DiffFile \<Rightarrow> string \<Rightarrow> string \<Rightarrow> bool \<Rightarrow> string" where
  "patchHeader file oldPath newPath unstaging =
     (let isRenameOrCopy = (df_kind file = FileRenamed \<or> df_kind file = FileCopied) \<and> oldPath \<noteq> newPath;
          contentOnlyAtNewPath = unstaging \<and> isRenameOrCopy;
          headerOldPath = (if contentOnlyAtNewPath then newPath else oldPath)
      in if \<not> unstaging \<and> df_kind file = FileAdded
         then ''diff --git a/'' @ newPath @ '' b/'' @ newPath @ [nl] @
              ''new file mode '' @ (if df_newMode file = [] then ''100644'' else df_newMode file) @ [nl] @
              ''--- /dev/null'' @ [nl] @ ''+++ b/'' @ newPath @ [nl]
         else ''diff --git a/'' @ headerOldPath @ '' b/'' @ newPath @ [nl] @
              (if isRenameOrCopy \<and> \<not> contentOnlyAtNewPath
               then ''similarity index '' @ to_string_int (df_similarity file) @ ''%'' @ [nl] @
                    (if df_kind file = FileRenamed then ''rename from '' else ''copy from '') @ oldPath @ [nl] @
                    (if df_kind file = FileRenamed then ''rename to '' else ''copy to '') @ newPath @ [nl]
               else []) @
              ''--- a/'' @ headerOldPath @ [nl] @ ''+++ b/'' @ newPath @ [nl])"

definition patchPaths :: "DiffFile \<Rightarrow> string \<times> string" where
  "patchPaths file =
     (if df_oldPath file = [] then df_newPath file else df_oldPath file,
      if df_newPath file = [] then df_oldPath file else df_newPath file)"

definition rangeLine :: "nat \<Rightarrow> nat \<Rightarrow> nat \<Rightarrow> nat \<Rightarrow> string" where
  "rangeLine oldStart oldCount newStart newCount =
     ''@@ -'' @ to_string oldStart @ '','' @ to_string oldCount @ '' +'' @ to_string newStart @ '','' @
     to_string newCount @ '' @@'' @ [nl]"

definition noNewlineText :: string where
  "noNewlineText = CHR 0x5C # '' No newline at end of file''"

definition countLine :: "nat \<times> nat \<Rightarrow> DiffLine \<Rightarrow> nat \<times> nat" where
  "countLine counts l =
     (case counts of (old, new) \<Rightarrow>
        (case dl_kind l of
           Context \<Rightarrow> (u32 (old + 1), u32 (new + 1)) | Added \<Rightarrow> (old, u32 (new + 1))
         | Removed \<Rightarrow> (u32 (old + 1), new) | NoNewlineMarker \<Rightarrow> (old, new)))"

definition hunkCounts :: "DiffLine list \<Rightarrow> nat \<times> nat" where
  "hunkCounts ls = foldl countLine (0, 0) ls"

definition hunkLine :: "bool \<Rightarrow> DiffLine \<Rightarrow> string" where
  "hunkLine reverse l =
     (case dl_kind l of
        Context \<Rightarrow> CHR '' '' # dl_text l @ [nl]
      | Added \<Rightarrow> (if reverse then CHR ''-'' else CHR ''+'') # dl_text l @ [nl]
      | Removed \<Rightarrow> (if reverse then CHR ''+'' else CHR ''-'') # dl_text l @ [nl]
      | NoNewlineMarker \<Rightarrow> noNewlineText @ [nl])"

definition buildHunkPatch :: "DiffFile \<Rightarrow> DiffHunk \<Rightarrow> bool \<Rightarrow> bool \<Rightarrow> string" where
  "buildHunkPatch file hunk reverse unstaging =
     (let (oldPath, newPath) = patchPaths file;
          (oldCount, newCount) = hunkCounts (dh_lines hunk)
      in patchHeader file oldPath newPath unstaging @
         (if reverse then rangeLine (dh_newStart hunk) newCount (dh_oldStart hunk) oldCount
          else rangeLine (dh_oldStart hunk) oldCount (dh_newStart hunk) newCount) @
         concat (map (hunkLine reverse) (dh_lines hunk)))"

text \<open>The lines a selection emits: a marker and the text, and whether the previous one was emitted.\<close>

type_synonym EmittedLine = "char \<times> string"

definition isSelected :: "bool list \<Rightarrow> nat \<Rightarrow> bool" where
  "isSelected selected i \<longleftrightarrow> i < length selected \<and> selected ! i"

fun selectionBody :: "bool \<Rightarrow> bool list \<Rightarrow> nat \<Rightarrow> bool \<Rightarrow> DiffLine list \<Rightarrow> EmittedLine list" where
  "selectionBody unstaging selected i prev [] = []"
| "selectionBody unstaging selected i prev (l # ls) =
     (case dl_kind l of
        Context \<Rightarrow> (CHR '' '', dl_text l) # selectionBody unstaging selected (i + 1) True ls
      | Added \<Rightarrow>
          if isSelected selected i then (CHR ''+'', dl_text l) # selectionBody unstaging selected (i + 1) True ls
          else if unstaging then (CHR '' '', dl_text l) # selectionBody unstaging selected (i + 1) True ls
          else selectionBody unstaging selected (i + 1) False ls
      | Removed \<Rightarrow>
          if isSelected selected i then (CHR ''-'', dl_text l) # selectionBody unstaging selected (i + 1) True ls
          else if unstaging then selectionBody unstaging selected (i + 1) False ls
          else (CHR '' '', dl_text l) # selectionBody unstaging selected (i + 1) True ls
      | NoNewlineMarker \<Rightarrow>
          (if prev then [(CHR 0x5C, dl_text l)] else []) @ selectionBody unstaging selected (i + 1) prev ls)"

definition changesSomething :: "EmittedLine list \<Rightarrow> bool" where
  "changesSomething body \<longleftrightarrow> list_ex (\<lambda>(m, _). m = CHR ''+'' \<or> m = CHR ''-'') body"

definition countEmitted :: "nat \<times> nat \<Rightarrow> EmittedLine \<Rightarrow> nat \<times> nat" where
  "countEmitted counts e =
     (case counts of (old, new) \<Rightarrow>
        if fst e = CHR '' '' then (u32 (old + 1), u32 (new + 1))
        else if fst e = CHR ''+'' then (old, u32 (new + 1))
        else if fst e = CHR ''-'' then (u32 (old + 1), new)
        else (old, new))"

definition emittedCounts :: "EmittedLine list \<Rightarrow> nat \<times> nat" where
  "emittedCounts body = foldl countEmitted (0, 0) body"

definition emittedLine :: "EmittedLine \<Rightarrow> string" where
  "emittedLine e = (if fst e = CHR 0x5C then noNewlineText @ [nl] else fst e # snd e @ [nl])"

definition buildLineSelectionPatch :: "DiffFile \<Rightarrow> DiffHunk \<Rightarrow> bool list \<Rightarrow> bool \<Rightarrow> string" where
  "buildLineSelectionPatch file hunk selected unstaging =
     (let (oldPath, newPath) = patchPaths file;
          body = selectionBody unstaging selected 0 False (dh_lines hunk);
          (oldCount, newCount) = emittedCounts body
      in if \<not> changesSomething body then []
         else patchHeader file oldPath newPath unstaging @
              rangeLine (dh_oldStart hunk) oldCount (dh_newStart hunk) newCount @
              concat (map emittedLine body))"

end
