(* ===== verification/DiffPatches.thy ===== *)
theory DiffPatches
  imports UnifiedDiff
begin

text \<open>
  The patches \<^verbatim>\<open>UnifiedDiffParser\<close> writes, read back by its own parser: a whole hunk, and
  the lines selected for staging or unstaging. Lines of text are written and split again, the
  range line and the file headers are recovered, and each builder's result is stated over the
  two sides of the hunk, which is what \<^verbatim>\<open>git apply --cached\<close> compares and replaces.
\<close>

section \<open>Reading back lines that were written\<close>

definition unlines :: "string list \<Rightarrow> string" where
  "unlines ls = concat (map (\<lambda>l. l @ [nl]) ls)"

lemma unlines_simps [simp]: "unlines [] = []" "unlines (l # ls) = l @ nl # unlines ls"
  "unlines (xs @ ys) = unlines xs @ unlines ys"
  by (simp_all add: unlines_def)

lemma splitLines_unlines: "\<forall>l \<in> set ls. nl \<notin> set l \<Longrightarrow> splitLines (unlines ls) = map strip_cr ls"
  by (induction ls) (simp_all add: splitLines.simps)

text \<open>A line that survives splitting: it holds no line feed and does not end in a carriage return.\<close>

definition clean :: "string \<Rightarrow> bool" where
  "clean l \<longleftrightarrow> nl \<notin> set l \<and> \<not> ends_with_char l cr"

lemma strip_cr_clean [simp]: "clean l \<Longrightarrow> strip_cr l = l"
  by (simp add: clean_def strip_cr_def)

lemma splitLines_clean: "\<forall>l \<in> set ls. clean l \<Longrightarrow> splitLines (unlines ls) = ls"
  by (subst splitLines_unlines) (auto simp: clean_def [THEN iffD1] map_idI)

lemma clean_append [simp]: "clean (p @ q) \<longleftrightarrow> nl \<notin> set p \<and> (if q = [] then clean p else clean q)"
  by (auto simp: clean_def ends_with_char_def)

lemma clean_Cons [simp]: "clean (c # q) \<longleftrightarrow> c \<noteq> nl \<and> (if q = [] then c \<noteq> cr else clean q)"
  by (auto simp: clean_def ends_with_char_def)

lemma clean_Nil [simp]: "clean []"
  by (simp add: clean_def ends_with_char_def)

lemma not_in_to_string: "\<not> is_digit c \<Longrightarrow> c \<notin> set (to_string n)"
  using to_string_digits by blast

lemma digit_chars: "\<not> is_digit nl" "\<not> is_digit cr" "\<not> is_digit CHR ''-''" "\<not> is_digit CHR ''+''" "\<not> is_digit CHR ''@''"
  "\<not> is_digit CHR '' ''" "\<not> is_digit CHR '',''" "\<not> is_digit CHR ''%''"
  by (simp_all add: is_digit_def)

lemmas to_string_free [simp] = digit_chars [THEN not_in_to_string]

lemma clean_to_string [simp]: "clean (to_string n)"
  unfolding clean_def ends_with_char_def by (metis last_in_set to_string_free(1,2))

lemma parseUint_to_string [simp]: "n < 2 ^ 32 \<Longrightarrow> parseUint (to_string n) = n"
  using from_chars_to_string [of n 32 "[]"] by (simp add: parseUint_def)

section \<open>The range line\<close>

lemma find_str_at:
  "CHR ''@'' \<notin> set p \<Longrightarrow> find_str ''@@'' (p @ ''@@'') = Some (length p)"
  by (induction p) auto

definition rangeText :: "nat \<Rightarrow> nat \<Rightarrow> nat \<Rightarrow> nat \<Rightarrow> string" where
  "rangeText a b c d = '' -'' @ to_string a @ '','' @ to_string b @ '' +'' @ to_string c @ '','' @ to_string d @ '' ''"

lemma rangeLine_text: "rangeLine a b c d = (''@@'' @ rangeText a b c d @ ''@@'') @ [nl]"
  by (simp add: rangeLine_def rangeText_def)

lemma takeWhile_stop: "c \<notin> set p \<Longrightarrow> takeWhile (\<lambda>x. x \<noteq> c) (p @ c # q) = p"
  by (subst takeWhile_append2) auto

lemma readRange_at:
  assumes "sign \<notin> set p" "a < 2 ^ 32" "b < 2 ^ 32"
  shows "readRange (p @ sign # to_string a @ CHR '','' # to_string b @ CHR '' '' # q) 0 sign =
    Some (a, b, length p + 2 + length (to_string a) + length (to_string b))"
proof -
  have "takeWhile (\<lambda>x. x \<noteq> CHR '' '') (to_string a @ CHR '','' # to_string b @ CHR '' '' # q) = to_string a @ CHR '','' # to_string b"
    using takeWhile_stop [of "CHR '' ''" "to_string a @ CHR '','' # to_string b" q] by simp
  then show ?thesis
    using assms by (simp add: readRange_def find_char_from_def Let_def)
qed

lemma readRange_none: "sign \<notin> set (drop cursor ranges) \<Longrightarrow> readRange ranges cursor sign = None"
  by (simp add: readRange_def find_char_from_def find_char_None [THEN iffD2])

lemma readRange_old:
  assumes "a < 2 ^ 32" "b < 2 ^ 32"
  shows "readOldRanges (rangeText a b c d) 0 (0, 0) = (a, b)"
proof -
  let ?k = "1 + 2 + length (to_string a) + length (to_string b)"
  have "readRange (rangeText a b c d) 0 CHR ''-'' = Some (a, b, ?k)"
    using readRange_at [of "CHR ''-''" "'' ''" a b] assms by (simp add: rangeText_def)
  moreover have "rangeText a b c d = ('' -'' @ to_string a @ '','' @ to_string b) @ '' +'' @ to_string c @ '','' @ to_string d @ '' ''"
    by (simp add: rangeText_def)
  then have "drop ?k (rangeText a b c d) = '' +'' @ to_string c @ '','' @ to_string d @ '' ''"
    unfolding append_eq_conv_conj by simp
  then have "readRange (rangeText a b c d) ?k CHR ''-'' = None" by (intro readRange_none) simp
  ultimately show ?thesis by (simp add: readOldRanges.simps)
qed

lemma readRange_new:
  assumes "c < 2 ^ 32" "d < 2 ^ 32"
  shows "\<exists>k. readRange (rangeText a b c d) 0 CHR ''+'' = Some (c, d, k)"
  using readRange_at [of "CHR ''+''" "'' -'' @ to_string a @ '','' @ to_string b @ '' ''" c d "[]"] assms
  by (simp add: rangeText_def)

lemma startHunk_range:
  assumes "a < 2 ^ 32" "b < 2 ^ 32" "c < 2 ^ 32" "d < 2 ^ 32"
  shows "parseLine opts st (''@@'' @ rangeText a b c d @ ''@@'') =
    (if ps_inFile st then ((upd_file (\<lambda>f. f\<lparr>df_hunks := df_hunks f @ [\<lparr>dh_oldStart = a, dh_oldCount = b, dh_newStart = c,
        dh_newCount = d, dh_heading = [], dh_lines = []\<rparr>]\<rparr>) st)\<lparr>ps_inHunk := True, ps_oldLine := a, ps_newLine := c\<rparr>, False)
     else (st, False))"
proof -
  have "CHR ''@'' \<notin> set (rangeText a b c d)" by (simp add: rangeText_def)
  then have closing: "find_str_from ''@@'' (''@@'' @ rangeText a b c d @ ''@@'') 2 = Some (2 + length (rangeText a b c d))"
    by (simp add: find_str_from_def find_str_at)
  obtain k where new: "readRange (rangeText a b c d) 0 CHR ''+'' = Some (c, d, k)" using readRange_new assms by blast
  have old: "readOldRanges (rangeText a b c d) 0 (0, 0) = (a, b)"
    using readRange_old [OF assms(1,2)] .
  have "extendedHeader (''@@'' @ rangeText a b c d @ ''@@'') = None" by (simp add: extendedHeader_def)
  then show ?thesis
    using closing old new by (simp add: parseLine_def startHunk_def substr_def)
qed


section \<open>The body lines\<close>

definition bodyText :: "EmittedLine \<Rightarrow> string" where
  "bodyText e = (if fst e = CHR 0x5C then noNewlineText else fst e # snd e)"

lemma emittedLine_text: "emittedLine e = bodyText e @ [nl]"
  by (simp add: emittedLine_def bodyText_def)

lemma concat_emittedLine: "concat (map emittedLine body) = unlines (map bodyText body)"
  by (induction body) (simp_all add: emittedLine_text)

text \<open>
  A body line that reads back as itself: one of the four markers, a clean text that is not
  clipped, and not a text that makes the line look like the file headers.
\<close>

definition body_ok :: "DiffOptions \<Rightarrow> EmittedLine \<Rightarrow> bool" where
  "body_ok opts e \<longleftrightarrow> fst e \<in> {CHR '' '', CHR ''+'', CHR ''-'', CHR 0x5C} \<and> clean (snd e) \<and>
     length (snd e) \<le> do_maxLineLength opts \<and>
     (fst e = CHR ''+'' \<longrightarrow> \<not> starts_with (snd e) ''++ '') \<and> (fst e = CHR ''-'' \<longrightarrow> \<not> starts_with (snd e) ''-- '')"

fun numberLines :: "nat \<Rightarrow> nat \<Rightarrow> EmittedLine list \<Rightarrow> DiffLine list" where
  "numberLines old new [] = []"
| "numberLines old new ((m, t) # es) =
     (if m = CHR '' '' then \<lparr>dl_kind = Context, dl_oldLine = old, dl_newLine = new, dl_text = t\<rparr> # numberLines (u32 (old + 1)) (u32 (new + 1)) es
      else if m = CHR ''+'' then \<lparr>dl_kind = Added, dl_oldLine = 0, dl_newLine = new, dl_text = t\<rparr> # numberLines old (u32 (new + 1)) es
      else if m = CHR ''-'' then \<lparr>dl_kind = Removed, dl_oldLine = old, dl_newLine = 0, dl_text = t\<rparr> # numberLines (u32 (old + 1)) new es
      else \<lparr>dl_kind = NoNewlineMarker, dl_oldLine = 0, dl_newLine = 0, dl_text = noNewlineText\<rparr> # numberLines old new es)"

definition markerCount :: "char \<Rightarrow> EmittedLine list \<Rightarrow> nat" where
  "markerCount m body = length (filter (\<lambda>e. fst e = m) body)"

lemma upd_last_snoc [simp]: "upd_last f (xs @ [x]) = xs @ [f x]"
  by (simp add: upd_last_def)

lemma parseLine_markers:
  assumes "ps_inFile st" "ps_inHunk st"
  shows "parseLine opts st (CHR '' '' # t) = bodyLine opts st (CHR '' '' # t)"
    "\<not> starts_with t ''++ '' \<Longrightarrow> parseLine opts st (CHR ''+'' # t) = bodyLine opts st (CHR ''+'' # t)"
    "\<not> starts_with t ''-- '' \<Longrightarrow> parseLine opts st (CHR ''-'' # t) = bodyLine opts st (CHR ''-'' # t)"
    "parseLine opts st (CHR 0x5C # t) = bodyLine opts st (CHR 0x5C # t)"
  using assms by (simp_all add: parseLine_def extendedHeader_def)

lemma bodyLine_markers:
  assumes "length t \<le> do_maxLineLength opts"
  shows "bodyLine opts st (CHR '' '' # t) = ((upd_file (pushLine \<lparr>dl_kind = Context, dl_oldLine = ps_oldLine st,
      dl_newLine = ps_newLine st, dl_text = t\<rparr>) st)\<lparr>ps_oldLine := u32 (ps_oldLine st + 1), ps_newLine := u32 (ps_newLine st + 1)\<rparr>, False)"
    "bodyLine opts st (CHR ''+'' # t) = ((upd_file (\<lambda>f. pushLine \<lparr>dl_kind = Added, dl_oldLine = 0,
      dl_newLine = ps_newLine st, dl_text = t\<rparr> (f\<lparr>df_addedLines := u32 (df_addedLines f + 1)\<rparr>)) st)\<lparr>ps_newLine := u32 (ps_newLine st + 1)\<rparr>, False)"
    "bodyLine opts st (CHR ''-'' # t) = ((upd_file (\<lambda>f. pushLine \<lparr>dl_kind = Removed, dl_oldLine = ps_oldLine st,
      dl_newLine = 0, dl_text = t\<rparr> (f\<lparr>df_removedLines := u32 (df_removedLines f + 1)\<rparr>)) st)\<lparr>ps_oldLine := u32 (ps_oldLine st + 1)\<rparr>, False)"
  using assms by (simp_all add: bodyLine_def new_line_def)

lemma bodyLine_noNewline:
  "bodyLine opts st noNewlineText = (upd_file (pushLine \<lparr>dl_kind = NoNewlineMarker, dl_oldLine = 0,
      dl_newLine = 0, dl_text = noNewlineText\<rparr>) st, False)"
  by (simp add: bodyLine_def noNewlineText_def new_line_def)

text \<open>One body line on an open hunk.\<close>

definition open_hunk :: "ParseState \<Rightarrow> DiffFile list \<Rightarrow> DiffFile \<Rightarrow> DiffHunk list \<Rightarrow> DiffHunk \<Rightarrow> bool" where
  "open_hunk st fs f hs h \<longleftrightarrow> ps_inFile st \<and> ps_inHunk st \<and> ps_files st = fs @ [f] \<and> df_hunks f = hs @ [h]"

text \<open>What a well-formed body adds to an open hunk.\<close>

lemma parseLines_body:
  assumes "\<forall>e \<in> set body. body_ok opts e" and "open_hunk st fs f hs h"
    and "df_addedLines f < 2 ^ 32" "df_removedLines f < 2 ^ 32"
  shows "open_hunk (parseLines opts st (map bodyText body)) fs
    (f\<lparr>df_hunks := hs @ [h\<lparr>dh_lines := dh_lines h @ numberLines (ps_oldLine st) (ps_newLine st) body\<rparr>],
      df_addedLines := u32 (df_addedLines f + markerCount CHR ''+'' body),
      df_removedLines := u32 (df_removedLines f + markerCount CHR ''-'' body)\<rparr>)
    hs (h\<lparr>dh_lines := dh_lines h @ numberLines (ps_oldLine st) (ps_newLine st) body\<rparr>)"
  using assms
proof (induction body arbitrary: st f h)
  case Nil
  then show ?case by (simp add: markerCount_def open_hunk_def)
next
  case (Cons e es)
  obtain m t where e: "e = (m, t)" by (cases e)
  have ok: "body_ok opts (m, t)" and es: "\<forall>e \<in> set es. body_ok opts e" using Cons.prems e by auto
  have st: "ps_inFile st" "ps_inHunk st" "ps_files st = fs @ [f]" "df_hunks f = hs @ [h]"
    using Cons.prems(2) by (simp_all add: open_hunk_def)
  have len: "length t \<le> do_maxLineLength opts" using ok by (simp add: body_ok_def)
  note line = parseLine_markers [OF st(1,2)] bodyLine_markers [OF len] bodyLine_noNewline
  have nn: "noNewlineText = CHR 0x5C # drop 1 noNewlineText" by (simp add: noNewlineText_def)
  from ok consider "m = CHR '' ''" | "m = CHR ''+''" "\<not> starts_with t ''++ ''" | "m = CHR ''-''" "\<not> starts_with t ''-- ''"
    | "m = CHR 0x5C" by (auto simp: body_ok_def)
  then show ?case
  proof cases
    case 1
    then show ?thesis
      using Cons.IH [OF es, of "fst (bodyLine opts st (CHR '' '' # t))"] st Cons.prems(3,4)
      by (simp add: e bodyText_def line open_hunk_def pushLine_def markerCount_def)
  next
    case 2
    then show ?thesis
      using Cons.IH [OF es, of "fst (bodyLine opts st (CHR ''+'' # t))"] st Cons.prems(3,4)
      by (simp add: e bodyText_def line open_hunk_def pushLine_def markerCount_def)
  next
    case 3
    then show ?thesis
      using Cons.IH [OF es, of "fst (bodyLine opts st (CHR ''-'' # t))"] st Cons.prems(3,4)
      by (simp add: e bodyText_def line open_hunk_def pushLine_def markerCount_def)
  next
    case 4
    have "parseLine opts st noNewlineText = bodyLine opts st noNewlineText"
      by (subst (1 2) nn) (rule line)
    with 4 show ?thesis
      using Cons.IH [OF es, of "fst (bodyLine opts st noNewlineText)"] st Cons.prems(3,4)
      by (simp add: e bodyText_def line(8) open_hunk_def pushLine_def markerCount_def)
  qed
qed


section \<open>The file headers\<close>

lemma parseLines_append: "parseLines opts st (xs @ ys) = parseLines opts (parseLines opts st xs) ys"
proof (induction opts st xs rule: parseLines.induct)
  case (2 opts st line lines)
  obtain st' again where p: "parseLine opts st line = (st', again)" by force
  have "parseLines opts st (line # zs) = (if again then parseLines opts st' (line # zs) else parseLines opts st' zs)" for zs
    by (subst parseLines.simps) (simp add: p del: parseLines.simps)
  with 2 [OF p [symmetric]] show ?case by (cases again) (simp_all del: parseLines.simps)
qed simp

text \<open>The state after the headers of one file: one file, no hunk.\<close>

definition in_header :: "DiffFile \<Rightarrow> ParseState" where
  "in_header f = \<lparr>ps_files = [f], ps_inFile = True, ps_inHunk = False, ps_oldLine = 0, ps_newLine = 0\<rparr>"

definition fresh_file :: "DiffFile \<Rightarrow> bool" where
  "fresh_file f \<longleftrightarrow> df_hunks f = [] \<and> df_addedLines f = 0 \<and> df_removedLines f = 0"

lemma parse_diff_git: "\<exists>f. parseLine opts new_state (''diff --git '' @ s) = (in_header f, False) \<and> fresh_file f \<and> df_kind f = FileModified"
  by (simp add: parseLine_def startFile_def Let_def new_state_def in_header_def fresh_file_def new_file_def split: option.splits)

lemma parse_header:
  "extendedHeader line = Some change \<Longrightarrow> \<not> starts_with line ''diff --git '' \<Longrightarrow>
     parseLine opts (in_header f) line = (in_header (change f), False)"
  by (simp add: parseLine_def in_header_def upd_last_def)

lemma unquotePath_ab [simp]: "unquotePath (CHR ''a'' # s) = CHR ''a'' # s" "unquotePath (CHR ''b'' # s) = CHR ''b'' # s"
  "unquotePath (CHR ''/'' # s) = CHR ''/'' # s"
  by (simp_all add: unquotePath_def)

lemma stripPathPrefix_ab [simp]:
  "p \<noteq> [] \<Longrightarrow> stripPathPrefix (CHR ''a'' # CHR ''/'' # p) = p" "p \<noteq> [] \<Longrightarrow> stripPathPrefix (CHR ''b'' # CHR ''/'' # p) = p"
  by (simp_all add: stripPathPrefix_def)

lemma in_header_eq [simp]: "in_header f = in_header g \<longleftrightarrow> f = g"
  by (simp add: in_header_def)

lemma parse_old_path:
  assumes "p \<noteq> []"
  shows "parseLine opts (in_header f) (''--- a/'' @ p) = (in_header (f\<lparr>df_oldPath := p\<rparr>), False)"
proof -
  have "extendedHeader (''--- a/'' @ p) = Some (oldPathLine (''--- a/'' @ p))" by (simp add: extendedHeader_def)
  from parse_header [OF this] show ?thesis using assms by (simp add: oldPathLine_def)
qed

lemma parse_new_path:
  assumes "p \<noteq> []"
  shows "parseLine opts (in_header f) (''+++ b/'' @ p) = (in_header (f\<lparr>df_newPath := p\<rparr>), False)"
proof -
  have "extendedHeader (''+++ b/'' @ p) = Some (newPathLine (''+++ b/'' @ p))" by (simp add: extendedHeader_def)
  from parse_header [OF this] show ?thesis using assms by (simp add: newPathLine_def)
qed

lemma parse_no_path: "parseLine opts (in_header f) ''--- /dev/null'' = (in_header f, False)"
proof -
  have "extendedHeader ''--- /dev/null'' = Some (oldPathLine ''--- /dev/null'')" by (simp add: extendedHeader_def)
  from parse_header [OF this] show ?thesis by (simp add: oldPathLine_def stripPathPrefix_def)
qed

lemma parse_new_file_mode:
  "parseLine opts (in_header f) (''new file mode '' @ m) = (in_header (f\<lparr>df_newMode := m, df_kind := FileAdded\<rparr>), False)"
  by (simp add: parse_header extendedHeader_def)

lemmas parse_headers = parse_old_path parse_new_path parse_no_path parse_new_file_mode

definition renameLines :: "DiffFile \<Rightarrow> string \<Rightarrow> string \<Rightarrow> string list" where
  "renameLines file oldPath newPath =
     [''similarity index '' @ to_string_int (df_similarity file) @ ''%'',
      (if df_kind file = FileRenamed then ''rename from '' else ''copy from '') @ oldPath,
      (if df_kind file = FileRenamed then ''rename to '' else ''copy to '') @ newPath]"

definition headerLines :: "DiffFile \<Rightarrow> string \<Rightarrow> string \<Rightarrow> bool \<Rightarrow> string list" where
  "headerLines file oldPath newPath unstaging =
     (let isRenameOrCopy = (df_kind file = FileRenamed \<or> df_kind file = FileCopied) \<and> oldPath \<noteq> newPath;
          headerOldPath = (if unstaging \<and> isRenameOrCopy then newPath else oldPath)
      in if \<not> unstaging \<and> df_kind file = FileAdded
         then [''diff --git a/'' @ newPath @ '' b/'' @ newPath,
               ''new file mode '' @ (if df_newMode file = [] then ''100644'' else df_newMode file),
               ''--- /dev/null'', ''+++ b/'' @ newPath]
         else [''diff --git a/'' @ headerOldPath @ '' b/'' @ newPath] @
              (if isRenameOrCopy \<and> \<not> unstaging then renameLines file oldPath newPath else []) @
              [''--- a/'' @ headerOldPath, ''+++ b/'' @ newPath])"

lemma patchHeader_unlines: "patchHeader file oldPath newPath unstaging = unlines (headerLines file oldPath newPath unstaging)"
  by (auto simp: patchHeader_def headerLines_def renameLines_def Let_def)

definition path_ok :: "string \<Rightarrow> bool" where
  "path_ok p \<longleftrightarrow> p \<noteq> [] \<and> clean p"

lemma headerLines_clean:
  assumes "path_ok oldPath" "path_ok newPath" "clean (df_newMode file)"
  shows "\<forall>l \<in> set (headerLines file oldPath newPath unstaging). clean l"
  using assms by (auto simp: headerLines_def renameLines_def Let_def path_ok_def to_string_int_def clean_def [THEN iffD1])

lemma parse_rename:
  "\<exists>f'. parseLines opts (in_header f) (renameLines file oldPath newPath) = in_header f' \<and> (fresh_file f \<longrightarrow> fresh_file f') \<and>
     df_kind f' = (if df_kind file = FileRenamed then FileRenamed else FileCopied)"
  by (cases "df_kind file = FileRenamed")
    (auto simp: renameLines_def parse_header extendedHeader_def fresh_file_def)

text \<open>The header a patch carries, read back: the paths, and the kind of change the header names.\<close>

lemma parse_headerLines:
  assumes "path_ok oldPath" "path_ok newPath"
  shows "\<exists>f. parseLines opts new_state (headerLines file oldPath newPath unstaging) = in_header f \<and> fresh_file f \<and>
    df_newPath f = newPath \<and>
    (\<not> unstaging \<and> df_kind file \<noteq> FileAdded \<longrightarrow> df_oldPath f = oldPath) \<and>
    (\<not> unstaging \<and> df_kind file = FileAdded \<longrightarrow> df_kind f = FileAdded) \<and>
    (\<not> unstaging \<and> df_kind file \<in> {FileRenamed, FileCopied} \<and> oldPath \<noteq> newPath \<longrightarrow> df_kind f = df_kind file) \<and>
    (unstaging \<longrightarrow> df_kind f = FileModified)"
proof -
  have ne: "oldPath \<noteq> []" "newPath \<noteq> []" using assms by (simp_all add: path_ok_def)
  let ?rc = "(df_kind file = FileRenamed \<or> df_kind file = FileCopied) \<and> oldPath \<noteq> newPath"
  show ?thesis
  proof (cases "\<not> unstaging \<and> df_kind file = FileAdded")
    case True
    obtain f where f: "parseLine opts new_state (''diff --git a/'' @ newPath @ '' b/'' @ newPath) = (in_header f, False)" "fresh_file f"
      using parse_diff_git [of opts "''a/'' @ newPath @ '' b/'' @ newPath"] by auto
    then show ?thesis
      using True ne by (auto simp: headerLines_def parse_headers fresh_file_def simp del: append_Cons append.simps)
  next
    case False
    let ?old = "if unstaging \<and> ?rc then newPath else oldPath"
    obtain f where f: "parseLine opts new_state (''diff --git a/'' @ ?old @ '' b/'' @ newPath) = (in_header f, False)"
      "fresh_file f" "df_kind f = FileModified"
      using parse_diff_git [of opts "''a/'' @ ?old @ '' b/'' @ newPath"] by auto
    have "\<exists>f'. parseLines opts (in_header f) (if ?rc \<and> \<not> unstaging then renameLines file oldPath newPath else []) = in_header f' \<and>
      fresh_file f' \<and> df_kind f' = (if ?rc \<and> \<not> unstaging then df_kind file else FileModified)"
      using parse_rename [of opts f "file" oldPath newPath] f(2,3) by (cases "?rc \<and> \<not> unstaging") auto
    then obtain f' where f': "parseLines opts (in_header f) (if ?rc \<and> \<not> unstaging then renameLines file oldPath newPath else []) = in_header f'"
      "fresh_file f'" "df_kind f' = (if ?rc \<and> \<not> unstaging then df_kind file else FileModified)" by blast
    have "parseLines opts (in_header f') [''--- a/'' @ ?old, ''+++ b/'' @ newPath] = in_header (f'\<lparr>df_oldPath := ?old, df_newPath := newPath\<rparr>)"
      using ne by (simp add: parse_headers del: append_Cons append.simps)
    moreover have "parseLines opts new_state [''diff --git a/'' @ ?old @ '' b/'' @ newPath] = in_header f"
      by (subst parseLines.simps) (simp only: f(1) prod.case if_False parseLines.simps(1))
    moreover have "headerLines file oldPath newPath unstaging = [''diff --git a/'' @ ?old @ '' b/'' @ newPath] @
        (if ?rc \<and> \<not> unstaging then renameLines file oldPath newPath else []) @ [''--- a/'' @ ?old, ''+++ b/'' @ newPath]"
      unfolding headerLines_def Let_def using False by (simp only: if_False)
    ultimately have "parseLines opts new_state (headerLines file oldPath newPath unstaging) =
        in_header (f'\<lparr>df_oldPath := ?old, df_newPath := newPath\<rparr>)"
      using f'(1) by (simp only: parseLines_append)
    then show ?thesis using f' False by (auto simp: fresh_file_def)
  qed
qed


section \<open>A whole patch, read back\<close>

text \<open>The patch text the two builders share: a header, a range line and a body.\<close>

definition patchText :: "DiffFile \<Rightarrow> bool \<Rightarrow> nat \<Rightarrow> nat \<Rightarrow> nat \<Rightarrow> nat \<Rightarrow> EmittedLine list \<Rightarrow> string" where
  "patchText file unstaging a b c d body =
     patchHeader file (fst (patchPaths file)) (snd (patchPaths file)) unstaging @ rangeLine a b c d @ concat (map emittedLine body)"

definition file_ok :: "DiffFile \<Rightarrow> bool" where
  "file_ok file \<longleftrightarrow> path_ok (fst (patchPaths file)) \<and> path_ok (snd (patchPaths file)) \<and> clean (df_newMode file)"

definition hunk_of :: "nat \<Rightarrow> nat \<Rightarrow> nat \<Rightarrow> nat \<Rightarrow> EmittedLine list \<Rightarrow> DiffHunk" where
  "hunk_of a b c d body = \<lparr>dh_oldStart = a, dh_oldCount = b, dh_newStart = c, dh_newCount = d, dh_heading = [],
     dh_lines = numberLines a c body\<rparr>"

text \<open>What a patch reads back to: one file with the patch's paths, and one hunk.\<close>

definition reads_as :: "DiffFile \<Rightarrow> bool \<Rightarrow> DiffHunk \<Rightarrow> ParsedDiff \<Rightarrow> bool" where
  "reads_as file unstaging hunk parsed \<longleftrightarrow> \<not> pd_truncated parsed \<and> (\<exists>f. pd_files parsed = [f] \<and> df_hunks f = [hunk] \<and>
     df_newPath f = snd (patchPaths file) \<and>
     (\<not> unstaging \<and> df_kind file \<noteq> FileAdded \<longrightarrow> df_oldPath f = fst (patchPaths file)) \<and>
     (\<not> unstaging \<and> df_kind file = FileAdded \<longrightarrow> df_kind f = FileAdded) \<and>
     (\<not> unstaging \<and> df_kind file \<in> {FileRenamed, FileCopied} \<and> fst (patchPaths file) \<noteq> snd (patchPaths file) \<longrightarrow>
        df_kind f = df_kind file) \<and>
     (unstaging \<longrightarrow> df_kind f = FileModified))"

lemma bodyText_clean: "body_ok opts e \<Longrightarrow> clean (bodyText e)"
  by (auto simp: body_ok_def bodyText_def noNewlineText_def)

lemma rangeText_clean: "clean (''@@'' @ rangeText a b c d @ ''@@'')"
  by (simp add: rangeText_def)

text \<open>The parser's state behind the last line of a patch, and the lines of the patch's text.\<close>

definition patchLines :: "DiffFile \<Rightarrow> bool \<Rightarrow> nat \<Rightarrow> nat \<Rightarrow> nat \<Rightarrow> nat \<Rightarrow> EmittedLine list \<Rightarrow> string list" where
  "patchLines file unstaging a b c d body = headerLines file (fst (patchPaths file)) (snd (patchPaths file)) unstaging @
     (''@@'' @ rangeText a b c d @ ''@@'') # map bodyText body"

lemma patchText_lines: "patchText file unstaging a b c d body = unlines (patchLines file unstaging a b c d body)"
  by (simp only: patchText_def patchLines_def patchHeader_unlines rangeLine_text concat_emittedLine unlines_simps
      append_assoc append_Cons append_Nil)

lemma patchLines_clean:
  assumes "file_ok file" and "\<forall>e \<in> set body. clean (bodyText e)"
  shows "\<forall>l \<in> set (patchLines file unstaging a b c d body). clean l"
  using headerLines_clean [of "fst (patchPaths file)" "snd (patchPaths file)" "file" unstaging] assms rangeText_clean [of a b c d]
  by (auto simp: file_ok_def patchLines_def)

lemma parse_patchLines:
  assumes fok: "file_ok file" and body: "\<forall>e \<in> set body. body_ok opts e"
    and ranges: "a < 2 ^ 32" "b < 2 ^ 32" "c < 2 ^ 32" "d < 2 ^ 32"
  obtains f where "open_hunk (parseLines opts new_state (patchLines file unstaging a b c d body)) [] f [] (hunk_of a b c d body)"
    "df_removedLines f = u32 (markerCount CHR ''-'' body)" "df_newPath f = snd (patchPaths file)"
    "\<not> unstaging \<and> df_kind file \<noteq> FileAdded \<longrightarrow> df_oldPath f = fst (patchPaths file)"
    "\<not> unstaging \<and> df_kind file = FileAdded \<longrightarrow> df_kind f = FileAdded"
    "\<not> unstaging \<and> df_kind file \<in> {FileRenamed, FileCopied} \<and> fst (patchPaths file) \<noteq> snd (patchPaths file) \<longrightarrow>
       df_kind f = df_kind file"
    "unstaging \<longrightarrow> df_kind f = FileModified"
proof -
  obtain old new where paths: "patchPaths file = (old, new)" by force
  let ?header = "headerLines file old new unstaging" and ?range = "''@@'' @ rangeText a b c d @ ''@@''"
  obtain f where f: "parseLines opts new_state ?header = in_header f" "fresh_file f" "df_newPath f = new"
    "\<not> unstaging \<and> df_kind file \<noteq> FileAdded \<longrightarrow> df_oldPath f = old"
    "\<not> unstaging \<and> df_kind file = FileAdded \<longrightarrow> df_kind f = FileAdded"
    "\<not> unstaging \<and> df_kind file \<in> {FileRenamed, FileCopied} \<and> old \<noteq> new \<longrightarrow> df_kind f = df_kind file"
    "unstaging \<longrightarrow> df_kind f = FileModified"
    using parse_headerLines [of old new opts "file" unstaging] fok by (auto simp: file_ok_def paths)
  let ?h = "\<lparr>dh_oldStart = a, dh_oldCount = b, dh_newStart = c, dh_newCount = d, dh_heading = [], dh_lines = []\<rparr>"
  let ?f = "f\<lparr>df_hunks := df_hunks f @ [?h]\<rparr>"
  let ?st = "\<lparr>ps_files = [?f], ps_inFile = True, ps_inHunk = True, ps_oldLine = a, ps_newLine = c\<rparr>"
  let ?g = "f\<lparr>df_hunks := [hunk_of a b c d body], df_addedLines := u32 (markerCount CHR ''+'' body),
      df_removedLines := u32 (markerCount CHR ''-'' body)\<rparr>"
  have range: "parseLine opts (in_header f) ?range = (?st, False)"
    unfolding startHunk_range [OF ranges] by (simp add: in_header_def upd_last_def)
  have "open_hunk ?st [] ?f [] ?h" using f(2) by (simp add: open_hunk_def fresh_file_def)
  from parseLines_body [OF body this] have "open_hunk (parseLines opts ?st (map bodyText body)) [] ?g [] (hunk_of a b c d body)"
    using f(2) by (simp add: fresh_file_def hunk_of_def)
  moreover have "parseLines opts new_state (patchLines file unstaging a b c d body) = parseLines opts ?st (map bodyText body)"
    unfolding patchLines_def paths fst_conv snd_conv parseLines_append f(1)
    by (subst parseLines.simps) (simp only: range prod.case if_False)
  ultimately show thesis using f(3-7) paths by (intro that [of ?g]) simp_all
qed

lemma parse_patchText:
  assumes fok: "file_ok file" and body: "\<forall>e \<in> set body. body_ok opts e"
    and ranges: "a < 2 ^ 32" "b < 2 ^ 32" "c < 2 ^ 32" "d < 2 ^ 32"
    and size: "length (patchText file unstaging a b c d body) \<le> do_maxBytes opts"
  shows "reads_as file unstaging (hunk_of a b c d body) (parse opts (patchText file unstaging a b c d body))"
proof -
  have split: "splitLines (patchText file unstaging a b c d body) = patchLines file unstaging a b c d body"
    unfolding patchText_lines using patchLines_clean [OF fok] body bodyText_clean by (intro splitLines_clean) blast
  show ?thesis
    by (rule parse_patchLines [OF fok body ranges, of unstaging])
      (use size in \<open>simp add: parse_def reads_as_def split open_hunk_def\<close>)
qed

section \<open>Patches for a whole hunk\<close>

definition marker_of :: "DiffLine \<Rightarrow> char" where
  "marker_of l = (case dl_kind l of Context \<Rightarrow> CHR '' '' | Added \<Rightarrow> CHR ''+'' | Removed \<Rightarrow> CHR ''-'' | NoNewlineMarker \<Rightarrow> CHR 0x5C)"

definition whole_body :: "DiffLine list \<Rightarrow> EmittedLine list" where
  "whole_body ls = map (\<lambda>l. (marker_of l, dl_text l)) ls"

lemma hunkLine_emitted: "hunkLine False l = emittedLine (marker_of l, dl_text l)"
  by (simp add: hunkLine_def emittedLine_def marker_of_def split: DiffLineKind.splits)

lemma hunkCounts_emitted: "hunkCounts ls = emittedCounts (whole_body ls)"
proof -
  have "foldl countLine c ls = foldl countEmitted c (whole_body ls)" for c
    by (induction ls arbitrary: c)
      (auto simp: whole_body_def countLine_def countEmitted_def marker_of_def split: DiffLineKind.splits)
  then show ?thesis by (simp add: hunkCounts_def emittedCounts_def)
qed

lemma buildHunkPatch_text:
  "buildHunkPatch file hunk False unstaging = patchText file unstaging (dh_oldStart hunk)
     (fst (hunkCounts (dh_lines hunk))) (dh_newStart hunk) (snd (hunkCounts (dh_lines hunk))) (whole_body (dh_lines hunk))"
proof -
  have "concat (map (hunkLine False) ls) = concat (map emittedLine (whole_body ls))" for ls
    by (induction ls) (simp_all add: whole_body_def hunkLine_emitted)
  then show ?thesis
    by (simp add: buildHunkPatch_def patchText_def split_beta Let_def)
qed

text \<open>The counts of a range are the lengths of the two sides.\<close>

definition old_lines :: "EmittedLine list \<Rightarrow> string list" where
  "old_lines body = map snd (filter (\<lambda>e. fst e = CHR '' '' \<or> fst e = CHR ''-'') body)"

definition new_lines :: "EmittedLine list \<Rightarrow> string list" where
  "new_lines body = map snd (filter (\<lambda>e. fst e = CHR '' '' \<or> fst e = CHR ''+'') body)"

lemma emittedCounts_sides:
  "emittedCounts body = (u32 (length (old_lines body)), u32 (length (new_lines body)))"
proof -
  have "foldl countEmitted (u32 a, u32 b) body = (u32 (a + length (old_lines body)), u32 (b + length (new_lines body)))" for a b
  proof (induction body arbitrary: a b)
    case (Cons e es)
    have "u32 (Suc (u32 n)) = u32 (Suc n)" for n using u32_add_u32 [of n 1] by simp
    with Cons [of "Suc a" "Suc b"] Cons [of "Suc a" b] Cons [of a "Suc b"] Cons [of a b] show ?case
      by (auto simp: countEmitted_def old_lines_def new_lines_def)
  qed (simp add: old_lines_def new_lines_def)
  from this [of 0 0] show ?thesis by (simp add: emittedCounts_def)
qed

lemma emittedCounts_less: "fst (emittedCounts body) < 2 ^ 32" "snd (emittedCounts body) < 2 ^ 32"
  by (simp_all add: emittedCounts_sides)

text \<open>A parsed hunk's kinds and texts, and its two sides as lines of text.\<close>

definition line_view :: "DiffLine \<Rightarrow> DiffLineKind \<times> string" where
  "line_view l = (dl_kind l, if dl_kind l = NoNewlineMarker then noNewlineText else dl_text l)"

lemma numberLines_view: "map line_view (numberLines a c (whole_body ls)) = map line_view ls"
  by (induction ls arbitrary: a c) (auto simp: whole_body_def marker_of_def line_view_def split: DiffLineKind.splits)

definition hunk_old :: "DiffHunk \<Rightarrow> string list" where
  "hunk_old h = map dl_text (filter (\<lambda>l. dl_kind l \<in> {Context, Removed}) (dh_lines h))"

definition hunk_new :: "DiffHunk \<Rightarrow> string list" where
  "hunk_new h = map dl_text (filter (\<lambda>l. dl_kind l \<in> {Context, Added}) (dh_lines h))"

lemma sides_numberLines:
  "map dl_text (filter (\<lambda>l. dl_kind l \<in> {Context, Removed}) (numberLines a c body)) = old_lines body"
  "map dl_text (filter (\<lambda>l. dl_kind l \<in> {Context, Added}) (numberLines a c body)) = new_lines body"
  by (induction a c body rule: numberLines.induct) (auto simp: old_lines_def new_lines_def)

lemma hunk_of_sides [simp]:
  "hunk_old (hunk_of a b c d body) = old_lines body" "hunk_new (hunk_of a b c d body) = new_lines body"
  "dh_oldCount (hunk_of a b c d body) = b" "dh_newCount (hunk_of a b c d body) = d"
  using sides_numberLines [of a c body] by (simp_all add: hunk_old_def hunk_new_def hunk_of_def)

lemma whole_body_sides:
  "old_lines (whole_body ls) = map dl_text (filter (\<lambda>l. dl_kind l \<in> {Context, Removed}) ls)"
  "new_lines (whole_body ls) = map dl_text (filter (\<lambda>l. dl_kind l \<in> {Context, Added}) ls)"
  by (induction ls) (auto simp: whole_body_def old_lines_def new_lines_def marker_of_def split: DiffLineKind.splits)

definition hunk_ok :: "DiffOptions \<Rightarrow> DiffHunk \<Rightarrow> bool" where
  "hunk_ok opts h \<longleftrightarrow> dh_oldStart h < 2 ^ 32 \<and> dh_newStart h < 2 ^ 32 \<and> (\<forall>e \<in> set (whole_body (dh_lines h)). body_ok opts e)"


text \<open>
  A hunk patch says what the hunk says: reading back the patch written for one hunk gives one
  file with the same paths (and the same kind, where the header names it) and one hunk with the
  same start lines, the same kinds and texts in the same order, and counts equal to the lengths
  of its two sides. The hunk's lines are ones a diff can carry: no line feeds, no trailing
  carriage return, within the length cap, and none that looks like a file header.
\<close>

theorem hunk_patch_reads_back:
  assumes "file_ok file" and "hunk_ok opts hunk"
    and "length (buildHunkPatch file hunk False unstaging) \<le> do_maxBytes opts"
  shows "\<exists>h. reads_as file unstaging h (parse opts (buildHunkPatch file hunk False unstaging)) \<and>
    dh_oldStart h = dh_oldStart hunk \<and> dh_newStart h = dh_newStart hunk \<and>
    dh_oldCount h = u32 (length (hunk_old hunk)) \<and> dh_newCount h = u32 (length (hunk_new hunk)) \<and>
    map line_view (dh_lines h) = map line_view (dh_lines hunk)"
proof -
  let ?body = "whole_body (dh_lines hunk)"
  have sides: "length (old_lines ?body) = length (hunk_old hunk)" "length (new_lines ?body) = length (hunk_new hunk)"
    by (simp_all only: whole_body_sides hunk_old_def hunk_new_def)
  let ?h = "hunk_of (dh_oldStart hunk) (fst (hunkCounts (dh_lines hunk))) (dh_newStart hunk) (snd (hunkCounts (dh_lines hunk))) ?body"
  have "reads_as file unstaging ?h (parse opts (buildHunkPatch file hunk False unstaging))"
    unfolding buildHunkPatch_text
    by (rule parse_patchText) (use assms in \<open>auto simp: hunk_ok_def hunkCounts_emitted emittedCounts_sides buildHunkPatch_text\<close>)
  then show ?thesis
    by (intro exI [of _ ?h])
      (simp add: hunk_of_def hunkCounts_emitted emittedCounts_sides sides numberLines_view)
qed

section \<open>Patches for selected lines\<close>

text \<open>What the index holds after staging the selection, and after unstaging it.\<close>

fun staged_lines :: "bool list \<Rightarrow> nat \<Rightarrow> DiffLine list \<Rightarrow> string list" where
  "staged_lines sel i [] = []"
| "staged_lines sel i (l # ls) =
     (if dl_kind l = Context \<or> dl_kind l = Added \<and> isSelected sel i \<or> dl_kind l = Removed \<and> \<not> isSelected sel i
      then [dl_text l] else []) @ staged_lines sel (Suc i) ls"

fun unstaged_lines :: "bool list \<Rightarrow> nat \<Rightarrow> DiffLine list \<Rightarrow> string list" where
  "unstaged_lines sel i [] = []"
| "unstaged_lines sel i (l # ls) =
     (if dl_kind l = Context \<or> dl_kind l = Added \<and> \<not> isSelected sel i \<or> dl_kind l = Removed \<and> isSelected sel i
      then [dl_text l] else []) @ unstaged_lines sel (Suc i) ls"

lemma selectionBody_stage:
  "old_lines (selectionBody False sel i prev ls) = map dl_text (filter (\<lambda>l. dl_kind l \<in> {Context, Removed}) ls) \<and>
   new_lines (selectionBody False sel i prev ls) = staged_lines sel i ls"
  by (induction ls arbitrary: i prev) (auto simp: old_lines_def new_lines_def split: DiffLineKind.splits)

lemma selectionBody_unstage:
  "new_lines (selectionBody True sel i prev ls) = map dl_text (filter (\<lambda>l. dl_kind l \<in> {Context, Added}) ls) \<and>
   old_lines (selectionBody True sel i prev ls) = unstaged_lines sel i ls"
  by (induction ls arbitrary: i prev) (auto simp: old_lines_def new_lines_def split: DiffLineKind.splits)

lemma selectionBody_ok:
  "\<forall>e \<in> set (whole_body ls). body_ok opts e \<Longrightarrow> \<forall>e \<in> set (selectionBody u sel i prev ls). body_ok opts e"
  by (induction ls arbitrary: i prev)
    (auto simp: whole_body_def marker_of_def body_ok_def split: DiffLineKind.splits if_splits)

text \<open>A line is selected and is a change.\<close>

fun selects_change :: "bool list \<Rightarrow> nat \<Rightarrow> DiffLine list \<Rightarrow> bool" where
  "selects_change sel i [] = False"
| "selects_change sel i (l # ls) = (isSelected sel i \<and> dl_kind l \<in> {Added, Removed} \<or> selects_change sel (Suc i) ls)"

lemma changesSomething_iff: "changesSomething (selectionBody u sel i prev ls) \<longleftrightarrow> selects_change sel i ls"
  by (induction ls arbitrary: i prev) (auto simp: changesSomething_def split: DiffLineKind.splits)

lemma selectionPatch_text:
  "buildLineSelectionPatch file hunk sel u =
     (let body = selectionBody u sel 0 False (dh_lines hunk)
      in if selects_change sel 0 (dh_lines hunk)
         then patchText file u (dh_oldStart hunk) (fst (emittedCounts body)) (dh_newStart hunk) (snd (emittedCounts body)) body
         else [])"
  by (simp add: buildLineSelectionPatch_def changesSomething_iff patchText_def Let_def split_beta)

lemma selection_reads_as:
  assumes "file_ok file" and "hunk_ok opts hunk" and "selects_change sel 0 (dh_lines hunk)"
    and "length (buildLineSelectionPatch file hunk sel u) \<le> do_maxBytes opts"
    and body: "body = selectionBody u sel 0 False (dh_lines hunk)"
  shows "reads_as file u (hunk_of (dh_oldStart hunk) (u32 (length (old_lines body))) (dh_newStart hunk)
      (u32 (length (new_lines body))) body) (parse opts (buildLineSelectionPatch file hunk sel u))"
proof -
  have pt: "buildLineSelectionPatch file hunk sel u =
      patchText file u (dh_oldStart hunk) (u32 (length (old_lines body))) (dh_newStart hunk) (u32 (length (new_lines body))) body"
    using assms(3) by (simp add: selectionPatch_text body emittedCounts_sides Let_def)
  show ?thesis
    unfolding pt
    by (rule parse_patchText)
      (use assms selectionBody_ok [of "dh_lines hunk" opts u sel 0 False] in \<open>auto simp: hunk_ok_def pt\<close>)
qed

text \<open>
  C2. Staging selected lines moves the index to exactly the selected changes. Read back, the patch
  has the hunk's own old side (the index content it has to match), whatever is selected; its new
  side is that content with the selected additions put in and the selected removals taken out,
  and nothing else; and its counts are the lengths of those sides.
\<close>

theorem stage_selection_exact:
  assumes "file_ok file" and "hunk_ok opts hunk" and "selects_change sel 0 (dh_lines hunk)"
    and "length (buildLineSelectionPatch file hunk sel False) \<le> do_maxBytes opts"
  shows "\<exists>h. reads_as file False h (parse opts (buildLineSelectionPatch file hunk sel False)) \<and>
    hunk_old h = hunk_old hunk \<and> hunk_new h = staged_lines sel 0 (dh_lines hunk) \<and>
    dh_oldCount h = u32 (length (hunk_old h)) \<and> dh_newCount h = u32 (length (hunk_new h))"
  using selection_reads_as [OF assms refl] selectionBody_stage [of sel 0 False "dh_lines hunk"]
  by (intro exI conjI) (assumption, simp_all only: hunk_of_sides hunk_old_def [of hunk])

text \<open>
  Unstaging selected lines takes exactly those changes back. Read back, the patch has the
  hunk's own new side (what the index holds), whatever is selected, so the reverse application
  matches; its old side is that content with the selected additions taken out and the selected
  removals put back; and for a renamed file the header names a content change at the new path.
\<close>

theorem unstage_selection_exact:
  assumes "file_ok file" and "hunk_ok opts hunk" and "selects_change sel 0 (dh_lines hunk)"
    and "length (buildLineSelectionPatch file hunk sel True) \<le> do_maxBytes opts"
  shows "\<exists>h. reads_as file True h (parse opts (buildLineSelectionPatch file hunk sel True)) \<and>
    hunk_new h = hunk_new hunk \<and> hunk_old h = unstaged_lines sel 0 (dh_lines hunk) \<and>
    dh_oldCount h = u32 (length (hunk_old h)) \<and> dh_newCount h = u32 (length (hunk_new h))"
  using selection_reads_as [OF assms refl] selectionBody_unstage [of sel 0 False "dh_lines hunk"]
  by (intro exI conjI) (assumption, simp_all only: hunk_of_sides hunk_new_def [of hunk])

text \<open>
  A selection of unchanged lines produces no patch, and any other selection produces one: the
  result is empty exactly when no selected line is an addition or a removal.
\<close>

theorem selection_patch_empty_iff:
  "buildLineSelectionPatch file hunk sel unstaging = [] \<longleftrightarrow>
     \<not> (\<exists>i < length (dh_lines hunk). i < length sel \<and> sel ! i \<and> dl_kind (dh_lines hunk ! i) \<in> {Added, Removed})"
proof -
  have "selects_change sel i ls \<longleftrightarrow> (\<exists>j < length ls. isSelected sel (i + j) \<and> dl_kind (ls ! j) \<in> {Added, Removed})" for i ls
    by (induction ls arbitrary: i) (auto simp: Ex_less_Suc2)
  moreover have "patchText f u a b c d body \<noteq> []" for f u a b c d body
    by (simp add: patchText_def rangeLine_def)
  ultimately show ?thesis by (auto simp: selectionPatch_text Let_def isSelected_def)
qed

lemma selectionBody_all:
  "\<forall>j < length ls. dl_kind (ls ! j) \<in> {Added, Removed} \<longrightarrow> isSelected sel (i + j) \<Longrightarrow>
     prev \<or> ls = [] \<or> dl_kind (hd ls) \<noteq> NoNewlineMarker \<Longrightarrow> selectionBody u sel i prev ls = whole_body ls"
proof (induction ls arbitrary: i prev)
  case (Cons l ls)
  have "\<forall>j < length ls. dl_kind (ls ! j) \<in> {Added, Removed} \<longrightarrow> isSelected sel (Suc i + j)"
    using Cons.prems(1) by auto
  from Cons.IH [OF this, of True] Cons.prems show ?case
    by (auto simp: whole_body_def marker_of_def split: DiffLineKind.splits)
qed (simp add: whole_body_def)

text \<open>
  Selecting every change is staging the hunk: when all additions and removals are selected,
  the patch is the whole hunk's patch, byte for byte.
\<close>

theorem full_selection_is_hunk_patch:
  assumes "\<forall>i < length (dh_lines hunk). dl_kind (dh_lines hunk ! i) \<in> {Added, Removed} \<longrightarrow> isSelected sel i"
    and "selects_change sel 0 (dh_lines hunk)" and "dl_kind (hd (dh_lines hunk)) \<noteq> NoNewlineMarker"
  shows "buildLineSelectionPatch file hunk sel unstaging = buildHunkPatch file hunk False unstaging"
  using selectionBody_all [of "dh_lines hunk" sel 0 False unstaging] assms
  by (simp add: selectionPatch_text buildHunkPatch_text hunkCounts_emitted Let_def)


section \<open>A patch on concrete text\<close>

definition demo_diff_file :: DiffFile where
  "demo_diff_file = new_file\<lparr>df_oldPath := ''src/a.c'', df_newPath := ''src/a.c''\<rparr>"

definition demo_hunk :: DiffHunk where
  "demo_hunk = new_hunk\<lparr>dh_oldStart := 3, dh_newStart := 3, dh_lines :=
     [new_line\<lparr>dl_text := ''keep''\<rparr>, new_line\<lparr>dl_kind := Removed, dl_text := ''old''\<rparr>,
      new_line\<lparr>dl_kind := Added, dl_text := ''new''\<rparr>, new_line\<lparr>dl_kind := Added, dl_text := ''more''\<rparr>]\<rparr>"

lemmas demo_defs = demo_diff_file_def demo_hunk_def new_file_def new_hunk_def new_line_def default_options_def

lemma demo_ok: "file_ok demo_diff_file" "hunk_ok default_options demo_hunk"
  by (simp_all add: file_ok_def path_ok_def patchPaths_def hunk_ok_def whole_body_def marker_of_def body_ok_def demo_defs)

lemma demo_patch_size: "length (buildHunkPatch demo_diff_file demo_hunk False u) \<le> do_maxBytes default_options"
  by (simp add: buildHunkPatch_def patchPaths_def patchHeader_def hunkCounts_def countLine_def u32_def rangeLine_def
      hunkLine_def to_string.simps demo_defs)

lemma demo_selection_size:
  "length (buildLineSelectionPatch demo_diff_file demo_hunk [False, False, True] u) \<le> do_maxBytes default_options"
  by (cases u) (simp_all add: buildLineSelectionPatch_def patchPaths_def patchHeader_def isSelected_def emittedCounts_def
      countEmitted_def u32_def rangeLine_def changesSomething_def emittedLine_def to_string.simps demo_defs)

lemma demo_selects: "selects_change [False, False, True] 0 (dh_lines demo_hunk)"
  by (simp add: demo_defs isSelected_def)

lemma demo_hunk_views:
  "hunk_old demo_hunk = [''keep'', ''old'']" "hunk_new demo_hunk = [''keep'', ''new'', ''more'']"
  "map line_view (dh_lines demo_hunk) = [(Context, ''keep''), (Removed, ''old''), (Added, ''new''), (Added, ''more'')]"
  "staged_lines [False, False, True] 0 (dh_lines demo_hunk) = [''keep'', ''old'', ''new'']"
  "unstaged_lines [False, False, True] 0 (dh_lines demo_hunk) = [''keep'', ''more'']"
  by (simp_all add: demo_hunk_def new_hunk_def new_line_def hunk_old_def hunk_new_def line_view_def isSelected_def)

lemma demo_counts:
  "u32 (length [''keep'', ''old'']) = 2" "u32 (length [''keep'', ''new'', ''more'']) = 3"
  by (simp_all add: u32_def)

theorem hunk_patch_reads_back_witness:
  "\<exists>h. reads_as demo_diff_file False h (parse default_options (buildHunkPatch demo_diff_file demo_hunk False False)) \<and>
     dh_oldCount h = 2 \<and> dh_newCount h = 3 \<and>
     map line_view (dh_lines h) = [(Context, ''keep''), (Removed, ''old''), (Added, ''new''), (Added, ''more'')]"
  using hunk_patch_reads_back [OF demo_ok demo_patch_size, of False]
  unfolding demo_hunk_views demo_counts by (elim exE conjE, intro exI conjI)

theorem stage_selection_exact_witness:
  "\<exists>h. reads_as demo_diff_file False h
       (parse default_options (buildLineSelectionPatch demo_diff_file demo_hunk [False, False, True] False)) \<and>
     hunk_old h = [''keep'', ''old''] \<and> hunk_new h = [''keep'', ''old'', ''new'']"
  using stage_selection_exact [OF demo_ok demo_selects demo_selection_size] unfolding demo_hunk_views by blast

theorem unstage_selection_exact_witness:
  "\<exists>h. reads_as demo_diff_file True h
       (parse default_options (buildLineSelectionPatch demo_diff_file demo_hunk [False, False, True] True)) \<and>
     hunk_new h = [''keep'', ''new'', ''more''] \<and> hunk_old h = [''keep'', ''more'']"
  using unstage_selection_exact [OF demo_ok demo_selects demo_selection_size] unfolding demo_hunk_views by blast

theorem full_selection_is_hunk_patch_witness:
  "buildLineSelectionPatch demo_diff_file demo_hunk [True, True, True, True] False = buildHunkPatch demo_diff_file demo_hunk False False"
  by (rule full_selection_is_hunk_patch)
    (auto simp: demo_hunk_def new_hunk_def new_line_def isSelected_def less_Suc_eq)

section \<open>Two ways a rebuilt patch loses content\<close>

text \<open>
  A diff with CRLF line endings parses exactly like the same diff with LF endings, so a patch
  rebuilt from it no longer carries the carriage returns of the file's lines.
\<close>

theorem crlf_parses_as_lf:
  assumes "\<forall>l \<in> set ls. clean l" and "length (unlines (map (\<lambda>l. l @ [cr]) ls)) \<le> do_maxBytes opts"
  shows "pd_files (parse opts (unlines (map (\<lambda>l. l @ [cr]) ls))) = pd_files (parse opts (unlines ls))"
proof -
  have "map strip_cr (map (\<lambda>l. l @ [cr]) ls) = ls" by (simp add: strip_cr_def ends_with_char_def comp_def)
  moreover have "\<forall>l \<in> set (map (\<lambda>l. l @ [cr]) ls). nl \<notin> set l" using assms(1) by (auto simp: clean_def)
  ultimately have "splitLines (unlines (map (\<lambda>l. l @ [cr]) ls)) = ls" by (simp only: splitLines_unlines)
  moreover have "length (unlines ls) \<le> length (unlines (map (\<lambda>l. l @ [cr]) ls))" by (induction ls) simp_all
  ultimately show ?thesis using assms splitLines_clean [OF assms(1)] by (simp add: parse_def)
qed

theorem crlf_parses_as_lf_witness:
  "pd_files (parse default_options (unlines [''diff --git a/x b/x'' @ [cr], ''@@ -1 +0,0 @@'' @ [cr], ''-a'' @ [cr]])) =
   pd_files (parse default_options (unlines [''diff --git a/x b/x'', ''@@ -1 +0,0 @@'', ''-a'']))"
  using crlf_parses_as_lf [of "[''diff --git a/x b/x'', ''@@ -1 +0,0 @@'', ''-a'']" default_options]
  by (simp add: default_options_def)

lemma swallowed_step:
  assumes "open_hunk st fs f hs h" "t \<noteq> []" "hd t \<notin> {CHR ''a'', CHR ''b'', CHR ''/'', CHR 0x22}"
  shows "parseLine opts st (CHR ''-'' # ''-- '' @ t) = (st\<lparr>ps_files := fs @ [f\<lparr>df_oldPath := t\<rparr>]\<rparr>, False)"
proof -
  obtain c cs where t: "t = c # cs" using assms(2) by (cases t) auto
  have "unquotePath t = t" "stripPathPrefix t = t"
    using assms(3) by (auto simp: t unquotePath_def stripPathPrefix_def)
  then show ?thesis
    using assms by (simp add: parseLine_def extendedHeader_def open_hunk_def oldPathLine_def)
qed

text \<open>
  A removed line whose text starts with two dashes and a space, as a comment of SQL, Lua or
  Haskell does, is taken for a file header although a hunk is open: the line is not in the parsed
  hunk, it is not counted as removed, and its text becomes the file's old path.
\<close>

theorem removed_comment_line_swallowed:
  assumes "file_ok file" and "\<forall>e \<in> set body. body_ok opts e"
    and "a < 2 ^ 32" "b < 2 ^ 32" "c < 2 ^ 32" "d < 2 ^ 32"
    and "clean t" "t \<noteq> []" "hd t \<notin> {CHR ''a'', CHR ''b'', CHR ''/'', CHR 0x22}"
    and "length (patchText file unstaging a b c d (body @ [(CHR ''-'', ''-- '' @ t)])) \<le> do_maxBytes opts"
  shows "\<exists>f. pd_files (parse opts (patchText file unstaging a b c d (body @ [(CHR ''-'', ''-- '' @ t)]))) = [f] \<and>
    df_hunks f = [hunk_of a b c d body] \<and> df_removedLines f = u32 (markerCount CHR ''-'' body) \<and> df_oldPath f = t"
proof -
  let ?line = "CHR ''-'' # ''-- '' @ t" and ?lines = "patchLines file unstaging a b c d body"
  let ?text = "patchText file unstaging a b c d (body @ [(CHR ''-'', ''-- '' @ t)])"
  have lines: "patchLines file unstaging a b c d (body @ [(CHR ''-'', ''-- '' @ t)]) = ?lines @ [?line]"
    by (simp add: patchLines_def bodyText_def)
  have "\<forall>e \<in> set (body @ [(CHR ''-'', ''-- '' @ t)]). clean (bodyText e)"
  proof -
    have "\<forall>e \<in> set body. clean (bodyText e)" using assms(2) bodyText_clean by blast
    moreover have "clean (bodyText (CHR ''-'', ''-- '' @ t))" using assms(7,8) by (simp add: bodyText_def)
    ultimately show ?thesis by simp
  qed
  from patchLines_clean [OF assms(1) this] have split: "splitLines ?text = ?lines @ [?line]"
    unfolding patchText_lines lines [symmetric] by (intro splitLines_clean)
  obtain f where f: "open_hunk (parseLines opts new_state ?lines) [] f [] (hunk_of a b c d body)"
    "df_removedLines f = u32 (markerCount CHR ''-'' body)"
    using parse_patchLines [OF assms(1-6), of unstaging] by metis
  have "ps_files (parseLines opts new_state (?lines @ [?line])) = [f\<lparr>df_oldPath := t\<rparr>]"
    unfolding parseLines_append by (subst parseLines.simps) (simp add: swallowed_step [OF f(1) assms(8,9), simplified])
  then have files: "ps_files (parseLines opts new_state (splitLines ?text)) = [f\<lparr>df_oldPath := t\<rparr>]" unfolding split .
  show ?thesis
    using assms(10) f by (simp add: parse_def files [simplified] open_hunk_def)
qed

theorem removed_comment_line_swallowed_witness:
  "\<exists>f. pd_files (parse default_options (patchText demo_diff_file False 1 2 1 1 [(CHR '' '', ''select 1;''), (CHR ''-'', ''-- drop'')])) = [f] \<and>
     df_removedLines f = 0 \<and> df_oldPath f = ''drop''"
  using removed_comment_line_swallowed [OF demo_ok(1), of "[(CHR '' '', ''select 1;'')]" default_options 1 2 1 1 "''drop''" False]
  by (simp add: body_ok_def default_options_def patchText_def patchHeader_def patchPaths_def rangeLine_def to_string.simps
      emittedLine_def demo_diff_file_def new_file_def markerCount_def u32_def) blast

end
