(* ===== verification/DiffParsing.thy ===== *)
theory DiffParsing
  imports UnifiedDiff
begin

text \<open>
  What every diff \<^verbatim>\<open>UnifiedDiffParser::parse\<close> returns satisfies, whatever text it was
  given: each hunk's lines are numbered from the hunk's start lines on both sides, no line is
  longer than the cap, and a file's counts of added and removed lines are those of its hunks. The
  invariant is kept by every line of the loop.
\<close>

section \<open>Numbered lines\<close>

text \<open>The numbers of the next line on both sides, after one more line.\<close>

definition adv :: "nat \<times> nat \<Rightarrow> DiffLine \<Rightarrow> nat \<times> nat" where
  "adv c l = (case dl_kind l of
     Context \<Rightarrow> (u32 (fst c + 1), u32 (snd c + 1)) | Added \<Rightarrow> (fst c, u32 (snd c + 1))
   | Removed \<Rightarrow> (u32 (fst c + 1), snd c) | NoNewlineMarker \<Rightarrow> c)"

definition number_at :: "nat \<times> nat \<Rightarrow> DiffLine \<Rightarrow> bool" where
  "number_at c l \<longleftrightarrow> (case dl_kind l of
     Context \<Rightarrow> dl_oldLine l = fst c \<and> dl_newLine l = snd c | Added \<Rightarrow> dl_oldLine l = 0 \<and> dl_newLine l = snd c
   | Removed \<Rightarrow> dl_oldLine l = fst c \<and> dl_newLine l = 0 | NoNewlineMarker \<Rightarrow> dl_oldLine l = 0 \<and> dl_newLine l = 0)"

fun numbered :: "nat \<times> nat \<Rightarrow> DiffLine list \<Rightarrow> bool" where
  "numbered c [] = True"
| "numbered c (l # ls) = (number_at c l \<and> numbered (adv c l) ls)"

lemma numbered_snoc: "numbered c (ls @ [l]) \<longleftrightarrow> numbered c ls \<and> number_at (foldl adv c ls) l"
  by (induction ls arbitrary: c) auto

definition hunk_inv :: "DiffOptions \<Rightarrow> DiffHunk \<Rightarrow> bool" where
  "hunk_inv opts h \<longleftrightarrow> numbered (dh_oldStart h, dh_newStart h) (dh_lines h) \<and>
     (\<forall>l \<in> set (dh_lines h). dl_kind l = NoNewlineMarker \<or> length (dl_text l) \<le> do_maxLineLength opts)"

definition kind_count :: "DiffLineKind \<Rightarrow> DiffHunk list \<Rightarrow> nat" where
  "kind_count k hs = length (filter (\<lambda>l. dl_kind l = k) (concat (map dh_lines hs)))"

definition file_inv :: "DiffOptions \<Rightarrow> DiffFile \<Rightarrow> bool" where
  "file_inv opts f \<longleftrightarrow> (\<forall>h \<in> set (df_hunks f). hunk_inv opts h) \<and>
     df_addedLines f = u32 (kind_count Added (df_hunks f)) \<and> df_removedLines f = u32 (kind_count Removed (df_hunks f))"

section \<open>The loop's invariant\<close>

text \<open>While a hunk is open the parser's counters are the numbers of its next line.\<close>

definition parse_inv :: "DiffOptions \<Rightarrow> ParseState \<Rightarrow> bool" where
  "parse_inv opts st \<longleftrightarrow> (\<forall>f \<in> set (ps_files st). file_inv opts f) \<and> (ps_inFile st \<longrightarrow> ps_files st \<noteq> []) \<and>
     (ps_inHunk st \<longrightarrow> ps_inFile st \<and> (\<exists>fs f hs h. ps_files st = fs @ [f] \<and> df_hunks f = hs @ [h] \<and>
        (ps_oldLine st, ps_newLine st) = foldl adv (dh_oldStart h, dh_newStart h) (dh_lines h)))"

lemma upd_last_append [simp]: "upd_last f (xs @ [x]) = xs @ [f x]"
  by (simp add: upd_last_def)

lemma parse_inv_new [inv_intros]: "parse_inv opts new_state"
  by (simp add: parse_inv_def new_state_def)

lemma parse_inv_startFile [inv_intros]: "parse_inv opts st \<Longrightarrow> parse_inv opts (startFile st line)"
  by (auto simp: parse_inv_def startFile_def Let_def file_inv_def new_file_def kind_count_def u32_def split: option.splits)

text \<open>A header changes neither the hunks nor the counts of a file.\<close>

lemma extendedHeader_frame:
  "extendedHeader line = Some change \<Longrightarrow> df_hunks (change f) = df_hunks f \<and>
     df_addedLines (change f) = df_addedLines f \<and> df_removedLines (change f) = df_removedLines f"
  by (auto simp: extendedHeader_def indexLine_def oldPathLine_def newPathLine_def Let_def
      split: if_splits option.splits)

lemma parse_inv_header [inv_intros]:
  assumes "parse_inv opts st" "ps_inFile st" "extendedHeader line = Some change"
  shows "parse_inv opts (upd_file change st)"
proof -
  obtain fs f where st: "ps_files st = fs @ [f]" using assms(1,2) by (metis parse_inv_def rev_exhaust)
  show ?thesis
    using assms(1) extendedHeader_frame [OF assms(3), of f] by (auto simp: parse_inv_def st file_inv_def)
qed

lemma parse_inv_startHunk [inv_intros]:
  assumes "parse_inv opts st" "ps_inFile st"
  shows "parse_inv opts (startHunk st line closing)"
proof -
  obtain fs f where st: "ps_files st = fs @ [f]" using assms by (metis parse_inv_def rev_exhaust)
  show ?thesis
    using assms by (auto simp: parse_inv_def st startHunk_def Let_def file_inv_def hunk_inv_def kind_count_def split: prod.splits)
qed

text \<open>One more line on the open hunk, the counters moved past it.\<close>

lemma parse_inv_push:
  assumes inv: "parse_inv opts st" "ps_inHunk st"
    and num: "number_at (ps_oldLine st, ps_newLine st) l"
    and len: "dl_kind l = NoNewlineMarker \<or> length (dl_text l) \<le> do_maxLineLength opts"
    and st': "ps_files st' = upd_last (\<lambda>f. pushLine l (f\<lparr>
        df_addedLines := (if dl_kind l = Added then u32 (df_addedLines f + 1) else df_addedLines f),
        df_removedLines := (if dl_kind l = Removed then u32 (df_removedLines f + 1) else df_removedLines f)\<rparr>)) (ps_files st)"
      "ps_inFile st' = ps_inFile st" "ps_inHunk st' = ps_inHunk st"
      "(ps_oldLine st', ps_newLine st') = adv (ps_oldLine st, ps_newLine st) l"
  shows "parse_inv opts st'"
proof -
  obtain fs f hs h where st: "ps_files st = fs @ [f]" "df_hunks f = hs @ [h]"
    "(ps_oldLine st, ps_newLine st) = foldl adv (dh_oldStart h, dh_newStart h) (dh_lines h)"
    using inv by (auto simp: parse_inv_def)
  let ?h = "h\<lparr>dh_lines := dh_lines h @ [l]\<rparr>"
  let ?f = "f\<lparr>df_addedLines := (if dl_kind l = Added then u32 (df_addedLines f + 1) else df_addedLines f),
      df_removedLines := (if dl_kind l = Removed then u32 (df_removedLines f + 1) else df_removedLines f),
      df_hunks := hs @ [?h]\<rparr>"
  have f: "file_inv opts f" using inv(1) by (auto simp: parse_inv_def st)
  then have h: "hunk_inv opts h" by (simp add: file_inv_def st)
  have "hunk_inv opts ?h" using h num len st(3) by (auto simp: hunk_inv_def numbered_snoc)
  moreover have "u32 (Suc (u32 n)) = u32 (Suc n)" for n using u32_add_u32 [of n 1] by simp
  ultimately have "file_inv opts ?f" using f by (auto simp: file_inv_def st kind_count_def)
  moreover have "ps_files st' = fs @ [?f]" by (simp add: st' st pushLine_def)
  ultimately show ?thesis
    using inv st st' by (auto simp: parse_inv_def)
qed

lemma parse_inv_bodyLine [inv_intros]:
  assumes inv: "parse_inv opts st" "ps_inHunk st"
  shows "parse_inv opts (fst (bodyLine opts st line))"
proof -
  let ?content = "take (do_maxLineLength opts) (drop 1 line)"
  let ?marker = "case line of [] \<Rightarrow> CHR '' '' | c # _ \<Rightarrow> c"
  consider (mark) "starts_with line (CHR 0x5C # '' No newline'')"
    | (add) "\<not> starts_with line (CHR 0x5C # '' No newline'')" "?marker = CHR ''+''"
    | (del) "\<not> starts_with line (CHR 0x5C # '' No newline'')" "?marker = CHR ''-''"
    | (ctx) "\<not> starts_with line (CHR 0x5C # '' No newline'')" "?marker = CHR '' ''"
    | (out) "\<not> starts_with line (CHR 0x5C # '' No newline'')" "?marker \<notin> {CHR ''+'', CHR ''-'', CHR '' ''}" by blast
  then show ?thesis
  proof cases
    case mark
    then show ?thesis
      by (intro parse_inv_push [OF inv, of "new_line\<lparr>dl_kind := NoNewlineMarker, dl_text := line\<rparr>"])
        (simp_all add: bodyLine_def number_at_def adv_def new_line_def)
  next
    case add
    then show ?thesis
      by (intro parse_inv_push [OF inv, of "new_line\<lparr>dl_kind := Added, dl_newLine := ps_newLine st, dl_text := ?content\<rparr>"])
        (simp_all add: bodyLine_def number_at_def adv_def new_line_def Let_def)
  next
    case del
    then show ?thesis
      by (intro parse_inv_push [OF inv, of "new_line\<lparr>dl_kind := Removed, dl_oldLine := ps_oldLine st, dl_text := ?content\<rparr>"])
        (simp_all add: bodyLine_def number_at_def adv_def new_line_def Let_def)
  next
    case ctx
    then show ?thesis
      by (intro parse_inv_push [OF inv, of "new_line\<lparr>dl_kind := Context, dl_oldLine := ps_oldLine st, dl_newLine := ps_newLine st, dl_text := ?content\<rparr>"])
        (simp_all add: bodyLine_def number_at_def adv_def new_line_def Let_def)
  next
    case out
    then show ?thesis using inv by (auto simp: bodyLine_def Let_def parse_inv_def)
  qed
qed

lemma parse_inv_parseLine [inv_intros]: "parse_inv opts st \<Longrightarrow> parse_inv opts (fst (parseLine opts st line))"
  by (auto simp: parseLine_def intro: inv_intros split: option.splits)

lemma parse_inv_parseLines [inv_intros]: "parse_inv opts st \<Longrightarrow> parse_inv opts (parseLines opts st lines)"
proof (induction opts st lines rule: parseLines.induct)
  case (2 opts st line lines)
  obtain st' again where p: "parseLine opts st line = (st', again)" by force
  have "parse_inv opts st'" using parse_inv_parseLine [OF "2.prems", of line] by (simp add: p)
  with 2 p show ?case by (subst parseLines.simps) (auto simp del: parseLines.simps)
qed simp

text \<open>
  Every line of a parsed diff carries the right line numbers, and the counts are right. In
  every file and hunk of the result, whatever the input, an old-side line's number is the hunk's
  old start plus the old-side lines before it, the same for the new side, a line absent from a
  side has number 0 there; no text exceeds the length cap; and the file's added and removed counts
  are the numbers of such lines in its hunks, modulo 2^32.
\<close>

theorem parse_numbers_lines:
  assumes "f \<in> set (pd_files (parse opts diffText))"
  shows "(\<forall>h \<in> set (df_hunks f). numbered (dh_oldStart h, dh_newStart h) (dh_lines h) \<and>
       (\<forall>l \<in> set (dh_lines h). dl_kind l = NoNewlineMarker \<or> length (dl_text l) \<le> do_maxLineLength opts)) \<and>
     df_addedLines f = u32 (kind_count Added (df_hunks f)) \<and> df_removedLines f = u32 (kind_count Removed (df_hunks f))"
proof -
  have "parse_inv opts (parseLines opts new_state (splitLines diffText))" by (intro inv_intros)
  then have "file_inv opts f" using assms by (auto simp: parse_def parse_inv_def split: if_splits)
  then show ?thesis by (simp add: file_inv_def hunk_inv_def)
qed

theorem parse_numbers_lines_witness:
  "\<exists>f. f \<in> set (pd_files (parse default_options (''diff --git a/x b/x'' @ [nl] @ ''new mode 100755'' @ [nl]))) \<and>
     df_addedLines f = u32 (kind_count Added (df_hunks f))"
proof -
  let ?t = "''diff --git a/x b/x'' @ [nl] @ ''new mode 100755'' @ [nl]"
  have "pd_files (parse default_options ?t) \<noteq> []"
    by (simp add: parse_def default_options_def splitLines.simps strip_cr_def ends_with_char_def parseLine_def startFile_def
        new_state_def extendedHeader_def upd_last_def Let_def split: option.splits)
  then obtain f where f: "f \<in> set (pd_files (parse default_options ?t))" by (meson list.set_sel(1))
  with parse_numbers_lines [OF f] show ?thesis by blast
qed

end
