(* ===== verification/ConflictMarkers.thy ===== *)
theory ConflictMarkers
  imports GBM_Prelude
begin

text \<open>
  \<^verbatim>\<open>src/core/git/ConflictMarkerParser.h\<close> and \<^verbatim>\<open>ConflictMarkerParser.cpp\<close>: a
  conflict-marked file split into text and conflict regions, and the resolved file put together
  again. Line indices of the source's two loops are the lists of lines still to read.
\<close>

record ConflictRegion =
  cr_ours :: "string list"
  cr_theirs :: "string list"
  cr_base :: "string list"
  cr_hasBase :: bool

datatype ConflictSegment = Text "string list" | Region ConflictRegion

record ParsedConflictFile =
  pc_segments :: "ConflictSegment list"
  pc_regionCount :: nat
  pc_wellFormed :: bool

datatype ConflictRegionChoice = Unresolved | Ours | Theirs | Custom

record ConflictRegionResolution =
  rr_choice :: ConflictRegionChoice
  rr_customLines :: "string list"

section \<open>Lines with their endings\<close>

function splitKeepingLineEndings :: "string \<Rightarrow> string list" where
  "splitKeepingLineEndings content =
     (if content = [] then []
      else case find_char nl content of
             None \<Rightarrow> [content]
           | Some i \<Rightarrow> take (Suc i) content # splitKeepingLineEndings (drop (Suc i) content))"
  by auto
termination
  by (relation "measure length") auto

declare splitKeepingLineEndings.simps [simp del]

definition stripLineEnding :: "string \<Rightarrow> string" where
  "stripLineEnding line =
     (let v = (if ends_with_char line nl then butlast line else line)
      in if ends_with_char v cr then butlast v else v)"

definition is_start :: "string \<Rightarrow> bool" where "is_start line \<longleftrightarrow> starts_with (stripLineEnding line) ''<<<<<<<''"
definition is_end :: "string \<Rightarrow> bool" where "is_end line \<longleftrightarrow> starts_with (stripLineEnding line) ''>>>>>>>''"
definition is_base :: "string \<Rightarrow> bool" where "is_base line \<longleftrightarrow> starts_with (stripLineEnding line) ''|||||||''"
definition is_separator :: "string \<Rightarrow> bool" where "is_separator line \<longleftrightarrow> stripLineEnding line = ''=======''"

section \<open>Parsing\<close>

text \<open>Which of the three lists the scan is filling.\<close>

datatype Side = SOurs | SBase | STheirs

record Scan =
  sc_ours :: "string list"
  sc_base :: "string list"
  sc_theirs :: "string list"
  sc_sawBase :: bool
  sc_sawSeparator :: bool
  sc_sawEnd :: bool
  sc_current :: Side

definition new_scan :: Scan where
  "new_scan = \<lparr>sc_ours = [], sc_base = [], sc_theirs = [], sc_sawBase = False, sc_sawSeparator = False,
     sc_sawEnd = False, sc_current = SOurs\<rparr>"

definition push_current :: "Scan \<Rightarrow> string \<Rightarrow> Scan" where
  "push_current sc line = (case sc_current sc of
     SOurs \<Rightarrow> sc\<lparr>sc_ours := sc_ours sc @ [line]\<rparr>
   | SBase \<Rightarrow> sc\<lparr>sc_base := sc_base sc @ [line]\<rparr>
   | STheirs \<Rightarrow> sc\<lparr>sc_theirs := sc_theirs sc @ [line]\<rparr>)"

text \<open>The forward scan from the line behind an opening marker; the lines behind the closing one remain.\<close>

fun scanRegion :: "Scan \<Rightarrow> string list \<Rightarrow> Scan \<times> string list" where
  "scanRegion sc [] = (sc, [])"
| "scanRegion sc (line # lines) =
     (if is_end line then (sc\<lparr>sc_sawEnd := True\<rparr>, lines)
      else if \<not> sc_sawSeparator sc \<and> is_base line then scanRegion (sc\<lparr>sc_sawBase := True, sc_current := SBase\<rparr>) lines
      else if is_separator line then scanRegion (sc\<lparr>sc_sawSeparator := True, sc_current := STheirs\<rparr>) lines
      else scanRegion (push_current sc line) lines)"

lemma scanRegion_length: "length (snd (scanRegion sc lines)) \<le> length lines"
  by (induction sc lines rule: scanRegion.induct) auto

definition flushText :: "string list \<Rightarrow> ConflictSegment list" where
  "flushText pendingText = (if pendingText = [] then [] else [Text pendingText])"

definition region_of :: "Scan \<Rightarrow> ConflictRegion" where
  "region_of sc = \<lparr>cr_ours = sc_ours sc, cr_theirs = sc_theirs sc,
     cr_base = (if sc_sawBase sc then sc_base sc else []), cr_hasBase = sc_sawBase sc\<rparr>"

text \<open>The outer loop: nothing when a region is malformed, else the segments and the region count.\<close>

function parseSegments ::
  "string list \<Rightarrow> ConflictSegment list \<Rightarrow> nat \<Rightarrow> string list \<Rightarrow> (ConflictSegment list \<times> nat) option" where
  "parseSegments pendingText segments regionCount [] = Some (segments @ flushText pendingText, regionCount)"
| "parseSegments pendingText segments regionCount (line # lines) =
     (if \<not> is_start line then parseSegments (pendingText @ [line]) segments regionCount lines
      else case scanRegion new_scan lines of
             (sc, rest) \<Rightarrow>
               if \<not> sc_sawEnd sc \<or> \<not> sc_sawSeparator sc then None
               else parseSegments [] (segments @ flushText pendingText @ [Region (region_of sc)]) (regionCount + 1) rest)"
  by pat_completeness auto
termination
proof (relation "measure (\<lambda>(p, s, n, lines). length lines)")
  fix line lines and sc :: Scan and rest
  assume "(sc, rest) = scanRegion new_scan lines"
  then have "length rest \<le> length lines" using scanRegion_length [of new_scan lines] by (metis snd_conv)
  then show "((([] :: string list), segments @ flushText pendingText @ [Region (region_of sc)], regionCount + 1, rest),
      pendingText, segments, regionCount, line # lines) \<in> measure (\<lambda>(p, s, n, lines). length lines)"
    for segments pendingText and regionCount :: nat by simp
qed simp_all

definition parse :: "string \<Rightarrow> ParsedConflictFile" where
  "parse content =
     (let lines = splitKeepingLineEndings content
      in case parseSegments [] [] 0 lines of
           None \<Rightarrow> \<lparr>pc_segments = [Text lines], pc_regionCount = 0, pc_wellFormed = False\<rparr>
         | Some (segments, regionCount) \<Rightarrow>
             \<lparr>pc_segments = segments, pc_regionCount = regionCount, pc_wellFormed = True\<rparr>)"

section \<open>Assembling a resolution\<close>

text \<open>
  The choice of one region. The source's null pointer for an unresolved region is
  \<^const>\<open>None\<close>; \<open>assemble\<close> rejects such a list first.
\<close>

definition chosen :: "ConflictRegion \<Rightarrow> ConflictRegionResolution \<Rightarrow> string list option" where
  "chosen r res = (case rr_choice res of
     Ours \<Rightarrow> Some (cr_ours r) | Theirs \<Rightarrow> Some (cr_theirs r) | Custom \<Rightarrow> Some (rr_customLines res) | Unresolved \<Rightarrow> None)"

text \<open>\<^const>\<open>None\<close> here is a read past the resolutions or through the null pointer.\<close>

fun assembleSegments :: "ConflictSegment list \<Rightarrow> ConflictRegionResolution list \<Rightarrow> string option" where
  "assembleSegments [] resolutions = Some []"
| "assembleSegments (Text lines # segments) resolutions =
     map_option ((@) (concat lines)) (assembleSegments segments resolutions)"
| "assembleSegments (Region r # segments) [] = None"
| "assembleSegments (Region r # segments) (res # resolutions) =
     (case chosen r res of
        None \<Rightarrow> None
      | Some lines \<Rightarrow> map_option ((@) (concat lines)) (assembleSegments segments resolutions))"

definition assemble :: "ParsedConflictFile \<Rightarrow> ConflictRegionResolution list \<Rightarrow> string option" where
  "assemble parsed resolutions =
     (if length resolutions \<noteq> pc_regionCount parsed then None
      else if list_ex (\<lambda>r. rr_choice r = Unresolved) resolutions then None
      else assembleSegments (pc_segments parsed) resolutions)"

section \<open>Splitting loses nothing\<close>

lemma concat_splitKeeping: "concat (splitKeepingLineEndings content) = content"
proof (induction content rule: splitKeepingLineEndings.induct)
  case (1 content)
  then show ?case
    by (subst splitKeepingLineEndings.simps) (auto split: option.splits)
qed

text \<open>A line with its ending, as splitting produces it before the last one, and the last one, whose ending may be missing.\<close>

definition is_line :: "string \<Rightarrow> bool" where
  "is_line l \<longleftrightarrow> l \<noteq> [] \<and> last l = nl \<and> nl \<notin> set (butlast l)"

fun file_lines :: "string list \<Rightarrow> bool" where
  "file_lines [] = True"
| "file_lines [l] = (is_line l \<or> l \<noteq> [] \<and> nl \<notin> set l)"
| "file_lines (l # ls) = (is_line l \<and> file_lines ls)"

lemma split_line: "is_line l \<Longrightarrow> splitKeepingLineEndings (l @ content) = l # splitKeepingLineEndings content"
proof -
  assume line: "is_line l"
  then have l: "l = butlast l @ [nl]" "nl \<notin> set (butlast l)" by (simp_all add: is_line_def) (metis append_butlast_last_id)
  have "find_char nl (l @ content) = Some (length (butlast l))" by (subst l(1)) (use l(2) in simp)
  moreover have "l \<noteq> []" "Suc (length (butlast l)) = length l" using line by (auto simp: is_line_def)
  ultimately show ?thesis by (simp add: splitKeepingLineEndings.simps [of "l @ content"] del: length_butlast)
qed

lemma split_last: "l \<noteq> [] \<Longrightarrow> nl \<notin> set l \<Longrightarrow> splitKeepingLineEndings l = [l]"
  by (simp add: splitKeepingLineEndings.simps [of l] find_char_None [THEN iffD2])

lemma splitKeeping_concat: "file_lines ls \<Longrightarrow> splitKeepingLineEndings (concat ls) = ls"
proof (induction ls rule: file_lines.induct)
  case (2 l)
  then show ?case using split_line [of l "[]"] split_last [of l] by (auto simp: splitKeepingLineEndings.simps [of "[]"])
next
  case (3 l l' ls)
  then have "splitKeepingLineEndings (concat (l' # ls)) = l' # ls" "is_line l" by simp_all
  then show ?case using split_line [of l "concat (l' # ls)"] by simp
qed (simp add: splitKeepingLineEndings.simps)

section \<open>A conflict file written and read\<close>

text \<open>
  The marker lines of a region as git writes them: what follows the first, the second and the last (a space and a name,
  or nothing), and whether they end as on Windows.
\<close>

record Marks =
  mk_ours :: string
  mk_base :: string
  mk_theirs :: string
  mk_crlf :: bool

definition marker :: "bool \<Rightarrow> string \<Rightarrow> string \<Rightarrow> string" where
  "marker crlf m label = m @ label @ (if crlf then [cr, nl] else [nl])"

datatype Written = Plain "string list" | Conflict Marks ConflictRegion

definition region_lines :: "Marks \<Rightarrow> ConflictRegion \<Rightarrow> string list" where
  "region_lines m r =
     [marker (mk_crlf m) ''<<<<<<<'' (mk_ours m)] @ cr_ours r @
     (if cr_hasBase r then [marker (mk_crlf m) ''|||||||'' (mk_base m)] @ cr_base r else []) @
     [marker (mk_crlf m) ''======='' []] @ cr_theirs r @ [marker (mk_crlf m) ''>>>>>>>'' (mk_theirs m)]"

fun written_lines :: "Written \<Rightarrow> string list" where
  "written_lines (Plain ls) = ls"
| "written_lines (Conflict m r) = region_lines m r"

definition conflict_text :: "Written list \<Rightarrow> string" where
  "conflict_text ws = concat (concat (map written_lines ws))"

text \<open>Content lines that are no marker of the part they are in. A separator may stand in the incoming side.\<close>

definition region_ok :: "ConflictRegion \<Rightarrow> bool" where
  "region_ok r \<longleftrightarrow> (cr_hasBase r \<or> cr_base r = []) \<and>
     (\<forall>l \<in> set (cr_ours r @ cr_base r). \<not> is_end l \<and> \<not> is_base l \<and> \<not> is_separator l) \<and> (\<forall>l \<in> set (cr_theirs r). \<not> is_end l)"

fun written_ok :: "Written list \<Rightarrow> bool" where
  "written_ok [] = True"
| "written_ok (Plain ls # ws) =
     (ls \<noteq> [] \<and> (\<forall>l \<in> set ls. \<not> is_start l) \<and> (case ws of Plain _ # _ \<Rightarrow> False | _ \<Rightarrow> True) \<and> written_ok ws)"
| "written_ok (Conflict m r # ws) = (region_ok r \<and> written_ok ws)"

text \<open>What is read: everything but the separators in the incoming side.\<close>

definition read_region :: "ConflictRegion \<Rightarrow> ConflictRegion" where
  "read_region r = r\<lparr>cr_theirs := filter (\<lambda>l. \<not> is_separator l) (cr_theirs r)\<rparr>"

fun read_written :: "Written \<Rightarrow> ConflictSegment" where
  "read_written (Plain ls) = Text ls"
| "read_written (Conflict m r) = Region (read_region r)"

lemma strip_marker:
  assumes "m \<noteq> []" "last m \<noteq> cr"
  shows "\<exists>rest. stripLineEnding (marker crlf m label) = m @ rest" and "stripLineEnding (marker crlf m []) = m"
proof -
  have eol: "stripLineEnding (u @ [cr, nl]) = u" "stripLineEnding (u @ [nl]) = (if ends_with_char u cr then butlast u else u)" for u
    using butlast_snoc [of "u @ [cr]" nl] by (simp_all add: stripLineEnding_def ends_with_char_def butlast_append)
  have cut: "\<exists>rest. butlast (m @ label) = m @ rest" if "ends_with_char (m @ label) cr"
    using that assms by (cases "label = []") (auto simp: ends_with_char_def butlast_append)
  show "\<exists>rest. stripLineEnding (marker crlf m label) = m @ rest"
    using cut eol(1) [of "m @ label"] eol(2) [of "m @ label"] by (cases crlf) (simp_all add: marker_def)
  show "stripLineEnding (marker crlf m []) = m"
    using assms eol(1) [of m] eol(2) [of m] by (cases crlf) (simp_all add: marker_def ends_with_char_def)
qed

lemma marker_kinds:
  "is_start (marker crlf ''<<<<<<<'' label)" "is_end (marker crlf ''>>>>>>>'' label)" "is_base (marker crlf ''|||||||'' label)"
  "\<not> is_end (marker crlf ''|||||||'' label)" "\<not> is_end (marker crlf ''======='' [])" "\<not> is_base (marker crlf ''======='' [])"
  "is_separator (marker crlf ''======='' [])" "\<not> is_separator (marker crlf ''|||||||'' label)"
  using strip_marker(1) [of "''<<<<<<<''" crlf label] strip_marker(1) [of "''>>>>>>>''" crlf label] strip_marker(1) [of "''|||||||''" crlf label]
    strip_marker(2) [of "''=======''" crlf]
  by (auto simp: is_start_def is_end_def is_base_def is_separator_def starts_with_def)

text \<open>Content lines are pushed onto the current side.\<close>

lemma scan_ours:
  "\<forall>l \<in> set ls. \<not> is_end l \<and> \<not> is_base l \<and> \<not> is_separator l \<Longrightarrow> sc_current sc = SOurs \<Longrightarrow>
     scanRegion sc (ls @ tail') = scanRegion (sc\<lparr>sc_ours := sc_ours sc @ ls\<rparr>) tail'"
  by (induction ls arbitrary: sc) (simp_all add: push_current_def)

lemma scan_base:
  "\<forall>l \<in> set ls. \<not> is_end l \<and> \<not> is_base l \<and> \<not> is_separator l \<Longrightarrow> sc_current sc = SBase \<Longrightarrow>
     scanRegion sc (ls @ tail') = scanRegion (sc\<lparr>sc_base := sc_base sc @ ls\<rparr>) tail'"
  by (induction ls arbitrary: sc) (simp_all add: push_current_def)

lemma scan_theirs:
  "\<forall>l \<in> set ls. \<not> is_end l \<Longrightarrow> sc_current sc = STheirs \<Longrightarrow> sc_sawSeparator sc \<Longrightarrow>
     scanRegion sc (ls @ tail') = scanRegion (sc\<lparr>sc_theirs := sc_theirs sc @ filter (\<lambda>l. \<not> is_separator l) ls\<rparr>) tail'"
proof (induction ls arbitrary: sc)
  case (Cons l ls)
  have same: "sc\<lparr>sc_sawSeparator := True, sc_current := STheirs\<rparr> = sc" using Cons.prems by simp
  from Cons show ?case by (cases "is_separator l") (simp_all add: push_current_def same)
qed simp

lemma scan_region:
  assumes "region_ok r"
  shows "\<exists>sc. scanRegion new_scan (tl (region_lines m r) @ tail') = (sc, tail') \<and> sc_sawEnd sc \<and> sc_sawSeparator sc \<and> region_of sc = read_region r"
proof (cases "cr_hasBase r")
  case True
  then show ?thesis
    using assms marker_kinds [of "mk_crlf m"]
    by (auto simp: region_lines_def region_ok_def scan_ours scan_base scan_theirs new_scan_def region_of_def read_region_def)
next
  case False
  then show ?thesis
    using assms marker_kinds [of "mk_crlf m"]
    by (auto simp: region_lines_def region_ok_def scan_ours scan_theirs new_scan_def region_of_def read_region_def)
qed

definition region_count :: "ConflictSegment list \<Rightarrow> nat" where
  "region_count segments = length (filter (\<lambda>s. case s of Region _ \<Rightarrow> True | Text _ \<Rightarrow> False) segments)"

lemma region_count_simps [simp]: "region_count [] = 0" "region_count (Text ls # s) = region_count s"
  "region_count (Region r # s) = Suc (region_count s)" "region_count (xs @ ys) = region_count xs + region_count ys"
  by (simp_all add: region_count_def)

lemma parse_text_lines:
  "\<forall>l \<in> set ls. \<not> is_start l \<Longrightarrow> parseSegments p segs n (ls @ tail') = parseSegments (p @ ls) segs n tail'"
  by (induction ls arbitrary: p) simp_all

lemma parse_region_lines:
  assumes "region_ok r"
  shows "parseSegments p segs n (region_lines m r @ tail') = parseSegments [] (segs @ flushText p @ [Region (read_region r)]) (Suc n) tail'"
proof -
  obtain sc where "scanRegion new_scan (tl (region_lines m r) @ tail') = (sc, tail')" "sc_sawEnd sc" "sc_sawSeparator sc" "region_of sc = read_region r"
    using scan_region [OF assms] by blast
  moreover have eq: "region_lines m r @ tail' = marker (mk_crlf m) ''<<<<<<<'' (mk_ours m) # (tl (region_lines m r) @ tail')"
    by (simp add: region_lines_def)
  ultimately show ?thesis unfolding eq using marker_kinds(1) by simp
qed

lemma parse_written:
  assumes "written_ok ws" "p = [] \<or> (case ws of Plain _ # _ \<Rightarrow> False | _ \<Rightarrow> True)"
  shows "parseSegments p segs n (concat (map written_lines ws)) =
    Some (segs @ flushText p @ map read_written ws, n + region_count (map read_written ws))"
  using assms
proof (induction ws arbitrary: p segs n rule: written_ok.induct)
  case (2 ls ws)
  then have "p = []" by simp
  with 2 show ?case
    using parse_text_lines [of ls "[]" segs n "[]"]
    by (cases ws) (auto simp: parse_text_lines flushText_def split: Written.splits)
next
  case (3 m r ws)
  then show ?case by (simp add: parse_region_lines flushText_def)
qed (simp add: flushText_def)

lemma conflict_parsed:
  assumes "written_ok ws" "file_lines (concat (map written_lines ws))"
  shows "parse (conflict_text ws) =
    \<lparr>pc_segments = map read_written ws, pc_regionCount = region_count (map read_written ws), pc_wellFormed = True\<rparr>"
  using splitKeeping_concat [OF assms(2)] parse_written [OF assms(1), of "[]" "[]" 0]
  by (simp add: parse_def conflict_text_def flushText_def)






section \<open>What assembling returns\<close>

text \<open>The number of regions is always the number counted.\<close>

lemma parseSegments_count:
  "parseSegments p segs n lines = Some (segments, m) \<Longrightarrow> region_count segs = n \<Longrightarrow> region_count segments = m"
proof (induction p segs n lines rule: parseSegments.induct)
  case (2 p segs n line lines)
  then show ?case
    by (auto simp: flushText_def split: if_splits prod.splits)
qed (auto simp: flushText_def)

lemma parse_count: "region_count (pc_segments (parse content)) = pc_regionCount (parse content)"
  using parseSegments_count [of "[]" "[]" 0 "splitKeepingLineEndings content"]
  by (auto simp: parse_def Let_def split: option.splits)

lemma assembleSegments_total:
  "length res = region_count segs \<Longrightarrow> \<forall>r \<in> set res. rr_choice r \<noteq> Unresolved \<Longrightarrow> \<exists>out. assembleSegments segs res = Some out"
proof (induction segs res rule: assembleSegments.induct)
  case (4 r segments res resolutions)
  then show ?case by (auto simp: chosen_def split: ConflictRegionChoice.splits)
qed auto

text \<open>
  Saving is possible exactly when every region has a choice: assembling a parsed file returns
  text if and only if there is one resolution per region and none is unresolved, so the read of
  each region's resolution never runs past the list.
\<close>

theorem assemble_defined_iff:
  "(\<exists>out. assemble (parse content) resolutions = Some out) \<longleftrightarrow>
     length resolutions = pc_regionCount (parse content) \<and> list_all (\<lambda>r. rr_choice r \<noteq> Unresolved) resolutions"
  using assembleSegments_total [of resolutions "pc_segments (parse content)"]
  by (auto simp: assemble_def parse_count list_ex_iff list_all_iff)

lemma parseSegments_more: "parseSegments p segs n lines = Some (segments, m) \<Longrightarrow> n \<le> m"
proof (induction p segs n lines rule: parseSegments.induct)
  case (2 p segs n line lines)
  then show ?case by (fastforce split: if_splits prod.splits)
qed simp

lemma parseSegments_no_region:
  "parseSegments p segs n lines = Some (segments, n) \<Longrightarrow> segments = segs @ flushText (p @ lines)"
proof (induction p segs n lines rule: parseSegments.induct)
  case (2 p segs n line lines)
  show ?case
  proof (cases "is_start line")
    case True
    with 2(3) obtain sc rest where "parseSegments [] (segs @ flushText p @ [Region (region_of sc)]) (n + 1) rest = Some (segments, n)"
      by (auto split: if_splits prod.splits)
    then show ?thesis using parseSegments_more by fastforce
  next
    case False
    with 2 show ?thesis by simp
  qed
qed simp

text \<open>
  A file without a complete region is carried through untouched, byte for byte: when no
  conflict region is reported, because there is no marker or because a region is malformed,
  assembling the parsed file returns the original content.
\<close>

theorem no_region_content_kept:
  assumes "pc_regionCount (parse content) = 0"
  shows "assemble (parse content) [] = Some content"
proof (cases "parseSegments [] [] 0 (splitKeepingLineEndings content)")
  case None
  then show ?thesis by (simp add: parse_def assemble_def concat_splitKeeping)
next
  case (Some r)
  then obtain segments where r: "parseSegments [] [] 0 (splitKeepingLineEndings content) = Some (segments, 0)"
    using assms by (cases r) (simp add: parse_def)
  from parseSegments_no_region [OF r] have "segments = flushText (splitKeepingLineEndings content)" by simp
  then show ?thesis
    using r concat_splitKeeping [of content] by (auto simp: parse_def Let_def assemble_def flushText_def)
qed

theorem no_region_content_kept_witness:
  "assemble (parse (''<<<<<<< ours'' @ [cr, nl] @ ''text'')) [] = Some (''<<<<<<< ours'' @ [cr, nl] @ ''text'')"
  by (rule no_region_content_kept)
    (simp add: parse_def splitKeepingLineEndings.simps is_start_def stripLineEnding_def ends_with_char_def new_scan_def push_current_def
      is_end_def is_base_def is_separator_def)

definition side_lines :: "bool \<Rightarrow> ConflictSegment \<Rightarrow> string list" where
  "side_lines ours s = (case s of Text ls \<Rightarrow> ls | Region r \<Rightarrow> if ours then cr_ours r else cr_theirs r)"

definition take_side :: "bool \<Rightarrow> ConflictRegionResolution" where
  "take_side ours = \<lparr>rr_choice = (if ours then Ours else Theirs), rr_customLines = []\<rparr>"

lemma take_side_choice: "rr_choice (take_side ours) \<noteq> Unresolved"
  by (simp add: take_side_def)

lemma assembleSegments_side:
  "assembleSegments segments (replicate (region_count segments) (take_side ours)) =
     Some (concat (concat (map (side_lines ours) segments)))"
proof (induction segments)
  case (Cons s segments)
  then show ?case
    by (cases s; cases ours) (simp_all add: side_lines_def chosen_def take_side_def [of True] take_side_def [of False])
qed simp

text \<open>
  A resolved file is the plain text with each region replaced by its chosen side: taking ours
  (or theirs) everywhere gives the text stretches and the ours (or theirs) lines in order, and none of the marker lines.
\<close>

lemma take_one_side:
  assumes "written_ok ws" "file_lines (concat (map written_lines ws))"
  shows "assemble (parse (conflict_text ws)) (replicate (region_count (map read_written ws)) (take_side ours)) =
    Some (concat (concat (map (side_lines ours) (map read_written ws))))"
  unfolding conflict_parsed [OF assms] assemble_def
  using assembleSegments_side [of "map read_written ws" ours] by (simp add: list_ex_iff take_side_choice)

end
