(* ===== verification/SideBySide.thy ===== *)
theory SideBySide
  imports UnifiedDiff
begin

text \<open>
  \<^verbatim>\<open>src/core/git/SideBySideDiff.h\<close> and \<^verbatim>\<open>SideBySideDiff.cpp\<close>: the lines of a hunk paired
  into the rows of a side-by-side view. A null pointer of a row is \<^const>\<open>None\<close>.
\<close>

type_synonym SideBySideRow = "DiffLine option \<times> DiffLine option"

record Pairing =
  pr_rows :: "SideBySideRow list"
  pr_removed :: "DiffLine list"
  pr_added :: "DiffLine list"
  pr_last :: DiffLineKind

definition runRows :: "DiffLine list \<Rightarrow> DiffLine list \<Rightarrow> SideBySideRow list" where
  "runRows removed added =
     map (\<lambda>i. (if i < length removed then Some (removed ! i) else None, if i < length added then Some (added ! i) else None))
       [0..<max (length removed) (length added)]"

definition flushRun :: "Pairing \<Rightarrow> Pairing" where
  "flushRun p = p\<lparr>pr_rows := pr_rows p @ runRows (pr_removed p) (pr_added p), pr_removed := [], pr_added := []\<rparr>"

definition acrossRow :: "DiffLine \<Rightarrow> Pairing \<Rightarrow> Pairing" where
  "acrossRow l p = (let q = flushRun p in q\<lparr>pr_rows := pr_rows q @ [(Some l, Some l)]\<rparr>)"

definition pairLine :: "Pairing \<Rightarrow> DiffLine \<Rightarrow> Pairing" where
  "pairLine p l = (case dl_kind l of
     Removed \<Rightarrow> p\<lparr>pr_removed := pr_removed p @ [l], pr_last := Removed\<rparr>
   | Added \<Rightarrow> p\<lparr>pr_added := pr_added p @ [l], pr_last := Added\<rparr>
   | Context \<Rightarrow> (acrossRow l p)\<lparr>pr_last := Context\<rparr>
   | NoNewlineMarker \<Rightarrow>
       if pr_last p = Removed then p\<lparr>pr_removed := pr_removed p @ [l]\<rparr>
       else if pr_last p = Added then p\<lparr>pr_added := pr_added p @ [l]\<rparr>
       else acrossRow l p)"

definition pairHunkForSideBySide :: "DiffHunk \<Rightarrow> SideBySideRow list" where
  "pairHunkForSideBySide hunk =
     pr_rows (flushRun (foldl pairLine \<lparr>pr_rows = [], pr_removed = [], pr_added = [], pr_last = Context\<rparr> (dh_lines hunk)))"

section \<open>The two columns\<close>

text \<open>
  The old and the new side of a hunk, a no-newline marker going with the line it follows: to the
  old side after a removed line, to the new side after an added one, to both after context.
\<close>

fun left_lines :: "DiffLineKind \<Rightarrow> DiffLine list \<Rightarrow> DiffLine list" where
  "left_lines k [] = []"
| "left_lines k (l # ls) = (case dl_kind l of
     Removed \<Rightarrow> l # left_lines Removed ls | Added \<Rightarrow> left_lines Added ls | Context \<Rightarrow> l # left_lines Context ls
   | NoNewlineMarker \<Rightarrow> (if k = Added then [] else [l]) @ left_lines k ls)"

fun right_lines :: "DiffLineKind \<Rightarrow> DiffLine list \<Rightarrow> DiffLine list" where
  "right_lines k [] = []"
| "right_lines k (l # ls) = (case dl_kind l of
     Removed \<Rightarrow> right_lines Removed ls | Added \<Rightarrow> l # right_lines Added ls | Context \<Rightarrow> l # right_lines Context ls
   | NoNewlineMarker \<Rightarrow> (if k = Removed then [] else [l]) @ right_lines k ls)"

abbreviation lefts :: "SideBySideRow list \<Rightarrow> DiffLine list" where "lefts rows \<equiv> List.map_filter fst rows"
abbreviation rights :: "SideBySideRow list \<Rightarrow> DiffLine list" where "rights rows \<equiv> List.map_filter snd rows"

lemma map_filter_append [simp]: "List.map_filter f (xs @ ys) = List.map_filter f xs @ List.map_filter f ys"
  by (simp add: List.map_filter_def)

lemma filter_less_upt: "m \<le> n \<Longrightarrow> filter (\<lambda>i. i < m) [0..<n] = [0..<m]"
  by (induction n) (auto simp: le_Suc_eq intro!: filter_True)

lemma map_filter_upto:
  assumes "length xs \<le> n"
  shows "List.map_filter (\<lambda>i. if i < length xs then Some (xs ! i) else None) [0..<n] = xs"
proof -
  have "filter (\<lambda>i. (if i < length xs then Some (xs ! i) else None) \<noteq> None) [0..<n] = [0..<length xs]"
    using filter_less_upt [OF assms] by (simp cong: if_cong)
  then show ?thesis by (simp add: List.map_filter_def) (rule nth_equalityI; simp)
qed

lemma runRows_columns [simp]: "lefts (runRows removed added) = removed" "rights (runRows removed added) = added"
proof -
  have "List.map_filter f (map g is) = List.map_filter (\<lambda>i. f (g i)) is" for f :: "SideBySideRow \<Rightarrow> DiffLine option" and g and "is" :: "nat list"
    by (simp add: List.map_filter_def filter_map comp_def)
  then show "lefts (runRows removed added) = removed" "rights (runRows removed added) = added"
    by (simp_all add: runRows_def map_filter_upto cong: if_cong)
qed

definition row_shown :: "SideBySideRow \<Rightarrow> bool" where
  "row_shown r \<longleftrightarrow> fst r \<noteq> None \<or> snd r \<noteq> None"

lemma row_shown_both [simp]: "row_shown (Some l, r)"
  by (simp add: row_shown_def)

lemma runRows_shown [simp]: "list_all row_shown (runRows removed added)"
  by (auto simp: runRows_def row_shown_def list_all_iff)

text \<open>The columns after any prefix of the lines, with the run not yet flushed.\<close>

lemma pairLine_columns:
  "lefts (pr_rows (pairLine p l)) @ pr_removed (pairLine p l) @ left_lines (pr_last (pairLine p l)) ls =
     lefts (pr_rows p) @ pr_removed p @ left_lines (pr_last p) (l # ls)"
  "rights (pr_rows (pairLine p l)) @ pr_added (pairLine p l) @ right_lines (pr_last (pairLine p l)) ls =
     rights (pr_rows p) @ pr_added p @ right_lines (pr_last p) (l # ls)"
  "list_all row_shown (pr_rows p) \<Longrightarrow> list_all row_shown (pr_rows (pairLine p l))"
  by (cases "dl_kind l"; cases "pr_last p"; simp add: pairLine_def acrossRow_def flushRun_def Let_def map_filter_simps)+

lemma pairLines_columns:
  assumes "list_all row_shown (pr_rows p)"
  shows "lefts (pr_rows (flushRun (foldl pairLine p ls))) = lefts (pr_rows p) @ pr_removed p @ left_lines (pr_last p) ls"
    "rights (pr_rows (flushRun (foldl pairLine p ls))) = rights (pr_rows p) @ pr_added p @ right_lines (pr_last p) ls"
    "list_all row_shown (pr_rows (flushRun (foldl pairLine p ls)))"
proof -
  have "lefts (pr_rows (flushRun (foldl pairLine p ls))) = lefts (pr_rows p) @ pr_removed p @ left_lines (pr_last p) ls \<and>
    rights (pr_rows (flushRun (foldl pairLine p ls))) = rights (pr_rows p) @ pr_added p @ right_lines (pr_last p) ls \<and>
    list_all row_shown (pr_rows (flushRun (foldl pairLine p ls)))"
    using assms
  proof (induction ls arbitrary: p)
    case (Cons l ls)
    from Cons.IH [OF pairLine_columns(3) [OF Cons.prems, of l]] show ?case
      unfolding pairLine_columns(1,2) by simp
  qed (simp add: flushRun_def)
  then show "lefts (pr_rows (flushRun (foldl pairLine p ls))) = lefts (pr_rows p) @ pr_removed p @ left_lines (pr_last p) ls"
    "rights (pr_rows (flushRun (foldl pairLine p ls))) = rights (pr_rows p) @ pr_added p @ right_lines (pr_last p) ls"
    "list_all row_shown (pr_rows (flushRun (foldl pairLine p ls)))" by blast+
qed

text \<open>
  The side-by-side view shows exactly the two sides: reading the left column top to bottom
  gives the hunk's old side and the right column its new side, in order, nothing missing and
  nothing twice, each no-newline marker on the side it belongs to; and no row is blank on both.
\<close>

theorem side_by_side_columns:
  "lefts (pairHunkForSideBySide hunk) = left_lines Context (dh_lines hunk) \<and>
   rights (pairHunkForSideBySide hunk) = right_lines Context (dh_lines hunk) \<and>
   list_all row_shown (pairHunkForSideBySide hunk)"
  using pairLines_columns [of "\<lparr>pr_rows = [], pr_removed = [], pr_added = [], pr_last = Context\<rparr>" "dh_lines hunk"]
  by (simp add: pairHunkForSideBySide_def map_filter_simps)

end
