(* ===== verification/GitErrors.thy ===== *)
theory GitErrors
  imports GBM_Prelude
begin

text \<open>
  \<^verbatim>\<open>src/core/base/Error.h\<close> and \<^verbatim>\<open>Error.cpp\<close>: the error value every core
  operation returns, its names, and the reading of git's stderr into a code and a summary. A
  \<^verbatim>\<open>GitResult<T>\<close> of the sources is a sum, \<^const>\<open>Inl\<close> the error.
\<close>

datatype Code =
  UnknownError | NotFound | InvalidArgument | ConflictError | LockHeld | Auth | HostKey
  | NonFastForward | DirtyWorkTree | HookRejected | Cancelled | ProcessFailed | SpawnFailed
  | ParseError | Corrupt | Unsupported | Timeout | TooLarge | Database | Io | NotCancellable
  | StaleBranchTip | MissingBranchTip

record GitError =
  ge_code :: Code
  ge_message :: string
  ge_detail :: string
  ge_argv :: "string list"
  ge_exitCode :: int

type_synonym 'a GitResult = "GitError + 'a"

definition git_error :: "Code \<Rightarrow> string \<Rightarrow> string \<Rightarrow> GitError" where
  "git_error code message detail =
     \<lparr>ge_code = code, ge_message = message, ge_detail = detail, ge_argv = [], ge_exitCode = 0\<rparr>"

definition cancelled :: GitError where
  "cancelled = git_error Cancelled ''Operation cancelled'' []"

text \<open>\<^verbatim>\<open>std::tolower\<close> in the C locale, and \<^verbatim>\<open>std::search\<close> under it.\<close>

definition tolower :: "char \<Rightarrow> char" where
  "tolower c = (if 65 \<le> (of_char c :: nat) \<and> (of_char c :: nat) \<le> 90 then char_of (of_char c + 32 :: nat) else c)"

fun searchFrom :: "string \<Rightarrow> string \<Rightarrow> bool" where
  "searchFrom needle [] = (needle = [])"
| "searchFrom needle (c # cs) =
     (map tolower (take (length needle) (c # cs)) = map tolower needle \<or> searchFrom needle cs)"

definition containsInsensitive :: "string \<Rightarrow> string \<Rightarrow> bool" where
  "containsInsensitive haystack needle \<longleftrightarrow> \<not> length needle > length haystack \<and> searchFrom needle haystack"

type_synonym Pattern = "string \<times> Code \<times> string"

definition kPatterns :: "Pattern list" where
  "kPatterns =
     [
      (''unable to create'', LockHeld,
       ''Could not create a Git lock file''),
      (''index.lock'', LockHeld,
       ''Another Git process appears to be running in this repository''),
      (''cannot lock ref'', LockHeld,
       ''Could not lock a Git reference''),
      (''would be overwritten by'', DirtyWorkTree,
       ''Local changes would be overwritten''),
      (''local changes to the following files'', DirtyWorkTree,
       ''Local changes would be overwritten''),
      (''please commit your changes or stash them'', DirtyWorkTree,
       ''Commit or stash your changes first''),
      (''you have unstaged changes'', DirtyWorkTree,
       ''You have unstaged changes''),
      (''conflict'', ConflictError,
       ''The operation stopped with conflicts''),
      (''after resolving the conflicts'', ConflictError,
       ''The operation stopped with conflicts''),
      (''non-fast-forward'', NonFastForward,
       ''The remote has commits you do not have locally''),
      (''fetch first'', NonFastForward,
       ''The remote has commits you do not have locally''),
      (''not possible to fast-forward'', NonFastForward,
       ''Cannot fast-forward: the branches have diverged''),
      (''stale info'', NonFastForward,
       ''The remote has moved since you last fetched; fetch and try again''),
      (''host key verification failed'', HostKey,
       (''The server'' @ [CHR 0x27] @ ''s host key could not be verified'')),
      (''authenticity of host'', HostKey,
       ''Unknown SSH host key''),
      (''authentication failed'', Auth,
       ''Authentication failed''),
      (''could not read username'', Auth,
       ''Git needs credentials''),
      (''permission denied (publickey'', Auth,
       ''SSH key was rejected''),
      (''terminal prompts disabled'', Auth,
       ''Git needs credentials''),
      (''pre-commit hook'', HookRejected,
       ''A pre-commit hook rejected this''),
      (''commit-msg hook'', HookRejected,
       ''A commit-msg hook rejected this''),
      (''hook declined'', HookRejected,
       ''A Git hook rejected this''),
      (''nothing to commit'', InvalidArgument,
       ''There is nothing staged to commit''),
      (''nothing added to commit'', InvalidArgument,
       ''There is nothing staged to commit''),
      (''patch does not apply'', ConflictError,
       ''This change no longer matches the file; refresh and try again''),
      (''patch failed'', ConflictError,
       ''This change no longer matches the file; refresh and try again''),
      (''did not match any file'', NotFound,
       ''No matching ref or path''),
      (''unknown revision'', NotFound,
       ''Unknown revision''),
      (''not a git repository'', NotFound,
       ''Not a Git repository''),
      (''bad object'', NotFound,
       ''No such object''),
      (''does not exist'', NotFound,
       ''Not found''),
      (''object file is empty'', Corrupt,
       ''The repository has a corrupt object''),
      (''loose object'', Corrupt,
       ''The repository has a corrupt object''),
      (''unknown option'', Unsupported,
       ''This Git version does not support an option we used''),
      (''timed out'', Timeout,
       ''The operation timed out'')
     ]"

fun toString :: "Code \<Rightarrow> string" where
  "toString UnknownError = ''Unknown''"
| "toString NotFound = ''NotFound''"
| "toString InvalidArgument = ''InvalidArgument''"
| "toString ConflictError = ''Conflict''"
| "toString LockHeld = ''LockHeld''"
| "toString Auth = ''Auth''"
| "toString HostKey = ''HostKey''"
| "toString NonFastForward = ''NonFastForward''"
| "toString DirtyWorkTree = ''DirtyWorkTree''"
| "toString HookRejected = ''HookRejected''"
| "toString Cancelled = ''Cancelled''"
| "toString ProcessFailed = ''ProcessFailed''"
| "toString SpawnFailed = ''SpawnFailed''"
| "toString ParseError = ''ParseError''"
| "toString Corrupt = ''Corrupt''"
| "toString Unsupported = ''Unsupported''"
| "toString Timeout = ''Timeout''"
| "toString TooLarge = ''TooLarge''"
| "toString Database = ''Database''"
| "toString Io = ''Io''"
| "toString NotCancellable = ''NotCancellable''"
| "toString StaleBranchTip = ''StaleBranchTip''"
| "toString MissingBranchTip = ''MissingBranchTip''"

fun classifyWith :: "Pattern list \<Rightarrow> string \<Rightarrow> int \<Rightarrow> GitError" where
  "classifyWith [] stderrText exitCode =
     (git_error ProcessFailed ''Git reported an error'' stderrText)\<lparr>ge_exitCode := exitCode\<rparr>"
| "classifyWith ((needle, code, summary) # patterns) stderrText exitCode =
     (if containsInsensitive stderrText needle
      then (git_error code summary stderrText)\<lparr>ge_exitCode := exitCode\<rparr>
      else classifyWith patterns stderrText exitCode)"

definition classifyGitStderr :: "string \<Rightarrow> int \<Rightarrow> GitError" where
  "classifyGitStderr stderrText exitCode = classifyWith kPatterns stderrText exitCode"

section \<open>The search\<close>

lemma tolower_idem [simp]: "tolower (tolower c) = tolower c"
proof -
  have "(of_char (char_of (of_char c + 32 :: nat)) :: nat) = of_char c + 32" if "(of_char c :: nat) \<le> 90"
    using that by (simp add: of_char_of)
  then show ?thesis by (simp add: tolower_def)
qed

lemma searchFrom_iff: "searchFrom needle s \<longleftrightarrow> (\<exists>a b c. s = a @ b @ c \<and> map tolower b = map tolower needle)"
proof (induction s)
  case (Cons x s)
  have "(\<exists>a b c. x # s = a @ b @ c \<and> map tolower b = map tolower needle) \<longleftrightarrow>
      (\<exists>b c. x # s = b @ c \<and> map tolower b = map tolower needle) \<or>
      (\<exists>a b c. s = a @ b @ c \<and> map tolower b = map tolower needle)"
    by (auto simp: Cons_eq_append_conv) blast+
  moreover have "(\<exists>b c. x # s = b @ c \<and> map tolower b = map tolower needle) \<longleftrightarrow>
      map tolower (take (length needle) (x # s)) = map tolower needle"
    by (metis append_eq_conv_conj append_take_drop_id length_map)
  ultimately show ?case using Cons.IH by simp
qed auto

lemma containsInsensitive_iff:
  "containsInsensitive s needle \<longleftrightarrow> (\<exists>a b c. s = a @ b @ c \<and> map tolower b = map tolower needle)"
proof -
  have "length needle \<le> length s" if "s = a @ b @ c" "map tolower b = map tolower needle" for a b c
    using that map_eq_imp_length_eq [OF that(2)] by simp
  then show ?thesis unfolding containsInsensitive_def searchFrom_iff not_less by blast
qed

lemma containsInsensitive_sub:
  assumes "containsInsensitive s (p @ n @ q)"
  shows "containsInsensitive s n"
proof -
  obtain a b c where s: "s = a @ b @ c" and "map tolower b = map tolower p @ map tolower n @ map tolower q"
    using assms by (auto simp: containsInsensitive_iff)
  then obtain b1 b2 b3 where "b = b1 @ b2 @ b3" "map tolower b2 = map tolower n"
    by (metis map_eq_append_conv)
  with s show ?thesis unfolding containsInsensitive_iff by (metis append.assoc)
qed

lemma classifyWith_fields: "ge_detail (classifyWith ps s n) = s \<and> ge_exitCode (classifyWith ps s n) = n \<and> ge_argv (classifyWith ps s n) = []"
  by (induction ps s n rule: classifyWith.induct) (simp_all add: git_error_def)

lemma classifyWith_find:
  "ge_code (classifyWith ps s n) =
     (case find (\<lambda>(needle, _). containsInsensitive s needle) ps of Some (_, code, _) \<Rightarrow> code | None \<Rightarrow> ProcessFailed)"
  by (induction ps s n rule: classifyWith.induct) (simp_all add: git_error_def)

lemma classifyWith_shadow:
  "(containsInsensitive s (fst q) \<Longrightarrow> \<exists>p \<in> set ps. containsInsensitive s (fst p)) \<Longrightarrow>
     classifyWith (ps @ q # qs) s n = classifyWith (ps @ qs) s n"
proof (induction ps)
  case Nil
  then show ?case by (cases q) auto
next
  case (Cons p ps)
  then show ?case by (cases p) auto
qed

lemma toString_eq: "toString a = toString b \<Longrightarrow> a = b"
  by (cases a; cases b; simp)

section \<open>What a failure is reported as\<close>

definition pattern_codes :: "Code set" where
  "pattern_codes = (\<lambda>(_, code, _). code) ` set kPatterns"

lemma pattern_codes_eq:
  "pattern_codes = {LockHeld, DirtyWorkTree, ConflictError, NonFastForward, HostKey, Auth, HookRejected,
     InvalidArgument, NotFound, Corrupt, Unsupported, Timeout}"
  by (auto simp: pattern_codes_def kPatterns_def)

text \<open>
  A failed git command is reported with git's stderr verbatim and the exit code, under
  the code of the first phrase of the table that occurs in it, in any letter case; it is the generic
  process failure exactly when no phrase occurs, and never a cancellation.
\<close>

theorem classify_exact:
  "ge_detail (classifyGitStderr s n) = s \<and> ge_exitCode (classifyGitStderr s n) = n \<and>
   ge_code (classifyGitStderr s n) =
     (case find (\<lambda>(needle, _). \<exists>a b c. s = a @ b @ c \<and> map tolower b = map tolower needle) kPatterns of
        Some (_, code, _) \<Rightarrow> code | None \<Rightarrow> ProcessFailed) \<and>
   ge_code (classifyGitStderr s n) \<noteq> Cancelled"
proof -
  have "ge_code (classifyGitStderr s n) \<in> insert ProcessFailed pattern_codes"
    by (auto simp: classifyGitStderr_def classifyWith_find pattern_codes_def find_Some_iff split: option.splits)
       (metis (mono_tags, lifting) case_prod_conv imageI nth_mem)
  then have "ge_code (classifyGitStderr s n) \<noteq> Cancelled" by (auto simp: pattern_codes_eq)
  then show ?thesis
    by (simp add: classifyGitStderr_def classifyWith_fields classifyWith_find containsInsensitive_iff)
qed

text \<open>
  The table holds a phrase that can never decide: whatever contains \<open>after resolving the
  conflicts\<close> contains \<open>conflict\<close>, which comes before it, so the table without that entry
  classifies every text alike.
\<close>

theorem shadowed_pattern:
  "classifyGitStderr s n =
     classifyWith (filter (\<lambda>(needle, _). needle \<noteq> ''after resolving the conflicts'') kPatterns) s n"
proof -
  have "containsInsensitive s (''after resolving the '' @ ''conflict'' @ ''s'') \<Longrightarrow> containsInsensitive s ''conflict''"
    by (rule containsInsensitive_sub)
  then have "containsInsensitive s (fst (kPatterns ! 8)) \<Longrightarrow> \<exists>p \<in> set (take 8 kPatterns). containsInsensitive s (fst p)"
    by (simp add: kPatterns_def)
  then have "classifyWith (take 8 kPatterns @ kPatterns ! 8 # drop 9 kPatterns) s n = classifyWith (take 8 kPatterns @ drop 9 kPatterns) s n"
    by (rule classifyWith_shadow)
  moreover have "take 8 kPatterns @ kPatterns ! 8 # drop 9 kPatterns = kPatterns" by (simp add: kPatterns_def)
  moreover have "filter (\<lambda>(needle, _). needle \<noteq> ''after resolving the conflicts'') kPatterns = take 8 kPatterns @ drop 9 kPatterns"
    by (simp add: kPatterns_def)
  ultimately show ?thesis by (simp add: classifyGitStderr_def)
qed

end
