(* ===== verification/TextTraits.thy ===== *)
theory TextTraits
  imports GBM_Prelude
begin

text \<open>
  \<^verbatim>\<open>src/core/git/TextTraits.cpp\<close> and \<^verbatim>\<open>TransferProgress.cpp\<close> (with their headers): the
  line endings and the encoding of raw bytes, the collapse of git's in-place redraws in a log, and
  the transfer meter read out of git's progress output.
\<close>

datatype LineEndingKind = NoLineEnding | Lf | Crlf | Mixed

datatype EncodingKind = Utf8 | Utf8Bom | Utf16Le | Utf16Be | NonUtf8 | Binary

record TextTraits =
  tt_lineEnding :: LineEndingKind
  tt_encoding :: EncodingKind
  tt_hasFinalNewline :: bool

section \<open>Line endings and encoding\<close>

text \<open>The two flags of the scan; the first argument is the character before, if there is one.\<close>

fun seenEndings :: "char option \<Rightarrow> string \<Rightarrow> bool \<times> bool \<Rightarrow> bool \<times> bool" where
  "seenEndings prev [] seen = seen"
| "seenEndings prev (c # cs) (sawLf, sawCrlf) =
     seenEndings (Some c) cs
       (if c \<noteq> nl then (sawLf, sawCrlf) else if prev = Some cr then (sawLf, True) else (True, sawCrlf))"

definition detectLineEnding :: "string \<Rightarrow> LineEndingKind" where
  "detectLineEnding rawBytes =
     (case seenEndings None rawBytes (False, False) of (sawLf, sawCrlf) \<Rightarrow>
        if sawLf \<and> sawCrlf then Mixed else if sawCrlf then Crlf else if sawLf then Lf else NoLineEnding)"

abbreviation byte_of :: "char \<Rightarrow> 8 word" where "byte_of c \<equiv> word_of_nat (of_char c)"

definition utf8_extra :: "8 word \<Rightarrow> nat option" where
  "utf8_extra byte =
     (if byte \<le> 0x7F then Some 0
      else if byte AND 0xE0 = 0xC0 then Some 1
      else if byte AND 0xF0 = 0xE0 then Some 2
      else if byte AND 0xF8 = 0xF0 then Some 3
      else None)"

function isValidUtf8 :: "string \<Rightarrow> bool" where
  "isValidUtf8 [] = True"
| "isValidUtf8 (c # cs) =
     (case utf8_extra (byte_of c) of
        None \<Rightarrow> False
      | Some extra \<Rightarrow>
          if extra \<ge> Suc (length cs) then False
          else if list_all (\<lambda>b. byte_of b AND 0xC0 = 0x80) (take extra cs) then isValidUtf8 (drop extra cs)
          else False)"
  by pat_completeness auto
termination
  by (relation "measure length") auto

definition detectEncoding :: "string \<Rightarrow> EncodingKind" where
  "detectEncoding rawBytes =
     (if starts_with rawBytes [CHR 0xEF, CHR 0xBB, CHR 0xBF] then Utf8Bom
      else if starts_with rawBytes [CHR 0xFF, CHR 0xFE] then Utf16Le
      else if starts_with rawBytes [CHR 0xFE, CHR 0xFF] then Utf16Be
      else if find_char CHR 0x00 rawBytes \<noteq> None then Binary
      else if isValidUtf8 rawBytes then Utf8 else NonUtf8)"

definition detectTextTraits :: "string \<Rightarrow> TextTraits" where
  "detectTextTraits rawBytes =
     \<lparr>tt_lineEnding = detectLineEnding rawBytes, tt_encoding = detectEncoding rawBytes,
      tt_hasFinalNewline = (rawBytes = [] \<or> last rawBytes = nl)\<rparr>"

section \<open>Redraws in a log\<close>

fun collapseFrom :: "string \<Rightarrow> nat \<Rightarrow> bool \<Rightarrow> string \<Rightarrow> string" where
  "collapseFrom out lineStart redrawPending [] = out"
| "collapseFrom out lineStart redrawPending (c # cs) =
     (if c = cr \<and> (cs = [] \<or> hd cs \<noteq> nl) then collapseFrom out lineStart True cs
      else let out' = (if redrawPending then take lineStart out else out) @ [c]
           in collapseFrom out' (if c = nl then length out' else lineStart) False cs)"

definition collapseCarriageReturns :: "string \<Rightarrow> string" where
  "collapseCarriageReturns text = collapseFrom [] 0 False text"

section \<open>The transfer meter\<close>

datatype Phase = ReceivingObjects | ResolvingDeltas

record TransferProgress =
  tp_phase :: Phase
  tp_current :: nat
  tp_total :: nat

definition kReceiving :: string where "kReceiving = ''Receiving objects:''"
definition kResolving :: string where "kResolving = ''Resolving deltas:''"

definition readCount :: "string \<Rightarrow> char \<Rightarrow> (nat \<times> string) option" where
  "readCount text terminator =
     (case from_chars 64 text of
        (None, _) \<Rightarrow> None
      | (Some value', n) \<Rightarrow> if n = length text \<or> text ! n \<noteq> terminator then None else Some (value', drop (n + 1) text))"

definition parseCounts :: "Phase \<Rightarrow> string \<Rightarrow> TransferProgress option" where
  "parseCounts phase line =
     (case find_char CHR ''('' line of
        None \<Rightarrow> None
      | Some open' \<Rightarrow>
          (case readCount (drop (open' + 1) line) CHR ''/'' of
             None \<Rightarrow> None
           | Some (current, rest) \<Rightarrow>
               (case readCount rest CHR '')'' of
                  None \<Rightarrow> None
                | Some (total', _) \<Rightarrow> Some \<lparr>tp_phase = phase, tp_current = current, tp_total = total'\<rparr>)))"

definition parseLine :: "string \<Rightarrow> TransferProgress option" where
  "parseLine line =
     (if starts_with line kReceiving then parseCounts ReceivingObjects (drop (length kReceiving) line)
      else if starts_with line kResolving then parseCounts ResolvingDeltas (drop (length kResolving) line)
      else None)"

definition is_break :: "char \<Rightarrow> bool" where "is_break c \<longleftrightarrow> c = cr \<or> c = nl"

function parseChunk :: "TransferProgress option \<Rightarrow> string \<Rightarrow> TransferProgress option" where
  "parseChunk latest chunk =
     (if chunk = [] then latest
      else let line = takeWhile (\<lambda>c. \<not> is_break c) chunk;
               latest' = (case parseLine line of Some p \<Rightarrow> Some p | None \<Rightarrow> latest)
           in if length line = length chunk then latest' else parseChunk latest' (drop (length line + 1) chunk))"
  by auto
termination
  by (relation "measure (\<lambda>(latest, chunk). length chunk)") auto

declare parseChunk.simps [simp del]

definition parseTransferProgress :: "string \<Rightarrow> TransferProgress option" where
  "parseTransferProgress chunk = parseChunk None chunk"

section \<open>Line endings, exactly\<close>

definition crlf_at :: "string \<Rightarrow> nat \<Rightarrow> bool" where
  "crlf_at s i \<longleftrightarrow> i < length s \<and> s ! i = nl \<and> i > 0 \<and> s ! (i - 1) = cr"

definition lf_at :: "string \<Rightarrow> nat \<Rightarrow> bool" where
  "lf_at s i \<longleftrightarrow> i < length s \<and> s ! i = nl \<and> \<not> (i > 0 \<and> s ! (i - 1) = cr)"

lemma seenEndings_spec:
  "seenEndings prev s (a, b) =
     (a \<or> (\<exists>i < length s. s ! i = nl \<and> \<not> (if i = 0 then prev = Some cr else s ! (i - 1) = cr)),
      b \<or> (\<exists>i < length s. s ! i = nl \<and> (if i = 0 then prev = Some cr else s ! (i - 1) = cr)))"
proof (induction s arbitrary: prev a b)
  case (Cons c cs)
  have step: "(\<exists>i < length (c # cs). (c # cs) ! i = nl \<and> Q (if i = 0 then prev = Some cr else (c # cs) ! (i - 1) = cr)) \<longleftrightarrow>
      c = nl \<and> Q (prev = Some cr) \<or> (\<exists>i < length cs. cs ! i = nl \<and> Q (if i = 0 then Some c = Some cr else cs ! (i - 1) = cr))" for Q
    by (simp add: Ex_less_Suc2 nth_Cons' cong: conj_cong if_cong)
  show ?case
    using step [of "\<lambda>x. \<not> x"] step [of "\<lambda>x. x"] Cons.IH by (auto split: if_splits)
qed simp

text \<open>
  The line-ending verdict is exact: a file is mixed when it holds both a line feed behind a
  carriage return and one that is not, CRLF or LF when it holds only that one, and none when it
  holds no line feed.
\<close>

theorem line_ending_exact:
  "detectLineEnding s =
     (if \<exists>i. crlf_at s i then (if \<exists>i. lf_at s i then Mixed else Crlf)
      else if \<exists>i. lf_at s i then Lf else NoLineEnding)"
proof -
  have "seenEndings None s (False, False) = (\<exists>i. lf_at s i, \<exists>i. crlf_at s i)"
  proof -
    have "(if i = 0 then None = Some cr else s ! (i - 1) = cr) \<longleftrightarrow> i > 0 \<and> s ! (i - 1) = cr" for i by simp
    then show ?thesis unfolding seenEndings_spec lf_at_def crlf_at_def by simp
  qed
  then show ?thesis by (auto simp: detectLineEnding_def)
qed

section \<open>Collapsing redraws\<close>

text \<open>No carriage return that is not part of a line end.\<close>

fun no_lone_cr :: "string \<Rightarrow> bool" where
  "no_lone_cr [] = True"
| "no_lone_cr (c # cs) = ((c = cr \<longrightarrow> cs \<noteq> [] \<and> hd cs = nl) \<and> no_lone_cr cs)"

text \<open>While collecting, a carriage return may end the output if a line feed comes next.\<close>

definition cr_closed :: "string \<Rightarrow> string \<Rightarrow> bool" where
  "cr_closed out cs \<longleftrightarrow> (if out \<noteq> [] \<and> last out = cr then cs \<noteq> [] \<and> hd cs = nl \<and> no_lone_cr (butlast out) else no_lone_cr out)"

lemma no_lone_cr_append: "no_lone_cr xs \<Longrightarrow> no_lone_cr ys \<Longrightarrow> no_lone_cr (xs @ ys)"
  by (induction xs) (auto simp: hd_append)

lemma no_lone_cr_last: "no_lone_cr xs \<Longrightarrow> xs \<noteq> [] \<Longrightarrow> last xs \<noteq> cr"
  by (induction xs) (auto split: if_splits)

lemma no_lone_cr_snoc: "no_lone_cr xs \<Longrightarrow> c \<noteq> cr \<Longrightarrow> no_lone_cr (xs @ [c])"
  by (rule no_lone_cr_append) auto

lemma no_lone_cr_crlf: "no_lone_cr xs \<Longrightarrow> no_lone_cr (xs @ [cr, nl])"
  by (rule no_lone_cr_append) auto

lemma collapseFrom_clean:
  assumes "cr_closed out cs" "no_lone_cr (take lineStart out)" "lineStart \<le> length out" "pend \<Longrightarrow> no_lone_cr out"
  shows "no_lone_cr (collapseFrom out lineStart pend cs)"
  using assms
proof (induction out lineStart pend cs rule: collapseFrom.induct)
  case (1 out lineStart pend)
  then show ?case by (simp add: cr_closed_def split: if_splits)
next
  case (2 out lineStart pend c cs)
  show ?case
  proof (cases "c = cr \<and> (cs = [] \<or> hd cs \<noteq> nl)")
    case True
    then have "no_lone_cr out" using "2.prems"(1) by (auto simp: cr_closed_def split: if_splits)
    then have "cr_closed out cs" using no_lone_cr_last by (auto simp: cr_closed_def)
    with 2(1) True "2.prems" \<open>no_lone_cr out\<close> show ?thesis by simp
  next
    case False
    let ?base = "if pend then take lineStart out else out"
    let ?out = "?base @ [c]" and ?start = "if c = nl then length (?base @ [c]) else lineStart"
    have start: "lineStart \<le> length ?base" using "2.prems"(3) by simp
    have closed: "cr_closed ?out cs"
    proof (cases "?base \<noteq> [] \<and> last ?base = cr")
      case True
      then have "\<not> pend" using "2.prems"(2) no_lone_cr_last by fastforce
      with True "2.prems"(1) have "c = nl" "no_lone_cr (butlast out)" "out = butlast out @ [cr]"
        by (auto simp: cr_closed_def) (metis append_butlast_last_id)+
      then have "no_lone_cr (out @ [nl])" using no_lone_cr_crlf [of "butlast out"] by (metis append.assoc append_Cons append_Nil)
      with \<open>\<not> pend\<close> \<open>c = nl\<close> show ?thesis by (simp add: cr_closed_def)
    next
      case base: False
      have "no_lone_cr ?base" using "2.prems"(1,2) base by (auto simp: cr_closed_def split: if_splits)
      then show ?thesis using False no_lone_cr_snoc by (cases "c = cr") (auto simp: cr_closed_def)
    qed
    have "no_lone_cr (take ?start ?out)"
      using closed "2.prems"(2) start by (auto simp: cr_closed_def split: if_splits)
    moreover have "?start \<le> length ?out" using start by simp
    ultimately have "no_lone_cr (collapseFrom ?out ?start False cs)" using 2(2) [OF False refl] closed by blast
    moreover have "collapseFrom out lineStart pend (c # cs) = collapseFrom ?out ?start False cs"
      using False by (simp only: collapseFrom.simps Let_def if_False)
    ultimately show ?thesis by simp
  qed
qed

lemma collapseFrom_id: "no_lone_cr cs \<Longrightarrow> collapseFrom out lineStart False cs = out @ cs"
proof (induction cs arbitrary: out lineStart)
  case (Cons c cs)
  then show ?case by (auto simp: Let_def)
qed simp

text \<open>
  A log never shows a half-drawn line: the collapsed text holds no carriage return that is
  not part of a line end, collapsing a collapsed text changes nothing, and the texts left as they
  are are exactly those with no redraw in them.
\<close>

theorem collapse_redraws:
  "no_lone_cr (collapseCarriageReturns text) \<and>
   collapseCarriageReturns (collapseCarriageReturns text) = collapseCarriageReturns text \<and>
   (collapseCarriageReturns text = text \<longleftrightarrow> no_lone_cr text)"
proof -
  have "no_lone_cr (collapseCarriageReturns text)"
    unfolding collapseCarriageReturns_def by (rule collapseFrom_clean) (simp_all add: cr_closed_def)
  moreover have "collapseCarriageReturns t = t" if "no_lone_cr t" for t
    using collapseFrom_id [OF that] by (simp add: collapseCarriageReturns_def)
  ultimately show ?thesis by metis
qed

section \<open>The last redraw wins\<close>

text \<open>What git prints for one redraw: the label, the percentage, and the two counts.\<close>

definition redraw :: "Phase \<Rightarrow> string \<Rightarrow> nat \<Rightarrow> nat \<Rightarrow> string \<Rightarrow> string" where
  "redraw phase percent current total' rest =
     (case phase of ReceivingObjects \<Rightarrow> kReceiving | ResolvingDeltas \<Rightarrow> kResolving) @ percent @
     ''('' @ to_string current @ ''/'' @ to_string total' @ '')'' @ rest"

lemma readCount_to_string:
  assumes "n < 2 ^ 64" "\<not> is_digit c"
  shows "readCount (to_string n @ c # rest) c = Some (n, rest)"
  using from_chars_to_string [OF assms(1), of "c # rest"] assms(2) by (simp add: readCount_def)

lemma parseLine_redraw:
  assumes "current < 2 ^ 64" "total' < 2 ^ 64" "CHR ''('' \<notin> set percent"
  shows "parseLine (redraw phase percent current total' rest) =
    Some \<lparr>tp_phase = phase, tp_current = current, tp_total = total'\<rparr>"
proof -
  have slash: "\<not> is_digit CHR ''/''" "\<not> is_digit CHR '')''" by (simp_all add: is_digit_def)
  have "parseCounts phase (percent @ CHR ''('' # to_string current @ CHR ''/'' # to_string total' @ CHR '')'' # rest) =
      Some \<lparr>tp_phase = phase, tp_current = current, tp_total = total'\<rparr>"
    using assms slash by (simp add: parseCounts_def readCount_to_string)
  then show ?thesis
    by (cases phase) (simp_all add: redraw_def parseLine_def kReceiving_def kResolving_def)
qed

text \<open>The segments of a chunk between breaks; the last parsed one is the answer.\<close>

lemma parseLine_Nil [simp]: "parseLine [] = None"
  by (simp add: parseLine_def kReceiving_def kResolving_def)

lemma parseChunk_append:
  assumes "is_break b"
  shows "parseChunk latest (xs @ b # ys) = parseChunk (parseChunk latest xs) ys"
proof (induction latest xs rule: parseChunk.induct)
  case (1 latest xs)
  let ?line = "takeWhile (\<lambda>c. \<not> is_break c) xs"
  show ?case
  proof (cases "?line = xs")
    case True
    have whole: "takeWhile (\<lambda>c. \<not> is_break c) (xs @ b # ys) = xs"
      using True assms by (subst takeWhile_append2) (auto simp: takeWhile_eq_all_conv)
    have "parseChunk latest xs = (case parseLine xs of Some p \<Rightarrow> Some p | None \<Rightarrow> latest)"
      by (subst parseChunk.simps) (simp only: True Let_def if_True, simp)
    moreover have "parseChunk latest (xs @ b # ys) = parseChunk (case parseLine xs of Some p \<Rightarrow> Some p | None \<Rightarrow> latest) ys"
      by (subst parseChunk.simps) (simp only: whole Let_def, simp)
    ultimately show ?thesis by simp
  next
    case False
    then have neq: "xs \<noteq> []" "length ?line \<noteq> length xs"
      by (auto, metis order_refl take_all takeWhile_eq_take)
    obtain x where "x \<in> set xs" "is_break x" using False by (auto simp: takeWhile_eq_all_conv)
    then have line: "takeWhile (\<lambda>c. \<not> is_break c) (xs @ b # ys) = ?line" by (intro takeWhile_append1) auto
    have len: "length ?line < length xs" using neq(2) length_takeWhile_le [of "\<lambda>c. \<not> is_break c" xs] by linarith
    show ?thesis
      using 1 [OF neq(1) refl refl neq(2)] neq len
      by (simp add: parseChunk.simps [of latest "xs @ b # ys"] parseChunk.simps [of latest xs] Let_def line)
  qed
qed

lemma parseChunk_segment: "\<forall>c \<in> set line. \<not> is_break c \<Longrightarrow> parseLine line = Some p \<Longrightarrow> parseChunk latest line = Some p"
  by (subst parseChunk.simps) (auto simp: Let_def takeWhile_eq_all_conv [THEN iffD2])

text \<open>
  The transfer meter reports the last redraw: whatever git printed before on the stream, a
  chunk that ends in a redraw of one phase reports that phase and exactly the two counts printed,
  up to 64-bit counts.
\<close>

theorem last_redraw_reported:
  assumes "current < 2 ^ 64" "total' < 2 ^ 64" "CHR ''('' \<notin> set percent"
    and "list_all (\<lambda>c. \<not> is_break c) (percent @ rest)" and "is_break b"
  shows "parseTransferProgress (before @ b # redraw phase percent current total' rest) =
    Some \<lparr>tp_phase = phase, tp_current = current, tp_total = total'\<rparr>"
proof -
  have "\<not> is_digit cr" "\<not> is_digit nl" by (simp_all add: is_digit_def)
  then have digits: "cr \<notin> set (to_string n)" "nl \<notin> set (to_string n)" for n using to_string_digits by blast+
  have "\<forall>c \<in> set (redraw phase percent current total' rest). \<not> is_break c"
    using assms(4) digits by (cases phase) (auto simp: redraw_def kReceiving_def kResolving_def list_all_iff is_break_def)
  from parseChunk_segment [OF this parseLine_redraw [OF assms(1-3)]] show ?thesis
    by (simp add: parseTransferProgress_def parseChunk_append [OF assms(5)])
qed

theorem last_redraw_reported_witness:
  "parseTransferProgress (''remote: Counting (9/9)'' @ cr # redraw ReceivingObjects '' 50% '' 2 4 []) =
     Some \<lparr>tp_phase = ReceivingObjects, tp_current = 2, tp_total = 4\<rparr>"
  using last_redraw_reported [of 2 4 "'' 50% ''" "[]" cr "''remote: Counting (9/9)''" ReceivingObjects]
  by (simp add: is_break_def)

end
