(* ===== verification/WorkingCopy.thy ===== *)
theory WorkingCopy
  imports GitErrors UnifiedDiff TextTraits
begin

text \<open>
  \<^verbatim>\<open>src/core/git/WorkingCopyStatus.h\<close> and \<^verbatim>\<open>WorkingCopyStatus.cpp\<close>: the entries of
  the working copy read from \<^verbatim>\<open>git status --porcelain=v2 -z\<close>, the line counts joined onto
  them from the two \<^verbatim>\<open>--numstat\<close> passes, the counts of untracked files with their cache, and
  the read that composes them.

  The process runner is an interface (\<^verbatim>\<open>IProcessRunner\<close>): here an argument from the command
  line to its streamed records or its error. One read issues each of its four command lines at most
  once, so this covers a repository that changes between the commands. The file system is an argument
  of the same kind, with the size, the time and the contents of a path as three independent answers.
\<close>

datatype ConflictKind =
  NoConflict | BothAdded | BothModified | BothDeleted | AddedByUs | DeletedByUs | AddedByThem | DeletedByThem

record WorkingCopyEntry =
  wc_path :: string
  wc_oldPath :: string
  wc_untracked :: bool
  wc_staged :: bool
  wc_indexStatus :: FileChangeKind
  wc_hasUnstagedChange :: bool
  wc_worktreeStatus :: FileChangeKind
  wc_unstagedAdded :: nat
  wc_unstagedRemoved :: nat
  wc_stagedAdded :: nat
  wc_stagedRemoved :: nat
  wc_conflict :: ConflictKind
  wc_ancestorBlob :: string
  wc_oursBlob :: string
  wc_theirsBlob :: string
  wc_similarity :: nat
  wc_isSubmodule :: bool
  wc_untrackedSize :: nat
  wc_untrackedMtimeTicks :: int

definition new_entry :: WorkingCopyEntry where
  "new_entry = \<lparr>wc_path = [], wc_oldPath = [], wc_untracked = False,
     wc_staged = False, wc_indexStatus = FileModified, wc_hasUnstagedChange = False, wc_worktreeStatus = FileModified,
     wc_unstagedAdded = 0, wc_unstagedRemoved = 0, wc_stagedAdded = 0, wc_stagedRemoved = 0,
     wc_conflict = NoConflict, wc_ancestorBlob = [], wc_oursBlob = [], wc_theirsBlob = [],
     wc_similarity = 0, wc_isSubmodule = False, wc_untrackedSize = 0, wc_untrackedMtimeTicks = 0\<rparr>"

definition isConflicted :: "WorkingCopyEntry \<Rightarrow> bool" where
  "isConflicted e \<longleftrightarrow> wc_conflict e \<noteq> NoConflict"

record WorkingCopyStatus =
  ws_entries :: "WorkingCopyEntry list"
  ws_lineCountsUnavailable :: bool

definition staged :: "WorkingCopyStatus \<Rightarrow> WorkingCopyEntry list" where
  "staged s = filter (\<lambda>e. wc_staged e \<and> \<not> isConflicted e) (ws_entries s)"

definition unstaged :: "WorkingCopyStatus \<Rightarrow> WorkingCopyEntry list" where
  "unstaged s = filter (\<lambda>e. wc_hasUnstagedChange e \<and> \<not> wc_untracked e \<and> \<not> isConflicted e) (ws_entries s)"

definition untracked :: "WorkingCopyStatus \<Rightarrow> WorkingCopyEntry list" where
  "untracked s = filter wc_untracked (ws_entries s)"

definition conflicted :: "WorkingCopyStatus \<Rightarrow> WorkingCopyEntry list" where
  "conflicted s = filter isConflicted (ws_entries s)"

section \<open>Reading the status records\<close>

definition kindForCode :: "char \<Rightarrow> FileChangeKind" where
  "kindForCode c =
     (if c = CHR ''A'' then FileAdded else if c = CHR ''D'' then FileDeleted
      else if c = CHR ''R'' then FileRenamed else if c = CHR ''C'' then FileCopied
      else if c = CHR ''T'' then FileTypeChanged else FileModified)"

definition conflictForXY :: "char \<Rightarrow> char \<Rightarrow> ConflictKind" where
  "conflictForXY x y =
     (if x = CHR ''A'' \<and> y = CHR ''A'' then BothAdded
      else if x = CHR ''U'' \<and> y = CHR ''U'' then BothModified
      else if x = CHR ''D'' \<and> y = CHR ''D'' then BothDeleted
      else if x = CHR ''A'' \<and> y = CHR ''U'' then AddedByUs
      else if x = CHR ''D'' \<and> y = CHR ''U'' then DeletedByUs
      else if x = CHR ''U'' \<and> y = CHR ''A'' then AddedByThem
      else if x = CHR ''U'' \<and> y = CHR ''D'' then DeletedByThem
      else BothModified)"

text \<open>The second argument is one less than the number of fields still allowed.\<close>

fun splitFields :: "string \<Rightarrow> nat \<Rightarrow> string list" where
  "splitFields line 0 = [line]"
| "splitFields line (Suc n) =
     (case find_char CHR '' '' line of
        None \<Rightarrow> [line]
      | Some space \<Rightarrow> take space line # splitFields (drop (space + 1) line) n)"

definition splitFieldsMax :: "string \<Rightarrow> nat \<Rightarrow> string list" where
  "splitFieldsMax line maxFields = splitFields line (maxFields - 1)"

definition blobOrEmpty :: "string \<Rightarrow> string" where
  "blobOrEmpty h = (if list_all (\<lambda>c. c = CHR ''0'') h then [] else h)"

text \<open>The target is an \<^verbatim>\<open>int\<close>; the field starts at a digit, so no sign is read.\<close>

definition parseScore :: "string \<Rightarrow> nat" where
  "parseScore scoreField =
     (case fst (from_chars 31 (dropWhile (\<lambda>c. \<not> is_digit c) scoreField)) of Some v \<Rightarrow> v | None \<Rightarrow> 0)"

text \<open>The shared part of a record of type \<open>1\<close> or \<open>2\<close>, from its fields.\<close>

definition changedEntry :: "string list \<Rightarrow> WorkingCopyEntry" where
  "changedEntry tokens =
     (let xy = tokens ! 1; sub = tokens ! 2;
          x = (if xy \<noteq> [] then xy ! 0 else CHR ''.''); y = (if length xy > 1 then xy ! 1 else CHR ''.'');
          entry = new_entry\<lparr>wc_path := last tokens, wc_isSubmodule := sub \<noteq> [] \<and> hd sub = CHR ''S''\<rparr>;
          entry = (if x \<noteq> CHR ''.'' then entry\<lparr>wc_staged := True, wc_indexStatus := kindForCode x\<rparr> else entry)
      in if y \<noteq> CHR ''.'' then entry\<lparr>wc_hasUnstagedChange := True, wc_worktreeStatus := kindForCode y\<rparr> else entry)"

definition unmergedEntry :: "string list \<Rightarrow> WorkingCopyEntry" where
  "unmergedEntry tokens =
     (let xy = tokens ! 1; sub = tokens ! 2
      in new_entry\<lparr>wc_path := last tokens, wc_isSubmodule := sub \<noteq> [] \<and> hd sub = CHR ''S'',
           wc_conflict := conflictForXY (if xy \<noteq> [] then xy ! 0 else CHR ''?'') (if length xy > 1 then xy ! 1 else CHR ''?''),
           wc_ancestorBlob := blobOrEmpty (tokens ! 7), wc_oursBlob := blobOrEmpty (tokens ! 8),
           wc_theirsBlob := blobOrEmpty (tokens ! 9)\<rparr>)"

definition untrackedEntry :: "string \<Rightarrow> WorkingCopyEntry" where
  "untrackedEntry record = new_entry\<lparr>wc_path := (if length record > 2 then drop 2 record else []), wc_untracked := True\<rparr>"

fun parsePorcelainV2Records :: "string list \<Rightarrow> WorkingCopyEntry list" where
  "parsePorcelainV2Records [] = []"
| "parsePorcelainV2Records (record # records) =
     (if record = [] then parsePorcelainV2Records records
      else if hd record = CHR ''1'' then
        let tokens = splitFieldsMax record 9
        in if length tokens < 9 then parsePorcelainV2Records records
           else changedEntry tokens # parsePorcelainV2Records records
      else if hd record = CHR ''2'' then
        let tokens = splitFieldsMax record 10
        in if length tokens < 10 then parsePorcelainV2Records records
           else let entry = (changedEntry tokens)\<lparr>wc_similarity := parseScore (tokens ! 8)\<rparr>
                in (case records of
                      [] \<Rightarrow> [entry]
                    | oldPath # records' \<Rightarrow> entry\<lparr>wc_oldPath := oldPath\<rparr> # parsePorcelainV2Records records')
      else if hd record = CHR ''u'' then
        let tokens = splitFieldsMax record 11
        in if length tokens < 11 then parsePorcelainV2Records records
           else unmergedEntry tokens # parsePorcelainV2Records records
      else if hd record = CHR ''?'' then untrackedEntry record # parsePorcelainV2Records records
      else parsePorcelainV2Records records)"

declare parsePorcelainV2Records.simps(2) [simp del]

section \<open>Joining the line counts\<close>

type_synonym Runner = "string list \<Rightarrow> string list GitResult"

definition worktreeReadFlags :: "string list" where
  "worktreeReadFlags = [''-c'', ''core.fsmonitor=false'']"

definition numstatArgs :: "bool \<Rightarrow> string list" where
  "numstatArgs stagedSide =
     (if stagedSide then [] else worktreeReadFlags) @ [''diff'', ''--numstat'', ''-z'', ''-M''] @
     (if stagedSide then [''--cached''] else [])"

definition countField :: "string \<Rightarrow> nat" where
  "countField f = (case fst (from_chars 32 f) of Some v \<Rightarrow> v | None \<Rightarrow> 0)"

definition setCounts :: "bool \<Rightarrow> nat \<Rightarrow> nat \<Rightarrow> WorkingCopyEntry \<Rightarrow> WorkingCopyEntry" where
  "setCounts stagedSide added removed e =
     (if stagedSide then e\<lparr>wc_stagedAdded := added, wc_stagedRemoved := removed\<rparr>
      else e\<lparr>wc_unstagedAdded := added, wc_unstagedRemoved := removed\<rparr>)"

text \<open>\<^verbatim>\<open>byPath\<close> maps a path to the first entry that has it (\<^verbatim>\<open>emplace\<close> keeps the first).\<close>

fun updateFirst :: "('a \<Rightarrow> bool) \<Rightarrow> ('a \<Rightarrow> 'a) \<Rightarrow> 'a list \<Rightarrow> 'a list" where
  "updateFirst P f [] = []"
| "updateFirst P f (x # xs) = (if P x then f x # xs else x # updateFirst P f xs)"

definition applyCounts :: "bool \<Rightarrow> string \<Rightarrow> string \<Rightarrow> string \<Rightarrow> WorkingCopyEntry list \<Rightarrow> WorkingCopyEntry list" where
  "applyCounts stagedSide addedField removedField path entries =
     (if addedField = ''-'' \<or> removedField = ''-'' then entries
      else updateFirst (\<lambda>e. wc_path e = path) (setCounts stagedSide (countField addedField) (countField removedField)) entries)"

abbreviation tab :: char where "tab \<equiv> CHR 0x09"

fun joinNumstat :: "bool \<Rightarrow> string list \<Rightarrow> WorkingCopyEntry list \<Rightarrow> WorkingCopyEntry list" where
  "joinNumstat stagedSide [] entries = entries"
| "joinNumstat stagedSide (record # records) entries =
     (case find_char tab record of
        None \<Rightarrow> joinNumstat stagedSide records entries
      | Some firstTab \<Rightarrow>
          (case find_char_from tab record (firstTab + 1) of
             None \<Rightarrow> joinNumstat stagedSide records entries
           | Some secondTab \<Rightarrow>
               let addedField = substr record 0 firstTab;
                   removedField = substr record (firstTab + 1) (secondTab - firstTab - 1);
                   pathField = drop (secondTab + 1) record
               in if pathField = [] then
                    (case records of
                       _ # newPath # records' \<Rightarrow>
                         joinNumstat stagedSide records' (applyCounts stagedSide addedField removedField newPath entries)
                     | _ \<Rightarrow> entries)
                  else joinNumstat stagedSide records (applyCounts stagedSide addedField removedField pathField entries)))"

declare joinNumstat.simps(2) [simp del]

definition attachNumstat :: "Runner \<Rightarrow> bool \<Rightarrow> WorkingCopyEntry list \<Rightarrow> WorkingCopyEntry list GitResult" where
  "attachNumstat runner stagedSide entries =
     (if entries = [] then Inr entries
      else case runner (numstatArgs stagedSide) of
        Inl e \<Rightarrow> Inl e
      | Inr records \<Rightarrow> Inr (joinNumstat stagedSide records entries))"

section \<open>The cache of untracked line counts\<close>

definition kUntrackedLineCountByteCap :: nat where "kUntrackedLineCountByteCap = 2 ^ 20"

record Stat =
  st_size :: nat
  st_modified :: int

text \<open>The map of the cache, as an association list: nothing observes its order.\<close>

record UntrackedLineCountCache =
  lc_entries :: "(string \<times> Stat \<times> nat) list"
  lc_hits :: nat
  lc_misses :: nat

definition empty_cache :: UntrackedLineCountCache where
  "empty_cache = \<lparr>lc_entries = [], lc_hits = 0, lc_misses = 0\<rparr>"

definition lookup :: "UntrackedLineCountCache \<Rightarrow> string \<Rightarrow> Stat \<Rightarrow> nat option \<times> UntrackedLineCountCache" where
  "lookup cache path stat =
     (case map_of (lc_entries cache) path of
        None \<Rightarrow> (None, cache\<lparr>lc_misses := lc_misses cache + 1\<rparr>)
      | Some (stat', lines) \<Rightarrow>
          if stat' \<noteq> stat then (None, cache\<lparr>lc_misses := lc_misses cache + 1\<rparr>)
          else (Some lines, cache\<lparr>lc_hits := lc_hits cache + 1\<rparr>))"

definition store :: "UntrackedLineCountCache \<Rightarrow> string \<Rightarrow> Stat \<Rightarrow> nat \<Rightarrow> int \<Rightarrow> UntrackedLineCountCache" where
  "store cache path stat lines passStartedAt =
     (if \<not> st_modified stat < passStartedAt then cache
      else cache\<lparr>lc_entries := AList.update path (stat, lines) (lc_entries cache)\<rparr>)"

definition retainOnly :: "UntrackedLineCountCache \<Rightarrow> string list \<Rightarrow> UntrackedLineCountCache" where
  "retainOnly cache live = cache\<lparr>lc_entries := filter (\<lambda>(path, _). path \<in> set live) (lc_entries cache)\<rparr>"

definition cache_size :: "UntrackedLineCountCache \<Rightarrow> nat" where
  "cache_size cache = length (lc_entries cache)"

section \<open>Counting untracked files\<close>

record FileSystem =
  fs_file_size :: "string \<Rightarrow> nat option"
  fs_last_write_time :: "string \<Rightarrow> int option"
  fs_contents :: "string \<Rightarrow> string option"

text \<open>The count of a file's text: its line feeds, and a last line without one; 0 for a binary.\<close>

definition linesOf :: "string \<Rightarrow> nat" where
  "linesOf contents =
     (if tt_encoding (detectTextTraits contents) = Binary then 0
      else u32 (length (filter (\<lambda>c. c = nl) contents) + (if contents \<noteq> [] \<and> last contents \<noteq> nl then 1 else 0)))"

definition countEntry ::
  "FileSystem \<Rightarrow> int \<Rightarrow> WorkingCopyEntry \<Rightarrow> UntrackedLineCountCache \<Rightarrow> WorkingCopyEntry \<times> UntrackedLineCountCache" where
  "countEntry fs passStartedAt entry cache =
     (if \<not> wc_untracked entry then (entry, cache)
      else case fs_file_size fs (wc_path entry) of
        None \<Rightarrow> (entry, cache)
      | Some size' \<Rightarrow>
          if size' > kUntrackedLineCountByteCap then (entry, cache)
          else (case fs_last_write_time fs (wc_path entry) of
            None \<Rightarrow> (entry, cache)
          | Some modified \<Rightarrow>
              let stat = \<lparr>st_size = size', st_modified = modified\<rparr>;
                  entry = entry\<lparr>wc_untrackedSize := size', wc_untrackedMtimeTicks := modified\<rparr>
              in (case lookup cache (wc_path entry) stat of
                    (Some remembered, cache) \<Rightarrow> (entry\<lparr>wc_unstagedAdded := remembered, wc_unstagedRemoved := 0\<rparr>, cache)
                  | (None, cache) \<Rightarrow>
                      (case fs_contents fs (wc_path entry) of
                         None \<Rightarrow> (entry, cache)
                       | Some contents \<Rightarrow>
                           (entry\<lparr>wc_unstagedAdded := linesOf contents, wc_unstagedRemoved := 0\<rparr>,
                            store cache (wc_path entry) stat (linesOf contents) passStartedAt)))))"

fun countEntries ::
  "FileSystem \<Rightarrow> int \<Rightarrow> WorkingCopyEntry list \<Rightarrow> UntrackedLineCountCache \<Rightarrow> WorkingCopyEntry list \<times> UntrackedLineCountCache" where
  "countEntries fs passStartedAt [] cache = ([], cache)"
| "countEntries fs passStartedAt (entry # entries) cache =
     (let (entry', cache') = countEntry fs passStartedAt entry cache;
          (entries', cache'') = countEntries fs passStartedAt entries cache'
      in (entry' # entries', cache''))"

definition livePaths :: "WorkingCopyEntry list \<Rightarrow> string list" where
  "livePaths entries = map wc_path (filter wc_untracked entries)"

definition countUntrackedLines ::
  "bool \<Rightarrow> FileSystem \<Rightarrow> int \<Rightarrow> WorkingCopyEntry list \<Rightarrow> UntrackedLineCountCache \<Rightarrow> WorkingCopyEntry list \<times> UntrackedLineCountCache" where
  "countUntrackedLines isBare fs now entries cache =
     (if isBare then (entries, cache)
      else let (entries', cache') = countEntries fs now entries cache
           in (entries', retainOnly cache' (livePaths entries)))"

section \<open>The read\<close>

definition isDirectoryRecord :: "string \<Rightarrow> bool" where
  "isDirectoryRecord record \<longleftrightarrow> length record > 2 \<and> starts_with record ''? '' \<and> last record = CHR ''/''"

definition lsFilesArgs :: "string list \<Rightarrow> string list" where
  "lsFilesArgs pathspecs = [''ls-files'', ''--others'', ''--exclude-standard'', ''-z'', ''--''] @ pathspecs"

definition expandUntrackedDirectories :: "Runner \<Rightarrow> string list \<Rightarrow> string list GitResult" where
  "expandUntrackedDirectories runner records =
     (let pathspecs = map (\<lambda>record. '':(literal)'' @ drop 2 record) (filter isDirectoryRecord records);
          kept = filter (\<lambda>record. \<not> isDirectoryRecord record) records
      in if pathspecs = [] then Inr kept
         else case runner (lsFilesArgs pathspecs) of
           Inl e \<Rightarrow> Inl e
         | Inr paths \<Rightarrow> Inr (kept @ map (\<lambda>path. ''? '' @ path) paths))"

definition statusArgs :: "string list" where
  "statusArgs = [''status'', ''--porcelain=v2'', ''-z'', ''--untracked-files=normal'', ''--ignore-submodules=none'']"

definition clearCounts :: "WorkingCopyEntry \<Rightarrow> WorkingCopyEntry" where
  "clearCounts e = e\<lparr>wc_unstagedAdded := 0, wc_unstagedRemoved := 0, wc_stagedAdded := 0, wc_stagedRemoved := 0\<rparr>"

text \<open>The loop over the two passes: a cancellation fails, any other failure clears and stops.\<close>

fun attachPasses :: "Runner \<Rightarrow> bool list \<Rightarrow> WorkingCopyEntry list \<Rightarrow> WorkingCopyStatus GitResult" where
  "attachPasses runner [] entries = Inr \<lparr>ws_entries = entries, ws_lineCountsUnavailable = False\<rparr>"
| "attachPasses runner (stagedSide # passes) entries =
     (case attachNumstat runner stagedSide entries of
        Inr entries' \<Rightarrow> attachPasses runner passes entries'
      | Inl e \<Rightarrow>
          if ge_code e = Cancelled then Inl e
          else Inr \<lparr>ws_entries = map clearCounts entries, ws_lineCountsUnavailable = True\<rparr>)"

definition read ::
  "Runner \<Rightarrow> bool \<Rightarrow> FileSystem \<Rightarrow> int \<Rightarrow> UntrackedLineCountCache \<Rightarrow> WorkingCopyStatus GitResult \<times> UntrackedLineCountCache" where
  "read runner isBare fs now cache =
     (case runner statusArgs of
        Inl e \<Rightarrow> (Inl e, cache)
      | Inr records \<Rightarrow>
          (case expandUntrackedDirectories runner records of
             Inl e \<Rightarrow> (Inl e, cache)
           | Inr records \<Rightarrow>
               (case attachPasses runner [False, True] (parsePorcelainV2Records records) of
                  Inl e \<Rightarrow> (Inl e, cache)
                | Inr status \<Rightarrow>
                    if ws_lineCountsUnavailable status then (Inr status, cache)
                    else let (entries, cache') = countUntrackedLines isBare fs now (ws_entries status) cache
                         in (Inr (status\<lparr>ws_entries := entries\<rparr>), cache'))))"

end
