(* ===== verification/StatusReading.thy ===== *)
theory StatusReading
  imports WorkingCopy
begin

text \<open>
  What the reading of the working copy guarantees: the status records git prints are read back as the
  entries they describe, the numstat records land on the entries they name and on no other, and a
  failed count never costs the list its conflicts.
\<close>

section \<open>The records of a status\<close>

text \<open>
  The four kinds of record of \<^verbatim>\<open>--porcelain=v2 -z\<close>, with the fields the parser does not keep
  as a list: three modes and two object names, or four modes of an unmerged path.
\<close>

datatype StatusItem =
  ChangedItem char char string "string list" string
| RenamedItem char char string "string list" char nat string string
| UnmergedItem char char string "string list" string string string string
| UntrackedItem string

fun spaced :: "string list \<Rightarrow> string \<Rightarrow> string" where
  "spaced [] path = path"
| "spaced (f # fs) path = f @ CHR '' '' # spaced fs path"

fun item_records :: "StatusItem \<Rightarrow> string list" where
  "item_records (ChangedItem x y sub skipped path) = [spaced ([''1'', [x, y], sub] @ skipped) path]"
| "item_records (RenamedItem x y sub skipped letter score path oldPath) =
     [spaced ([''2'', [x, y], sub] @ skipped @ [letter # to_string score]) path, oldPath]"
| "item_records (UnmergedItem x y sub skipped h1 h2 h3 path) =
     [spaced ([''u'', [x, y], sub] @ skipped @ [h1, h2, h3]) path]"
| "item_records (UntrackedItem path) = [''? '' @ path]"

definition no_space :: "string \<Rightarrow> bool" where
  "no_space s \<longleftrightarrow> CHR '' '' \<notin> set s"

fun item_ok :: "StatusItem \<Rightarrow> bool" where
  "item_ok (ChangedItem x y sub skipped path) \<longleftrightarrow>
     list_all no_space ([x, y] # sub # skipped) \<and> length skipped = 5"
| "item_ok (RenamedItem x y sub skipped letter score path oldPath) \<longleftrightarrow>
     list_all no_space ([x, y] # sub # [letter] # skipped) \<and> length skipped = 5 \<and> \<not> is_digit letter \<and> score < 2 ^ 31"
| "item_ok (UnmergedItem x y sub skipped h1 h2 h3 path) \<longleftrightarrow>
     list_all no_space ([x, y] # sub # h1 # h2 # h3 # skipped) \<and> length skipped = 4"
| "item_ok (UntrackedItem path) \<longleftrightarrow> True"

text \<open>The entry an item describes.\<close>

definition submodule_field :: "string \<Rightarrow> bool" where
  "submodule_field sub \<longleftrightarrow> starts_with sub ''S''"

definition changed_entry :: "char \<Rightarrow> char \<Rightarrow> string \<Rightarrow> string \<Rightarrow> WorkingCopyEntry" where
  "changed_entry x y sub path =
     new_entry\<lparr>wc_path := path, wc_isSubmodule := submodule_field sub,
       wc_staged := x \<noteq> CHR ''.'', wc_indexStatus := if x = CHR ''.'' then FileModified else kindForCode x,
       wc_hasUnstagedChange := y \<noteq> CHR ''.'', wc_worktreeStatus := if y = CHR ''.'' then FileModified else kindForCode y\<rparr>"

fun entry_of :: "StatusItem \<Rightarrow> WorkingCopyEntry" where
  "entry_of (ChangedItem x y sub skipped path) = changed_entry x y sub path"
| "entry_of (RenamedItem x y sub skipped letter score path oldPath) =
     (changed_entry x y sub path)\<lparr>wc_similarity := score, wc_oldPath := oldPath\<rparr>"
| "entry_of (UnmergedItem x y sub skipped h1 h2 h3 path) =
     new_entry\<lparr>wc_path := path, wc_isSubmodule := submodule_field sub, wc_conflict := conflictForXY x y,
       wc_ancestorBlob := blobOrEmpty h1, wc_oursBlob := blobOrEmpty h2, wc_theirsBlob := blobOrEmpty h3\<rparr>"
| "entry_of (UntrackedItem path) = new_entry\<lparr>wc_path := path, wc_untracked := True\<rparr>"

lemma splitFields_spaced:
  "list_all no_space fs \<Longrightarrow> splitFields (spaced fs path) (length fs) = fs @ [path]"
  by (induction fs) (simp_all add: no_space_def)

lemma splitFieldsMax_spaced:
  "list_all no_space fs \<Longrightarrow> n = Suc (length fs) \<Longrightarrow> splitFieldsMax (spaced fs path) n = fs @ [path]"
  by (simp add: splitFieldsMax_def splitFields_spaced)

lemma no_space_to_string: "no_space (to_string n)"
proof -
  have "\<not> is_digit CHR '' ''" by (simp add: is_digit_def)
  then show ?thesis using to_string_digits by (auto simp: no_space_def)
qed

lemma parseScore_letter: "\<not> is_digit letter \<Longrightarrow> n < 2 ^ 31 \<Longrightarrow> parseScore (letter # to_string n) = n"
proof -
  assume "\<not> is_digit letter" "n < 2 ^ 31"
  moreover have "dropWhile (\<lambda>c. \<not> is_digit c) (to_string n) = to_string n"
    using to_string_digits [of "hd (to_string n)" n] by (cases "to_string n") auto
  ultimately show ?thesis using from_chars_to_string [of n 31 "[]"] by (simp add: parseScore_def)
qed

lemma changedEntry_eq:
  "changedEntry ([t, [x, y], sub] @ skipped @ [path]) = changed_entry x y sub path"
  by (cases sub) (simp_all add: changedEntry_def changed_entry_def submodule_field_def new_entry_def Let_def)

lemma parse_item:
  assumes "item_ok item"
  shows "parsePorcelainV2Records (item_records item @ records) = entry_of item # parsePorcelainV2Records records"
proof (cases item)
  case (ChangedItem x y sub skipped path)
  with assms have "splitFieldsMax (spaced ([''1'', [x, y], sub] @ skipped) path) 9 = ([''1'', [x, y], sub] @ skipped) @ [path]"
    by (intro splitFieldsMax_spaced) (auto simp: no_space_def)
  with assms ChangedItem show ?thesis
    by (simp add: parsePorcelainV2Records.simps(2) changedEntry_eq [simplified])
next
  case (RenamedItem x y sub skipped letter score path oldPath)
  let ?fs = "[''2'', [x, y], sub] @ skipped @ [letter # to_string score]"
  have "splitFieldsMax (spaced ?fs path) 10 = ?fs @ [path]"
    using assms RenamedItem no_space_to_string by (intro splitFieldsMax_spaced) (auto simp: no_space_def)
  with assms RenamedItem show ?thesis
    by (simp add: parsePorcelainV2Records.simps(2) changedEntry_eq [of _ _ _ _ "skipped @ [_]", simplified]
      parseScore_letter nth_append)
next
  case (UnmergedItem x y sub skipped h1 h2 h3 path)
  let ?fs = "[''u'', [x, y], sub] @ skipped @ [h1, h2, h3]"
  have "splitFieldsMax (spaced ?fs path) 11 = ?fs @ [path]"
    using assms UnmergedItem by (intro splitFieldsMax_spaced) (auto simp: no_space_def)
  with assms UnmergedItem show ?thesis
    by (cases sub) (simp_all add: parsePorcelainV2Records.simps(2) unmergedEntry_def submodule_field_def nth_append new_entry_def)
next
  case (UntrackedItem path)
  then show ?thesis by (cases path) (simp_all add: parsePorcelainV2Records.simps(2) untrackedEntry_def new_entry_def)
qed

text \<open>
  C8. Whatever list of changed, renamed, unmerged and untracked paths git prints, the parser
  reads exactly those entries in that order: paths with spaces whole, the two records of a rename as
  one entry, and the kinds, stage blobs and scores as printed.
\<close>

theorem status_reads_back:
  assumes "list_all item_ok items"
  shows "parsePorcelainV2Records (concat (map item_records items)) = map entry_of items"
  using assms by (induction items) (simp_all add: parse_item)

theorem status_reads_back_witness:
  "parsePorcelainV2Records (concat (map item_records
     [RenamedItem CHR ''R'' CHR ''M'' ''N...'' [''100644'', ''100644'', ''100644'', ''aa'', ''bb''] CHR ''R'' 87 ''new name'' ''old name'',
      UnmergedItem CHR ''U'' CHR ''D'' ''N...'' [''100644'', ''100644'', ''000000'', ''100644''] ''a1'' ''b2'' ''0000'' ''x'',
      UntrackedItem ''notes.txt''])) =
   map entry_of
     [RenamedItem CHR ''R'' CHR ''M'' ''N...'' [''100644'', ''100644'', ''100644'', ''aa'', ''bb''] CHR ''R'' 87 ''new name'' ''old name'',
      UnmergedItem CHR ''U'' CHR ''D'' ''N...'' [''100644'', ''100644'', ''000000'', ''100644''] ''a1'' ''b2'' ''0000'' ''x'',
      UntrackedItem ''notes.txt'']"
  by (rule status_reads_back) (simp add: no_space_def is_digit_def)

section \<open>The records of a numstat pass\<close>

text \<open>A path with its old path if it was renamed, and its two counts unless it is binary.\<close>

type_synonym NumstatItem = "string \<times> string option \<times> (nat \<times> nat) option"

definition count_fields :: "(nat \<times> nat) option \<Rightarrow> string" where
  "count_fields counts =
     (case counts of
        Some (added, removed) \<Rightarrow> to_string added @ tab # to_string removed @ [tab]
      | None \<Rightarrow> CHR ''-'' # tab # CHR ''-'' # [tab])"

fun numstat_records :: "NumstatItem \<Rightarrow> string list" where
  "numstat_records (path, None, counts) = [count_fields counts @ path]"
| "numstat_records (path, Some oldPath, counts) = [count_fields counts, oldPath, path]"

definition numstat_ok :: "NumstatItem \<Rightarrow> bool" where
  "numstat_ok item \<longleftrightarrow> (case item of (path, _, counts) \<Rightarrow>
     path \<noteq> [] \<and> (case counts of Some (added, removed) \<Rightarrow> added < 2 ^ 32 \<and> removed < 2 ^ 32 | None \<Rightarrow> True))"

definition counted :: "bool \<Rightarrow> NumstatItem list \<Rightarrow> WorkingCopyEntry \<Rightarrow> WorkingCopyEntry" where
  "counted stagedSide items e =
     (case map_of items (wc_path e) of
        Some (_, Some (added, removed)) \<Rightarrow> setCounts stagedSide added removed e
      | _ \<Rightarrow> e)"

lemma updateFirst_map: "distinct (map g xs) \<Longrightarrow> updateFirst (\<lambda>x. g x = a) f xs = map (\<lambda>x. if g x = a then f x else x) xs"
proof (induction xs)
  case (Cons x xs)
  have "map (\<lambda>y. if g y = g x then f y else y) xs = xs"
    using Cons.prems by (intro map_idI) (auto simp: image_iff)
  with Cons show ?case by auto
qed simp

lemma wc_path_setCounts [simp]: "wc_path (setCounts b m n e) = wc_path e"
  by (simp add: setCounts_def)

lemma wc_path_counted [simp]: "wc_path (counted b items e) = wc_path e"
  by (simp add: counted_def split: option.splits prod.splits)

definition added_text :: "(nat \<times> nat) option \<Rightarrow> string" where
  "added_text counts = (case counts of Some (added, _) \<Rightarrow> to_string added | None \<Rightarrow> ''-'')"

definition removed_text :: "(nat \<times> nat) option \<Rightarrow> string" where
  "removed_text counts = (case counts of Some (_, removed) \<Rightarrow> to_string removed | None \<Rightarrow> ''-'')"

lemma tab_notin_to_string: "tab \<notin> set (to_string n)"
proof -
  have "\<not> is_digit tab" by (simp add: is_digit_def)
  then show ?thesis using to_string_digits by blast
qed

lemma no_tab: "tab \<notin> set (added_text counts)" "tab \<notin> set (removed_text counts)"
  by (auto simp: added_text_def removed_text_def tab_notin_to_string split: option.splits)

lemma count_fields_eq: "count_fields counts = added_text counts @ tab # removed_text counts @ [tab]"
  by (simp add: count_fields_def added_text_def removed_text_def split: option.splits prod.splits)

lemma to_string_not_dash: "to_string n \<noteq> ''-''"
proof -
  have "\<not> is_digit CHR ''-''" by (simp add: is_digit_def)
  then show ?thesis using to_string_digits [of "CHR ''-''" n] by auto
qed

lemma joinNumstat_record:
  "joinNumstat b ((count_fields counts @ path) # records) es =
     (if path = []
      then (case records of _ # p # records' \<Rightarrow> joinNumstat b records' (applyCounts b (added_text counts) (removed_text counts) p es) | _ \<Rightarrow> es)
      else joinNumstat b records (applyCounts b (added_text counts) (removed_text counts) path es))"
proof -
  let ?r = "added_text counts @ tab # removed_text counts @ tab # path"
  have "find_char tab ?r = Some (length (added_text counts))" using no_tab by simp
  moreover have "find_char_from tab ?r (length (added_text counts) + 1) =
      Some (length (added_text counts) + 1 + length (removed_text counts))"
    using no_tab by (simp add: find_char_from_def)
  ultimately show ?thesis
    by (simp add: joinNumstat.simps(2) count_fields_eq substr_def Let_def)
qed

lemma joinNumstat_item:
  assumes "numstat_ok item" "distinct (map wc_path es)"
  shows "joinNumstat b (numstat_records item @ records) es = joinNumstat b records (map (counted b [item]) es)"
proof -
  obtain path old counts where item: "item = (path, old, counts)" by (cases item)
  have "applyCounts b (added_text counts) (removed_text counts) path es = map (counted b [item]) es"
  proof (cases counts)
    case None
    then have "counted b [item] e = e" for e by (simp add: item counted_def)
    then show ?thesis using None by (simp add: applyCounts_def added_text_def map_idI)
  next
    case (Some c)
    then obtain m n where c: "counts = Some (m, n)" by (cases c) auto
    with assms(1) item have "m < 2 ^ 32" "n < 2 ^ 32" by (auto simp: numstat_ok_def)
    then have "countField (to_string m) = m" "countField (to_string n) = n"
      using from_chars_to_string [of _ 32 "[]"] by (simp_all add: countField_def)
    with c assms(2) show ?thesis
      by (auto simp: applyCounts_def added_text_def removed_text_def to_string_not_dash updateFirst_map item counted_def)
  qed
  moreover have "path \<noteq> []" using assms(1) by (simp add: item numstat_ok_def)
  ultimately show ?thesis
    using joinNumstat_record [of b counts path records es] joinNumstat_record [of b counts "[]" _ es]
    by (cases old) (simp_all add: item)
qed

lemma counted_Cons:
  "fst item \<notin> fst ` set items \<Longrightarrow> counted b items (counted b [item] e) = counted b (item # items) e"
  by (cases item) (auto simp: counted_def map_of_eq_None_iff [THEN iffD2] split: option.splits prod.splits)

text \<open>
  The counts land where git says: after a numstat pass over entries of distinct paths,
  every entry whose path the pass lists has exactly the two counts listed for it, on the side of that
  pass; binary files, entries not listed and every other field are untouched; the three records of a
  rename never shift the ones behind them.
\<close>

theorem numstat_counts_exact:
  assumes "list_all numstat_ok items" "distinct (map fst items)" "distinct (map wc_path entries)"
  shows "joinNumstat stagedSide (concat (map numstat_records items)) entries = map (counted stagedSide items) entries"
  using assms
proof (induction items arbitrary: entries)
  case Nil
  then show ?case by (simp add: counted_def)
next
  case (Cons item items)
  then have "joinNumstat stagedSide (concat (map numstat_records (item # items))) entries =
      joinNumstat stagedSide (concat (map numstat_records items)) (map (counted stagedSide [item]) entries)"
    by (simp add: joinNumstat_item)
  also have "\<dots> = map (counted stagedSide items) (map (counted stagedSide [item]) entries)"
    using Cons.prems by (intro Cons.IH) (simp_all add: comp_def)
  also have "\<dots> = map (counted stagedSide (item # items)) entries"
    using Cons.prems(2) counted_Cons [of item items stagedSide] by simp
  finally show ?case .
qed

theorem numstat_counts_exact_witness:
  "joinNumstat True (concat (map numstat_records [(''b c'', Some ''a'', Some (3, 4)), (''d'', None, None)]))
     [new_entry\<lparr>wc_path := ''d''\<rparr>, new_entry\<lparr>wc_path := ''b c''\<rparr>] =
   [new_entry\<lparr>wc_path := ''d''\<rparr>, new_entry\<lparr>wc_path := ''b c'', wc_stagedAdded := 3, wc_stagedRemoved := 4\<rparr>]"
proof -
  have "joinNumstat True (concat (map numstat_records [(''b c'', Some ''a'', Some (3, 4)), (''d'', None, None)]))
      [new_entry\<lparr>wc_path := ''d''\<rparr>, new_entry\<lparr>wc_path := ''b c''\<rparr>] =
    map (counted True [(''b c'', Some ''a'', Some (3, 4)), (''d'', None, None)])
      [new_entry\<lparr>wc_path := ''d''\<rparr>, new_entry\<lparr>wc_path := ''b c''\<rparr>]"
    by (rule numstat_counts_exact) (simp_all add: numstat_ok_def)
  then show ?thesis by (simp add: counted_def setCounts_def new_entry_def)
qed

section \<open>The read as a whole\<close>

text \<open>What an entry says of its path, without the counts and the stat of an untracked file.\<close>

definition identity_of :: "WorkingCopyEntry \<Rightarrow> WorkingCopyEntry" where
  "identity_of e = (clearCounts e)\<lparr>wc_untrackedSize := 0, wc_untrackedMtimeTicks := 0\<rparr>"

lemma identity_setCounts [simp]: "identity_of (setCounts b m n e) = identity_of e"
  by (simp add: identity_of_def setCounts_def clearCounts_def)

lemma identity_clearCounts [simp]: "identity_of (clearCounts e) = identity_of e"
  by (simp add: identity_of_def clearCounts_def)

lemma map_updateFirst: "(\<And>x. h (f x) = h x) \<Longrightarrow> map h (updateFirst P f xs) = map h xs"
  by (induction xs) auto

lemma identity_applyCounts: "map identity_of (applyCounts b m n p es) = map identity_of es"
  by (simp add: applyCounts_def map_updateFirst)

lemma identity_joinNumstat: "map identity_of (joinNumstat b records es) = map identity_of es"
proof (induction b records es rule: joinNumstat.induct)
  case (2 b rec records es)
  then show ?case
    by (simp add: joinNumstat.simps(2) identity_applyCounts Let_def split: option.splits list.splits)
qed simp

lemma identity_countEntry: "identity_of (fst (countEntry fs t e cache)) = identity_of e"
  by (simp add: countEntry_def identity_of_def clearCounts_def Let_def split: option.splits prod.splits)

lemma identity_countEntries: "map identity_of (fst (countEntries fs t es cache)) = map identity_of es"
proof (induction es arbitrary: cache)
  case (Cons e es)
  then show ?case using identity_countEntry [of fs t e cache] by (auto simp: Let_def split: prod.splits) (metis fst_conv)
qed simp

lemma identity_countUntrackedLines: "map identity_of (fst (countUntrackedLines bare fs t es cache)) = map identity_of es"
  using identity_countEntries [of fs t es cache] by (auto simp: countUntrackedLines_def split: prod.splits)

lemma attachNumstat_identity: "attachNumstat runner b es = Inr es' \<Longrightarrow> map identity_of es' = map identity_of es"
  by (auto simp: attachNumstat_def identity_joinNumstat split: if_splits sum.splits)

lemma attachPasses_identity:
  "attachPasses runner passes es = Inr s \<Longrightarrow> map identity_of (ws_entries s) = map identity_of es"
proof (induction passes arbitrary: es)
  case (Cons b passes)
  then show ?case
    using attachNumstat_identity [of runner b es] by (auto split: sum.splits if_splits simp: comp_def)
qed auto

lemma attachPasses_error:
  "attachPasses runner passes es = Inl e \<Longrightarrow> ge_code e = Cancelled \<and> (\<exists>b \<in> set passes. runner (numstatArgs b) = Inl e)"
proof (induction passes arbitrary: es)
  case (Cons b passes)
  then show ?case by (auto simp: attachNumstat_def split: sum.splits if_splits)
qed auto

lemma attachPasses_unavailable:
  "attachPasses runner passes es = Inr s \<Longrightarrow> ws_lineCountsUnavailable s \<Longrightarrow> list_all (\<lambda>e. e = clearCounts e) (ws_entries s)"
proof (induction passes arbitrary: es)
  case (Cons b passes)
  then show ?case by (auto split: sum.splits if_splits simp: clearCounts_def list_all_iff)
qed auto

lemma conflicted_identity:
  assumes "map identity_of es = map identity_of es'"
  shows "map identity_of (filter isConflicted es) = map identity_of (filter isConflicted es')"
proof -
  have "isConflicted = isConflicted \<circ> identity_of" by (auto simp: isConflicted_def identity_of_def clearCounts_def)
  then have "map identity_of (filter isConflicted es) = filter isConflicted (map identity_of es)" for es
    by (metis filter_map)
  with assms show ?thesis by simp
qed

text \<open>The records \<^verbatim>\<open>read\<close> parses, when the status and the expansion succeed.\<close>

definition status_of :: "Runner \<Rightarrow> WorkingCopyEntry list GitResult" where
  "status_of runner =
     (case runner statusArgs of Inl e \<Rightarrow> Inl e
      | Inr records \<Rightarrow> map_sum id parsePorcelainV2Records (expandUntrackedDirectories runner records))"

text \<open>
  C38. A count that cannot be had never costs the user a conflict: when the status itself can be
  read and neither numstat pass is cancelled, the read succeeds and lists every entry of the status in
  order with its paths, kinds, flags, conflict and blobs unchanged, in particular the same conflicted
  paths; and if the counts are declared unavailable, every count of every entry is zero.
\<close>

theorem failed_counts_keep_conflicts:
  assumes "status_of runner = Inr entries"
    and "\<And>b e. runner (numstatArgs b) = Inl e \<Longrightarrow> ge_code e \<noteq> Cancelled"
  shows "\<exists>s. fst (read runner isBare fs now cache) = Inr s \<and>
    map identity_of (ws_entries s) = map identity_of entries \<and>
    map identity_of (conflicted s) = map identity_of (filter isConflicted entries) \<and>
    (ws_lineCountsUnavailable s \<longrightarrow> list_all (\<lambda>e. e = clearCounts e) (ws_entries s))"
proof -
  obtain records records' where ok: "runner statusArgs = Inr records" "expandUntrackedDirectories runner records = Inr records'"
    and entries: "entries = parsePorcelainV2Records records'"
    using assms(1) by (auto simp: status_of_def split: sum.splits) (metis map_sum.simps obj_sumE sum.inject(2) sum.distinct(1))
  obtain s where s: "attachPasses runner [False, True] entries = Inr s"
    using attachPasses_error [of runner "[False, True]" entries] assms(2) by (cases "attachPasses runner [False, True] entries") blast+
  show ?thesis
  proof (cases "ws_lineCountsUnavailable s")
    case True
    then show ?thesis
      using ok s entries attachPasses_identity [OF s] attachPasses_unavailable [OF s True]
      by (intro exI [of _ s]) (auto simp: read_def conflicted_def intro: conflicted_identity)
  next
    case False
    obtain es cache' where es: "countUntrackedLines isBare fs now (ws_entries s) cache = (es, cache')" by fastforce
    then have "map identity_of es = map identity_of entries"
      using identity_countUntrackedLines [of isBare fs now "ws_entries s" cache] attachPasses_identity [OF s] by simp
    then show ?thesis
      using False ok s entries es
      by (intro exI [of _ "s\<lparr>ws_entries := es\<rparr>"]) (auto simp: read_def conflicted_def intro: conflicted_identity)
  qed
qed

text \<open>A repository with a conflict whose counts time out.\<close>

definition timed_out_runner :: Runner where
  "timed_out_runner args =
     (if args = statusArgs
      then Inr [''u UU N... 100644 100644 100644 100644 a1 b2 c3 src/a.c'']
      else Inl (git_error Timeout ''The operation timed out'' []))"

definition idle_fs :: FileSystem where
  "idle_fs = \<lparr>fs_file_size = (\<lambda>_. None), fs_last_write_time = (\<lambda>_. None), fs_contents = (\<lambda>_. None)\<rparr>"

theorem failed_counts_keep_conflicts_witness:
  "\<exists>s. fst (read timed_out_runner False idle_fs 0 empty_cache) = Inr s \<and>
     map wc_path (conflicted s) = [''src/a.c''] \<and> map wc_conflict (conflicted s) = [BothModified]"
proof -
  let ?e = "new_entry\<lparr>wc_path := ''src/a.c'', wc_conflict := BothModified,
    wc_ancestorBlob := ''a1'', wc_oursBlob := ''b2'', wc_theirsBlob := ''c3''\<rparr>"
  have "status_of timed_out_runner = Inr [?e]"
    by (simp add: status_of_def timed_out_runner_def expandUntrackedDirectories_def isDirectoryRecord_def
      parsePorcelainV2Records.simps(2) splitFieldsMax_def eval_nat_numeral unmergedEntry_def conflictForXY_def
      blobOrEmpty_def new_entry_def)
  moreover have "runner = timed_out_runner \<Longrightarrow> runner (numstatArgs b) = Inl e \<Longrightarrow> ge_code e \<noteq> Cancelled" for runner b e
    by (auto simp: timed_out_runner_def git_error_def split: if_splits)
  ultimately obtain s where s: "fst (read timed_out_runner False idle_fs 0 empty_cache) = Inr s"
    "map identity_of (conflicted s) = map identity_of (filter isConflicted [?e])"
    using failed_counts_keep_conflicts [of timed_out_runner "[?e]" False idle_fs 0 empty_cache] by blast
  have "wc_path = wc_path \<circ> identity_of" "wc_conflict = wc_conflict \<circ> identity_of"
    by (auto simp: identity_of_def clearCounts_def)
  then have "map wc_path (conflicted s) = map wc_path (map identity_of (conflicted s))"
    "map wc_conflict (conflicted s) = map wc_conflict (map identity_of (conflicted s))"
    by (metis map_map)+
  then show ?thesis using s by (auto simp: isConflicted_def identity_of_def clearCounts_def)
qed

end
