(* ===== verification/UntrackedCounts.thy ===== *)
theory UntrackedCounts
  imports WorkingCopy
begin

text \<open>
  The cache of untracked line counts against a work tree that changes under it. The machine below
  interleaves any number of refresh passes (each file of a pass is one step), the writes of other
  programs and the clock. What is relied on of the file system is its clock: a file written or
  replaced now is stamped now or later, never earlier.
\<close>

record World =
  w_now :: int
  w_fs :: FileSystem
  w_cache :: UntrackedLineCountCache

definition write_file :: "FileSystem \<Rightarrow> string \<Rightarrow> nat option \<Rightarrow> int option \<Rightarrow> string option \<Rightarrow> FileSystem" where
  "write_file fs p size' modified contents =
     \<lparr>fs_file_size = (fs_file_size fs)(p := size'), fs_last_write_time = (fs_last_write_time fs)(p := modified),
      fs_contents = (fs_contents fs)(p := contents)\<rparr>"

text \<open>
  A pass that began at \<open>t\<close> counts one of its entries: the cache keeps the new entries. Several
  passes may be under way, so \<open>t\<close> is any moment up to now.
\<close>

inductive world_step :: "World \<Rightarrow> World \<Rightarrow> bool" where
  clock_tick: "w_now w \<le> t \<Longrightarrow> world_step w (w\<lparr>w_now := t\<rparr>)"
| file_write: "\<forall>m. modified = Some m \<longrightarrow> w_now w \<le> m \<Longrightarrow>
    world_step w (w\<lparr>w_fs := write_file (w_fs w) p size' modified contents\<rparr>)"
| pass_count: "t \<le> w_now w \<Longrightarrow> world_step w (w\<lparr>w_cache := snd (countEntry (w_fs w) t e (w_cache w))\<rparr>)"
| pass_retain: "world_step w (w\<lparr>w_cache := retainOnly (w_cache w) live\<rparr>)"

definition world_init :: "World \<Rightarrow> bool" where
  "world_init w \<longleftrightarrow> w_cache w = empty_cache"

text \<open>The stat of a file, when both of its parts can be had.\<close>

definition stat_of :: "FileSystem \<Rightarrow> string \<Rightarrow> Stat option" where
  "stat_of fs p =
     (case (fs_file_size fs p, fs_last_write_time fs p) of
        (Some n, Some m) \<Rightarrow> Some \<lparr>st_size = n, st_modified = m\<rparr> | _ \<Rightarrow> None)"

text \<open>
  The invariant: a remembered count was taken of a file older than now, and if the file still has the
  stat it is remembered under, the count is that of its contents.
\<close>

definition cache_ok :: "World \<Rightarrow> bool" where
  "cache_ok w \<longleftrightarrow> (\<forall>p st n. map_of (lc_entries (w_cache w)) p = Some (st, n) \<longrightarrow>
     st_modified st < w_now w \<and>
     (stat_of (w_fs w) p = Some st \<longrightarrow> map_option linesOf (fs_contents (w_fs w) p) = Some n))"

lemma lookup_entries: "lookup cache p st = (r, cache') \<Longrightarrow> lc_entries cache' = lc_entries cache"
  by (auto simp: lookup_def split: option.splits if_splits)

lemma map_of_store:
  "map_of (lc_entries (store cache p st n t)) q =
     (if q = p \<and> st_modified st < t then Some (st, n) else map_of (lc_entries cache) q)"
  by (simp add: store_def update_conv)

lemma map_of_retain:
  "map_of (lc_entries (retainOnly cache live)) p = (if p \<in> set live then map_of (lc_entries cache) p else None)"
proof -
  have "map_of (filter (\<lambda>(k, _). k \<in> set live) xs) p = (if p \<in> set live then map_of xs p else None)" for xs :: "(string \<times> Stat \<times> nat) list"
    by (induction xs) auto
  then show ?thesis by (simp add: retainOnly_def)
qed

lemma countEntry_stores:
  assumes "map_of (lc_entries (snd (countEntry fs t e cache))) p = Some (st, n)"
  shows "map_of (lc_entries cache) p = Some (st, n) \<or>
    stat_of fs p = Some st \<and> st_modified st < t \<and> map_option linesOf (fs_contents fs p) = Some n"
  using assms
  by (auto simp: countEntry_def Let_def stat_of_def map_of_store lookup_entries split: if_splits option.splits prod.splits)

lemma write_stat: "stat_of (write_file fs p size' modified contents) q =
    (if q = p then (case (size', modified) of (Some n, Some m) \<Rightarrow> Some \<lparr>st_size = n, st_modified = m\<rparr> | _ \<Rightarrow> None) else stat_of fs q)"
  by (simp add: stat_of_def write_file_def)

lemma cache_ok_step: "world_step w w' \<Longrightarrow> cache_ok w \<Longrightarrow> cache_ok w'"
proof (induction rule: world_step.induct)
  case (clock_tick w t)
  then show ?case by (fastforce simp: cache_ok_def)
next
  case (file_write modified w p size' contents)
  let ?fs = "write_file (w_fs w) p size' modified contents"
  have "map_option linesOf (fs_contents ?fs q) = Some n"
    if "map_of (lc_entries (w_cache w)) q = Some (st, n)" "stat_of ?fs q = Some st" for q st n
  proof (cases "q = p")
    case True
    then have "modified = Some (st_modified st)" using that(2) by (auto simp: write_stat split: option.splits)
    with file_write.hyps have "w_now w \<le> st_modified st" by simp
    moreover have "st_modified st < w_now w" using file_write.prems that(1) by (auto simp: cache_ok_def)
    ultimately show ?thesis by simp
  next
    case False
    with file_write.prems that show ?thesis by (simp add: cache_ok_def write_stat) (simp add: write_file_def)
  qed
  with file_write.prems show ?case by (simp add: cache_ok_def)
next
  case (pass_count t w e)
  then show ?case using countEntry_stores unfolding cache_ok_def by fastforce
next
  case (pass_retain w live)
  then show ?case by (auto simp: cache_ok_def map_of_retain split: if_splits)
qed

interpretation counts: state_machine world_init world_step cache_ok
proof unfold_locales
  fix w assume "world_init w"
  then show "cache_ok w" by (simp add: world_init_def cache_ok_def empty_cache_def)
qed (rule cache_ok_step)

text \<open>A pass of the code is steps of the machine: its entries one by one, then the sweep.\<close>

lemma countEntries_reachable:
  "reachable world_init world_step w \<Longrightarrow> t \<le> w_now w \<Longrightarrow>
     reachable world_init world_step (w\<lparr>w_cache := snd (countEntries (w_fs w) t es (w_cache w))\<rparr>)"
proof (induction es arbitrary: w)
  case (Cons e es)
  let ?w = "w\<lparr>w_cache := snd (countEntry (w_fs w) t e (w_cache w))\<rparr>"
  have "reachable world_init world_step ?w"
    by (rule reachable.reach_step [OF Cons.prems(1)]) (rule world_step.pass_count [OF Cons.prems(2)])
  from Cons.IH [OF this] Cons.prems(2) show ?case by (auto simp: Let_def split: prod.splits)
qed simp

lemma pass_reachable:
  assumes "reachable world_init world_step w" "t \<le> w_now w"
  shows "reachable world_init world_step (w\<lparr>w_cache := snd (countUntrackedLines bare (w_fs w) t es (w_cache w))\<rparr>)"
  using assms(1) reachable.reach_step [OF countEntries_reachable [OF assms, of es] world_step.pass_retain [of _ "livePaths es"]]
  by (auto simp: countUntrackedLines_def split: prod.splits)

text \<open>With a sound cache, an entry is counted as without one.\<close>

lemma countEntry_transparent:
  assumes "cache_ok w"
  shows "fst (countEntry (w_fs w) t e (w_cache w)) = fst (countEntry (w_fs w) t e empty_cache)"
proof -
  have hit: "\<exists>z. fs_contents (w_fs w) p = Some z \<and> linesOf z = n"
    if "lookup (w_cache w) p \<lparr>st_size = a, st_modified = b\<rparr> = (Some n, c)"
      "fs_file_size (w_fs w) p = Some a" "fs_last_write_time (w_fs w) p = Some b" for p a b n c
  proof -
    from that(1) have "map_of (lc_entries (w_cache w)) p = Some (\<lparr>st_size = a, st_modified = b\<rparr>, n)"
      by (auto simp: lookup_def split: option.splits if_splits)
    with that(2,3) assms show ?thesis by (auto simp: cache_ok_def stat_of_def)
  qed
  have miss: "lookup empty_cache p st = (None, empty_cache\<lparr>lc_misses := 1\<rparr>)" for p st
    by (simp add: lookup_def empty_cache_def)
  show ?thesis
    by (auto simp: countEntry_def Let_def miss dest: hit split: option.splits prod.splits)
qed

text \<open>
  A line count shown for an untracked file is never stale: in every state that any
  interleaving of refresh passes, writes by other programs and clock ticks can reach from an empty
  cache, counting an entry through the cache gives exactly the entry that reading the file would.
\<close>

theorem badge_never_stale:
  assumes "reachable world_init world_step w"
  shows "fst (countEntry (w_fs w) t e (w_cache w)) = fst (countEntry (w_fs w) t e empty_cache)"
  using counts.reachable_inv [OF assms] by (rule countEntry_transparent)

definition note_fs :: FileSystem where
  "note_fs = \<lparr>fs_file_size = (\<lambda>_. Some 4), fs_last_write_time = (\<lambda>_. Some 10), fs_contents = (\<lambda>_. Some (''ab'' @ [nl] @ ''c''))\<rparr>"

definition note_entry :: WorkingCopyEntry where
  "note_entry = new_entry\<lparr>wc_path := ''notes.txt'', wc_untracked := True\<rparr>"

theorem badge_never_stale_witness:
  "fst (countEntry note_fs 20 note_entry (snd (countEntry note_fs 20 note_entry empty_cache))) =
     fst (countEntry note_fs 20 note_entry empty_cache) \<and>
   lc_entries (snd (countEntry note_fs 20 note_entry empty_cache)) =
     [(''notes.txt'', \<lparr>st_size = 4, st_modified = 10\<rparr>, 2)]"
proof -
  let ?w = "\<lparr>w_now = 20, w_fs = note_fs, w_cache = empty_cache\<rparr>"
  have "reachable world_init world_step ?w" by (rule reachable.reach_init) (simp add: world_init_def)
  then have "reachable world_init world_step (?w\<lparr>w_cache := snd (countEntry (w_fs ?w) 20 note_entry (w_cache ?w))\<rparr>)"
    by (rule reachable.reach_step) (rule world_step.pass_count, simp)
  from badge_never_stale [OF this, of 20 note_entry] show ?thesis
    by (simp add: countEntry_def note_fs_def note_entry_def new_entry_def lookup_def empty_cache_def store_def
      kUntrackedLineCountByteCap_def linesOf_def detectTextTraits_def detectEncoding_def u32_def utf8_extra_def)
qed

text \<open>
  The cache never outgrows the work tree: after a pass over a repository with a work tree it
  remembers only paths that are untracked now.
\<close>

theorem cache_bounded_by_untracked:
  "dom (map_of (lc_entries (snd (countUntrackedLines False fs t es cache)))) \<subseteq> wc_path ` {e \<in> set es. wc_untracked e}"
  by (auto simp: countUntrackedLines_def map_of_retain livePaths_def split: prod.splits if_splits)

end
