(* ===== verification/ConflictBatches.thy ===== *)
theory ConflictBatches
  imports WorkingCopy
begin

text \<open>
  \<^verbatim>\<open>src/core/git/ConflictBatch.h\<close> and \<^verbatim>\<open>ConflictBatch.cpp\<close>: every path seen in conflict
  over one merge, rebase or cherry-pick, with whether it still is.
\<close>

datatype ConflictFileState = StillUnresolved | Resolved

record ConflictBatchEntry =
  cb_path :: string
  cb_kind :: ConflictKind
  cb_state :: ConflictFileState

record ConflictBatch =
  cb_operationFingerprint :: string
  cb_entries :: "ConflictBatchEntry list"

definition forOperation :: "string \<Rightarrow> ConflictBatch" where
  "forOperation operationFingerprint = \<lparr>cb_operationFingerprint = operationFingerprint, cb_entries = []\<rparr>"

definition restore :: "string \<Rightarrow> ConflictBatchEntry list \<Rightarrow> ConflictBatch" where
  "restore operationFingerprint entries = \<lparr>cb_operationFingerprint = operationFingerprint, cb_entries = entries\<rparr>"

definition rederive :: "WorkingCopyEntry list \<Rightarrow> ConflictBatchEntry \<Rightarrow> ConflictBatchEntry" where
  "rederive scan entry =
     entry\<lparr>cb_state := if list_ex (\<lambda>candidate. wc_path candidate = cb_path entry) scan then StillUnresolved else Resolved\<rparr>"

fun appendNew :: "ConflictBatchEntry list \<Rightarrow> WorkingCopyEntry list \<Rightarrow> ConflictBatchEntry list" where
  "appendNew entries [] = entries"
| "appendNew entries (candidate # scan) =
     (if list_ex (\<lambda>entry. cb_path entry = wc_path candidate) entries then appendNew entries scan
      else appendNew
        (entries @ [\<lparr>cb_path = wc_path candidate, cb_kind = wc_conflict candidate, cb_state = StillUnresolved\<rparr>]) scan)"

definition merge :: "ConflictBatch \<Rightarrow> WorkingCopyEntry list \<Rightarrow> ConflictBatch" where
  "merge batch scan = batch\<lparr>cb_entries := appendNew (map (rederive scan) (cb_entries batch)) scan\<rparr>"

definition resolvedCount :: "ConflictBatch \<Rightarrow> nat" where
  "resolvedCount batch = length (filter (\<lambda>entry. cb_state entry = Resolved) (cb_entries batch))"

definition allResolved :: "ConflictBatch \<Rightarrow> bool" where
  "allResolved batch \<longleftrightarrow> cb_entries batch \<noteq> [] \<and> resolvedCount batch = length (cb_entries batch)"

section \<open>The batch as a list of paths\<close>

text \<open>The paths of a list in the order of their first appearance, behind those already seen.\<close>

fun first_seen :: "'a list \<Rightarrow> 'a list \<Rightarrow> 'a list" where
  "first_seen seen [] = seen"
| "first_seen seen (x # xs) = first_seen (if x \<in> set seen then seen else seen @ [x]) xs"

lemma first_seen_append: "first_seen seen (xs @ ys) = first_seen (first_seen seen xs) ys"
  by (induction xs arbitrary: seen) auto

lemma set_first_seen [simp]: "set (first_seen seen xs) = set seen \<union> set xs"
  by (induction xs arbitrary: seen) auto

lemma distinct_first_seen: "distinct seen \<Longrightarrow> distinct (first_seen seen xs)"
  by (induction xs arbitrary: seen) auto

lemma tracked_iff: "list_ex (\<lambda>entry. cb_path entry = p) entries \<longleftrightarrow> p \<in> cb_path ` set entries"
  by (auto simp: list_ex_iff)

lemma paths_appendNew: "map cb_path (appendNew entries scan) = first_seen (map cb_path entries) (map wc_path scan)"
  by (induction entries scan rule: appendNew.induct) (simp_all add: tracked_iff)

lemma paths_merge: "map cb_path (cb_entries (merge batch scan)) = first_seen (map cb_path (cb_entries batch)) (map wc_path scan)"
proof -
  have "cb_path \<circ> rederive scan = cb_path" by (auto simp: rederive_def)
  then show ?thesis by (simp add: merge_def paths_appendNew)
qed

lemma appendNew_states:
  assumes "list_all (\<lambda>e. cb_state e = (if cb_path e \<in> P then StillUnresolved else Resolved)) entries" "wc_path ` set scan \<subseteq> P"
  shows "list_all (\<lambda>e. cb_state e = (if cb_path e \<in> P then StillUnresolved else Resolved)) (appendNew entries scan)"
  using assms by (induction entries scan rule: appendNew.induct) auto

lemma states_merge:
  "list_all (\<lambda>e. cb_state e = (if cb_path e \<in> wc_path ` set scan then StillUnresolved else Resolved)) (cb_entries (merge batch scan))"
proof -
  have "list_all (\<lambda>e. cb_state e = (if cb_path e \<in> wc_path ` set scan then StillUnresolved else Resolved))
      (map (rederive scan) (cb_entries batch))"
    by (auto simp: list_all_iff rederive_def list_ex_iff image_iff) metis
  from appendNew_states [OF this order_refl] show ?thesis by (simp add: merge_def)
qed

lemma length_filter_all: "length (filter P xs) = length xs \<longleftrightarrow> (\<forall>x \<in> set xs. P x)"
  by (metis filter_True length_filter_less less_irrefl)

lemma paths_fold_merge:
  "map cb_path (cb_entries (foldl merge batch scans)) =
     first_seen (map cb_path (cb_entries batch)) (concat (map (map wc_path) scans))"
  by (induction scans arbitrary: batch) (simp_all add: paths_merge first_seen_append)

lemma fingerprint_fold_merge: "cb_operationFingerprint (foldl merge batch scans) = cb_operationFingerprint batch"
  by (induction scans arbitrary: batch) (simp_all add: merge_def)

text \<open>
  A batch is the union of its scans: after any scans of an operation it lists every path that
  any of them reported, each once and in order of first appearance, so that rows never move; and a
  path is unresolved exactly if the last scan reports it, so that a path conflicted again is
  unresolved again.
\<close>

theorem batch_is_union_of_scans:
  "map cb_path (cb_entries (foldl merge (forOperation f) (scans @ [scan]))) =
     first_seen [] (concat (map (map wc_path) (scans @ [scan]))) \<and>
   distinct (map cb_path (cb_entries (foldl merge (forOperation f) (scans @ [scan])))) \<and>
   list_all (\<lambda>e. cb_state e = (if cb_path e \<in> wc_path ` set scan then StillUnresolved else Resolved))
     (cb_entries (foldl merge (forOperation f) (scans @ [scan]))) \<and>
   cb_operationFingerprint (foldl merge (forOperation f) (scans @ [scan])) = f"
proof (intro conjI)
  show paths: "map cb_path (cb_entries (foldl merge (forOperation f) (scans @ [scan]))) =
      first_seen [] (concat (map (map wc_path) (scans @ [scan])))"
    unfolding paths_fold_merge by (simp add: forOperation_def)
  show "distinct (map cb_path (cb_entries (foldl merge (forOperation f) (scans @ [scan]))))"
    unfolding paths by (simp add: distinct_first_seen)
  show "list_all (\<lambda>e. cb_state e = (if cb_path e \<in> wc_path ` set scan then StillUnresolved else Resolved))
      (cb_entries (foldl merge (forOperation f) (scans @ [scan])))"
    by (simp add: states_merge)
  show "cb_operationFingerprint (foldl merge (forOperation f) (scans @ [scan])) = f"
    unfolding fingerprint_fold_merge by (simp add: forOperation_def)
qed

text \<open>
  The rail says every file is resolved exactly when some path was ever conflicted and the last
  scan is empty, whatever the scans in between and whatever entries the batch was restored with.
\<close>

theorem all_resolved_iff_scan_clear:
  "allResolved (merge batch scan) \<longleftrightarrow> scan = [] \<and> cb_entries batch \<noteq> []"
proof -
  have "allResolved (merge batch scan) \<longleftrightarrow>
      cb_entries (merge batch scan) \<noteq> [] \<and> (\<forall>e \<in> set (cb_entries (merge batch scan)). cb_state e = Resolved)"
    by (simp add: allResolved_def resolvedCount_def length_filter_all)
  also have "\<dots> \<longleftrightarrow> cb_entries (merge batch scan) \<noteq> [] \<and>
      (\<forall>e \<in> set (cb_entries (merge batch scan)). cb_path e \<notin> wc_path ` set scan)"
    using states_merge [of scan batch] by (auto simp: list_all_iff split: if_splits)
  also have "(\<forall>e \<in> set (cb_entries (merge batch scan)). cb_path e \<notin> wc_path ` set scan) \<longleftrightarrow> scan = []"
  proof -
    have "wc_path ` set scan \<subseteq> cb_path ` set (cb_entries (merge batch scan))"
      using paths_merge [of batch scan] by (metis list.set_map set_first_seen Un_upper2)
    then show ?thesis by (cases scan) auto
  qed
  also have "cb_entries (merge batch scan) \<noteq> [] \<and> scan = [] \<longleftrightarrow> scan = [] \<and> cb_entries batch \<noteq> []"
    by (auto simp: merge_def)
  finally show ?thesis .
qed

end
