(* ===== verification/RefStores.thy ===== *)
theory RefStores
  imports GitErrors ObjectIds "HOL-Library.Char_ord"
begin

text \<open>
  \<^verbatim>\<open>src/core/git/RefStore.h\<close> and \<^verbatim>\<open>RefStore.cpp\<close>: the refs of a repository read from
  \<^verbatim>\<open>git for-each-ref\<close>, where HEAD points, the tips a history walk starts from, and the check
  of a branch name. The process runner is an argument: \<open>run\<close> gives the whole output of a command
  line, \<open>stream\<close> its lines. Pointers into the list of refs are the refs themselves.
\<close>

datatype RefKind = LocalBranch | RemoteBranch | Tag | Note | Stash | OtherRef

record RefInfo =
  ri_fullName :: string
  ri_shortName :: string
  ri_kind :: RefKind
  ri_target :: ObjectId
  ri_tagObject :: ObjectId
  ri_upstream :: string
  ri_ahead :: int
  ri_behind :: int
  ri_hasTrackingInfo :: bool
  ri_isGone :: bool
  ri_isHead :: bool
  ri_isSymbolic :: bool
  ri_worktreePath :: string

definition new_ref :: RefInfo where
  "new_ref = \<lparr>ri_fullName = [], ri_shortName = [], ri_kind = OtherRef, ri_target = null_oid, ri_tagObject = null_oid,
     ri_upstream = [], ri_ahead = 0, ri_behind = 0, ri_hasTrackingInfo = False, ri_isGone = False,
     ri_isHead = False, ri_isSymbolic = False, ri_worktreePath = []\<rparr>"

datatype HeadKind = HeadBranch | HeadDetached | HeadUnborn

record HeadInfo =
  hi_kind :: HeadKind
  hi_branchName :: string
  hi_fullRef :: string
  hi_target :: ObjectId

record RefSnapshot =
  rs_refs :: "RefInfo list"
  rs_head :: HeadInfo
  rs_byTarget :: "(ObjectId \<times> RefInfo list) list"
  rs_refCountGuardTripped :: bool
  rs_totalRefCount :: nat

section \<open>Names\<close>

definition kHeadsPrefix :: string where "kHeadsPrefix = ''refs/heads/''"
definition kRemotesPrefix :: string where "kRemotesPrefix = ''refs/remotes/''"
definition kTagsPrefix :: string where "kTagsPrefix = ''refs/tags/''"
definition kFieldSeparator :: char where "kFieldSeparator = CHR 0x1F"
definition kRefCountGuard :: nat where "kRefCountGuard = 2000"

definition kindForRef :: "string \<Rightarrow> RefKind" where
  "kindForRef fullName =
     (if starts_with fullName kHeadsPrefix then LocalBranch
      else if starts_with fullName kRemotesPrefix then RemoteBranch
      else if starts_with fullName kTagsPrefix then Tag
      else if starts_with fullName ''refs/notes/'' then Note
      else if fullName = ''refs/stash'' then Stash
      else OtherRef)"

fun shortNameFor :: "string \<Rightarrow> RefKind \<Rightarrow> string" where
  "shortNameFor fullName LocalBranch = drop (length kHeadsPrefix) fullName"
| "shortNameFor fullName RemoteBranch = drop (length kRemotesPrefix) fullName"
| "shortNameFor fullName Tag = drop (length kTagsPrefix) fullName"
| "shortNameFor fullName _ = fullName"

text \<open>
  \<^verbatim>\<open>substr\<close> throws \<^verbatim>\<open>std::out_of_range\<close> when it starts beyond the end, which the callers do not
  catch: for a kind found by \<open>kindForRef\<close> the prefix is there, but \<open>readHead\<close> asks for
  \<open>LocalBranch\<close> whatever HEAD names.
\<close>

fun shortNameThrows :: "string \<Rightarrow> RefKind \<Rightarrow> bool" where
  "shortNameThrows fullName LocalBranch \<longleftrightarrow> length kHeadsPrefix > length fullName"
| "shortNameThrows fullName RemoteBranch \<longleftrightarrow> length kRemotesPrefix > length fullName"
| "shortNameThrows fullName Tag \<longleftrightarrow> length kTagsPrefix > length fullName"
| "shortNameThrows fullName _ \<longleftrightarrow> False"

definition refDisplayName :: "string \<Rightarrow> string" where
  "refDisplayName ref = shortNameFor ref (kindForRef ref)"

text \<open>
  The target of the number is an \<^verbatim>\<open>int\<close>: a leading minus sign is read too, and a value that does
  not fit leaves 0.
\<close>

definition from_chars_int :: "string \<Rightarrow> int option" where
  "from_chars_int s =
     (if s \<noteq> [] \<and> hd s = CHR ''-''
      then (let ds = takeWhile is_digit (tl s)
            in if ds = [] \<or> dec_value ds > 2 ^ 31 then None else Some (- int (dec_value ds)))
      else map_option int (fst (from_chars 31 s)))"

definition readNumberAfter :: "string \<Rightarrow> string \<Rightarrow> int" where
  "readNumberAfter track keyword =
     (case find_str keyword track of
        None \<Rightarrow> 0
      | Some at \<Rightarrow>
          (case from_chars_int (dropWhile (\<lambda>c. c = CHR '' '') (drop (at + length keyword) track)) of
             Some v \<Rightarrow> v | None \<Rightarrow> 0))"

definition parseTrack :: "string \<Rightarrow> RefInfo \<Rightarrow> RefInfo" where
  "parseTrack track info =
     (if track = [] then info
      else let info = info\<lparr>ri_hasTrackingInfo := True\<rparr>
           in if find_str ''[gone]'' track \<noteq> None then info\<lparr>ri_isGone := True\<rparr>
              else info\<lparr>ri_ahead := readNumberAfter track ''ahead '', ri_behind := readNumberAfter track ''behind ''\<rparr>)"

function splitOn :: "char \<Rightarrow> string \<Rightarrow> string list" where
  "splitOn separator line =
     (case find_char separator line of
        None \<Rightarrow> [line]
      | Some at \<Rightarrow> take at line # splitOn separator (drop (at + 1) line))"
  by auto
termination
  by (relation "measure (\<lambda>(c, s). length s)") (auto dest: find_char_Some(1))

declare splitOn.simps [simp del]

section \<open>The index by target\<close>

definition indexRef :: "(ObjectId \<times> RefInfo list) list \<Rightarrow> RefInfo \<Rightarrow> (ObjectId \<times> RefInfo list) list" where
  "indexRef byTarget ref =
     (if isNull (ri_target ref) then byTarget
      else AList.update (ri_target ref)
        ((case map_of byTarget (ri_target ref) of Some rs \<Rightarrow> rs | None \<Rightarrow> []) @ [ref]) byTarget)"

definition buildIndex :: "RefSnapshot \<Rightarrow> RefSnapshot" where
  "buildIndex s = s\<lparr>rs_byTarget := foldl indexRef [] (rs_refs s)\<rparr>"

definition refsAt :: "RefSnapshot \<Rightarrow> ObjectId \<Rightarrow> RefInfo list option" where
  "refsAt s oid = map_of (rs_byTarget s) oid"

definition ofKind :: "RefSnapshot \<Rightarrow> RefKind \<Rightarrow> RefInfo list" where
  "ofKind s kind = filter (\<lambda>r. ri_kind r = kind) (rs_refs s)"

section \<open>Branch names\<close>

definition forbidden_char :: "char \<Rightarrow> bool" where
  "forbidden_char c \<longleftrightarrow> (of_char c :: nat) < 0x20 \<or> (of_char c :: nat) = 0x7F \<or>
     c \<in> {CHR '' '', CHR ''~'', CHR 0x5E, CHR '':'', CHR ''?'', CHR ''*'', CHR ''['', CHR 0x5C}"

definition isValidBranchName :: "string \<Rightarrow> bool" where
  "isValidBranchName name =
     (if name = [] \<or> name = ''@'' then False
      else if hd name = CHR ''.'' \<or> hd name = CHR ''/'' \<or> hd name = CHR ''-'' then False
      else if last name = CHR ''.'' \<or> last name = CHR ''/'' then False
      else if length name \<ge> 5 \<and> drop (length name - 5) name = ''.lock'' then False
      else if find_str ''..'' name \<noteq> None \<or> find_str ''//'' name \<noteq> None \<or> find_str [CHR ''@'', CHR 0x7B] name \<noteq> None then False
      else \<not> list_ex forbidden_char name)"

section \<open>HEAD\<close>

text \<open>The result is \<open>None\<close> when the exception of \<open>shortNameFor\<close> leaves the function.\<close>

definition readHead :: "(string list \<Rightarrow> string GitResult) \<Rightarrow> HeadInfo GitResult option" where
  "readHead run =
     (case run [''rev-parse'', ''--revs-only'', ''HEAD'', ''--symbolic-full-name'', ''HEAD''] of
        Inl e \<Rightarrow> Some (Inl e)
      | Inr out \<Rightarrow>
          if out \<noteq> [] then
            let split = find_char nl out;
                oid = (case split of None \<Rightarrow> out | Some i \<Rightarrow> take i out);
                symbolic = (case split of None \<Rightarrow> [] | Some i \<Rightarrow> drop (i + 1) out)
            in if symbolic = [] \<or> symbolic = ''HEAD''
               then Some (Inr \<lparr>hi_kind = HeadDetached, hi_branchName = [], hi_fullRef = [], hi_target = fromHex oid\<rparr>)
               else if shortNameThrows symbolic LocalBranch then None
               else Some (Inr \<lparr>hi_kind = HeadBranch, hi_branchName = shortNameFor symbolic LocalBranch,
                       hi_fullRef = symbolic, hi_target = fromHex oid\<rparr>)
          else
            (case run [''symbolic-ref'', ''--quiet'', ''HEAD''] of
               Inr symbolic \<Rightarrow>
                 if symbolic \<noteq> []
                 then if shortNameThrows symbolic LocalBranch then None
                      else Some (Inr \<lparr>hi_kind = HeadUnborn, hi_branchName = shortNameFor symbolic LocalBranch,
                             hi_fullRef = symbolic, hi_target = null_oid\<rparr>)
                 else Some (Inr \<lparr>hi_kind = HeadUnborn, hi_branchName = [], hi_fullRef = [], hi_target = null_oid\<rparr>)
             | Inl _ \<Rightarrow> Some (Inr \<lparr>hi_kind = HeadUnborn, hi_branchName = [], hi_fullRef = [], hi_target = null_oid\<rparr>)))"

section \<open>Loading\<close>

definition refFormat :: string where
  "refFormat =
     ''%(refname)'' @ [kFieldSeparator] @ ''%(objecttype)'' @ [kFieldSeparator] @ ''%(objectname)'' @ [kFieldSeparator] @
     ''%(*objectname)'' @ [kFieldSeparator] @ ''%(upstream)'' @ [kFieldSeparator] @ ''%(upstream:track)'' @ [kFieldSeparator] @
     ''%(HEAD)'' @ [kFieldSeparator] @ ''%(worktreepath)'' @ [kFieldSeparator] @ ''%(symref)''"

text \<open>The line sink: a line that is empty or has too few fields adds nothing.\<close>

definition parseRefLine :: "string \<Rightarrow> RefInfo option" where
  "parseRefLine line =
     (if line = [] then None
      else let fs = splitOn kFieldSeparator line
      in if length fs < 7 then None
      else let kind = kindForRef (fs ! 0);
               info = new_ref\<lparr>ri_fullName := fs ! 0, ri_kind := kind, ri_shortName := shortNameFor (fs ! 0) kind\<rparr>;
               info = (if fs ! 1 = ''tag'' \<and> fs ! 3 \<noteq> []
                       then info\<lparr>ri_tagObject := fromHex (fs ! 2), ri_target := fromHex (fs ! 3)\<rparr>
                       else info\<lparr>ri_target := fromHex (fs ! 2)\<rparr>);
               info = parseTrack (fs ! 5) (info\<lparr>ri_upstream := fs ! 4\<rparr>);
               info = info\<lparr>ri_isHead := fs ! 6 = ''*''\<rparr>;
               info = (if length fs > 7 then info\<lparr>ri_worktreePath := fs ! 7\<rparr> else info)
           in Some (if length fs > 8 then info\<lparr>ri_isSymbolic := fs ! 8 \<noteq> []\<rparr> else info))"

fun kind_rank :: "RefKind \<Rightarrow> nat" where
  "kind_rank LocalBranch = 0"
| "kind_rank RemoteBranch = 1"
| "kind_rank Tag = 2"
| "kind_rank Note = 3"
| "kind_rank Stash = 4"
| "kind_rank OtherRef = 5"

text \<open>The key of the sort; names compare as unsigned bytes. Refs of one kind have distinct names.\<close>

definition ref_key :: "RefInfo \<Rightarrow> nat \<times> string" where
  "ref_key r = (kind_rank (ri_kind r), ri_shortName r)"

definition load :: "(string list \<Rightarrow> string GitResult) \<Rightarrow> (string list \<Rightarrow> string list GitResult) \<Rightarrow> RefSnapshot GitResult option" where
  "load run stream =
     (case readHead run of
        None \<Rightarrow> None
      | Some (Inl e) \<Rightarrow> Some (Inl e)
      | Some (Inr head) \<Rightarrow>
          (case stream [''for-each-ref'', ''--format='' @ refFormat] of
             Inl e \<Rightarrow> Some (Inl e)
           | Inr lines \<Rightarrow>
               let refs = List.map_filter parseRefLine lines
               in Some (Inr (buildIndex \<lparr>rs_refs = sort_key ref_key refs, rs_head = head, rs_byTarget = [],
                         rs_refCountGuardTripped = length refs > kRefCountGuard, rs_totalRefCount = length refs\<rparr>))))"

section \<open>Queries\<close>

definition refExists :: "RefSnapshot \<Rightarrow> string \<Rightarrow> bool" where
  "refExists s fullName \<longleftrightarrow> list_ex (\<lambda>r. ri_fullName r = fullName) (rs_refs s)"

definition sameRefTips :: "RefSnapshot \<Rightarrow> RefSnapshot \<Rightarrow> bool" where
  "sameRefTips a b =
     (if length (rs_refs a) \<noteq> length (rs_refs b) then False
      else list_all2 (\<lambda>l r. ri_fullName l = ri_fullName r \<and> oid_eq (ri_target l) (ri_target r))
             (sort_key ri_fullName (rs_refs a)) (sort_key ri_fullName (rs_refs b)))"

definition pushSeed :: "string list \<Rightarrow> string \<Rightarrow> string list" where
  "pushSeed seeds value' = (if value' = [] then seeds else if value' \<in> set seeds then seeds else seeds @ [value'])"

definition trunkNames :: "string list" where
  "trunkNames = [''refs/heads/main'', ''refs/heads/master'', ''refs/heads/develop'', ''refs/heads/trunk'']"

definition headSeeds :: "RefSnapshot \<Rightarrow> string list" where
  "headSeeds s =
     (if hi_kind (rs_head s) = HeadBranch \<and> hi_fullRef (rs_head s) \<noteq> [] then pushSeed [] (hi_fullRef (rs_head s))
      else if hi_kind (rs_head s) = HeadDetached then pushSeed [] ''HEAD'' else [])"

definition historySeedRefs :: "RefSnapshot \<Rightarrow> string list" where
  "historySeedRefs s =
     (let seeds = headSeeds s;
          upstreams = map ri_upstream (filter (\<lambda>r. ri_isHead r \<and> ri_upstream r \<noteq> [] \<and> \<not> ri_isGone r \<and> refExists s (ri_upstream r)) (rs_refs s));
          seeds = foldl pushSeed seeds upstreams
      in foldl pushSeed seeds (filter (refExists s) trunkNames))"

section \<open>Resolving\<close>

definition resolveRange :: "(string list \<Rightarrow> string GitResult) \<Rightarrow> string \<Rightarrow> ObjectId list GitResult" where
  "resolveRange run range' =
     (case run [''rev-list'', ''--reverse'', range'] of
        Inl e \<Rightarrow> Inl e
      | Inr out \<Rightarrow>
          Inr (List.map_filter
            (\<lambda>line. if line = [] then None else case parseHex null_oid line of (True, oid) \<Rightarrow> Some oid | _ \<Rightarrow> None)
            (splitOn nl out)))"

definition resolveRevision :: "(string list \<Rightarrow> string GitResult) \<Rightarrow> string \<Rightarrow> ObjectId GitResult" where
  "resolveRevision run revision =
     (let unknown = git_error InvalidArgument (''Unknown revision: '' @ revision) []
      in case run [''rev-parse'', ''--verify'', ''--quiet'', revision @ ''^{commit}''] of
           Inl _ \<Rightarrow> Inl unknown
         | Inr out \<Rightarrow>
             if out = [] then Inl unknown
             else case parseHex null_oid out of (True, oid) \<Rightarrow> Inr oid | _ \<Rightarrow> Inl unknown)"

end
