(* ===== verification/RepoStates.thy ===== *)
theory RepoStates
  imports RefStores
begin

text \<open>
  \<^verbatim>\<open>src/core/git/RepoPaths.h\<close>, \<^verbatim>\<open>RepoState.h\<close> and \<^verbatim>\<open>RepoState.cpp\<close>: the directories of a repository,
  and which multi-step operation it is in the middle of, read from the files git leaves there. The
  file system is an argument: which paths exist, what small files hold, when a file was changed, and
  the time. Paths are POSIX paths.
\<close>

record RepoPaths =
  rp_workDir :: string
  rp_gitDir :: string
  rp_commonDir :: string

definition repo_paths :: "string \<Rightarrow> string \<Rightarrow> string \<Rightarrow> RepoPaths" where
  "repo_paths workDir gitDir commonDir =
     \<lparr>rp_workDir = workDir, rp_gitDir = gitDir, rp_commonDir = if commonDir = [] then gitDir else commonDir\<rparr>"

text \<open>\<^verbatim>\<open>operator/\<close> of a path with a relative one.\<close>

definition path_join :: "string \<Rightarrow> string \<Rightarrow> string" where
  "path_join a b = (if a = [] then b else if last a = CHR ''/'' then a @ b else a @ ''/'' @ b)"

definition isBare :: "RepoPaths \<Rightarrow> bool" where
  "isBare p \<longleftrightarrow> rp_workDir p = []"

definition isLinkedWorktree :: "RepoPaths \<Rightarrow> bool" where
  "isLinkedWorktree p \<longleftrightarrow> rp_gitDir p \<noteq> rp_commonDir p"

definition isValid :: "RepoPaths \<Rightarrow> bool" where
  "isValid p \<longleftrightarrow> rp_gitDir p \<noteq> []"

definition commandDir :: "RepoPaths \<Rightarrow> string" where
  "commandDir p = (if rp_workDir p = [] then rp_gitDir p else rp_workDir p)"

definition headFile :: "RepoPaths \<Rightarrow> string" where "headFile p = path_join (rp_gitDir p) ''HEAD''"
definition indexFile :: "RepoPaths \<Rightarrow> string" where "indexFile p = path_join (rp_gitDir p) ''index''"
definition indexLockFile :: "RepoPaths \<Rightarrow> string" where "indexLockFile p = path_join (rp_gitDir p) ''index.lock''"
definition mergeHeadFile :: "RepoPaths \<Rightarrow> string" where "mergeHeadFile p = path_join (rp_gitDir p) ''MERGE_HEAD''"
definition squashMsgFile :: "RepoPaths \<Rightarrow> string" where "squashMsgFile p = path_join (rp_gitDir p) ''SQUASH_MSG''"
definition cherryPickHeadFile :: "RepoPaths \<Rightarrow> string" where "cherryPickHeadFile p = path_join (rp_gitDir p) ''CHERRY_PICK_HEAD''"
definition revertHeadFile :: "RepoPaths \<Rightarrow> string" where "revertHeadFile p = path_join (rp_gitDir p) ''REVERT_HEAD''"
definition bisectLogFile :: "RepoPaths \<Rightarrow> string" where "bisectLogFile p = path_join (rp_gitDir p) ''BISECT_LOG''"
definition rebaseMergeDir :: "RepoPaths \<Rightarrow> string" where "rebaseMergeDir p = path_join (rp_gitDir p) ''rebase-merge''"
definition rebaseApplyDir :: "RepoPaths \<Rightarrow> string" where "rebaseApplyDir p = path_join (rp_gitDir p) ''rebase-apply''"
definition sequencerDir :: "RepoPaths \<Rightarrow> string" where "sequencerDir p = path_join (rp_gitDir p) ''sequencer''"
definition packedRefsFile :: "RepoPaths \<Rightarrow> string" where "packedRefsFile p = path_join (rp_commonDir p) ''packed-refs''"
definition refsDir :: "RepoPaths \<Rightarrow> string" where "refsDir p = path_join (rp_commonDir p) ''refs''"

section \<open>The state\<close>

definition StMerge :: "32 word" where "StMerge = 1"
definition StCherryPick :: "32 word" where "StCherryPick = 2"
definition StRevert :: "32 word" where "StRevert = 4"
definition StRebaseMerge :: "32 word" where "StRebaseMerge = 8"
definition StRebaseApply :: "32 word" where "StRebaseApply = 16"
definition StBisect :: "32 word" where "StBisect = 32"
definition StSequencer :: "32 word" where "StSequencer = 64"

record RepoState =
  st_flags :: "32 word"
  st_rebaseStep :: int
  st_rebaseTotal :: int
  st_rebaseOntoLabel :: string
  st_indexLocked :: bool
  st_indexLockAgeSeconds :: "int option"
  st_preparedMessagePending :: bool

definition clean_state :: RepoState where
  "clean_state = \<lparr>st_flags = 0, st_rebaseStep = 0, st_rebaseTotal = 0, st_rebaseOntoLabel = [], st_indexLocked = False,
     st_indexLockAgeSeconds = None, st_preparedMessagePending = False\<rparr>"

definition isClean :: "RepoState \<Rightarrow> bool" where
  "isClean s \<longleftrightarrow> st_flags s = 0"

definition isSequencerOperation :: "RepoState \<Rightarrow> bool" where
  "isSequencerOperation s \<longleftrightarrow>
     st_flags s AND (StCherryPick OR StRevert OR StRebaseMerge OR StRebaseApply OR StSequencer) \<noteq> 0"

record Files =
  fi_exists :: "string \<Rightarrow> bool"
  fi_readSmallFile :: "string \<Rightarrow> nat \<Rightarrow> string option"
  fi_modifiedTimeNs :: "string \<Rightarrow> int option"
  fi_nowNs :: int

definition trim_end :: "char set \<Rightarrow> string \<Rightarrow> string" where
  "trim_end cs s = rev (dropWhile (\<lambda>c. c \<in> cs) (rev s))"

definition readIntFile :: "Files \<Rightarrow> string \<Rightarrow> int" where
  "readIntFile fs path =
     (case fi_readSmallFile fs path 64 of
        None \<Rightarrow> 0
      | Some contents \<Rightarrow> case from_chars_int (trim_end {nl, cr, CHR '' ''} contents) of Some v \<Rightarrow> v | None \<Rightarrow> 0)"

definition readTrimmedFile :: "Files \<Rightarrow> string \<Rightarrow> string" where
  "readTrimmedFile fs path = (case fi_readSmallFile fs path 4096 of None \<Rightarrow> [] | Some contents \<Rightarrow> trim_end {nl, cr} contents)"

definition setFlag :: "bool \<Rightarrow> 32 word \<Rightarrow> RepoState \<Rightarrow> RepoState" where
  "setFlag present flag s = (if present then s\<lparr>st_flags := st_flags s OR flag\<rparr> else s)"

definition readRebaseMerge :: "Files \<Rightarrow> RepoPaths \<Rightarrow> RepoState \<Rightarrow> RepoState" where
  "readRebaseMerge fs p s =
     (if fi_exists fs (rebaseMergeDir p)
      then let dir = rebaseMergeDir p;
               label = readTrimmedFile fs (path_join dir ''onto_name'')
           in s\<lparr>st_flags := st_flags s OR StRebaseMerge, st_rebaseStep := readIntFile fs (path_join dir ''msgnum''),
                st_rebaseTotal := readIntFile fs (path_join dir ''end''),
                st_rebaseOntoLabel := if label = [] then readTrimmedFile fs (path_join dir ''onto'') else label\<rparr>
      else s)"

definition readRebaseApply :: "Files \<Rightarrow> RepoPaths \<Rightarrow> RepoState \<Rightarrow> RepoState" where
  "readRebaseApply fs p s =
     (if fi_exists fs (rebaseApplyDir p)
      then let dir = rebaseApplyDir p
           in s\<lparr>st_flags := st_flags s OR StRebaseApply, st_rebaseStep := readIntFile fs (path_join dir ''next''),
                st_rebaseTotal := readIntFile fs (path_join dir ''last'')\<rparr>
      else s)"

text \<open>The age is a quotient of C++, which rounds towards zero.\<close>

definition readLock :: "Files \<Rightarrow> RepoPaths \<Rightarrow> RepoState \<Rightarrow> RepoState" where
  "readLock fs p s =
     (if fi_exists fs (indexLockFile p)
      then s\<lparr>st_indexLocked := True,
             st_indexLockAgeSeconds :=
               map_option (\<lambda>mtime. let ns = fi_nowNs fs - mtime in if ns < 0 then - ((- ns) div 1000000000) else ns div 1000000000)
                 (fi_modifiedTimeNs fs (indexLockFile p))\<rparr>
      else s)"

definition read_state :: "Files \<Rightarrow> RepoPaths \<Rightarrow> RepoState" where
  "read_state fs p =
     (if \<not> isValid p then clean_state
      else let s = setFlag (fi_exists fs (mergeHeadFile p)) StMerge clean_state;
               s = s\<lparr>st_preparedMessagePending := st_flags s AND StMerge \<noteq> 0 \<or> fi_exists fs (squashMsgFile p)\<rparr>;
               s = setFlag (fi_exists fs (cherryPickHeadFile p)) StCherryPick s;
               s = setFlag (fi_exists fs (revertHeadFile p)) StRevert s;
               s = setFlag (fi_exists fs (bisectLogFile p)) StBisect s;
               s = setFlag (fi_exists fs (path_join (sequencerDir p) ''todo'')) StSequencer s
           in readLock fs p (readRebaseApply fs p (readRebaseMerge fs p s)))"

definition describe_state :: "RepoState \<Rightarrow> string" where
  "describe_state s =
     (let has = (\<lambda>f. st_flags s AND f \<noteq> 0);
          label =
            (if has StRebaseMerge \<or> has StRebaseApply
             then ''Rebase in progress'' @
                  (if st_rebaseTotal s > 0
                   then '' - stopped at '' @ int_to_string (st_rebaseStep s) @ ''/'' @ int_to_string (st_rebaseTotal s) else []) @
                  (if st_rebaseOntoLabel s \<noteq> [] then '' onto '' @ st_rebaseOntoLabel s else [])
             else if has StCherryPick then ''Cherry-pick in progress''
             else if has StRevert then ''Revert in progress''
             else if has StMerge then ''Merge in progress''
             else if has StBisect then ''Bisect in progress''
             else if has StSequencer then ''A queued sequence of commits is in progress''
             else [])
      in if st_indexLocked s
         then (if label = [] then [] else label @ ''; '') @ ''another Git process appears to be running''
         else label)"

record StateBannerText =
  sb_headline :: string
  sb_instruction :: string
  sb_isConflict :: bool

definition buildStateBannerText :: "RepoState \<Rightarrow> nat option \<Rightarrow> StateBannerText" where
  "buildStateBannerText state conflictedFileCount =
     (let known = (case conflictedFileCount of Some n \<Rightarrow> n > 0 | None \<Rightarrow> False);
          headline = describe_state state;
          headline = (if headline = [] \<and> known then ''Conflicts in the working copy'' else headline)
      in if headline = [] then \<lparr>sb_headline = [], sb_instruction = [], sb_isConflict = False\<rparr>
         else case conflictedFileCount of
                Some n \<Rightarrow>
                  if n > 0
                  then \<lparr>sb_headline = headline @ '' - '' @ to_string n @ '' file'' @ (if n = 1 then [] else ''s'') @ '' with conflicts'',
                        sb_instruction = ''Click Resolve Conflicts to fix the remaining files.'', sb_isConflict = True\<rparr>
                  else \<lparr>sb_headline = headline, sb_instruction = [], sb_isConflict = False\<rparr>
              | None \<Rightarrow> \<lparr>sb_headline = headline, sb_instruction = [], sb_isConflict = False\<rparr>)"

definition watchTargets :: "RepoPaths \<Rightarrow> string list" where
  "watchTargets p =
     (if \<not> isValid p then []
      else [headFile p, indexFile p, mergeHeadFile p, cherryPickHeadFile p, revertHeadFile p, bisectLogFile p,
            rebaseMergeDir p, rebaseApplyDir p, sequencerDir p, refsDir p, packedRefsFile p])"

section \<open>What is read\<close>

lemma or_meets: "(a OR b) AND m \<noteq> 0 \<longleftrightarrow> a AND m \<noteq> 0 \<or> b AND (m :: 32 word) \<noteq> 0"
  by (auto simp: bit_eq_iff bit_and_iff bit_or_iff)

lemma setFlag_meets: "st_flags (setFlag present flag s) AND m \<noteq> 0 \<longleftrightarrow> st_flags s AND m \<noteq> 0 \<or> present \<and> flag AND m \<noteq> 0"
  by (simp add: setFlag_def or_meets)

lemma readRebase_meets:
  "st_flags (readRebaseMerge fs p s) AND m \<noteq> 0 \<longleftrightarrow> st_flags s AND m \<noteq> 0 \<or> fi_exists fs (rebaseMergeDir p) \<and> StRebaseMerge AND m \<noteq> 0"
  "st_flags (readRebaseApply fs p s) AND m \<noteq> 0 \<longleftrightarrow> st_flags s AND m \<noteq> 0 \<or> fi_exists fs (rebaseApplyDir p) \<and> StRebaseApply AND m \<noteq> 0"
  by (simp_all add: readRebaseMerge_def readRebaseApply_def Let_def or_meets)

lemma readLock_flags [simp]: "st_flags (readLock fs p s) = st_flags s"
  by (simp add: readLock_def)

text \<open>The flags of a state, one file each.\<close>

lemma read_state_meets:
  "st_flags (read_state fs p) AND m \<noteq> 0 \<longleftrightarrow> isValid p \<and>
     (fi_exists fs (mergeHeadFile p) \<and> StMerge AND m \<noteq> 0 \<or> fi_exists fs (cherryPickHeadFile p) \<and> StCherryPick AND m \<noteq> 0 \<or>
      fi_exists fs (revertHeadFile p) \<and> StRevert AND m \<noteq> 0 \<or> fi_exists fs (bisectLogFile p) \<and> StBisect AND m \<noteq> 0 \<or>
      fi_exists fs (path_join (sequencerDir p) ''todo'') \<and> StSequencer AND m \<noteq> 0 \<or>
      fi_exists fs (rebaseMergeDir p) \<and> StRebaseMerge AND m \<noteq> 0 \<or> fi_exists fs (rebaseApplyDir p) \<and> StRebaseApply AND m \<noteq> 0)"
proof (cases "isValid p")
  case True
  then show ?thesis
    by (auto simp: read_state_def Let_def readRebase_meets setFlag_meets clean_state_def)
next
  case False
  then show ?thesis by (simp add: read_state_def clean_state_def)
qed

lemma sequencer_read:
  "isSequencerOperation (read_state fs p) \<longleftrightarrow> isValid p \<and>
     (fi_exists fs (cherryPickHeadFile p) \<or> fi_exists fs (revertHeadFile p) \<or> fi_exists fs (path_join (sequencerDir p) ''todo'') \<or>
      fi_exists fs (rebaseMergeDir p) \<or> fi_exists fs (rebaseApplyDir p))"
  unfolding isSequencerOperation_def read_state_meets
  by (simp add: StMerge_def StCherryPick_def StRevert_def StBisect_def StSequencer_def StRebaseMerge_def StRebaseApply_def)

lemma lock_read:
  "st_indexLocked (read_state fs p) \<longleftrightarrow> isValid p \<and> fi_exists fs (indexLockFile p)"
  by (simp add: read_state_def readLock_def readRebaseMerge_def readRebaseApply_def setFlag_def clean_state_def Let_def)

lemma lock_age_read:
  assumes "st_indexLockAgeSeconds (read_state fs p) = Some age" and "0 < age"
  shows "isValid p \<and> fi_exists fs (indexLockFile p) \<and>
    (\<exists>mtime. fi_modifiedTimeNs fs (indexLockFile p) = Some mtime \<and> mtime + age * 1000000000 \<le> fi_nowNs fs)"
proof -
  have "isValid p" "fi_exists fs (indexLockFile p)"
    using assms(1) by (auto simp: read_state_def readLock_def readRebaseMerge_def readRebaseApply_def setFlag_def clean_state_def Let_def split: if_splits)
  then obtain mtime where mtime: "fi_modifiedTimeNs fs (indexLockFile p) = Some mtime"
    "age = (let ns = fi_nowNs fs - mtime in if ns < 0 then - ((- ns) div 1000000000) else ns div 1000000000)"
    using assms(1) by (auto simp: read_state_def readLock_def Let_def)
  have "\<not> fi_nowNs fs - mtime < 0"
  proof
    assume "fi_nowNs fs - mtime < 0"
    then have "age = - (- (fi_nowNs fs - mtime) div 1000000000)" "0 \<le> - (fi_nowNs fs - mtime) div 1000000000"
      using mtime(2) by (simp_all add: Let_def pos_imp_zdiv_nonneg_iff)
    with assms(2) show False by simp
  qed
  then have "mtime + age * 1000000000 \<le> fi_nowNs fs" using mtime(2) by (simp add: Let_def)
  with mtime(1) \<open>isValid p\<close> \<open>fi_exists fs (indexLockFile p)\<close> show ?thesis by blast
qed

end
