(* ===== verification/OperationQueues.thy ===== *)
theory OperationQueues
  imports RepoStates
begin

text \<open>
  \<^verbatim>\<open>src/core/git/OperationRunner.h\<close> and \<^verbatim>\<open>OperationRunner.cpp\<close>: the one queue through which every
  change of a repository goes. Its handlers are functions on the runner's state; its worker thread is
  a machine whose phases are the points between which other threads can act. A cancellation source is
  the id of its operation, and the sources that have been tripped are a list of ids. What the
  environment decides, the state of the repository when it is looked at, what HEAD is, how an attempt
  ends, is an argument of the step that asks; a call that throws answers \<open>None\<close>. The text of an
  exception and the lines written to the message log are left out.
\<close>

datatype ChoiceKind = StashAndRetry | ForceDiscard | AbortChoice | RetryChoice | RemoveLock

record OperationOutcome =
  oo_succeeded :: bool
  oo_error :: "GitError option"
  oo_choices :: "(ChoiceKind \<times> bool) list"
  oo_summary :: string
  oo_kind :: string
  oo_mutatedRefs :: bool
  oo_refsMoved :: "bool option"

definition new_outcome :: OperationOutcome where
  "new_outcome = \<lparr>oo_succeeded = False, oo_error = None, oo_choices = [], oo_summary = [], oo_kind = [],
     oo_mutatedRefs = False, oo_refsMoved = None\<rparr>"

text \<open>An operation, by what its virtual functions answer; the two strings may throw.\<close>

record Operation =
  o_describe :: "string option"
  o_kind :: "string option"
  o_killableMidFlight :: bool
  o_isBackground :: bool
  o_retriesOnLockHeld :: bool
  o_isHousekeeping :: bool
  o_allowedDuringSequencerOperation :: bool

record UndoEntry =
  ue_id :: nat
  ue_description :: string
  ue_headBefore :: ObjectId
  ue_branchBefore :: string
  ue_timestamp :: int

datatype CancelResult = CancelDone | NotCancellableNow | CancelNotFound

record QueuedOperation =
  q_id :: nat
  q_operation :: Operation

text \<open>Where the worker thread is, with the operation it has taken from the queue.\<close>

datatype WorkerPhase =
  Idle
  | Popped QueuedOperation
  | Announced QueuedOperation
  | Preflight QueuedOperation
  | Cleared QueuedOperation
  | Running QueuedOperation nat
  | Outcome QueuedOperation OperationOutcome
  | Delivered

text \<open>
  The state of the runner. The last five fields are not in the program: what was submitted, what was
  handed to the completion callbacks, which operations began to run, which were tripped in the queue, and
  which \<^verbatim>\<open>cancel\<close> tripped while they ran; and \<open>or_trips\<close> are the cancel calls that have left the lock and are about
  to trip the source they copied.
\<close>

record OperationRunner =
  or_queue :: "QueuedOperation list"
  or_nextId :: nat
  or_cancelled :: "nat list"
  or_undoJournal :: "UndoEntry list"
  or_runningId :: nat
  or_runningKillable :: bool
  or_runningDescription :: string
  or_busy :: bool
  or_stopping :: bool
  or_preparingForShutdown :: bool
  or_housekeepingEdges :: nat
  or_worker :: WorkerPhase
  or_trips :: "nat list"
  or_submitted :: "QueuedOperation list"
  or_done :: "(nat \<times> OperationOutcome) list"
  or_started :: "nat list"
  or_trippedWaiting :: "nat list"
  or_killed :: "nat list"

definition new_runner :: OperationRunner where
  "new_runner = \<lparr>or_queue = [], or_nextId = 1, or_cancelled = [], or_undoJournal = [], or_runningId = 0,
     or_runningKillable = False, or_runningDescription = [], or_busy = False, or_stopping = False,
     or_preparingForShutdown = False, or_housekeepingEdges = 0, or_worker = Idle, or_trips = [], or_submitted = [],
     or_done = [], or_started = [], or_trippedWaiting = [], or_killed = []\<rparr>"

definition kStaleLockSeconds :: int where "kStaleLockSeconds = 600"
definition kLockRetries :: nat where "kLockRetries = 2"
definition kMaxUndoEntries :: nat where "kMaxUndoEntries = 200"

section \<open>The lock\<close>

text \<open>\<^verbatim>\<open>state\<close>: the counter of housekeeping edges before and after the read.\<close>

definition runner_state :: "nat \<Rightarrow> RepoState \<Rightarrow> nat \<Rightarrow> RepoState" where
  "runner_state before current after' =
     (if st_indexLocked current \<and> (before mod 2 \<noteq> 0 \<or> after' \<noteq> before)
      then current\<lparr>st_indexLocked := False, st_indexLockAgeSeconds := None\<rparr> else current)"

definition lockStale :: "RepoState \<Rightarrow> bool" where
  "lockStale s = (case st_indexLockAgeSeconds s of Some age \<Rightarrow> age > kStaleLockSeconds | None \<Rightarrow> False)"

text \<open>The second component is whether the lock file is removed; \<open>removed\<close> is whether that worked.\<close>

definition removeStaleIndexLock :: "RepoState \<Rightarrow> bool \<Rightarrow> bool \<times> bool" where
  "removeStaleIndexLock current removed =
     (if \<not> st_indexLocked current then (True, False)
      else if \<not> lockStale current then (False, False)
      else (removed, True))"

text \<open>One turn of the wait: whether it returns.\<close>

definition waitOver :: "OperationRunner \<Rightarrow> nat \<Rightarrow> RepoState \<Rightarrow> bool \<Rightarrow> bool" where
  "waitOver r source current pastDeadline \<longleftrightarrow>
     \<not> st_indexLocked current \<or> lockStale current \<or> source \<in> set (or_cancelled r) \<or> pastDeadline \<or>
     or_stopping r \<or> or_preparingForShutdown r"

definition cancelledOutcome :: OperationOutcome where
  "cancelledOutcome = new_outcome\<lparr>oo_error := Some (git_error Cancelled ''Operation cancelled'' [])\<rparr>"

text \<open>\<^verbatim>\<open>preflight\<close> after its wait; the path of the lock file is an argument.\<close>

definition preflight :: "string \<Rightarrow> Operation \<Rightarrow> bool \<Rightarrow> RepoState \<Rightarrow> OperationOutcome option" where
  "preflight lockFile operation isCancelled current =
     (if isCancelled then Some cancelledOutcome
      else if st_indexLocked current
      then let summary = ''Another Git process appears to be running in this repository''
           in Some (new_outcome\<lparr>oo_summary := summary, oo_error := Some (git_error LockHeld summary (''Lock file: '' @ lockFile)),
                      oo_choices := [(RetryChoice, False)] @ (if lockStale current then [(RemoveLock, True)] else [])\<rparr>)
      else if isSequencerOperation current \<and> \<not> o_allowedDuringSequencerOperation operation
      then Some (new_outcome\<lparr>oo_summary := describe_state current,
                   oo_error := Some (git_error ConflictError ''Finish or abort the operation in progress first'' (describe_state current)),
                   oo_choices := [(AbortChoice, True)]\<rparr>)
      else None)"

section \<open>The handlers\<close>

definition tripWaiting :: "(QueuedOperation \<Rightarrow> bool) \<Rightarrow> OperationRunner \<Rightarrow> OperationRunner" where
  "tripWaiting which r =
     (let ids = map q_id (filter which (or_queue r))
      in r\<lparr>or_cancelled := or_cancelled r @ ids, or_trippedWaiting := or_trippedWaiting r @ ids\<rparr>)"

definition submit :: "OperationRunner \<Rightarrow> Operation \<Rightarrow> OperationRunner" where
  "submit r operation =
     (let r = (if \<not> o_isBackground operation then tripWaiting (\<lambda>w. o_isBackground (q_operation w)) r else r);
          queued = \<lparr>q_id = or_nextId r, q_operation = operation\<rparr>;
          r = (if or_preparingForShutdown r \<and> o_isBackground operation
               then r\<lparr>or_cancelled := or_cancelled r @ [q_id queued], or_trippedWaiting := or_trippedWaiting r @ [q_id queued]\<rparr> else r)
      in r\<lparr>or_nextId := or_nextId r + 1, or_queue := or_queue r @ [queued], or_submitted := or_submitted r @ [queued]\<rparr>)"

definition runs :: "OperationRunner \<Rightarrow> nat \<Rightarrow> bool" where
  "runs r id' = (if id' = 0 then False else if id' = or_runningId r then True else list_ex (\<lambda>q. q_id q = id') (or_queue r))"

text \<open>The locked part of \<^verbatim>\<open>cancel\<close>; a running operation is tripped by \<open>trip\<close> after the lock is released.\<close>

definition cancel :: "OperationRunner \<Rightarrow> nat \<Rightarrow> CancelResult \<times> string option \<times> OperationRunner" where
  "cancel r id' =
     (if list_ex (\<lambda>q. q_id q = id') (or_queue r) then (CancelDone, None, tripWaiting (\<lambda>q. q_id q = id') r)
      else if id' = 0 \<or> id' \<noteq> or_runningId r then (CancelNotFound, None, r)
      else if \<not> or_runningKillable r then (NotCancellableNow, Some (or_runningDescription r), r)
      else (CancelDone, None, r\<lparr>or_trips := or_trips r @ [id']\<rparr>))"

fun phase_id :: "WorkerPhase \<Rightarrow> nat option" where
  "phase_id (Running q n) = Some (q_id q)"
| "phase_id _ = None"

definition trip :: "OperationRunner \<Rightarrow> nat \<Rightarrow> OperationRunner" where
  "trip r id' =
     r\<lparr>or_trips := remove1 id' (or_trips r), or_cancelled := or_cancelled r @ [id'],
       or_killed := if phase_id (or_worker r) = Some id' then or_killed r @ [id'] else or_killed r\<rparr>"

text \<open>
  The copy of a source in the handle that \<^verbatim>\<open>submit\<close> returned, tripped by its holder: no lock is taken and
  the runner is not asked.
\<close>

definition tripHandle :: "OperationRunner \<Rightarrow> nat \<Rightarrow> OperationRunner" where
  "tripHandle r id' = r\<lparr>or_cancelled := or_cancelled r @ [id']\<rparr>"

text \<open>The sequence of ids is one for the process: here another runner draws from it.\<close>

definition idDrawnElsewhere :: "OperationRunner \<Rightarrow> OperationRunner" where
  "idDrawnElsewhere r = r\<lparr>or_nextId := or_nextId r + 1\<rparr>"

definition prepareForShutdown :: "OperationRunner \<Rightarrow> OperationRunner" where
  "prepareForShutdown r = tripWaiting (\<lambda>w. o_isBackground (q_operation w)) (r\<lparr>or_preparingForShutdown := True\<rparr>)"

definition drained :: "OperationRunner \<Rightarrow> bool" where
  "drained r \<longleftrightarrow> or_queue r = [] \<and> \<not> or_busy r"

section \<open>The worker\<close>

definition popNext :: "OperationRunner \<Rightarrow> OperationRunner" where
  "popNext r =
     (case or_queue r of
        [] \<Rightarrow> r
      | q # qs \<Rightarrow> r\<lparr>or_queue := qs, or_busy := True, or_runningId := q_id q, or_worker := Popped q\<rparr>)"

definition failureOutcome :: OperationOutcome where
  "failureOutcome = new_outcome\<lparr>oo_error := Some (git_error UnknownError ''The operation failed unexpectedly'' [])\<rparr>"

definition deliverTo :: "OperationRunner \<Rightarrow> QueuedOperation \<Rightarrow> OperationOutcome \<Rightarrow> OperationRunner" where
  "deliverTo r q outcome = r\<lparr>or_done := or_done r @ [(q_id q, outcome)], or_worker := Delivered\<rparr>"

definition failUndelivered :: "OperationRunner \<Rightarrow> QueuedOperation \<Rightarrow> OperationRunner" where
  "failUndelivered r q =
     deliverTo r q (failureOutcome\<lparr>oo_kind := case o_kind (q_operation q) of Some k \<Rightarrow> k | None \<Rightarrow> []\<rparr>)"

text \<open>The first locked section of \<^verbatim>\<open>runQueued\<close>; a description that throws leaves it by the outer catch.\<close>

definition announce :: "OperationRunner \<Rightarrow> QueuedOperation \<Rightarrow> OperationRunner" where
  "announce r q =
     (let r = r\<lparr>or_runningKillable := o_killableMidFlight (q_operation q)\<rparr>
      in case o_describe (q_operation q) of
           None \<Rightarrow> failUndelivered r q
         | Some d \<Rightarrow> r\<lparr>or_runningDescription := d, or_worker := Announced q\<rparr>)"

definition checkCancelled :: "OperationRunner \<Rightarrow> QueuedOperation \<Rightarrow> OperationRunner" where
  "checkCancelled r q =
     (if q_id q \<in> set (or_cancelled r) then r\<lparr>or_worker := Outcome q cancelledOutcome\<rparr> else r\<lparr>or_worker := Preflight q\<rparr>)"

definition runPreflight :: "string \<Rightarrow> OperationRunner \<Rightarrow> QueuedOperation \<Rightarrow> RepoState \<Rightarrow> OperationRunner" where
  "runPreflight lockFile r q current =
     (case preflight lockFile (q_operation q) (q_id q \<in> set (or_cancelled r)) current of
        Some blocked \<Rightarrow> r\<lparr>or_worker := Outcome q blocked\<rparr>
      | None \<Rightarrow> r\<lparr>or_worker := Cleared q\<rparr>)"

definition recordUndoPoint :: "UndoEntry list \<Rightarrow> string \<Rightarrow> HeadInfo GitResult \<Rightarrow> int \<Rightarrow> UndoEntry list" where
  "recordUndoPoint journal description head timestamp =
     (let entry = \<lparr>ue_id = length journal + 1, ue_description = description, ue_headBefore = null_oid, ue_branchBefore = [],
                   ue_timestamp = timestamp\<rparr>;
          entry = (case head of Inr h \<Rightarrow> entry\<lparr>ue_headBefore := hi_target h, ue_branchBefore := hi_branchName h\<rparr> | Inl _ \<Rightarrow> entry);
          journal = journal @ [entry]
      in if length journal > kMaxUndoEntries then tl journal else journal)"

text \<open>
  The start of an operation that was cleared: housekeeping marks its edge, every other operation
  records where HEAD is, which throws when the reading of HEAD does.
\<close>

definition startRun :: "OperationRunner \<Rightarrow> QueuedOperation \<Rightarrow> HeadInfo GitResult option \<Rightarrow> int \<Rightarrow> OperationRunner" where
  "startRun r q head timestamp =
     (if o_isHousekeeping (q_operation q)
      then r\<lparr>or_housekeepingEdges := or_housekeepingEdges r + 1, or_worker := Running q 0, or_started := or_started r @ [q_id q]\<rparr>
      else case (head, o_describe (q_operation q)) of
             (Some h, Some d) \<Rightarrow>
               r\<lparr>or_undoJournal := recordUndoPoint (or_undoJournal r) d h timestamp, or_worker := Running q 0,
                 or_started := or_started r @ [q_id q]\<rparr>
           | _ \<Rightarrow> r\<lparr>or_worker := Outcome q failureOutcome\<rparr>)"

definition retryWanted :: "OperationRunner \<Rightarrow> QueuedOperation \<Rightarrow> nat \<Rightarrow> OperationOutcome \<Rightarrow> bool" where
  "retryWanted r q retry outcome \<longleftrightarrow>
     retry < kLockRetries \<and> \<not> oo_succeeded outcome \<and> o_retriesOnLockHeld (q_operation q) \<and>
     (case oo_error outcome of Some e \<Rightarrow> ge_code e = LockHeld | None \<Rightarrow> False) \<and> q_id q \<notin> set (or_cancelled r)"

text \<open>
  An attempt ends with an outcome, or throws; after a lock failure it may be run again, and the wait
  for the lock is part of the next attempt.
\<close>

definition attemptEnds :: "OperationRunner \<Rightarrow> QueuedOperation \<Rightarrow> nat \<Rightarrow> OperationOutcome option \<Rightarrow> OperationRunner" where
  "attemptEnds r q retry result =
     (let ended = (\<lambda>outcome. r\<lparr>or_housekeepingEdges := if o_isHousekeeping (q_operation q) then or_housekeepingEdges r + 1 else or_housekeepingEdges r,
                     or_worker := Outcome q outcome\<rparr>)
      in case result of
           None \<Rightarrow> ended failureOutcome
         | Some outcome \<Rightarrow> if retryWanted r q retry outcome then r\<lparr>or_worker := Running q (retry + 1)\<rparr> else ended outcome)"

definition stampAndDeliver :: "OperationRunner \<Rightarrow> QueuedOperation \<Rightarrow> OperationOutcome \<Rightarrow> OperationRunner" where
  "stampAndDeliver r q outcome =
     (case o_kind (q_operation q) of
        None \<Rightarrow> failUndelivered r q
      | Some k \<Rightarrow> deliverTo r q (outcome\<lparr>oo_kind := k\<rparr>))"

definition endTurn :: "OperationRunner \<Rightarrow> OperationRunner" where
  "endTurn r = r\<lparr>or_busy := False, or_runningId := 0, or_runningKillable := False, or_worker := Idle\<rparr>"

section \<open>The machine\<close>

text \<open>Reading the state of the repository can throw, in the wait as after it: the outer catch then reports the failure.\<close>

inductive worker_step :: "string \<Rightarrow> OperationRunner \<Rightarrow> OperationRunner \<Rightarrow> bool" for lockFile where
  pops: "or_worker r = Idle \<Longrightarrow> or_queue r \<noteq> [] \<Longrightarrow> worker_step lockFile r (popNext r)"
| announces: "or_worker r = Popped q \<Longrightarrow> worker_step lockFile r (announce r q)"
| checks: "or_worker r = Announced q \<Longrightarrow> worker_step lockFile r (checkCancelled r q)"
| preflights: "or_worker r = Preflight q \<Longrightarrow> o_isHousekeeping (q_operation q) \<or> waitOver r (q_id q) seen late \<Longrightarrow>
    worker_step lockFile r (runPreflight lockFile r q current)"
| throws: "or_worker r = Preflight q \<Longrightarrow> worker_step lockFile r (failUndelivered r q)"
| starts: "or_worker r = Cleared q \<Longrightarrow> worker_step lockFile r (startRun r q head timestamp)"
| ends: "or_worker r = Running q n \<Longrightarrow> worker_step lockFile r (attemptEnds r q n result)"
| delivers: "or_worker r = Outcome q outcome \<Longrightarrow> worker_step lockFile r (stampAndDeliver r q outcome)"
| turns: "or_worker r = Delivered \<Longrightarrow> worker_step lockFile r (endTurn r)"

inductive runner_step :: "string \<Rightarrow> OperationRunner \<Rightarrow> OperationRunner \<Rightarrow> bool" for lockFile where
  submits: "runner_step lockFile r (submit r operation)"
| cancels: "runner_step lockFile r (snd (snd (cancel r id')))"
| trips: "id' \<in> set (or_trips r) \<Longrightarrow> runner_step lockFile r (trip r id')"
| handles: "runner_step lockFile r (tripHandle r id')"
| draws: "runner_step lockFile r (idDrawnElsewhere r)"
| prepares: "runner_step lockFile r (prepareForShutdown r)"
| stops: "runner_step lockFile r (r\<lparr>or_stopping := True\<rparr>)"
| works: "worker_step lockFile r s \<Longrightarrow> runner_step lockFile r s"

inductive_cases worker_stepE: "worker_step lockFile r s"
inductive_cases runner_stepE: "runner_step lockFile r s"

end
