(* ===== verification/OperationPromises.thy ===== *)
theory OperationPromises
  imports OperationQueues
begin

text \<open>
  What the queue of operations guarantees in every interleaving of submissions, cancels, shutdown and
  its worker: operations complete once each and in order, an operation that must not be killed is never
  killed by a cancel, one that was cancelled while it waited never runs, and background work gives way.
\<close>

section \<open>The invariant\<close>

fun current :: "WorkerPhase \<Rightarrow> QueuedOperation list" where
  "current Idle = []"
| "current Delivered = []"
| "current (Popped q) = [q]"
| "current (Announced q) = [q]"
| "current (Preflight q) = [q]"
| "current (Cleared q) = [q]"
| "current (Running q n) = [q]"
| "current (Outcome q out) = [q]"

text \<open>The operation in hand once its cancellation has been looked at.\<close>

fun checked :: "WorkerPhase \<Rightarrow> QueuedOperation list" where
  "checked (Preflight q) = [q]"
| "checked (Cleared q) = [q]"
| "checked (Running q n) = [q]"
| "checked _ = []"

lemma checked_current: "set (checked ph) \<subseteq> set (current ph)"
  by (cases ph) simp_all

definition gives_way :: "nat list \<Rightarrow> QueuedOperation \<Rightarrow> QueuedOperation \<Rightarrow> bool" where
  "gives_way cs a b \<longleftrightarrow> (o_isBackground (q_operation a) \<and> \<not> o_isBackground (q_operation b) \<longrightarrow> q_id a \<in> set cs)"

definition killable_id :: "OperationRunner \<Rightarrow> nat \<Rightarrow> bool" where
  "killable_id r id' \<longleftrightarrow> (\<exists>q \<in> set (or_submitted r). q_id q = id' \<and> o_killableMidFlight (q_operation q))"

definition accounted :: "OperationRunner \<Rightarrow> bool" where
  "accounted r \<longleftrightarrow> (\<exists>ds. or_submitted r = ds @ current (or_worker r) @ or_queue r \<and> map q_id ds = map fst (or_done r))"

definition ids_ok :: "OperationRunner \<Rightarrow> bool" where
  "ids_ok r \<longleftrightarrow> distinct (map q_id (or_submitted r)) \<and> (\<forall>q \<in> set (or_submitted r). 0 < q_id q \<and> q_id q < or_nextId r) \<and> 0 < or_nextId r"

definition running_ok :: "OperationRunner \<Rightarrow> bool" where
  "running_ok r \<longleftrightarrow>
     (or_runningKillable r \<longrightarrow> killable_id r (or_runningId r)) \<and>
     (or_worker r = Idle \<or> (\<exists>q. or_worker r = Popped q) \<longrightarrow> \<not> or_runningKillable r) \<and>
     (\<forall>q \<in> set (current (or_worker r)). or_runningId r = q_id q) \<and> or_busy r = (or_worker r \<noteq> Idle)"

definition kills_ok :: "OperationRunner \<Rightarrow> bool" where
  "kills_ok r \<longleftrightarrow> (\<forall>id' \<in> set (or_trips r) \<union> set (or_killed r). killable_id r id')"

text \<open>
  The ids tripped while waiting, tripped at all, started, queued, and of the operation whose
  cancellation has been looked at; \<open>n\<close> is above them.
\<close>

definition waiting_sets :: "nat set \<Rightarrow> nat set \<Rightarrow> nat set \<Rightarrow> nat set \<Rightarrow> nat set \<Rightarrow> nat \<Rightarrow> bool" where
  "waiting_sets T C S Q K n \<longleftrightarrow> T \<subseteq> C \<and> T \<inter> S = {} \<and> S \<inter> Q = {} \<and> K \<inter> T = {} \<and> T \<subseteq> {..<n} \<and> S \<subseteq> {..<n}"

lemma waiting_trip: "waiting_sets T C S Q K n \<Longrightarrow> D \<subseteq> Q \<Longrightarrow> K \<inter> Q = {} \<Longrightarrow> Q \<subseteq> {..<n} \<Longrightarrow> waiting_sets (T \<union> D) (C \<union> D) S Q K n"
  unfolding waiting_sets_def by blast

lemma waiting_more: "waiting_sets T C S Q K n \<Longrightarrow> C \<subseteq> C' \<Longrightarrow> Q' \<subseteq> Q \<Longrightarrow> K' \<subseteq> K \<Longrightarrow> waiting_sets T C' S Q' K' n"
  unfolding waiting_sets_def by blast

lemma waiting_start: "waiting_sets T C S Q K n \<Longrightarrow> D \<inter> T = {} \<Longrightarrow> D \<inter> Q = {} \<Longrightarrow> D \<subseteq> {..<n} \<Longrightarrow> K' \<inter> T = {} \<Longrightarrow> waiting_sets T C (S \<union> D) Q K' n"
  unfolding waiting_sets_def by blast

lemma waiting_submit: "waiting_sets T C S Q K n \<Longrightarrow> D \<subseteq> {n} \<Longrightarrow> n \<notin> K \<Longrightarrow> waiting_sets (T \<union> D) (C \<union> D) S (insert n Q) K (Suc n)"
  unfolding waiting_sets_def lessThan_Suc by auto

definition waiting_ok :: "OperationRunner \<Rightarrow> bool" where
  "waiting_ok r \<longleftrightarrow> waiting_sets (set (or_trippedWaiting r)) (set (or_cancelled r)) (set (or_started r)) (q_id ` set (or_queue r))
     (q_id ` set (checked (or_worker r))) (or_nextId r)"

definition runner_inv :: "OperationRunner \<Rightarrow> bool" where
  "runner_inv r \<longleftrightarrow> accounted r \<and> ids_ok r \<and> running_ok r \<and> kills_ok r \<and> waiting_ok r \<and>
     sorted_wrt (gives_way (or_trippedWaiting r)) (or_queue r)"

lemma runner_invI:
  "accounted r \<Longrightarrow> ids_ok r \<Longrightarrow> running_ok r \<Longrightarrow> kills_ok r \<Longrightarrow> waiting_ok r \<Longrightarrow>
   sorted_wrt (gives_way (or_trippedWaiting r)) (or_queue r) \<Longrightarrow> runner_inv r"
  by (simp add: runner_inv_def)

lemma runner_invD:
  assumes "runner_inv r"
  shows "accounted r" "ids_ok r" "running_ok r" "kills_ok r" "waiting_ok r" "sorted_wrt (gives_way (or_trippedWaiting r)) (or_queue r)"
  using assms by (simp_all add: runner_inv_def)

lemma gives_way_mono: "sorted_wrt (gives_way cs) qs \<Longrightarrow> set cs \<subseteq> set cs' \<Longrightarrow> sorted_wrt (gives_way cs') qs"
  by (rule sorted_wrt_mono_rel) (auto simp: gives_way_def)

lemma queue_submitted: "accounted r \<Longrightarrow> set (or_queue r) \<subseteq> set (or_submitted r)" "accounted r \<Longrightarrow> set (current (or_worker r)) \<subseteq> set (or_submitted r)"
  by (auto simp: accounted_def)

lemma current_not_queued:
  assumes "accounted r" "ids_ok r" "q \<in> set (current (or_worker r))"
  shows "q_id q \<notin> q_id ` set (or_queue r)"
proof -
  have "distinct (map q_id (current (or_worker r) @ or_queue r))"
    using assms(1,2) unfolding accounted_def ids_ok_def by (metis distinct_append map_append)
  then have "q_id ` set (current (or_worker r)) \<inter> q_id ` set (or_queue r) = {}" by simp
  then show ?thesis using assms(3) by blast
qed

text \<open>The fields the invariant looks at.\<close>

definition seen_fields :: "OperationRunner \<Rightarrow> _" where
  "seen_fields r = (or_queue r, or_submitted r, or_worker r, or_done r, or_nextId r, or_trips r, or_killed r, or_runningId r,
     or_busy r, or_runningKillable r, or_started r, or_trippedWaiting r, or_cancelled r)"

lemma inv_frame:
  assumes "seen_fields r' = seen_fields r" and "runner_inv r"
  shows "runner_inv r'"
proof -
  have eqs: "or_queue r' = or_queue r" "or_submitted r' = or_submitted r" "or_worker r' = or_worker r" "or_done r' = or_done r"
    "or_nextId r' = or_nextId r" "or_trips r' = or_trips r" "or_killed r' = or_killed r" "or_runningId r' = or_runningId r"
    "or_busy r' = or_busy r" "or_runningKillable r' = or_runningKillable r" "or_started r' = or_started r"
    "or_trippedWaiting r' = or_trippedWaiting r" "or_cancelled r' = or_cancelled r"
    using assms(1) by (simp_all add: seen_fields_def)
  have "runner_inv r' = runner_inv r"
    unfolding runner_inv_def accounted_def ids_ok_def running_ok_def kills_ok_def waiting_ok_def killable_id_def eqs ..
  with assms(2) show ?thesis by simp
qed

lemma inv_new: "runner_inv new_runner"
  by (rule runner_invI)
    (simp_all add: new_runner_def accounted_def ids_ok_def running_ok_def kills_ok_def waiting_ok_def waiting_sets_def)

section \<open>Handlers keep it\<close>

lemma tripWaiting_frame [simp]:
  "or_queue (tripWaiting P r) = or_queue r" "or_submitted (tripWaiting P r) = or_submitted r" "or_worker (tripWaiting P r) = or_worker r"
  "or_done (tripWaiting P r) = or_done r" "or_nextId (tripWaiting P r) = or_nextId r" "or_trips (tripWaiting P r) = or_trips r"
  "or_killed (tripWaiting P r) = or_killed r" "or_runningId (tripWaiting P r) = or_runningId r" "or_busy (tripWaiting P r) = or_busy r"
  "or_runningKillable (tripWaiting P r) = or_runningKillable r" "or_started (tripWaiting P r) = or_started r"
  "or_preparingForShutdown (tripWaiting P r) = or_preparingForShutdown r"
  "set (or_cancelled (tripWaiting P r)) = set (or_cancelled r) \<union> q_id ` {q \<in> set (or_queue r). P q}"
  "set (or_trippedWaiting (tripWaiting P r)) = set (or_trippedWaiting r) \<union> q_id ` {q \<in> set (or_queue r). P q}"
  by (auto simp: tripWaiting_def Let_def)

lemma inv_tripWaiting:
  assumes inv: "runner_inv r"
  shows "runner_inv (tripWaiting P r)"
proof (rule runner_invI)
  note I = runner_invD [OF inv]
  show "accounted (tripWaiting P r)" "ids_ok (tripWaiting P r)" "running_ok (tripWaiting P r)" "kills_ok (tripWaiting P r)"
    using I by (simp_all add: accounted_def ids_ok_def running_ok_def kills_ok_def killable_id_def)
  have "q_id ` set (checked (or_worker r)) \<inter> q_id ` set (or_queue r) = {}"
    using current_not_queued [OF I(1,2)] checked_current [of "or_worker r"] by blast
  moreover have "q_id ` set (or_queue r) \<subseteq> {..<or_nextId r}" using queue_submitted(1) [OF I(1)] I(2) by (auto simp: ids_ok_def)
  moreover have "q_id ` {q \<in> set (or_queue r). P q} \<subseteq> q_id ` set (or_queue r)" by blast
  ultimately show "waiting_ok (tripWaiting P r)"
    unfolding waiting_ok_def tripWaiting_frame by (intro waiting_trip [OF I(5) [unfolded waiting_ok_def]])
  show "sorted_wrt (gives_way (or_trippedWaiting (tripWaiting P r))) (or_queue (tripWaiting P r))"
    using gives_way_mono [OF I(6)] by simp
qed

lemma inv_prepare: "runner_inv r \<Longrightarrow> runner_inv (prepareForShutdown r)"
  unfolding prepareForShutdown_def by (rule inv_tripWaiting, erule inv_frame [rotated]) (simp add: seen_fields_def)

lemma inv_stop: "runner_inv r \<Longrightarrow> runner_inv (r\<lparr>or_stopping := True\<rparr>)"
  by (erule inv_frame [rotated]) (simp add: seen_fields_def)

lemma inv_cancel:
  assumes inv: "runner_inv r"
  shows "runner_inv (snd (snd (cancel r id')))"
proof -
  have "runner_inv (r\<lparr>or_trips := or_trips r @ [id']\<rparr>)" if run: "id' = or_runningId r" "or_runningKillable r"
  proof (rule runner_invI)
    let ?r = "r\<lparr>or_trips := or_trips r @ [id']\<rparr>"
    note I = runner_invD [OF inv]
    show "accounted ?r" "ids_ok ?r" "waiting_ok ?r" "running_ok ?r" "sorted_wrt (gives_way (or_trippedWaiting ?r)) (or_queue ?r)"
      using I by (simp_all add: accounted_def ids_ok_def waiting_ok_def running_ok_def killable_id_def)
    show "kills_ok ?r" using I(3,4) run by (auto simp: kills_ok_def running_ok_def killable_id_def)
  qed
  then show ?thesis using inv inv_tripWaiting [OF inv] by (simp add: cancel_def)
qed

lemma inv_cancelled:
  assumes inv: "runner_inv r"
  shows "runner_inv (r\<lparr>or_cancelled := or_cancelled r @ ids\<rparr>)"
proof (rule runner_invI)
  let ?r = "r\<lparr>or_cancelled := or_cancelled r @ ids\<rparr>"
  note I = runner_invD [OF inv]
  show "accounted ?r" "ids_ok ?r" "running_ok ?r" "kills_ok ?r"
    using I by (simp_all add: accounted_def ids_ok_def running_ok_def kills_ok_def killable_id_def)
  have "waiting_sets (set (or_trippedWaiting r)) (set (or_cancelled r @ ids)) (set (or_started r)) (q_id ` set (or_queue r))
     (q_id ` set (checked (or_worker r))) (or_nextId r)"
    by (rule waiting_more [OF I(5) [unfolded waiting_ok_def]]) auto
  then show "waiting_ok ?r" by (simp add: waiting_ok_def)
  show "sorted_wrt (gives_way (or_trippedWaiting ?r)) (or_queue ?r)" using gives_way_mono [OF I(6)] by simp
qed

lemma inv_tripHandle: "runner_inv r \<Longrightarrow> runner_inv (tripHandle r id')"
  unfolding tripHandle_def by (rule inv_cancelled)

lemma inv_trip:
  assumes inv: "runner_inv r" and "id' \<in> set (or_trips r)"
  shows "runner_inv (trip r id')"
proof -
  define r1 where "r1 = r\<lparr>or_cancelled := or_cancelled r @ [id']\<rparr>"
  note I = runner_invD [OF inv_cancelled [OF inv, of "[id']", folded r1_def]]
  have fields: "or_queue (trip r id') = or_queue r1" "or_submitted (trip r id') = or_submitted r1" "or_worker (trip r id') = or_worker r1"
    "or_done (trip r id') = or_done r1" "or_nextId (trip r id') = or_nextId r1" "or_runningId (trip r id') = or_runningId r1"
    "or_busy (trip r id') = or_busy r1" "or_runningKillable (trip r id') = or_runningKillable r1" "or_started (trip r id') = or_started r1"
    "or_trippedWaiting (trip r id') = or_trippedWaiting r1" "or_cancelled (trip r id') = or_cancelled r1"
    by (simp_all add: trip_def r1_def)
  have "set (or_trips (trip r id')) \<union> set (or_killed (trip r id')) \<subseteq> set (or_trips r1) \<union> set (or_killed r1)"
    using assms(2) set_remove1_subset [of id' "or_trips r"] by (auto simp: trip_def r1_def)
  then have "kills_ok (trip r id')" using I(4) unfolding kills_ok_def killable_id_def fields by blast
  then show ?thesis
    using I by (intro runner_invI) (simp_all add: accounted_def ids_ok_def running_ok_def waiting_ok_def killable_id_def fields)
qed

lemma inv_idDrawnElsewhere:
  assumes inv: "runner_inv r"
  shows "runner_inv (idDrawnElsewhere r)"
proof (rule runner_invI)
  note I = runner_invD [OF inv]
  show "accounted (idDrawnElsewhere r)" "running_ok (idDrawnElsewhere r)" "kills_ok (idDrawnElsewhere r)"
    "sorted_wrt (gives_way (or_trippedWaiting (idDrawnElsewhere r))) (or_queue (idDrawnElsewhere r))"
    using I by (simp_all add: idDrawnElsewhere_def accounted_def running_ok_def kills_ok_def killable_id_def)
  show "ids_ok (idDrawnElsewhere r)" using I(2) by (auto simp: idDrawnElsewhere_def ids_ok_def)
  show "waiting_ok (idDrawnElsewhere r)" using I(5) by (auto simp: idDrawnElsewhere_def waiting_ok_def waiting_sets_def)
qed

lemma inv_submit:
  assumes inv: "runner_inv r"
  shows "runner_inv (submit r operation)"
proof -
  define r1 where "r1 = (if \<not> o_isBackground operation then tripWaiting (\<lambda>w. o_isBackground (q_operation w)) r else r)"
  define new where "new = (if or_preparingForShutdown r1 \<and> o_isBackground operation then [or_nextId r1] else [])"
  let ?q = "\<lparr>q_id = or_nextId r1, q_operation = operation\<rparr>"
  let ?s = "submit r operation"
  have inv1: "runner_inv r1" using inv inv_tripWaiting [OF inv] by (simp add: r1_def)
  note I = runner_invD [OF inv1]
  have s: "?s = r1\<lparr>or_cancelled := or_cancelled r1 @ new, or_trippedWaiting := or_trippedWaiting r1 @ new, or_nextId := or_nextId r1 + 1,
      or_queue := or_queue r1 @ [?q], or_submitted := or_submitted r1 @ [?q]\<rparr>"
    by (simp add: submit_def r1_def [symmetric] new_def Let_def)
  have fresh: "\<forall>q \<in> set (or_submitted r1). q_id q < or_nextId r1" using I(2) by (simp add: ids_ok_def)
  show ?thesis
  proof (rule runner_invI)
    show "accounted ?s" using I(1) by (auto simp: s accounted_def)
    show "ids_ok ?s" using I(2) by (auto simp: s ids_ok_def less_Suc_eq)
    show "running_ok ?s" "kills_ok ?s" using I(3,4) by (auto simp: s running_ok_def kills_ok_def killable_id_def)
    have "or_nextId r1 \<notin> q_id ` set (checked (or_worker r1))"
      using queue_submitted(2) [OF I(1)] checked_current [of "or_worker r1"] fresh by fastforce
    moreover have "set new \<subseteq> {or_nextId r1}" by (auto simp: new_def)
    ultimately show "waiting_ok ?s" using waiting_submit [OF I(5) [unfolded waiting_ok_def]] by (simp add: s waiting_ok_def)
    have "gives_way (or_trippedWaiting r1 @ new) q ?q" if "q \<in> set (or_queue r1)" for q
      using that by (auto simp: gives_way_def r1_def)
    then show "sorted_wrt (gives_way (or_trippedWaiting ?s)) (or_queue ?s)"
      using gives_way_mono [OF I(6)] by (auto simp: s sorted_wrt_append)
  qed
qed

section \<open>The worker keeps it\<close>

lemma inv_pop:
  assumes inv: "runner_inv r" and idle: "or_worker r = Idle" and q: "or_queue r = q # qs"
  shows "runner_inv (popNext r)"
proof (rule runner_invI)
  note I = runner_invD [OF inv]
  show "accounted (popNext r)" "ids_ok (popNext r)" "kills_ok (popNext r)"
    using I idle q by (simp_all add: popNext_def accounted_def ids_ok_def kills_ok_def killable_id_def)
  show "running_ok (popNext r)" using I(3) idle q by (simp add: popNext_def running_ok_def)
  show "waiting_ok (popNext r)" using waiting_more [OF I(5) [unfolded waiting_ok_def]] idle q by (auto simp: popNext_def waiting_ok_def)
  show "sorted_wrt (gives_way (or_trippedWaiting (popNext r))) (or_queue (popNext r))" using I(6) q by (simp add: popNext_def)
qed

text \<open>A step from one phase to another that keeps the operation in hand.\<close>

lemma single_disjoint:
  fixes a :: nat
  assumes "S \<subseteq> {a}"
  shows "a \<notin> Q \<Longrightarrow> S \<inter> Q = {}" "a < n \<Longrightarrow> S \<subseteq> {..<n}"
  using assms by auto

lemma inv_move:
  assumes inv: "runner_inv r" and here: "current (or_worker r) = [q]" "current ph = [q]" "\<nexists>q'. ph = Popped q'"
    and killable: "k = or_runningKillable r \<or> k = o_killableMidFlight (q_operation q)"
    and clear: "checked ph \<noteq> [] \<longrightarrow> q_id q \<notin> set (or_trippedWaiting r)"
    and started: "set xs \<subseteq> {q_id q}" "xs \<noteq> [] \<longrightarrow> q_id q \<notin> set (or_trippedWaiting r)"
    and same: "seen_fields r' = seen_fields (r\<lparr>or_worker := ph, or_runningKillable := k, or_started := or_started r @ xs\<rparr>)"
  shows "runner_inv r'"
proof (rule inv_frame [OF same], rule runner_invI)
  let ?s = "r\<lparr>or_worker := ph, or_runningKillable := k, or_started := or_started r @ xs\<rparr>"
  note I = runner_invD [OF inv]
  have sub: "q \<in> set (or_submitted r)" using queue_submitted(2) [OF I(1)] here by simp
  have id': "or_runningId r = q_id q" "or_worker r \<noteq> Idle" using I(3) here by (auto simp: running_ok_def)
  show "accounted ?s" "ids_ok ?s" "kills_ok ?s" using I here by (simp_all add: accounted_def ids_ok_def kills_ok_def killable_id_def)
  have "ph \<noteq> Idle" using here by auto
  then show "running_ok ?s" using I(3) here id' sub killable by (auto simp: running_ok_def killable_id_def)
  have "q_id q \<notin> q_id ` set (or_queue r)" "q_id q < or_nextId r"
    using current_not_queued [OF I(1,2)] here sub I(2) by (auto simp: ids_ok_def)
  then have "set xs \<inter> q_id ` set (or_queue r) = {}" "set xs \<subseteq> {..<or_nextId r}" using single_disjoint [OF started(1)] by simp_all
  moreover have "set xs \<inter> set (or_trippedWaiting r) = {}" using started by (cases xs) auto
  moreover have "q_id ` set (checked ph) \<inter> set (or_trippedWaiting r) = {}"
    using checked_current [of ph] here(2) clear by (cases "checked ph") auto
  ultimately show "waiting_ok ?s" using waiting_start [OF I(5) [unfolded waiting_ok_def]] by (simp add: waiting_ok_def)
  show "sorted_wrt (gives_way (or_trippedWaiting ?s)) (or_queue ?s)" using I(6) by simp
qed

lemma inv_deliver:
  assumes inv: "runner_inv r" and here: "current (or_worker r) = [q]"
    and killable: "k = or_runningKillable r \<or> k = o_killableMidFlight (q_operation q)"
    and same: "seen_fields r' = seen_fields (r\<lparr>or_worker := Delivered, or_runningKillable := k, or_done := or_done r @ [(q_id q, out)]\<rparr>)"
  shows "runner_inv r'"
proof (rule inv_frame [OF same], rule runner_invI)
  let ?s = "r\<lparr>or_worker := Delivered, or_runningKillable := k, or_done := or_done r @ [(q_id q, out)]\<rparr>"
  note I = runner_invD [OF inv]
  have sub: "q \<in> set (or_submitted r)" using queue_submitted(2) [OF I(1)] here by simp
  have id': "or_runningId r = q_id q" "or_worker r \<noteq> Idle" using I(3) here by (auto simp: running_ok_def)
  obtain ds where "or_submitted r = ds @ [q] @ or_queue r" "map q_id ds = map fst (or_done r)" using I(1) here by (auto simp: accounted_def)
  then show "accounted ?s" by (auto simp: accounted_def intro!: exI [of _ "ds @ [q]"])
  show "ids_ok ?s" "kills_ok ?s" using I by (simp_all add: ids_ok_def kills_ok_def killable_id_def)
  show "running_ok ?s" using I(3) id' sub killable by (auto simp: running_ok_def killable_id_def)
  show "waiting_ok ?s" using waiting_more [OF I(5) [unfolded waiting_ok_def]] by (simp add: waiting_ok_def)
  show "sorted_wrt (gives_way (or_trippedWaiting ?s)) (or_queue ?s)" using I(6) by simp
qed

lemma inv_endTurn:
  assumes inv: "runner_inv r" and here: "or_worker r = Delivered"
  shows "runner_inv (endTurn r)"
proof (rule runner_invI)
  note I = runner_invD [OF inv]
  show "accounted (endTurn r)" "ids_ok (endTurn r)" "kills_ok (endTurn r)" "running_ok (endTurn r)" "waiting_ok (endTurn r)"
    "sorted_wrt (gives_way (or_trippedWaiting (endTurn r))) (or_queue (endTurn r))"
    using I here by (simp_all add: endTurn_def accounted_def ids_ok_def kills_ok_def killable_id_def running_ok_def waiting_ok_def)
qed

lemma inv_announce:
  assumes inv: "runner_inv r" and here: "or_worker r = Popped q"
  shows "runner_inv (announce r q)"
proof (cases "o_describe (q_operation q)")
  case None
  then show ?thesis
    by (intro inv_deliver [OF inv, of q "o_killableMidFlight (q_operation q)"])
      (simp_all add: here announce_def failUndelivered_def deliverTo_def seen_fields_def)
next
  case (Some d)
  then show ?thesis
    by (intro inv_move [OF inv, of q "Announced q" "o_killableMidFlight (q_operation q)" "[]"])
      (simp_all add: here announce_def seen_fields_def)
qed

lemma inv_checkCancelled:
  assumes inv: "runner_inv r" and here: "or_worker r = Announced q"
  shows "runner_inv (checkCancelled r q)"
proof -
  have "set (or_trippedWaiting r) \<subseteq> set (or_cancelled r)"
    using runner_invD(5) [OF inv] by (simp add: waiting_ok_def waiting_sets_def)
  then have clear: "q_id q \<notin> set (or_cancelled r) \<Longrightarrow> q_id q \<notin> set (or_trippedWaiting r)" by blast
  show ?thesis
  proof (cases "q_id q \<in> set (or_cancelled r)")
    case True
    then show ?thesis
      by (intro inv_move [OF inv, of q "Outcome q cancelledOutcome" "or_runningKillable r" "[]"])
        (simp_all add: here checkCancelled_def seen_fields_def)
  next
    case False
    then show ?thesis
      by (intro inv_move [OF inv, of q "Preflight q" "or_runningKillable r" "[]"])
        (simp_all add: here clear checkCancelled_def seen_fields_def)
  qed
qed

lemma checked_clear:
  assumes inv: "runner_inv r" and "q \<in> set (checked (or_worker r))"
  shows "q_id q \<notin> set (or_trippedWaiting r)"
  using runner_invD(5) [OF inv] assms(2) by (auto simp: waiting_ok_def waiting_sets_def)

lemma inv_runPreflight:
  assumes inv: "runner_inv r" and here: "or_worker r = Preflight q"
  shows "runner_inv (runPreflight lockFile r q s)"
proof (cases "preflight lockFile (q_operation q) (q_id q \<in> set (or_cancelled r)) s")
  case None
  then show ?thesis
    using checked_clear [OF inv, of q]
    by (intro inv_move [OF inv, of q "Cleared q" "or_runningKillable r" "[]"])
      (simp_all add: here runPreflight_def seen_fields_def)
next
  case (Some blocked)
  then show ?thesis
    by (intro inv_move [OF inv, of q "Outcome q blocked" "or_runningKillable r" "[]"])
      (simp_all add: here runPreflight_def seen_fields_def)
qed

lemma inv_throws:
  assumes inv: "runner_inv r" and here: "or_worker r = Preflight q"
  shows "runner_inv (failUndelivered r q)"
  by (intro inv_deliver [OF inv, of q "or_runningKillable r"]) (simp_all add: here failUndelivered_def deliverTo_def seen_fields_def)

lemma startRun_fields:
  "seen_fields (startRun r q head timestamp) =
     (if or_worker (startRun r q head timestamp) = Running q 0
      then seen_fields (r\<lparr>or_worker := Running q 0, or_runningKillable := or_runningKillable r, or_started := or_started r @ [q_id q]\<rparr>)
      else seen_fields (r\<lparr>or_worker := Outcome q failureOutcome, or_runningKillable := or_runningKillable r, or_started := or_started r @ []\<rparr>))"
  by (simp add: startRun_def seen_fields_def split: option.split)

lemma inv_startRun:
  assumes inv: "runner_inv r" and here: "or_worker r = Cleared q"
  shows "runner_inv (startRun r q head timestamp)"
proof (cases "or_worker (startRun r q head timestamp) = Running q 0")
  case True
  then show ?thesis
    using checked_clear [OF inv, of q]
    by (intro inv_move [OF inv, of q "Running q 0" "or_runningKillable r" "[q_id q]"])
      (simp_all add: here startRun_fields)
next
  case False
  then show ?thesis
    by (intro inv_move [OF inv, of q "Outcome q failureOutcome" "or_runningKillable r" "[]"])
      (simp_all add: here startRun_fields)
qed

lemma attemptEnds_fields:
  "\<exists>ph. seen_fields (attemptEnds r q n result) = seen_fields (r\<lparr>or_worker := ph\<rparr>) \<and> (ph = Running q (n + 1) \<or> (\<exists>out. ph = Outcome q out))"
  by (cases result) (auto simp: attemptEnds_def seen_fields_def)

lemma inv_attemptEnds:
  assumes inv: "runner_inv r" and here: "or_worker r = Running q n"
  shows "runner_inv (attemptEnds r q n result)"
proof -
  obtain ph where ph: "seen_fields (attemptEnds r q n result) = seen_fields (r\<lparr>or_worker := ph\<rparr>)"
    "ph = Running q (n + 1) \<or> (\<exists>out. ph = Outcome q out)"
    using attemptEnds_fields by blast
  then have "current ph = [q]" "\<nexists>q'. ph = Popped q'" by auto
  then show ?thesis
    using checked_clear [OF inv, of q] ph(1)
    by (intro inv_move [OF inv, of q ph "or_runningKillable r" "[]"]) (simp_all add: here seen_fields_def)
qed

lemma inv_stampAndDeliver:
  assumes inv: "runner_inv r" and here: "or_worker r = Outcome q out"
  shows "runner_inv (stampAndDeliver r q out)"
proof -
  obtain out' where "seen_fields (stampAndDeliver r q out) =
     seen_fields (r\<lparr>or_worker := Delivered, or_runningKillable := or_runningKillable r, or_done := or_done r @ [(q_id q, out')]\<rparr>)"
    by (cases "o_kind (q_operation q)") (simp_all add: stampAndDeliver_def failUndelivered_def deliverTo_def seen_fields_def)
  then show ?thesis by (intro inv_deliver [OF inv, of q "or_runningKillable r"]) (simp_all add: here)
qed

lemma inv_worker_step: "worker_step lockFile r s \<Longrightarrow> runner_inv r \<Longrightarrow> runner_inv s"
  by (erule worker_stepE)
    (auto simp: neq_Nil_conv intro: inv_pop inv_announce inv_checkCancelled inv_runPreflight inv_throws inv_startRun inv_attemptEnds inv_stampAndDeliver inv_endTurn)

lemma inv_runner_step: "runner_step lockFile r s \<Longrightarrow> runner_inv r \<Longrightarrow> runner_inv s"
  by (erule runner_stepE)
    (auto intro: inv_submit inv_cancel inv_trip inv_tripHandle inv_idDrawnElsewhere inv_prepare inv_stop inv_worker_step)

section \<open>What holds of every state\<close>

interpretation operations: state_machine "\<lambda>r. r = new_runner" "runner_step lockFile" runner_inv
  by unfold_locales (auto intro: inv_new inv_runner_step)

abbreviation runner_reachable :: "string \<Rightarrow> OperationRunner \<Rightarrow> bool" where
  "runner_reachable lockFile \<equiv> reachable (\<lambda>r. r = new_runner) (runner_step lockFile)"

lemmas runner_reach = reachable.reach_step [of "\<lambda>r. r = new_runner" "runner_step lockFile" for lockFile]

lemma new_reachable: "runner_reachable lockFile new_runner"
  by (rule reachable.reach_init) simp

text \<open>
  C11. In every interleaving of submissions, cancels, shutdown and the worker's steps, every operation
  that was submitted is exactly one of completed, in hand and waiting, in the order of submission: the
  completion callbacks are called once each and first in, first out, whatever is cancelled or throws.
\<close>

theorem operations_once_in_order:
  assumes "runner_reachable lockFile r"
  shows "map q_id (or_submitted r) = map fst (or_done r) @ map q_id (current (or_worker r)) @ map q_id (or_queue r) \<and>
    distinct (map q_id (or_submitted r))"
  using runner_invD(1,2) [OF operations.reachable_inv [OF assms]] by (auto simp: accounted_def ids_ok_def)

text \<open>A fetch in the background, and a commit of the user.\<close>

definition fetch_op :: Operation where
  "fetch_op = \<lparr>o_describe = Some ''Fetch'', o_kind = Some ''fetch'', o_killableMidFlight = True, o_isBackground = True,
     o_retriesOnLockHeld = False, o_isHousekeeping = False, o_allowedDuringSequencerOperation = False\<rparr>"

definition commit_op :: Operation where
  "commit_op = fetch_op\<lparr>o_describe := Some ''Commit'', o_kind := Some ''commit'', o_killableMidFlight := False, o_isBackground := False\<rparr>"

lemma submit_fetch:
  "submit new_runner fetch_op = new_runner\<lparr>or_nextId := 2, or_queue := [\<lparr>q_id = 1, q_operation = fetch_op\<rparr>],
     or_submitted := [\<lparr>q_id = 1, q_operation = fetch_op\<rparr>]\<rparr>"
  by (simp add: submit_def new_runner_def fetch_op_def Let_def)

lemma fetch_op_simps [simp]:
  "o_describe fetch_op = Some ''Fetch''" "o_isBackground fetch_op" "\<not> o_isBackground commit_op" "o_killableMidFlight fetch_op"
  "\<not> o_isHousekeeping fetch_op"
  by (simp_all add: fetch_op_def commit_op_def)

definition two_waiting :: OperationRunner where
  "two_waiting = submit (submit new_runner fetch_op) commit_op"

lemma two_waiting_reachable: "runner_reachable lockFile two_waiting"
  unfolding two_waiting_def by (rule runner_reach [OF runner_reach [OF new_reachable runner_step.submits] runner_step.submits])

lemma two_waiting_simps:
  "or_queue two_waiting = [\<lparr>q_id = 1, q_operation = fetch_op\<rparr>, \<lparr>q_id = 2, q_operation = commit_op\<rparr>]"
  "or_worker two_waiting = Idle" "or_submitted two_waiting = or_queue two_waiting" "or_done two_waiting = []"
  "or_trippedWaiting two_waiting = [1]" "or_started two_waiting = []" "or_killed two_waiting = []"
  unfolding two_waiting_def submit_fetch by (simp_all add: submit_def tripWaiting_def new_runner_def Let_def)

theorem operations_once_in_order_witness:
  "map q_id (or_submitted two_waiting) = [1, 2] \<and> distinct (map q_id (or_submitted two_waiting))"
  using operations_once_in_order [OF two_waiting_reachable] by (simp add: two_waiting_simps)

text \<open>The fetch runs: each state is the one before it after one step of the worker.\<close>

definition fetching :: "WorkerPhase \<Rightarrow> OperationRunner" where
  "fetching ph = new_runner\<lparr>or_nextId := 2, or_runningId := 1, or_runningKillable := True, or_runningDescription := ''Fetch'', or_busy := True,
     or_worker := ph, or_submitted := [\<lparr>q_id = 1, q_operation = fetch_op\<rparr>]\<rparr>"

lemma fetch_runs:
  fixes lockFile
  defines "q \<equiv> \<lparr>q_id = 1, q_operation = fetch_op\<rparr>"
  shows "announce (popNext (submit new_runner fetch_op)) q = fetching (Announced q)" "checkCancelled (fetching (Announced q)) q = fetching (Preflight q)"
    "runPreflight lockFile (fetching (Preflight q)) q clean_state = fetching (Cleared q)" "or_worker (popNext (submit new_runner fetch_op)) = Popped q"
    "\<And>ph. or_worker (fetching ph) = ph"
  unfolding submit_fetch
  by (simp_all add: q_def new_runner_def popNext_def announce_def fetching_def Let_def checkCancelled_def runPreflight_def preflight_def
    clean_state_def isSequencerOperation_def startRun_def)

lemma fetching_reachable: "runner_reachable lockFile (fetching (Cleared \<lparr>q_id = 1, q_operation = fetch_op\<rparr>))"
proof -
  let ?q = "\<lparr>q_id = 1, q_operation = fetch_op\<rparr>"
  note step = runner_reach [OF _ runner_step.works]
  have "runner_reachable lockFile (popNext (submit new_runner fetch_op))"
    by (rule step [OF runner_reach [OF new_reachable runner_step.submits] worker_step.pops]) (unfold submit_fetch, simp_all add: new_runner_def)
  from step [OF this worker_step.announces [OF fetch_runs(4)]] have "runner_reachable lockFile (fetching (Announced ?q))"
    unfolding fetch_runs(1) .
  from step [OF this worker_step.checks [OF fetch_runs(5)]] have prepared: "runner_reachable lockFile (fetching (Preflight ?q))"
    unfolding fetch_runs(2) .
  have "o_isHousekeeping (q_operation ?q) \<or> waitOver (fetching (Preflight ?q)) (q_id ?q) clean_state False"
    by (simp add: waitOver_def clean_state_def)
  from step [OF prepared worker_step.preflights [OF fetch_runs(5) this, of lockFile clean_state]] show ?thesis
    unfolding fetch_runs(3) .
qed

definition fetch_running :: OperationRunner where
  "fetch_running = startRun (fetching (Cleared \<lparr>q_id = 1, q_operation = fetch_op\<rparr>)) \<lparr>q_id = 1, q_operation = fetch_op\<rparr>
     (Some (Inl (git_error UnknownError [] []))) 0"

definition fetch_killed :: OperationRunner where
  "fetch_killed = trip (snd (snd (cancel fetch_running 1))) 1"

lemma fetch_running_simps:
  "or_worker fetch_running = Running \<lparr>q_id = 1, q_operation = fetch_op\<rparr> 0" "or_runningId fetch_running = 1" "or_runningKillable fetch_running"
  "or_queue fetch_running = []" "or_trips fetch_running = []" "or_killed fetch_running = []" "or_started fetch_running = [1]"
  "or_submitted fetch_running = [\<lparr>q_id = 1, q_operation = fetch_op\<rparr>]" "or_done fetch_running = []"
  by (simp_all add: fetch_running_def startRun_def fetching_def new_runner_def)

lemma fetch_running_reachable: "runner_reachable lockFile fetch_running"
  unfolding fetch_running_def
  by (rule runner_reach [OF fetching_reachable runner_step.works [OF worker_step.starts]]) (simp add: fetch_runs)

lemma fetch_killed_reachable: "runner_reachable lockFile fetch_killed"
proof -
  have "1 \<in> set (or_trips (snd (snd (cancel fetch_running 1))))" by (simp add: cancel_def fetch_running_simps)
  then show ?thesis unfolding fetch_killed_def
    by (intro runner_reach [OF runner_reach [OF fetch_running_reachable runner_step.cancels] runner_step.trips])
qed

lemma fetch_killed_simps: "or_killed fetch_killed = [1]" "or_submitted fetch_killed = [\<lparr>q_id = 1, q_operation = fetch_op\<rparr>]"
  by (simp_all add: fetch_killed_def cancel_def trip_def fetch_running_simps)

text \<open>
  C12. A cancel of the user never stops an operation part-way that must not be stopped: whatever the
  interleaving, an operation that a cancel tripped while it ran had declared that this is safe.
\<close>

theorem cancel_kills_only_killable:
  assumes "runner_reachable lockFile r" and "id' \<in> set (or_killed r)"
  shows "\<exists>q. q \<in> set (or_submitted r) \<and> q_id q = id' \<and> o_killableMidFlight (q_operation q)"
  using runner_invD(4) [OF operations.reachable_inv [OF assms(1)]] assms(2) by (auto simp: kills_ok_def killable_id_def)

theorem cancel_kills_only_killable_witness:
  "\<exists>q. q \<in> set (or_submitted fetch_killed) \<and> q_id q = 1 \<and> o_killableMidFlight (q_operation q)"
  by (rule cancel_kills_only_killable [OF fetch_killed_reachable]) (simp add: fetch_killed_simps)

section \<open>Waiting operations that give way\<close>

lemma tripped_grows: "runner_step lockFile r s \<Longrightarrow> set (or_trippedWaiting r) \<subseteq> set (or_trippedWaiting s)"
proof (erule runner_stepE)
  assume "worker_step lockFile r s"
  then show ?thesis
    by (cases rule: worker_step.cases)
      (auto simp: popNext_def announce_def failUndelivered_def deliverTo_def checkCancelled_def runPreflight_def startRun_def attemptEnds_def
        stampAndDeliver_def endTurn_def Let_def split: list.splits option.splits)
qed (auto simp: submit_def tripWaiting_def cancel_def trip_def tripHandle_def idDrawnElsewhere_def prepareForShutdown_def Let_def)

lemma tripped_never_starts:
  assumes "reachable (\<lambda>x. x = r) (runner_step lockFile) s" and "runner_reachable lockFile r" and "id' \<in> set (or_trippedWaiting r)"
  shows "runner_reachable lockFile s \<and> id' \<notin> set (or_started s)"
proof -
  have "runner_reachable lockFile s \<and> id' \<in> set (or_trippedWaiting s)"
    using assms by (induction rule: reachable.induct) (auto dest: tripped_grows intro: runner_reach)
  then show ?thesis
    using runner_invD(5) [OF operations.reachable_inv, of lockFile s] by (auto simp: waiting_ok_def waiting_sets_def)
qed

text \<open>
  Background work gives way to the user: a background operation that waits in front of an
  operation of the user never starts, not now and not in any later state.
\<close>

theorem background_gives_way:
  assumes "runner_reachable lockFile r" and "or_queue r = before @ a # between @ b # after'"
    and "o_isBackground (q_operation a)" "\<not> o_isBackground (q_operation b)"
    and "reachable (\<lambda>x. x = r) (runner_step lockFile) s"
  shows "q_id a \<notin> set (or_started s)"
proof -
  have "gives_way (or_trippedWaiting r) a b"
    using runner_invD(6) [OF operations.reachable_inv [OF assms(1)]] assms(2) by (auto simp: sorted_wrt_append)
  then have "q_id a \<in> set (or_trippedWaiting r)" using assms(3,4) by (simp add: gives_way_def)
  with tripped_never_starts [OF assms(5,1)] show ?thesis by blast
qed

theorem background_gives_way_witness: "1 \<notin> set (or_started (popNext two_waiting))"
proof -
  have "runner_step [] two_waiting (popNext two_waiting)"
    by (intro runner_step.works worker_step.pops) (simp_all add: two_waiting_simps)
  then have "reachable (\<lambda>x. x = two_waiting) (runner_step []) (popNext two_waiting)"
    by (intro reachable.reach_step [OF reachable.reach_init]) (rule refl)
  then show ?thesis
    using background_gives_way [OF two_waiting_reachable, of "[]" "\<lparr>q_id = 1, q_operation = fetch_op\<rparr>" "[]"
        "\<lparr>q_id = 2, q_operation = commit_op\<rparr>" "[]"] by (simp add: two_waiting_simps)
qed

text \<open>A success that is reported was earned: only operations that ran succeed.\<close>

definition earned :: "OperationRunner \<Rightarrow> bool" where
  "earned r \<longleftrightarrow> (\<forall>d \<in> set (or_done r). oo_succeeded (snd d) \<longrightarrow> fst d \<in> set (or_started r)) \<and>
     (case or_worker r of
        Outcome q out \<Rightarrow> oo_succeeded out \<longrightarrow> q_id q \<in> set (or_started r)
      | Running q n \<Rightarrow> q_id q \<in> set (or_started r)
      | _ \<Rightarrow> True)"

lemma outcomes_failed [simp]: "\<not> oo_succeeded cancelledOutcome" "\<not> oo_succeeded failureOutcome"
  by (simp_all add: cancelledOutcome_def failureOutcome_def new_outcome_def)

lemma preflight_failed: "preflight lockFile operation isCancelled s = Some out \<Longrightarrow> \<not> oo_succeeded out"
  by (auto simp: preflight_def Let_def new_outcome_def split: if_splits)

lemma earned_worker_step: "worker_step lockFile r s \<Longrightarrow> earned r \<Longrightarrow> earned s"
proof (induction rule: worker_step.induct)
  case (pops r)
  then show ?case by (auto simp: popNext_def earned_def neq_Nil_conv)
next
  case (announces r q)
  then show ?case by (cases "o_describe (q_operation q)") (auto simp: announce_def failUndelivered_def deliverTo_def earned_def)
next
  case (checks r q)
  then show ?case by (auto simp: checkCancelled_def earned_def)
next
  case (preflights r q seen late s)
  then show ?case
    by (cases "preflight lockFile (q_operation q) (q_id q \<in> set (or_cancelled r)) s") (auto simp: runPreflight_def earned_def preflight_failed)
next
  case (throws r q)
  then show ?case by (auto simp: failUndelivered_def deliverTo_def earned_def)
next
  case (starts r q head timestamp)
  then show ?case by (auto simp: startRun_def earned_def split: option.split)
next
  case (ends r q n result)
  then show ?case by (cases result) (auto simp: attemptEnds_def earned_def)
next
  case (delivers r q out)
  then show ?case by (cases "o_kind (q_operation q)") (auto simp: stampAndDeliver_def failUndelivered_def deliverTo_def earned_def)
next
  case (turns r)
  then show ?case by (simp add: endTurn_def earned_def)
qed

lemma earned_frame:
  assumes "or_done s = or_done r" "or_worker s = or_worker r" "or_started s = or_started r"
  shows "earned s = earned r"
  unfolding earned_def assms ..

lemma handler_frame:
  "runner_step lockFile r s \<Longrightarrow> worker_step lockFile r s \<or> or_done s = or_done r \<and> or_worker s = or_worker r \<and> or_started s = or_started r"
  by (erule runner_stepE)
    (simp_all add: submit_def cancel_def trip_def tripHandle_def idDrawnElsewhere_def prepareForShutdown_def Let_def)

lemma earned_step: "runner_step lockFile r s \<Longrightarrow> earned r \<Longrightarrow> earned s"
  using handler_frame [of lockFile r s] earned_frame [of s r] by (blast intro: earned_worker_step)

interpretation successes: state_machine "\<lambda>r. r = new_runner" "runner_step lockFile" earned
  by unfold_locales (simp add: earned_def new_runner_def, rule earned_step)

text \<open>
  A cancel of an operation that still waits is final: it is accepted, and in no later state has
  the operation run or been reported as succeeded.
\<close>

theorem cancel_waiting_is_final:
  assumes "runner_reachable lockFile r" and "id' \<in> q_id ` set (or_queue r)"
    and "reachable (\<lambda>x. x = snd (snd (cancel r id'))) (runner_step lockFile) s"
  shows "fst (cancel r id') = CancelDone \<and> id' \<notin> set (or_started s) \<and> id' \<notin> fst ` {d \<in> set (or_done s). oo_succeeded (snd d)}"
proof -
  have c: "cancel r id' = (CancelDone, None, tripWaiting (\<lambda>q. q_id q = id') r)" using assms(2) by (auto simp: cancel_def list_ex_iff)
  have "runner_reachable lockFile (snd (snd (cancel r id')))" by (rule runner_reach [OF assms(1) runner_step.cancels])
  moreover have "id' \<in> set (or_trippedWaiting (snd (snd (cancel r id'))))" using assms(2) by (auto simp: c)
  ultimately have s: "runner_reachable lockFile s" "id' \<notin> set (or_started s)" using tripped_never_starts [OF assms(3)] by auto
  then show ?thesis using successes.reachable_inv [OF s(1)] by (auto simp: c earned_def)
qed

theorem cancel_waiting_is_final_witness:
  "fst (cancel two_waiting 2) = CancelDone \<and> 2 \<notin> set (or_started (snd (snd (cancel two_waiting 2))))"
proof -
  have "reachable (\<lambda>x. x = snd (snd (cancel two_waiting 2))) (runner_step []) (snd (snd (cancel two_waiting 2)))"
    by (rule reachable.reach_init) (rule refl)
  from cancel_waiting_is_final [OF two_waiting_reachable _ this] show ?thesis by (simp add: two_waiting_simps)
qed

section \<open>The queue empties\<close>

fun phase_rank :: "WorkerPhase \<Rightarrow> nat" where
  "phase_rank Idle = 0"
| "phase_rank Delivered = 1"
| "phase_rank (Outcome q out) = 2"
| "phase_rank (Running q n) = 3 + (kLockRetries - n)"
| "phase_rank (Cleared q) = 6"
| "phase_rank (Preflight q) = 7"
| "phase_rank (Announced q) = 8"
| "phase_rank (Popped q) = 9"

definition work_left :: "OperationRunner \<Rightarrow> nat" where
  "work_left r = 10 * length (or_queue r) + phase_rank (or_worker r)"

lemma worker_decreases: "worker_step lockFile r s \<Longrightarrow> work_left s < work_left r"
proof (induction rule: worker_step.induct)
  case (pops r)
  then show ?case by (auto simp: popNext_def work_left_def neq_Nil_conv)
next
  case (announces r q)
  then show ?case by (cases "o_describe (q_operation q)") (simp_all add: announce_def failUndelivered_def deliverTo_def work_left_def)
next
  case (preflights r q seen late s)
  then show ?case
    by (cases "preflight lockFile (q_operation q) (q_id q \<in> set (or_cancelled r)) s") (simp_all add: runPreflight_def work_left_def)
next
  case (throws r q)
  then show ?case by (simp add: failUndelivered_def deliverTo_def work_left_def)
next
  case (ends r q n result)
  then show ?case by (cases result) (auto simp: attemptEnds_def work_left_def retryWanted_def)
next
  case (delivers r q out)
  then show ?case by (cases "o_kind (q_operation q)") (simp_all add: stampAndDeliver_def failUndelivered_def deliverTo_def work_left_def)
qed (auto simp: checkCancelled_def startRun_def endTurn_def work_left_def kLockRetries_def split: option.split)

lemma worker_steps_decrease: "(worker_step lockFile ^^ n) r s \<Longrightarrow> n + work_left s \<le> work_left r"
  by (induction n arbitrary: s) (auto dest!: worker_decreases, fastforce)

lemma worker_progress:
  assumes "or_busy r = (or_worker r \<noteq> Idle)"
  shows "(\<exists>s. worker_step lockFile r s) \<or> drained r"
proof (cases "or_worker r")
  case Idle
  then show ?thesis using assms by (cases "or_queue r = []") (auto simp: drained_def intro: worker_step.pops)
next
  case (Preflight q)
  then have "worker_step lockFile r (runPreflight lockFile r q clean_state)"
    by (rule worker_step.preflights [of _ _ clean_state True]) (simp add: waitOver_def)
  then show ?thesis by blast
qed (blast intro: worker_step.intros)+

lemma worker_steps_reachable: "(worker_step lockFile ^^ n) r s \<Longrightarrow> runner_reachable lockFile r \<Longrightarrow> runner_reachable lockFile s"
  by (induction n arbitrary: s) (auto intro: runner_reach runner_step.works)

text \<open>
  C17. A wait for the queue to drain ends: from every reachable state, as long as nothing new is
  submitted, the worker makes at most ten steps for each waiting operation and nine for the one in hand,
  and it stops nowhere but in a state that is drained, with every submitted operation completed.
\<close>

theorem queue_drains:
  assumes "runner_reachable lockFile r" and "(worker_step lockFile ^^ n) r s"
  shows "n \<le> 10 * length (or_queue r) + 9 \<and>
    ((\<exists>t. worker_step lockFile s t) \<or> drained s \<and> map fst (or_done s) = map q_id (or_submitted s))"
proof -
  note inv = operations.reachable_inv [OF worker_steps_reachable [OF assms(2,1)]]
  have "phase_rank (or_worker r) \<le> 9" by (cases "or_worker r") (simp_all add: kLockRetries_def)
  then have "n \<le> 10 * length (or_queue r) + 9" using worker_steps_decrease [OF assms(2)] by (simp add: work_left_def)
  moreover have "map fst (or_done s) = map q_id (or_submitted s)" if "drained s"
    using runner_invD(1,3) [OF inv] that by (auto simp: drained_def accounted_def running_ok_def)
  moreover have "or_busy s = (or_worker s \<noteq> Idle)" using runner_invD(3) [OF inv] by (simp add: running_ok_def)
  ultimately show ?thesis using worker_progress [of s lockFile] by blast
qed

theorem queue_drains_witness:
  "(\<exists>t. worker_step [] (popNext two_waiting) t) \<or> drained (popNext two_waiting)"
proof -
  have "(worker_step [] ^^ 1) two_waiting (popNext two_waiting)"
    by (auto intro!: worker_step.pops simp: two_waiting_simps)
  from queue_drains [OF two_waiting_reachable this] show ?thesis by blast
qed

section \<open>What may start\<close>

text \<open>
  What the files of a repository say decides whether an operation may start: it may, unless
  it is cancelled, exactly when the directory is not a repository, or no \<^verbatim>\<open>index.lock\<close> is there and either the operation
  is a recovery step or no cherry-pick, revert, rebase or queued sequence has left its file.
\<close>

theorem preflight_exact:
  "preflight lockFile operation isCancelled (read_state fs p) = None \<longleftrightarrow>
     isCancelled = False \<and>
     (isValid p = False \<or>
      fi_exists fs (indexLockFile p) = False \<and>
      (o_allowedDuringSequencerOperation operation \<or>
       (fi_exists fs (cherryPickHeadFile p) \<or> fi_exists fs (revertHeadFile p) \<or> fi_exists fs (path_join (sequencerDir p) ''todo'') \<or>
        fi_exists fs (rebaseMergeDir p) \<or> fi_exists fs (rebaseApplyDir p)) = False))"
  by (auto simp: preflight_def Let_def lock_read sequencer_read)

text \<open>
  A lock is taken away only when it is demonstrably stale: \<^verbatim>\<open>preflight\<close> offers its removal, and
  \<^verbatim>\<open>removeStaleIndexLock\<close> performs it, only for a lock file that exists and was last changed more than
  ten minutes ago.
\<close>

theorem only_stale_locks_removed:
  assumes "(\<exists>out. preflight lockFile operation isCancelled (read_state fs p) = Some out \<and> (RemoveLock, d) \<in> set (oo_choices out)) \<or>
    snd (removeStaleIndexLock (read_state fs p) removed)"
  shows "fi_exists fs (indexLockFile p) \<and> (\<exists>mtime. fi_modifiedTimeNs fs (indexLockFile p) = Some mtime \<and> mtime + 601 * 1000000000 \<le> fi_nowNs fs)"
proof -
  have "lockStale (read_state fs p)"
    using assms by (auto simp: preflight_def removeStaleIndexLock_def cancelledOutcome_def new_outcome_def Let_def split: if_splits)
  then obtain age where age: "st_indexLockAgeSeconds (read_state fs p) = Some age" "601 \<le> age"
    by (auto simp: lockStale_def kStaleLockSeconds_def split: option.splits)
  with lock_age_read [OF age(1)] show ?thesis by auto
qed

text \<open>A repository whose lock is eleven minutes old.\<close>

definition locked_files :: Files where
  "locked_files = \<lparr>fi_exists = (\<lambda>f. f = ''g/index.lock''), fi_readSmallFile = (\<lambda>_ _. None),
     fi_modifiedTimeNs = (\<lambda>_. Some 0), fi_nowNs = 660 * 1000000000\<rparr>"

theorem only_stale_locks_removed_witness: "\<exists>mtime. Some (0 :: int) = Some mtime \<and> mtime + 601 * 1000000000 \<le> fi_nowNs locked_files"
proof -
  have "snd (removeStaleIndexLock (read_state locked_files (repo_paths ''w'' ''g'' [])) True)"
    by (simp add: removeStaleIndexLock_def lock_read isValid_def repo_paths_def locked_files_def indexLockFile_def path_join_def lockStale_def
      read_state_def readLock_def readRebaseMerge_def readRebaseApply_def setFlag_def clean_state_def Let_def kStaleLockSeconds_def
      mergeHeadFile_def squashMsgFile_def cherryPickHeadFile_def revertHeadFile_def bisectLogFile_def sequencerDir_def rebaseMergeDir_def rebaseApplyDir_def)
  then show ?thesis using only_stale_locks_removed [of _ _ _ locked_files] by (fastforce simp: locked_files_def)
qed

section \<open>The undo journal\<close>

definition journal_of :: "(string \<times> HeadInfo GitResult \<times> int) list \<Rightarrow> UndoEntry list" where
  "journal_of points = foldl (\<lambda>journal (d, h, t). recordUndoPoint journal d h t) [] points"

lemma recordUndoPoint_ids:
  "map ue_id (recordUndoPoint journal d h t) =
     (if length journal < kMaxUndoEntries then map ue_id journal @ [length journal + 1] else tl (map ue_id journal @ [length journal + 1]))"
  by (cases h) (auto simp: recordUndoPoint_def Let_def map_tl)

text \<open>
  The undo journal keeps the latest 200 points, in order, and numbers them from 1 only as long as
  it is not full: from the 201st on every point is recorded under the id 201.
\<close>

theorem undo_ids_repeat:
  "map ue_id (journal_of points) = drop (length points - 200) (map (\<lambda>i. min (i + 1) 201) [0..<length points])"
proof (induction points rule: rev_induct)
  case Nil
  then show ?case by (simp add: journal_of_def)
next
  case (snoc p points)
  obtain d h t where p: "p = (d, h, t)" by (cases p)
  let ?n = "length points"
  have len: "length (journal_of points) = min 200 ?n" using arg_cong [OF snoc, of length] by simp
  have snoc_ids: "map (\<lambda>i. min (i + 1) 201) [0..<length (points @ [p])] = map (\<lambda>i. min (i + 1) 201) [0..<?n] @ [min (?n + 1) 201]" by simp
  have "journal_of (points @ [p]) = recordUndoPoint (journal_of points) d h t" by (simp add: journal_of_def p)
  then have ids: "map ue_id (journal_of (points @ [p])) =
      (if ?n < 200 then map ue_id (journal_of points) @ [?n + 1] else tl (map ue_id (journal_of points) @ [201]))"
    by (simp add: recordUndoPoint_ids len kMaxUndoEntries_def)
  show ?case
  proof (cases "?n < 200")
    case True
    then show ?thesis unfolding ids snoc_ids using snoc by simp
  next
    case False
    then have n: "?n - 199 = Suc (?n - 200)" by simp
    then have "tl (map ue_id (journal_of points) @ [201]) = drop (?n - 199) (map (\<lambda>i. min (i + 1) 201) [0..<?n]) @ [201]"
      unfolding n using snoc False by (simp add: tl_append2 tl_drop drop_Suc)
    then show ?thesis unfolding ids snoc_ids using False by (simp add: min_def)
  qed
qed

end
