(* ===== verification/RefreshScheduling.thy ===== *)
theory RefreshScheduling
  imports GBM_Prelude
begin

text \<open>
  When a refresh of refs and history runs: \<^verbatim>\<open>src/core/workers/Debouncer.h\<close>,
  \<^verbatim>\<open>RefreshCoalescer.h\<close>, \<^verbatim>\<open>StartupReadGate.h\<close>, \<^verbatim>\<open>DelayTimer.cpp\<close>, and the
  refresh handlers of \<^verbatim>\<open>src/capi/Session.cpp\<close> that drive them from the interface threads, the
  timer thread and the worker pool. Times are milliseconds of the steady clock, whose epoch is 0;
  generations and request numbers are unbounded here where the sources count in 64 bits.
\<close>

section \<open>Debouncer\<close>

record Debouncer =
  db_delay :: int
  db_lastEvent :: int
  db_pending :: bool
  db_running :: bool
  db_dirty :: bool

definition new_debouncer :: "int \<Rightarrow> Debouncer" where
  "new_debouncer delay = \<lparr>db_delay = delay, db_lastEvent = 0, db_pending = False, db_running = False, db_dirty = False\<rparr>"

definition notifyEvent :: "Debouncer \<Rightarrow> int \<Rightarrow> Debouncer" where
  "notifyEvent d now = d\<lparr>db_lastEvent := now, db_pending := True\<rparr>"

definition shouldFire :: "Debouncer \<Rightarrow> int \<Rightarrow> bool \<times> Debouncer" where
  "shouldFire d now =
     (if db_running d then (False, if db_pending d then d\<lparr>db_dirty := True\<rparr> else d)
      else if \<not> db_pending d then (False, d)
      else if now - db_lastEvent d < db_delay d then (False, d)
      else (True, d\<lparr>db_pending := False, db_running := True\<rparr>))"

definition db_finish :: "Debouncer \<Rightarrow> bool \<times> Debouncer" where
  "db_finish d =
     (let d = d\<lparr>db_running := False\<rparr>
      in if db_dirty d then (True, d\<lparr>db_dirty := False, db_pending := True, db_lastEvent := 0\<rparr>) else (False, d))"

definition hasPending :: "Debouncer \<Rightarrow> bool" where
  "hasPending d \<longleftrightarrow> db_pending d \<or> db_dirty d"

section \<open>Coalescer\<close>

datatype GraphUpdateOrigin = Explicit | AutoFetchResync

datatype RefreshAction = Arm | Fold

record PendingRefresh =
  pr_wantsRefs :: bool
  pr_wantsHistory :: bool
  pr_origin :: GraphUpdateOrigin

record RefreshCoalescer =
  rc_debouncer :: Debouncer
  rc_generation :: nat
  rc_wantsRefs :: bool
  rc_wantsHistory :: bool
  rc_hasExplicit :: bool

definition kDelay :: int where "kDelay = 150"

definition new_coalescer :: RefreshCoalescer where
  "new_coalescer = \<lparr>rc_debouncer = new_debouncer kDelay, rc_generation = 0,
     rc_wantsRefs = False, rc_wantsHistory = False, rc_hasExplicit = False\<rparr>"

definition mergeIntoPending :: "RefreshCoalescer \<Rightarrow> bool \<Rightarrow> bool \<Rightarrow> GraphUpdateOrigin \<Rightarrow> RefreshCoalescer" where
  "mergeIntoPending c wantsRefs wantsHistory origin =
     c\<lparr>rc_wantsRefs := rc_wantsRefs c \<or> wantsRefs, rc_wantsHistory := rc_wantsHistory c \<or> wantsHistory,
       rc_hasExplicit := rc_hasExplicit c \<or> origin = Explicit\<rparr>"

definition request :: "RefreshCoalescer \<Rightarrow> bool \<Rightarrow> bool \<Rightarrow> GraphUpdateOrigin \<Rightarrow> int \<Rightarrow> RefreshAction \<times> RefreshCoalescer" where
  "request c wantsRefs wantsHistory origin now =
     (let c = mergeIntoPending c wantsRefs wantsHistory origin;
          wasRunning = db_running (rc_debouncer c);
          d = snd (shouldFire (notifyEvent (rc_debouncer c) now) now)
      in (if wasRunning then Fold else Arm, c\<lparr>rc_debouncer := d\<rparr>))"

definition onTimeout :: "RefreshCoalescer \<Rightarrow> int \<Rightarrow> nat \<times> RefreshCoalescer" where
  "onTimeout c now =
     (let (fired, d) = shouldFire (rc_debouncer c) now;
          c = c\<lparr>rc_debouncer := d\<rparr>
      in if \<not> fired then (0, c) else (rc_generation c + 1, c\<lparr>rc_generation := rc_generation c + 1\<rparr>))"

definition fireNow :: "RefreshCoalescer \<Rightarrow> bool \<Rightarrow> bool \<Rightarrow> GraphUpdateOrigin \<Rightarrow> int \<Rightarrow> nat \<times> RefreshCoalescer" where
  "fireNow c wantsRefs wantsHistory origin now =
     (let c = mergeIntoPending c wantsRefs wantsHistory origin;
          d = snd (shouldFire (notifyEvent (new_debouncer kDelay) 0) now);
          c = c\<lparr>rc_debouncer := d\<rparr>
      in (rc_generation c + 1, c\<lparr>rc_generation := rc_generation c + 1\<rparr>))"

definition onFinished :: "RefreshCoalescer \<Rightarrow> nat \<Rightarrow> bool \<times> RefreshCoalescer" where
  "onFinished c generation =
     (if generation = 0 \<or> generation \<noteq> rc_generation c then (False, c)
      else let (again, d) = db_finish (rc_debouncer c) in (again, c\<lparr>rc_debouncer := d\<rparr>))"

definition takePending :: "RefreshCoalescer \<Rightarrow> PendingRefresh \<times> RefreshCoalescer" where
  "takePending c =
     (\<lparr>pr_wantsRefs = rc_wantsRefs c, pr_wantsHistory = rc_wantsHistory c,
       pr_origin = (if rc_hasExplicit c then Explicit else AutoFetchResync)\<rparr>,
      c\<lparr>rc_wantsRefs := False, rc_wantsHistory := False, rc_hasExplicit := False\<rparr>)"

definition coalescer_reset :: "RefreshCoalescer \<Rightarrow> RefreshCoalescer" where
  "coalescer_reset c = c\<lparr>rc_debouncer := new_debouncer kDelay,
     rc_wantsRefs := False, rc_wantsHistory := False, rc_hasExplicit := False\<rparr>"

section \<open>Startup gate\<close>

record StartupReadGate =
  sg_open :: bool
  sg_pending :: bool

definition requestOrHold :: "StartupReadGate \<Rightarrow> bool \<times> StartupReadGate" where
  "requestOrHold g = (if sg_open g then (True, g) else (False, g\<lparr>sg_pending := True\<rparr>))"

definition gate_release :: "StartupReadGate \<Rightarrow> bool \<times> StartupReadGate" where
  "gate_release g = (let g = g\<lparr>sg_open := True\<rparr> in if sg_pending g then (True, g\<lparr>sg_pending := False\<rparr>) else (False, g))"

section \<open>Delay timer\<close>

record DelayTimer =
  dt_running :: bool
  dt_armed :: bool
  dt_deadline :: int

definition new_timer :: DelayTimer where
  "new_timer = \<lparr>dt_running = True, dt_armed = False, dt_deadline = 0\<rparr>"

definition arm :: "DelayTimer \<Rightarrow> int \<Rightarrow> int \<Rightarrow> DelayTimer" where
  "arm tm now delay = (if \<not> dt_running tm then tm else tm\<lparr>dt_deadline := now + delay, dt_armed := True\<rparr>)"

definition timer_stop :: "DelayTimer \<Rightarrow> DelayTimer" where
  "timer_stop tm = (if \<not> dt_running tm then tm else tm\<lparr>dt_running := False, dt_armed := False\<rparr>)"

text \<open>The timer thread leaves its wait: not stopped, armed, and the deadline reached.\<close>

definition timer_due :: "DelayTimer \<Rightarrow> int \<Rightarrow> bool" where
  "timer_due tm now \<longleftrightarrow> dt_running tm \<and> dt_armed tm \<and> \<not> now < dt_deadline tm"

section \<open>The refresh handlers of a session\<close>

text \<open>
  What the handlers share. \<open>ss_jobs\<close> are the dispatched refreshes still running on the pool, each
  with its generation and the requests it covers; \<open>ss_arms\<close> are the calls to \<^verbatim>\<open>arm\<close> a handler has
  decided on under the lock and not yet made; \<open>ss_firing\<close> says the timer thread has left its wait
  and not yet taken the lock; \<open>ss_covered\<close> is the greatest request number any dispatch covers, and
  \<open>ss_shown\<close> the generation whose refs are shown.
\<close>

record Session =
  ss_now :: int
  ss_coalescer :: RefreshCoalescer
  ss_timer :: DelayTimer
  ss_requestSeq :: nat
  ss_jobs :: "(nat \<times> nat) list"
  ss_arms :: "int list"
  ss_firing :: bool
  ss_covered :: nat
  ss_publishedGeneration :: nat
  ss_shown :: nat

definition new_session :: "int \<Rightarrow> Session" where
  "new_session now = \<lparr>ss_now = now, ss_coalescer = new_coalescer, ss_timer = new_timer, ss_requestSeq = 0,
     ss_jobs = [], ss_arms = [], ss_firing = False, ss_covered = 0, ss_publishedGeneration = 0, ss_shown = 0\<rparr>"

text \<open>The locked part of each handler; a call to \<^verbatim>\<open>arm\<close> after the lock is put on \<open>ss_arms\<close>.\<close>

definition refreshHistory :: "Session \<Rightarrow> nat \<times> Session" where
  "refreshHistory s =
     (let seq = ss_requestSeq s + 1;
          (action, c) = request (ss_coalescer s) True True Explicit (ss_now s)
      in (seq, s\<lparr>ss_requestSeq := seq, ss_coalescer := c,
               ss_arms := (if action = Arm then ss_arms s @ [kDelay] else ss_arms s)\<rparr>))"

definition dispatchRefresh :: "Session \<Rightarrow> nat \<Rightarrow> nat \<Rightarrow> Session" where
  "dispatchRefresh s generation covers =
     s\<lparr>ss_jobs := ss_jobs s @ [(generation, covers)], ss_covered := max (ss_covered s) covers\<rparr>"

definition onRefreshTimerFired :: "Session \<Rightarrow> Session" where
  "onRefreshTimerFired s =
     (let (generation, c) = onTimeout (ss_coalescer s) (ss_now s)
      in if generation = 0 then s\<lparr>ss_coalescer := c\<rparr>
         else dispatchRefresh (s\<lparr>ss_coalescer := snd (takePending c)\<rparr>) generation (ss_requestSeq s))"

definition finishRefresh :: "Session \<Rightarrow> nat \<Rightarrow> Session" where
  "finishRefresh s generation =
     (let (again, c) = onFinished (ss_coalescer s) generation
      in s\<lparr>ss_coalescer := c, ss_arms := (if again then ss_arms s @ [0] else ss_arms s)\<rparr>)"

definition setHistoryFilter :: "Session \<Rightarrow> Session" where
  "setHistoryFilter s =
     (let (generation, c) = fireNow (ss_coalescer s) True True Explicit (ss_now s)
      in dispatchRefresh (s\<lparr>ss_coalescer := snd (takePending c)\<rparr>) generation (ss_requestSeq s))"

definition claimPublishLocked :: "Session \<Rightarrow> nat \<Rightarrow> bool \<times> Session" where
  "claimPublishLocked s generation =
     (if generation < ss_publishedGeneration s then (False, s) else (True, s\<lparr>ss_publishedGeneration := generation\<rparr>))"

text \<open>A running refresh publishes the refs it read, or a chunk of its graph.\<close>

definition publish :: "Session \<Rightarrow> nat \<Rightarrow> Session" where
  "publish s generation =
     (case claimPublishLocked s generation of (claimed, s) \<Rightarrow> if claimed then s\<lparr>ss_shown := generation\<rparr> else s)"

definition callArm :: "Session \<Rightarrow> int \<Rightarrow> Session" where
  "callArm s delay = s\<lparr>ss_timer := arm (ss_timer s) (ss_now s) delay\<rparr>"

definition remove_at :: "nat \<Rightarrow> 'a list \<Rightarrow> 'a list" where
  "remove_at i xs = take i xs @ drop (Suc i) xs"

text \<open>
  Every interleaving of the handlers on their threads, at the granularity of their locks. The
  parameter says which of the pending calls to \<^verbatim>\<open>arm\<close> may be made next; the code allows any.
  The first relation has the steps of the timer thread, the pool and the clock, the second adds what
  the user does.
\<close>

inductive system_step :: "(nat \<Rightarrow> bool) \<Rightarrow> Session \<Rightarrow> Session \<Rightarrow> bool" for next_arm :: "nat \<Rightarrow> bool" where
  time_passes: "ss_now s \<le> t \<Longrightarrow> system_step next_arm s (s\<lparr>ss_now := t\<rparr>)"
| arm_called: "i < length (ss_arms s) \<Longrightarrow> next_arm i \<Longrightarrow>
    system_step next_arm s (callArm (s\<lparr>ss_arms := remove_at i (ss_arms s)\<rparr>) (ss_arms s ! i))"
| timer_fires: "timer_due (ss_timer s) (ss_now s) \<Longrightarrow> \<not> ss_firing s \<Longrightarrow>
    system_step next_arm s (s\<lparr>ss_timer := (ss_timer s)\<lparr>dt_armed := False\<rparr>, ss_firing := True\<rparr>)"
| timer_callback: "ss_firing s \<Longrightarrow> system_step next_arm s (onRefreshTimerFired (s\<lparr>ss_firing := False\<rparr>))"
| job_publishes: "(g, covers) \<in> set (ss_jobs s) \<Longrightarrow> system_step next_arm s (publish s g)"
| job_finishes: "i < length (ss_jobs s) \<Longrightarrow>
    system_step next_arm s (finishRefresh (s\<lparr>ss_jobs := remove_at i (ss_jobs s)\<rparr>) (fst (ss_jobs s ! i)))"

inductive session_step :: "(nat \<Rightarrow> bool) \<Rightarrow> Session \<Rightarrow> Session \<Rightarrow> bool" for next_arm :: "nat \<Rightarrow> bool" where
  system: "system_step next_arm s t \<Longrightarrow> session_step next_arm s t"
| user_refresh: "session_step next_arm s (snd (refreshHistory s))"
| user_filter: "session_step next_arm s (setHistoryFilter s)"

abbreviation any_order :: "nat \<Rightarrow> bool" where "any_order \<equiv> \<lambda>i. True"
abbreviation in_order :: "nat \<Rightarrow> bool" where "in_order \<equiv> \<lambda>i. i = 0"

definition session_init :: "Session \<Rightarrow> bool" where
  "session_init s \<longleftrightarrow> (\<exists>now \<ge> kDelay. s = new_session now)"

end
