(* ===== verification/RefreshSafety.thy ===== *)
theory RefreshSafety
  imports RefreshScheduling
begin

text \<open>
  What the refresh machinery guarantees over every interleaving, and the interleaving in which a
  request is lost.
\<close>

lemmas coalescer_defs = request_def onTimeout_def fireNow_def onFinished_def takePending_def mergeIntoPending_def
  shouldFire_def notifyEvent_def db_finish_def new_debouncer_def Let_def

lemmas handler_defs = refreshHistory_def dispatchRefresh_def onRefreshTimerFired_def finishRefresh_def
  setHistoryFilter_def callArm_def arm_def

lemma set_remove_at: "set (remove_at i xs) \<subseteq> set xs"
  by (auto simp: remove_at_def dest: in_set_takeD in_set_dropD)

lemma remove_at_keeps: "x \<in> set xs \<Longrightarrow> i < length xs \<Longrightarrow> x \<noteq> xs ! i \<Longrightarrow> x \<in> set (remove_at i xs)"
  by (metis Un_iff id_take_nth_drop remove_at_def set_ConsD set_append)

section \<open>What is shown\<close>

definition shown_inv :: "Session \<Rightarrow> bool" where
  "shown_inv s \<longleftrightarrow> ss_shown s = ss_publishedGeneration s \<and> ss_publishedGeneration s \<le> rc_generation (ss_coalescer s) \<and>
     (\<forall>j \<in> set (ss_jobs s). 0 < fst j \<and> fst j \<le> rc_generation (ss_coalescer s))"

lemma shown_system_step: "system_step f s t \<Longrightarrow> shown_inv s \<Longrightarrow> shown_inv t \<and> ss_shown s \<le> ss_shown t"
proof (induction rule: system_step.induct)
  case (job_publishes g covers s)
  then show ?case by (auto simp: shown_inv_def publish_def claimPublishLocked_def)
next
  case (job_finishes i s)
  then show ?case using set_remove_at [of i "ss_jobs s"]
    by (auto simp: shown_inv_def finishRefresh_def coalescer_defs split: prod.splits)
qed (auto simp: shown_inv_def handler_defs coalescer_defs split: prod.splits)

lemma shown_step: "session_step f s t \<Longrightarrow> shown_inv s \<Longrightarrow> shown_inv t \<and> ss_shown s \<le> ss_shown t"
proof (induction rule: session_step.induct)
  case (system s t)
  then show ?case by (rule shown_system_step)
qed (auto simp: shown_inv_def handler_defs coalescer_defs split: prod.splits)

lemma session_start: "kDelay \<le> now \<Longrightarrow> reachable session_init (session_step f) (new_session now)"
  by (rule reachable.reach_init) (auto simp: session_init_def)

interpretation shown: state_machine session_init "session_step f" shown_inv
proof unfold_locales
  fix s assume "session_init s"
  then show "shown_inv s" by (auto simp: session_init_def shown_inv_def new_session_def)
qed (simp add: shown_step)

text \<open>
  C7. What the user sees never goes back: in every interleaving of requests, filter changes,
  timer firings and running walks, a refresh that publishes its refs or a chunk of its graph never
  replaces what a later dispatch has already published, and what is shown is the latest claimed.
\<close>

theorem shown_never_goes_back:
  assumes "reachable session_init (session_step any_order) s" "session_step any_order s t"
  shows "ss_shown s \<le> ss_shown t \<and> ss_shown t \<le> rc_generation (ss_coalescer t) \<and> ss_shown t = ss_publishedGeneration t"
  using shown_step [OF assms(2) shown.reachable_inv [OF assms(1)]] by (simp add: shown_inv_def)

theorem shown_never_goes_back_witness:
  "ss_shown (new_session 1000) \<le> ss_shown (snd (refreshHistory (new_session 1000)))"
  using shown_never_goes_back [OF session_start session_step.user_refresh, of 1000]
  by (simp add: kDelay_def)

section \<open>A request that is lost\<close>

text \<open>
  Nothing is left that could serve the open requests: no refresh running, no timer armed or firing,
  no call to \<^verbatim>\<open>arm\<close> outstanding.
\<close>

definition stranded :: "Session \<Rightarrow> bool" where
  "stranded s \<longleftrightarrow> ss_covered s < ss_requestSeq s \<and> ss_jobs s = [] \<and> ss_arms s = [] \<and> \<not> ss_firing s \<and> \<not> dt_armed (ss_timer s)"

text \<open>A state of the lost run, by the parts that change in it.\<close>

definition run_state :: "int \<Rightarrow> int \<times> bool \<times> bool \<times> bool \<Rightarrow> nat \<times> bool \<Rightarrow> bool \<times> int \<Rightarrow> nat \<Rightarrow> (nat \<times> nat) list \<Rightarrow> int list \<Rightarrow> bool \<Rightarrow> nat \<Rightarrow> Session" where
  "run_state now d g tm seq jobs arms firing covered =
     (case (d, g, tm) of ((lastEvent, pending, running, dirty), (generation, wants), armed, deadline) \<Rightarrow>
       (new_session now)\<lparr>ss_coalescer := \<lparr>rc_debouncer =
           \<lparr>db_delay = kDelay, db_lastEvent = lastEvent, db_pending = pending, db_running = running, db_dirty = dirty\<rparr>,
           rc_generation = generation, rc_wantsRefs = wants, rc_wantsHistory = wants, rc_hasExplicit = wants\<rparr>,
         ss_timer := \<lparr>dt_running = True, dt_armed = armed, dt_deadline = deadline\<rparr>,
         ss_requestSeq := seq, ss_jobs := jobs, ss_arms := arms, ss_firing := firing, ss_covered := covered\<rparr>)"

lemmas run_simps = run_state_def new_session_def new_coalescer_def new_timer_def kDelay_def handler_defs coalescer_defs
  timer_due_def remove_at_def

lemma reach_next:
  "reachable session_init (session_step f) s \<Longrightarrow> session_step f s t \<Longrightarrow> t = u \<Longrightarrow>
     reachable session_init (session_step f) u"
  by (auto intro: reachable.reach_step)

lemma lost_run_finish:
  "reachable session_init (session_step any_order) (run_state 1150 (0, True, False, False) (1, True) (False, 1150) 2 [] [0] False 1)"
proof -
  have "reachable session_init (session_step any_order) (new_session 1000)"
    by (rule session_start) (simp add: kDelay_def)
  then have "reachable session_init (session_step any_order) (run_state 1000 (1000, True, False, False) (0, True) (False, 0) 1 [] [150] False 0)"
    by (rule reach_next [OF _ session_step.user_refresh]) (simp add: run_simps)
  then have "reachable session_init (session_step any_order) (run_state 1000 (1000, True, False, False) (0, True) (True, 1150) 1 [] [] False 0)"
    by (rule reach_next [OF _ session_step.system [OF system_step.arm_called [where i = 0]]]) (simp_all add: run_simps)
  then have "reachable session_init (session_step any_order) (run_state 1150 (1000, True, False, False) (0, True) (True, 1150) 1 [] [] False 0)"
    by (rule reach_next [OF _ session_step.system [OF system_step.time_passes [where t = 1150]]]) (simp_all add: run_simps)
  then have "reachable session_init (session_step any_order) (run_state 1150 (1000, True, False, False) (0, True) (False, 1150) 1 [] [] True 0)"
    by (rule reach_next [OF _ session_step.system [OF system_step.timer_fires]]) (simp_all add: run_simps)
  then have "reachable session_init (session_step any_order) (run_state 1150 (1000, False, True, False) (1, False) (False, 1150) 1 [(1, 1)] [] False 1)"
    by (rule reach_next [OF _ session_step.system [OF system_step.timer_callback]]) (simp_all add: run_simps)
  then have "reachable session_init (session_step any_order) (run_state 1150 (1150, True, True, True) (1, True) (False, 1150) 2 [(1, 1)] [] False 1)"
    by (rule reach_next [OF _ session_step.user_refresh]) (simp add: run_simps)
  then show ?thesis
    by (rule reach_next [OF _ session_step.system [OF system_step.job_finishes [where i = 0]]]) (simp_all add: run_simps)
qed

text \<open>
  C39. A refresh request can be lost. A refresh finishes with a request folded into it and lets go
  of the lock before it calls \<^verbatim>\<open>arm(0)\<close>; in between another request is taken and arms the timer for
  its quiet period; the late \<^verbatim>\<open>arm(0)\<close> then moves that deadline to now, the timer fires inside the
  quiet period, is turned away, and nothing is armed any more although two requests are open.
\<close>

theorem refresh_request_can_be_lost:
  "\<exists>s. reachable session_init (session_step any_order) s \<and> stranded s"
proof -
  have "reachable session_init (session_step any_order) (run_state 1150 (1150, True, False, False) (1, True) (False, 1150) 3 [] [0, 150] False 1)"
    by (rule reach_next [OF lost_run_finish session_step.user_refresh]) (simp add: run_simps)
  then have "reachable session_init (session_step any_order) (run_state 1150 (1150, True, False, False) (1, True) (True, 1300) 3 [] [0] False 1)"
    by (rule reach_next [OF _ session_step.system [OF system_step.arm_called [where i = 1]]]) (simp_all add: run_simps)
  then have "reachable session_init (session_step any_order) (run_state 1150 (1150, True, False, False) (1, True) (True, 1150) 3 [] [] False 1)"
    by (rule reach_next [OF _ session_step.system [OF system_step.arm_called [where i = 0]]]) (simp_all add: run_simps)
  then have "reachable session_init (session_step any_order) (run_state 1150 (1150, True, False, False) (1, True) (False, 1150) 3 [] [] True 1)"
    by (rule reach_next [OF _ session_step.system [OF system_step.timer_fires]]) (simp_all add: run_simps)
  then have "reachable session_init (session_step any_order) (run_state 1150 (1150, True, False, False) (1, True) (False, 1150) 3 [] [] False 1)"
    by (rule reach_next [OF _ session_step.system [OF system_step.timer_callback]]) (simp_all add: run_simps)
  moreover have "stranded (run_state 1150 (1150, True, False, False) (1, True) (False, 1150) 3 [] [] False 1)"
    by (simp add: stranded_def run_simps)
  ultimately show ?thesis by blast
qed

end
