(* ===== verification/RefreshLiveness.thy ===== *)
theory RefreshLiveness
  imports RefreshSafety
begin

text \<open>
  When the calls to \<^verbatim>\<open>arm\<close> reach the timer in the order in which the handlers decided on them under
  the lock, no refresh request is lost: an invariant over every interleaving, and from it that every
  open request can still be served.
\<close>

abbreviation deb :: "Session \<Rightarrow> Debouncer" where "deb s \<equiv> rc_debouncer (ss_coalescer s)"

text \<open>What drives a request that waits while nothing runs.\<close>

definition driven :: "Session \<Rightarrow> bool" where
  "driven s \<longleftrightarrow> ss_arms s \<noteq> [] \<or>
     dt_armed (ss_timer s) \<and> db_lastEvent (deb s) + kDelay \<le> dt_deadline (ss_timer s) \<or>
     ss_firing s \<and> db_lastEvent (deb s) + kDelay \<le> ss_now s"

definition clock_inv :: "Session \<Rightarrow> bool" where
  "clock_inv s \<longleftrightarrow> kDelay \<le> ss_now s \<and> db_lastEvent (deb s) \<le> ss_now s \<and> db_delay (deb s) = kDelay \<and>
     dt_running (ss_timer s) \<and> set (ss_arms s) \<subseteq> {0, kDelay}"

definition debounce_inv :: "Session \<Rightarrow> bool" where
  "debounce_inv s \<longleftrightarrow> (db_dirty (deb s) \<longrightarrow> db_running (deb s)) \<and>
     (db_running (deb s) \<and> db_pending (deb s) \<longrightarrow> db_dirty (deb s)) \<and>
     (db_running (deb s) \<longrightarrow> (\<exists>covers. (rc_generation (ss_coalescer s), covers) \<in> set (ss_jobs s))) \<and>
     (\<forall>j \<in> set (ss_jobs s). 0 < fst j) \<and> ss_covered s \<le> ss_requestSeq s \<and>
     (ss_covered s < ss_requestSeq s \<longrightarrow> db_pending (deb s) \<or> db_dirty (deb s))"

definition drive_inv :: "Session \<Rightarrow> bool" where
  "drive_inv s \<longleftrightarrow> (db_pending (deb s) \<and> \<not> db_running (deb s) \<longrightarrow>
     driven s \<and> (ss_arms s \<noteq> [] \<and> last (ss_arms s) = 0 \<longrightarrow> db_lastEvent (deb s) + kDelay \<le> ss_now s))"

definition refresh_inv :: "Session \<Rightarrow> bool" where
  "refresh_inv s \<longleftrightarrow> clock_inv s \<and> debounce_inv s \<and> drive_inv s"

lemmas inv_defs = refresh_inv_def clock_inv_def debounce_inv_def drive_inv_def driven_def

lemma kDelay_pos: "0 < kDelay"
  by (simp add: kDelay_def)

lemma remove_first: "remove_at 0 xs = tl xs"
  by (cases xs) (simp_all add: remove_at_def)

lemma refresh_inv_init: "session_init s \<Longrightarrow> refresh_inv s"
  by (auto simp: session_init_def new_session_def new_coalescer_def new_debouncer_def new_timer_def inv_defs kDelay_def)

lemma inv_time: "refresh_inv s \<Longrightarrow> ss_now s \<le> t \<Longrightarrow> refresh_inv (s\<lparr>ss_now := t\<rparr>)"
  by (auto simp: inv_defs)

lemma inv_request: "refresh_inv s \<Longrightarrow> refresh_inv (snd (refreshHistory s))"
  using kDelay_pos by (auto simp: inv_defs handler_defs coalescer_defs split: prod.splits)

lemma inv_filter: "refresh_inv s \<Longrightarrow> refresh_inv (setHistoryFilter s)"
  using kDelay_pos by (auto simp: inv_defs handler_defs coalescer_defs split: prod.splits)

lemma inv_fires: "refresh_inv s \<Longrightarrow> timer_due (ss_timer s) (ss_now s) \<Longrightarrow> \<not> ss_firing s \<Longrightarrow>
    refresh_inv (s\<lparr>ss_timer := (ss_timer s)\<lparr>dt_armed := False\<rparr>, ss_firing := True\<rparr>)"
  by (auto simp: inv_defs timer_due_def)

lemma inv_callback: "refresh_inv s \<Longrightarrow> ss_firing s \<Longrightarrow> refresh_inv (onRefreshTimerFired (s\<lparr>ss_firing := False\<rparr>))"
  using kDelay_pos by (auto simp: inv_defs handler_defs coalescer_defs split: prod.splits)

lemma inv_publish: "refresh_inv s \<Longrightarrow> refresh_inv (publish s g)"
  by (auto simp: inv_defs publish_def claimPublishLocked_def)

lemma inv_arm:
  assumes "refresh_inv s" "ss_arms s \<noteq> []"
  shows "refresh_inv (callArm (s\<lparr>ss_arms := tl (ss_arms s)\<rparr>) (hd (ss_arms s)))"
proof -
  obtain d ds where arms: "ss_arms s = d # ds" using assms(2) by (cases "ss_arms s") auto
  have "d = 0 \<or> d = kDelay" using assms(1) arms by (auto simp: inv_defs)
  with assms(1) arms show ?thesis by (cases ds) (auto simp: inv_defs callArm_def arm_def)
qed

lemma inv_finish:
  assumes "refresh_inv s" "i < length (ss_jobs s)"
  shows "refresh_inv (finishRefresh (s\<lparr>ss_jobs := remove_at i (ss_jobs s)\<rparr>) (fst (ss_jobs s ! i)))"
proof (cases "fst (ss_jobs s ! i) = rc_generation (ss_coalescer s)")
  case True
  have "0 < fst (ss_jobs s ! i)" using assms by (simp add: inv_defs)
  with True assms set_remove_at [of i "ss_jobs s"] kDelay_pos show ?thesis
    by (auto simp: inv_defs finishRefresh_def coalescer_defs split: prod.splits)
next
  case False
  have keep: "(rc_generation (ss_coalescer s), covers) \<in> set (remove_at i (ss_jobs s))"
    if "(rc_generation (ss_coalescer s), covers) \<in> set (ss_jobs s)" for covers
    using remove_at_keeps [OF that assms(2)] False by (metis fst_conv)
  with False assms set_remove_at [of i "ss_jobs s"] show ?thesis
    by (auto simp: inv_defs finishRefresh_def coalescer_defs)
qed

lemma refresh_inv_system: "system_step in_order s t \<Longrightarrow> refresh_inv s \<Longrightarrow> refresh_inv t"
proof (induction rule: system_step.induct)
  case (arm_called i s)
  then show ?case using inv_arm [of s] by (cases "ss_arms s") (simp_all add: remove_first)
qed (simp_all add: inv_time inv_fires inv_callback inv_publish inv_finish)

interpretation refresh: state_machine session_init "session_step in_order" refresh_inv
proof unfold_locales
  fix s t assume "refresh_inv s" "session_step in_order s t"
  then show "refresh_inv t" by (auto elim!: session_step.cases simp: inv_request inv_filter refresh_inv_system)
qed (rule refresh_inv_init)

section \<open>What the timer, the pool and the clock can go on to\<close>

abbreviation leads_to :: "Session \<Rightarrow> Session \<Rightarrow> bool" where
  "leads_to \<equiv> (system_step in_order)\<^sup>*\<^sup>*"

lemma leads_inv: "leads_to s t \<Longrightarrow> refresh_inv s \<Longrightarrow> refresh_inv t"
  by (induction rule: rtranclp_induct) (auto intro: refresh_inv_system)

lemma seq_finish [simp]: "ss_requestSeq (finishRefresh s g) = ss_requestSeq s" "ss_jobs (finishRefresh s g) = ss_jobs s"
  by (simp_all add: finishRefresh_def split: prod.splits)

lemma seq_arm [simp]: "ss_requestSeq (callArm s d) = ss_requestSeq s" "ss_jobs (callArm s d) = ss_jobs s" "ss_arms (callArm s d) = ss_arms s"
  by (simp_all add: callArm_def)

text \<open>The running refreshes can all finish, and then the outstanding calls to \<^verbatim>\<open>arm\<close> be made.\<close>

lemma jobs_can_finish: "\<exists>t. leads_to s t \<and> ss_jobs t = [] \<and> ss_requestSeq t = ss_requestSeq s"
proof (induction "length (ss_jobs s)" arbitrary: s)
  case (Suc n)
  let ?t = "finishRefresh (s\<lparr>ss_jobs := remove_at 0 (ss_jobs s)\<rparr>) (fst (ss_jobs s ! 0))"
  have "system_step in_order s ?t" using Suc.hyps(2) by (intro system_step.job_finishes) auto
  moreover have "n = length (ss_jobs ?t)" using Suc.hyps(2) by (simp add: remove_first)
  moreover have "ss_requestSeq ?t = ss_requestSeq s" by simp
  ultimately show ?case using Suc.hyps(1) by (metis converse_rtranclp_into_rtranclp)
qed auto

lemma arms_can_run: "\<exists>t. leads_to s t \<and> ss_arms t = [] \<and> ss_jobs t = ss_jobs s \<and> ss_requestSeq t = ss_requestSeq s"
proof (induction "length (ss_arms s)" arbitrary: s)
  case (Suc n)
  let ?t = "callArm (s\<lparr>ss_arms := remove_at 0 (ss_arms s)\<rparr>) (ss_arms s ! 0)"
  have "system_step in_order s ?t" using Suc.hyps(2) by (intro system_step.arm_called) auto
  moreover have "n = length (ss_arms ?t)" using Suc.hyps(2) by (simp add: remove_first)
  moreover have "ss_requestSeq ?t = ss_requestSeq s" "ss_jobs ?t = ss_jobs s" by simp_all
  ultimately show ?case using Suc.hyps(1) by (metis converse_rtranclp_into_rtranclp)
qed auto

lemma callback_serves:
  assumes "refresh_inv s" "ss_firing s" "db_pending (deb s)" "\<not> db_running (deb s)" "db_lastEvent (deb s) + kDelay \<le> ss_now s"
  shows "\<exists>t. leads_to s t \<and> ss_covered t = ss_requestSeq t \<and> ss_requestSeq t = ss_requestSeq s"
proof (intro exI conjI)
  let ?t = "onRefreshTimerFired (s\<lparr>ss_firing := False\<rparr>)"
  show "leads_to s ?t" using assms(2) by (intro r_into_rtranclp system_step.timer_callback)
  have "db_delay (deb s) = kDelay" "ss_covered s \<le> ss_requestSeq s" using assms(1) by (simp_all add: inv_defs)
  with assms show "ss_covered ?t = ss_requestSeq ?t" "ss_requestSeq ?t = ss_requestSeq s"
    by (simp_all add: onRefreshTimerFired_def dispatchRefresh_def onTimeout_def shouldFire_def takePending_def)
qed

lemma driven_serves:
  assumes "refresh_inv s" "ss_arms s = []" "db_pending (deb s)" "\<not> db_running (deb s)"
  shows "\<exists>t. leads_to s t \<and> ss_covered t = ss_requestSeq t \<and> ss_requestSeq t = ss_requestSeq s"
proof -
  let ?u = "s\<lparr>ss_now := max (ss_now s) (dt_deadline (ss_timer s))\<rparr>"
  have u: "system_step in_order s ?u" by (rule system_step.time_passes) simp
  note inv = refresh_inv_system [OF u assms(1)]
  have drive: "dt_armed (ss_timer s) \<and> db_lastEvent (deb s) + kDelay \<le> dt_deadline (ss_timer s) \<or>
      ss_firing s \<and> db_lastEvent (deb s) + kDelay \<le> ss_now s"
    using assms by (auto simp: refresh_inv_def drive_inv_def driven_def)
  then have late: "db_lastEvent (deb ?u) + kDelay \<le> ss_now ?u" by auto
  have "\<exists>t. leads_to ?u t \<and> ss_covered t = ss_requestSeq t \<and> ss_requestSeq t = ss_requestSeq s"
  proof (cases "ss_firing s")
    case True
    then show ?thesis using callback_serves [OF inv] assms(3,4) late by simp
  next
    case False
    let ?v = "?u\<lparr>ss_timer := (ss_timer ?u)\<lparr>dt_armed := False\<rparr>, ss_firing := True\<rparr>"
    have "timer_due (ss_timer ?u) (ss_now ?u)"
      using drive False assms(1) by (auto simp: timer_due_def refresh_inv_def clock_inv_def)
    then have v: "system_step in_order ?u ?v" using False by (intro system_step.timer_fires) simp_all
    from callback_serves [OF refresh_inv_system [OF v inv]] assms(3,4) late
    obtain t where "leads_to ?v t" "ss_covered t = ss_requestSeq t" "ss_requestSeq t = ss_requestSeq s" by auto
    with v show ?thesis by (meson converse_rtranclp_into_rtranclp)
  qed
  with u show ?thesis by (meson converse_rtranclp_into_rtranclp)
qed

section \<open>Every open request is served\<close>

text \<open>What an open request waits for: the running walk, a call to \<^verbatim>\<open>arm\<close>, the armed timer, or the timer thread.\<close>

definition waits_for_something :: "Session \<Rightarrow> bool" where
  "waits_for_something s \<longleftrightarrow>
     (\<exists>covers. (rc_generation (ss_coalescer s), covers) \<in> set (ss_jobs s)) \<or> ss_arms s \<noteq> [] \<or>
     dt_armed (ss_timer s) \<and> db_lastEvent (deb s) + kDelay \<le> dt_deadline (ss_timer s) \<or>
     ss_firing s \<and> db_lastEvent (deb s) + kDelay \<le> ss_now s"

text \<open>How much the timer, the pool and the outstanding calls have to do before nothing is left to serve.\<close>

definition refresh_work :: "Session \<Rightarrow> nat" where
  "refresh_work s =
     5 * length (ss_jobs s) + 3 * length (ss_arms s) + (if dt_armed (ss_timer s) then 2 else 0) + (if ss_firing s then 1 else 0) +
     (if db_pending (deb s) \<or> db_dirty (deb s) then 6 else 0)"

definition idle_move :: "Session \<Rightarrow> Session \<Rightarrow> bool" where
  "idle_move s t \<longleftrightarrow> (\<exists>now. t = s\<lparr>ss_now := now\<rparr>) \<or> (\<exists>g. t = publish s g)"

lemma work_time [simp]: "refresh_work (s\<lparr>ss_now := now\<rparr>) = refresh_work s"
  by (simp add: refresh_work_def)

lemma remove_at_length: "i < length xs \<Longrightarrow> Suc (length (remove_at i xs)) = length xs"
  by (simp add: remove_at_def)

lemma arm_work: "i < length (ss_arms s) \<Longrightarrow> refresh_work (callArm (s\<lparr>ss_arms := remove_at i (ss_arms s)\<rparr>) (ss_arms s ! i)) < refresh_work s"
  using remove_at_length [of i "ss_arms s"] by (auto simp: refresh_work_def callArm_def arm_def)

lemma fire_work: "timer_due (ss_timer s) now \<Longrightarrow> \<not> ss_firing s \<Longrightarrow>
    refresh_work (s\<lparr>ss_timer := (ss_timer s)\<lparr>dt_armed := False\<rparr>, ss_firing := True\<rparr>) < refresh_work s"
  by (simp add: refresh_work_def timer_due_def)

lemma callback_work: "refresh_inv s \<Longrightarrow> ss_firing s \<Longrightarrow> refresh_work (onRefreshTimerFired (s\<lparr>ss_firing := False\<rparr>)) < refresh_work s"
  by (auto simp: refresh_work_def onRefreshTimerFired_def onTimeout_def shouldFire_def dispatchRefresh_def takePending_def refresh_inv_def debounce_inv_def)

lemma job_work: "i < length (ss_jobs s) \<Longrightarrow> refresh_work (finishRefresh (s\<lparr>ss_jobs := remove_at i (ss_jobs s)\<rparr>) g) < refresh_work s"
  using remove_at_length [of i "ss_jobs s"]
  by (auto simp: refresh_work_def finishRefresh_def onFinished_def db_finish_def Let_def split: prod.splits)

lemma system_step_work:
  assumes "system_step in_order s t" and "refresh_inv s"
  shows "refresh_work t < refresh_work s \<or> idle_move s t"
  using assms(1)
proof cases
  case (time_passes now)
  then show ?thesis unfolding idle_move_def by blast
next
  case (arm_called i)
  then show ?thesis using arm_work by blast
next
  case timer_fires
  then show ?thesis using fire_work by blast
next
  case timer_callback
  then show ?thesis using callback_work assms(2) by blast
next
  case (job_publishes g covers)
  then show ?thesis unfolding idle_move_def by blast
next
  case (job_finishes i)
  then show ?thesis using job_work by blast
qed

lemma system_step_requests: "system_step in_order s t \<Longrightarrow> ss_requestSeq t = ss_requestSeq s \<and> ss_covered s \<le> ss_covered t"
  by (induction rule: system_step.induct)
    (auto simp: callArm_def onRefreshTimerFired_def dispatchRefresh_def finishRefresh_def publish_def claimPublishLocked_def split: prod.splits)

lemma open_request_waits:
  assumes "refresh_inv s" and "ss_covered s < ss_requestSeq s"
  shows "waits_for_something s"
proof (cases "db_running (deb s)")
  case True
  with assms show ?thesis unfolding waits_for_something_def refresh_inv_def debounce_inv_def by blast
next
  case False
  with assms have "db_pending (deb s)" unfolding refresh_inv_def debounce_inv_def by blast
  with False assms(1) show ?thesis unfolding waits_for_something_def refresh_inv_def drive_inv_def driven_def by blast
qed

text \<open>When the clock has reached the deadline of the timer, one of the steps that do something can be taken.\<close>

lemma open_request_moves:
  assumes "refresh_inv s" and "waits_for_something s"
  shows "\<exists>t. system_step in_order (s\<lparr>ss_now := max (ss_now s) (dt_deadline (ss_timer s))\<rparr>) t \<and> refresh_work t < refresh_work s"
proof -
  let ?u = "s\<lparr>ss_now := max (ss_now s) (dt_deadline (ss_timer s))\<rparr>"
  have inv: "refresh_inv ?u" using inv_time [OF assms(1)] by simp
  consider "ss_jobs s \<noteq> []" | "ss_arms s \<noteq> []" | "ss_firing s" | "dt_armed (ss_timer s)" "\<not> ss_firing s"
    using assms(2) unfolding waits_for_something_def by force
  then show ?thesis
  proof cases
    case 1
    then show ?thesis using system_step.job_finishes [of 0 ?u in_order] job_work [of 0 ?u "fst (ss_jobs ?u ! 0)"] by auto
  next
    case 2
    then show ?thesis using system_step.arm_called [of 0 ?u in_order] arm_work [of 0 ?u] by auto
  next
    case 3
    then show ?thesis using system_step.timer_callback [of ?u in_order] callback_work [OF inv] by auto
  next
    case 4
    moreover have "dt_running (ss_timer s)" using assms(1) by (simp add: refresh_inv_def clock_inv_def)
    ultimately have "timer_due (ss_timer ?u) (ss_now ?u)" by (simp add: timer_due_def)
    with 4 show ?thesis using system_step.timer_fires [of ?u in_order] fire_work [of ?u "ss_now ?u"] by auto
  qed
qed

text \<open>A callback of the timer serves all requests, once no walk is running and they have been quiet.\<close>

lemma callback_covers:
  assumes "refresh_inv s" and "ss_covered s < ss_requestSeq s" and "\<not> db_running (deb s)" and "db_lastEvent (deb s) + kDelay \<le> ss_now s"
  shows "ss_covered (onRefreshTimerFired (s\<lparr>ss_firing := False\<rparr>)) = ss_requestSeq s"
proof -
  have "db_pending (deb s)" "db_delay (deb s) = kDelay" using assms by (auto simp: refresh_inv_def debounce_inv_def clock_inv_def)
  with assms show ?thesis by (simp add: onRefreshTimerFired_def dispatchRefresh_def onTimeout_def shouldFire_def takePending_def)
qed

lemma request_reachable_service:
  assumes "refresh_inv s"
  shows "\<exists>t. leads_to s t \<and> ss_requestSeq t = ss_requestSeq s \<and> ss_covered t = ss_requestSeq t"
proof -
  obtain u where u: "leads_to s u" "ss_jobs u = []" "ss_requestSeq u = ss_requestSeq s" using jobs_can_finish by blast
  obtain v where v: "leads_to u v" "ss_arms v = []" "ss_jobs v = []" "ss_requestSeq v = ss_requestSeq s"
    using arms_can_run [of u] u by metis
  have sv: "leads_to s v" using u(1) v(1) by (rule rtranclp_trans)
  have inv: "refresh_inv v" using leads_inv [OF sv assms] .
  then have idle: "\<not> db_running (deb v)" "\<not> db_dirty (deb v)" using v(3) by (auto simp: refresh_inv_def debounce_inv_def)
  show ?thesis
  proof (cases "ss_covered v < ss_requestSeq v")
    case True
    with inv idle have "db_pending (deb v)" by (auto simp: refresh_inv_def debounce_inv_def)
    from driven_serves [OF inv v(2) this idle(1)] obtain t where
      "leads_to v t" "ss_covered t = ss_requestSeq t" "ss_requestSeq t = ss_requestSeq v" by blast
    with sv v(4) show ?thesis by (metis rtranclp_trans)
  next
    case False
    with inv sv v(4) show ?thesis by (auto simp: refresh_inv_def debounce_inv_def)
  qed
qed

text \<open>
  C9. When the calls to \<^verbatim>\<open>arm\<close> reach the timer in the order the handlers decided on them, every request for a refresh is
  served, in every interleaving of requests, filter changes, timer firings and walks. As long as some request is not
  covered by a dispatch, it waits for the running walk, for a call to \<^verbatim>\<open>arm\<close> that was decided on, for the timer armed for
  no earlier than the end of the quiet time, or for the timer thread. Without further requests every step of the system,
  but for the clock and what is published, leaves less of a finite amount of work, no step takes back what is covered,
  and as long as a request is open some step that does work can be taken, at the latest when the timer is due; and a
  callback of the timer after the quiet time, while no walk runs, covers every request made so far.
\<close>

theorem requests_served_in_order:
  assumes "reachable session_init (session_step in_order) s"
  shows "(ss_covered s < ss_requestSeq s \<longrightarrow> waits_for_something s \<and>
      (\<exists>t. system_step in_order (s\<lparr>ss_now := max (ss_now s) (dt_deadline (ss_timer s))\<rparr>) t \<and> refresh_work t < refresh_work s)) \<and>
    (\<forall>t. system_step in_order s t \<longrightarrow>
      (refresh_work t < refresh_work s \<or> idle_move s t) \<and> ss_requestSeq t = ss_requestSeq s \<and> ss_covered s \<le> ss_covered t) \<and>
    (ss_covered s < ss_requestSeq s \<and> \<not> db_running (deb s) \<and> db_lastEvent (deb s) + kDelay \<le> ss_now s \<longrightarrow>
      ss_covered (onRefreshTimerFired (s\<lparr>ss_firing := False\<rparr>)) = ss_requestSeq s) \<and>
    (\<exists>t. (system_step in_order)\<^sup>*\<^sup>* s t \<and> ss_requestSeq t = ss_requestSeq s \<and> ss_covered t = ss_requestSeq t)"
proof (intro conjI impI allI)
  have inv: "refresh_inv s" by (rule refresh.reachable_inv [OF assms])
  show "waits_for_something s" if "ss_covered s < ss_requestSeq s" by (rule open_request_waits [OF inv that])
  then show "\<exists>t. system_step in_order (s\<lparr>ss_now := max (ss_now s) (dt_deadline (ss_timer s))\<rparr>) t \<and> refresh_work t < refresh_work s"
    if "ss_covered s < ss_requestSeq s" using open_request_moves [OF inv] that by blast
  show "refresh_work t < refresh_work s \<or> idle_move s t" if "system_step in_order s t" for t by (rule system_step_work [OF that inv])
  show "ss_requestSeq t = ss_requestSeq s" "ss_covered s \<le> ss_covered t" if "system_step in_order s t" for t
    using system_step_requests [OF that] by simp_all
  show "ss_covered (onRefreshTimerFired (s\<lparr>ss_firing := False\<rparr>)) = ss_requestSeq s"
    if "ss_covered s < ss_requestSeq s \<and> \<not> db_running (deb s) \<and> db_lastEvent (deb s) + kDelay \<le> ss_now s" using callback_covers [OF inv] that by blast
  show "\<exists>t. (system_step in_order)\<^sup>*\<^sup>* s t \<and> ss_requestSeq t = ss_requestSeq s \<and> ss_covered t = ss_requestSeq t"
    by (rule request_reachable_service [OF inv])
qed

theorem requests_served_in_order_witness:
  "waits_for_something (snd (refreshHistory (new_session 1000))) \<and>
   (\<exists>t. (system_step in_order)\<^sup>*\<^sup>* (snd (refreshHistory (new_session 1000))) t \<and> ss_requestSeq t = 1 \<and> ss_covered t = 1)"
proof -
  have reach: "reachable session_init (session_step in_order) (snd (refreshHistory (new_session 1000)))"
    by (rule reachable.reach_step [OF session_start [of 1000]]) (auto simp: kDelay_def intro: session_step.user_refresh)
  have counts: "ss_requestSeq (snd (refreshHistory (new_session 1000))) = 1" "ss_covered (snd (refreshHistory (new_session 1000))) = 0"
    by (simp_all add: refreshHistory_def new_session_def split: prod.splits)
  note served = requests_served_in_order [OF reach, unfolded counts]
  show ?thesis
  proof
    show "waits_for_something (snd (refreshHistory (new_session 1000)))" using served [THEN conjunct1] by simp
    show "\<exists>t. (system_step in_order)\<^sup>*\<^sup>* (snd (refreshHistory (new_session 1000))) t \<and> ss_requestSeq t = 1 \<and> ss_covered t = 1"
      using served [THEN conjunct2, THEN conjunct2, THEN conjunct2] by auto
  qed
qed

end
