(* ===== verification/RefReading.thy ===== *)
theory RefReading
  imports RefStores
begin

text \<open>
  What reading the refs guarantees: the lines git prints come back as the refs they describe, ordered
  and indexed; the tips a walk is seeded with exist; and two reads are compared by their tips alone.
\<close>

section \<open>Searching and splitting\<close>

lemma find_str_None: "c \<notin> set s \<Longrightarrow> find_str (c # cs) s = None"
  by (induction s) auto

lemma find_str_skip: "c \<notin> set ds \<Longrightarrow> find_str (c # cs) (ds @ rest) = map_option ((+) (length ds)) (find_str (c # cs) rest)"
proof (induction ds)
  case Nil
  then show ?case by (cases "find_str (c # cs) rest") simp_all
next
  case (Cons d ds)
  then show ?case by (cases "find_str (c # cs) rest") auto
qed

fun joined :: "char \<Rightarrow> string list \<Rightarrow> string" where
  "joined sep [] = []"
| "joined sep [f] = f"
| "joined sep (f # g # fs) = f @ sep # joined sep (g # fs)"

lemma splitOn_joined: "list_all (\<lambda>f. sep \<notin> set f) fs \<Longrightarrow> fs \<noteq> [] \<Longrightarrow> splitOn sep (joined sep fs) = fs"
proof (induction sep fs rule: joined.induct)
  case (2 sep f)
  then show ?case by (subst splitOn.simps) (simp add: find_char_None [THEN iffD2])
next
  case (3 sep f g fs)
  then show ?case by (subst splitOn.simps) simp
qed simp

lemma splitOn_last: "c \<notin> set s \<Longrightarrow> splitOn c s = [s]"
  by (subst splitOn.simps) (simp add: find_char_None [THEN iffD2])

lemma splitOn_first: "c \<notin> set s \<Longrightarrow> splitOn c (s @ c # t) = s # splitOn c t"
  by (subst splitOn.simps) simp

lemma joined_eq_Nil: "joined sep (f # fs) = [] \<longleftrightarrow> f = [] \<and> fs = []"
  by (cases fs) auto

section \<open>The lines of for-each-ref\<close>

text \<open>How a branch stands to its upstream: the upstream is gone, or it is so many ahead and behind.\<close>

datatype Track = GoneTrack | Counts nat nat

fun track_text :: "Track \<Rightarrow> string" where
  "track_text GoneTrack = ''[gone]''"
| "track_text (Counts a b) =
     (if a = 0 \<and> b = 0 then []
      else if b = 0 then ''[ahead '' @ to_string a @ '']''
      else if a = 0 then ''[behind '' @ to_string b @ '']''
      else ''[ahead '' @ to_string a @ '', behind '' @ to_string b @ '']'')"

fun track_of :: "Track \<Rightarrow> RefInfo \<Rightarrow> RefInfo" where
  "track_of GoneTrack r = r\<lparr>ri_hasTrackingInfo := True, ri_isGone := True\<rparr>"
| "track_of (Counts a b) r = (if a = 0 \<and> b = 0 then r else r\<lparr>ri_hasTrackingInfo := True, ri_ahead := int a, ri_behind := int b\<rparr>)"

fun track_ok :: "Track \<Rightarrow> bool" where
  "track_ok GoneTrack = True"
| "track_ok (Counts a b) \<longleftrightarrow> a < 2 ^ 31 \<and> b < 2 ^ 31"

lemma letters_not_digits: "\<not> is_digit CHR ''a''" "\<not> is_digit CHR ''b''" "\<not> is_digit CHR ''[''" "\<not> is_digit CHR ''-''"
  "\<not> is_digit CHR '' ''" "\<not> is_digit CHR '']''" "\<not> is_digit CHR '',''"
  by (simp_all add: is_digit_def)

lemma notin_to_string: "\<not> is_digit c \<Longrightarrow> c \<notin> set (to_string n)"
  using to_string_digits by blast

lemma hd_to_string: "is_digit (hd (to_string n))"
  by (rule to_string_digits [of _ n]) simp

lemma from_chars_int_to_string:
  assumes "n < 2 ^ 31" "\<not> is_digit c"
  shows "from_chars_int (dropWhile (\<lambda>c. c = CHR '' '') (to_string n @ c # rest)) = Some (int n)"
proof -
  obtain d ds where ds: "to_string n = d # ds" using to_string_nonempty by (cases "to_string n") auto
  have "is_digit d" using hd_to_string [of n] ds by simp
  then have "d \<noteq> CHR '' ''" "d \<noteq> CHR ''-''" using letters_not_digits by auto
  then show ?thesis
    using from_chars_to_string [OF assms(1), of "c # rest"] assms(2) ds by (simp add: from_chars_int_def)
qed

lemma readNumberAfter_found:
  assumes "find_str keyword track = Some i" "drop (i + length keyword) track = to_string n @ c # rest" "n < 2 ^ 31" "\<not> is_digit c"
  shows "readNumberAfter track keyword = int n"
  using from_chars_int_to_string [OF assms(3,4)] assms(1,2) by (simp add: readNumberAfter_def)

lemma readNumberAfter_absent: "c \<notin> set track \<Longrightarrow> readNumberAfter track (c # cs) = 0"
  by (simp add: readNumberAfter_def find_str_None)

lemma parseTrack_text:
  assumes "track_ok t"
  shows "parseTrack (track_text t) r = track_of t r"
proof (cases t)
  case GoneTrack
  then show ?thesis by (simp add: parseTrack_def)
next
  case (Counts a b)
  note digits = notin_to_string [OF letters_not_digits(1)] notin_to_string [OF letters_not_digits(2)] notin_to_string [OF letters_not_digits(3)]
  have not_gone: "find_str ''[gone]'' (track_text t) = None"
    using Counts find_str_skip [of "CHR ''[''" "to_string a"] digits by (auto simp: find_str_None)
  consider "a = 0" "b = 0" | "a \<noteq> 0" "b = 0" | "a = 0" "b \<noteq> 0" | "a \<noteq> 0" "b \<noteq> 0" by blast
  then show ?thesis
  proof cases
    case 1
    then show ?thesis by (simp add: Counts parseTrack_def)
  next
    case 2
    have "readNumberAfter (track_text t) ''ahead '' = int a"
      using 2 Counts assms letters_not_digits by (intro readNumberAfter_found [where i = 1 and c = "CHR '']''"]) auto
    moreover have "readNumberAfter (track_text t) ''behind '' = 0"
      using 2 Counts digits by (intro readNumberAfter_absent) auto
    ultimately show ?thesis using 2 not_gone Counts by (simp add: parseTrack_def)
  next
    case 3
    have "readNumberAfter (track_text t) ''behind '' = int b"
      using 3 Counts assms letters_not_digits by (intro readNumberAfter_found [where i = 1 and c = "CHR '']''"]) auto
    moreover have "readNumberAfter (track_text t) ''ahead '' = 0"
      using 3 Counts digits by (intro readNumberAfter_absent) auto
    ultimately show ?thesis using 3 not_gone Counts by (simp add: parseTrack_def)
  next
    case 4
    have "readNumberAfter (track_text t) ''ahead '' = int a"
      using 4 Counts assms letters_not_digits by (intro readNumberAfter_found [where i = 1 and c = "CHR '',''"]) auto
    moreover have "readNumberAfter (track_text t) ''behind '' = int b"
    proof (rule readNumberAfter_found [where c = "CHR '']''"])
      show "find_str ''behind '' (track_text t) = Some (7 + length (to_string a) + 2)"
        using 4 Counts find_str_skip [of "CHR ''b''" "to_string a" "''ehind ''"] digits by simp
      let ?p = "''[ahead '' @ to_string a @ '', behind ''"
      have "track_text t = ?p @ to_string b @ '']''" "7 + length (to_string a) + 2 + length ''behind '' = length ?p"
        using 4 Counts by simp_all
      then show "drop (7 + length (to_string a) + 2 + length ''behind '') (track_text t) = to_string b @ CHR '']'' # []"
        by (metis append_eq_conv_conj)
    qed (use 4 Counts assms letters_not_digits in auto)
    ultimately show ?thesis using 4 not_gone Counts by (simp add: parseTrack_def)
  qed
qed

text \<open>One line: the nine fields in the order of the format.\<close>

record RefItem =
  it_name :: string
  it_type :: string
  it_object :: string
  it_peeled :: string
  it_upstream :: string
  it_track :: Track
  it_head :: bool
  it_worktree :: string
  it_symref :: string

definition item_fields :: "RefItem \<Rightarrow> string list" where
  "item_fields i = [it_name i, it_type i, it_object i, it_peeled i, it_upstream i, track_text (it_track i),
     if it_head i then ''*'' else '' '', it_worktree i, it_symref i]"

definition ref_line :: "RefItem \<Rightarrow> string" where
  "ref_line i = joined kFieldSeparator (item_fields i)"

definition ref_item_ok :: "RefItem \<Rightarrow> bool" where
  "ref_item_ok i \<longleftrightarrow> it_name i \<noteq> [] \<and> track_ok (it_track i) \<and>
     list_all (\<lambda>f. kFieldSeparator \<notin> set f)
       [it_name i, it_type i, it_object i, it_peeled i, it_upstream i, it_worktree i, it_symref i]"

definition ref_of :: "RefItem \<Rightarrow> RefInfo" where
  "ref_of i = track_of (it_track i)
     (new_ref\<lparr>ri_fullName := it_name i, ri_kind := kindForRef (it_name i), ri_shortName := refDisplayName (it_name i),
        ri_target := fromHex (if it_type i = ''tag'' \<and> it_peeled i \<noteq> [] then it_peeled i else it_object i),
        ri_tagObject := if it_type i = ''tag'' \<and> it_peeled i \<noteq> [] then fromHex (it_object i) else null_oid,
        ri_upstream := it_upstream i, ri_isHead := it_head i, ri_worktreePath := it_worktree i,
        ri_isSymbolic := it_symref i \<noteq> []\<rparr>)"

lemma separator_notin_track: "kFieldSeparator \<notin> set (track_text t)"
proof -
  have "\<not> is_digit kFieldSeparator" by (simp add: is_digit_def kFieldSeparator_def)
  then show ?thesis by (cases t) (auto simp: notin_to_string kFieldSeparator_def)
qed

lemma track_of_update:
  "(track_of t r)\<lparr>ri_isHead := b, ri_worktreePath := w, ri_isSymbolic := c\<rparr> =
     track_of t (r\<lparr>ri_isHead := b, ri_worktreePath := w, ri_isSymbolic := c\<rparr>)"
  by (cases t) simp_all

lemma parseRefLine_line:
  assumes "ref_item_ok i"
  shows "parseRefLine (ref_line i) = Some (ref_of i)"
proof -
  have "splitOn kFieldSeparator (ref_line i) = item_fields i"
    unfolding ref_line_def using assms separator_notin_track
    by (intro splitOn_joined) (auto simp: item_fields_def ref_item_ok_def kFieldSeparator_def)
  moreover have "ref_line i \<noteq> []"
    using assms by (simp add: ref_line_def item_fields_def joined_eq_Nil ref_item_ok_def)
  moreover have "track_ok (it_track i)" using assms by (simp add: ref_item_ok_def)
  ultimately show ?thesis
    by (simp add: parseRefLine_def item_fields_def parseTrack_text ref_of_def Let_def track_of_update
      refDisplayName_def new_ref_def)
qed

section \<open>The index\<close>

lemma indexRef_fold:
  "\<not> isNull oid \<Longrightarrow> map_of (foldl indexRef m refs) oid =
     (let found = filter (\<lambda>r. ri_target r = oid) refs
      in case map_of m oid of
           Some rs \<Rightarrow> Some (rs @ found)
         | None \<Rightarrow> if found = [] then None else Some found)"
proof (induction refs arbitrary: m)
  case (Cons r refs)
  then show ?case by (auto simp: indexRef_def update_conv Let_def split: option.splits)
qed (simp split: option.splits)

text \<open>
  C31. Reading the refs is faithful: for the lines git prints for any refs, the snapshot holds
  exactly those refs with their names, targets (peeled for annotated tags), upstreams, ahead and
  behind counts and flags, sorted by kind and then name, their number, and an index that maps every
  object to exactly the refs that point at it.
\<close>

theorem refs_read_back:
  assumes "list_all ref_item_ok items" and "stream [''for-each-ref'', ''--format='' @ refFormat] = Inr (map ref_line items)"
    and "readHead run = Some (Inr head)"
  shows "\<exists>s. load run stream = Some (Inr s) \<and> mset (rs_refs s) = mset (map ref_of items) \<and>
    sorted (map ref_key (rs_refs s)) \<and> rs_totalRefCount s = length items \<and> rs_head s = head \<and>
    (\<forall>oid. \<not> isNull oid \<longrightarrow> refsAt s oid =
       (let found = filter (\<lambda>r. ri_target r = oid) (rs_refs s) in if found = [] then None else Some found))"
proof -
  have "List.map_filter parseRefLine (map ref_line items) = map ref_of items"
    using assms(1) by (induction items) (simp_all add: parseRefLine_line map_filter_simps)
  with assms(2,3) show ?thesis
    by (simp add: load_def buildIndex_def refsAt_def indexRef_fold Let_def)
qed

definition unborn :: HeadInfo where
  "unborn = \<lparr>hi_kind = HeadUnborn, hi_branchName = [], hi_fullRef = [], hi_target = null_oid\<rparr>"

definition demo_ref :: RefItem where
  "demo_ref = \<lparr>it_name = ''refs/heads/main'', it_type = ''commit'', it_object = replicate 40 CHR ''a'', it_peeled = [],
     it_upstream = ''refs/remotes/origin/main'', it_track = Counts 3 1, it_head = True, it_worktree = [], it_symref = []\<rparr>"

theorem refs_read_back_witness:
  "\<exists>s. load (\<lambda>_. Inr []) (\<lambda>_. Inr (map ref_line [demo_ref])) = Some (Inr s) \<and> mset (rs_refs s) = {#ref_of demo_ref#}"
proof -
  have "list_all ref_item_ok [demo_ref]"
    by (simp add: ref_item_ok_def demo_ref_def kFieldSeparator_def)
  moreover have "readHead (\<lambda>_. Inr []) = Some (Inr unborn)"
    by (simp add: readHead_def unborn_def)
  ultimately show ?thesis using refs_read_back [of "[demo_ref]" "\<lambda>_. Inr (map ref_line [demo_ref])" "\<lambda>_. Inr []"] by auto
qed

lemma kindForRef_prefix: "\<not> shortNameThrows n (kindForRef n)"
  by (auto simp: kindForRef_def starts_with_def kHeadsPrefix_def kRemotesPrefix_def kTagsPrefix_def dest: arg_cong [where f = length])

text \<open>
  Reading the refs reports what happened to HEAD exactly: it fails with git's own error when
  git does; it is a detached head or a branch with the commit git printed; an empty answer is a
  repository with no commit yet, not an error; and the one way an exception escapes is a HEAD that
  names a ref with fewer characters than \<^verbatim>\<open>refs/heads/\<close>.
\<close>

theorem head_read_exact:
  assumes "nl \<notin> set oid" "oid \<noteq> []" and "answer = run [''rev-parse'', ''--revs-only'', ''HEAD'', ''--symbolic-full-name'', ''HEAD'']"
  shows "(answer = Inl e \<longrightarrow> readHead run = Some (Inl e) \<and> load run stream = Some (Inl e)) \<and>
    (answer = Inr (oid @ [nl] @ ''HEAD'') \<longrightarrow>
      readHead run = Some (Inr \<lparr>hi_kind = HeadDetached, hi_branchName = [], hi_fullRef = [], hi_target = fromHex oid\<rparr>)) \<and>
    (answer = Inr (oid @ [nl] @ kHeadsPrefix @ branch) \<longrightarrow>
      readHead run = Some (Inr \<lparr>hi_kind = HeadBranch, hi_branchName = branch, hi_fullRef = kHeadsPrefix @ branch, hi_target = fromHex oid\<rparr>)) \<and>
    (answer = Inr [] \<and> run [''symbolic-ref'', ''--quiet'', ''HEAD''] = Inr (kHeadsPrefix @ branch) \<longrightarrow>
      readHead run = Some (Inr \<lparr>hi_kind = HeadUnborn, hi_branchName = branch, hi_fullRef = kHeadsPrefix @ branch, hi_target = null_oid\<rparr>)) \<and>
    (answer = Inr (oid @ [nl] @ other) \<and> other \<notin> {[], ''HEAD''} \<longrightarrow> (load run stream = None \<longleftrightarrow> length other < length kHeadsPrefix))"
  using assms
  by (auto simp: readHead_def load_def kHeadsPrefix_def Let_def split: sum.splits)

theorem head_read_exact_witness:
  "load (\<lambda>_. Inr (replicate 40 CHR ''a'' @ [nl] @ ''refs/wip'')) (\<lambda>_. Inr []) = None"
  using head_read_exact [of "replicate 40 CHR ''a''" _ "\<lambda>_. Inr (replicate 40 CHR ''a'' @ [nl] @ ''refs/wip'')" _ "\<lambda>_. Inr []" _ "''refs/wip''"]
  by (simp add: kHeadsPrefix_def)

section \<open>Seeds\<close>

lemma set_pushSeed: "set (pushSeed seeds v) = set seeds \<union> ({v} - {[]})"
  by (auto simp: pushSeed_def)

lemma distinct_pushSeed: "distinct seeds \<Longrightarrow> distinct (pushSeed seeds v)"
  by (simp add: pushSeed_def)

lemma set_foldl_pushSeed: "set (foldl pushSeed seeds vs) = set seeds \<union> (set vs - {[]})"
  by (induction vs arbitrary: seeds) (auto simp: set_pushSeed)

lemma distinct_foldl_pushSeed: "distinct seeds \<Longrightarrow> distinct (foldl pushSeed seeds vs)"
  by (induction vs arbitrary: seeds) (simp_all add: distinct_pushSeed)

lemma prefix_foldl_pushSeed: "\<exists>zs. foldl pushSeed seeds vs = seeds @ zs"
proof (induction vs arbitrary: seeds)
  case (Cons v vs)
  have "pushSeed seeds v = seeds @ (if v = [] \<or> v \<in> set seeds then [] else [v])" by (simp add: pushSeed_def)
  then show ?case using Cons.IH [of "pushSeed seeds v"] by auto
qed simp

text \<open>
  A walk is never started from a name that could abort it: the tips are listed once each,
  HEAD comes first, and every other tip is the full name of a ref the snapshot holds.
\<close>

theorem history_seeds_exist:
  "distinct (historySeedRefs s) \<and> take (length (headSeeds s)) (historySeedRefs s) = headSeeds s \<and>
   set (historySeedRefs s) \<subseteq> set (headSeeds s) \<union> {n. refExists s n}"
proof -
  let ?ups = "map ri_upstream (filter (\<lambda>r. ri_isHead r \<and> ri_upstream r \<noteq> [] \<and> \<not> ri_isGone r \<and> refExists s (ri_upstream r)) (rs_refs s))"
  let ?all = "?ups @ filter (refExists s) trunkNames"
  have "historySeedRefs s = foldl pushSeed (headSeeds s) ?all" by (simp add: historySeedRefs_def Let_def)
  moreover have "distinct (headSeeds s)" by (simp add: headSeeds_def pushSeed_def)
  ultimately show ?thesis
    using set_foldl_pushSeed [of "headSeeds s" ?all] distinct_foldl_pushSeed [of "headSeeds s" ?all]
      prefix_foldl_pushSeed [of "headSeeds s" ?all] by auto
qed

section \<open>Comparing two reads\<close>

definition tips :: "RefSnapshot \<Rightarrow> (string \<times> ObjectId) set" where
  "tips s = (\<lambda>r. (ri_fullName r, ri_target r)) ` set (rs_refs s)"

lemma sorted_names_unique:
  assumes "distinct (map ri_fullName xs)" "distinct (map ri_fullName ys)"
    and "(\<lambda>r. (ri_fullName r, ri_target r)) ` set xs = (\<lambda>r. (ri_fullName r, ri_target r)) ` set ys"
  shows "map (\<lambda>r. (ri_fullName r, ri_target r)) (sort_key ri_fullName xs) = map (\<lambda>r. (ri_fullName r, ri_target r)) (sort_key ri_fullName ys)"
proof -
  let ?f = "\<lambda>r. (ri_fullName r, ri_target r)"
  have d: "distinct (map ri_fullName (sort_key ri_fullName zs))" if "distinct (map ri_fullName zs)" for zs
    using that by (metis distinct_map distinct_sort set_sort)
  have s: "sorted (map ?f (sort_key ri_fullName zs))" if "distinct (map ri_fullName zs)" for zs
  proof -
    have "sorted_wrt (<) (map ri_fullName (sort_key ri_fullName zs))"
      using d [OF that] by (simp add: strict_sorted_iff)
    then show ?thesis by (auto simp: sorted_map sorted_wrt_map less_eq_prod_def elim!: sorted_wrt_mono_rel [rotated])
  qed
  have u: "distinct (map ?f (sort_key ri_fullName zs))" if "distinct (map ri_fullName zs)" for zs
    using d [OF that] by (auto simp: distinct_map inj_on_def)
  show ?thesis
    using assms(3) by (intro sorted_distinct_set_unique s [OF assms(1)] u [OF assms(1)] s [OF assms(2)] u [OF assms(2)]) simp
qed

text \<open>
  Two reads show the same history exactly when they hold the same names at the same targets,
  in whatever order they were read and whatever else about the refs differs.
\<close>

theorem same_tips_iff:
  assumes "distinct (map ri_fullName (rs_refs a))" "distinct (map ri_fullName (rs_refs b))"
    and "list_all (\<lambda>r. wf_oid (ri_target r)) (rs_refs a @ rs_refs b)"
  shows "sameRefTips a b \<longleftrightarrow> tips a = tips b"
proof -
  let ?f = "\<lambda>r. (ri_fullName r, ri_target r)"
  let ?xs = "sort_key ri_fullName (rs_refs a)" and ?ys = "sort_key ri_fullName (rs_refs b)"
  have "list_all2 (\<lambda>l r. ri_fullName l = ri_fullName r \<and> oid_eq (ri_target l) (ri_target r)) ?xs ?ys \<longleftrightarrow>
      list_all2 (\<lambda>l r. ?f l = ?f r) ?xs ?ys"
    by (rule list.rel_cong_simp) (use assms(3) in \<open>auto simp: simp_implies_def list_all_iff oid_eq_iff\<close>)
  also have "\<dots> \<longleftrightarrow> map ?f ?xs = map ?f ?ys"
    unfolding list_all2_map1 [symmetric, of "(=)"] by (simp only: list_all2_map1 list_all2_map2 list_all2_eq)
  finally have "list_all2 (\<lambda>l r. ri_fullName l = ri_fullName r \<and> oid_eq (ri_target l) (ri_target r)) ?xs ?ys \<longleftrightarrow> map ?f ?xs = map ?f ?ys" .
  moreover have "length (rs_refs a) = length (rs_refs b)" if "map ?f ?xs = map ?f ?ys"
    using map_eq_imp_length_eq [OF that] by simp
  ultimately have same: "sameRefTips a b \<longleftrightarrow> map ?f ?xs = map ?f ?ys"
    unfolding sameRefTips_def by (simp only: if_bool_eq_conj simp_thms) blast
  show ?thesis
  proof
    assume "sameRefTips a b"
    then have "set (map ?f ?xs) = set (map ?f ?ys)" by (simp only: same)
    then show "tips a = tips b" by (simp add: tips_def)
  next
    assume "tips a = tips b"
    then show "sameRefTips a b" using sorted_names_unique [OF assms(1,2)] by (simp add: same tips_def)
  qed
qed

theorem same_tips_iff_witness:
  "sameRefTips \<lparr>rs_refs = [ref_of demo_ref], rs_head = unborn, rs_byTarget = [], rs_refCountGuardTripped = False, rs_totalRefCount = 1\<rparr>
     \<lparr>rs_refs = [(ref_of demo_ref)\<lparr>ri_ahead := 9\<rparr>], rs_head = unborn, rs_byTarget = [], rs_refCountGuardTripped = True, rs_totalRefCount = 1\<rparr>"
  by (subst same_tips_iff) (simp_all add: tips_def ref_of_def demo_ref_def)

end
