(* ===== verification/GitProcesses.thy ===== *)
theory GitProcesses
  imports GitErrors TextTraits
begin

text \<open>
  \<^verbatim>\<open>src/core/git/GitCommand.h\<close>, \<^verbatim>\<open>GitCommand.cpp\<close> and \<^verbatim>\<open>ProcessRunner.cpp\<close>: a command
  line and its deadlines, the splitting of a byte stream into records, the loop that pumps the pipes
  of a child on a POSIX system, and the outcome of a run. What the operating system answers (spawn,
  poll, read, write, the exit code, the clock) is an argument; a sink is a state-passing function,
  and an empty \<^verbatim>\<open>std::function\<close> is the sink that ignores what it is given. Timeouts are
  milliseconds, readings of the steady clock nanoseconds.
\<close>

section \<open>Commands\<close>

record GitCommand =
  gc_repoDir :: string
  gc_args :: "string list"
  gc_envOverrides :: "(string \<times> string) list"
  gc_stdinData :: "string option"
  gc_timeout :: int
  gc_idleTimeout :: int
  gc_mergeStderrIntoStdout :: bool
  gc_benignExitCodes :: "int list"
  gc_noWindow :: bool

definition git_command :: "string \<Rightarrow> string list \<Rightarrow> GitCommand" where
  "git_command dir arguments =
     \<lparr>gc_repoDir = dir, gc_args = arguments, gc_envOverrides = [], gc_stdinData = None, gc_timeout = 0,
      gc_idleTimeout = 0, gc_mergeStderrIntoStdout = False, gc_benignExitCodes = [], gc_noWindow = True\<rparr>"

definition kNetworkIdle :: int where "kNetworkIdle = 60000"
definition kLocalCeiling :: int where "kLocalCeiling = 300000"

definition isBenignExitCode :: "GitCommand \<Rightarrow> int \<Rightarrow> bool" where
  "isBenignExitCode command code \<longleftrightarrow> code \<in> set (gc_benignExitCodes command)"

definition globalFlags :: "string list" where
  "globalFlags =
     [''-c'', ''core.quotepath=false'', ''-c'', ''color.ui=false'', ''-c'', ''advice.detachedHead=false'',
      ''-c'', ''diff.autoRefreshIndex=false'', ''--no-pager'', ''--no-optional-locks'']"

text \<open>The process-wide multiplier is an argument of the functions that read it.\<close>

definition setTimeoutMultiplier :: "int \<Rightarrow> int \<Rightarrow> int" where
  "setTimeoutMultiplier stored multiplier = (if multiplier < 1 then stored else multiplier)"

definition resetTimeoutMultiplier :: "int \<Rightarrow> int" where
  "resetTimeoutMultiplier stored = 1"

definition scaledTimeout :: "int \<Rightarrow> int \<Rightarrow> int" where
  "scaledTimeout multiplier timeout = timeout * multiplier"

definition isNetworkCommand :: "GitCommand \<Rightarrow> bool" where
  "isNetworkCommand command =
     (case gc_args command of
        [] \<Rightarrow> False
      | sub # rest \<Rightarrow>
          if sub = ''fetch'' \<or> sub = ''pull'' \<or> sub = ''push'' \<or> sub = ''clone'' then True
          else case rest of
                 [] \<Rightarrow> False
               | arg # _ \<Rightarrow>
                   if sub = ''submodule'' then arg = ''update'' \<or> arg = ''add''
                   else if sub = ''lfs'' then arg = ''fetch'' \<or> arg = ''pull'' \<or> arg = ''push''
                   else False)"

definition withTransferProgress :: "GitCommand \<Rightarrow> GitCommand" where
  "withTransferProgress command =
     (if \<not> isNetworkCommand command then command
      else if hd (gc_args command) = ''lfs''
      then command\<lparr>gc_envOverrides := gc_envOverrides command @ [(''GIT_LFS_FORCE_PROGRESS'', ''1'')]\<rparr>
      else let at = (if hd (gc_args command) = ''submodule'' then 2 else 1)
           in command\<lparr>gc_args := take at (gc_args command) @ [''--progress''] @ drop at (gc_args command)\<rparr>)"

record EffectiveDeadlines =
  ed_total :: int
  ed_idle :: int

definition effectiveDeadlines :: "int \<Rightarrow> GitCommand \<Rightarrow> EffectiveDeadlines" where
  "effectiveDeadlines multiplier command =
     (if isNetworkCommand command then \<lparr>ed_total = 0, ed_idle = scaledTimeout multiplier kNetworkIdle\<rparr>
      else let declared = (if gc_timeout command = 0 then kLocalCeiling else min (gc_timeout command) kLocalCeiling)
           in \<lparr>ed_total = scaledTimeout multiplier declared, ed_idle = gc_idleTimeout command\<rparr>)"

definition buildArgv :: "string \<Rightarrow> GitCommand \<Rightarrow> string list" where
  "buildArgv exe command =
     [exe] @ globalFlags @ (if gc_repoDir command \<noteq> [] then [''-C'', gc_repoDir command] else []) @ gc_args command"

section \<open>The environment of a child\<close>

definition equalsAscii :: "bool \<Rightarrow> char \<Rightarrow> char \<Rightarrow> bool" where
  "equalsAscii foldCase a b \<longleftrightarrow>
     (if foldCase \<and> 97 \<le> (of_char a :: nat) \<and> (of_char a :: nat) \<le> 122 then char_of (of_char a - 32 :: nat) else a) = b"

definition trace_starts_with :: "bool \<Rightarrow> string \<Rightarrow> string \<Rightarrow> bool" where
  "trace_starts_with foldCase name prefix \<longleftrightarrow>
     \<not> length name < length prefix \<and> list_all2 (equalsAscii foldCase) (take (length prefix) name) prefix"

definition isGitTraceEnvName :: "bool \<Rightarrow> string \<Rightarrow> bool" where
  "isGitTraceEnvName foldCase name \<longleftrightarrow>
     trace_starts_with foldCase name ''GIT_TRACE'' \<or>
     length name = length ''GIT_CURL_VERBOSE'' \<and> trace_starts_with foldCase name ''GIT_CURL_VERBOSE''"

definition env_name :: "string \<Rightarrow> string" where
  "env_name entry = (case find_char CHR ''='' entry of None \<Rightarrow> entry | Some i \<Rightarrow> take i entry)"

fun replace_entry :: "string \<Rightarrow> string \<Rightarrow> string list \<Rightarrow> string list option" where
  "replace_entry prefix entry [] = None"
| "replace_entry prefix entry (e # es) =
     (if starts_with e prefix then Some (entry # es) else map_option ((#) e) (replace_entry prefix entry es))"

definition setVar :: "string list \<Rightarrow> string \<times> string \<Rightarrow> string list" where
  "setVar entries kv =
     (let prefix = fst kv @ ''=''; entry = prefix @ snd kv
      in case replace_entry prefix entry entries of Some es \<Rightarrow> es | None \<Rightarrow> entries @ [entry])"

definition fixedVars :: "(string \<times> string) list" where
  "fixedVars = [(''GIT_TERMINAL_PROMPT'', ''0''), (''GIT_PAGER'', ''cat''), (''LC_ALL'', ''C'')]"

definition buildEnvironment :: "string list \<Rightarrow> GitCommand \<Rightarrow> string list" where
  "buildEnvironment environ command =
     foldl setVar (filter (\<lambda>e. \<not> isGitTraceEnvName False (env_name e)) environ) (fixedVars @ gc_envOverrides command)"

section \<open>Records of a byte stream\<close>

text \<open>A sink takes its state and a record, and returns whether to go on and its new state.\<close>

type_synonym 's Sink = "'s \<Rightarrow> string \<Rightarrow> bool \<times> 's"

record LineSplitter =
  ls_separator :: char
  ls_pending :: string
  ls_stopped :: bool

definition new_splitter :: "char \<Rightarrow> LineSplitter" where
  "new_splitter separator = \<lparr>ls_separator = separator, ls_pending = [], ls_stopped = False\<rparr>"

definition chomp :: "char \<Rightarrow> string \<Rightarrow> string" where
  "chomp separator r = (if separator = nl \<and> ends_with_char r cr then butlast r else r)"

text \<open>The loop of \<^verbatim>\<open>feed\<close> over what is left of the buffer; the rest is what stays pending.\<close>

function feed_loop :: "char \<Rightarrow> 's Sink \<Rightarrow> string \<Rightarrow> 's \<Rightarrow> bool \<times> string \<times> 's" where
  "feed_loop separator sink rest st =
     (case find_char separator rest of
        None \<Rightarrow> (True, rest, st)
      | Some end' \<Rightarrow>
          (case sink st (chomp separator (take end' rest)) of
             (False, st') \<Rightarrow> (False, rest, st')
           | (True, st') \<Rightarrow> feed_loop separator sink (drop (end' + 1) rest) st'))"
  by auto
termination
  by (relation "measure (\<lambda>(c, k, s, st). length s)") (auto dest: find_char_Some(1))

declare feed_loop.simps [simp del]

text \<open>When the sink stops the loop the buffer is not erased.\<close>

definition feed :: "'s Sink \<Rightarrow> LineSplitter \<Rightarrow> string \<Rightarrow> 's \<Rightarrow> bool \<times> LineSplitter \<times> 's" where
  "feed sink sp chunk st =
     (let pending = ls_pending sp @ chunk
      in case feed_loop (ls_separator sp) sink pending st of
           (True, rest, st') \<Rightarrow> (True, sp\<lparr>ls_pending := rest\<rparr>, st')
         | (False, _, st') \<Rightarrow> (False, sp\<lparr>ls_pending := pending, ls_stopped := True\<rparr>, st'))"

definition splitter_finish :: "'s Sink \<Rightarrow> LineSplitter \<Rightarrow> 's \<Rightarrow> LineSplitter \<times> 's" where
  "splitter_finish sink sp st =
     (if ls_stopped sp \<or> ls_pending sp = [] then (sp, st)
      else (sp\<lparr>ls_pending := []\<rparr>, snd (sink st (chomp (ls_separator sp) (ls_pending sp)))))"

section \<open>Pumping a child\<close>

text \<open>
  What one turn of the loop learns from the system: the clock at the two deadline checks, whether a
  credential prompt is open (with the clock at that moment), the answer of \<^verbatim>\<open>poll\<close>, whether the
  child has been killed meanwhile, and, for each pipe that is ready, the clock and the outcome of the
  one call made on it.
\<close>

datatype ReadOutcome = Bytes string | Eof | ReadAgain | ReadBroken
datatype WriteOutcome = Wrote nat | WriteAgain | WriteBroken
datatype PollAnswer =
  Interrupted | PollFailed | Quiet
  | Ready "(int \<times> ReadOutcome) option" "(int \<times> ReadOutcome) option" "(int \<times> WriteOutcome) option"

record Round =
  rd_totalClock :: int
  rd_idleClock :: int
  rd_prompt :: "int option"
  rd_poll :: PollAnswer
  rd_killed :: bool

record 's Pump =
  pu_stdoutOpen :: bool
  pu_stderrOpen :: bool
  pu_stdinOpen :: bool
  pu_splitter :: LineSplitter
  pu_sink :: 's
  pu_stderrText :: string
  pu_progress :: "string list"
  pu_stdinOffset :: nat
  pu_lastProgress :: int
  pu_timedOut :: bool
  pu_sinkStopped :: bool

text \<open>A turn either goes on or leaves the loop.\<close>

datatype 'a Turn = GoOn 'a | Leave 'a

definition readStdout :: "'s Sink \<Rightarrow> (int \<times> ReadOutcome) option \<Rightarrow> 's Pump \<Rightarrow> 's Pump Turn" where
  "readStdout sink ready p =
     (case ready of
        None \<Rightarrow> GoOn p
      | Some (t, out) \<Rightarrow>
          if \<not> pu_stdoutOpen p then GoOn p
          else case out of
                 Bytes chunk \<Rightarrow>
                   (case feed sink (pu_splitter p) chunk (pu_sink p) of
                      (True, sp, st) \<Rightarrow> GoOn (p\<lparr>pu_lastProgress := t, pu_splitter := sp, pu_sink := st\<rparr>)
                    | (False, sp, st) \<Rightarrow>
                        Leave (p\<lparr>pu_lastProgress := t, pu_splitter := sp, pu_sink := st, pu_sinkStopped := True\<rparr>))
               | ReadAgain \<Rightarrow> GoOn p
               | _ \<Rightarrow> GoOn (p\<lparr>pu_stdoutOpen := False\<rparr>))"

definition readStderr :: "(int \<times> ReadOutcome) option \<Rightarrow> 's Pump \<Rightarrow> 's Pump" where
  "readStderr ready p =
     (case ready of
        None \<Rightarrow> p
      | Some (t, out) \<Rightarrow>
          if \<not> pu_stderrOpen p then p
          else case out of
                 Bytes chunk \<Rightarrow> p\<lparr>pu_lastProgress := t, pu_stderrText := pu_stderrText p @ chunk,
                     pu_progress := pu_progress p @ [chunk]\<rparr>
               | ReadAgain \<Rightarrow> p
               | _ \<Rightarrow> p\<lparr>pu_stderrOpen := False\<rparr>)"

definition writeStdin :: "string option \<Rightarrow> (int \<times> WriteOutcome) option \<Rightarrow> 's Pump \<Rightarrow> 's Pump" where
  "writeStdin stdinData ready p =
     (case ready of
        None \<Rightarrow> p
      | Some (t, out) \<Rightarrow>
          if \<not> pu_stdinOpen p then p
          else case stdinData of
                 None \<Rightarrow> p\<lparr>pu_stdinOpen := False\<rparr>
               | Some text \<Rightarrow>
                   if pu_stdinOffset p \<ge> length text then p\<lparr>pu_stdinOpen := False\<rparr>
                   else let p1 = (case out of
                              Wrote n \<Rightarrow> if n > 0 then p\<lparr>pu_lastProgress := t, pu_stdinOffset := pu_stdinOffset p + n\<rparr> else p
                            | WriteAgain \<Rightarrow> p
                            | WriteBroken \<Rightarrow> p\<lparr>pu_stdinOpen := False\<rparr>)
                        in if pu_stdinOffset p1 \<ge> length text \<and> pu_stdinOpen p1 then p1\<lparr>pu_stdinOpen := False\<rparr> else p1)"

definition pollTurn :: "'s Sink \<Rightarrow> string option \<Rightarrow> Round \<Rightarrow> 's Pump \<Rightarrow> 's Pump Turn" where
  "pollTurn sink stdinData r p =
     (if rd_poll r = Interrupted then GoOn p
      else if rd_poll r = PollFailed then Leave p
      else if rd_killed r then Leave p
      else case rd_poll r of
             Ready out err inp \<Rightarrow>
               (case readStdout sink out p of
                  Leave p' \<Rightarrow> Leave p'
                | GoOn p' \<Rightarrow> GoOn (writeStdin stdinData inp (readStderr err p')))
           | _ \<Rightarrow> GoOn p)"

text \<open>The whole milliseconds left, of which the code asks only whether they are positive.\<close>

definition ms_left :: "int \<Rightarrow> int \<Rightarrow> int \<Rightarrow> int" where
  "ms_left since timeout now = (since + timeout * 1000000 - now) div 1000000"

text \<open>The idle check: an open credential prompt restarts the idle clock and skips the rest of the turn.\<close>

definition turn :: "'s Sink \<Rightarrow> string option \<Rightarrow> int \<Rightarrow> int \<Rightarrow> int \<Rightarrow> Round \<Rightarrow> 's Pump \<Rightarrow> 's Pump Turn" where
  "turn sink stdinData start timeout idleTimeout r p =
     (if timeout > 0 \<and> ms_left start timeout (rd_totalClock r) \<le> 0 then Leave (p\<lparr>pu_timedOut := True\<rparr>)
      else if idleTimeout > 0 \<and> ms_left (pu_lastProgress p) idleTimeout (rd_idleClock r) \<le> 0
      then (case rd_prompt r of
              Some t \<Rightarrow> GoOn (p\<lparr>pu_lastProgress := t\<rparr>)
            | None \<Rightarrow> Leave (p\<lparr>pu_timedOut := True\<rparr>))
      else pollTurn sink stdinData r p)"

text \<open>\<open>None\<close>: the turns given are used up and the loop still waits.\<close>

fun pump_loop :: "'s Sink \<Rightarrow> string option \<Rightarrow> int \<Rightarrow> int \<Rightarrow> int \<Rightarrow> Round list \<Rightarrow> 's Pump \<Rightarrow> 's Pump option" where
  "pump_loop sink stdinData start timeout idleTimeout rs p =
     (if \<not> pu_stdoutOpen p \<and> \<not> pu_stderrOpen p \<and> \<not> pu_stdinOpen p then Some p
      else case rs of
             [] \<Rightarrow> None
           | r # rs' \<Rightarrow>
               (case turn sink stdinData start timeout idleTimeout r p of
                  Leave p' \<Rightarrow> Some p'
                | GoOn p' \<Rightarrow> pump_loop sink stdinData start timeout idleTimeout rs' p'))"

declare pump_loop.simps [simp del]

definition new_pump :: "char \<Rightarrow> bool \<Rightarrow> int \<Rightarrow> 's \<Rightarrow> 's Pump" where
  "new_pump separator wantStdin now st =
     \<lparr>pu_stdoutOpen = True, pu_stderrOpen = True, pu_stdinOpen = wantStdin, pu_splitter = new_splitter separator,
      pu_sink = st, pu_stderrText = [], pu_progress = [], pu_stdinOffset = 0, pu_lastProgress = now,
      pu_timedOut = False, pu_sinkStopped = False\<rparr>"

text \<open>
  What the system answers over the life of one child; the two clock readings are taken before the loop.
  \<^verbatim>\<open>ch_exits\<close>: once the loop is over the child exits sooner or later without being terminated.
\<close>

record Child =
  ch_cancelledBefore :: bool
  ch_spawnError :: "GitError option"
  ch_start :: int
  ch_firstProgress :: int
  ch_rounds :: "Round list"
  ch_exits :: bool
  ch_exitCode :: int
  ch_cancelled :: bool

definition pump :: "'s Sink \<Rightarrow> char \<Rightarrow> string option \<Rightarrow> EffectiveDeadlines \<Rightarrow> Child \<Rightarrow> 's \<Rightarrow> 's Pump option" where
  "pump sink separator stdinData deadlines ch st =
     map_option
       (\<lambda>p. let (sp, st') = splitter_finish sink (pu_splitter p) (pu_sink p) in p\<lparr>pu_splitter := sp, pu_sink := st'\<rparr>)
       (pump_loop sink stdinData (ch_start ch) (ed_total deadlines) (ed_idle deadlines) (ch_rounds ch)
          (new_pump separator (stdinData \<noteq> None) (ch_firstProgress ch) st))"

text \<open>
  \<^verbatim>\<open>wait\<close> blocks until the child is gone, with no deadline of its own. A child the loop or a cancel has
  terminated is gone: \<^verbatim>\<open>terminate\<close> ends with SIGKILL. \<open>None\<close>: the wait never returns.
\<close>

definition childWait :: "Child \<Rightarrow> 's Pump \<Rightarrow> int option" where
  "childWait ch p = (if ch_exits ch \<or> pu_timedOut p \<or> pu_sinkStopped p \<or> ch_cancelled ch then Some (ch_exitCode ch) else None)"

section \<open>Running a command\<close>

record ProcessResult =
  pr_exitCode :: int
  pr_out :: string
  pr_err :: string
  pr_timedOut :: bool
  pr_cancelled :: bool

definition succeeded :: "ProcessResult \<Rightarrow> bool" where
  "succeeded r \<longleftrightarrow> pr_exitCode r = 0 \<and> \<not> pr_timedOut r \<and> \<not> pr_cancelled r"

text \<open>The record of the operation log; its two times are left out.\<close>

record OperationRecord =
  op_repoDir :: string
  op_argv :: "string list"
  op_exitCode :: int
  op_stderrText :: string
  op_cancelled :: bool
  op_timedOut :: bool
  op_benignExit :: bool
  op_id :: nat
  op_running :: bool
  op_timeoutMs :: int
  op_idleTimeoutMs :: int
  op_queuedOperationId :: nat

definition recordRunning :: "nat \<Rightarrow> nat \<Rightarrow> EffectiveDeadlines \<Rightarrow> GitCommand \<Rightarrow> string list \<Rightarrow> OperationRecord" where
  "recordRunning oid queued deadlines command argv =
     \<lparr>op_repoDir = gc_repoDir command, op_argv = argv, op_exitCode = 0, op_stderrText = [], op_cancelled = False,
      op_timedOut = False, op_benignExit = False, op_id = oid, op_running = True, op_timeoutMs = ed_total deadlines,
      op_idleTimeoutMs = ed_idle deadlines, op_queuedOperationId = queued\<rparr>"

definition recordOperation ::
  "nat \<Rightarrow> nat \<Rightarrow> EffectiveDeadlines \<Rightarrow> GitCommand \<Rightarrow> string list \<Rightarrow> string \<Rightarrow> int \<Rightarrow> bool \<Rightarrow> bool \<Rightarrow> bool \<Rightarrow> OperationRecord" where
  "recordOperation oid queued deadlines command argv stderrText exitCode wasCancelled wasTimeout sinkStopped =
     \<lparr>op_repoDir = gc_repoDir command, op_argv = argv, op_exitCode = exitCode, op_stderrText = stderrText,
      op_cancelled = wasCancelled, op_timedOut = wasTimeout,
      op_benignExit = (sinkStopped \<or> isBenignExitCode command exitCode), op_id = oid, op_running = False,
      op_timeoutMs = ed_total deadlines, op_idleTimeoutMs = ed_idle deadlines, op_queuedOperationId = queued\<rparr>"

text \<open>The error of a command that exited with a failure, read from stderr and then from captured stdout.\<close>

definition failureError :: "string \<Rightarrow> int \<Rightarrow> string option \<Rightarrow> string list \<Rightarrow> GitError" where
  "failureError err exitCode capturedStdout argv =
     (let error = classifyGitStderr err exitCode;
          error = (case capturedStdout of
                     None \<Rightarrow> error
                   | Some out \<Rightarrow>
                       if ge_code error = ProcessFailed \<and> out \<noteq> []
                       then let fromStdout = classifyGitStderr out exitCode
                            in if ge_code fromStdout \<noteq> ProcessFailed
                               then error\<lparr>ge_code := ge_code fromStdout, ge_message := ge_message fromStdout,
                                          ge_detail := if err = [] then out else err @ [nl] @ out\<rparr>
                               else error
                       else error)
      in error\<lparr>ge_argv := argv\<rparr>)"

text \<open>
  The parameters: the multiplier, the executable, the ids of the invocation and of the queued
  operation, and how the captured output is read off the sink's state. The result is the sink's state,
  the records logged, and the outcome; \<open>None\<close> when the pump still waits, or the wait for the exit does.
\<close>

definition execute ::
  "int \<Rightarrow> string \<Rightarrow> nat \<Rightarrow> nat \<Rightarrow> GitCommand \<Rightarrow> char \<Rightarrow> 's Sink \<Rightarrow> ('s \<Rightarrow> string option) \<Rightarrow> Child \<Rightarrow> 's \<Rightarrow>
     ('s \<times> OperationRecord list \<times> ProcessResult GitResult) option" where
  "execute multiplier git oid queued requested separator sink capturedStdout ch st =
     (let command = withTransferProgress requested;
          argv = buildArgv git command;
          deadlines = effectiveDeadlines multiplier command
      in if ch_cancelledBefore ch then Some (st, [], Inl cancelled)
         else case ch_spawnError ch of
           Some e \<Rightarrow>
             (let error = e\<lparr>ge_argv := argv\<rparr>
              in Some (st, [recordOperation oid queued deadlines command argv (ge_detail error) (- 1) False False False], Inl error))
         | None \<Rightarrow>
             (case pump sink separator (gc_stdinData command) deadlines ch st of
                None \<Rightarrow> None
              | Some p \<Rightarrow>
                  (case childWait ch p of
                     None \<Rightarrow> None
                   | Some exitCode \<Rightarrow>
                       let err = collapseCarriageReturns (pu_stderrText p);
                           log = [recordRunning oid queued deadlines command argv,
                                  recordOperation oid queued deadlines command argv err exitCode (ch_cancelled ch)
                                    (pu_timedOut p) (pu_sinkStopped p)]
                       in Some (pu_sink p, log,
                            if ch_cancelled ch then Inl cancelled
                            else if pu_timedOut p
                            then Inl ((git_error Timeout ''Git did not finish in time'' err)\<lparr>ge_argv := argv\<rparr>)
                            else if exitCode \<noteq> 0 \<and> \<not> pu_sinkStopped p
                            then Inl (failureError err exitCode (capturedStdout (pu_sink p)) argv)
                            else Inr \<lparr>pr_exitCode = exitCode, pr_out = [], pr_err = err, pr_timedOut = False,
                                      pr_cancelled = False\<rparr>))))"

definition captureSink :: "string Sink" where
  "captureSink output line = (True, output @ line @ [nl])"

text \<open>\<^verbatim>\<open>run\<close>: the output of the command, its records joined by newlines.\<close>

definition run ::
  "int \<Rightarrow> string \<Rightarrow> nat \<Rightarrow> nat \<Rightarrow> GitCommand \<Rightarrow> Child \<Rightarrow> (OperationRecord list \<times> ProcessResult GitResult) option" where
  "run multiplier git oid queued command ch =
     (case execute multiplier git oid queued command nl captureSink Some ch [] of
        None \<Rightarrow> None
      | Some (output, log, Inl e) \<Rightarrow> Some (log, Inl e)
      | Some (output, log, Inr r) \<Rightarrow>
          Some (log, Inr (r\<lparr>pr_out := if ends_with_char output nl then butlast output else output\<rparr>)))"

definition streamSeparated ::
  "int \<Rightarrow> string \<Rightarrow> nat \<Rightarrow> nat \<Rightarrow> GitCommand \<Rightarrow> char \<Rightarrow> 's Sink \<Rightarrow> Child \<Rightarrow> 's \<Rightarrow>
     ('s \<times> OperationRecord list \<times> ProcessResult GitResult) option" where
  "streamSeparated multiplier git oid queued command separator sink ch st =
     execute multiplier git oid queued command separator sink (\<lambda>_. None) ch st"

end
