(* ===== verification/HistoryWalks.thy ===== *)
theory HistoryWalks
  imports GitProcesses GraphPromises
begin

text \<open>
  \<^verbatim>\<open>src/core/git/HistoryProvider.h\<close> and \<^verbatim>\<open>HistoryProvider.cpp\<close>: the arguments of a walk, the
  parser of one line of \<^verbatim>\<open>git rev-list\<close>, and the walk that feeds the lines to the graph builder and
  publishes snapshots on the way. The walk runs on the process runner of \<open>GitProcesses\<close>. What the sink
  reads from outside, the cancellation token and the timer of the first chunk, is a function of the
  number of lines it has been given; the snapshots handed to the chunk sink are collected in order.
\<close>

record HistoryQuery =
  hq_seedRefs :: "string list"
  hq_includeRefs :: "string list"
  hq_excludeRefs :: "string list"
  hq_pathFilter :: "string option"
  hq_grep :: "string option"
  hq_author :: "string option"
  hq_since :: "int option"
  hq_until :: "int option"
  hq_firstParentOnly :: bool
  hq_noMerges :: bool
  hq_includeReflog :: bool
  hq_maxCount :: nat
  hq_trunkTip :: ObjectId

definition toRevListArgs :: "HistoryQuery \<Rightarrow> string list" where
  "toRevListArgs q =
     [''rev-list'', ''--date-order'', ''--parents'', ''--timestamp''] @
     (if hq_firstParentOnly q then [''--first-parent''] else []) @
     (if hq_noMerges q then [''--no-merges''] else []) @
     (if hq_includeReflog q then [''--reflog''] else []) @
     (if hq_maxCount q > 0 then [''--max-count='' @ to_string (hq_maxCount q)] else []) @
     (case hq_author q of Some a \<Rightarrow> [''--author='' @ a] | None \<Rightarrow> []) @
     (case hq_grep q of Some g \<Rightarrow> [''--grep='' @ g, ''--regexp-ignore-case''] | None \<Rightarrow> []) @
     (case hq_since q of Some t \<Rightarrow> [''--since='' @ int_to_string t] | None \<Rightarrow> []) @
     (case hq_until q of Some t \<Rightarrow> [''--until='' @ int_to_string t] | None \<Rightarrow> []) @
     (if hq_includeRefs q \<noteq> [] then hq_includeRefs q else hq_seedRefs q @ [''--all'']) @
     concat (map (\<lambda>ref. [''--not'', ref]) (hq_excludeRefs q)) @
     (case hq_pathFilter q of Some p \<Rightarrow> [''--'', p] | None \<Rightarrow> [])"

definition isLinearWalk :: "HistoryQuery \<Rightarrow> bool" where
  "isLinearWalk q \<longleftrightarrow> length (hq_includeRefs q) = 1 \<and> hq_noMerges q"

definition kFirstChunkRows :: nat where "kFirstChunkRows = 256"
definition kMaxChunkRows :: nat where "kMaxChunkRows = 131072"

section \<open>One line of rev-list\<close>

record RevRecord =
  rr_oid :: ObjectId
  rr_parents :: "ObjectId list"
  rr_commitTime :: nat
  rr_valid :: bool

definition new_record :: RevRecord where
  "new_record = \<lparr>rr_oid = null_oid, rr_parents = [], rr_commitTime = 0, rr_valid = False\<rparr>"

text \<open>\<^verbatim>\<open>nextToken\<close>: the token at the cursor and the line after it.\<close>

definition nextToken :: "string \<Rightarrow> string \<times> string" where
  "nextToken line =
     (let rest = dropWhile (\<lambda>c. c = CHR '' '') line
      in (takeWhile (\<lambda>c. c \<noteq> CHR '' '') rest, dropWhile (\<lambda>c. c \<noteq> CHR '' '') rest))"

lemma nextToken_shorter: "nextToken line = (tok, rest) \<Longrightarrow> tok \<noteq> [] \<Longrightarrow> length rest < length line"
proof -
  assume tok: "nextToken line = (tok, rest)" "tok \<noteq> []"
  let ?l = "dropWhile (\<lambda>c. c = CHR '' '') line"
  have "tok @ rest = ?l" using tok(1) by (auto simp: nextToken_def Let_def)
  then have "length rest < length ?l" using tok(2) by (metis length_append length_greater_0_conv less_add_same_cancel2)
  then show ?thesis using length_dropWhile_le [of _ line] by (meson less_le_trans)
qed

function parseParents :: "string \<Rightarrow> ObjectId list" where
  "parseParents line =
     (case nextToken line of
        (parentText, rest) \<Rightarrow>
          if parentText = [] then []
          else case parseHex null_oid parentText of
                 (True, parent) \<Rightarrow> parent # parseParents rest
               | (False, _) \<Rightarrow> parseParents rest)"
  by auto
termination
  by (relation "measure length") (auto dest: nextToken_shorter [OF sym])

declare parseParents.simps [simp del]

definition parseRevListLine :: "string \<Rightarrow> RevRecord" where
  "parseRevListLine line =
     (if line = [] then new_record
      else case nextToken line of
        (timestamp, rest) \<Rightarrow>
          if timestamp = [] then new_record
          else case fst (from_chars 64 timestamp) of
                 None \<Rightarrow> new_record
               | Some seconds \<Rightarrow>
                   let r = new_record\<lparr>rr_commitTime := if seconds > 0xFFFFFFFF then 0xFFFFFFFF else seconds\<rparr>
                   in case nextToken rest of
                        (oidText, rest') \<Rightarrow>
                          (case parseHex (rr_oid r) oidText of
                             (False, _) \<Rightarrow> r
                           | (True, oid) \<Rightarrow> r\<lparr>rr_oid := oid, rr_parents := parseParents rest', rr_valid := True\<rparr>))"

section \<open>The walk\<close>

record WalkState =
  ws_builder :: GraphBuilder
  ws_malformedLines :: nat
  ws_held :: RevRecord
  ws_nextPublishAt :: nat
  ws_publishedOnce :: bool
  ws_chunks :: "GraphSnapshot list"
  ws_lines :: nat

definition walkOptions :: "HistoryQuery \<Rightarrow> GraphOptions" where
  "walkOptions q = \<lparr>go_maxRows = 2000000, go_trunkTip = hq_trunkTip q\<rparr>"

definition new_walk :: "HistoryQuery \<Rightarrow> WalkState" where
  "new_walk q =
     \<lparr>ws_builder = new_builder (walkOptions q), ws_malformedLines = 0, ws_held = new_record,
      ws_nextPublishAt = kFirstChunkRows, ws_publishedOnce = False, ws_chunks = [], ws_lines = 0\<rparr>"

definition feedRecord :: "HistoryQuery \<Rightarrow> RevRecord \<Rightarrow> WalkState \<Rightarrow> WalkState" where
  "feedRecord q r w =
     (if isLinearWalk q
      then (if rr_valid (ws_held w)
            then w\<lparr>ws_builder := add (ws_builder w) (rr_oid (ws_held w)) [rr_oid r] (rr_commitTime (ws_held w))\<rparr>
            else w)\<lparr>ws_held := r\<rparr>
      else w\<lparr>ws_builder := add (ws_builder w) (rr_oid r) (rr_parents r) (rr_commitTime r)\<rparr>)"

text \<open>The second half of the sink: publish when the threshold is reached, or once on the timer.\<close>

definition publishChunk :: "bool \<Rightarrow> WalkState \<Rightarrow> WalkState" where
  "publishChunk late w =
     (let rows = length (rows_of (ws_builder w))
      in if rows \<ge> ws_nextPublishAt w \<or> (\<not> ws_publishedOnce w \<and> late \<and> rows > 0)
         then w\<lparr>ws_chunks := ws_chunks w @ [snapshot (ws_builder w)], ws_publishedOnce := True,
                ws_nextPublishAt := rows + min (max rows kFirstChunkRows) kMaxChunkRows\<rparr>
         else w)"

definition walkSink :: "HistoryQuery \<Rightarrow> (nat \<Rightarrow> bool) \<Rightarrow> (nat \<Rightarrow> bool) \<Rightarrow> WalkState Sink" where
  "walkSink q cancelledAt lateAt w line =
     (let n = ws_lines w; w = w\<lparr>ws_lines := n + 1\<rparr>
      in if cancelledAt n then (False, w)
         else let r = parseRevListLine line
              in if \<not> rr_valid r then (True, w\<lparr>ws_malformedLines := ws_malformedLines w + 1\<rparr>)
                 else let w = feedRecord q r w
                      in if gs_truncated (gb_snapshot (ws_builder w)) then (False, w)
                         else (True, publishChunk (lateAt n) w))"

definition endWalk :: "HistoryQuery \<Rightarrow> WalkState \<Rightarrow> GraphBuilder" where
  "endWalk q w =
     (let b = (if isLinearWalk q \<and> rr_valid (ws_held w)
               then add (ws_builder w) (rr_oid (ws_held w)) (rr_parents (ws_held w)) (rr_commitTime (ws_held w))
               else ws_builder w);
          b = (if hq_maxCount q > 0 \<and> length (rows_of b) \<ge> hq_maxCount q then markTruncated b else b)
      in finish b)"

text \<open>
  The result: the snapshots handed to the chunk sink, the number of skipped lines that is logged, and
  the outcome. \<open>None\<close> when the runner still waits for git.
\<close>

definition walk ::
  "int \<Rightarrow> string \<Rightarrow> nat \<Rightarrow> nat \<Rightarrow> string \<Rightarrow> HistoryQuery \<Rightarrow> (nat \<Rightarrow> bool) \<Rightarrow> (nat \<Rightarrow> bool) \<Rightarrow> Child \<Rightarrow>
     (GraphSnapshot list \<times> nat \<times> GraphSnapshot GitResult) option" where
  "walk multiplier git oid queued commandDir q cancelledAt lateAt ch =
     (case streamSeparated multiplier git oid queued (git_command commandDir (toRevListArgs q)) nl
             (walkSink q cancelledAt lateAt) ch (new_walk q) of
        None \<Rightarrow> None
      | Some (w, _, Inl e) \<Rightarrow> Some (ws_chunks w, 0, Inl e)
      | Some (w, _, Inr _) \<Rightarrow>
          (let final = snapshot (endWalk q w)
           in Some (ws_chunks w @ [final], ws_malformedLines w, Inr final)))"

end
