(* ===== verification/ProcessPromises.thy ===== *)
theory ProcessPromises
  imports GitProcesses
begin

text \<open>
  What running a git command guarantees: the records a sink is given depend on the bytes of the
  child alone, never on how the pipe cut them; a run ends by its deadline; the outcome tells failure,
  cancellation and timeout apart; and the child's environment is exactly what the code set.
\<close>

section \<open>Records\<close>

text \<open>The reference: the pieces of a text between separators, the last one without a separator after it.\<close>

fun pieces :: "char \<Rightarrow> string \<Rightarrow> string list" where
  "pieces sep [] = [[]]"
| "pieces sep (c # cs) = (if c = sep then [] # pieces sep cs else (c # hd (pieces sep cs)) # tl (pieces sep cs))"

fun deliver :: "'s Sink \<Rightarrow> string list \<Rightarrow> 's \<Rightarrow> bool \<times> 's" where
  "deliver sink [] st = (True, st)"
| "deliver sink (r # rs) st = (case sink st r of (False, st') \<Rightarrow> (False, st') | (True, st') \<Rightarrow> deliver sink rs st')"

definition complete_records :: "char \<Rightarrow> string \<Rightarrow> string list" where
  "complete_records sep s = map (chomp sep) (butlast (pieces sep s))"

definition rest_of :: "char \<Rightarrow> string \<Rightarrow> string" where
  "rest_of sep s = last (pieces sep s)"

definition stream_records :: "char \<Rightarrow> string \<Rightarrow> string list" where
  "stream_records sep s = complete_records sep s @ (if rest_of sep s = [] then [] else [chomp sep (rest_of sep s)])"

lemma pieces_nonempty [simp]: "pieces sep s \<noteq> []"
  by (induction s) simp_all

lemma pieces_notin: "sep \<notin> set a \<Longrightarrow> pieces sep a = [a]"
  by (induction a) auto

lemma pieces_cut: "sep \<notin> set a \<Longrightarrow> pieces sep (a @ sep # b) = a # pieces sep b"
  by (induction a) auto

lemma pieces_append: "pieces sep (a @ b) = butlast (pieces sep a) @ pieces sep (rest_of sep a @ b)"
proof (induction a)
  case Nil
  then show ?case by (simp add: rest_of_def)
next
  case (Cons c a)
  obtain q qs where qs: "pieces sep a = q # qs" using pieces_nonempty by (cases "pieces sep a") auto
  have rest: "rest_of sep (c # a) = (if c \<noteq> sep \<and> qs = [] then c # q else rest_of sep a)" and here: "qs = [] \<Longrightarrow> rest_of sep a = q"
    by (simp_all add: rest_of_def qs)
  show ?case
  proof (cases "c \<noteq> sep \<and> qs = []")
    case True
    then show ?thesis using Cons.IH by (simp add: rest qs here)
  next
    case False
    then show ?thesis using Cons.IH by (auto simp: rest qs)
  qed
qed

lemma complete_records_append: "complete_records sep (a @ b) = complete_records sep a @ complete_records sep (rest_of sep a @ b)"
  unfolding complete_records_def by (subst pieces_append) (simp add: butlast_append)

lemma rest_of_append: "rest_of sep (a @ b) = rest_of sep (rest_of sep a @ b)"
  unfolding rest_of_def by (subst pieces_append) (simp add: rest_of_def)

lemma deliver_append:
  "deliver sink (xs @ ys) st = (case deliver sink xs st of (False, st') \<Rightarrow> (False, st') | (True, st') \<Rightarrow> deliver sink ys st')"
  by (induction xs arbitrary: st) (auto split: prod.splits bool.splits)

lemma feed_loop_eq:
  "fst (feed_loop sep sink s st) = fst (deliver sink (complete_records sep s) st) \<and>
   snd (snd (feed_loop sep sink s st)) = snd (deliver sink (complete_records sep s) st) \<and>
   (fst (feed_loop sep sink s st) \<longrightarrow> fst (snd (feed_loop sep sink s st)) = rest_of sep s)"
proof (induction sep sink s st rule: feed_loop.induct)
  case (1 sep sink s st)
  show ?case
  proof (cases "find_char sep s")
    case None
    then have "pieces sep s = [s]" by (simp add: find_char_None pieces_notin)
    with None show ?thesis by (simp add: feed_loop.simps complete_records_def rest_of_def)
  next
    case (Some e)
    have cut: "pieces sep s = take e s # pieces sep (drop (Suc e) s)"
      using find_char_split [OF Some] find_char_Some(3) [OF Some] pieces_cut by metis
    obtain go st' where sink: "sink st (chomp sep (take e s)) = (go, st')" by (cases "sink st (chomp sep (take e s))")
    show ?thesis
    proof (cases go)
      case True
      with Some sink have "feed_loop sep sink s st = feed_loop sep sink (drop (Suc e) s) st'"
        by (subst feed_loop.simps) simp
      moreover have "deliver sink (complete_records sep s) st = deliver sink (complete_records sep (drop (Suc e) s)) st'"
        using True sink cut by (simp add: complete_records_def)
      moreover have "rest_of sep s = rest_of sep (drop (Suc e) s)" using cut by (simp add: rest_of_def)
      ultimately show ?thesis using 1 [OF Some, of True st'] sink True by simp
    next
      case False
      then show ?thesis using Some sink cut by (simp add: feed_loop.simps complete_records_def)
    qed
  qed
qed

text \<open>The state of a splitter and its sink after the bytes \<open>seen\<close>, while nothing has stopped it.\<close>

definition after :: "'s Sink \<Rightarrow> char \<Rightarrow> 's \<Rightarrow> string \<Rightarrow> LineSplitter \<Rightarrow> 's \<Rightarrow> bool" where
  "after sink sep st0 seen sp st \<longleftrightarrow>
     sp = \<lparr>ls_separator = sep, ls_pending = rest_of sep seen, ls_stopped = False\<rparr> \<and>
     deliver sink (complete_records sep seen) st0 = (True, st)"

lemma after_new: "after sink sep st [] (new_splitter sep) st"
  by (simp add: after_def new_splitter_def rest_of_def complete_records_def)

lemma feed_after:
  assumes "after sink sep st0 seen sp st" "feed sink sp chunk st = (go, sp', st')"
  shows "if go then after sink sep st0 (seen @ chunk) sp' st'
    else ls_stopped sp' \<and> deliver sink (complete_records sep (seen @ chunk)) st0 = (False, st')"
proof -
  let ?s = "rest_of sep seen @ chunk"
  obtain go' rest st'' where loop: "feed_loop sep sink ?s st = (go', rest, st'')" by (cases "feed_loop sep sink ?s st") auto
  have "deliver sink (complete_records sep (seen @ chunk)) st0 = deliver sink (complete_records sep ?s) st"
    using assms(1) by (simp add: complete_records_append [of sep seen] deliver_append after_def)
  then have "deliver sink (complete_records sep (seen @ chunk)) st0 = (go', st'')" "go' \<longrightarrow> rest = rest_of sep (seen @ chunk)"
    using feed_loop_eq [of sep sink ?s st] rest_of_append [of sep seen chunk] loop by (auto simp: prod_eq_iff)
  then show ?thesis using assms loop by (cases go') (auto simp: feed_def after_def)
qed

lemma finish_after:
  assumes "after sink sep st0 seen sp st"
  shows "snd (splitter_finish sink sp st) = snd (deliver sink (stream_records sep seen) st0)"
  using assms by (auto simp: after_def splitter_finish_def stream_records_def deliver_append split: prod.splits bool.splits)

text \<open>A refusal among the complete records decides what the sink has seen, whatever follows.\<close>

lemma deliver_refused:
  assumes "deliver sink (complete_records sep seen) st0 = (False, st)"
  shows "deliver sink (stream_records sep (seen @ later)) st0 = (False, st)" "fst (deliver sink (complete_records sep (seen @ later)) st0) = False"
  using assms by (simp_all add: stream_records_def complete_records_append [of sep seen] deliver_append)

section \<open>The pump\<close>

text \<open>The bytes a child writes to a pipe before it closes it.\<close>

fun stdout_of :: "Round list \<Rightarrow> string" where
  "stdout_of [] = []"
| "stdout_of (r # rs) =
     (case rd_poll r of
        Ready (Some (t, Bytes b)) _ _ \<Rightarrow> b @ stdout_of rs
      | Ready (Some (t, ReadAgain)) _ _ \<Rightarrow> stdout_of rs
      | Ready (Some (t, _)) _ _ \<Rightarrow> []
      | _ \<Rightarrow> stdout_of rs)"

fun stderr_of :: "Round list \<Rightarrow> string" where
  "stderr_of [] = []"
| "stderr_of (r # rs) =
     (case rd_poll r of
        Ready _ (Some (t, Bytes b)) _ \<Rightarrow> b @ stderr_of rs
      | Ready _ (Some (t, ReadAgain)) _ \<Rightarrow> stderr_of rs
      | Ready _ (Some (t, _)) _ \<Rightarrow> []
      | _ \<Rightarrow> stderr_of rs)"

text \<open>A child left alone: neither deadline passes in any turn, no poll fails, and nobody kills it.\<close>

definition undisturbed :: "int \<Rightarrow> int \<Rightarrow> int \<Rightarrow> Round \<Rightarrow> 's Pump \<Rightarrow> bool" where
  "undisturbed start timeout idle r p \<longleftrightarrow>
     (timeout > 0 \<longrightarrow> ms_left start timeout (rd_totalClock r) > 0) \<and>
     (idle > 0 \<longrightarrow> ms_left (pu_lastProgress p) idle (rd_idleClock r) > 0) \<and>
     rd_poll r \<noteq> PollFailed \<and> \<not> rd_killed r"

fun left_alone :: "'s Sink \<Rightarrow> string option \<Rightarrow> int \<Rightarrow> int \<Rightarrow> int \<Rightarrow> Round list \<Rightarrow> 's Pump \<Rightarrow> bool" where
  "left_alone sink inp start timeout idle [] p \<longleftrightarrow> True"
| "left_alone sink inp start timeout idle (r # rs) p \<longleftrightarrow>
     undisturbed start timeout idle r p \<and>
     (case turn sink inp start timeout idle r p of GoOn p' \<Rightarrow> left_alone sink inp start timeout idle rs p' | Leave _ \<Rightarrow> True)"

lemma writeStdin_frame [simp]:
  "pu_stdoutOpen (writeStdin inp ready p) = pu_stdoutOpen p" "pu_stderrOpen (writeStdin inp ready p) = pu_stderrOpen p"
  "pu_splitter (writeStdin inp ready p) = pu_splitter p" "pu_sink (writeStdin inp ready p) = pu_sink p"
  "pu_stderrText (writeStdin inp ready p) = pu_stderrText p" "pu_timedOut (writeStdin inp ready p) = pu_timedOut p"
  "pu_sinkStopped (writeStdin inp ready p) = pu_sinkStopped p"
  by (auto simp: writeStdin_def Let_def split: option.splits prod.splits WriteOutcome.splits)

lemma readStderr_frame [simp]:
  "pu_stdoutOpen (readStderr ready p) = pu_stdoutOpen p" "pu_splitter (readStderr ready p) = pu_splitter p"
  "pu_sink (readStderr ready p) = pu_sink p" "pu_timedOut (readStderr ready p) = pu_timedOut p"
  "pu_sinkStopped (readStderr ready p) = pu_sinkStopped p"
  by (auto simp: readStderr_def split: option.splits prod.splits ReadOutcome.splits)

text \<open>
  Between turns: the splitter has seen some bytes and stderr holds some, and what the child has still
  to say comes after them.
\<close>

definition pumping :: "'s Sink \<Rightarrow> char \<Rightarrow> 's \<Rightarrow> string \<Rightarrow> string \<Rightarrow> Round list \<Rightarrow> 's Pump \<Rightarrow> bool" where
  "pumping sink sep st0 out err rs p \<longleftrightarrow>
     (\<exists>seen. after sink sep st0 seen (pu_splitter p) (pu_sink p) \<and> out = seen @ (if pu_stdoutOpen p then stdout_of rs else [])) \<and>
     err = pu_stderrText p @ (if pu_stderrOpen p then stderr_of rs else []) \<and> \<not> pu_timedOut p \<and> \<not> pu_sinkStopped p"

definition pumped :: "'s Sink \<Rightarrow> char \<Rightarrow> 's \<Rightarrow> string \<Rightarrow> 's Pump \<Rightarrow> bool" where
  "pumped sink sep st0 out p \<longleftrightarrow>
     \<not> pu_timedOut p \<and> pu_sinkStopped p \<and> ls_stopped (pu_splitter p) \<and>
     deliver sink (stream_records sep out) st0 = (False, pu_sink p) \<and> \<not> fst (deliver sink (complete_records sep out) st0)"

lemma readStdout_pumping:
  assumes "pumping sink sep st0 out err (r # rs) p" "rd_poll r = Ready o' e i"
  shows "case readStdout sink o' p of
      GoOn p' \<Rightarrow> (\<exists>seen. after sink sep st0 seen (pu_splitter p') (pu_sink p') \<and> out = seen @ (if pu_stdoutOpen p' then stdout_of rs else [])) \<and>
        pu_stderrOpen p' = pu_stderrOpen p \<and> pu_stderrText p' = pu_stderrText p \<and> \<not> pu_timedOut p' \<and> \<not> pu_sinkStopped p'
    | Leave p' \<Rightarrow> pumped sink sep st0 out p'"
proof -
  obtain seen where seen: "after sink sep st0 seen (pu_splitter p) (pu_sink p)"
    "out = seen @ (if pu_stdoutOpen p then stdout_of (r # rs) else [])" using assms(1) by (auto simp: pumping_def)
  have flags: "\<not> pu_timedOut p" "\<not> pu_sinkStopped p" using assms(1) by (auto simp: pumping_def)
  show ?thesis
  proof (cases "\<exists>t b. o' = Some (t, Bytes b) \<and> pu_stdoutOpen p")
    case True
    then obtain t b where o': "o' = Some (t, Bytes b)" "pu_stdoutOpen p" by blast
    obtain go sp st where f: "feed sink (pu_splitter p) b (pu_sink p) = (go, sp, st)" by (cases "feed sink (pu_splitter p) b (pu_sink p)")
    have out: "out = (seen @ b) @ stdout_of rs" using seen(2) o' assms(2) by simp
    show ?thesis
    proof (cases go)
      case True
      then show ?thesis using feed_after [OF seen(1) f] o' f out flags by (auto simp: readStdout_def)
    next
      case False
      then have "deliver sink (complete_records sep (seen @ b)) st0 = (False, st)" "ls_stopped sp" using feed_after [OF seen(1) f] by auto
      then show ?thesis using deliver_refused [of sink sep "seen @ b" st0 st "stdout_of rs"] o' f out flags False
        by (simp add: readStdout_def pumped_def)
    qed
  next
    case False
    then show ?thesis using seen flags assms(2)
      by (auto simp: readStdout_def split: option.splits prod.splits ReadOutcome.splits)
  qed
qed

lemma turn_pumping:
  assumes "pumping sink sep st0 out err (r # rs) p" "undisturbed start timeout idle r p"
  shows "case turn sink inp start timeout idle r p of
      GoOn p' \<Rightarrow> pumping sink sep st0 out err rs p'
    | Leave p' \<Rightarrow> pumped sink sep st0 out p'"
proof -
  have poll: "turn sink inp start timeout idle r p = pollTurn sink inp r p" "\<not> rd_killed r"
    using assms(2) by (auto simp: turn_def undisturbed_def)
  show ?thesis
  proof (cases "rd_poll r")
    case (Ready o' e i)
    have turn: "turn sink inp start timeout idle r p =
        (case readStdout sink o' p of Leave p' \<Rightarrow> Leave p' | GoOn p' \<Rightarrow> GoOn (writeStdin inp i (readStderr e p')))"
      using poll Ready by (simp add: pollTurn_def)
    show ?thesis
    proof (cases "readStdout sink o' p")
      case (GoOn p')
      moreover have "err = pu_stderrText p @ (if pu_stderrOpen p then stderr_of (r # rs) else [])" using assms(1) by (simp add: pumping_def)
      ultimately have "err = pu_stderrText (readStderr e p') @ (if pu_stderrOpen (readStderr e p') then stderr_of rs else [])"
        using readStdout_pumping [OF assms(1) Ready] Ready
        by (auto simp: readStderr_def split: option.splits prod.splits ReadOutcome.splits)
      with GoOn show ?thesis using readStdout_pumping [OF assms(1) Ready] by (simp add: turn pumping_def)
    next
      case (Leave p')
      then show ?thesis using readStdout_pumping [OF assms(1) Ready] by (simp add: turn)
    qed
  qed (use assms poll in \<open>auto simp: pollTurn_def pumping_def undisturbed_def\<close>)
qed

lemma pump_loop_turn:
  "pu_stdoutOpen p \<or> pu_stderrOpen p \<or> pu_stdinOpen p \<Longrightarrow>
   pump_loop sink inp start timeout idle (r # rs) p =
     (case turn sink inp start timeout idle r p of
        Leave p' \<Rightarrow> Some p' | GoOn p' \<Rightarrow> pump_loop sink inp start timeout idle rs p')"
  by (subst pump_loop.simps) auto

lemma pump_loop_exact:
  assumes "pumping sink sep st0 out err rs p" "left_alone sink inp start timeout idle rs p"
    and "pump_loop sink inp start timeout idle rs p = Some q"
  shows "pumped sink sep st0 out q \<or> pumping sink sep st0 out err [] q \<and> \<not> pu_stdoutOpen q \<and> \<not> pu_stderrOpen q"
  using assms
proof (induction rs arbitrary: p)
  case Nil
  then show ?case by (auto simp: pump_loop.simps split: if_splits)
next
  case (Cons r rs)
  show ?case
  proof (cases "pu_stdoutOpen p \<or> pu_stderrOpen p \<or> pu_stdinOpen p")
    case True
    have turn: "case turn sink inp start timeout idle r p of
        GoOn p' \<Rightarrow> pumping sink sep st0 out err rs p' | Leave p' \<Rightarrow> pumped sink sep st0 out p'"
      using turn_pumping [OF Cons.prems(1)] Cons.prems(2) by auto
    show ?thesis
    proof (cases "turn sink inp start timeout idle r p")
      case (GoOn p')
      then show ?thesis using Cons.prems turn Cons.IH [of p'] by (simp add: pump_loop_turn [OF True])
    next
      case (Leave p')
      then show ?thesis using Cons.prems turn by (simp add: pump_loop_turn [OF True])
    qed
  next
    case False
    then have "q = p" using Cons.prems(3) by (simp add: pump_loop.simps)
    then show ?thesis using False Cons.prems(1) by (simp add: pumping_def)
  qed
qed

lemma pump_exact:
  assumes "left_alone sink inp (ch_start ch) (ed_total dl) (ed_idle dl) (ch_rounds ch) (new_pump sep (inp \<noteq> None) (ch_firstProgress ch) st)"
    and "pump sink sep inp dl ch st = Some p"
  shows "\<not> pu_timedOut p" "pu_sink p = snd (deliver sink (stream_records sep (stdout_of (ch_rounds ch))) st)"
    "pu_sinkStopped p \<longleftrightarrow> \<not> fst (deliver sink (complete_records sep (stdout_of (ch_rounds ch))) st)"
    "\<not> pu_sinkStopped p \<Longrightarrow> pu_stderrText p = stderr_of (ch_rounds ch)"
proof -
  let ?out = "stdout_of (ch_rounds ch)" and ?err = "stderr_of (ch_rounds ch)" and ?p0 = "new_pump sep (inp \<noteq> None) (ch_firstProgress ch) st"
  have start: "pumping sink sep st ?out ?err (ch_rounds ch) ?p0"
    using after_new [of sink sep st] by (auto simp: pumping_def new_pump_def)
  obtain q where q: "pump_loop sink inp (ch_start ch) (ed_total dl) (ed_idle dl) (ch_rounds ch) ?p0 = Some q"
    and p: "p = q\<lparr>pu_splitter := fst (splitter_finish sink (pu_splitter q) (pu_sink q)), pu_sink := snd (splitter_finish sink (pu_splitter q) (pu_sink q))\<rparr>"
    using assms(2) by (auto simp: pump_def case_prod_beta)
  have "\<not> pu_timedOut p \<and> pu_sink p = snd (deliver sink (stream_records sep ?out) st) \<and>
    (pu_sinkStopped p \<longleftrightarrow> \<not> fst (deliver sink (complete_records sep ?out) st)) \<and> (\<not> pu_sinkStopped p \<longrightarrow> pu_stderrText p = ?err)"
    using pump_loop_exact [OF start assms(1) q]
  proof
    assume "pumped sink sep st ?out q"
    then show ?thesis by (auto simp: p pumped_def splitter_finish_def)
  next
    assume "pumping sink sep st ?out ?err [] q \<and> \<not> pu_stdoutOpen q \<and> \<not> pu_stderrOpen q"
    then have q: "after sink sep st ?out (pu_splitter q) (pu_sink q)" "pu_stderrText q = ?err" "\<not> pu_timedOut q" "\<not> pu_sinkStopped q"
      by (auto simp: pumping_def)
    then show ?thesis using finish_after [OF q(1)] by (simp add: p after_def)
  qed
  then show "\<not> pu_timedOut p" "pu_sink p = snd (deliver sink (stream_records sep ?out) st)"
    "pu_sinkStopped p \<longleftrightarrow> \<not> fst (deliver sink (complete_records sep ?out) st)" "\<not> pu_sinkStopped p \<Longrightarrow> pu_stderrText p = ?err"
    by auto
qed

section \<open>Outcomes\<close>

text \<open>A child that is spawned and left alone for a command, under the deadlines the command runs with.\<close>

definition runs_alone :: "int \<Rightarrow> GitCommand \<Rightarrow> char \<Rightarrow> 's Sink \<Rightarrow> Child \<Rightarrow> 's \<Rightarrow> bool" where
  "runs_alone multiplier requested sep sink ch st \<longleftrightarrow>
     (let command = withTransferProgress requested; dl = effectiveDeadlines multiplier command
      in \<not> ch_cancelledBefore ch \<and> \<not> ch_cancelled ch \<and> ch_spawnError ch = None \<and>
         left_alone sink (gc_stdinData command) (ch_start ch) (ed_total dl) (ed_idle dl) (ch_rounds ch)
           (new_pump sep (gc_stdinData command \<noteq> None) (ch_firstProgress ch) st))"

lemma childWait_code: "childWait ch p = Some code \<Longrightarrow> code = ch_exitCode ch"
  by (simp add: childWait_def split: if_splits)

lemma execute_alone:
  assumes "runs_alone multiplier command sep sink ch st"
    and "execute multiplier git oid queued command sep sink cap ch st = Some (st', log, res)"
  shows "st' = snd (deliver sink (stream_records sep (stdout_of (ch_rounds ch))) st)"
    "fst (deliver sink (complete_records sep (stdout_of (ch_rounds ch))) st) \<Longrightarrow>
       res = (let err = collapseCarriageReturns (stderr_of (ch_rounds ch))
              in if ch_exitCode ch \<noteq> 0
                 then Inl (failureError err (ch_exitCode ch) (cap st') (buildArgv git (withTransferProgress command)))
                 else Inr \<lparr>pr_exitCode = 0, pr_out = [], pr_err = err, pr_timedOut = False, pr_cancelled = False\<rparr>)"
    "\<not> fst (deliver sink (complete_records sep (stdout_of (ch_rounds ch))) st) \<Longrightarrow> \<exists>r. res = Inr r"
proof -
  let ?c = "withTransferProgress command"
  let ?dl = "effectiveDeadlines multiplier ?c"
  have alone: "left_alone sink (gc_stdinData ?c) (ch_start ch) (ed_total ?dl) (ed_idle ?dl) (ch_rounds ch)
      (new_pump sep (gc_stdinData ?c \<noteq> None) (ch_firstProgress ch) st)"
    and flags: "\<not> ch_cancelledBefore ch" "\<not> ch_cancelled ch" "ch_spawnError ch = None"
    using assms(1) by (simp_all add: runs_alone_def Let_def)
  obtain p where p: "pump sink sep (gc_stdinData ?c) ?dl ch st = Some p"
    and wait: "childWait ch p = Some (ch_exitCode ch)"
    using assms(2) flags by (auto simp: execute_def Let_def dest: childWait_code split: option.splits)
  note exact = pump_exact [OF alone p]
  show "st' = snd (deliver sink (stream_records sep (stdout_of (ch_rounds ch))) st)"
    using assms(2) flags p wait exact by (auto simp: execute_def Let_def)
  show "fst (deliver sink (complete_records sep (stdout_of (ch_rounds ch))) st) \<Longrightarrow>
       res = (let err = collapseCarriageReturns (stderr_of (ch_rounds ch))
              in if ch_exitCode ch \<noteq> 0
                 then Inl (failureError err (ch_exitCode ch) (cap st') (buildArgv git ?c))
                 else Inr \<lparr>pr_exitCode = 0, pr_out = [], pr_err = err, pr_timedOut = False, pr_cancelled = False\<rparr>)"
    using assms(2) flags p wait exact by (auto simp: execute_def Let_def)
  show "\<exists>r. res = Inr r" if "\<not> fst (deliver sink (complete_records sep (stdout_of (ch_rounds ch))) st)"
    using assms(2) flags p wait exact that by (auto simp: execute_def Let_def)
qed

text \<open>
  C6. What a command's output means never depends on how the pipe delivered it: whatever
  pieces stdout arrives in and however they interleave with stderr and stdin, the sink is given
  exactly the records between separators, in order, up to the one it refuses; a refusal is a
  success, and otherwise the run succeeds exactly if git exited with 0 and fails with the error read
  from the whole of stderr.
\<close>

theorem stream_exact:
  assumes "runs_alone multiplier command sep sink ch st"
    and "streamSeparated multiplier git oid queued command sep sink ch st = Some (st', log, res)"
  shows "st' = snd (deliver sink (stream_records sep (stdout_of (ch_rounds ch))) st) \<and>
    ((\<exists>r. res = Inr r) \<longleftrightarrow> ch_exitCode ch = 0 \<or> \<not> fst (deliver sink (complete_records sep (stdout_of (ch_rounds ch))) st)) \<and>
    (\<forall>e. res = Inl e \<longrightarrow> e = failureError (collapseCarriageReturns (stderr_of (ch_rounds ch))) (ch_exitCode ch) None
       (buildArgv git (withTransferProgress command)))"
  using execute_alone [OF assms(1) assms(2) [unfolded streamSeparated_def]]
  by (cases "fst (deliver sink (complete_records sep (stdout_of (ch_rounds ch))) st)") (auto simp: Let_def)

text \<open>A child that prints two records in three pieces cut anywhere, then exits.\<close>

definition demo_round :: "int \<Rightarrow> PollAnswer \<Rightarrow> Round" where
  "demo_round t a = \<lparr>rd_totalClock = t, rd_idleClock = t, rd_prompt = None, rd_poll = a, rd_killed = False\<rparr>"

definition demo_child :: Child where
  "demo_child = \<lparr>ch_cancelledBefore = False, ch_spawnError = None, ch_start = 0, ch_firstProgress = 0,
     ch_rounds = [demo_round 1 (Ready (Some (1, Bytes ''a'')) None None), demo_round 2 Quiet,
                  demo_round 3 (Ready (Some (3, Bytes [CHR ''b'', nl])) (Some (3, Bytes ''warn'')) None),
                  demo_round 4 (Ready (Some (4, Bytes ''c'')) (Some (4, Eof)) None), demo_round 5 (Ready (Some (5, Eof)) None None)],
     ch_exits = True, ch_exitCode = 0, ch_cancelled = False\<rparr>"

definition collect :: "string list Sink" where
  "collect st r = (True, st @ [r])"

lemmas demo_run = demo_child_def demo_round_def collect_def execute_def childWait_def pump_def new_pump_def new_splitter_def pump_loop.simps
  turn_def pollTurn_def readStdout_def readStderr_def writeStdin_def feed_def feed_loop.simps splitter_finish_def chomp_def
  ms_left_def ends_with_char_def withTransferProgress_def isNetworkCommand_def effectiveDeadlines_def scaledTimeout_def
  kLocalCeiling_def git_command_def runs_alone_def undisturbed_def captureSink_def

theorem stream_exact_witness:
  "\<exists>log res. streamSeparated 1 ''git'' 7 0 (git_command ''r'' [''status'']) nl collect demo_child [] = Some ([''ab'', ''c''], log, Inr res)"
proof -
  let ?cmd = "git_command ''r'' [''status'']"
  have alone: "runs_alone 1 ?cmd nl collect demo_child []" by (simp add: demo_run)
  obtain st' log res where run: "streamSeparated 1 ''git'' 7 0 ?cmd nl collect demo_child [] = Some (st', log, res)"
    by (simp add: streamSeparated_def demo_run Let_def)
  have "stdout_of (ch_rounds demo_child) = ''ab'' @ [nl] @ ''c''" by (simp add: demo_run)
  with stream_exact [OF alone run] have "st' = [''ab'', ''c''] \<and> (\<exists>r. res = Inr r)"
    by (simp add: stream_records_def complete_records_def rest_of_def demo_run)
  with run show ?thesis by blast
qed

section \<open>Captured output\<close>

lemma deliver_capture: "deliver captureSink rs st = (True, st @ concat (map (\<lambda>r. r @ [nl]) rs))"
  by (induction rs arbitrary: st) (simp_all add: captureSink_def)

lemma chomp_id: "cr \<notin> set r \<Longrightarrow> chomp sep r = r"
  by (metis chomp_def ends_with_char_def last_in_set)

lemma pieces_concat: "concat (map (\<lambda>r. r @ [sep]) (butlast (pieces sep s))) @ rest_of sep s = s"
proof (induction s)
  case (Cons c s)
  obtain q qs where "pieces sep s = q # qs" using pieces_nonempty by (cases "pieces sep s") auto
  with Cons show ?case by (cases qs) (auto simp: rest_of_def)
qed (simp add: rest_of_def)

lemma set_pieces: "p \<in> set (pieces sep s) \<Longrightarrow> set p \<subseteq> set s"
proof (induction s arbitrary: p)
  case (Cons c s)
  obtain q qs where "pieces sep s = q # qs" using pieces_nonempty by (cases "pieces sep s") auto
  with Cons show ?case by (fastforce split: if_splits)
qed simp

lemma sep_notin_rest: "sep \<notin> set (rest_of sep s)"
proof (induction s)
  case (Cons c s)
  obtain q qs where "pieces sep s = q # qs" using pieces_nonempty by (cases "pieces sep s") auto
  with Cons show ?case by (cases qs) (auto simp: rest_of_def)
qed (simp add: rest_of_def)

lemma stream_records_concat:
  assumes "cr \<notin> set s"
  shows "concat (map (\<lambda>r. r @ [nl]) (stream_records nl s)) = (if s = [] \<or> last s = nl then s else s @ [nl])"
proof -
  have no_cr: "\<forall>p \<in> set (pieces nl s). cr \<notin> set p" using set_pieces [of _ nl s] assms by blast
  then have chomp: "map (chomp nl) (butlast (pieces nl s)) = butlast (pieces nl s)" "chomp nl (rest_of nl s) = rest_of nl s"
    by (auto simp: chomp_id rest_of_def intro!: map_idI dest: in_set_butlastD)
  note cat = pieces_concat [of nl s]
  show ?thesis
  proof (cases "rest_of nl s = []")
    case True
    then have eq: "concat (map (\<lambda>r. r @ [nl]) (butlast (pieces nl s))) = s" using cat by simp
    moreover have "s = [] \<or> last s = nl"
      using eq by (cases "butlast (pieces nl s)" rule: rev_cases) (auto dest: sym)
    ultimately show ?thesis using True chomp by (simp add: stream_records_def complete_records_def)
  next
    case False
    have "nl \<notin> set (rest_of nl s)" by (rule sep_notin_rest)
    then have "last s \<noteq> nl" "s \<noteq> []" using False cat last_in_set [OF False] by (metis last_appendR, force)
    then show ?thesis using False chomp cat by (simp add: stream_records_def complete_records_def del: append_assoc add: append_assoc [symmetric])
  qed
qed

text \<open>
  The captured output of a command that succeeds is exactly what git wrote to stdout, with
  one final newline taken off, when it holds no carriage return.
\<close>

theorem run_output_exact:
  assumes "runs_alone multiplier command nl captureSink ch []" "ch_exitCode ch = 0" "cr \<notin> set (stdout_of (ch_rounds ch))"
    and "run multiplier git oid queued command ch = Some (log, res)"
  shows "\<exists>r. res = Inr r \<and> pr_out r = (let s = stdout_of (ch_rounds ch) in if s \<noteq> [] \<and> last s = nl then butlast s else s)"
proof -
  let ?s = "stdout_of (ch_rounds ch)"
  obtain st' log' res' where e: "execute multiplier git oid queued command nl captureSink Some ch [] = Some (st', log', res')"
    using assms(4) by (cases "execute multiplier git oid queued command nl captureSink Some ch []") (auto simp: run_def)
  note exact = execute_alone [OF assms(1) e]
  have st': "st' = (if ?s = [] \<or> last ?s = nl then ?s else ?s @ [nl])"
    using exact(1) stream_records_concat [OF assms(3)] by (simp add: deliver_capture)
  obtain r where r: "res' = Inr r" using exact(2) assms(2) by (auto simp: deliver_capture Let_def)
  then have "res = Inr (r\<lparr>pr_out := if ends_with_char st' nl then butlast st' else st'\<rparr>)"
    using assms(4) e by (auto simp: run_def)
  then show ?thesis by (auto simp: st' ends_with_char_def Let_def)
qed

theorem run_output_exact_witness:
  "\<exists>log r. run 1 ''git'' 7 0 (git_command ''r'' [''status'']) demo_child = Some (log, Inr r) \<and> pr_out r = ''ab'' @ [nl] @ ''c''"
proof -
  let ?cmd = "git_command ''r'' [''status'']"
  have alone: "runs_alone 1 ?cmd nl captureSink demo_child []" by (simp add: demo_run)
  obtain log res where run: "run 1 ''git'' 7 0 ?cmd demo_child = Some (log, res)"
    by (simp add: run_def demo_run Let_def)
  have out: "stdout_of (ch_rounds demo_child) = ''ab'' @ [nl] @ ''c''" "ch_exitCode demo_child = 0" by (simp_all add: demo_run)
  then have "cr \<notin> set (stdout_of (ch_rounds demo_child))" by simp
  from run_output_exact [OF alone out(2) this run] out run show ?thesis by auto
qed

section \<open>Deadlines\<close>

lemma withTransferProgress_network: "isNetworkCommand (withTransferProgress c) = isNetworkCommand c"
  by (cases "gc_args c"; cases "tl (gc_args c)") (auto simp: withTransferProgress_def isNetworkCommand_def Let_def)

lemma pump_loop_ends:
  assumes "\<And>p. Q p \<Longrightarrow> \<exists>p'. turn sink inp start timeout idle r p = Leave p'"
    and "\<And>q p p'. q \<in> set before \<Longrightarrow> Q p \<Longrightarrow> turn sink inp start timeout idle q p = GoOn p' \<Longrightarrow> Q p'" and "Q p"
  shows "pump_loop sink inp start timeout idle (before @ r # rest) p \<noteq> None"
  using assms(2,3)
proof (induction before arbitrary: p)
  case Nil
  then show ?case using assms(1) [of p] by (subst pump_loop.simps) auto
next
  case (Cons q before)
  show ?case
  proof (cases "turn sink inp start timeout idle q p")
    case (GoOn p')
    then have "Q p'" using Cons.prems(1) [of q p p'] Cons.prems(2) by simp
    then have "pump_loop sink inp start timeout idle (before @ r # rest) p' \<noteq> None" using Cons by (metis list.set_intros(2))
    then show ?thesis using GoOn by (subst pump_loop.simps) auto
  next
    case (Leave p')
    then show ?thesis by (subst pump_loop.simps) auto
  qed
qed

text \<open>The clock readings a turn can leave as the time of the last progress.\<close>

fun progress_times :: "Round \<Rightarrow> int set" where
  "progress_times r = (case rd_prompt r of Some t \<Rightarrow> {t} | None \<Rightarrow> {}) \<union>
     (case rd_poll r of Ready out err inp \<Rightarrow> fst ` (set_option out \<union> set_option err) \<union> fst ` set_option inp | _ \<Rightarrow> {})"

lemma readStdout_progress:
  "readStdout sink out p = GoOn p' \<Longrightarrow> pu_lastProgress p' \<in> insert (pu_lastProgress p) (fst ` set_option out)"
  by (cases out) (auto simp: readStdout_def split: if_splits prod.splits bool.splits ReadOutcome.splits)

lemma readStderr_progress: "pu_lastProgress (readStderr err p) \<in> insert (pu_lastProgress p) (fst ` set_option err)"
  by (cases err) (auto simp: readStderr_def split: prod.splits ReadOutcome.splits)

lemma writeStdin_progress: "pu_lastProgress (writeStdin inpData inp p) \<in> insert (pu_lastProgress p) (fst ` set_option inp)"
  by (cases inp) (auto simp: writeStdin_def Let_def split: option.splits prod.splits WriteOutcome.splits)

lemma turn_progress:
  assumes "turn sink inpData start timeout idle r p = GoOn p'"
  shows "pu_lastProgress p' \<in> insert (pu_lastProgress p) (progress_times r)"
proof (cases "p' = p \<or> (\<exists>t. rd_prompt r = Some t \<and> pu_lastProgress p' = t)")
  case False
  then obtain out err inp where ready: "rd_poll r = Ready out err inp"
    and poll: "(case readStdout sink out p of Leave p' \<Rightarrow> Leave p' | GoOn p' \<Rightarrow> GoOn (writeStdin inpData inp (readStderr err p'))) = GoOn p'"
    using assms by (auto simp: turn_def pollTurn_def split: if_splits option.splits PollAnswer.splits)
  then obtain q where "readStdout sink out p = GoOn q" "p' = writeStdin inpData inp (readStderr err q)" by (auto split: Turn.splits)
  then show ?thesis
    using readStdout_progress [of sink out p q] readStderr_progress [of err q] writeStdin_progress [of inpData inp "readStderr err q"] ready
    by (auto split: option.splits)
qed auto

text \<open>The multiplier is always what a sequence of calls has left of the initial one.\<close>

lemma multiplier_positive: "1 \<le> m \<Longrightarrow> 1 \<le> foldl setTimeoutMultiplier m ms"
  by (induction ms arbitrary: m) (simp_all add: setTimeoutMultiplier_def)

lemma execute_None:
  assumes "pump sink sep (gc_stdinData (withTransferProgress command)) (effectiveDeadlines multiplier (withTransferProgress command)) ch st = Some q"
  shows "execute multiplier git oid queued command sep sink cap ch st = None \<longleftrightarrow>
    \<not> ch_cancelledBefore ch \<and> ch_spawnError ch = None \<and> \<not> ch_exits ch \<and> \<not> ch_cancelled ch \<and> \<not> pu_timedOut q \<and> \<not> pu_sinkStopped q"
  using assms by (simp add: execute_def childWait_def Let_def split: option.splits)

text \<open>
  C10. Every command runs under a limit, and its pipes are left by the first turn past it. The limit of a command that uses
  the network is the time its pipes may be silent, and that turn must find no credential prompt open; the limit of any
  other command that declares no negative timeout is its total time. Both are positive whatever multiplier has been set
  (the clock does not overflow here; it would from a multiplier of about thirty million). Once the pipes are left the run
  ends, unless the child neither exits nor was terminated by a limit, a cancel or the sink: the wait for the exit has no
  limit of its own.
\<close>

theorem runs_end:
  assumes "multiplier = foldl setTimeoutMultiplier 1 ms" "isNetworkCommand command \<or> gc_timeout command \<ge> 0"
    and "ch_rounds ch = before @ r # rest" "dl = effectiveDeadlines multiplier (withTransferProgress command)"
    and "isNetworkCommand command \<longrightarrow> rd_prompt r = None \<and> rd_idleClock r \<ge> limit + ed_idle dl * 1000000 \<and>
      ch_firstProgress ch \<le> limit \<and> (\<forall>q \<in> set before. \<forall>t \<in> progress_times q. t \<le> limit)"
    and "\<not> isNetworkCommand command \<longrightarrow> rd_totalClock r \<ge> ch_start ch + ed_total dl * 1000000"
  shows "(if isNetworkCommand command then ed_total dl = 0 \<and> ed_idle dl > 0 else ed_total dl > 0) \<and>
    (\<exists>q. pump sink sep (gc_stdinData command) dl ch st = Some q \<and>
      (execute multiplier git oid queued command sep sink cap ch st = None \<longleftrightarrow>
        \<not> ch_cancelledBefore ch \<and> ch_spawnError ch = None \<and> \<not> ch_exits ch \<and> \<not> ch_cancelled ch \<and> \<not> pu_timedOut q \<and> \<not> pu_sinkStopped q))"
proof -
  let ?c = "withTransferProgress command"
  let ?turn = "turn sink (gc_stdinData ?c) (ch_start ch) (ed_total dl) (ed_idle dl)"
  have same: "gc_timeout ?c = gc_timeout command" "gc_stdinData ?c = gc_stdinData command" by (simp_all add: withTransferProgress_def Let_def)
  have "1 \<le> multiplier" using multiplier_positive [of 1 ms] assms(1) by simp
  then have positive: "if isNetworkCommand command then ed_total dl = 0 \<and> ed_idle dl > 0 else ed_total dl > 0"
    using assms(2) by (auto simp: assms(4) effectiveDeadlines_def withTransferProgress_network scaledTimeout_def kNetworkIdle_def
      kLocalCeiling_def Let_def same intro!: mult_pos_pos)
  let ?Q = "\<lambda>p. isNetworkCommand command \<longrightarrow> pu_lastProgress p \<le> limit"
  have "pump_loop sink (gc_stdinData ?c) (ch_start ch) (ed_total dl) (ed_idle dl) (before @ r # rest)
      (new_pump sep (gc_stdinData ?c \<noteq> None) (ch_firstProgress ch) st) \<noteq> None"
  proof (rule pump_loop_ends [where Q = ?Q])
    show "\<exists>p'. ?turn r p = Leave p'" if "?Q p" for p
      using that assms(5,6) positive by (cases "isNetworkCommand command") (auto simp: turn_def ms_left_def)
    show "?Q p'" if "q \<in> set before" "?Q p" "?turn q p = GoOn p'" for q p p'
      using turn_progress [OF that(3)] that(1,2) assms(5) by auto
    show "?Q (new_pump sep (gc_stdinData ?c \<noteq> None) (ch_firstProgress ch) st)" using assms(5) by (simp add: new_pump_def)
  qed
  then obtain q where "pump sink sep (gc_stdinData ?c) dl ch st = Some q" by (auto simp: pump_def assms(3))
  with positive execute_None [of sink sep command multiplier ch st q] show ?thesis unfolding assms(4) same(2) by blast
qed

text \<open>A local command whose pipes stay open and silent is ended by its limit, although it does not exit by itself.\<close>

theorem runs_end_witness:
  "execute 1 ''git'' 7 0 (git_command ''r'' [''status'']) nl collect (\<lambda>_. None)
     (demo_child\<lparr>ch_rounds := [demo_round 9 Quiet, demo_round 300000000000 Quiet], ch_exits := False\<rparr>) [] \<noteq> None"
proof -
  let ?ch = "demo_child\<lparr>ch_rounds := [demo_round 9 Quiet, demo_round 300000000000 Quiet], ch_exits := False\<rparr>"
  let ?cmd = "git_command ''r'' [''status'']" and ?dl = "effectiveDeadlines 1 (withTransferProgress (git_command ''r'' [''status'']))"
  have local: "\<not> isNetworkCommand ?cmd" "gc_timeout ?cmd \<ge> 0" "gc_stdinData ?cmd = None" "?dl = \<lparr>ed_total = 300000, ed_idle = 0\<rparr>"
    by (simp_all add: git_command_def isNetworkCommand_def withTransferProgress_def effectiveDeadlines_def scaledTimeout_def kLocalCeiling_def)
  have ch: "ch_rounds ?ch = [demo_round 9 Quiet] @ demo_round 300000000000 Quiet # []" by simp
  have late: "rd_totalClock (demo_round 300000000000 Quiet) \<ge> ch_start ?ch + ed_total ?dl * 1000000"
    by (simp add: local demo_round_def demo_child_def)
  have one: "1 = foldl setTimeoutMultiplier 1 []" by simp
  have "\<exists>q. pump collect nl (gc_stdinData ?cmd) ?dl ?ch [] = Some q \<and>
     (execute 1 ''git'' 7 0 ?cmd nl collect (\<lambda>_. None) ?ch [] = None \<longleftrightarrow> \<not> ch_cancelledBefore ?ch \<and> ch_spawnError ?ch = None \<and>
       \<not> ch_exits ?ch \<and> \<not> ch_cancelled ?ch \<and> \<not> pu_timedOut q \<and> \<not> pu_sinkStopped q)"
    by (rule conjunct2 [OF runs_end [OF one disjI2 [OF local(2)] ch refl impI [OF notE [OF local(1)]] impI [OF late]]])
  then obtain q where q: "pump collect nl None ?dl ?ch [] = Some q" "pu_timedOut q \<Longrightarrow> execute 1 ''git'' 7 0 ?cmd nl collect (\<lambda>_. None) ?ch [] \<noteq> None"
    unfolding local(3) by blast
  have "pump_loop collect None 0 300000 0 (ch_rounds ?ch) (new_pump nl False 0 []) = Some ((new_pump nl False 0 [])\<lparr>pu_timedOut := True\<rparr>)"
    by (simp add: pump_loop.simps turn_def ms_left_def pollTurn_def demo_round_def new_pump_def)
  then have "pu_timedOut q" using q(1) unfolding local(4) by (auto simp: pump_def demo_child_def split: prod.splits)
  then show ?thesis by (rule q(2))
qed

text \<open>
  A child that closes its pipes and does not exit is waited for without a limit, though every command is meant to have one.
\<close>

lemma closed_pipes_wait:
  assumes "pump sink sep (gc_stdinData (withTransferProgress command)) (effectiveDeadlines multiplier (withTransferProgress command)) ch st = Some q"
    and "\<not> ch_cancelledBefore ch" "ch_spawnError ch = None" "\<not> pu_timedOut q" "\<not> pu_sinkStopped q" "\<not> ch_cancelled ch" "\<not> ch_exits ch"
  shows "execute multiplier git oid queued command sep sink cap ch st = None"
  using assms by (simp add: execute_None)

section \<open>The log\<close>

text \<open>
  The operation log tells the truth about a run: a process that was spawned leaves a
  running record and then a final one under the same id, both with the deadlines the run was held to,
  and the final one carries git's exit code; a run that succeeds is never logged as a failure, and a
  run reported as timed out is logged as one.
\<close>

theorem every_run_logged:
  assumes "execute multiplier git oid queued command sep sink cap ch st = Some (st', log, res)"
    and "\<not> ch_cancelledBefore ch" "ch_spawnError ch = None"
  shows "\<exists>first final. log = [first, final] \<and> op_running first \<and> \<not> op_running final \<and> op_id first = oid \<and> op_id final = oid \<and>
    op_argv first = op_argv final \<and> op_exitCode final = ch_exitCode ch \<and>
    (\<forall>x \<in> {first, final}. op_timeoutMs x = ed_total (effectiveDeadlines multiplier command) \<and>
       op_idleTimeoutMs x = ed_idle (effectiveDeadlines multiplier command)) \<and>
    (\<forall>r. res = Inr r \<longrightarrow> (op_exitCode final = 0 \<or> op_benignExit final) \<and> \<not> op_cancelled final \<and> \<not> op_timedOut final) \<and>
    (\<forall>e. res = Inl e \<longrightarrow> ge_message e = ''Git did not finish in time'' \<and> ge_code e = Timeout \<or> op_cancelled final \<or>
       ge_argv e = op_argv final \<and> \<not> op_timedOut final)"
proof -
  have same: "effectiveDeadlines multiplier (withTransferProgress command) = effectiveDeadlines multiplier command"
  proof -
    have "gc_timeout (withTransferProgress command) = gc_timeout command" "gc_idleTimeout (withTransferProgress command) = gc_idleTimeout command"
      by (simp_all add: withTransferProgress_def Let_def)
    then show ?thesis by (simp add: effectiveDeadlines_def withTransferProgress_network)
  qed
  obtain p where p: "pump sink sep (gc_stdinData (withTransferProgress command)) (effectiveDeadlines multiplier (withTransferProgress command)) ch st = Some p"
    and wait: "childWait ch p = Some (ch_exitCode ch)"
    using assms by (auto simp: execute_def Let_def dest: childWait_code split: option.splits)
  let ?argv = "buildArgv git (withTransferProgress command)"
  let ?dl = "effectiveDeadlines multiplier (withTransferProgress command)"
  let ?first = "recordRunning oid queued ?dl (withTransferProgress command) ?argv"
  let ?final = "recordOperation oid queued ?dl (withTransferProgress command) ?argv (collapseCarriageReturns (pu_stderrText p))
    (ch_exitCode ch) (ch_cancelled ch) (pu_timedOut p) (pu_sinkStopped p)"
  have "log = [?first, ?final]" using assms p wait by (auto simp: execute_def Let_def)
  moreover have "(\<forall>r. res = Inr r \<longrightarrow> (ch_exitCode ch = 0 \<or> pu_sinkStopped p) \<and> \<not> ch_cancelled ch \<and> \<not> pu_timedOut p) \<and>
      (\<forall>e. res = Inl e \<longrightarrow> ge_message e = ''Git did not finish in time'' \<and> ge_code e = Timeout \<or> ch_cancelled ch \<or> ge_argv e = ?argv \<and> \<not> pu_timedOut p)"
    using assms p wait by (auto simp: execute_def Let_def git_error_def failureError_def split: if_splits)
  ultimately show ?thesis
    by (intro exI [of _ ?first] exI [of _ ?final]) (auto simp: recordRunning_def recordOperation_def same)
qed

theorem every_run_logged_witness:
  "\<exists>st' first final res. execute 1 ''git'' 7 0 (git_command ''r'' [''status'']) nl collect (\<lambda>_. None) demo_child [] = Some (st', [first, final], res) \<and>
     op_running first \<and> \<not> op_running final \<and> op_exitCode final = 0"
proof -
  obtain st' log res where run: "execute 1 ''git'' 7 0 (git_command ''r'' [''status'']) nl collect (\<lambda>_. None) demo_child [] = Some (st', log, res)"
    by (simp add: demo_run Let_def)
  moreover have "\<not> ch_cancelledBefore demo_child" "ch_spawnError demo_child = None" "ch_exitCode demo_child = 0" by (simp_all add: demo_child_def)
  ultimately show ?thesis using every_run_logged [OF run] by auto
qed

section \<open>The environment\<close>

text \<open>What a child reads: the value of the first entry of that name.\<close>

fun getenv :: "string list \<Rightarrow> string \<Rightarrow> string option" where
  "getenv [] name = None"
| "getenv (e # es) name = (if starts_with e (name @ ''='') then Some (drop (length name + 1) e) else getenv es name)"

lemma starts_with_name:
  assumes "CHR ''='' \<notin> set k"
  shows "starts_with e (k @ ''='') \<longleftrightarrow> env_name e = k \<and> CHR ''='' \<in> set e"
proof
  assume "starts_with e (k @ ''='')"
  then obtain t where "e = k @ CHR ''='' # t" by (auto simp: starts_with_iff)
  then show "env_name e = k \<and> CHR ''='' \<in> set e" using assms by (simp add: env_name_def)
next
  assume e: "env_name e = k \<and> CHR ''='' \<in> set e"
  then obtain i where "find_char CHR ''='' e = Some i" using find_char_None [of "CHR ''=''" e] by auto
  then show "starts_with e (k @ ''='')" using e find_char_split [of "CHR ''=''" e i]
    by (auto simp: env_name_def starts_with_iff)
qed

lemma replace_entry_None: "replace_entry (k @ ''='') x es = None \<longleftrightarrow> getenv es k = None"
  by (induction es) auto

lemma getenv_replace:
  assumes "CHR ''='' \<notin> set k" "CHR ''='' \<notin> set n" "replace_entry (k @ ''='') (k @ ''='' @ v) es = Some es'"
  shows "getenv es' n = (if n = k then Some v else getenv es n)"
  using assms(3)
proof (induction es arbitrary: es')
  case (Cons e es)
  have "starts_with (k @ CHR ''='' # v) (k @ ''='')" by (simp add: starts_with_iff)
  moreover have "\<not> starts_with (k @ ''='' @ v) (n @ ''='')" "starts_with e (k @ ''='') \<Longrightarrow> \<not> starts_with e (n @ ''='')" if "n \<noteq> k"
    using that starts_with_name [OF assms(2)] starts_with_name [OF assms(1)] assms(1) by (auto simp: env_name_def)
  ultimately show ?case using Cons by (auto split: if_splits)
qed simp

lemma getenv_append: "getenv (es @ fs) n = (case getenv es n of None \<Rightarrow> getenv fs n | Some v \<Rightarrow> Some v)"
  by (induction es) auto

lemma getenv_setVar:
  assumes "CHR ''='' \<notin> set k" "CHR ''='' \<notin> set n"
  shows "getenv (setVar es (k, v)) n = (if n = k then Some v else getenv es n)"
proof (cases "replace_entry (k @ ''='') (k @ ''='' @ v) es")
  case None
  have "starts_with (k @ ''='' @ v) (n @ ''='') \<longleftrightarrow> n = k"
    using starts_with_name [OF assms(2), of "k @ ''='' @ v"] assms(1) by (auto simp: env_name_def)
  then show ?thesis using None replace_entry_None [of k _ es]
    by (auto simp: setVar_def getenv_append Let_def split: option.splits)
next
  case (Some es')
  then show ?thesis using getenv_replace [OF assms Some] by (simp add: setVar_def Let_def)
qed

lemma getenv_setVars:
  assumes "list_all (\<lambda>kv. CHR ''='' \<notin> set (fst kv)) kvs" "CHR ''='' \<notin> set n"
  shows "getenv (foldl setVar es kvs) n = (case map_of (rev kvs) n of Some v \<Rightarrow> Some v | None \<Rightarrow> getenv es n)"
  using assms(1)
proof (induction kvs arbitrary: es)
  case (Cons kv kvs)
  then show ?case using getenv_setVar [OF _ assms(2), of "fst kv" es "snd kv"]
    by (auto simp: map_add_def split: option.splits)
qed simp

lemma getenv_strip:
  assumes "CHR ''='' \<notin> set n"
  shows "getenv (filter (\<lambda>e. \<not> P (env_name e)) es) n = (if P n then None else getenv es n)"
  by (induction es) (auto simp: starts_with_name [OF assms])

text \<open>
  A child sees exactly the environment the code means it to: the last override of a
  name wins, terminal prompts, pager and locale are fixed unless overridden, no tracing switch of the
  parent reaches it, and every other variable is inherited unchanged.
\<close>

theorem child_env_exact:
  assumes "list_all (\<lambda>kv. CHR ''='' \<notin> set (fst kv)) (gc_envOverrides command)" "CHR ''='' \<notin> set name"
  shows "getenv (buildEnvironment environ command) name =
    (case map_of (rev (gc_envOverrides command)) name of
       Some v \<Rightarrow> Some v
     | None \<Rightarrow> case map_of fixedVars name of
         Some v \<Rightarrow> Some v
       | None \<Rightarrow> if isGitTraceEnvName False name then None else getenv environ name)"
proof -
  have "list_all (\<lambda>kv. CHR ''='' \<notin> set (fst kv)) (fixedVars @ gc_envOverrides command)"
    using assms(1) by (simp add: fixedVars_def)
  moreover have "map_of (rev fixedVars) name = map_of fixedVars name" by (simp add: fixedVars_def)
  ultimately show ?thesis
    by (auto simp: buildEnvironment_def getenv_setVars [OF _ assms(2)] getenv_strip [OF assms(2)] map_add_def
      simp del: foldl_append split: option.splits)
qed

theorem child_env_exact_witness:
  "getenv (buildEnvironment [''GIT_TRACE=1'', ''GIT_PAGER=less'', ''HOME=/h''] (git_command ''r'' [''status''])) ''GIT_TRACE'' = None \<and>
   getenv (buildEnvironment [''GIT_TRACE=1'', ''GIT_PAGER=less'', ''HOME=/h''] (git_command ''r'' [''status''])) ''GIT_PAGER'' = Some ''cat''"
  using child_env_exact [of "git_command ''r'' [''status'']" "''GIT_TRACE''"] child_env_exact [of "git_command ''r'' [''status'']" "''GIT_PAGER''"]
  by (simp add: git_command_def fixedVars_def isGitTraceEnvName_def trace_starts_with_def equalsAscii_def)

end
