(* ===== verification/HistoryReading.thy ===== *)
theory HistoryReading
  imports HistoryWalks ProcessPromises
begin

text \<open>
  What a history walk guarantees: the commits git prints are the rows of the graph, whatever pieces
  the output arrived in; malformed lines are skipped; a linear walk is one line; and the snapshots
  published on the way are prefixes on a schedule whose cost stays bounded.
\<close>

section \<open>Truncation\<close>

lemma truncated_steps [simp]:
  "gs_truncated (gb_snapshot (linkParent gb row lane t c k pi fp p)) = gs_truncated (gb_snapshot gb)"
  "gs_truncated (gb_snapshot (patchEdge row gb pe)) = gs_truncated (gb_snapshot gb)"
  "gs_truncated (gb_snapshot (releaseEdge lane gb pe)) = gs_truncated (gb_snapshot gb)"
  "gs_truncated (gb_snapshot (pushRow gb o' lane c n t)) = gs_truncated (gb_snapshot gb)"
  "gs_truncated (gb_snapshot (setLaneCount gb)) = gs_truncated (gb_snapshot gb)"
  "gs_truncated (gb_snapshot (snd (snd (targetLaneFor gb lane p)))) = gs_truncated (gb_snapshot gb)"
  by (auto simp: linkParent_def createEdge_def push_pending_def patchEdge_def releaseEdge_def pushRow_def setLaneCount_def
    targetLaneFor_def Let_def split: list.splits prod.splits)

lemma truncated_folds [simp]:
  "gs_truncated (gb_snapshot (foldl (patchEdge row) gb pes)) = gs_truncated (gb_snapshot gb)"
  "gs_truncated (gb_snapshot (foldl (releaseEdge lane) gb pes)) = gs_truncated (gb_snapshot gb)"
  by (induction pes arbitrary: gb) simp_all

lemma truncated_addOtherParents [simp]:
  "gs_truncated (gb_snapshot (addOtherParents gb row lane off n i ps)) = gs_truncated (gb_snapshot gb)"
proof (induction ps arbitrary: gb i)
  case (Cons p ps)
  have "gs_truncated (gb_snapshot (addOtherParent gb row lane off n i p)) = gs_truncated (gb_snapshot gb)"
    by (simp add: addOtherParent_eq)
  with Cons show ?case by simp
qed simp

lemma truncated_startRow:
  "startRow gb o' n t = (row, lane, color, off, gb') \<Longrightarrow> gs_truncated (gb_snapshot gb') = gs_truncated (gb_snapshot gb)"
  using placeCommit_frame(1) [of "snd (takeIncoming gb o')" o' "pending_at gb o'"]
  by (auto simp: startRow_def Let_def releaseIncoming_def patchIncoming_def split: prod.splits if_splits
    dest!: arg_cong [where f = fst] arg_cong [where f = snd])

lemma options_addOtherParents [simp]: "gb_options (addOtherParents gb row lane off n i ps) = gb_options gb"
  by (induction ps arbitrary: gb i) (simp_all add: addOtherParent_eq)

lemma linkParents_frame [simp]:
  "gb_options (linkParents gb row lane c off ps) = gb_options gb"
  "gs_truncated (gb_snapshot (linkParents gb row lane c off ps)) = gs_truncated (gb_snapshot gb)"
  by (simp_all add: linkParents_def addFirstParent_def split: list.splits)

text \<open>A walk within its cap grows by a row; at the cap it is marked truncated and nothing else ever changes.\<close>

definition capped :: "GraphBuilder \<Rightarrow> bool" where
  "capped gb \<longleftrightarrow> length (rows_of gb) \<ge> go_maxRows (gb_options gb)"

lemma add_commit_room:
  assumes "\<not> capped gb"
  shows "length (rows_of (add_commit gb c)) = Suc (length (rows_of gb))" "gb_options (add_commit gb c) = gb_options gb"
    "gs_truncated (gb_snapshot (add_commit gb c)) = gs_truncated (gb_snapshot gb)"
proof -
  obtain row lane color off gb' where
    start: "startRow gb (fst c) (length (fst (snd c))) (snd (snd c)) = (row, lane, color, off, gb')" by (metis prod_cases5)
  then have eq: "add_commit gb c = setLaneCount (linkParents gb' row lane color off (fst (snd c)))"
    using assms by (simp add: add_commit_def add_def capped_def)
  show "length (rows_of (add_commit gb c)) = Suc (length (rows_of gb))" "gb_options (add_commit gb c) = gb_options gb"
    "gs_truncated (gb_snapshot (add_commit gb c)) = gs_truncated (gb_snapshot gb)"
    unfolding eq using startRow_effect(9,11) [OF start] truncated_startRow [OF start] by simp_all
qed

lemma add_commit_capped: "capped gb \<Longrightarrow> add_commit gb c = markTruncated gb"
  by (simp add: capped_def add_commit_def add_def markTruncated_def)

lemma markTruncated_frame [simp]:
  "gs_truncated (gb_snapshot (markTruncated gb))" "rows_of (markTruncated gb) = rows_of gb" "gb_options (markTruncated gb) = gb_options gb"
  "markTruncated (markTruncated gb) = markTruncated gb" "capped (markTruncated gb) = capped gb"
  by (simp_all add: markTruncated_def capped_def)

lemma add_commits_capped: "capped gb \<Longrightarrow> foldl add_commit (markTruncated gb) cs = markTruncated gb"
  by (induction cs) (simp_all add: add_commit_capped)

lemma build_room:
  assumes "length cs \<le> go_maxRows options"
  shows "length (rows_of (build options cs)) = length cs" "gb_options (build options cs) = options"
    "\<not> gs_truncated (gb_snapshot (build options cs))"
proof -
  have "length (rows_of (build options cs)) = length cs \<and> gb_options (build options cs) = options \<and>
      \<not> gs_truncated (gb_snapshot (build options cs))"
    using assms
  proof (induction cs rule: rev_induct)
    case (snoc c cs)
    then have "\<not> capped (build options cs)" by (simp add: capped_def)
    with snoc show ?case using add_commit_room [of "build options cs" c] by (simp add: build_def)
  qed (simp add: build_def new_builder_def empty_snapshot_def)
  then show "length (rows_of (build options cs)) = length cs" "gb_options (build options cs) = options"
    "\<not> gs_truncated (gb_snapshot (build options cs))" by auto
qed

section \<open>Feeding the builder\<close>

fun bridge :: "commit list \<Rightarrow> commit list" where
  "bridge [] = []"
| "bridge [c] = [c]"
| "bridge (c # d # cs) = (fst c, [fst d], snd (snd c)) # bridge (d # cs)"

definition commit_of :: "RevRecord \<Rightarrow> commit" where
  "commit_of r = (rr_oid r, rr_parents r, rr_commitTime r)"

definition read_commits :: "string list \<Rightarrow> commit list" where
  "read_commits lines = map commit_of (filter rr_valid (map parseRevListLine lines))"

definition drawn :: "HistoryQuery \<Rightarrow> commit list \<Rightarrow> commit list" where
  "drawn q cs = (if isLinearWalk q then bridge cs else cs)"

definition held_list :: "HistoryQuery \<Rightarrow> WalkState \<Rightarrow> commit list" where
  "held_list q w = (if isLinearWalk q \<and> rr_valid (ws_held w) then [commit_of (ws_held w)] else [])"

text \<open>When a chunk is published, and how far the next one has to be from it.\<close>

definition chunk_gap :: "nat \<Rightarrow> nat" where
  "chunk_gap k = min (max k kFirstChunkRows) kMaxChunkRows"

lemma chunk_gap_pos: "0 < chunk_gap k"
  by (simp add: chunk_gap_def kFirstChunkRows_def kMaxChunkRows_def)

definition on_schedule :: "nat list \<Rightarrow> bool" where
  "on_schedule ks \<longleftrightarrow> successively (\<lambda>k k'. k + chunk_gap k \<le> k') ks \<and> list_all (\<lambda>k. 0 < k) ks"

definition published :: "HistoryQuery \<Rightarrow> commit list \<Rightarrow> nat list \<Rightarrow> WalkState \<Rightarrow> bool" where
  "published q cs ks w \<longleftrightarrow>
     ws_chunks w = map (\<lambda>k. snapshot (build (walkOptions q) (take k cs))) ks \<and> on_schedule ks \<and>
     list_all (\<lambda>k. k \<le> length cs) ks"

text \<open>Between lines: the builder holds the rows of a prefix, and what is left to read makes up the rest.\<close>

definition walking :: "HistoryQuery \<Rightarrow> commit list \<Rightarrow> string list \<Rightarrow> WalkState \<Rightarrow> bool" where
  "walking q cs lines w \<longleftrightarrow>
     (\<exists>done' ks. ws_builder w = build (walkOptions q) done' \<and> length (rows_of (ws_builder w)) = length done' \<and>
        gb_options (ws_builder w) = walkOptions q \<and> \<not> gs_truncated (gb_snapshot (ws_builder w)) \<and>
        cs = done' @ drawn q (held_list q w @ read_commits lines) \<and> published q cs ks w \<and>
        ws_publishedOnce w = (ks \<noteq> []) \<and>
        ws_nextPublishAt w = (if ks = [] then kFirstChunkRows else last ks + chunk_gap (last ks)))"

definition cut_short :: "HistoryQuery \<Rightarrow> commit list \<Rightarrow> WalkState \<Rightarrow> bool" where
  "cut_short q cs w \<longleftrightarrow>
     (\<exists>gb ks. capped gb \<and> ws_builder w = markTruncated gb \<and> markTruncated gb = build (walkOptions q) cs \<and> published q cs ks w)"

lemma walking_start: "walking q (drawn q (read_commits lines)) lines (new_walk q)"
  by (auto simp: walking_def new_walk_def build_def new_builder_def empty_snapshot_def held_list_def new_record_def
    published_def on_schedule_def intro!: exI [of _ "[]"])

lemma walking_publish:
  assumes "walking q cs lines w"
  shows "walking q cs lines (publishChunk late w)"
proof -
  obtain done' ks where w: "ws_builder w = build (walkOptions q) done'" "length (rows_of (ws_builder w)) = length done'"
    "gb_options (ws_builder w) = walkOptions q" "\<not> gs_truncated (gb_snapshot (ws_builder w))"
    "cs = done' @ drawn q (held_list q w @ read_commits lines)" "published q cs ks w"
    "ws_publishedOnce w = (ks \<noteq> [])" "ws_nextPublishAt w = (if ks = [] then kFirstChunkRows else last ks + chunk_gap (last ks))"
    using assms unfolding walking_def by blast
  show ?thesis
  proof (cases "publishChunk late w = w")
    case False
    let ?k = "length done'"
    have now: "?k \<ge> ws_nextPublishAt w \<or> (ks = [] \<and> ?k > 0)" and eq: "publishChunk late w = w\<lparr>ws_chunks := ws_chunks w @ [snapshot (ws_builder w)],
        ws_publishedOnce := True, ws_nextPublishAt := ?k + chunk_gap ?k\<rparr>"
      using False by (auto simp: publishChunk_def Let_def w(2,7) chunk_gap_def split: if_splits)
    have "build (walkOptions q) (take ?k cs) = ws_builder w" using w(1,5) by simp
    moreover have "0 < ?k" "ks \<noteq> [] \<longrightarrow> last ks + chunk_gap (last ks) \<le> ?k"
      using now w(8) chunk_gap_pos [of "last ks"] by (auto simp: kFirstChunkRows_def split: if_splits)
    ultimately have "published q cs (ks @ [?k]) (publishChunk late w)"
      using w(5,6) by (auto simp: eq published_def on_schedule_def successively_append_iff)
    then show ?thesis using w unfolding walking_def eq
      by (intro exI [of _ done'] exI [of _ "ks @ [?k]"]) (simp add: held_list_def)
  qed (use assms in simp)
qed

text \<open>One valid record: the next row is drawn, or the walk has reached its cap.\<close>

lemma feedRecord_frame [simp]:
  "ws_chunks (feedRecord q r w) = ws_chunks w" "ws_publishedOnce (feedRecord q r w) = ws_publishedOnce w"
  "ws_nextPublishAt (feedRecord q r w) = ws_nextPublishAt w" "ws_malformedLines (feedRecord q r w) = ws_malformedLines w"
  by (simp_all add: feedRecord_def)

lemma feedRecord_drawn:
  assumes "rr_valid r"
  shows "\<exists>xs. ws_builder (feedRecord q r w) = foldl add_commit (ws_builder w) xs \<and> length xs \<le> 1 \<and>
    drawn q (held_list q w @ commit_of r # cs) = xs @ drawn q (held_list q (feedRecord q r w) @ cs)"
proof (cases "isLinearWalk q")
  case True
  show ?thesis
  proof (cases "rr_valid (ws_held w)")
    case True
    with \<open>isLinearWalk q\<close> assms show ?thesis
      by (intro exI [of _ "[(rr_oid (ws_held w), [rr_oid r], rr_commitTime (ws_held w))]"])
        (simp add: feedRecord_def drawn_def held_list_def commit_of_def add_commit_def)
  qed (use True assms in \<open>simp add: feedRecord_def drawn_def held_list_def\<close>)
next
  case False
  then show ?thesis
    by (intro exI [of _ "[commit_of r]"]) (simp add: feedRecord_def drawn_def held_list_def commit_of_def add_commit_def)
qed

lemma walking_feed:
  assumes "walking q cs (line # lines) w" "rr_valid (parseRevListLine line)"
  defines "w' \<equiv> feedRecord q (parseRevListLine line) w"
  shows "if gs_truncated (gb_snapshot (ws_builder w')) then cut_short q cs w' else walking q cs lines w'"
proof -
  obtain done' ks where w: "ws_builder w = build (walkOptions q) done'" "length (rows_of (ws_builder w)) = length done'"
    "gb_options (ws_builder w) = walkOptions q" "\<not> gs_truncated (gb_snapshot (ws_builder w))"
    "cs = done' @ drawn q (held_list q w @ read_commits (line # lines))" "published q cs ks w"
    "ws_publishedOnce w = (ks \<noteq> [])" "ws_nextPublishAt w = (if ks = [] then kFirstChunkRows else last ks + chunk_gap (last ks))"
    using assms(1) unfolding walking_def by blast
  have "read_commits (line # lines) = commit_of (parseRevListLine line) # read_commits lines"
    using assms(2) by (simp add: read_commits_def)
  then obtain xs where xs: "ws_builder w' = foldl add_commit (ws_builder w) xs" "length xs \<le> 1"
      "cs = (done' @ xs) @ drawn q (held_list q w' @ read_commits lines)"
    using feedRecord_drawn [OF assms(2), of q w "read_commits lines"] w(5) by (auto simp: w'_def)
  have built: "ws_builder w' = build (walkOptions q) (done' @ xs)" using xs(1) w(1) by (simp add: build_def)
  have pub: "published q cs ks w'" using w(6) by (simp add: published_def w'_def)
  have grown: "if xs \<noteq> [] \<and> capped (ws_builder w) then ws_builder w' = markTruncated (ws_builder w)
      else length (rows_of (ws_builder w')) = length (done' @ xs) \<and> gb_options (ws_builder w') = walkOptions q \<and>
        \<not> gs_truncated (gb_snapshot (ws_builder w'))"
    using xs(2) w(2-4) by (cases xs) (auto simp: xs(1) add_commit_capped add_commit_room)
  show ?thesis
  proof (cases "xs \<noteq> [] \<and> capped (ws_builder w)")
    case True
    then have "markTruncated (ws_builder w) = build (walkOptions q) cs"
      using grown add_commits_capped [of "ws_builder w"] built xs(3) by (simp add: build_def)
    then show ?thesis using True grown pub markTruncated_frame(1) [of "ws_builder w"] by (auto simp: cut_short_def)
  next
    case False
    then show ?thesis using grown built xs(3) pub w(7,8) unfolding walking_def
      by (auto simp: w'_def intro!: exI [of _ "done' @ xs"] exI [of _ ks])
  qed
qed

lemma frame_counters [simp]:
  "held_list q (w\<lparr>ws_lines := n\<rparr>) = held_list q w" "published q cs ks (w\<lparr>ws_lines := n\<rparr>) = published q cs ks w"
  "held_list q (w\<lparr>ws_malformedLines := n\<rparr>) = held_list q w" "published q cs ks (w\<lparr>ws_malformedLines := n\<rparr>) = published q cs ks w"
  by (simp_all add: held_list_def published_def)

lemma walking_lines: "walking q cs lines (w\<lparr>ws_lines := n\<rparr>) = walking q cs lines w"
  by (simp add: walking_def)

lemma walking_skip:
  "walking q cs (line # lines) w \<Longrightarrow> \<not> rr_valid (parseRevListLine line) \<Longrightarrow> walking q cs lines (w\<lparr>ws_malformedLines := m\<rparr>)"
proof -
  assume "walking q cs (line # lines) w" "\<not> rr_valid (parseRevListLine line)"
  moreover from this(2) have "read_commits (line # lines) = read_commits lines" by (simp add: read_commits_def)
  ultimately show ?thesis by (simp add: walking_def)
qed

lemma publishChunk_malformed [simp]: "ws_malformedLines (publishChunk late w) = ws_malformedLines w"
  by (simp add: publishChunk_def Let_def)

lemma deliver_walk:
  assumes "walking q cs lines w" "\<And>n. \<not> cancelledAt n"
  shows "case deliver (walkSink q cancelledAt lateAt) lines w of
      (True, w') \<Rightarrow> walking q cs [] w' \<and>
        ws_malformedLines w' = ws_malformedLines w + length (filter (\<lambda>l. \<not> rr_valid (parseRevListLine l)) lines)
    | (False, w') \<Rightarrow> cut_short q cs w'"
  using assms(1)
proof (induction lines arbitrary: w)
  case (Cons line lines)
  let ?w = "w\<lparr>ws_lines := ws_lines w + 1\<rparr>"
  let ?f = "feedRecord q (parseRevListLine line) ?w"
  have start: "walking q cs (line # lines) ?w" using Cons.prems by (simp add: walking_lines)
  consider "\<not> rr_valid (parseRevListLine line)"
    | "rr_valid (parseRevListLine line)" "gs_truncated (gb_snapshot (ws_builder ?f))"
    | "rr_valid (parseRevListLine line)" "\<not> gs_truncated (gb_snapshot (ws_builder ?f))" by blast
  then show ?case
  proof cases
    case 1
    let ?s = "?w\<lparr>ws_malformedLines := ws_malformedLines ?w + 1\<rparr>"
    have sink: "walkSink q cancelledAt lateAt w line = (True, ?s)"
      using 1 assms(2) by (simp add: walkSink_def Let_def)
    have "walking q cs lines ?s" using walking_skip [OF start 1] .
    from Cons.IH [OF this] 1 show ?thesis unfolding deliver.simps sink by (simp split: prod.splits bool.splits)
  next
    case 2
    then have "walkSink q cancelledAt lateAt w line = (False, ?f)" using assms(2) by (simp add: walkSink_def Let_def)
    with walking_feed [OF start 2(1)] 2 show ?thesis by simp
  next
    case 3
    let ?p = "publishChunk (lateAt (ws_lines w)) ?f"
    have sink: "walkSink q cancelledAt lateAt w line = (True, ?p)" using 3 assms(2) by (simp add: walkSink_def Let_def)
    have "walking q cs lines ?f" using walking_feed [OF start 3(1)] 3(2) by simp
    from Cons.IH [OF walking_publish [OF this], of "lateAt (ws_lines w)"] 3(1) show ?thesis
      unfolding deliver.simps sink by (simp split: prod.splits bool.splits)
  qed
qed simp

definition mark_limit :: "HistoryQuery \<Rightarrow> GraphBuilder \<Rightarrow> GraphBuilder" where
  "mark_limit q gb = (if hq_maxCount q > 0 \<and> length (rows_of gb) \<ge> hq_maxCount q then markTruncated gb else gb)"

lemma endWalk_eq:
  assumes "walking q cs [] w \<or> cut_short q cs w"
  shows "endWalk q w = finish (mark_limit q (build (walkOptions q) cs))"
proof -
  let ?b = "foldl add_commit (ws_builder w) (held_list q w)"
  have "?b = build (walkOptions q) cs"
    using assms
  proof
    assume "walking q cs [] w"
    then obtain done' where "ws_builder w = build (walkOptions q) done'" "cs = done' @ drawn q (held_list q w)"
      unfolding walking_def by (auto simp: read_commits_def)
    then show ?thesis by (auto simp: held_list_def drawn_def build_def)
  next
    assume "cut_short q cs w"
    then show ?thesis unfolding cut_short_def by (metis add_commits_capped)
  qed
  moreover have "endWalk q w = finish (mark_limit q ?b)"
    by (simp add: endWalk_def held_list_def mark_limit_def commit_of_def add_commit_def Let_def)
  ultimately show ?thesis by simp
qed

section \<open>The whole walk\<close>

text \<open>A walk whose git is left alone and exits cleanly, and that is not cancelled.\<close>

definition walk_alone :: "int \<Rightarrow> string \<Rightarrow> HistoryQuery \<Rightarrow> (nat \<Rightarrow> bool) \<Rightarrow> (nat \<Rightarrow> bool) \<Rightarrow> Child \<Rightarrow> bool" where
  "walk_alone multiplier dir q cancelledAt lateAt ch \<longleftrightarrow>
     runs_alone multiplier (git_command dir (toRevListArgs q)) nl (walkSink q cancelledAt lateAt) ch (new_walk q) \<and>
     (\<forall>n. \<not> cancelledAt n) \<and> ch_exitCode ch = 0"

lemma walk_exact:
  assumes alone: "walk_alone multiplier dir q cancelledAt lateAt ch"
    and walk: "walk multiplier git oid queued dir q cancelledAt lateAt ch = Some (chunks, skipped, res)"
  defines "lines \<equiv> stream_records nl (stdout_of (ch_rounds ch))"
  defines "cs \<equiv> drawn q (read_commits lines)"
  defines "final \<equiv> snapshot (finish (mark_limit q (build (walkOptions q) cs)))"
  shows "res = Inr final"
    "\<exists>ks. chunks = map (\<lambda>k. snapshot (build (walkOptions q) (take k cs))) ks @ [final] \<and> on_schedule ks \<and> list_all (\<lambda>k. k \<le> length cs) ks"
    "length cs \<le> go_maxRows (walkOptions q) \<Longrightarrow> skipped = length (filter (\<lambda>l. \<not> rr_valid (parseRevListLine l)) lines)"
proof -
  let ?sink = "walkSink q cancelledAt lateAt" and ?cmd = "git_command dir (toRevListArgs q)"
  obtain w log r where stream: "streamSeparated multiplier git oid queued ?cmd nl ?sink ch (new_walk q) = Some (w, log, r)"
    using walk by (cases "streamSeparated multiplier git oid queued ?cmd nl ?sink ch (new_walk q)") (auto simp: walk_def)
  note exact = execute_alone [OF _ stream [unfolded streamSeparated_def]]
  have runs: "runs_alone multiplier ?cmd nl ?sink ch (new_walk q)" "\<And>n. \<not> cancelledAt n" "ch_exitCode ch = 0"
    using alone by (auto simp: walk_alone_def)
  have w: "w = snd (deliver ?sink lines (new_walk q))" using exact(1) [OF runs(1)] by (simp add: lines_def)
  obtain r' where r': "r = Inr r'" using exact(2,3) [OF runs(1)] runs(3)
    by (cases "fst (deliver ?sink (complete_records nl (stdout_of (ch_rounds ch))) (new_walk q))") (auto simp: Let_def)
  have state: "walking q cs [] w \<and> ws_malformedLines w = length (filter (\<lambda>l. \<not> rr_valid (parseRevListLine l)) lines) \<or> cut_short q cs w"
  proof -
    have "ws_malformedLines (new_walk q) = 0" by (simp add: new_walk_def)
    moreover have "case deliver ?sink lines (new_walk q) of
        (True, w') \<Rightarrow> walking q cs [] w' \<and>
          ws_malformedLines w' = ws_malformedLines (new_walk q) + length (filter (\<lambda>l. \<not> rr_valid (parseRevListLine l)) lines)
      | (False, w') \<Rightarrow> cut_short q cs w'"
      unfolding cs_def by (rule deliver_walk [OF walking_start runs(2)])
    ultimately show ?thesis using w by (cases "deliver ?sink lines (new_walk q)") (auto split: bool.splits)
  qed
  have result: "res = Inr (snapshot (endWalk q w))" "chunks = ws_chunks w @ [snapshot (endWalk q w)]" "skipped = ws_malformedLines w"
    using walk stream r' by (auto simp: walk_def Let_def)
  have "endWalk q w = finish (mark_limit q (build (walkOptions q) cs))" using state endWalk_eq by blast
  then have final: "snapshot (endWalk q w) = final" by (simp add: final_def)
  then show "res = Inr final" using result by simp
  have "\<exists>ks. published q cs ks w" using state by (auto simp: walking_def cut_short_def)
  then show "\<exists>ks. chunks = map (\<lambda>k. snapshot (build (walkOptions q) (take k cs))) ks @ [final] \<and> on_schedule ks \<and> list_all (\<lambda>k. k \<le> length cs) ks"
    using result(2) final by (auto simp: published_def)
  show "skipped = length (filter (\<lambda>l. \<not> rr_valid (parseRevListLine l)) lines)" if "length cs \<le> go_maxRows (walkOptions q)"
  proof -
    have "\<not> cut_short q cs w" using build_room(3) [OF that] markTruncated_frame(1) by (metis cut_short_def)
    then show ?thesis using state result(3) by simp
  qed
qed

end
