(* ===== verification/HistoryPromises.thy ===== *)
theory HistoryPromises
  imports HistoryReading
begin

text \<open>
  The promises of a history walk from git's bytes to the published graph: the printed commits are
  drawn exactly, a linear walk is one line, and publishing on the way follows a schedule whose total
  cost is bounded.
\<close>

section \<open>Printed commits\<close>

definition rev_line :: "commit \<Rightarrow> string" where
  "rev_line c = to_string (snd (snd c)) @ concat (map (\<lambda>oid. CHR '' '' # hex oid) (fst c # fst (snd c)))"

definition printable :: "commit \<Rightarrow> bool" where
  "printable c \<longleftrightarrow> printable_oid (fst c) \<and> list_all printable_oid (fst (snd c)) \<and> snd (snd c) < 2 ^ 64"

text \<open>Times past the 32 bits of a row are clamped.\<close>

definition clamped :: "commit \<Rightarrow> commit" where
  "clamped c = (fst c, fst (snd c), min (snd (snd c)) 0xFFFFFFFF)"

lemma digits_not_blank: "CHR '' '' \<notin> set (to_string n)" "nl \<notin> set (to_string n)" "cr \<notin> set (to_string n)"
  using to_string_digits [of _ n] by (force simp: is_digit_def)+

lemma nextToken_token:
  "t \<noteq> [] \<Longrightarrow> CHR '' '' \<notin> set t \<Longrightarrow> rest = [] \<or> hd rest = CHR '' '' \<Longrightarrow> nextToken (t @ rest) = (t, rest)"
proof -
  assume t: "t \<noteq> []" "CHR '' '' \<notin> set t" and rest: "rest = [] \<or> hd rest = CHR '' ''"
  have "dropWhile (\<lambda>c. c = CHR '' '') (t @ rest) = t @ rest" using t by (cases t) auto
  moreover have "\<And>c. c \<in> set t \<Longrightarrow> c \<noteq> CHR '' ''" using t by auto
  ultimately show ?thesis using rest by (cases rest) (auto simp: nextToken_def Let_def takeWhile_append dropWhile_append)
qed

lemma nextToken_blank: "nextToken (CHR '' '' # s) = nextToken s"
  by (simp add: nextToken_def)

lemma blank_first: "concat (map (\<lambda>oid. CHR '' '' # hex oid) ps) = [] \<or> hd (concat (map (\<lambda>oid. CHR '' '' # hex oid) ps)) = CHR '' ''"
  by (cases ps) auto

lemma parseParents_printed:
  "list_all printable_oid ps \<Longrightarrow> parseParents (concat (map (\<lambda>oid. CHR '' '' # hex oid) ps)) = ps"
proof (induction ps)
  case Nil
  then show ?case by (simp add: parseParents.simps nextToken_def)
next
  case (Cons p ps)
  let ?rest = "concat (map (\<lambda>oid. CHR '' '' # hex oid) ps)"
  have "nextToken (CHR '' '' # hex p @ ?rest) = (hex p, ?rest)"
    unfolding nextToken_blank using Cons.prems hex_nonempty hex_not_blank by (intro nextToken_token blank_first) auto
  moreover have "parseHex null_oid (hex p) = (True, p)" using Cons.prems by (simp add: parseHex_hex printable_oid_def)
  ultimately show ?case using Cons hex_nonempty [of p] by (subst parseParents.simps) simp
qed

lemma parseRevListLine_printed:
  assumes "printable c"
  shows "parseRevListLine (rev_line c) =
    \<lparr>rr_oid = fst c, rr_parents = fst (snd c), rr_commitTime = min (snd (snd c)) 0xFFFFFFFF, rr_valid = True\<rparr>"
proof -
  let ?t = "to_string (snd (snd c))" and ?ps = "concat (map (\<lambda>oid. CHR '' '' # hex oid) (fst (snd c)))"
  have oid: "printable_oid (fst c)" "list_all printable_oid (fst (snd c))" "snd (snd c) < 2 ^ 64" using assms by (auto simp: printable_def)
  have line: "rev_line c = ?t @ CHR '' '' # hex (fst c) @ ?ps" by (simp add: rev_line_def)
  have "nextToken (rev_line c) = (?t, CHR '' '' # hex (fst c) @ ?ps)"
    unfolding line using digits_not_blank by (intro nextToken_token) auto
  moreover have "nextToken (CHR '' '' # hex (fst c) @ ?ps) = (hex (fst c), ?ps)"
    unfolding nextToken_blank using oid hex_nonempty hex_not_blank by (intro nextToken_token blank_first) auto
  moreover have "fst (from_chars 64 ?t) = Some (snd (snd c))" using from_chars_to_string [OF oid(3), of "[]"] by simp
  moreover have "parseHex null_oid (hex (fst c)) = (True, fst c)" using oid by (simp add: parseHex_hex printable_oid_def)
  ultimately show ?thesis using parseParents_printed [OF oid(2)]
    by (simp add: parseRevListLine_def new_record_def Let_def line)
qed

lemma records_cut:
  "sep \<notin> set l \<Longrightarrow> complete_records sep (l @ sep # s) = chomp sep l # complete_records sep s"
  "sep \<notin> set l \<Longrightarrow> rest_of sep (l @ sep # s) = rest_of sep s"
  by (simp_all add: complete_records_def rest_of_def pieces_cut)

lemma records_of_lines:
  "list_all (\<lambda>l. nl \<notin> set l \<and> cr \<notin> set l) ls \<Longrightarrow> stream_records nl (concat (map (\<lambda>l. l @ [nl]) ls)) = ls"
proof (induction ls)
  case Nil
  then show ?case by (simp add: stream_records_def complete_records_def rest_of_def)
next
  case (Cons l ls)
  then show ?case by (auto simp: stream_records_def records_cut chomp_id)
qed

section \<open>What is drawn\<close>

text \<open>A line of the output: a printed commit, or something that is not a record of rev-list.\<close>

fun line_of :: "string + commit \<Rightarrow> string" where
  "line_of (Inl s) = s"
| "line_of (Inr c) = rev_line c"

fun line_ok :: "string + commit \<Rightarrow> bool" where
  "line_ok (Inl s) \<longleftrightarrow> nl \<notin> set s \<and> cr \<notin> set s \<and> \<not> rr_valid (parseRevListLine s)"
| "line_ok (Inr c) \<longleftrightarrow> printable c"

fun commits_in :: "(string + commit) list \<Rightarrow> commit list" where
  "commits_in [] = []"
| "commits_in (Inl s # xs) = commits_in xs"
| "commits_in (Inr c # xs) = clamped c # commits_in xs"

lemma line_of_clean: "line_ok x \<Longrightarrow> nl \<notin> set (line_of x) \<and> cr \<notin> set (line_of x)"
  using digits_not_blank hex_not_blank by (cases x) (auto simp: rev_line_def)

lemma read_commits_lines: "list_all line_ok xs \<Longrightarrow> read_commits (map line_of xs) = commits_in xs"
  by (induction xs rule: commits_in.induct)
    (auto simp: read_commits_def commit_of_def clamped_def parseRevListLine_printed)

lemma skipped_lines: "list_all line_ok xs \<Longrightarrow>
    length (filter (\<lambda>l. \<not> rr_valid (parseRevListLine l)) (map line_of xs)) = length (filter isl xs)"
  by (induction xs rule: commits_in.induct) (auto simp: parseRevListLine_printed)

lemma lines_read:
  assumes "list_all line_ok xs" "stdout_of (ch_rounds ch) = concat (map (\<lambda>x. line_of x @ [nl]) xs)"
  shows "stream_records nl (stdout_of (ch_rounds ch)) = map line_of xs"
  using records_of_lines [of "map line_of xs"] line_of_clean assms by (simp add: comp_def list_all_iff)

text \<open>
  C5. The graph shown is the history git printed: for any query, whatever pieces the output
  of rev-list came in and whatever unreadable lines stand between its records, the walk returns the
  finished graph of exactly the printed commits in their order, each with its parents and its time
  clamped to 32 bits; unreadable lines are counted and skipped, and a limit that was reached is
  marked as truncation.
\<close>

theorem walk_draws_history:
  assumes "walk_alone multiplier dir q cancelledAt lateAt ch" "list_all line_ok xs"
    and "stdout_of (ch_rounds ch) = concat (map (\<lambda>x. line_of x @ [nl]) xs)"
    and "walk multiplier git oid queued dir q cancelledAt lateAt ch = Some (chunks, skipped, res)"
  shows "res = Inr (snapshot (finish (mark_limit q (build (walkOptions q) (drawn q (commits_in xs)))))) \<and>
    (length (drawn q (commits_in xs)) \<le> 2000000 \<longrightarrow> skipped = length (filter isl xs))"
  using walk_exact(1,3) [OF assms(1,4)] lines_read [OF assms(2,3)] read_commits_lines [OF assms(2)] skipped_lines [OF assms(2)]
  by (simp add: walkOptions_def)

section \<open>Publishing on the way\<close>

text \<open>
  The rows copied over all chunks, in multiples of the largest gap: linear while the gap still
  doubles, and quadratic over the gap from there on.
\<close>

lemma schedule_cost:
  assumes "on_schedule ks" "ks \<noteq> []"
  shows "kMaxChunkRows * sum_list ks \<le> (2 * kMaxChunkRows + last ks) * last ks"
  using assms
proof (induction ks rule: rev_induct)
  case (snoc k ks)
  let ?M = kMaxChunkRows
  show ?case
  proof (cases "ks = []")
    case False
    let ?j = "last ks"
    have step: "?j + chunk_gap ?j \<le> k" and IH: "?M * sum_list ks \<le> (2 * ?M + ?j) * ?j"
      using snoc False by (auto simp: on_schedule_def successively_append_iff)
    have "(2 * ?M + ?j) * ?j + ?M * k \<le> (2 * ?M + k) * k"
    proof (cases "?j \<le> ?M")
      case True
      then have "2 * ?j \<le> k" using step by (simp add: chunk_gap_def)
      then have "?M * (2 * ?j) \<le> ?M * k" by (rule mult_le_mono2)
      moreover have "?j * ?j \<le> k * k" using step by (intro mult_le_mono) auto
      moreover have "(2 * ?M + ?j) * ?j + ?M * k = ?M * (2 * ?j) + ?j * ?j + ?M * k" "(2 * ?M + k) * k = ?M * k + ?M * k + k * k"
        by (simp_all add: algebra_simps)
      ultimately show ?thesis by linarith
    next
      case False
      then have j: "?j + ?M \<le> k" using step by (simp add: chunk_gap_def kFirstChunkRows_def kMaxChunkRows_def split: if_splits)
      then have "(?j + ?M) * (?j + ?M) \<le> k * k" by (intro mult_le_mono)
      moreover have "?M * (?j + ?M) \<le> ?M * k" using j by (intro mult_le_mono) auto
      ultimately show ?thesis by (simp add: algebra_simps)
    qed
    then show ?thesis using IH by (simp add: algebra_simps)
  qed (simp add: algebra_simps)
qed simp

text \<open>
  C36. Publishing never shows anything but the history so far and never costs too much: every
  snapshot published during a walk is the graph of a prefix of the history drawn, each prefix longer
  than the one before by at least the gap, the last snapshot is the finished graph, and the rows
  copied for the others are at most twice the history plus its square over the largest gap.
\<close>

theorem walk_publishes_prefixes:
  assumes "walk_alone multiplier dir q cancelledAt lateAt ch" "list_all line_ok xs"
    and "stdout_of (ch_rounds ch) = concat (map (\<lambda>x. line_of x @ [nl]) xs)"
    and "walk multiplier git oid queued dir q cancelledAt lateAt ch = Some (chunks, skipped, res)"
  shows "\<exists>ks s. res = Inr s \<and> chunks = map (\<lambda>k. snapshot (build (walkOptions q) (take k (drawn q (commits_in xs))))) ks @ [s] \<and>
    on_schedule ks \<and> (let n = length (drawn q (commits_in xs)) in kMaxChunkRows * sum_list ks \<le> (2 * kMaxChunkRows + n) * n)"
proof -
  let ?cs = "drawn q (commits_in xs)"
  obtain ks s where ks: "res = Inr s" "chunks = map (\<lambda>k. snapshot (build (walkOptions q) (take k ?cs))) ks @ [s]"
      "on_schedule ks" "list_all (\<lambda>k. k \<le> length ?cs) ks"
    using walk_exact(1,2) [OF assms(1,4)] lines_read [OF assms(2,3)] read_commits_lines [OF assms(2)] by auto
  have "kMaxChunkRows * sum_list ks \<le> (2 * kMaxChunkRows + length ?cs) * length ?cs"
  proof (cases "ks = []")
    case False
    then have "last ks \<le> length ?cs" using ks(4) by (simp add: list_all_iff)
    then have "(2 * kMaxChunkRows + last ks) * last ks \<le> (2 * kMaxChunkRows + length ?cs) * length ?cs" by (intro mult_le_mono) auto
    then show ?thesis using schedule_cost [OF ks(3) False] by linarith
  qed simp
  with ks show ?thesis by auto
qed

section \<open>Linear walks\<close>

lemma bridge_shape: "length (bridge cs) = length cs" "map fst (bridge cs) = map fst cs"
  by (induction cs rule: bridge.induct) simp_all

lemma bridge_parents: "Suc r < length cs \<Longrightarrow> parents_of_commit (bridge cs ! r) = [fst (cs ! Suc r)]"
proof (induction cs arbitrary: r rule: bridge.induct)
  case (3 c d cs)
  then show ?case by (cases r) (simp_all add: parents_of_commit_def)
qed simp_all

lemma length_links_bridge: "length (links (bridge cs)) \<le> length cs + (if cs = [] then 0 else length (parents_of_commit (last cs)))"
proof -
  have len: "length (links hs) = sum_list (map (\<lambda>c. length (parents_of_commit c)) hs)" for hs
    by (induction hs rule: rev_induct) simp_all
  show ?thesis unfolding len
    by (induction cs rule: bridge.induct) (auto simp: parents_of_commit_def)
qed

lemma parentsOf_cong:
  assumes "map rm_parentOffset (gs_rows s) = map rm_parentOffset (gs_rows s')" "gs_parentPool s = gs_parentPool s'"
  shows "parentsOf s r = parentsOf s' r"
proof -
  have len: "length (gs_rows s) = length (gs_rows s')" using assms(1) map_eq_imp_length_eq by blast
  have "rm_parentOffset (gs_rows s ! i) = rm_parentOffset (gs_rows s' ! i)" if "i < length (gs_rows s')" for i
    using assms(1) that len by (metis nth_map)
  then show ?thesis by (simp add: parentsOf_def parentCountOf_def Let_def len assms(2))
qed

lemma finish_parentsOf:
  assumes inv: "walk_inv options gb hs"
  shows "parentsOf (snapshot (finish gb)) r = parentsOf (snapshot gb) r"
proof (rule parentsOf_cong)
  note len = finish_frame(6) [OF walk_invD(6) [OF inv]]
  show "map rm_parentOffset (gs_rows (snapshot (finish gb))) = map rm_parentOffset (gs_rows (snapshot gb))"
    by (rule nth_equalityI) (use finish_rows [OF inv] walk_invD(2) [OF inv] len in \<open>auto simp del: o_apply\<close>)
  show "gs_parentPool (snapshot (finish gb)) = gs_parentPool (snapshot gb)" by (simp add: finish_frame [OF walk_invD(6) [OF inv]])
qed

lemma next_row_Suc:
  assumes "Suc r < length oids"
  shows "next_row oids r (oids ! Suc r) = Suc r"
  using assms by (simp add: next_row_def upt_conv_Cons)

text \<open>
  A walk narrowed to one branch without merges is drawn as one line: every commit printed
  has its row, in order, and every row but the last has exactly the next row as its parent, whatever
  parents git recorded.
\<close>

theorem linear_walk_one_line:
  assumes "walk_alone multiplier dir q cancelledAt lateAt ch" "list_all line_ok xs" "isLinearWalk q"
    and "stdout_of (ch_rounds ch) = concat (map (\<lambda>x. line_of x @ [nl]) xs)"
    and "walk multiplier git oid queued dir q cancelledAt lateAt ch = Some (chunks, skipped, res)"
    and "cs = commits_in xs" "length cs \<le> 2000000" "list_all (\<lambda>c. length (parents_of_commit c) < 2 ^ 31) cs"
  shows "\<exists>s. res = Inr s \<and> gs_oids s = map fst cs \<and> (\<forall>r. Suc r < length cs \<longrightarrow> parentsOf s r = [Suc r])"
proof -
  let ?opt = "walkOptions q" and ?hs = "bridge cs"
  let ?b = "mark_limit q (build ?opt ?hs)"
  have take: "take (go_maxRows ?opt) ?hs = ?hs" using assms(7) by (simp add: walkOptions_def bridge_shape)
  have "length (links ?hs) < 2 ^ 32"
    using length_links_bridge [of cs] assms(7,8) by (cases "cs = []") (auto simp: list_all_iff dest!: bspec [OF _ last_in_set])
  then have ok: "walk_ok ?opt ?hs" by (simp add: walk_ok_def walkOptions_def)
  then have "walk_inv ?opt (build ?opt ?hs) ?hs" using walk.build_inv [of ?opt ?hs] by (simp add: take)
  then have inv: "walk_inv ?opt ?b ?hs" by (simp add: mark_limit_def walk_inv_mark)
  have res: "res = Inr (snapshot (finish ?b))"
    using walk_exact(1) [OF assms(1,5)] lines_read [OF assms(2,4)] read_commits_lines [OF assms(2)] assms(3,6) by (simp add: drawn_def)
  have "parentsOf (snapshot (finish ?b)) r = [Suc r]" if "Suc r < length cs" for r
    using that parentsOf_walk [OF inv ok, of r "snapshot ?b"] bridge_parents [OF that] next_row_Suc [of r "map fst cs"]
    by (simp add: finish_parentsOf [OF inv] bridge_shape)
  moreover have "gs_oids (snapshot (finish ?b)) = map fst cs"
    using finish_fold [of "all_pending ?b" ?b] pending_edges_open [OF walk_invD(6) [OF inv]] walk_invD(3) [OF inv]
    by (simp add: finish_def Let_def bridge_shape)
  ultimately show ?thesis using res by blast
qed

section \<open>A concrete walk\<close>

text \<open>A git that prints a text at once and exits, run for a command with no input and no idle limit.\<close>

definition text_child :: "string \<Rightarrow> Child" where
  "text_child s = demo_child\<lparr>ch_rounds :=
     [demo_round 1 (Ready (Some (1, Bytes s)) (Some (1, Eof)) None), demo_round 2 (Ready (Some (2, Eof)) None None)]\<rparr>"

lemma left_alone_timeless:
  assumes "idle \<le> 0" "list_all (\<lambda>r. (timeout > 0 \<longrightarrow> ms_left start timeout (rd_totalClock r) > 0) \<and> rd_poll r \<noteq> PollFailed \<and> \<not> rd_killed r) rs"
  shows "left_alone sink inp start timeout idle rs p"
  using assms(2)
  by (induction rs arbitrary: p) (use assms(1) in \<open>auto simp: undisturbed_def split: Turn.splits\<close>)

lemma rev_list_local:
  "withTransferProgress (git_command dir (toRevListArgs q)) = git_command dir (toRevListArgs q)"
  "effectiveDeadlines 1 (git_command dir (toRevListArgs q)) = \<lparr>ed_total = 300000, ed_idle = 0\<rparr>"
  by (simp_all add: withTransferProgress_def isNetworkCommand_def git_command_def toRevListArgs_def effectiveDeadlines_def
    scaledTimeout_def kLocalCeiling_def)

lemma text_child_alone: "runs_alone 1 (git_command dir (toRevListArgs q)) nl sink (text_child s) st"
  unfolding runs_alone_def Let_def rev_list_local
  by (auto simp: text_child_def demo_child_def demo_round_def git_command_def ms_left_def simp del: left_alone.simps intro!: left_alone_timeless)

lemma text_child_ends: "\<exists>chunks skipped res. walk 1 git oid queued dir q cancelledAt lateAt (text_child s) = Some (chunks, skipped, res)"
proof -
  let ?sink = "walkSink q cancelledAt lateAt"
  have "pump_loop ?sink None 0 300000 0 (ch_rounds (text_child s)) (new_pump nl False 0 (new_walk q)) \<noteq> None"
    by (simp add: text_child_def demo_round_def pump_loop.simps turn_def ms_left_def pollTurn_def readStdout_def readStderr_def
      writeStdin_def new_pump_def split: prod.splits bool.splits)
  then have "\<exists>x. streamSeparated 1 git oid queued (git_command dir (toRevListArgs q)) nl ?sink (text_child s) (new_walk q) = Some x"
    unfolding streamSeparated_def execute_def childWait_def rev_list_local Let_def
    by (auto simp: pump_def text_child_def demo_child_def git_command_def)
  then show ?thesis by (auto simp: walk_def Let_def split: sum.splits)
qed

definition demo_query :: HistoryQuery where
  "demo_query = \<lparr>hq_seedRefs = [], hq_includeRefs = [], hq_excludeRefs = [], hq_pathFilter = None, hq_grep = None, hq_author = None,
     hq_since = None, hq_until = None, hq_firstParentOnly = False, hq_noMerges = False, hq_includeReflog = False, hq_maxCount = 0,
     hq_trunkTip = null_oid\<rparr>"

definition demo_lines :: "(string + commit) list" where
  "demo_lines = [Inr (demo_oid 1, [demo_oid 2], 90), Inl ''warning'', Inr (demo_oid 3, [demo_oid 2], 80)]"

definition demo_output :: string where
  "demo_output = concat (map (\<lambda>x. line_of x @ [nl]) demo_lines)"

lemma demo_oid_printable: "printable_oid (demo_oid b)"
  by (simp add: printable_oid_def demo_oid_def wf_oid_def isNull_def kMaxBytes_def kSha1Bytes_def)

lemma demo_lines_ok: "list_all line_ok demo_lines"
  by (simp add: demo_lines_def printable_def demo_oid_printable parseRevListLine_def nextToken_def from_chars_def is_digit_def
    new_record_def)

lemma demo_walk_alone:
  "walk_alone 1 dir q (\<lambda>_. False) lateAt (text_child demo_output)"
  "stdout_of (ch_rounds (text_child demo_output)) = concat (map (\<lambda>x. line_of x @ [nl]) demo_lines)"
  using text_child_alone
  by (simp_all add: walk_alone_def text_child_def demo_child_def demo_round_def demo_output_def)

theorem walk_draws_history_witness:
  "\<exists>chunks. walk 1 ''git'' 7 0 ''r'' demo_query (\<lambda>_. False) (\<lambda>_. False) (text_child demo_output) =
     Some (chunks, 1, Inr (snapshot (finish (build (walkOptions demo_query) [(demo_oid 1, [demo_oid 2], 90), (demo_oid 3, [demo_oid 2], 80)]))))"
proof -
  obtain chunks skipped res where run:
      "walk 1 ''git'' 7 0 ''r'' demo_query (\<lambda>_. False) (\<lambda>_. False) (text_child demo_output) = Some (chunks, skipped, res)"
    using text_child_ends by blast
  have "drawn demo_query (commits_in demo_lines) = [(demo_oid 1, [demo_oid 2], 90), (demo_oid 3, [demo_oid 2], 80)]"
    by (simp add: drawn_def isLinearWalk_def demo_query_def demo_lines_def clamped_def)
  with walk_draws_history [OF demo_walk_alone(1) demo_lines_ok demo_walk_alone(2) run] run show ?thesis
    by (auto simp: mark_limit_def demo_query_def demo_lines_def)
qed

theorem walk_publishes_prefixes_witness:
  "\<exists>ks s skipped. walk 1 ''git'' 7 0 ''r'' demo_query (\<lambda>_. False) (\<lambda>_. False) (text_child demo_output) =
     Some (map (\<lambda>k. snapshot (build (walkOptions demo_query) (take k (drawn demo_query (commits_in demo_lines))))) ks @ [s], skipped, Inr s) \<and>
     on_schedule ks"
proof -
  obtain chunks skipped res where run:
      "walk 1 ''git'' 7 0 ''r'' demo_query (\<lambda>_. False) (\<lambda>_. False) (text_child demo_output) = Some (chunks, skipped, res)"
    using text_child_ends by blast
  from walk_publishes_prefixes [OF demo_walk_alone(1) demo_lines_ok demo_walk_alone(2) run] run show ?thesis by auto
qed

theorem linear_walk_one_line_witness:
  "\<exists>chunks skipped s. walk 1 ''git'' 7 0 ''r'' (demo_query\<lparr>hq_includeRefs := [''refs/heads/x''], hq_noMerges := True\<rparr>) (\<lambda>_. False) (\<lambda>_. False)
     (text_child demo_output) = Some (chunks, skipped, Inr s) \<and> gs_oids s = [demo_oid 1, demo_oid 3] \<and> parentsOf s 0 = [1]"
proof -
  let ?q = "demo_query\<lparr>hq_includeRefs := [''refs/heads/x''], hq_noMerges := True\<rparr>"
  obtain chunks skipped res where run:
      "walk 1 ''git'' 7 0 ''r'' ?q (\<lambda>_. False) (\<lambda>_. False) (text_child demo_output) = Some (chunks, skipped, res)"
    using text_child_ends by blast
  have linear: "isLinearWalk ?q" by (simp add: isLinearWalk_def)
  have cs: "commits_in demo_lines = [(demo_oid 1, [demo_oid 2], 90), (demo_oid 3, [demo_oid 2], 80)]"
    by (simp add: demo_lines_def clamped_def)
  from linear_walk_one_line [OF demo_walk_alone(1) demo_lines_ok linear demo_walk_alone(2) run refl] run show ?thesis
    by (auto simp: cs parents_of_commit_def)
qed

end
