(* ===== verification/CommitMetas.thy ===== *)
theory CommitMetas
  imports RefStores
begin

text \<open>
  \<^verbatim>\<open>src/core/git/CommitMeta\<close>, \<^verbatim>\<open>ReflogStore\<close>, \<^verbatim>\<open>BlameStore\<close> and \<^verbatim>\<open>FileHistoryStore\<close>: what is read from raw
  commit objects, from \<^verbatim>\<open>git reflog\<close>, \<^verbatim>\<open>git blame --line-porcelain\<close>, \<^verbatim>\<open>git log --follow\<close> and \<^verbatim>\<open>git log -L\<close>.
  The process runner is an argument, \<open>run\<close>, from the arguments of a command to its output.
\<close>

section \<open>Numbers\<close>

text \<open>\<^verbatim>\<open>std::from_chars\<close> for \<^verbatim>\<open>std::int64_t\<close>, the target starting at 0.\<close>

definition parseInt :: "string \<Rightarrow> int" where
  "parseInt s =
     (if s \<noteq> [] \<and> hd s = CHR ''-''
      then (let ds = takeWhile is_digit (tl s) in if ds = [] \<or> dec_value ds > 2 ^ 63 then 0 else - int (dec_value ds))
      else case fst (from_chars 63 s) of Some n \<Rightarrow> int n | None \<Rightarrow> 0)"

definition is_space :: "char \<Rightarrow> bool" where
  "is_space c \<longleftrightarrow> c = CHR '' '' \<or> 9 \<le> (of_char c :: nat) \<and> (of_char c :: nat) \<le> 13"

text \<open>\<^verbatim>\<open>std::strtoll\<close> in base 10, and \<^verbatim>\<open>std::atoi\<close> as its truncation to 32 bits.\<close>

definition strtoll :: "string \<Rightarrow> int" where
  "strtoll s =
     (let s = dropWhile is_space s;
          negative = (s \<noteq> [] \<and> hd s = CHR ''-'');
          s = (if s \<noteq> [] \<and> (hd s = CHR ''-'' \<or> hd s = CHR ''+'') then tl s else s);
          v = int (dec_value (takeWhile is_digit s))
      in if negative then max (- v) (- (2 ^ 63)) else min v (2 ^ 63 - 1))"

definition atoi :: "string \<Rightarrow> int" where
  "atoi s = (strtoll s + 2 ^ 31) mod 2 ^ 32 - 2 ^ 31"

fun rfind_char :: "char \<Rightarrow> string \<Rightarrow> nat option" where
  "rfind_char c [] = None"
| "rfind_char c (x # xs) =
     (case rfind_char c xs of Some i \<Rightarrow> Some (Suc i) | None \<Rightarrow> if x = c then Some 0 else None)"

section \<open>Commit objects\<close>

record Signature =
  sg_name :: string
  sg_email :: string
  sg_when :: int
  sg_tzOffsetMinutes :: int

definition new_signature :: Signature where
  "new_signature = \<lparr>sg_name = [], sg_email = [], sg_when = 0, sg_tzOffsetMinutes = 0\<rparr>"

record CommitMeta =
  cm_oid :: ObjectId
  cm_tree :: ObjectId
  cm_parents :: "ObjectId list"
  cm_author :: Signature
  cm_committer :: Signature
  cm_subject :: string
  cm_body :: string
  cm_signedCommit :: bool

definition new_meta :: "ObjectId \<Rightarrow> CommitMeta" where
  "new_meta oid = \<lparr>cm_oid = oid, cm_tree = null_oid, cm_parents = [], cm_author = new_signature, cm_committer = new_signature,
     cm_subject = [], cm_body = [], cm_signedCommit = False\<rparr>"

definition drop_back :: "(char \<Rightarrow> bool) \<Rightarrow> string \<Rightarrow> string" where
  "drop_back P s = rev (dropWhile P (rev s))"

definition parseZone :: "string \<Rightarrow> int" where
  "parseZone zone =
     (if length zone \<ge> 5
      then (if hd zone = CHR ''-'' then -1 else 1) * (parseInt (substr zone 1 2) * 60 + parseInt (substr zone 3 2))
      else 0)"

text \<open>What stands behind the mail address.\<close>

definition parseWhen :: "string \<Rightarrow> Signature \<Rightarrow> Signature" where
  "parseWhen rest signature =
     (let rest = dropWhile (\<lambda>c. c = CHR '' '') rest
      in if rest = [] then signature
         else case find_char (CHR '' '') rest of
                None \<Rightarrow> signature\<lparr>sg_when := parseInt rest\<rparr>
              | Some space \<Rightarrow>
                  signature\<lparr>sg_when := parseInt (take space rest), sg_tzOffsetMinutes := parseZone (drop (space + 1) rest)\<rparr>)"

definition parseSignature :: "string \<Rightarrow> Signature" where
  "parseSignature txt =
     (case rfind_char (CHR ''>'') txt of
        None \<Rightarrow> new_signature\<lparr>sg_name := txt\<rparr>
      | Some emailEnd \<Rightarrow>
          (case rfind_char (CHR ''<'') (take (emailEnd + 1) txt) of
             None \<Rightarrow> new_signature\<lparr>sg_name := txt\<rparr>
           | Some emailStart \<Rightarrow>
               parseWhen (drop (emailEnd + 1) txt)
                 (new_signature\<lparr>sg_name := drop_back (\<lambda>c. c = CHR '' '') (take emailStart txt),
                                sg_email := substr txt (emailStart + 1) (emailEnd - emailStart - 1)\<rparr>)))"

text \<open>One header line.\<close>

definition headerLine :: "string \<Rightarrow> CommitMeta \<Rightarrow> CommitMeta" where
  "headerLine line meta =
     (if starts_with line ''tree '' then meta\<lparr>cm_tree := fromHex (drop 5 line)\<rparr>
      else if starts_with line ''parent ''
      then (let parent = fromHex (drop 7 line)
            in if isNull parent then meta else meta\<lparr>cm_parents := cm_parents meta @ [parent]\<rparr>)
      else if starts_with line ''author '' then meta\<lparr>cm_author := parseSignature (drop 7 line)\<rparr>
      else if starts_with line ''committer '' then meta\<lparr>cm_committer := parseSignature (drop 10 line)\<rparr>
      else if starts_with line ''gpgsig'' then meta\<lparr>cm_signedCommit := True\<rparr>
      else meta)"

text \<open>The rest of the text behind its first line feed.\<close>

definition after_line :: "string \<Rightarrow> string" where
  "after_line raw = drop 1 (dropWhile (\<lambda>c. c \<noteq> nl) raw)"

lemma after_line_shorter:
  assumes "raw \<noteq> []"
  shows "length (after_line raw) < length raw"
proof -
  have "length (dropWhile (\<lambda>c. c \<noteq> nl) raw) \<le> length raw" "0 < length raw" using assms by (simp_all add: length_dropWhile_le)
  then show ?thesis unfolding after_line_def length_drop by linarith
qed

function skipContinuations :: "string \<Rightarrow> string" where
  "skipContinuations raw = (if raw \<noteq> [] \<and> hd raw = CHR '' '' then skipContinuations (after_line raw) else raw)"
  by auto
termination by (relation "measure length") (auto simp: after_line_shorter)

declare skipContinuations.simps [simp del]

lemma skipContinuations_length: "length (skipContinuations raw) \<le> length raw"
proof (induction raw rule: skipContinuations.induct)
  case (1 raw)
  then show ?case using after_line_shorter [of raw] by (cases "raw \<noteq> [] \<and> hd raw = CHR '' ''") (auto simp: skipContinuations.simps [of raw])
qed

function parseHeaders :: "string \<Rightarrow> CommitMeta \<Rightarrow> CommitMeta \<times> string" where
  "parseHeaders raw meta =
     (if raw = [] then (meta, [])
      else let line = takeWhile (\<lambda>c. c \<noteq> nl) raw
           in if line = [] then (meta, after_line raw)
              else parseHeaders (skipContinuations (after_line raw)) (headerLine line meta))"
  by auto
termination
proof (relation "measure (\<lambda>(raw, meta). length raw)")
  fix raw :: string and meta line
  assume "raw \<noteq> []"
  then have "length (skipContinuations (after_line raw)) < length raw"
    using skipContinuations_length [of "after_line raw"] after_line_shorter [of raw] by simp
  then show "((skipContinuations (after_line raw), headerLine line meta), raw, meta) \<in> measure (\<lambda>(raw, meta). length raw)" by simp
qed simp

declare parseHeaders.simps [simp del]

definition is_line_end :: "char \<Rightarrow> bool" where
  "is_line_end c \<longleftrightarrow> c = nl \<or> c = cr"

definition parseMessage :: "string \<Rightarrow> CommitMeta \<Rightarrow> CommitMeta" where
  "parseMessage message meta =
     (case find_char nl message of
        None \<Rightarrow> meta\<lparr>cm_subject := message\<rparr>
      | Some subjectEnd \<Rightarrow>
          meta\<lparr>cm_subject := take subjectEnd message,
               cm_body := drop_back is_line_end (dropWhile is_line_end (drop (subjectEnd + 1) message))\<rparr>)"

definition parseRawCommit :: "ObjectId \<Rightarrow> string \<Rightarrow> CommitMeta" where
  "parseRawCommit oid raw = (let (meta, message) = parseHeaders raw (new_meta oid) in parseMessage message meta)"

section \<open>The reflog\<close>

text \<open>
  The loop over the columns of a line: column \<open>i\<close> is handed to the setter, up to the limit; the rest
  of the line is not looked at.
\<close>

definition readColumns :: "nat \<Rightarrow> (nat \<Rightarrow> string \<Rightarrow> 'e \<Rightarrow> 'e) \<Rightarrow> string \<Rightarrow> 'e \<Rightarrow> 'e" where
  "readColumns limit setColumn line e = fold (\<lambda>(col, v). setColumn col v) (enumerate 0 (take limit (splitOn (CHR 0x09) line))) e"

definition parseReflogIndex :: "string \<Rightarrow> int" where
  "parseReflogIndex gd =
     (case find_char (CHR 0x7B) gd of
        None \<Rightarrow> 0
      | Some open' \<Rightarrow>
          (case find_char_from (CHR 0x7D) gd open' of
             None \<Rightarrow> 0
           | Some close' \<Rightarrow> (case from_chars_int (substr gd (open' + 1) (close' - open' - 1)) of Some v \<Rightarrow> v | None \<Rightarrow> 0)))"

record ReflogEntry =
  rl_index :: int
  rl_oid :: ObjectId
  rl_message :: string
  rl_who :: Signature

definition new_reflog :: ReflogEntry where
  "new_reflog = \<lparr>rl_index = 0, rl_oid = null_oid, rl_message = [], rl_who = new_signature\<rparr>"

definition reflogColumn :: "nat \<Rightarrow> string \<Rightarrow> ReflogEntry \<Rightarrow> ReflogEntry" where
  "reflogColumn col v e =
     (if col = 0 then e\<lparr>rl_oid := fromHex v\<rparr>
      else if col = 1 then e\<lparr>rl_index := parseReflogIndex v\<rparr>
      else if col = 2 then e\<lparr>rl_who := (rl_who e)\<lparr>sg_name := v\<rparr>\<rparr>
      else if col = 3 then e\<lparr>rl_who := (rl_who e)\<lparr>sg_email := v\<rparr>\<rparr>
      else if col = 4 then e\<lparr>rl_who := (rl_who e)\<lparr>sg_when := parseInt v\<rparr>\<rparr>
      else e\<lparr>rl_message := v\<rparr>)"

definition reflogArgs :: "string \<Rightarrow> string list" where
  "reflogArgs ref = [''reflog'', ''show'', ''--format=%H%x09%gd%x09%an%x09%ae%x09%at%x09%gs'', if ref = [] then ''HEAD'' else ref]"

definition reflogLines :: "string \<Rightarrow> ReflogEntry list" where
  "reflogLines out = map (\<lambda>line. readColumns 6 reflogColumn line new_reflog) (filter (\<lambda>line. line \<noteq> []) (splitOn nl out))"

definition reflog_list :: "(string list \<Rightarrow> string GitResult) \<Rightarrow> string \<Rightarrow> ReflogEntry list GitResult" where
  "reflog_list run ref = (case run (reflogArgs ref) of Inl e \<Rightarrow> Inl e | Inr out \<Rightarrow> Inr (reflogLines out))"

section \<open>Blame\<close>

record BlameLine =
  bl_commitOid :: ObjectId
  bl_authorName :: string
  bl_authorEmail :: string
  bl_authorTime :: int
  bl_summary :: string
  bl_finalLine :: int
  bl_originalLine :: int
  bl_content :: string
  bl_boundary :: bool

definition new_blame :: BlameLine where
  "new_blame = \<lparr>bl_commitOid = null_oid, bl_authorName = [], bl_authorEmail = [], bl_authorTime = 0, bl_summary = [],
     bl_finalLine = 0, bl_originalLine = 0, bl_content = [], bl_boundary = False\<rparr>"

record BlameResult =
  br_lines :: "BlameLine list"
  br_truncated :: bool

definition kMaxBlameBytes :: nat where "kMaxBlameBytes = 16 * 1024 * 1024"

definition is_xdigit :: "char \<Rightarrow> bool" where
  "is_xdigit c \<longleftrightarrow> (let n = of_char c :: nat in 48 \<le> n \<and> n \<le> 57 \<or> 65 \<le> n \<and> n \<le> 70 \<or> 97 \<le> n \<and> n \<le> 102)"

definition looksLikeObjectHex :: "string \<Rightarrow> bool" where
  "looksLikeObjectHex token \<longleftrightarrow> (length token = 40 \<or> length token = 64) \<and> list_all is_xdigit token"

definition update_last :: "('a \<Rightarrow> 'a) \<Rightarrow> 'a list \<Rightarrow> 'a list" where
  "update_last f xs = (if xs = [] then [] else butlast xs @ [f (last xs)])"

definition blameField :: "string \<Rightarrow> BlameLine \<Rightarrow> BlameLine" where
  "blameField line current =
     (if starts_with line ''author '' then current\<lparr>bl_authorName := drop 7 line\<rparr>
      else if starts_with line ''author-mail ''
      then (let mail = drop 12 line
            in current\<lparr>bl_authorEmail :=
                 if length mail \<ge> 2 \<and> hd mail = CHR ''<'' \<and> last mail = CHR ''>'' then substr mail 1 (length mail - 2) else mail\<rparr>)
      else if starts_with line ''author-time '' then current\<lparr>bl_authorTime := strtoll (drop 12 line)\<rparr>
      else if starts_with line ''summary '' then current\<lparr>bl_summary := drop 8 line\<rparr>
      else if line = ''boundary'' then current\<lparr>bl_boundary := True\<rparr>
      else current)"

text \<open>The line that opens an entry: an object id and two or three numbers.\<close>

definition blameHeader :: "string list \<Rightarrow> BlameLine" where
  "blameHeader tokens =
     (let entry = new_blame\<lparr>bl_commitOid := fromHex (tokens ! 0), bl_originalLine := atoi (tokens ! 1)\<rparr>
      in if length tokens > 2 then entry\<lparr>bl_finalLine := atoi (tokens ! 2)\<rparr> else entry)"

definition blameStep :: "BlameLine list \<Rightarrow> string \<Rightarrow> BlameLine list" where
  "blameStep lines line =
     (if line = [] then lines
      else if hd line = CHR 0x09 then update_last (\<lambda>l. l\<lparr>bl_content := drop 1 line\<rparr>) lines
      else let tokens = splitOn (CHR '' '') line
           in if length tokens > 1 \<and> looksLikeObjectHex (hd tokens) then lines @ [blameHeader tokens]
              else update_last (blameField line) lines)"

definition blameArgs :: "string \<Rightarrow> string \<Rightarrow> int \<Rightarrow> int \<Rightarrow> string list" where
  "blameArgs path revision startLine endLine =
     [''blame'', ''--line-porcelain''] @
     (if startLine > 0 \<and> endLine > 0 then [''-L'', int_to_string startLine @ '','' @ int_to_string endLine] else []) @
     (if revision \<noteq> [] then [revision] else []) @ [''--'', path]"

definition blameText :: "string \<Rightarrow> BlameResult" where
  "blameText out =
     \<lparr>br_lines = foldl blameStep [] (splitOn nl (take kMaxBlameBytes out)), br_truncated = length out > kMaxBlameBytes\<rparr>"

definition blame :: "(string list \<Rightarrow> string GitResult) \<Rightarrow> string \<Rightarrow> string \<Rightarrow> int \<Rightarrow> int \<Rightarrow> BlameResult GitResult" where
  "blame run path revision startLine endLine =
     (if path = [] then Inl (git_error InvalidArgument ''No file selected to blame'' [])
      else case run (blameArgs path revision startLine endLine) of
             Inl e \<Rightarrow> Inl e
           | Inr out \<Rightarrow> Inr (blameText out))"

section \<open>The history of a file\<close>

record FileHistoryEntry =
  fh_oid :: ObjectId
  fh_author :: Signature
  fh_subject :: string
  fh_status :: string
  fh_renamedFrom :: string
  fh_path :: string

definition new_file_history :: FileHistoryEntry where
  "new_file_history = \<lparr>fh_oid = null_oid, fh_author = new_signature, fh_subject = [], fh_status = [], fh_renamedFrom = [], fh_path = []\<rparr>"

record LineHistoryChunk =
  lh_oid :: ObjectId
  lh_author :: Signature
  lh_subject :: string
  lh_diffText :: string

record CommitFields =
  cf_oid :: ObjectId
  cf_author :: Signature
  cf_subject :: string

definition kRecordMarker :: char where "kRecordMarker = CHR 0x01"

definition commitColumn :: "nat \<Rightarrow> string \<Rightarrow> CommitFields \<Rightarrow> CommitFields" where
  "commitColumn col v f =
     (if col = 0 then f\<lparr>cf_oid := fromHex v\<rparr>
      else if col = 1 then f\<lparr>cf_author := (cf_author f)\<lparr>sg_name := v\<rparr>\<rparr>
      else if col = 2 then f\<lparr>cf_author := (cf_author f)\<lparr>sg_email := v\<rparr>\<rparr>
      else if col = 3 then f\<lparr>cf_author := (cf_author f)\<lparr>sg_when := parseInt v\<rparr>\<rparr>
      else f\<lparr>cf_subject := v\<rparr>)"

definition parseCommitFields :: "string \<Rightarrow> CommitFields" where
  "parseCommitFields rec = readColumns 5 commitColumn rec \<lparr>cf_oid = null_oid, cf_author = new_signature, cf_subject = []\<rparr>"

text \<open>A name-status line, for the commit above it.\<close>

definition nameStatusLine :: "string \<Rightarrow> FileHistoryEntry \<Rightarrow> FileHistoryEntry" where
  "nameStatusLine line e =
     (case find_char (CHR 0x09) line of
        None \<Rightarrow> e
      | Some tab \<Rightarrow>
          (let status = take tab line; rest = drop (tab + 1) line;
               e = e\<lparr>fh_status := status, fh_path := last (splitOn (CHR 0x09) line)\<rparr>
           in if status \<noteq> [] \<and> (hd status = CHR ''R'' \<or> hd status = CHR ''C'')
              then (case find_char (CHR 0x09) rest of None \<Rightarrow> e | Some tab2 \<Rightarrow> e\<lparr>fh_renamedFrom := take tab2 rest\<rparr>)
              else e))"

definition fileHistoryStep :: "FileHistoryEntry list \<Rightarrow> string \<Rightarrow> FileHistoryEntry list" where
  "fileHistoryStep entries line =
     (if line = [] then entries
      else if hd line = kRecordMarker
      then (let f = parseCommitFields (drop 1 line)
            in entries @ [new_file_history\<lparr>fh_oid := cf_oid f, fh_author := cf_author f, fh_subject := cf_subject f\<rparr>])
      else update_last (nameStatusLine line) entries)"

definition logFormat :: string where
  "logFormat = ''--format='' @ [kRecordMarker] @ ''%H'' @ [CHR 0x09] @ ''%an'' @ [CHR 0x09] @ ''%ae'' @ [CHR 0x09] @ ''%at'' @ [CHR 0x09] @ ''%s''"

definition fileHistory :: "(string list \<Rightarrow> string GitResult) \<Rightarrow> string \<Rightarrow> string \<Rightarrow> FileHistoryEntry list GitResult" where
  "fileHistory run path startRevision =
     (if path = [] then Inl (git_error InvalidArgument ''No file selected'' [])
      else case run ([''log'', ''--follow'', ''--name-status'', logFormat] @ (if startRevision \<noteq> [] then [startRevision] else []) @ [''--'', path]) of
             Inl e \<Rightarrow> Inl e
           | Inr out \<Rightarrow> Inr (foldl fileHistoryStep [] (splitOn nl out)))"

definition lineHistoryStep :: "LineHistoryChunk list \<Rightarrow> string \<Rightarrow> LineHistoryChunk list" where
  "lineHistoryStep chunks line =
     (if line \<noteq> [] \<and> hd line = kRecordMarker
      then (let f = parseCommitFields (drop 1 line)
            in chunks @ [\<lparr>lh_oid = cf_oid f, lh_author = cf_author f, lh_subject = cf_subject f, lh_diffText = []\<rparr>])
      else update_last (\<lambda>c. c\<lparr>lh_diffText := lh_diffText c @ line @ [nl]\<rparr>) chunks)"

definition lineHistory :: "(string list \<Rightarrow> string GitResult) \<Rightarrow> string \<Rightarrow> int \<Rightarrow> int \<Rightarrow> string \<Rightarrow> LineHistoryChunk list GitResult" where
  "lineHistory run path startLine endLine startRevision =
     (if path = [] \<or> startLine \<le> 0 \<or> endLine < startLine then Inl (git_error InvalidArgument ''Invalid line range'' [])
      else case run ([''log'', ''-L'', int_to_string startLine @ '','' @ int_to_string endLine @ '':'' @ path, logFormat] @
                      (if startRevision \<noteq> [] then [startRevision] else [])) of
             Inl e \<Rightarrow> Inl e
           | Inr out \<Rightarrow> Inr (foldl lineHistoryStep [] (splitOn nl out)))"

end
