(* ===== verification/MetaReading.thy ===== *)
theory MetaReading
  imports CommitMetas RefReading
begin

text \<open>
  What git prints about commits is read back: signatures, whole commit objects with headers of any
  kind, the reflog, blame and the history of a file.
\<close>

section \<open>Numbers and ends\<close>

lemma parseInt_text:
  assumes "\<bar>n\<bar> < 2 ^ 63" and "\<forall>c cs. t = c # cs \<longrightarrow> \<not> is_digit c"
  shows "parseInt (int_to_string n @ t) = n"
proof (cases "n < 0")
  case True
  then show ?thesis using assms by (auto simp: parseInt_def int_to_string_def takeWhile_digits_to_string Let_def)
next
  case False
  then have "nat n < 2 ^ 63" using assms(1) by auto
  have "hd (to_string (nat n) @ t) \<noteq> CHR ''-''" using hd_to_string [of "nat n"] letters_not_digits(4) by (metis hd_append2 to_string_nonempty)
  then show ?thesis
    using False from_chars_to_string [OF \<open>nat n < 2 ^ 63\<close> assms(2)] by (simp add: parseInt_def int_to_string_def)
qed

lemma rfind_char_None: "rfind_char c s = None \<longleftrightarrow> c \<notin> set s"
  by (induction s) (auto split: option.splits)

lemma rfind_char_append: "c \<notin> set t \<Longrightarrow> rfind_char c (s @ c # t) = Some (length s)"
proof (induction s)
  case Nil
  then show ?case by (simp add: rfind_char_None [THEN iffD2])
next
  case (Cons x s)
  then show ?case by simp
qed

lemma drop_back_stop: "s = [] \<or> \<not> P (last s) \<Longrightarrow> drop_back P (s @ t) = (if list_all P t then s else s @ drop_back P t)"
proof (induction t rule: rev_induct)
  case Nil
  then show ?case by (cases s rule: rev_cases) (auto simp: drop_back_def)
next
  case (snoc x t)
  then show ?case by (auto simp: drop_back_def list_all_iff dropWhile_append)
qed

lemma take_one_more: "take (length xs + 1) (xs @ y # ys) = xs @ [y]" "drop (length xs + 1) (xs @ y # ys) = ys"
  by simp_all

section \<open>Signatures\<close>

definition two_digits :: "nat \<Rightarrow> string" where
  "two_digits n = [digit_char (n div 10), digit_char (n mod 10)]"

definition zone_text :: "int \<Rightarrow> string" where
  "zone_text tz = (if tz < 0 then CHR ''-'' else CHR ''+'') # two_digits (nat \<bar>tz\<bar> div 60) @ two_digits (nat \<bar>tz\<bar> mod 60)"

lemma parseInt_two_digits: "n < 100 \<Longrightarrow> parseInt (two_digits n) = int n"
proof -
  assume n: "n < 100"
  then have "is_digit (digit_char (n div 10))" by simp
  then have "digit_char (n div 10) \<noteq> CHR ''-''" using letters_not_digits(4) by metis
  moreover have "takeWhile is_digit (two_digits n) = two_digits n" using n by (simp add: two_digits_def)
  moreover have "dec_value (two_digits n) = n" using n by (simp add: two_digits_def dec_value_def)
  ultimately show ?thesis using n by (simp add: parseInt_def from_chars_def Let_def two_digits_def)
qed

lemma parseZone_text: "\<bar>tz\<bar> < 6000 \<Longrightarrow> parseZone (zone_text tz) = tz"
proof -
  assume tz: "\<bar>tz\<bar> < 6000"
  define h m where "h = nat \<bar>tz\<bar> div 60" and "m = nat \<bar>tz\<bar> mod 60"
  have "h < 100" "m < 100" using tz by (auto simp: h_def m_def)
  moreover have "substr (zone_text tz) 1 2 = two_digits h" "substr (zone_text tz) 3 2 = two_digits m" "length (zone_text tz) = 5"
    by (simp_all add: zone_text_def substr_def two_digits_def h_def m_def)
  moreover have "int h * 60 + int m = \<bar>tz\<bar>"
  proof -
    have "h * 60 + m = nat \<bar>tz\<bar>" by (simp add: h_def m_def)
    then show ?thesis by linarith
  qed
  ultimately show ?thesis using parseInt_two_digits by (simp add: parseZone_def zone_text_def)
qed

definition signature_text :: "Signature \<Rightarrow> string" where
  "signature_text s = sg_name s @ '' <'' @ sg_email s @ ''> '' @ int_to_string (sg_when s) @ '' '' @ zone_text (sg_tzOffsetMinutes s)"

text \<open>What git writes into a commit: any name that does not end in a space, any mail address without an opening bracket.\<close>

definition git_signature :: "Signature \<Rightarrow> bool" where
  "git_signature s \<longleftrightarrow> nl \<notin> set (sg_name s) \<and> nl \<notin> set (sg_email s) \<and> (sg_name s = [] \<or> last (sg_name s) \<noteq> CHR '' '') \<and>
     CHR ''<'' \<notin> set (sg_email s) \<and> \<bar>sg_when s\<bar> < 2 ^ 63 \<and> \<bar>sg_tzOffsetMinutes s\<bar> < 6000"

lemma zone_text_chars: "c \<in> set (zone_text tz) \<Longrightarrow> \<bar>tz\<bar> < 6000 \<Longrightarrow> is_digit c \<or> c = CHR ''+'' \<or> c = CHR ''-''"
  by (auto simp: zone_text_def two_digits_def split: if_splits)

lemma int_to_string_chars: "c \<in> set (int_to_string n) \<Longrightarrow> is_digit c \<or> c = CHR ''-''"
  by (auto simp: int_to_string_def dest: to_string_digits split: if_splits)

lemma int_to_string_nonempty [simp]: "int_to_string n \<noteq> []"
  by (simp add: int_to_string_def)

lemma not_digit [simp]:
  "\<not> is_digit CHR '' ''" "\<not> is_digit CHR ''>''" "\<not> is_digit CHR ''<''" "\<not> is_digit CHR 0x0A" "\<not> is_digit CHR 0x09"
  by (simp_all add: is_digit_def)

lemma int_to_string_free: "c \<notin> set (int_to_string n)" if "\<not> is_digit c" "c \<noteq> CHR ''-''"
  using int_to_string_chars that by blast

lemma zone_text_free: "c \<notin> set (zone_text tz)" if "\<not> is_digit c" "c \<noteq> CHR ''-''" "c \<noteq> CHR ''+''" "\<bar>tz\<bar> < 6000"
  using zone_text_chars that by blast

lemma parseWhen_text:
  assumes "\<bar>w\<bar> < 2 ^ 63" "\<bar>tz\<bar> < 6000"
  shows "parseWhen ('' '' @ int_to_string w @ '' '' @ zone_text tz) s = s\<lparr>sg_when := w, sg_tzOffsetMinutes := tz\<rparr>"
proof -
  have "CHR '' '' \<notin> set (int_to_string w)" by (rule int_to_string_free) simp_all
  then have "hd (int_to_string w) \<noteq> CHR '' ''" using hd_in_set [OF int_to_string_nonempty, of w] by metis
  then have "dropWhile (\<lambda>c. c = CHR '' '') ('' '' @ int_to_string w @ '' '' @ zone_text tz) = int_to_string w @ '' '' @ zone_text tz"
    by (cases "int_to_string w") auto
  moreover have "find_char (CHR '' '') (int_to_string w @ CHR '' '' # zone_text tz) = Some (length (int_to_string w))"
    by (rule find_char_append_notin) (rule int_to_string_free, simp_all)
  ultimately show ?thesis
    using parseInt_text [OF assms(1), of "[]"] parseZone_text [OF assms(2)] by (simp add: parseWhen_def Let_def)
qed

lemma signature_reads_back:
  assumes "git_signature s"
  shows "parseSignature (signature_text s) = s"
proof -
  let ?when = "'' '' @ int_to_string (sg_when s) @ '' '' @ zone_text (sg_tzOffsetMinutes s)"
  let ?front = "sg_name s @ '' <'' @ sg_email s"
  have shape: "signature_text s = ?front @ CHR ''>'' # ?when" by (simp add: signature_text_def)
  have wf: "CHR ''<'' \<notin> set (sg_email s)" "sg_name s = [] \<or> last (sg_name s) \<noteq> CHR '' ''" "\<bar>sg_when s\<bar> < 2 ^ 63" "\<bar>sg_tzOffsetMinutes s\<bar> < 6000"
    using assms by (simp_all add: git_signature_def)
  have "CHR ''>'' \<notin> set ?when" using int_to_string_free zone_text_free wf(4) by simp
  then have "rfind_char (CHR ''>'') (signature_text s) = Some (length ?front)" unfolding shape by (rule rfind_char_append)
  moreover have "rfind_char (CHR ''<'') (take (length ?front + 1) (signature_text s)) = Some (length (sg_name s) + 1)"
    unfolding shape take_one_more using rfind_char_append [of "CHR ''<''" "sg_email s @ ''>''" "sg_name s @ '' ''"] wf(1) by simp
  moreover have "drop_back (\<lambda>c. c = CHR '' '') (sg_name s @ '' '') = sg_name s"
    using drop_back_stop [of "sg_name s" "\<lambda>c. c = CHR '' ''" "'' ''"] wf(2) by simp
  moreover have "drop (length ?front + 1) (signature_text s) = ?when" unfolding shape take_one_more ..
  moreover have "take (length (sg_name s) + 1) (signature_text s) = sg_name s @ '' ''" by (simp add: signature_text_def)
  moreover have "substr (signature_text s) (length (sg_name s) + 1 + 1) (length ?front - (length (sg_name s) + 1) - 1) = sg_email s"
    by (simp add: signature_text_def substr_def)
  ultimately have "parseSignature (signature_text s) =
      parseWhen ?when (new_signature\<lparr>sg_name := sg_name s, sg_email := sg_email s\<rparr>)"
    unfolding parseSignature_def by (simp only: option.case)
  also have "\<dots> = s" unfolding parseWhen_text [OF wf(3,4)] by (simp add: new_signature_def)
  finally show ?thesis .
qed

section \<open>Commit objects\<close>

text \<open>A header of a kind this program does not read: its line, and the lines that continue it.\<close>

definition known_header :: "string \<Rightarrow> bool" where
  "known_header line \<longleftrightarrow> starts_with line ''tree '' \<or> starts_with line ''parent '' \<or> starts_with line ''author '' \<or> starts_with line ''committer ''"

definition other_header :: "string \<times> string list \<Rightarrow> bool" where
  "other_header h \<longleftrightarrow> fst h \<noteq> [] \<and> nl \<notin> set (fst h) \<and> hd (fst h) \<noteq> CHR '' '' \<and> \<not> known_header (fst h) \<and> list_all (\<lambda>l. nl \<notin> set l) (snd h)"

definition header_text :: "string \<times> string list \<Rightarrow> string" where
  "header_text h = fst h @ [nl] @ concat (map (\<lambda>l. '' '' @ l @ [nl]) (snd h))"

lemma after_line_append: "nl \<notin> set line \<Longrightarrow> after_line (line @ nl # rest) = rest" "nl \<notin> set line \<Longrightarrow> takeWhile (\<lambda>c. c \<noteq> nl) (line @ nl # rest) = line"
  by (auto simp: after_line_def dropWhile_append takeWhile_append)

lemma skipContinuations_text:
  assumes "list_all (\<lambda>l. nl \<notin> set l) ls" and "rest = [] \<or> hd rest \<noteq> CHR '' ''"
  shows "skipContinuations (concat (map (\<lambda>l. '' '' @ l @ [nl]) ls) @ rest) = rest"
  using assms
proof (induction ls)
  case Nil
  then show ?case by (subst skipContinuations.simps) auto
next
  case (Cons l ls)
  then have "after_line ((CHR '' '' # l) @ nl # concat (map (\<lambda>l. '' '' @ l @ [nl]) ls) @ rest) = concat (map (\<lambda>l. '' '' @ l @ [nl]) ls) @ rest"
    by (intro after_line_append) simp
  with Cons show ?case by (subst skipContinuations.simps) simp
qed

text \<open>One header, with whatever continues it, is one step of the loop.\<close>

lemma parseHeaders_one:
  assumes "nl \<notin> set line" "line \<noteq> []" "list_all (\<lambda>l. nl \<notin> set l) ls" "rest = [] \<or> hd rest \<noteq> CHR '' ''"
  shows "parseHeaders (header_text (line, ls) @ rest) meta = parseHeaders rest (headerLine line meta)"
proof -
  have shape: "header_text (line, ls) @ rest = line @ nl # concat (map (\<lambda>l. '' '' @ l @ [nl]) ls) @ rest" by (simp add: header_text_def)
  show ?thesis unfolding shape
    by (subst parseHeaders.simps) (use assms in \<open>simp add: after_line_append skipContinuations_text [simplified] Let_def\<close>)
qed

lemma parseHeaders_end: "parseHeaders (nl # message) meta = (meta, message)"
  by (subst parseHeaders.simps) (simp add: after_line_def Let_def)

lemma parseHeaders_many:
  assumes "list_all (\<lambda>h. fst h \<noteq> [] \<and> nl \<notin> set (fst h) \<and> hd (fst h) \<noteq> CHR '' '' \<and> list_all (\<lambda>l. nl \<notin> set l) (snd h)) hs"
  shows "parseHeaders (concat (map header_text hs) @ nl # message) meta = (fold (headerLine \<circ> fst) hs meta, message)"
  using assms
proof (induction hs arbitrary: meta)
  case Nil
  then show ?case by (simp add: parseHeaders_end)
next
  case (Cons h hs)
  let ?rest = "concat (map header_text hs) @ nl # message"
  have "hd ?rest \<noteq> CHR '' ''" using Cons.prems by (cases hs) (auto simp: header_text_def)
  then have "parseHeaders (header_text (fst h, snd h) @ ?rest) meta = parseHeaders ?rest (headerLine (fst h) meta)"
    using Cons.prems by (intro parseHeaders_one) auto
  then show ?case using Cons by simp
qed

lemma headers_parents:
  "list_all printable_oid ps \<Longrightarrow> fold (headerLine \<circ> fst) (map (\<lambda>p. (''parent '' @ hex p, [])) ps) meta = meta\<lparr>cm_parents := cm_parents meta @ ps\<rparr>"
  by (induction ps arbitrary: meta) (simp_all add: headerLine_def fromHex_printed, simp add: printable_oid_def)

lemma headers_other:
  "list_all other_header hs \<Longrightarrow>
   fold (headerLine \<circ> fst) hs meta = meta\<lparr>cm_signedCommit := cm_signedCommit meta \<or> list_ex (\<lambda>h. starts_with (fst h) ''gpgsig'') hs\<rparr>"
  by (induction hs arbitrary: meta) (auto simp: headerLine_def other_header_def known_header_def)

text \<open>A commit as git stores it; the message is its subject, and a body behind an empty line.\<close>

definition commit_text :: "CommitMeta \<Rightarrow> (string \<times> string list) list \<Rightarrow> string" where
  "commit_text c others =
     concat (map header_text
       ([(''tree '' @ hex (cm_tree c), [])] @ map (\<lambda>p. (''parent '' @ hex p, [])) (cm_parents c) @
        [(''author '' @ signature_text (cm_author c), []), (''committer '' @ signature_text (cm_committer c), [])] @ others)) @
     [nl] @ cm_subject c @ [nl] @ (if cm_body c = [] then [] else [nl] @ cm_body c @ [nl])"

definition git_commit :: "CommitMeta \<Rightarrow> (string \<times> string list) list \<Rightarrow> bool" where
  "git_commit c others \<longleftrightarrow>
     printable_oid (cm_tree c) \<and> list_all printable_oid (cm_parents c) \<and> git_signature (cm_author c) \<and> git_signature (cm_committer c) \<and>
     list_all other_header others \<and> cm_signedCommit c = list_ex (\<lambda>h. starts_with (fst h) ''gpgsig'') others \<and>
     nl \<notin> set (cm_subject c) \<and> (cm_body c \<noteq> [] \<longrightarrow> \<not> is_line_end (hd (cm_body c)) \<and> \<not> is_line_end (last (cm_body c)))"

lemma signature_text_no_nl: "git_signature s \<Longrightarrow> nl \<notin> set (signature_text s)"
  using int_to_string_free [of nl] zone_text_free [of nl] by (simp add: signature_text_def git_signature_def)

lemma parseMessage_text:
  assumes "nl \<notin> set subject" and "body \<noteq> [] \<longrightarrow> \<not> is_line_end (hd body) \<and> \<not> is_line_end (last body)"
  shows "parseMessage (subject @ [nl] @ (if body = [] then [] else [nl] @ body @ [nl])) meta = meta\<lparr>cm_subject := subject, cm_body := body\<rparr>"
proof (cases "body = []")
  case True
  then show ?thesis using assms(1) by (simp add: parseMessage_def drop_back_def)
next
  case False
  then have "dropWhile is_line_end (nl # body @ [nl]) = body @ [nl]" using assms(2) by (cases body) (auto simp: is_line_end_def)
  moreover have "drop_back is_line_end (body @ [nl]) = body"
    using drop_back_stop [of body is_line_end "[nl]"] False assms(2) by (simp add: is_line_end_def)
  ultimately show ?thesis using False assms(1) by (simp add: parseMessage_def)
qed

lemma raw_commit_read:
  assumes "git_commit c others"
  shows "parseRawCommit (cm_oid c) (commit_text c others) = c"
proof -
  let ?hs = "[(''tree '' @ hex (cm_tree c), [])] @ map (\<lambda>p. (''parent '' @ hex p, [])) (cm_parents c) @
        [(''author '' @ signature_text (cm_author c), []), (''committer '' @ signature_text (cm_committer c), [])] @ others"
  have wf: "printable_oid (cm_tree c)" "list_all printable_oid (cm_parents c)" "git_signature (cm_author c)" "git_signature (cm_committer c)"
    "list_all other_header others" "cm_signedCommit c = list_ex (\<lambda>h. starts_with (fst h) ''gpgsig'') others"
    "nl \<notin> set (cm_subject c)" "cm_body c \<noteq> [] \<longrightarrow> \<not> is_line_end (hd (cm_body c)) \<and> \<not> is_line_end (last (cm_body c))"
    using assms by (simp_all add: git_commit_def)
  have "list_all (\<lambda>h. fst h \<noteq> [] \<and> nl \<notin> set (fst h) \<and> hd (fst h) \<noteq> CHR '' '' \<and> list_all (\<lambda>l. nl \<notin> set l) (snd h)) ?hs"
    using wf(5) signature_text_no_nl [OF wf(3)] signature_text_no_nl [OF wf(4)] hex_not_blank(2)
    by (auto simp: list_all_iff other_header_def)
  note headers = parseHeaders_many [OF this]
  have folded: "fold (headerLine \<circ> fst) ?hs (new_meta (cm_oid c)) =
      \<lparr>cm_oid = cm_oid c, cm_tree = cm_tree c, cm_parents = cm_parents c, cm_author = cm_author c, cm_committer = cm_committer c,
       cm_subject = [], cm_body = [], cm_signedCommit = cm_signedCommit c\<rparr>"
    using wf(6) by (simp add: headers_parents [OF wf(2), simplified] headers_other [OF wf(5)] headerLine_def new_meta_def fromHex_printed [OF wf(1)]
      signature_reads_back [OF wf(3)] signature_reads_back [OF wf(4)])
  show ?thesis
    unfolding parseRawCommit_def commit_text_def using headers folded parseMessage_text [OF wf(7,8)] by simp
qed

text \<open>
  C32. A commit object is read back whole, whatever headers it has: the tree, all parents in
  order, both signatures with any name, the subject, the body, and whether it is signed; signatures
  and merged tags of many lines, and headers not known here, do not disturb it.
\<close>

theorem commit_reads_back:
  assumes "git_commit c others"
  shows "parseRawCommit (cm_oid c) (commit_text c others) = c"
  by (rule raw_commit_read [OF assms])

definition sample_oid :: ObjectId where
  "sample_oid = ObjectId (replicate 20 171 @ replicate 12 0) 20"

definition sample_signature :: Signature where
  "sample_signature = \<lparr>sg_name = ''A <b>'', sg_email = ''a@b'', sg_when = 5, sg_tzOffsetMinutes = -90\<rparr>"

definition sample_commit :: CommitMeta where
  "sample_commit = \<lparr>cm_oid = null_oid, cm_tree = sample_oid, cm_parents = [sample_oid, sample_oid], cm_author = sample_signature,
     cm_committer = sample_signature, cm_subject = ''fix'', cm_body = ''why'', cm_signedCommit = True\<rparr>"

lemma sample_printable: "printable_oid sample_oid"
  by (simp add: printable_oid_def sample_oid_def wf_oid_def isNull_def kMaxBytes_def kSha1Bytes_def)

theorem commit_reads_back_witness:
  "parseRawCommit null_oid (commit_text sample_commit [(''gpgsig -----BEGIN'', [''abc''])]) = sample_commit"
  using commit_reads_back [of sample_commit "[(''gpgsig -----BEGIN'', [''abc''])]"] sample_printable
  by (simp add: git_commit_def sample_commit_def sample_signature_def git_signature_def other_header_def known_header_def is_line_end_def)

section \<open>Columns\<close>

text \<open>The columns of a line, one by one.\<close>

lemma readColumns_joined:
  "list_all (\<lambda>f. CHR 0x09 \<notin> set f) fs \<Longrightarrow> fs \<noteq> [] \<Longrightarrow>
   readColumns n setColumn (joined (CHR 0x09) fs) e = fold (\<lambda>(col, v). setColumn col v) (enumerate 0 (take n fs)) e"
  by (simp add: readColumns_def splitOn_joined)

lemmas column_steps = reflogColumn_def commitColumn_def

text \<open>
  A subject that holds a tab is cut there: the history of a file shows only what stands in
  front of it, although the parser means to keep the tabs of a subject.
\<close>

lemma subject_cut_at_tab:
  assumes "printable_oid oid" and "CHR 0x09 \<notin> set name" "CHR 0x09 \<notin> set email" "CHR 0x09 \<notin> set front"
  shows "cf_subject (parseCommitFields (joined (CHR 0x09) [hex oid, name, email, int_to_string w, front @ CHR 0x09 # back])) = front"
proof -
  have "splitOn (CHR 0x09) (joined (CHR 0x09) [hex oid, name, email, int_to_string w, front @ CHR 0x09 # back]) =
      [hex oid, name, email, int_to_string w, front] @ splitOn (CHR 0x09) back"
    using assms hex_not_blank(4) [of oid] int_to_string_free [of "CHR 0x09" w] by (simp add: splitOn_first)
  then show ?thesis by (simp add: parseCommitFields_def readColumns_def commitColumn_def enumerate_eq_zip)
qed

lemma subject_cut_at_tab_sample:
  "cf_subject (parseCommitFields (joined (CHR 0x09) [hex sample_oid, ''Ann'', ''a@b'', int_to_string 7, ''fix'' @ CHR 0x09 # ''tabs''])) = ''fix''"
  by (rule subject_cut_at_tab [OF sample_printable]) simp_all

section \<open>The reflog\<close>

definition reflog_line :: "string \<Rightarrow> ReflogEntry \<Rightarrow> string" where
  "reflog_line ref e =
     joined (CHR 0x09) [hex (rl_oid e), ref @ CHR 0x40 # CHR 0x7B # to_string (nat (rl_index e)) @ [CHR 0x7D],
       sg_name (rl_who e), sg_email (rl_who e), int_to_string (sg_when (rl_who e)), rl_message e]"

definition plain :: "string \<Rightarrow> bool" where
  "plain s \<longleftrightarrow> CHR 0x09 \<notin> set s \<and> nl \<notin> set s"

definition git_reflog :: "ReflogEntry \<Rightarrow> bool" where
  "git_reflog e \<longleftrightarrow> printable_oid (rl_oid e) \<and> 0 \<le> rl_index e \<and> rl_index e < 2 ^ 31 \<and> plain (sg_name (rl_who e)) \<and> plain (sg_email (rl_who e)) \<and>
     \<bar>sg_when (rl_who e)\<bar> < 2 ^ 63 \<and> sg_tzOffsetMinutes (rl_who e) = 0 \<and> plain (rl_message e)"

lemma from_chars_int_text: "n < 2 ^ 31 \<Longrightarrow> from_chars_int (to_string n) = Some (int n)"
  using hd_to_string [of n] letters_not_digits(4) from_chars_to_string [of n 31 "[]"] by (auto simp: from_chars_int_def)

lemma parseReflogIndex_text:
  assumes "n < 2 ^ 31" and "CHR 0x7B \<notin> set ref"
  shows "parseReflogIndex (ref @ CHR 0x40 # CHR 0x7B # to_string n @ [CHR 0x7D]) = int n"
proof -
  let ?gd = "ref @ CHR 0x40 # CHR 0x7B # to_string n @ [CHR 0x7D]"
  have brackets: "\<not> is_digit (CHR 0x7D)" by (simp add: is_digit_def)
  have o': "find_char (CHR 0x7B) ?gd = Some (length ref + 1)"
    using find_char_append_notin [of "CHR 0x7B" "ref @ [CHR 0x40]"] assms(2) by simp
  have "drop (length ref + 1) ?gd = (CHR 0x7B # to_string n) @ [CHR 0x7D]" by simp
  then have "find_char_from (CHR 0x7D) ?gd (length ref + 1) = Some (length ref + 1 + (length (to_string n) + 1))"
    using find_char_append_notin [of "CHR 0x7D" "CHR 0x7B # to_string n" "[]"] notin_to_string [OF brackets] by (simp add: find_char_from_def)
  moreover have "substr ?gd (length ref + 1 + 1) (length ref + 1 + (length (to_string n) + 1) - (length ref + 1) - 1) = to_string n"
    by (simp add: substr_def)
  moreover have "from_chars_int (to_string n) = Some (int n)" by (rule from_chars_int_text [OF assms(1)])
  ultimately show ?thesis unfolding parseReflogIndex_def o' by (simp only: option.case)
qed

lemma reflog_line_read:
  assumes "git_reflog e" and "plain ref" and "CHR 0x7B \<notin> set ref"
  shows "readColumns 6 reflogColumn (reflog_line ref e) new_reflog = e"
proof -
  have idx: "nat (rl_index e) < 2 ^ 31" using assms(1) by (auto simp: git_reflog_def)
  have "CHR 0x09 \<notin> set (to_string (nat (rl_index e)))" by (rule notin_to_string) simp
  then have "list_all (\<lambda>f. CHR 0x09 \<notin> set f) [hex (rl_oid e), ref @ CHR 0x40 # CHR 0x7B # to_string (nat (rl_index e)) @ [CHR 0x7D],
       sg_name (rl_who e), sg_email (rl_who e), int_to_string (sg_when (rl_who e)), rl_message e]"
    using assms hex_not_blank(4) int_to_string_free [of "CHR 0x09"] by (simp add: git_reflog_def plain_def)
  then show ?thesis
    unfolding reflog_line_def using assms(1) parseReflogIndex_text [OF idx assms(3)] parseInt_text [of "sg_when (rl_who e)" "[]"]
    by (subst readColumns_joined)
      (simp_all add: enumerate_eq_zip reflogColumn_def git_reflog_def fromHex_printed new_reflog_def new_signature_def)
qed

lemma reflog_line_no_nl: "git_reflog e \<Longrightarrow> plain ref \<Longrightarrow> nl \<notin> set (reflog_line ref e) \<and> reflog_line ref e \<noteq> []"
  using hex_not_blank(2) [of "rl_oid e"] int_to_string_free [of nl "sg_when (rl_who e)"] notin_to_string [of nl "nat (rl_index e)"]
  by (simp add: reflog_line_def git_reflog_def plain_def)

text \<open>The reflog of a ref is read back, entry by entry; an empty one too.\<close>

lemma reflog_reads_back:
  assumes "list_all git_reflog es" and "plain ref" and "CHR 0x7B \<notin> set ref"
  shows "reflogLines (joined nl (map (reflog_line ref) es)) = es"
proof (cases "es = []")
  case True
  then show ?thesis by (simp add: reflogLines_def splitOn.simps)
next
  case False
  have "list_all (\<lambda>f. nl \<notin> set f) (map (reflog_line ref) es)" using assms reflog_line_no_nl by (auto simp: list_all_iff)
  then have "splitOn nl (joined nl (map (reflog_line ref) es)) = map (reflog_line ref) es" using False by (intro splitOn_joined) simp_all
  moreover have "filter (\<lambda>line. line \<noteq> []) (map (reflog_line ref) es) = map (reflog_line ref) es"
    using assms reflog_line_no_nl by (auto simp: list_all_iff filter_id_conv)
  ultimately show ?thesis using assms reflog_line_read by (auto simp: reflogLines_def list_all_iff map_idI)
qed

section \<open>Blame\<close>

definition blame_known :: "BlameLine \<Rightarrow> string list" where
  "blame_known l =
     [''author '' @ bl_authorName l, ''author-mail <'' @ bl_authorEmail l @ ''>'', ''author-time '' @ int_to_string (bl_authorTime l),
      ''summary '' @ bl_summary l] @ (if bl_boundary l then [''boundary''] else [])"

text \<open>Lines of an entry that say nothing this program keeps: time zones, the committer, the file name.\<close>

definition blame_ignored :: "string \<Rightarrow> bool" where
  "blame_ignored line \<longleftrightarrow> line \<noteq> [] \<and> hd line \<noteq> CHR 0x09 \<and> \<not> looksLikeObjectHex (hd (splitOn (CHR '' '') line)) \<and>
     \<not> starts_with line ''author '' \<and> \<not> starts_with line ''author-mail '' \<and> \<not> starts_with line ''author-time '' \<and>
     \<not> starts_with line ''summary '' \<and> line \<noteq> ''boundary''"

definition blame_header :: "BlameLine \<Rightarrow> string" where
  "blame_header l = joined (CHR '' '') [hex (bl_commitOid l), to_string (nat (bl_originalLine l)), to_string (nat (bl_finalLine l))]"

text \<open>
  An entry: its header with or without the size of its group, the lines that say something in the order git
  prints them, with ignored lines anywhere between them, and the content.
\<close>

definition blame_entry :: "BlameLine \<Rightarrow> string \<Rightarrow> string list \<Rightarrow> string list" where
  "blame_entry l tail fields' = (blame_header l @ tail) # fields' @ [CHR 0x09 # bl_content l]"

definition git_blame :: "BlameLine \<times> string \<times> string list \<Rightarrow> bool" where
  "git_blame e \<longleftrightarrow> (case e of (l, tail, fields') \<Rightarrow>
     printable_oid (bl_commitOid l) \<and> 0 \<le> bl_originalLine l \<and> bl_originalLine l < 2 ^ 31 \<and> 0 \<le> bl_finalLine l \<and> bl_finalLine l < 2 ^ 31 \<and>
     \<bar>bl_authorTime l\<bar> < 2 ^ 63 \<and> (tail = [] \<or> hd tail = CHR '' '') \<and> filter (\<lambda>f. \<not> blame_ignored f) fields' = blame_known l \<and>
     list_all (\<lambda>line. nl \<notin> set line) (blame_entry l tail fields'))"

lemma strtoll_text: "\<bar>n\<bar> < 2 ^ 63 \<Longrightarrow> strtoll (int_to_string n) = n"
proof -
  assume n: "\<bar>n\<bar> < 2 ^ 63"
  have "\<not> is_space (hd (int_to_string n))"
    using int_to_string_chars [of "hd (int_to_string n)" n] by (auto simp: is_space_def is_digit_def)
  then have "dropWhile is_space (int_to_string n) = int_to_string n" by (cases "int_to_string n") auto
  moreover have "hd (to_string m) \<noteq> CHR ''-'' \<and> hd (to_string m) \<noteq> CHR ''+''" for m
    using hd_to_string [of m] by (auto simp: is_digit_def)
  moreover have digits: "takeWhile is_digit (to_string m) = to_string m" for m using takeWhile_digits_to_string [of "[]" m] by simp
  ultimately show ?thesis using n by (cases "n < 0") (simp_all add: strtoll_def Let_def int_to_string_def digits del: takeWhile_eq_all_conv)
qed

lemma atoi_text: "0 \<le> n \<Longrightarrow> n < 2 ^ 31 \<Longrightarrow> atoi (to_string (nat n)) = n"
  using strtoll_text [of n] by (simp add: atoi_def int_to_string_def)

lemma sp_notin_hex: "CHR '' '' \<notin> set (hex oid)"
  by (rule hex_not_blank)

lemma hex_hd: "printable_oid oid \<Longrightarrow> hd (hex oid) \<noteq> CHR 0x09"
  by (metis hd_in_set hex_nonempty hex_not_blank(4))

lemma hex_looks_like: "printable_oid oid \<Longrightarrow> looksLikeObjectHex (hex oid)"
proof -
  assume "printable_oid oid"
  then have "length (hex oid) = 40 \<or> length (hex oid) = 64"
    using parseHex_hex [of oid null_oid] by (auto simp: printable_oid_def parseHex_def split: if_splits)
  moreover have "is_xdigit c" if "c \<in> set (hex oid)" for c
    using hex_nibbles [OF that] by (auto simp: kDigits_def is_xdigit_def)
  ultimately show ?thesis by (auto simp: looksLikeObjectHex_def list_all_iff)
qed

lemma blame_header_step:
  assumes "git_blame (l, tail, fields')"
  shows "blameStep ls (blame_header l @ tail) = ls @ [new_blame\<lparr>bl_commitOid := bl_commitOid l, bl_originalLine := bl_originalLine l, bl_finalLine := bl_finalLine l\<rparr>]"
proof -
  have wf: "printable_oid (bl_commitOid l)" "tail = [] \<or> hd tail = CHR '' ''" using assms by (simp_all add: git_blame_def)
  have sp: "CHR '' '' \<notin> set (to_string n)" for n by (rule notin_to_string) simp
  have "splitOn (CHR '' '') (blame_header l @ tail) =
      [hex (bl_commitOid l), to_string (nat (bl_originalLine l)), to_string (nat (bl_finalLine l))] @ (if tail = [] then [] else splitOn (CHR '' '') (tl tail))"
    using sp sp_notin_hex [of "bl_commitOid l"] wf(2)
    by (cases tail) (simp_all add: blame_header_def splitOn_first splitOn_last)
  moreover have "blame_header l \<noteq> []" "hd (blame_header l) \<noteq> CHR 0x09"
    using hex_nonempty [OF wf(1)] hex_hd [OF wf(1)] by (simp_all add: blame_header_def)
  ultimately show ?thesis
    using assms hex_looks_like [OF wf(1)] by (simp add: blameStep_def blameHeader_def Let_def git_blame_def fromHex_printed atoi_text)
qed

lemma update_last_snoc [simp]: "update_last f (xs @ [x]) = xs @ [f x]"
  by (simp add: update_last_def)

lemma blame_ignored_step: "blame_ignored line \<Longrightarrow> blameStep (ls @ [e]) line = ls @ [e]"
  by (auto simp: blame_ignored_def blameStep_def blameField_def Let_def)

lemma blame_fields:
  "foldl blameStep (ls @ [e]) fields' = foldl blameStep (ls @ [e]) (filter (\<lambda>f. \<not> blame_ignored f) fields')"
  if "\<And>f e. f \<in> set (filter (\<lambda>f. \<not> blame_ignored f) fields') \<Longrightarrow> blameStep (ls @ [e]) f = ls @ [blameField f e]"
  using that by (induction fields' arbitrary: e) (auto simp: blame_ignored_step)

lemma known_step:
  assumes "f \<in> set (blame_known l)"
  shows "blameStep (ls @ [e]) f = ls @ [blameField f e]"
proof -
  have "f \<noteq> []" "hd f \<noteq> CHR 0x09" "\<not> looksLikeObjectHex (hd (splitOn (CHR '' '') f))"
    using assms by (auto simp: blame_known_def splitOn.simps looksLikeObjectHex_def split: if_splits)
  then show ?thesis by (simp add: blameStep_def Let_def)
qed

lemma blame_entry_read:
  assumes "git_blame (l, tail, fields')"
  shows "foldl blameStep ls (blame_entry l tail fields') = ls @ [l]"
proof -
  have known: "filter (\<lambda>f. \<not> blame_ignored f) fields' = blame_known l" "\<bar>bl_authorTime l\<bar> < 2 ^ 63" using assms by (simp_all add: git_blame_def)
  let ?e = "new_blame\<lparr>bl_commitOid := bl_commitOid l, bl_originalLine := bl_originalLine l, bl_finalLine := bl_finalLine l\<rparr>"
  have "foldl blameStep (ls @ [?e]) fields' = foldl blameStep (ls @ [?e]) (blame_known l)"
    using blame_fields [of fields' ls ?e] known known_step by simp
  also have "\<dots> = ls @ [foldl (\<lambda>e f. blameField f e) ?e (blame_known l)]"
    using known_step [of _ l] by (simp add: blame_known_def)
  also have "foldl (\<lambda>e f. blameField f e) ?e (blame_known l) = l\<lparr>bl_content := []\<rparr>"
    using strtoll_text [OF known(2)] by (simp add: blame_known_def blameField_def Let_def substr_def new_blame_def)
  finally show ?thesis
    using blame_header_step [OF assms] by (simp add: blame_entry_def) (simp add: blameStep_def)
qed

definition blame_lines :: "(BlameLine \<times> string \<times> string list) list \<Rightarrow> string list" where
  "blame_lines es = concat (map (\<lambda>(l, tail, fields'). blame_entry l tail fields') es)"

lemma blame_lines_read: "list_all git_blame es \<Longrightarrow> foldl blameStep ls (blame_lines es) = ls @ map fst es"
proof (induction es arbitrary: ls)
  case Nil
  then show ?case by (simp add: blame_lines_def)
next
  case (Cons e es)
  obtain l tail fields' where e: "e = (l, tail, fields')" by (cases e)
  with Cons show ?case using blame_entry_read [of l tail fields' ls] by (simp add: blame_lines_def)
qed

text \<open>
  What \<^verbatim>\<open>git blame\<close> prints is read back line by line: each line of the file with its commit, its
  author, its numbers and its content, whatever other lines stand in an entry and whatever the content
  looks like, as long as the output is within the cap.
\<close>

theorem blame_reads_back:
  assumes "list_all git_blame es" and "es \<noteq> []" and "length (joined nl (blame_lines es)) \<le> kMaxBlameBytes"
  shows "blameText (joined nl (blame_lines es)) = \<lparr>br_lines = map fst es, br_truncated = False\<rparr>"
proof -
  have "list_all (\<lambda>line. nl \<notin> set line) (blame_lines es)"
    using assms(1) by (induction es) (auto simp: blame_lines_def git_blame_def split: prod.splits)
  moreover have "blame_lines es \<noteq> []" using assms(2) by (cases es) (auto simp: blame_lines_def blame_entry_def)
  ultimately have "splitOn nl (joined nl (blame_lines es)) = blame_lines es" by (rule splitOn_joined)
  then show ?thesis using blame_lines_read [OF assms(1), of "[]"] assms(3) by (simp add: blameText_def)
qed

definition sample_blame :: BlameLine where
  "sample_blame = \<lparr>bl_commitOid = sample_oid, bl_authorName = ''Ann'', bl_authorEmail = ''a@b'', bl_authorTime = 5, bl_summary = ''fix'',
     bl_finalLine = 3, bl_originalLine = 2, bl_content = ''author x'', bl_boundary = True\<rparr>"

definition sample_fields :: "string list" where
  "sample_fields = [''author Ann'', ''author-mail <a@b>'', ''author-time 5'', ''author-tz +0000'', ''summary fix'', ''boundary'', ''filename f'']"

lemma to_string_small: "to_string 2 = ''2''" "to_string 3 = ''3''" "to_string 5 = ''5''"
  by code_simp+

lemma sample_known: "filter (\<lambda>f. \<not> blame_ignored f) sample_fields = blame_known sample_blame"
  by (simp add: sample_fields_def sample_blame_def blame_known_def blame_ignored_def looksLikeObjectHex_def splitOn.simps int_to_string_def to_string_small)

lemma sample_blame_wf: "git_blame (sample_blame, '' 1'', sample_fields)"
  using sample_printable sample_known hex_not_blank(2) [of sample_oid]
  by (simp add: git_blame_def blame_entry_def blame_header_def to_string_small)
    (simp add: sample_blame_def sample_fields_def to_string_small)

theorem blame_reads_back_witness:
  "blameText (joined nl (blame_lines [(sample_blame, '' 1'', sample_fields)])) = \<lparr>br_lines = [sample_blame], br_truncated = False\<rparr>"
proof -
  have "length (hex sample_oid) \<le> 64" using hex_looks_like [OF sample_printable] by (auto simp: looksLikeObjectHex_def)
  then have "length (joined nl (blame_lines [(sample_blame, '' 1'', sample_fields)])) \<le> kMaxBlameBytes"
    by (simp add: blame_lines_def blame_entry_def blame_header_def sample_fields_def kMaxBlameBytes_def)
      (simp add: sample_blame_def to_string_small)
  then show ?thesis using blame_reads_back [of "[(sample_blame, '' 1'', sample_fields)]"] sample_blame_wf by simp
qed

end
