(* ===== verification/OperationSteps.thy ===== *)
theory OperationSteps
  imports OperationQueues GitProcesses
begin

text \<open>
  What the operations of \<^verbatim>\<open>src/core/git/ops\<close> share. An operation is a function of the process runner,
  the directory it runs in and its request; the runner answers a command with its output or an error
  and leaves git's repository in a new state, \<open>'g\<close>. The credentials helper (\<^verbatim>\<open>AskpassHelper.cpp\<close>) is
  wired into the commands that talk to a remote.
\<close>

type_synonym 'g Git = "GitCommand \<Rightarrow> 'g \<Rightarrow> string GitResult \<times> 'g"

definition timed :: "string \<Rightarrow> string list \<Rightarrow> int \<Rightarrow> GitCommand" where
  "timed dir arguments ms = (git_command dir arguments)\<lparr>gc_timeout := ms\<rparr>"

lemma timed_args [simp]: "gc_args (timed dir arguments ms) = arguments"
  by (simp add: timed_def git_command_def)

definition succeededWith :: "string \<Rightarrow> OperationOutcome" where
  "succeededWith summary = new_outcome\<lparr>oo_succeeded := True, oo_summary := summary\<rparr>"

text \<open>The two ways operations report an error: with a summary, and without.\<close>

definition failedWith :: "GitError \<Rightarrow> string \<Rightarrow> OperationOutcome" where
  "failedWith e summary = new_outcome\<lparr>oo_error := Some e, oo_summary := summary\<rparr>"

definition invalidArgument :: "string \<Rightarrow> OperationOutcome" where
  "invalidArgument message = new_outcome\<lparr>oo_error := Some (git_error InvalidArgument message [])\<rparr>"

definition quoted :: "string \<Rightarrow> string" where
  "quoted s = CHR 0x22 # s @ [CHR 0x22]"

text \<open>One command, its error reported as it is, its success under a summary made from the output.\<close>

definition runOne :: "'g Git \<Rightarrow> GitCommand \<Rightarrow> (string \<Rightarrow> string) \<Rightarrow> 'g \<Rightarrow> OperationOutcome \<times> 'g" where
  "runOne git command summary g =
     (case git command g of
        (Inl e, g) \<Rightarrow> (failedWith e (ge_message e), g)
      | (Inr out, g) \<Rightarrow> (succeededWith (summary out), g))"

text \<open>\<^verbatim>\<open>std::getline\<close> over a string.\<close>

definition get_lines :: "string \<Rightarrow> string list" where
  "get_lines s = (let ls = splitOn nl s in if last ls = [] then butlast ls else ls)"

definition drop_cr :: "string \<Rightarrow> string" where
  "drop_cr line = (if line \<noteq> [] \<and> last line = cr then butlast line else line)"

section \<open>Credentials\<close>

text \<open>\<open>exe\<close> is the path of the running program, if the system tells it.\<close>

definition kDirEnvVar :: string where "kDirEnvVar = ''GBM_ASKPASS_DIR''"

definition wire :: "string option \<Rightarrow> string \<Rightarrow> GitCommand \<Rightarrow> GitCommand" where
  "wire exe dir command =
     (if dir = [] then command
      else case exe of
             None \<Rightarrow> command
           | Some path \<Rightarrow>
               command\<lparr>gc_envOverrides := gc_envOverrides command @
                 [(''GIT_ASKPASS'', path), (''SSH_ASKPASS'', path), (''SSH_ASKPASS_REQUIRE'', ''force''), (''DISPLAY'', '':0''),
                  (''GBM_ASKPASS_MODE'', ''1''), (kDirEnvVar, dir)]\<rparr>)"

definition wireRefusing :: "string option \<Rightarrow> GitCommand \<Rightarrow> GitCommand" where
  "wireRefusing exe command =
     command\<lparr>gc_envOverrides := gc_envOverrides command @
       (case exe of None \<Rightarrow> [] | Some path \<Rightarrow> [(''GIT_ASKPASS'', path), (''SSH_ASKPASS'', path)]) @
       [(''SSH_ASKPASS_REQUIRE'', ''force''), (''DISPLAY'', '':0''), (''GBM_ASKPASS_MODE'', ''1''), (kDirEnvVar, []), (''GCM_INTERACTIVE'', ''false'')]\<rparr>"

lemma wire_args [simp]: "gc_args (wire exe dir command) = gc_args command" "gc_args (wireRefusing exe command) = gc_args command"
  by (simp_all add: wire_def wireRefusing_def split: option.split)

section \<open>What was asked of git\<close>

text \<open>
  The most general runner there is: what it answers may depend on everything asked and answered before.
  Its state is the log of commands with their answers.
\<close>

type_synonym GitLog = "(GitCommand \<times> string GitResult) list"

definition logging :: "(GitLog \<Rightarrow> GitCommand \<Rightarrow> string GitResult) \<Rightarrow> GitLog Git" where
  "logging answers command log = (answers log command, log @ [(command, answers log command)])"

text \<open>\<open>asked\<close>: what an operation adds to the log.\<close>

definition asked :: "GitLog \<Rightarrow> GitLog \<Rightarrow> GitLog" where
  "asked before after' = drop (length before) after'"

lemma asked_append [simp]: "asked log (log @ new) = new"
  by (simp add: asked_def)

lemma logging_simp: "logging answers command log = (answers log command, log @ [(command, answers log command)])"
  by (simp add: logging_def)

text \<open>A command told apart from those around it.\<close>

lemma found_between:
  assumes "pre @ x # post = A @ D @ P" and "list_all Q A" "list_all Q P" "\<not> Q x"
  shows "\<exists>before behind. D = before @ x # behind \<and> pre = A @ before"
proof -
  from assms(1) have "(\<exists>us. pre = A @ us \<and> us @ x # post = D @ P) \<or> (\<exists>us. pre @ us = A \<and> x # post = us @ D @ P)"
    by (auto simp: append_eq_append_conv2)
  then obtain us where us: "pre = A @ us" "us @ x # post = D @ P"
  proof
    assume "\<exists>us. pre @ us = A \<and> x # post = us @ D @ P"
    then obtain us where "pre @ us = A" "x # post = us @ D @ P" by blast
    with assms(2,4) have "us = []" by (cases us) auto
    with \<open>pre @ us = A\<close> \<open>x # post = us @ D @ P\<close> show thesis by (intro that [of "[]"]) auto
  qed blast
  from us(2) have "(\<exists>vs. us = D @ vs \<and> vs @ x # post = P) \<or> (\<exists>vs. us @ vs = D \<and> x # post = vs @ P)"
    by (auto simp: append_eq_append_conv2)
  then obtain vs where "us @ vs = D" "x # post = vs @ P" using assms(3,4) by auto
  moreover have "vs \<noteq> []" using \<open>x # post = vs @ P\<close> assms(3,4) by auto
  ultimately obtain behind where "D = us @ x # behind" by (cases vs) auto
  with us(1) show ?thesis by blast
qed

end
