(* ===== verification/BranchOperations.thy ===== *)
theory BranchOperations
  imports OperationSteps
begin

text \<open>
  \<^verbatim>\<open>src/core/git/ops/BranchOps\<close>: creating, renaming and deleting branches, and what deleting one would lose.
\<close>

section \<open>Requests\<close>

record CreateBranchRequest =
  cb_name :: string
  cb_startPoint :: string
  cb_checkoutAfter :: bool
  cb_setUpstream :: bool
  cb_upstream :: string

record RenameBranchRequest =
  rb_from :: string
  rb_to :: string
  rb_force :: bool
  rb_renameRemote :: bool
  rb_remoteName :: string
  rb_askpassDir :: string

record DeleteBranchEntry =
  de_name :: string
  de_force :: bool
  de_expectedTipOid :: string

record DeleteBranchRequest =
  db_entries :: "DeleteBranchEntry list"
  db_isRemote :: bool
  db_remoteName :: string

datatype ProbeState = ProbeNotFound | ProbeNoReference | ProbeCounted

record BranchDeletionProbe =
  bp_name :: string
  bp_state :: ProbeState
  bp_tipOid :: string
  bp_upstream :: string
  bp_unsyncedCount :: int

section \<open>Creating\<close>

definition notAValidName :: "string \<Rightarrow> OperationOutcome" where
  "notAValidName name = invalidArgument (quoted name @ '' is not a valid branch name'')"

definition createBranchArgs :: "CreateBranchRequest \<Rightarrow> string list" where
  "createBranchArgs req =
     [''branch'', cb_name req] @ (if cb_startPoint req \<noteq> [] then [cb_startPoint req] else []) @
     (if cb_setUpstream req \<and> cb_upstream req \<noteq> [] then [''--track'', cb_upstream req] else [])"

definition createBranch :: "'g Git \<Rightarrow> string \<Rightarrow> CreateBranchRequest \<Rightarrow> 'g \<Rightarrow> OperationOutcome \<times> 'g" where
  "createBranch git dir req g =
     (if \<not> isValidBranchName (cb_name req) then (notAValidName (cb_name req), g)
      else case git (timed dir (createBranchArgs req) 60000) g of
             (Inl e, g) \<Rightarrow> (failedWith e (ge_message e), g)
           | (Inr _, g) \<Rightarrow>
               if cb_checkoutAfter req
               then runOne git (timed dir [''checkout'', cb_name req] 60000) (\<lambda>_. ''Created branch '' @ cb_name req) g
               else (succeededWith (''Created branch '' @ cb_name req), g))"

section \<open>Renaming\<close>

text \<open>The file system's case folding is an argument: whether it is insensitive, and if so, the fold.\<close>

definition pathsEquivalent :: "bool \<Rightarrow> string \<Rightarrow> string \<Rightarrow> bool" where
  "pathsEquivalent caseInsensitive a b \<longleftrightarrow> (if caseInsensitive then map tolower a = map tolower b else a = b)"

definition finishLocalRename :: "'g Git \<Rightarrow> string \<Rightarrow> string option \<Rightarrow> RenameBranchRequest \<Rightarrow> 'g \<Rightarrow> OperationOutcome \<times> 'g" where
  "finishLocalRename git dir exe req g =
     (if \<not> rb_renameRemote req
      then (let (_, g) = git (timed dir [''branch'', ''--unset-upstream'', rb_to req] 60000) g
            in (succeededWith (''Renamed to '' @ rb_to req), g))
      else case git (wire exe (rb_askpassDir req) (git_command dir [''push'', ''--set-upstream'', rb_remoteName req, rb_to req])) g of
             (Inl e, g) \<Rightarrow>
               (failedWith e (''Renamed locally to '' @ rb_to req @ '', but could not push it to '' @ rb_remoteName req @ '': '' @ ge_message e), g)
           | (Inr _, g) \<Rightarrow>
               (case git (wire exe (rb_askpassDir req) (git_command dir [''push'', rb_remoteName req, ''--delete'', rb_from req])) g of
                  (Inl e, g) \<Rightarrow>
                    (failedWith e (''Renamed to '' @ rb_to req @ '' and pushed it, but could not delete '' @ rb_from req @ '' on '' @
                       rb_remoteName req @ '': '' @ ge_message e), g)
                | (Inr _, g) \<Rightarrow> (succeededWith (''Renamed to '' @ rb_to req @ '' locally and on '' @ rb_remoteName req), g)))"

definition renameBranch :: "'g Git \<Rightarrow> string \<Rightarrow> string option \<Rightarrow> bool \<Rightarrow> RenameBranchRequest \<Rightarrow> 'g \<Rightarrow> OperationOutcome \<times> 'g" where
  "renameBranch git dir exe caseInsensitive req g =
     (if \<not> isValidBranchName (rb_to req) then (notAValidName (rb_to req), g)
      else if rb_from req \<noteq> rb_to req \<and> pathsEquivalent caseInsensitive (rb_from req) (rb_to req) \<and> caseInsensitive
      then (let temporary = rb_from req @ ''.gbm-rename-tmp''
            in case git (timed dir [''branch'', ''-m'', rb_from req, temporary] 60000) g of
                 (Inl e, g) \<Rightarrow> (failedWith e (ge_message e), g)
               | (Inr _, g) \<Rightarrow>
                   (case git (timed dir [''branch'', ''-m'', temporary, rb_to req] 60000) g of
                      (Inl e, g) \<Rightarrow> (failedWith e (''The branch is currently named '' @ temporary @ ''; rename it manually to finish''), g)
                    | (Inr _, g) \<Rightarrow> finishLocalRename git dir exe req g))
      else case git (timed dir [''branch'', if rb_force req then ''-M'' else ''-m'', rb_from req, rb_to req] 60000) g of
             (Inl e, g) \<Rightarrow> (failedWith e (ge_message e), g)
           | (Inr _, g) \<Rightarrow> finishLocalRename git dir exe req g)"

section \<open>Deleting\<close>

fun joinBranchNames :: "string list \<Rightarrow> string" where
  "joinBranchNames [] = []"
| "joinBranchNames [n] = n"
| "joinBranchNames (n # m # ns) = n @ '', '' @ joinBranchNames (m # ns)"

definition localBranchesCommand :: "string \<Rightarrow> GitCommand" where
  "localBranchesCommand dir = timed dir [''for-each-ref'', ''--format=%(refname:short)'', ''refs/heads/''] 5000"

text \<open>The set of names is the list of them; only membership and emptiness are asked.\<close>

definition readLocalBranchNames :: "'g Git \<Rightarrow> string \<Rightarrow> 'g \<Rightarrow> string list option \<times> 'g" where
  "readLocalBranchNames git dir g =
     (case git (localBranchesCommand dir) g of
        (Inl _, g) \<Rightarrow> (None, g)
      | (Inr out, g) \<Rightarrow> (Some (filter (\<lambda>l. l \<noteq> []) (map drop_cr (get_lines out))), g))"

definition isOwnUpstream :: "string \<Rightarrow> string \<Rightarrow> bool" where
  "isOwnUpstream name line \<longleftrightarrow>
     length line > length name + 1 \<and> drop (length line - length name) line = name \<and> line ! (length line - length name - 1) = CHR ''/''"

definition ends_with :: "string \<Rightarrow> string \<Rightarrow> bool" where
  "ends_with s suffix \<longleftrightarrow> length s \<ge> length suffix \<and> drop (length s - length suffix) s = suffix"

definition containingCommand :: "string \<Rightarrow> string \<Rightarrow> GitCommand" where
  "containingCommand dir name = timed dir [''for-each-ref'', ''--format=%(refname)'', ''--contains'', name, ''refs/remotes/''] 5000"

text \<open>The new summary; \<open>None\<close> keeps the one there was.\<close>

definition refineSummaryFromRemoteRefs :: "'g Git \<Rightarrow> string \<Rightarrow> string \<Rightarrow> 'g \<Rightarrow> string option \<times> 'g" where
  "refineSummaryFromRemoteRefs git dir name g =
     (case git (containingCommand dir name) g of
        (Inl _, g) \<Rightarrow> (None, g)
      | (Inr out, g) \<Rightarrow>
          (case filter (\<lambda>line. line \<noteq> [] \<and> \<not> isOwnUpstream name line \<and> \<not> ends_with line ''/HEAD'') (get_lines out) of
             [] \<Rightarrow> (Some (''This branch'' @ CHR 0x27 # ''s commits were not found on any remote-tracking ref from your last '' @
                       ''fetch. If it was just merged on the remote, fetch and try again''), g)
           | elsewhere # _ \<Rightarrow>
               (let label = (if starts_with elsewhere ''refs/remotes/'' then drop 13 elsewhere else elsewhere)
                in (Some (''This branch'' @ CHR 0x27 # ''s commits already exist on '' @ label @
                       ''; deleting it will not lose anything, your local branch is just behind''), g))))"

definition tipsCommand :: "string \<Rightarrow> GitCommand" where
  "tipsCommand dir = timed dir [''for-each-ref'', ''--format=%(refname)%09%(objectname)'', ''refs/heads/''] 30000"

text \<open>A later line replaces what an earlier one said of the same branch.\<close>

definition tipLine :: "(string \<rightharpoonup> string) \<Rightarrow> string \<Rightarrow> (string \<rightharpoonup> string)" where
  "tipLine tips line =
     (case find_char (CHR 0x09) line of
        None \<Rightarrow> tips
      | Some tab \<Rightarrow>
          if \<not> starts_with line kHeadsPrefix then tips
          else tips(substr line (length kHeadsPrefix) (tab - length kHeadsPrefix) \<mapsto> drop_cr (drop (tab + 1) line)))"

definition readTips :: "string \<Rightarrow> (string \<rightharpoonup> string)" where
  "readTips out = foldl tipLine Map.empty (get_lines out)"

definition missingTip :: "DeleteBranchEntry \<Rightarrow> OperationOutcome" where
  "missingTip entry =
     (let summary = ''Refused to force-delete '' @ de_name entry @ '': no checked tip was sent with the request''
      in failedWith (git_error MissingBranchTip summary []) summary)"

definition staleTip :: "DeleteBranchEntry \<Rightarrow> OperationOutcome" where
  "staleTip entry =
     (let summary = de_name entry @ '' changed after its commits were counted; nothing was deleted''
      in (failedWith (git_error StaleBranchTip summary []) summary)\<lparr>oo_choices := [(ForceDiscard, True)]\<rparr>)"

text \<open>The first outcome that refuses, if any does.\<close>

definition checkForcedTips :: "'g Git \<Rightarrow> string \<Rightarrow> DeleteBranchEntry list \<Rightarrow> string list \<Rightarrow> 'g \<Rightarrow> OperationOutcome option \<times> 'g" where
  "checkForcedTips git dir entries targets g =
     (let forced = filter (\<lambda>e. de_force e \<and> de_name e \<in> set targets) entries
      in if forced = [] then (None, g)
         else case filter (\<lambda>e. de_expectedTipOid e = []) forced of
                e # _ \<Rightarrow> (Some (missingTip e), g)
              | [] \<Rightarrow>
                  (case git (tipsCommand dir) g of
                     (Inl e, g) \<Rightarrow> (Some (failedWith e (''Could not confirm the branch tips before deleting: '' @ ge_message e)), g)
                   | (Inr out, g) \<Rightarrow>
                       (case filter (\<lambda>e. readTips out (de_name e) \<noteq> Some (de_expectedTipOid e)) forced of
                          e # _ \<Rightarrow> (Some (staleTip e), g)
                        | [] \<Rightarrow> (None, g))))"

definition isForced :: "DeleteBranchEntry list \<Rightarrow> string \<Rightarrow> bool" where
  "isForced entries name = list_ex (\<lambda>e. de_force e \<and> de_name e = name) entries"

definition deleteCommands :: "DeleteBranchRequest \<Rightarrow> string list \<Rightarrow> string list list" where
  "deleteCommands req targets =
     (if db_isRemote req then [[''push'', db_remoteName req, ''--delete''] @ targets]
      else let forced = filter (isForced (db_entries req)) targets; plain = filter (\<lambda>n. \<not> isForced (db_entries req) n) targets
           in (if forced = [] then [] else [[''branch'', ''-D''] @ forced]) @ (if plain = [] then [] else [[''branch'', ''-d''] @ plain]))"

text \<open>The commands one by one up to the first that fails, with whether that was the forced one.\<close>

fun runDeletes :: "'g Git \<Rightarrow> string \<Rightarrow> bool \<Rightarrow> string list list \<Rightarrow> 'g \<Rightarrow> (GitError \<times> bool) option \<times> 'g" where
  "runDeletes git dir isRemote [] g = (None, g)"
| "runDeletes git dir isRemote (arguments # rest) g =
     (case git (timed dir arguments 60000) g of
        (Inl e, g) \<Rightarrow> (Some (e, \<not> isRemote \<and> arguments ! 1 = ''-D''), g)
      | (Inr _, g) \<Rightarrow> runDeletes git dir isRemote rest g)"

definition notMergedSummary :: "nat \<Rightarrow> string" where
  "notMergedSummary n =
     (if n > 1 then ''These branches have commits that are not merged into any other branch you have locally''
      else ''This branch has commits that are not merged into any other branch you have locally'')"

text \<open>The report of a delete that failed: what went all the same, and why the rest did not.\<close>

definition deleteFailed :: "'g Git \<Rightarrow> string \<Rightarrow> bool \<Rightarrow> string list \<Rightarrow> GitError \<Rightarrow> bool \<Rightarrow> 'g \<Rightarrow> OperationOutcome \<times> 'g" where
  "deleteFailed git dir probed targets e failedForced g =
     (let (after', g) = (if probed then readLocalBranchNames git dir g else (None, g));
          deleted = (case after' of None \<Rightarrow> [] | Some names \<Rightarrow> filter (\<lambda>n. n \<notin> set names) targets);
          notMerged = (find_str ''not fully merged'' (ge_detail e) \<noteq> None \<and> \<not> failedForced);
          (refined, g) = (if notMerged \<and> length targets = 1 then refineSummaryFromRemoteRefs git dir (hd targets) g else (None, g));
          summary = (if notMerged then (case refined of Some s \<Rightarrow> s | None \<Rightarrow> notMergedSummary (length targets)) else ge_message e);
          summary = (if find_str ''used by worktree'' (ge_detail e) \<noteq> None then ''This branch is checked out in another worktree'' else summary);
          summary = (if deleted = [] then summary
                     else ''Deleted '' @ joinBranchNames deleted @ ''. '' @ joinBranchNames (filter (\<lambda>n. n \<notin> set deleted) targets) @ '': '' @ summary)
      in ((failedWith e summary)\<lparr>oo_mutatedRefs := deleted \<noteq> [], oo_choices := if notMerged then [(ForceDiscard, True)] else []\<rparr>, g))"

definition entryNames :: "DeleteBranchRequest \<Rightarrow> string list" where
  "entryNames req = map de_name (db_entries req)"

text \<open>The names sent to git; \<open>None\<close> when all of them are gone already. The flag is whether the list of branches was read.\<close>

definition liveTargets :: "'g Git \<Rightarrow> string \<Rightarrow> DeleteBranchRequest \<Rightarrow> 'g \<Rightarrow> (bool \<times> string list option) \<times> 'g" where
  "liveTargets git dir req g =
     (if db_isRemote req then ((False, Some (entryNames req)), g)
      else let (before, g) = readLocalBranchNames git dir g
           in case before of
                None \<Rightarrow> ((False, Some (entryNames req)), g)
              | Some names \<Rightarrow>
                  if names = [] then ((False, Some (entryNames req)), g)
                  else let live = filter (\<lambda>n. n \<in> set names) (entryNames req)
                       in ((True, if live = [] then None else Some live), g))"

definition deleteTargets :: "'g Git \<Rightarrow> string \<Rightarrow> DeleteBranchRequest \<Rightarrow> bool \<Rightarrow> string list \<Rightarrow> 'g \<Rightarrow> OperationOutcome \<times> 'g" where
  "deleteTargets git dir req probed targets g =
     (let (refused, g) = (if db_isRemote req then (None, g) else checkForcedTips git dir (db_entries req) targets g)
      in case refused of
           Some out \<Rightarrow> (out, g)
         | None \<Rightarrow>
             (case runDeletes git dir (db_isRemote req) (deleteCommands req targets) g of
                (None, g) \<Rightarrow> (succeededWith (''Deleted '' @ joinBranchNames targets), g)
              | (Some (e, failedForced), g) \<Rightarrow> deleteFailed git dir probed targets e failedForced g))"

definition deleteBranch :: "'g Git \<Rightarrow> string \<Rightarrow> DeleteBranchRequest \<Rightarrow> 'g \<Rightarrow> OperationOutcome \<times> 'g" where
  "deleteBranch git dir req g =
     (case liveTargets git dir req g of
        ((probed, None), g) \<Rightarrow> (succeededWith (''Already deleted: '' @ joinBranchNames (entryNames req)), g)
      | ((probed, Some targets), g) \<Rightarrow> deleteTargets git dir req probed targets g)"

section \<open>What a delete would lose\<close>

record Head =
  h_tip :: string
  h_upstream :: string
  h_gone :: bool

definition headLine :: "(string \<rightharpoonup> Head) \<Rightarrow> string \<Rightarrow> (string \<rightharpoonup> Head)" where
  "headLine heads line =
     (let fields' = splitOn (CHR 0x09) (drop_cr line)
      in if length fields' < 4 \<or> \<not> starts_with (fields' ! 0) kHeadsPrefix then heads
         else heads(drop (length kHeadsPrefix) (fields' ! 0) \<mapsto>
                \<lparr>h_tip = fields' ! 1, h_upstream = fields' ! 2, h_gone = find_str ''[gone]'' (fields' ! 3) \<noteq> None\<rparr>))"

definition headsCommand :: "string \<Rightarrow> GitCommand" where
  "headsCommand dir =
     timed dir [''for-each-ref'', ''--format=%(refname)%09%(objectname)%09%(upstream)%09%(upstream:track)'', ''refs/heads/''] 30000"

definition countCommand :: "string \<Rightarrow> Head \<Rightarrow> GitCommand" where
  "countCommand dir head = timed dir [''rev-list'', ''--count'', h_tip head, CHR 0x5E # h_upstream head, ''--''] 30000"

fun probeNames :: "'g Git \<Rightarrow> string \<Rightarrow> (string \<rightharpoonup> Head) \<Rightarrow> string list \<Rightarrow> 'g \<Rightarrow> BranchDeletionProbe list GitResult \<times> 'g" where
  "probeNames git dir heads [] g = (Inr [], g)"
| "probeNames git dir heads (name # names) g =
     (let continue = (\<lambda>probe g. case probeNames git dir heads names g of (Inl e, g) \<Rightarrow> (Inl e, g) | (Inr ps, g) \<Rightarrow> (Inr (probe # ps), g))
      in case heads name of
           None \<Rightarrow> continue \<lparr>bp_name = name, bp_state = ProbeNotFound, bp_tipOid = [], bp_upstream = [], bp_unsyncedCount = 0\<rparr> g
         | Some head \<Rightarrow>
             if h_upstream head = [] \<or> h_gone head
             then continue \<lparr>bp_name = name, bp_state = ProbeNoReference, bp_tipOid = h_tip head, bp_upstream = [], bp_unsyncedCount = 0\<rparr> g
             else case git (countCommand dir head) g of
                    (Inl e, g) \<Rightarrow> (Inl e, g)
                  | (Inr out, g) \<Rightarrow>
                      (case from_chars_int out of
                         None \<Rightarrow> (Inl (git_error ParseError (''Unexpected rev-list --count output: '' @ out) []), g)
                       | Some unsynced \<Rightarrow>
                           continue \<lparr>bp_name = name, bp_state = ProbeCounted, bp_tipOid = h_tip head, bp_upstream = h_upstream head,
                             bp_unsyncedCount = unsynced\<rparr> g))"

definition probeDeletion :: "'g Git \<Rightarrow> string \<Rightarrow> string list \<Rightarrow> 'g \<Rightarrow> BranchDeletionProbe list GitResult \<times> 'g" where
  "probeDeletion git dir names g =
     (case git (headsCommand dir) g of
        (Inl e, g) \<Rightarrow> (Inl e, g)
      | (Inr out, g) \<Rightarrow> probeNames git dir (foldl headLine Map.empty (get_lines out)) names g)"

end
