(* ===== verification/BranchPromises.thy ===== *)
theory BranchPromises
  imports BranchOperations
begin

text \<open>
  What is asked of git when branches are renamed and deleted, whatever git answers: nothing is
  force-deleted whose tip was not checked right before, and a branch goes from a remote only after its
  new name has arrived there.
\<close>

section \<open>Logs\<close>

text \<open>Deletes are asked in order, after what was asked before.\<close>

lemma runDeletes_log:
  assumes "runDeletes (logging answers) dir isRemote cs log = (res, log')"
  shows "\<exists>k. map (gc_args \<circ> fst) (asked log log') = take k cs \<and> log' = log @ asked log log'"
  using assms
proof (induction "logging answers" dir isRemote cs log arbitrary: log' rule: runDeletes.induct)
  case (1 dir isRemote g)
  then show ?case by (simp add: asked_def)
next
  case (2 dir isRemote arguments rest g)
  let ?c = "timed dir arguments 60000"
  show ?case
  proof (cases "answers g ?c")
    case (Inl e)
    with 2(2) have "log' = g @ [(?c, Inl e)]" by (auto simp: logging_def)
    then show ?thesis by (intro exI [of _ 1]) simp
  next
    case (Inr x)
    with 2(2) have rest: "runDeletes (logging answers) dir isRemote rest (g @ [(?c, Inr x)]) = (res, log')" by (simp add: logging_def)
    from 2(1) [OF _ _ rest] Inr obtain k where "map (gc_args \<circ> fst) (asked (g @ [(?c, Inr x)]) log') = take k rest"
      "log' = (g @ [(?c, Inr x)]) @ asked (g @ [(?c, Inr x)]) log'" by (auto simp: logging_def)
    then have "asked g log' = (?c, Inr x) # asked (g @ [(?c, Inr x)]) log'" by (metis append.assoc append_Cons append_Nil asked_append)
    with \<open>map _ _ = take k rest\<close> \<open>log' = _\<close> show ?thesis by (intro exI [of _ "Suc k"]) simp
  qed
qed

text \<open>Commands that only list refs.\<close>

definition lists_refs :: "GitCommand \<times> string GitResult \<Rightarrow> bool" where
  "lists_refs entry \<longleftrightarrow> hd (gc_args (fst entry)) = ''for-each-ref''"

lemma readLocalBranchNames_log:
  "\<exists>names. readLocalBranchNames (logging answers) dir log = (names, log @ [(localBranchesCommand dir, answers log (localBranchesCommand dir))])"
  by (cases "answers log (localBranchesCommand dir)") (simp_all add: readLocalBranchNames_def logging_def)

lemma lists_refs_commands [simp]:
  "lists_refs (localBranchesCommand dir, r)" "lists_refs (containingCommand dir name, r)" "lists_refs (tipsCommand dir, r)"
  by (simp_all add: lists_refs_def localBranchesCommand_def containingCommand_def tipsCommand_def)

lemma liveTargets_log:
  "\<exists>new. snd (liveTargets (logging answers) dir req log) = log @ new \<and> list_all lists_refs new"
proof -
  obtain names where "readLocalBranchNames (logging answers) dir log = (names, log @ [(localBranchesCommand dir, answers log (localBranchesCommand dir))])"
    using readLocalBranchNames_log by blast
  then show ?thesis by (cases names) (auto simp: liveTargets_def Let_def)
qed

lemma refine_log: "\<exists>s new. refineSummaryFromRemoteRefs (logging answers) dir name log = (s, log @ new) \<and> list_all lists_refs new"
  by (cases "answers log (containingCommand dir name)")
    (auto simp: refineSummaryFromRemoteRefs_def logging_def Let_def split: list.split)

lemma deleteFailed_log:
  "\<exists>new. snd (deleteFailed (logging answers) dir probed targets e failedForced log) = log @ new \<and> list_all lists_refs new"
proof -
  obtain after' new1 where a: "(if probed then readLocalBranchNames (logging answers) dir log else (None, log)) = (after', log @ new1)" "list_all lists_refs new1"
    using readLocalBranchNames_log [of answers dir log] by (cases probed) auto
  obtain refined new2 where
    "(if (find_str ''not fully merged'' (ge_detail e) \<noteq> None \<and> \<not> failedForced) \<and> length targets = 1
      then refineSummaryFromRemoteRefs (logging answers) dir (hd targets) (log @ new1) else (None, log @ new1)) = (refined, (log @ new1) @ new2)"
    "list_all lists_refs new2"
    using refine_log [of answers dir "hd targets" "log @ new1"]
    by (cases "(find_str ''not fully merged'' (ge_detail e) \<noteq> None \<and> \<not> failedForced) \<and> length targets = 1") auto
  then show ?thesis using a unfolding deleteFailed_def Let_def by simp
qed

text \<open>What the check of the tips has seen when it lets a delete pass.\<close>

definition tips_checked :: "string \<Rightarrow> DeleteBranchEntry list \<Rightarrow> string list \<Rightarrow> GitLog \<Rightarrow> bool" where
  "tips_checked dir entries targets checks \<longleftrightarrow>
     list_all (\<lambda>e. \<not> (de_force e \<and> de_name e \<in> set targets)) entries \<or>
     (\<exists>tips. checks = [(tipsCommand dir, Inr tips)] \<and>
       list_all (\<lambda>e. de_force e \<and> de_name e \<in> set targets \<longrightarrow> de_expectedTipOid e \<noteq> [] \<and> readTips tips (de_name e) = Some (de_expectedTipOid e)) entries)"

lemma checkForcedTips_passed:
  assumes "checkForcedTips (logging answers) dir entries targets log = (None, log')"
  shows "tips_checked dir entries targets (asked log log')"
  using assms
  by (auto simp: tips_checked_def checkForcedTips_def Let_def logging_def filter_empty_conv list_all_iff split: if_splits list.splits sum.splits)

lemma checkForcedTips_log:
  "\<exists>refused new. checkForcedTips (logging answers) dir entries targets log = (refused, log @ new) \<and> list_all lists_refs new"
  by (auto simp: checkForcedTips_def Let_def logging_def split: list.splits sum.splits)

lemma deleteTargets_log:
  assumes "deleteTargets (logging answers) dir req probed targets log = (out, log')"
  shows "\<exists>checks deletes probes k. log' = log @ checks @ deletes @ probes \<and> list_all lists_refs checks \<and> list_all lists_refs probes \<and>
     map (gc_args \<circ> fst) deletes = take k (deleteCommands req targets) \<and>
     (deletes = [] \<or> db_isRemote req \<or> tips_checked dir (db_entries req) targets checks)"
proof -
  obtain refused checks where c: "(if db_isRemote req then (None, log) else checkForcedTips (logging answers) dir (db_entries req) targets log) = (refused, log @ checks)"
    "list_all lists_refs checks"
    using checkForcedTips_log [of answers dir "db_entries req" targets log] by (cases "db_isRemote req") auto
  show ?thesis
  proof (cases refused)
    case (Some out')
    with c assms have "log' = log @ checks" by (simp add: deleteTargets_def)
    then show ?thesis using c(2) by (intro exI [of _ checks] exI [of _ "[]"] exI [of _ 0]) simp
  next
    case None
    obtain res log1 where r: "runDeletes (logging answers) dir (db_isRemote req) (deleteCommands req targets) (log @ checks) = (res, log1)" by force
    from runDeletes_log [OF r] obtain k deletes where d: "log1 = (log @ checks) @ deletes" "map (gc_args \<circ> fst) deletes = take k (deleteCommands req targets)"
      by (metis asked_append)
    have "\<exists>probes. log' = log1 @ probes \<and> list_all lists_refs probes"
    proof (cases res)
      case None
      with \<open>refused = None\<close> c(1) r assms show ?thesis by (simp add: deleteTargets_def)
    next
      case (Some ef)
      with \<open>refused = None\<close> c(1) r assms have "(out, log') = deleteFailed (logging answers) dir probed targets (fst ef) (snd ef) log1"
        by (cases ef) (simp add: deleteTargets_def)
      then show ?thesis using deleteFailed_log [of answers dir probed targets "fst ef" "snd ef" log1] by (metis snd_conv)
    qed
    then obtain probes where p: "log' = log1 @ probes" "list_all lists_refs probes" by blast
    have "db_isRemote req \<or> tips_checked dir (db_entries req) targets checks"
      using checkForcedTips_passed [of answers dir "db_entries req" targets log "log @ checks"] c(1) None by (cases "db_isRemote req") auto
    then show ?thesis using p d c(2) by (intro exI [of _ checks] exI [of _ deletes] exI [of _ probes] exI [of _ k]) simp
  qed
qed

lemma deleteBranch_log:
  assumes "deleteBranch (logging answers) dir req log = (out, log')"
  shows "\<exists>live targets checks deletes probes k. log' = log @ live @ checks @ deletes @ probes \<and> list_all lists_refs live \<and> list_all lists_refs checks \<and>
     list_all lists_refs probes \<and> map (gc_args \<circ> fst) deletes = take k (deleteCommands req targets) \<and>
     (deletes = [] \<or> db_isRemote req \<or> tips_checked dir (db_entries req) targets checks)"
proof -
  obtain probed live targets where l: "liveTargets (logging answers) dir req log = ((probed, targets), log @ live)" "list_all lists_refs live"
    using liveTargets_log [of answers dir req log] by (metis prod.collapse)
  show ?thesis
  proof (cases targets)
    case None
    with l assms have "log' = log @ live" by (simp add: deleteBranch_def)
    then show ?thesis using l(2) by (intro exI [of _ live] exI [of _ "[]"] exI [of _ 0]) simp
  next
    case (Some ts)
    with l assms have "deleteTargets (logging answers) dir req probed ts (log @ live) = (out, log')" by (simp add: deleteBranch_def)
    from deleteTargets_log [OF this] obtain checks deletes probes k where
      "log' = (log @ live) @ checks @ deletes @ probes" "list_all lists_refs checks" "list_all lists_refs probes"
      "map (gc_args \<circ> fst) deletes = take k (deleteCommands req ts)"
      "deletes = [] \<or> db_isRemote req \<or> tips_checked dir (db_entries req) ts checks" by blast
    then show ?thesis using l(2)
      by (intro exI [of _ live] exI [of _ ts] exI [of _ checks] exI [of _ deletes] exI [of _ probes] exI [of _ k]) simp
  qed
qed

lemma forced_command:
  assumes "deleteCommands req targets = before @ (''branch'' # ''-D'' # names) # later"
  shows "before = [] \<and> \<not> db_isRemote req \<and> names = filter (isForced (db_entries req)) targets"
  using assms by (auto simp: deleteCommands_def Let_def Cons_eq_append_conv append_eq_Cons_conv split: if_splits)

text \<open>
  C13. Nothing is force-deleted unchecked: whatever git answers, when \<^verbatim>\<open>git branch -D\<close> is asked for a
  branch, the tips of the branches were read by the command right before it, and the branch was at the
  tip the user was warned about; every name given was forced by the request with such a tip.
\<close>

theorem forced_deletes_checked:
  assumes "deleteBranch (logging answers) dir req log = (out, log')" and "asked log log' = pre @ (command, answer) # post"
    and "gc_args command = ''branch'' # ''-D'' # names" and "name \<in> set names"
  shows "isForced (db_entries req) name \<and>
    (\<exists>earlier tips. pre = earlier @ [(tipsCommand dir, Inr tips)] \<and>
      list_all (\<lambda>e. de_force e \<and> de_name e = name \<longrightarrow> de_expectedTipOid e \<noteq> [] \<and> readTips tips name = Some (de_expectedTipOid e)) (db_entries req))"
proof -
  obtain live targets checks deletes probes k where log': "log' = log @ live @ checks @ deletes @ probes"
    and refs: "list_all lists_refs live" "list_all lists_refs checks" "list_all lists_refs probes"
    and ds: "map (gc_args \<circ> fst) deletes = take k (deleteCommands req targets)"
    and checked: "deletes = [] \<or> db_isRemote req \<or> tips_checked dir (db_entries req) targets checks"
    using deleteBranch_log [OF assms(1)] by blast
  have all: "pre @ (command, answer) # post = (live @ checks) @ deletes @ probes" using assms(2) log' by simp
  have not_list: "\<not> lists_refs (command, answer)" using assms(3) by (simp add: lists_refs_def)
  obtain before behind where at: "deletes = before @ (command, answer) # behind" "pre = (live @ checks) @ before"
    using found_between [OF all, of lists_refs] refs not_list by auto
  then have "take k (deleteCommands req targets) = map (gc_args \<circ> fst) before @ (''branch'' # ''-D'' # names) # map (gc_args \<circ> fst) behind"
    using ds assms(3) by simp
  then obtain later where "deleteCommands req targets = map (gc_args \<circ> fst) before @ (''branch'' # ''-D'' # names) # later"
    by (metis append_Cons append_assoc append_take_drop_id)
  from forced_command [OF this] have cmd: "before = []" "\<not> db_isRemote req" "names = filter (isForced (db_entries req)) targets" by simp_all
  with assms(4) have name: "isForced (db_entries req) name" "name \<in> set targets" by auto
  have "tips_checked dir (db_entries req) targets checks" using checked at(1) cmd(2) by simp
  then obtain tips where "checks = [(tipsCommand dir, Inr tips)]"
    "list_all (\<lambda>e. de_force e \<and> de_name e \<in> set targets \<longrightarrow> de_expectedTipOid e \<noteq> [] \<and> readTips tips (de_name e) = Some (de_expectedTipOid e)) (db_entries req)"
    using name by (auto simp: tips_checked_def isForced_def list_all_iff list_ex_iff)
  then show ?thesis using name at(2) cmd(1) by (auto simp: list_all_iff)
qed

definition sample_request :: DeleteBranchRequest where
  "sample_request = \<lparr>db_entries = [\<lparr>de_name = ''x'', de_force = True, de_expectedTipOid = ''abc''\<rparr>], db_isRemote = False, db_remoteName = []\<rparr>"

definition sample_tips :: string where
  "sample_tips = ''refs/heads/x'' @ [CHR 0x09] @ ''abc''"

definition sample_answers :: "GitLog \<Rightarrow> GitCommand \<Rightarrow> string GitResult" where
  "sample_answers log command =
     (if command = localBranchesCommand [] then Inr ''x'' else if command = tipsCommand [] then Inr sample_tips else Inr [])"

lemma sample_answers_simps [simp]:
  "sample_answers log (localBranchesCommand []) = Inr ''x''" "sample_answers log (tipsCommand []) = Inr sample_tips"
  by (simp_all add: sample_answers_def localBranchesCommand_def tipsCommand_def timed_def git_command_def)

lemma sample_delete:
  "\<exists>out answer. deleteBranch (logging sample_answers) [] sample_request [] =
     (out, [(localBranchesCommand [], Inr ''x''), (tipsCommand [], Inr sample_tips)] @ [(timed [] [''branch'', ''-D'', ''x''] 60000, answer)])"
proof -
  have lines: "get_lines ''x'' = [''x'']" "get_lines sample_tips = [sample_tips]"
    by (simp_all add: get_lines_def splitOn.simps sample_tips_def Let_def)
  have tips: "readTips sample_tips ''x'' = Some ''abc''"
    by (simp add: readTips_def lines) (simp add: tipLine_def sample_tips_def kHeadsPrefix_def substr_def drop_cr_def)
  have live: "liveTargets (logging sample_answers) [] sample_request [] = ((True, Some [''x'']), [(localBranchesCommand [], Inr ''x'')])"
    by (simp add: liveTargets_def sample_request_def readLocalBranchNames_def logging_def lines entryNames_def drop_cr_def)
  have "checkForcedTips (logging sample_answers) [] (db_entries sample_request) [''x''] log = (None, log @ [(tipsCommand [], Inr sample_tips)])" for log
    by (simp add: checkForcedTips_def sample_request_def logging_def tips)
  then show ?thesis
    by (simp add: deleteBranch_def live deleteTargets_def)
      (simp add: sample_request_def deleteCommands_def isForced_def logging_def Let_def sample_answers_def timed_def git_command_def localBranchesCommand_def tipsCommand_def)
qed

theorem forced_deletes_checked_witness:
  "isForced (db_entries sample_request) ''x'' \<and>
   (\<exists>earlier tips. [(localBranchesCommand [], Inr ''x''), (tipsCommand [], Inr sample_tips)] = earlier @ [(tipsCommand [], Inr tips)] \<and> readTips tips ''x'' = Some ''abc'')"
proof -
  obtain out answer where "deleteBranch (logging sample_answers) [] sample_request [] =
     (out, [(localBranchesCommand [], Inr ''x''), (tipsCommand [], Inr sample_tips)] @ [(timed [] [''branch'', ''-D'', ''x''] 60000, answer)])"
    using sample_delete by blast
  from forced_deletes_checked [OF this, of "[(localBranchesCommand [], Inr ''x''), (tipsCommand [], Inr sample_tips)]"
      "timed [] [''branch'', ''-D'', ''x''] 60000" answer "[]" "[''x'']" "''x''"]
  show ?thesis by (auto simp: asked_def sample_request_def)
qed

section \<open>Renaming\<close>

definition pushNew :: "string \<Rightarrow> string option \<Rightarrow> RenameBranchRequest \<Rightarrow> GitCommand" where
  "pushNew dir exe req = wire exe (rb_askpassDir req) (git_command dir [''push'', ''--set-upstream'', rb_remoteName req, rb_to req])"

definition deletesRemote :: "GitCommand \<Rightarrow> bool" where
  "deletesRemote command \<longleftrightarrow> length (gc_args command) = 4 \<and> gc_args command ! 0 = ''push'' \<and> gc_args command ! 2 = ''--delete'' \<and> gc_args command ! 1 \<noteq> ''--set-upstream''"

lemma deletesRemote_other [simp]: "\<not> deletesRemote (pushNew dir exe req)" "\<not> deletesRemote (timed dir (''branch'' # arguments) ms)"
  by (simp_all add: deletesRemote_def pushNew_def git_command_def)

lemma finishLocalRename_log:
  assumes "finishLocalRename (logging answers) dir exe req log = (out, log')"
  shows "\<exists>new. log' = log @ new \<and> (list_all (\<lambda>x. \<not> deletesRemote (fst x)) new \<or> (\<exists>pushed d. new = [(pushNew dir exe req, Inr pushed), d]))"
  using assms by (auto simp: finishLocalRename_def logging_def pushNew_def [symmetric] split: if_splits sum.splits)

definition rename_logged :: "string \<Rightarrow> string option \<Rightarrow> RenameBranchRequest \<Rightarrow> GitLog \<Rightarrow> GitLog \<Rightarrow> bool" where
  "rename_logged dir exe req log log' \<longleftrightarrow>
     (\<exists>renames new. log' = log @ renames @ new \<and> list_all (\<lambda>x. \<not> deletesRemote (fst x)) renames \<and>
       (list_all (\<lambda>x. \<not> deletesRemote (fst x)) new \<or> (\<exists>pushed d. new = [(pushNew dir exe req, Inr pushed), d])))"

lemma renameBranch_log:
  assumes "renameBranch (logging answers) dir exe caseInsensitive req log = (out, log')"
  shows "rename_logged dir exe req log log'"
proof -
  have finish: ?thesis
    if "finishLocalRename (logging answers) dir exe req (log @ renames) = (out, log')" "list_all (\<lambda>x. \<not> deletesRemote (fst x)) renames" for renames
    using finishLocalRename_log [OF that(1)] that(2) unfolding rename_logged_def by (metis append.assoc)
  have stop: "rename_logged dir exe req log (log @ renames)" if "list_all (\<lambda>x. \<not> deletesRemote (fst x)) renames" for renames
    using that unfolding rename_logged_def by (intro exI [of _ renames] exI [of _ "[]"]) simp
  show ?thesis
  proof (cases "\<not> isValidBranchName (rb_to req)")
    case True
    with assms stop [of "[]"] show ?thesis by (simp add: renameBranch_def)
  next
    case valid: False
    show ?thesis
    proof (cases "rb_from req \<noteq> rb_to req \<and> pathsEquivalent caseInsensitive (rb_from req) (rb_to req) \<and> caseInsensitive")
      case True
      define c1 c2 where "c1 = timed dir [''branch'', ''-m'', rb_from req, rb_from req @ ''.gbm-rename-tmp''] 60000"
        and "c2 = timed dir [''branch'', ''-m'', rb_from req @ ''.gbm-rename-tmp'', rb_to req] 60000"
      note branch = assms [unfolded renameBranch_def Let_def if_not_P [OF valid] if_P [OF True], folded c1_def c2_def]
      have other: "\<not> deletesRemote c1" "\<not> deletesRemote c2" by (simp_all add: c1_def c2_def)
      show ?thesis
      proof (cases "answers log c1")
        case (Inl e)
        with branch other stop [of "[(c1, Inl e)]"] show ?thesis by (simp add: logging_def)
      next
        case (Inr o1)
        with branch other show ?thesis
          by (cases "answers (log @ [(c1, Inr o1)]) c2")
            (auto simp: logging_simp intro: stop [of "[(c1, Inr o1), (c2, Inl _)]"] finish [of "[(c1, Inr o1), (c2, Inr _)]"])
      qed
    next
      case False
      define c where "c = timed dir [''branch'', if rb_force req then ''-M'' else ''-m'', rb_from req, rb_to req] 60000"
      note branch = assms [unfolded renameBranch_def Let_def if_not_P [OF valid] if_not_P [OF False], folded c_def]
      have "\<not> deletesRemote c" by (simp add: c_def)
      with branch show ?thesis
        by (cases "answers log c") (auto simp: logging_simp intro: stop [of "[(c, Inl _)]"] finish [of "[(c, Inr _)]"])
    qed
  qed
qed

text \<open>
  A rename never leaves a branch unpublished: whatever git answers, the old branch is deleted
  on the remote only right after the new one has been pushed there with success.
\<close>

theorem renamed_before_deleted:
  assumes "renameBranch (logging answers) dir exe caseInsensitive req log = (out, log')" and "asked log log' = pre @ (command, answer) # post"
    and "deletesRemote command"
  shows "\<exists>earlier pushed. pre = earlier @ [(pushNew dir exe req, Inr pushed)]"
proof -
  obtain renames new where log': "log' = log @ renames @ new" "list_all (\<lambda>x. \<not> deletesRemote (fst x)) renames"
    and new: "list_all (\<lambda>x. \<not> deletesRemote (fst x)) new \<or> (\<exists>pushed d. new = [(pushNew dir exe req, Inr pushed), d])"
    using renameBranch_log [OF assms(1)] unfolding rename_logged_def by blast
  have "pre @ (command, answer) # post = renames @ new @ []" using assms(2) log'(1) by simp
  from found_between [OF this log'(2)] assms(3) obtain before behind where at: "new = before @ (command, answer) # behind" "pre = renames @ before" by auto
  with new assms(3) obtain pushed where "before = [(pushNew dir exe req, Inr pushed)]" by (auto simp: append_eq_Cons_conv Cons_eq_append_conv)
  with at(2) show ?thesis by blast
qed

definition sample_rename :: RenameBranchRequest where
  "sample_rename = \<lparr>rb_from = ''a'', rb_to = ''b'', rb_force = False, rb_renameRemote = True, rb_remoteName = ''origin'', rb_askpassDir = []\<rparr>"

theorem renamed_before_deleted_witness:
  "\<exists>earlier pushed. [(timed [] [''branch'', ''-m'', ''a'', ''b''] 60000, Inr [] :: string GitResult), (pushNew [] None sample_rename, Inr [])] =
     earlier @ [(pushNew [] None sample_rename, Inr pushed)]"
proof -
  let ?d = "git_command [] [''push'', ''origin'', ''--delete'', ''a'']"
  let ?pre = "[(timed [] [''branch'', ''-m'', ''a'', ''b''] 60000, Inr [] :: string GitResult), (pushNew [] None sample_rename, Inr [])]"
  have "isValidBranchName ''b''" by code_simp
  then have "\<exists>out. renameBranch (logging (\<lambda>_ _. Inr [])) [] None False sample_rename [] = (out, ?pre @ [(?d, Inr [])])"
    by (simp add: renameBranch_def finishLocalRename_def sample_rename_def logging_def pushNew_def wire_def pathsEquivalent_def)
  then obtain out where "renameBranch (logging (\<lambda>_ _. Inr [])) [] None False sample_rename [] = (out, ?pre @ [(?d, Inr [])])" by blast
  then show ?thesis
    by (rule renamed_before_deleted [where command = ?d and answer = "Inr []" and post = "[]"])
      (simp_all add: asked_def deletesRemote_def git_command_def)
qed

end
