(* ===== verification/ReplayOperations.thy ===== *)
theory ReplayOperations
  imports OperationSteps CommitMetas
begin

text \<open>
  The operations that move a work tree to other commits, \<^verbatim>\<open>CheckoutOp\<close>, \<^verbatim>\<open>MergeOps\<close>, \<^verbatim>\<open>RebaseOps\<close>,
  \<^verbatim>\<open>CherryPickOps\<close> and \<^verbatim>\<open>RevertOps\<close> of \<^verbatim>\<open>src/core/git/ops\<close>. Each may be asked to stash the user's changes
  first. The files an operation touches itself are reached through \<open>Disk\<close>.
\<close>

text \<open>
  Writing a temporary file answers its path, empty on failure; \<open>'g\<close> is the state git and the files
  share.
\<close>

record 'g Disk =
  dk_writeTempFile :: "string \<Rightarrow> 'g \<Rightarrow> string \<times> 'g"
  dk_exists :: "string \<Rightarrow> 'g \<Rightarrow> bool"
  dk_remove :: "string \<Rightarrow> 'g \<Rightarrow> 'g"

text \<open>An operation by what it answers about itself, from the defaults of the base class.\<close>

definition new_operation :: "string \<Rightarrow> Operation" where
  "new_operation description = \<lparr>o_describe = Some description, o_kind = Some [], o_killableMidFlight = False, o_isBackground = False,
     o_retriesOnLockHeld = False, o_isHousekeeping = False, o_allowedDuringSequencerOperation = False\<rparr>"

section \<open>Stashing first\<close>

definition stashCommand :: "string \<Rightarrow> string \<Rightarrow> GitCommand" where
  "stashCommand dir before = timed dir [''stash'', ''push'', ''--include-untracked'', ''-m'', ''git-branch-manager: before '' @ before] kLocalCeiling"

definition stashThen ::
  "'g Git \<Rightarrow> string \<Rightarrow> bool \<Rightarrow> string \<Rightarrow> string \<Rightarrow> ('g \<Rightarrow> OperationOutcome \<times> 'g) \<Rightarrow> 'g \<Rightarrow> OperationOutcome \<times> 'g" where
  "stashThen git dir stashFirst before undone rest g =
     (if stashFirst
      then (case git (stashCommand dir before) g of
              (Inl e, g) \<Rightarrow> (failedWith e (''Could not stash your changes, so nothing was '' @ undone), g)
            | (Inr _, g) \<Rightarrow> rest g)
      else rest g)"

text \<open>A failed command, with the summary of a stop at a conflict.\<close>

definition stopped :: "string \<Rightarrow> GitError \<Rightarrow> OperationOutcome" where
  "stopped what e = failedWith e (if ge_code e = ConflictError then what @ '' stopped with conflicts to resolve'' else ge_message e)"

section \<open>Checking out\<close>

record CheckoutRequest =
  co_target :: string
  co_detach :: bool
  co_createBranch :: bool
  co_newBranchName :: string
  co_force :: bool
  co_stashFirst :: bool
  co_recurseSubmodules :: bool

definition makeCheckoutOperation :: "CheckoutRequest \<Rightarrow> Operation" where
  "makeCheckoutOperation req =
     (new_operation
       (if co_createBranch req then ''Create branch '' @ co_newBranchName req @ '' at '' @ co_target req
        else if co_detach req then ''Check out '' @ co_target req @ '' (detached)''
        else ''Switch to '' @ co_target req))\<lparr>o_kind := Some ''checkout''\<rparr>"

definition checkoutArgs :: "CheckoutRequest \<Rightarrow> string list" where
  "checkoutArgs req =
     (if co_createBranch req
      then [''switch'', ''--create'', co_newBranchName req] @ (if co_target req \<noteq> [] then [co_target req] else [])
      else if co_detach req then [''switch'', ''--detach'', co_target req]
      else [''switch'', co_target req]) @
     (if co_force req then [''--discard-changes''] else []) @
     (if co_recurseSubmodules req then [''--recurse-submodules''] else [])"

definition switchTo :: "'g Git \<Rightarrow> string \<Rightarrow> CheckoutRequest \<Rightarrow> 'g \<Rightarrow> OperationOutcome \<times> 'g" where
  "switchTo git dir req g =
     (case git (git_command dir (checkoutArgs req)) g of
        (Inr _, g) \<Rightarrow>
          (succeededWith (if co_createBranch req then ''Created and switched to '' @ co_newBranchName req else ''Switched to '' @ co_target req), g)
      | (Inl e, g) \<Rightarrow>
          ((failedWith e (ge_message e))\<lparr>oo_choices :=
             if ge_code e = DirtyWorkTree \<and> \<not> co_force req \<and> \<not> co_stashFirst req then [(StashAndRetry, False), (ForceDiscard, True)] else []\<rparr>, g))"

definition checkout :: "'g Git \<Rightarrow> string \<Rightarrow> CheckoutRequest \<Rightarrow> 'g \<Rightarrow> OperationOutcome \<times> 'g" where
  "checkout git dir req g =
     (if co_target req = [] \<and> \<not> co_createBranch req then (invalidArgument ''No branch selected'', g)
      else if co_createBranch req \<and> \<not> isValidBranchName (co_newBranchName req)
      then (invalidArgument (quoted (co_newBranchName req) @ '' is not a valid branch name''), g)
      else stashThen git dir (co_stashFirst req) (''switching to '' @ co_target req) ''switched'' (switchTo git dir req) g)"

section \<open>Merging\<close>

datatype MergeMode = FastForwardOnly | NoFastForward | Squash

record MergeRequest =
  mg_target :: string
  mg_mode :: MergeMode
  mg_message :: string
  mg_stashFirst :: bool

fun modeLabel :: "MergeMode \<Rightarrow> string" where
  "modeLabel FastForwardOnly = ''Fast-forward''"
| "modeLabel NoFastForward = ''Merge''"
| "modeLabel Squash = ''Squash merge''"

definition makeMergeOperation :: "MergeRequest \<Rightarrow> Operation" where
  "makeMergeOperation req = new_operation (modeLabel (mg_mode req) @ '' '' @ refDisplayName (mg_target req))"

definition indexProbe :: "string \<Rightarrow> GitCommand" where
  "indexProbe dir = (timed dir [''diff'', ''--cached'', ''--quiet''] 60000)\<lparr>gc_benignExitCodes := [1]\<rparr>"

definition indexMatchesHeadProbe :: "'g Git \<Rightarrow> string \<Rightarrow> 'g \<Rightarrow> bool GitResult \<times> 'g" where
  "indexMatchesHeadProbe git dir g =
     (case git (indexProbe dir) g of
        (Inr _, g) \<Rightarrow> (Inr True, g)
      | (Inl e, g) \<Rightarrow> (if ge_exitCode e = 1 then Inr False else Inl e, g))"

definition squashCommit :: "string \<Rightarrow> MergeRequest \<Rightarrow> GitCommand" where
  "squashCommit dir req = (timed dir [''commit'', ''--file'', ''-''] 120000)\<lparr>gc_stdinData := Some (mg_message req)\<rparr>"

definition commitSquash :: "'g Git \<Rightarrow> 'g Disk \<Rightarrow> RepoPaths \<Rightarrow> MergeRequest \<Rightarrow> 'g \<Rightarrow> OperationOutcome \<times> 'g" where
  "commitSquash git disk paths req g =
     (let dir = commandDir paths; name = refDisplayName (mg_target req)
      in case indexMatchesHeadProbe git dir g of
           (Inl e, g) \<Rightarrow> (failedWith e (''Squashed '' @ name @ '', but could not check what was staged -- nothing was committed''), g)
         | (Inr True, g) \<Rightarrow>
             if dk_exists disk (squashMsgFile paths) g
             then (succeededWith (''Squashed '' @ name @ '', but it has no net changes -- nothing was committed''), dk_remove disk (squashMsgFile paths) g)
             else (succeededWith (name @ '' is already up to date -- nothing to squash''), g)
         | (Inr False, g) \<Rightarrow>
             (case git (squashCommit dir req) g of
                (Inl e, g) \<Rightarrow> (failedWith e (''Squashed '' @ name @ '', but the commit failed -- the changes are staged''), g)
              | (Inr _, g) \<Rightarrow> (succeededWith (''Squash merged '' @ name), g)))"

definition mergeArgs :: "MergeRequest \<Rightarrow> string list" where
  "mergeArgs req =
     [''merge''] @
     (case mg_mode req of
        FastForwardOnly \<Rightarrow> [''--ff-only'']
      | NoFastForward \<Rightarrow> [''--no-ff''] @ (if mg_message req = [] then [''--no-edit''] else [''-m'', mg_message req])
      | Squash \<Rightarrow> [''--squash'']) @ [mg_target req]"

definition mergeWith :: "'g Git \<Rightarrow> 'g Disk \<Rightarrow> RepoPaths \<Rightarrow> MergeRequest \<Rightarrow> bool \<Rightarrow> 'g \<Rightarrow> OperationOutcome \<times> 'g" where
  "mergeWith git disk paths req commitAfterSquash g =
     (case git (git_command (commandDir paths) (mergeArgs req)) g of
        (Inl e, g) \<Rightarrow> (stopped ''Merge'' e, g)
      | (Inr _, g) \<Rightarrow>
          if commitAfterSquash then commitSquash git disk paths req g
          else if mg_mode req = Squash \<and> mg_message req \<noteq> []
          then (succeededWith (''Squashed '' @ refDisplayName (mg_target req) @
                  '' and staged it, but not committed -- you already had staged changes, which would have gone into the same commit''), g)
          else (succeededWith (modeLabel (mg_mode req) @ ''d '' @ refDisplayName (mg_target req)), g))"

definition mergeProbed :: "'g Git \<Rightarrow> 'g Disk \<Rightarrow> RepoPaths \<Rightarrow> MergeRequest \<Rightarrow> 'g \<Rightarrow> OperationOutcome \<times> 'g" where
  "mergeProbed git disk paths req g =
     (if mg_mode req = Squash \<and> mg_message req \<noteq> []
      then (case indexMatchesHeadProbe git (commandDir paths) g of
              (Inl e, g) \<Rightarrow> (failedWith e ''Could not check what was staged, so nothing was merged'', g)
            | (Inr matches, g) \<Rightarrow> mergeWith git disk paths req matches g)
      else mergeWith git disk paths req False g)"

definition merge :: "'g Git \<Rightarrow> 'g Disk \<Rightarrow> RepoPaths \<Rightarrow> MergeRequest \<Rightarrow> 'g \<Rightarrow> OperationOutcome \<times> 'g" where
  "merge git disk paths req g =
     (if mg_target req = [] then (invalidArgument ''No branch selected to merge'', g)
      else stashThen git (commandDir paths) (mg_stashFirst req) (''merging '' @ refDisplayName (mg_target req)) ''merged''
             (mergeProbed git disk paths req) g)"

definition mergeAbort :: "'g Git \<Rightarrow> string \<Rightarrow> 'g \<Rightarrow> OperationOutcome \<times> 'g" where
  "mergeAbort git dir g = runOne git (timed dir [''merge'', ''--abort''] 120000) (\<lambda>_. ''Merge aborted'') g"

section \<open>Rebasing\<close>

datatype TodoAction = TodoPick | TodoEdit | TodoSquash | TodoFixup | TodoDrop

record RebaseTodoEntry =
  td_action :: TodoAction
  td_oid :: ObjectId
  td_shortOid :: string
  td_subject :: string

record RebaseInteractiveRequest =
  ii_upstream :: string
  ii_onto :: string
  ii_todo :: "RebaseTodoEntry list"
  ii_stashFirst :: bool

record RebaseRequest =
  rr_upstream :: string
  rr_onto :: string
  rr_stashFirst :: bool
  rr_rebaseMerges :: bool
  rr_autosquash :: bool

fun actionVerb :: "TodoAction \<Rightarrow> string" where
  "actionVerb TodoPick = ''pick''"
| "actionVerb TodoEdit = ''edit''"
| "actionVerb TodoSquash = ''squash''"
| "actionVerb TodoFixup = ''fixup''"
| "actionVerb TodoDrop = ''drop''"

definition todoLine :: "RebaseTodoEntry \<Rightarrow> string" where
  "todoLine entry =
     actionVerb (td_action entry) @ '' '' @ (if td_shortOid entry = [] then hex (td_oid entry) else td_shortOid entry) @ '' '' @
     td_subject entry @ [nl]"

definition serializeTodo :: "RebaseTodoEntry list \<Rightarrow> string" where
  "serializeTodo todo = concat (map todoLine todo)"

definition shellQuote :: "string \<Rightarrow> string" where
  "shellQuote path =
     CHR 0x27 # concat (map (\<lambda>c. if c = CHR 0x27 then [CHR 0x27, CHR 0x5C, CHR 0x27, CHR 0x27] else [c]) path) @ [CHR 0x27]"

definition applyRebaseEnv :: "string \<Rightarrow> GitCommand \<Rightarrow> GitCommand" where
  "applyRebaseEnv todoFile command =
     command\<lparr>gc_envOverrides := gc_envOverrides command @ [(''GIT_SEQUENCE_EDITOR'', ''cp '' @ shellQuote todoFile), (''GIT_EDITOR'', ''true'')]\<rparr>"

definition rebaseBase :: "string \<Rightarrow> string \<Rightarrow> string" where
  "rebaseBase upstream onto = refDisplayName (if onto = [] then upstream else onto)"

definition makeRebaseInteractiveOperation :: "RebaseInteractiveRequest \<Rightarrow> Operation" where
  "makeRebaseInteractiveOperation req = new_operation (''Interactive rebase onto '' @ rebaseBase (ii_upstream req) (ii_onto req))"

definition runRebase :: "'g Git \<Rightarrow> GitCommand \<Rightarrow> string \<Rightarrow> 'g \<Rightarrow> OperationOutcome \<times> 'g" where
  "runRebase git command base g =
     (case git command g of
        (Inr _, g) \<Rightarrow> (succeededWith (''Rebased onto '' @ base), g)
      | (Inl e, g) \<Rightarrow> (stopped ''Rebase'' e, g))"

definition ontoArgs :: "string \<Rightarrow> string list" where
  "ontoArgs onto = (if onto \<noteq> [] then [''--onto'', onto] else [])"

text \<open>The guard removes the plan when the operation is left.\<close>

definition rebaseWithPlan :: "'g Git \<Rightarrow> 'g Disk \<Rightarrow> string \<Rightarrow> RebaseInteractiveRequest \<Rightarrow> 'g \<Rightarrow> OperationOutcome \<times> 'g" where
  "rebaseWithPlan git disk dir req g =
     (let (todoFile, g) = dk_writeTempFile disk (serializeTodo (ii_todo req)) g
      in if todoFile = [] then (new_outcome\<lparr>oo_error := Some (git_error Io ''Could not write a temporary rebase plan'' [])\<rparr>, g)
         else let command = applyRebaseEnv todoFile (git_command dir ([''rebase'', ''-i''] @ ontoArgs (ii_onto req) @ [ii_upstream req]));
                  (out, g) = runRebase git command (rebaseBase (ii_upstream req) (ii_onto req)) g
              in (out, dk_remove disk todoFile g))"

definition rebaseInteractive :: "'g Git \<Rightarrow> 'g Disk \<Rightarrow> string \<Rightarrow> RebaseInteractiveRequest \<Rightarrow> 'g \<Rightarrow> OperationOutcome \<times> 'g" where
  "rebaseInteractive git disk dir req g =
     (if ii_upstream req = [] then (invalidArgument ''No base commit selected to rebase onto'', g)
      else if ii_todo req = [] then (invalidArgument ''There are no commits to rebase'', g)
      else stashThen git dir (ii_stashFirst req) ''rebase'' ''rebased'' (rebaseWithPlan git disk dir req) g)"

definition makeRebaseOperation :: "RebaseRequest \<Rightarrow> Operation" where
  "makeRebaseOperation req = new_operation (''Rebase onto '' @ rebaseBase (rr_upstream req) (rr_onto req))"

definition rebaseArgs :: "RebaseRequest \<Rightarrow> string list" where
  "rebaseArgs req =
     [''rebase''] @ ontoArgs (rr_onto req) @ (if rr_rebaseMerges req then [''--rebase-merges''] else []) @
     (if rr_autosquash req then [''--autosquash''] else []) @ [rr_upstream req]"

definition rebase :: "'g Git \<Rightarrow> string \<Rightarrow> RebaseRequest \<Rightarrow> 'g \<Rightarrow> OperationOutcome \<times> 'g" where
  "rebase git dir req g =
     (if rr_upstream req = [] then (invalidArgument ''No base commit selected to rebase onto'', g)
      else stashThen git dir (rr_stashFirst req) ''rebase'' ''rebased''
             (runRebase git (git_command dir (rebaseArgs req)) (rebaseBase (rr_upstream req) (rr_onto req))) g)"

datatype ControlVerb = Continue | Skip | Abort

fun verbFlag :: "ControlVerb \<Rightarrow> string" where
  "verbFlag Continue = ''--continue''"
| "verbFlag Skip = ''--skip''"
| "verbFlag Abort = ''--abort''"

definition rebaseControlCommand :: "string \<Rightarrow> ControlVerb \<Rightarrow> GitCommand" where
  "rebaseControlCommand dir verb =
     (timed dir [''rebase'', verbFlag verb] (if verb = Abort then 120000 else kLocalCeiling))
       \<lparr>gc_envOverrides := if verb = Continue then [(''GIT_EDITOR'', ''true'')] else []\<rparr>"

definition rebaseControl :: "'g Git \<Rightarrow> string \<Rightarrow> ControlVerb \<Rightarrow> string \<Rightarrow> 'g \<Rightarrow> OperationOutcome \<times> 'g" where
  "rebaseControl git dir verb description g =
     (case git (rebaseControlCommand dir verb) g of
        (Inl e, g) \<Rightarrow> (stopped ''Rebase'' e, g)
      | (Inr _, g) \<Rightarrow> (succeededWith description, g))"

text \<open>The plan a rebase would start from.\<close>

definition planCommand :: "string \<Rightarrow> string \<Rightarrow> GitCommand" where
  "planCommand dir upstream = timed dir [''log'', ''--format=%H%x09%h%x09%s'', ''--reverse'', upstream @ ''..HEAD''] 60000"

definition planLine :: "string \<Rightarrow> RebaseTodoEntry list" where
  "planLine line =
     (case find_char (CHR 0x09) line of
        None \<Rightarrow> []
      | Some firstTab \<Rightarrow>
          (case find_char_from (CHR 0x09) line (firstTab + 1) of
             None \<Rightarrow> []
           | Some secondTab \<Rightarrow>
               [\<lparr>td_action = TodoPick, td_oid = fromHex (take firstTab line),
                 td_shortOid = substr line (firstTab + 1) (secondTab - firstTab - 1), td_subject = drop (secondTab + 1) line\<rparr>]))"

definition plan :: "'g Git \<Rightarrow> string \<Rightarrow> string \<Rightarrow> 'g \<Rightarrow> RebaseTodoEntry list GitResult \<times> 'g" where
  "plan git dir upstream g =
     (if upstream = [] then (Inl (git_error InvalidArgument ''No base commit selected to rebase onto'' []), g)
      else case git (planCommand dir upstream) g of
             (Inl e, g) \<Rightarrow> (Inl e, g)
           | (Inr out, g) \<Rightarrow> (Inr (concat (map planLine (splitOn nl out))), g))"

section \<open>Picking and reverting\<close>

record CherryPickRequest =
  cp_commits :: "ObjectId list"
  cp_mainline :: int
  cp_noCommit :: bool
  cp_stashFirst :: bool
  cp_recordOrigin :: bool

record RevertRequest =
  rv_commits :: "ObjectId list"
  rv_noCommit :: bool
  rv_stashFirst :: bool

definition describeCommits :: "string \<Rightarrow> ObjectId list \<Rightarrow> string" where
  "describeCommits what commits =
     (if length commits = 1 then what @ '' '' @ shortHex 8 (hd commits) else what @ '' '' @ to_string (length commits) @ '' commits'')"

definition runPick :: "'g Git \<Rightarrow> GitCommand \<Rightarrow> string \<Rightarrow> ObjectId list \<Rightarrow> 'g \<Rightarrow> OperationOutcome \<times> 'g" where
  "runPick git command what commits g =
     (case git command g of
        (Inr _, g) \<Rightarrow> (succeededWith (describeCommits what commits), g)
      | (Inl e, g) \<Rightarrow> (stopped what e, g))"

definition cherryPickArgs :: "CherryPickRequest \<Rightarrow> string list" where
  "cherryPickArgs req =
     [''cherry-pick''] @ (if cp_mainline req > 0 then [''-m'', int_to_string (cp_mainline req)] else []) @
     (if cp_noCommit req then [''--no-commit''] else []) @ (if cp_recordOrigin req then [''-x''] else []) @ map hex (cp_commits req)"

definition cherryPick :: "'g Git \<Rightarrow> string \<Rightarrow> CherryPickRequest \<Rightarrow> 'g \<Rightarrow> OperationOutcome \<times> 'g" where
  "cherryPick git dir req g =
     (if cp_commits req = [] then (invalidArgument ''No commits selected to pick'', g)
      else stashThen git dir (cp_stashFirst req) ''cherry-pick'' ''picked''
             (runPick git (git_command dir (cherryPickArgs req)) ''Cherry-pick'' (cp_commits req)) g)"

definition cherryPickControl :: "'g Git \<Rightarrow> string \<Rightarrow> ControlVerb \<Rightarrow> string \<Rightarrow> 'g \<Rightarrow> OperationOutcome \<times> 'g" where
  "cherryPickControl git dir verb description g = runOne git (timed dir [''cherry-pick'', verbFlag verb] 120000) (\<lambda>_. description) g"

definition revertArgs :: "RevertRequest \<Rightarrow> string list" where
  "revertArgs req = [''revert'', if rv_noCommit req then ''--no-commit'' else ''--no-edit''] @ map hex (rv_commits req)"

definition revert :: "'g Git \<Rightarrow> string \<Rightarrow> RevertRequest \<Rightarrow> 'g \<Rightarrow> OperationOutcome \<times> 'g" where
  "revert git dir req g =
     (if rv_commits req = [] then (invalidArgument ''No commits selected to revert'', g)
      else stashThen git dir (rv_stashFirst req) ''revert'' ''reverted''
             (runPick git (git_command dir (revertArgs req)) ''Revert'' (rv_commits req)) g)"

end
