(* ===== verification/ReplayPromises.thy ===== *)
theory ReplayPromises
  imports ReplayOperations RefReading
begin

text \<open>
  What the operations that move a work tree ask of git, whatever git answers: nothing is moved before
  the user's changes are stashed when that was asked for, a squash is committed only when nothing
  else is staged, and the plan of an interactive rebase reaches git as it was made.
\<close>

section \<open>A disk that leaves the log alone\<close>

definition log_disk :: "(string \<Rightarrow> GitLog \<Rightarrow> string) \<Rightarrow> (string \<Rightarrow> GitLog \<Rightarrow> bool) \<Rightarrow> GitLog Disk" where
  "log_disk tmp ex = \<lparr>dk_writeTempFile = \<lambda>content log. (tmp content log, log), dk_exists = ex, dk_remove = \<lambda>path log. log\<rparr>"

lemma log_disk_simps [simp]:
  "dk_writeTempFile (log_disk tmp ex) content log = (tmp content log, log)"
  "dk_exists (log_disk tmp ex) = ex" "dk_remove (log_disk tmp ex) path log = log"
  by (simp_all add: log_disk_def)

section \<open>Stashing first\<close>

definition stashes :: "GitCommand \<Rightarrow> bool" where
  "stashes command \<longleftrightarrow> hd (gc_args command) = ''stash''"

lemma stashes_stashCommand [simp]: "stashes (stashCommand dir before)"
  by (simp add: stashes_def stashCommand_def)

text \<open>What an operation that never stashes itself asks.\<close>

definition asks_no_stash :: "(GitLog \<Rightarrow> OperationOutcome \<times> GitLog) \<Rightarrow> bool" where
  "asks_no_stash rest \<longleftrightarrow> (\<forall>log. \<exists>new. snd (rest log) = log @ new \<and> list_all (\<lambda>x. \<not> stashes (fst x)) new)"

lemma asks_no_stashD: "asks_no_stash rest \<Longrightarrow> rest log = (out, log') \<Longrightarrow> \<exists>new. log' = log @ new \<and> list_all (\<lambda>x. \<not> stashes (fst x)) new"
  unfolding asks_no_stash_def by (metis snd_conv)

text \<open>
  The contract the operations share: some requests are refused at once; the others stash when they
  are asked to and then do their work, which never stashes.
\<close>

locale stashing_operation =
  fixes perform :: "'r \<Rightarrow> GitLog Git \<Rightarrow> GitLog \<Rightarrow> OperationOutcome \<times> GitLog"
    and dir :: string
    and refused :: "'r \<Rightarrow> OperationOutcome option"
    and stashFirst :: "'r \<Rightarrow> bool"
    and before :: "'r \<Rightarrow> string"
    and undone :: string
    and rest :: "'r \<Rightarrow> GitLog Git \<Rightarrow> GitLog \<Rightarrow> OperationOutcome \<times> GitLog"
  assumes refuses: "refused r = Some out \<Longrightarrow> perform r git log = (out, log) \<and> \<not> oo_succeeded out"
    and performs: "refused r = None \<Longrightarrow> perform r git log = stashThen git dir (stashFirst r) (before r) undone (rest r git) log"
    and rest_no_stash: "asks_no_stash (rest r (logging answers))"
begin

lemma stash_order:
  assumes "perform r (logging answers) log = (out, log')"
  shows "(\<not> oo_succeeded out \<and> asked log log' = []) \<or>
    (\<exists>e. stashFirst r \<and> asked log log' = [(stashCommand dir (before r), Inl e)] \<and> oo_error out = Some e \<and> \<not> oo_succeeded out) \<or>
    (\<exists>saved new. asked log log' = (if stashFirst r then [(stashCommand dir (before r), Inr saved)] else []) @ new \<and>
       list_all (\<lambda>x. \<not> stashes (fst x)) new)"
proof (cases "refused r")
  case (Some o')
  with refuses [OF Some] assms show ?thesis by (auto simp: asked_def)
next
  case None
  let ?c = "stashCommand dir (before r)"
  have run: "stashThen (logging answers) dir (stashFirst r) (before r) undone (rest r (logging answers)) log = (out, log')"
    using performs [OF None, of "logging answers" log] assms by simp
  show ?thesis
  proof (cases "stashFirst r")
    case False
    with run have "rest r (logging answers) log = (out, log')" by (simp add: stashThen_def)
    from asks_no_stashD [OF rest_no_stash this] False show ?thesis by auto
  next
    case True
    show ?thesis
    proof (cases "answers log ?c")
      case (Inl e)
      with True run have "log' = log @ [(?c, Inl e)]" "out = failedWith e (''Could not stash your changes, so nothing was '' @ undone)"
        by (simp_all add: stashThen_def logging_def)
      with True show ?thesis by (simp add: failedWith_def new_outcome_def)
    next
      case (Inr saved)
      with True run have "rest r (logging answers) (log @ [(?c, Inr saved)]) = (out, log')" by (simp add: stashThen_def logging_def)
      from asks_no_stashD [OF rest_no_stash this] True show ?thesis by auto
    qed
  qed
qed

end

lemma invalidArgument_fails [simp]: "\<not> oo_succeeded (invalidArgument m)"
  by (simp add: invalidArgument_def new_outcome_def)

lemma one_command_no_stash:
  assumes "\<And>log. snd (rest log) = log @ [(command, answers log command)]" and "\<not> stashes command"
  shows "asks_no_stash rest"
  unfolding asks_no_stash_def using assms by (intro allI) auto

lemma hd_args:
  "hd (checkoutArgs r) = ''switch''" "hd (rebaseArgs r') = ''rebase''" "hd (cherryPickArgs c) = ''cherry-pick''" "hd (revertArgs v) = ''revert''"
  "hd (mergeArgs m) = ''merge''"
  by (simp_all add: checkoutArgs_def rebaseArgs_def cherryPickArgs_def revertArgs_def mergeArgs_def)

definition refuseCheckout :: "CheckoutRequest \<Rightarrow> OperationOutcome option" where
  "refuseCheckout req =
     (if co_target req = [] \<and> \<not> co_createBranch req then Some (invalidArgument ''No branch selected'')
      else if co_createBranch req \<and> \<not> isValidBranchName (co_newBranchName req)
      then Some (invalidArgument (quoted (co_newBranchName req) @ '' is not a valid branch name'')) else None)"

interpretation checkouts: stashing_operation "\<lambda>req git. checkout git dir req" dir refuseCheckout co_stashFirst
    "\<lambda>req. ''switching to '' @ co_target req" "''switched''" "\<lambda>req git. switchTo git dir req" for dir
proof
  show "asks_no_stash (switchTo (logging answers) dir r)" for r answers
    by (rule one_command_no_stash [where command = "git_command dir (checkoutArgs r)" and answers = answers])
      (simp_all add: switchTo_def logging_def stashes_def git_command_def hd_args split: sum.split)
qed (auto simp: checkout_def refuseCheckout_def split: if_splits)

interpretation rebases: stashing_operation "\<lambda>req git. rebase git dir req" dir
    "\<lambda>req. if rr_upstream req = [] then Some (invalidArgument ''No base commit selected to rebase onto'') else None" rr_stashFirst
    "\<lambda>req. ''rebase''" "''rebased''"
    "\<lambda>req git. runRebase git (git_command dir (rebaseArgs req)) (rebaseBase (rr_upstream req) (rr_onto req))" for dir
proof
  show "asks_no_stash (runRebase (logging answers) (git_command dir (rebaseArgs r)) (rebaseBase (rr_upstream r) (rr_onto r)))" for r answers
    by (rule one_command_no_stash [where command = "git_command dir (rebaseArgs r)" and answers = answers])
      (simp_all add: runRebase_def logging_def stashes_def git_command_def hd_args split: sum.split)
qed (auto simp: rebase_def split: if_splits)

interpretation picks: stashing_operation "\<lambda>req git. cherryPick git dir req" dir
    "\<lambda>req. if cp_commits req = [] then Some (invalidArgument ''No commits selected to pick'') else None" cp_stashFirst
    "\<lambda>req. ''cherry-pick''" "''picked''"
    "\<lambda>req git. runPick git (git_command dir (cherryPickArgs req)) ''Cherry-pick'' (cp_commits req)" for dir
proof
  show "asks_no_stash (runPick (logging answers) (git_command dir (cherryPickArgs r)) ''Cherry-pick'' (cp_commits r))" for r answers
    by (rule one_command_no_stash [where command = "git_command dir (cherryPickArgs r)" and answers = answers])
      (simp_all add: runPick_def logging_def stashes_def git_command_def hd_args split: sum.split)
qed (auto simp: cherryPick_def split: if_splits)

interpretation reverts: stashing_operation "\<lambda>req git. revert git dir req" dir
    "\<lambda>req. if rv_commits req = [] then Some (invalidArgument ''No commits selected to revert'') else None" rv_stashFirst
    "\<lambda>req. ''revert''" "''reverted''"
    "\<lambda>req git. runPick git (git_command dir (revertArgs req)) ''Revert'' (rv_commits req)" for dir
proof
  show "asks_no_stash (runPick (logging answers) (git_command dir (revertArgs r)) ''Revert'' (rv_commits r))" for r answers
    by (rule one_command_no_stash [where command = "git_command dir (revertArgs r)" and answers = answers])
      (simp_all add: runPick_def logging_def stashes_def git_command_def hd_args split: sum.split)
qed (auto simp: revert_def split: if_splits)

definition refuseInteractive :: "RebaseInteractiveRequest \<Rightarrow> OperationOutcome option" where
  "refuseInteractive req =
     (if ii_upstream req = [] then Some (invalidArgument ''No base commit selected to rebase onto'')
      else if ii_todo req = [] then Some (invalidArgument ''There are no commits to rebase'') else None)"

lemma rebaseWithPlan_log:
  "\<exists>new. snd (rebaseWithPlan (logging answers) (log_disk tmp ex) dir req log) = log @ new \<and> list_all (\<lambda>x. \<not> stashes (fst x)) new"
  by (simp add: rebaseWithPlan_def runRebase_def logging_def stashes_def applyRebaseEnv_def git_command_def Let_def split: sum.split)

interpretation plans: stashing_operation "\<lambda>req git. rebaseInteractive git (log_disk tmp ex) dir req" dir refuseInteractive ii_stashFirst
    "\<lambda>req. ''rebase''" "''rebased''" "\<lambda>req git. rebaseWithPlan git (log_disk tmp ex) dir req" for dir tmp ex
proof
  show "asks_no_stash (rebaseWithPlan (logging answers) (log_disk tmp ex) dir r)" for r answers
    unfolding asks_no_stash_def using rebaseWithPlan_log by blast
qed (auto simp: rebaseInteractive_def refuseInteractive_def split: if_splits)

section \<open>Merging\<close>

lemma hd_merge_commands [simp]:
  "\<not> stashes (indexProbe dir)" "\<not> stashes (squashCommit dir req)" "\<not> stashes (git_command dir (mergeArgs req))"
  by (simp_all add: stashes_def indexProbe_def squashCommit_def git_command_def hd_args timed_def)

text \<open>The probe of the index, by its three answers.\<close>

lemma probe_log:
  obtains (matches) saved where "answers log (indexProbe dir) = Inr saved"
      "indexMatchesHeadProbe (logging answers) dir log = (Inr True, log @ [(indexProbe dir, Inr saved)])"
    | (differs) e where "answers log (indexProbe dir) = Inl e" "ge_exitCode e = 1"
      "indexMatchesHeadProbe (logging answers) dir log = (Inr False, log @ [(indexProbe dir, Inl e)])"
    | (fails) e where "answers log (indexProbe dir) = Inl e"
      "indexMatchesHeadProbe (logging answers) dir log = (Inl e, log @ [(indexProbe dir, Inl e)])"
  by (cases "answers log (indexProbe dir)") (fastforce simp: indexMatchesHeadProbe_def logging_def)+

text \<open>
  What a merge asks behind the stash: the commands in front of a commit, and the commit only after an
  index that matched, a merge that succeeded and an index that differs.
\<close>

definition squash_ready :: "string \<Rightarrow> MergeRequest \<Rightarrow> GitLog \<Rightarrow> bool" where
  "squash_ready dir req pre \<longleftrightarrow>
     (\<exists>matched merged e. pre = [(indexProbe dir, Inr matched), (git_command dir (mergeArgs req), Inr merged), (indexProbe dir, Inl e)] \<and>
        ge_exitCode e = 1)"

definition merge_logged :: "string \<Rightarrow> MergeRequest \<Rightarrow> GitLog \<Rightarrow> bool" where
  "merge_logged dir req new \<longleftrightarrow>
     list_all (\<lambda>x. fst x \<in> {indexProbe dir, git_command dir (mergeArgs req)}) new \<or>
     (\<exists>pre answer. new = pre @ [(squashCommit dir req, answer)] \<and> squash_ready dir req pre)"

lemma commitSquash_log:
  "\<exists>new. snd (commitSquash (logging answers) (log_disk tmp ex) paths req log) = log @ new \<and>
     (list_all (\<lambda>x. fst x = indexProbe (commandDir paths)) new \<or>
      (\<exists>e answer. new = [(indexProbe (commandDir paths), Inl e), (squashCommit (commandDir paths) req, answer)] \<and> ge_exitCode e = 1))"
proof (rule probe_log [of answers log "commandDir paths"])
  fix saved
  assume "indexMatchesHeadProbe (logging answers) (commandDir paths) log = (Inr True, log @ [(indexProbe (commandDir paths), Inr saved)])"
  then show ?thesis by (simp add: commitSquash_def Let_def)
next
  fix e
  assume "ge_exitCode e = 1"
    "indexMatchesHeadProbe (logging answers) (commandDir paths) log = (Inr False, log @ [(indexProbe (commandDir paths), Inl e)])"
  then show ?thesis by (simp add: commitSquash_def Let_def logging_def split: sum.split)
next
  fix e
  assume "indexMatchesHeadProbe (logging answers) (commandDir paths) log = (Inl e, log @ [(indexProbe (commandDir paths), Inl e)])"
  then show ?thesis by (simp add: commitSquash_def Let_def)
qed

lemma mergeWith_log:
  assumes "commitAfterSquash \<longrightarrow> (\<exists>saved. asked0 = [(indexProbe (commandDir paths), Inr saved)])"
    and "list_all (\<lambda>x. fst x = indexProbe (commandDir paths)) asked0"
  shows "\<exists>new. snd (mergeWith (logging answers) (log_disk tmp ex) paths req commitAfterSquash log) = log @ new \<and>
    merge_logged (commandDir paths) req (asked0 @ new)"
proof (cases "answers log (git_command (commandDir paths) (mergeArgs req))")
  case (Inl e)
  with assms(2) show ?thesis by (auto simp: mergeWith_def logging_def merge_logged_def list_all_iff)
next
  case (Inr merged)
  let ?m = "(git_command (commandDir paths) (mergeArgs req), Inr merged :: string GitResult)"
  show ?thesis
  proof (cases commitAfterSquash)
    case False
    with Inr assms(2) show ?thesis by (auto simp: mergeWith_def logging_def merge_logged_def list_all_iff)
  next
    case True
    then obtain saved where a0: "asked0 = [(indexProbe (commandDir paths), Inr saved)]" using assms(1) by blast
    obtain new where "snd (commitSquash (logging answers) (log_disk tmp ex) paths req (log @ [?m])) = (log @ [?m]) @ new"
      "list_all (\<lambda>x. fst x = indexProbe (commandDir paths)) new \<or>
       (\<exists>e answer. new = [(indexProbe (commandDir paths), Inl e), (squashCommit (commandDir paths) req, answer)] \<and> ge_exitCode e = 1)"
      using commitSquash_log [of answers tmp ex paths req "log @ [?m]"] by blast
    with True Inr a0 show ?thesis
      by (intro exI [of _ "?m # new"]) (auto simp: mergeWith_def logging_def merge_logged_def squash_ready_def list_all_iff)
  qed
qed

lemma mergeProbed_log:
  "\<exists>new. snd (mergeProbed (logging answers) (log_disk tmp ex) paths req log) = log @ new \<and> merge_logged (commandDir paths) req new"
proof (cases "mg_mode req = Squash \<and> mg_message req \<noteq> []")
  case False
  then have same: "mergeProbed (logging answers) (log_disk tmp ex) paths req log = mergeWith (logging answers) (log_disk tmp ex) paths req False log"
    by (simp only: mergeProbed_def if_False)
  show ?thesis unfolding same using mergeWith_log [of False "[]" paths answers tmp ex req log] by simp
next
  case True
  let ?d = "commandDir paths"
  have run: "mergeProbed (logging answers) (log_disk tmp ex) paths req log =
      (case indexMatchesHeadProbe (logging answers) ?d log of
         (Inl e, g) \<Rightarrow> (failedWith e ''Could not check what was staged, so nothing was merged'', g)
       | (Inr m, g) \<Rightarrow> mergeWith (logging answers) (log_disk tmp ex) paths req m g)"
    using True by (simp add: mergeProbed_def)
  show ?thesis
  proof (rule probe_log [of answers log ?d])
    fix saved
    assume "indexMatchesHeadProbe (logging answers) ?d log = (Inr True, log @ [(indexProbe ?d, Inr saved)])"
    with run mergeWith_log [of True "[(indexProbe ?d, Inr saved)]" paths answers tmp ex req "log @ [(indexProbe ?d, Inr saved)]"] show ?thesis by auto
  next
    fix e
    assume "indexMatchesHeadProbe (logging answers) ?d log = (Inr False, log @ [(indexProbe ?d, Inl e)])"
    with run mergeWith_log [of False "[(indexProbe ?d, Inl e)]" paths answers tmp ex req "log @ [(indexProbe ?d, Inl e)]"] show ?thesis by auto
  next
    fix e
    assume "indexMatchesHeadProbe (logging answers) ?d log = (Inl e, log @ [(indexProbe ?d, Inl e)])"
    with run show ?thesis by (simp add: merge_logged_def)
  qed
qed

lemma merge_logged_no_stash: "merge_logged dir req new \<Longrightarrow> list_all (\<lambda>x. \<not> stashes (fst x)) new"
  by (auto simp: merge_logged_def squash_ready_def list_all_iff)

interpretation merges: stashing_operation "\<lambda>req git. ReplayOperations.merge git (log_disk tmp ex) paths req" "commandDir paths"
    "\<lambda>req. if mg_target req = [] then Some (invalidArgument ''No branch selected to merge'') else None" mg_stashFirst
    "\<lambda>req. ''merging '' @ refDisplayName (mg_target req)" "''merged''" "\<lambda>req git. mergeProbed git (log_disk tmp ex) paths req" for paths tmp ex
proof
  show "asks_no_stash (mergeProbed (logging answers) (log_disk tmp ex) paths r)" for r answers
    unfolding asks_no_stash_def using mergeProbed_log merge_logged_no_stash by blast
qed (auto simp: ReplayOperations.merge_def split: if_splits)

section \<open>Every operation that can stash\<close>

datatype Change =
  Checkout CheckoutRequest | Merging MergeRequest | Rebasing RebaseRequest | Planned RebaseInteractiveRequest
  | Picking CherryPickRequest | Reverting RevertRequest

fun perform_change :: "'g Git \<Rightarrow> 'g Disk \<Rightarrow> RepoPaths \<Rightarrow> Change \<Rightarrow> 'g \<Rightarrow> OperationOutcome \<times> 'g" where
  "perform_change git disk paths (Checkout req) = checkout git (commandDir paths) req"
| "perform_change git disk paths (Merging req) = ReplayOperations.merge git disk paths req"
| "perform_change git disk paths (Rebasing req) = rebase git (commandDir paths) req"
| "perform_change git disk paths (Planned req) = rebaseInteractive git disk (commandDir paths) req"
| "perform_change git disk paths (Picking req) = cherryPick git (commandDir paths) req"
| "perform_change git disk paths (Reverting req) = revert git (commandDir paths) req"

fun stash_wanted :: "Change \<Rightarrow> bool" where
  "stash_wanted (Checkout req) = co_stashFirst req"
| "stash_wanted (Merging req) = mg_stashFirst req"
| "stash_wanted (Rebasing req) = rr_stashFirst req"
| "stash_wanted (Planned req) = ii_stashFirst req"
| "stash_wanted (Picking req) = cp_stashFirst req"
| "stash_wanted (Reverting req) = rv_stashFirst req"

text \<open>
  C15. Whatever git answers, a checkout, merge, rebase, cherry-pick or revert that is to stash
  first asks nothing of git but the stash until the stash has succeeded; when it fails, the operation
  ends there with its error; and one that is not to stash asks for no stash.
\<close>

theorem stash_before_change:
  assumes "perform_change (logging answers) (log_disk tmp ex) paths change log = (out, log')"
  shows "(\<not> oo_succeeded out \<and> asked log log' = []) \<or>
    (\<exists>before e. stash_wanted change \<and> asked log log' = [(stashCommand (commandDir paths) before, Inl e)] \<and>
       oo_error out = Some e \<and> \<not> oo_succeeded out) \<or>
    (\<exists>before saved new. asked log log' = (if stash_wanted change then [(stashCommand (commandDir paths) before, Inr saved)] else []) @ new \<and>
       list_all (\<lambda>x. \<not> stashes (fst x)) new)"
proof (cases change)
  case (Checkout req)
  with assms have "checkout (logging answers) (commandDir paths) req log = (out, log')" by simp
  from checkouts.stash_order [OF this] show ?thesis unfolding Checkout stash_wanted.simps by blast
next
  case (Merging req)
  with assms have "ReplayOperations.merge (logging answers) (log_disk tmp ex) paths req log = (out, log')" by simp
  from merges.stash_order [OF this] show ?thesis unfolding Merging stash_wanted.simps by blast
next
  case (Rebasing req)
  with assms have "rebase (logging answers) (commandDir paths) req log = (out, log')" by simp
  from rebases.stash_order [OF this] show ?thesis unfolding Rebasing stash_wanted.simps by blast
next
  case (Planned req)
  with assms have "rebaseInteractive (logging answers) (log_disk tmp ex) (commandDir paths) req log = (out, log')" by simp
  from plans.stash_order [OF this] show ?thesis unfolding Planned stash_wanted.simps by blast
next
  case (Picking req)
  with assms have "cherryPick (logging answers) (commandDir paths) req log = (out, log')" by simp
  from picks.stash_order [OF this] show ?thesis unfolding Picking stash_wanted.simps by blast
next
  case (Reverting req)
  with assms have "revert (logging answers) (commandDir paths) req log = (out, log')" by simp
  from reverts.stash_order [OF this] show ?thesis unfolding Reverting stash_wanted.simps by blast
qed

definition sample_paths :: RepoPaths where
  "sample_paths = repo_paths ''/w'' ''/w/.git'' []"

definition sample_rebase :: RebaseRequest where
  "sample_rebase = \<lparr>rr_upstream = ''main'', rr_onto = [], rr_stashFirst = True, rr_rebaseMerges = False, rr_autosquash = False\<rparr>"

theorem stash_before_change_witness:
  "\<exists>before. snd (perform_change (logging (\<lambda>_ _. Inl (git_error LockHeld [] []))) (log_disk (\<lambda>_ _. []) (\<lambda>_ _. False)) sample_paths
       (Rebasing sample_rebase) []) = [(stashCommand ''/w'' before, Inl (git_error LockHeld [] []) :: string GitResult)]"
proof -
  let ?a = "\<lambda>log c. Inl (git_error LockHeld [] []) :: string GitResult"
  obtain out where run: "perform_change (logging ?a) (log_disk (\<lambda>_ _. []) (\<lambda>_ _. False)) sample_paths (Rebasing sample_rebase) [] =
      (out, [(stashCommand ''/w'' ''rebase'', Inl (git_error LockHeld [] []))])"
    by (simp add: rebase_def sample_rebase_def stashThen_def logging_def sample_paths_def repo_paths_def commandDir_def)
  from stash_before_change [OF run] show ?thesis unfolding run
    by (auto simp: asked_def sample_rebase_def sample_paths_def repo_paths_def commandDir_def)
qed

lemma merge_log:
  assumes "ReplayOperations.merge (logging answers) (log_disk tmp ex) paths req log = (out, log')"
  obtains front new where "log' = log @ front @ new" "list_all (\<lambda>x. stashes (fst x)) front" "merge_logged (commandDir paths) req new"
proof (cases "mg_target req \<noteq> [] \<and> (\<not> mg_stashFirst req \<or> (\<exists>saved. answers log (stashCommand (commandDir paths) (''merging '' @ refDisplayName (mg_target req))) = Inr saved))")
  case True
  let ?s = "stashCommand (commandDir paths) (''merging '' @ refDisplayName (mg_target req))"
  define front where "front = (if mg_stashFirst req then [(?s, answers log ?s)] else [])"
  have "mergeProbed (logging answers) (log_disk tmp ex) paths req (log @ front) = (out, log')"
    using assms True by (auto simp: ReplayOperations.merge_def stashThen_def logging_def front_def split: if_splits)
  with mergeProbed_log [of answers tmp ex paths req "log @ front"] obtain new where "log' = log @ front @ new" "merge_logged (commandDir paths) req new" by auto
  moreover have "list_all (\<lambda>x. stashes (fst x)) front" by (simp add: front_def)
    ultimately show thesis by (intro that)
next
  case False
  then obtain front where "log' = log @ front" "list_all (\<lambda>x. stashes (fst x)) front"
    using assms
    by (auto simp: ReplayOperations.merge_def stashThen_def logging_def split: if_splits sum.splits)
  then show thesis by (intro that [of front "[]"]) (simp_all add: merge_logged_def)
qed

text \<open>
  C16. A squash merge never sweeps other work into its commit: whatever git answers, the
  commit is asked for only right after the index was found equal to HEAD before the merge, the
  merge succeeded, and the index was found to differ from HEAD after it.
\<close>

theorem squash_commits_only_its_own:
  assumes "ReplayOperations.merge (logging answers) (log_disk tmp ex) paths req log = (out, log')"
    and "asked log log' = pre @ (squashCommit (commandDir paths) req, answer) # post"
  shows "\<exists>earlier squash. pre = earlier @ squash \<and> squash_ready (commandDir paths) req squash"
proof -
  let ?d = "commandDir paths"
  have other: "squashCommit ?d req \<notin> {indexProbe ?d, git_command ?d (mergeArgs req)}"
    by (simp add: squashCommit_def indexProbe_def timed_def git_command_def mergeArgs_def)
  obtain front new where log': "log' = log @ front @ new" "list_all (\<lambda>x. stashes (fst x)) front" "merge_logged ?d req new"
    using merge_log [OF assms(1)] .
  have "pre @ (squashCommit ?d req, answer) # post = front @ new @ []" using assms(2) log'(1) by simp
  from found_between [OF this log'(2)] hd_merge_commands(2) obtain before behind where
    at: "new = before @ (squashCommit ?d req, answer) # behind" "pre = front @ before" by auto
  then have "(squashCommit ?d req, answer) \<in> set new" by simp
  with log'(3) other obtain q a where q: "new = q @ [(squashCommit ?d req, a)]" "squash_ready ?d req q"
    unfolding merge_logged_def list_all_iff by force
  then have "squashCommit ?d req \<notin> fst ` set q" using other by (auto simp: squash_ready_def)
  with at(1) q(1) have "before = q" by (force simp: append_eq_append_conv2 append_eq_Cons_conv Cons_eq_append_conv)
  with at(2) q(2) show ?thesis by blast
qed

definition sample_merge :: MergeRequest where
  "sample_merge = \<lparr>mg_target = ''topic'', mg_mode = Squash, mg_message = ''all of it'', mg_stashFirst = False\<rparr>"

definition squash_answers :: "GitLog \<Rightarrow> GitCommand \<Rightarrow> string GitResult" where
  "squash_answers log command = (if length log = 2 then Inl ((git_error ProcessFailed [] [])\<lparr>ge_exitCode := 1\<rparr>) else Inr [])"

theorem squash_commits_only_its_own_witness:
  "\<exists>earlier squash. [(indexProbe ''/w'', Inr [] :: string GitResult), (git_command ''/w'' (mergeArgs sample_merge), Inr []),
      (indexProbe ''/w'', Inl ((git_error ProcessFailed [] [])\<lparr>ge_exitCode := 1\<rparr>))] = earlier @ squash \<and> squash_ready ''/w'' sample_merge squash"
proof -
  let ?pre = "[(indexProbe ''/w'', Inr [] :: string GitResult), (git_command ''/w'' (mergeArgs sample_merge), Inr []),
      (indexProbe ''/w'', Inl ((git_error ProcessFailed [] [])\<lparr>ge_exitCode := 1\<rparr>))]"
  have dir: "commandDir sample_paths = ''/w''" by (simp add: sample_paths_def repo_paths_def commandDir_def)
  have "\<exists>out. ReplayOperations.merge (logging squash_answers) (log_disk (\<lambda>_ _. []) (\<lambda>_ _. False)) sample_paths sample_merge [] =
      (out, ?pre @ [(squashCommit ''/w'' sample_merge, Inr [])])"
    by (simp add: ReplayOperations.merge_def mergeProbed_def mergeWith_def commitSquash_def indexMatchesHeadProbe_def dir logging_def
        squash_answers_def stashThen_def Let_def) (simp add: sample_merge_def)
  then obtain out where "ReplayOperations.merge (logging squash_answers) (log_disk (\<lambda>_ _. []) (\<lambda>_ _. False)) sample_paths sample_merge [] =
      (out, ?pre @ [(squashCommit ''/w'' sample_merge, Inr [])])" by blast
  from squash_commits_only_its_own [OF this, of ?pre "Inr []" "[]"] show ?thesis by (simp add: asked_def dir)
qed

section \<open>The plan of an interactive rebase\<close>

text \<open>
  How a POSIX shell cuts a command into words, as far as blanks, single quotes and backslashes go. The
  word under way is \<open>None\<close> between words; a quote that is not closed, and any character the shell could
  treat in another way, is refused.
\<close>

definition plain_char :: "char \<Rightarrow> bool" where
  "plain_char c \<longleftrightarrow> c \<in> set ''abcdefghijklmnopqrstuvwxyzABCDEFGHIJKLMNOPQRSTUVWXYZ0123456789_-./''"

definition word_char :: "char \<Rightarrow> string option \<Rightarrow> string option" where
  "word_char c w = Some ((case w of None \<Rightarrow> [] | Some w \<Rightarrow> w) @ [c])"

fun sh_words :: "bool \<Rightarrow> string option \<Rightarrow> string \<Rightarrow> string list option" where
  "sh_words True w [] = None"
| "sh_words False w [] = Some (case w of None \<Rightarrow> [] | Some w \<Rightarrow> [w])"
| "sh_words True w (c # s) = (if c = CHR 0x27 then sh_words False w s else sh_words True (word_char c w) s)"
| "sh_words False w (c # s) =
     (if c = CHR 0x27 then sh_words True (Some (case w of None \<Rightarrow> [] | Some w \<Rightarrow> w)) s
      else if c = CHR '' '' then map_option (\<lambda>ws. (case w of None \<Rightarrow> [] | Some w \<Rightarrow> [w]) @ ws) (sh_words False None s)
      else if c = CHR 0x5C then (case s of [] \<Rightarrow> None | d # s' \<Rightarrow> if d = nl then None else sh_words False (word_char d w) s')
      else if plain_char c then sh_words False (word_char c w) s
      else None)"

lemma sh_words_quoted:
  "sh_words True (Some w) (concat (map (\<lambda>c. if c = CHR 0x27 then [CHR 0x27, CHR 0x5C, CHR 0x27, CHR 0x27] else [c]) path) @ [CHR 0x27]) =
     Some [w @ path]"
  by (induction path arbitrary: w) (auto simp: word_char_def)

lemma shellQuote_reads_back: "sh_words False None (shellQuote path) = Some [path]"
  using sh_words_quoted [of "[]" path] by (simp add: shellQuote_def)

text \<open>How git reads a plan: one line per step, the command, the commit, and the rest of the line.\<close>

definition read_step :: "string \<Rightarrow> string \<times> string \<times> string" where
  "read_step line =
     (let verb = takeWhile (\<lambda>c. c \<noteq> CHR '' '') line; rest = drop 1 (dropWhile (\<lambda>c. c \<noteq> CHR '' '') line)
      in (verb, takeWhile (\<lambda>c. c \<noteq> CHR '' '') rest, drop 1 (dropWhile (\<lambda>c. c \<noteq> CHR '' '') rest)))"

definition read_plan :: "string \<Rightarrow> (string \<times> string \<times> string) list" where
  "read_plan content = map read_step (get_lines content)"

definition step_commit :: "RebaseTodoEntry \<Rightarrow> string" where
  "step_commit e = (if td_shortOid e = [] then hex (td_oid e) else td_shortOid e)"

definition one_line_step :: "RebaseTodoEntry \<Rightarrow> bool" where
  "one_line_step e \<longleftrightarrow> nl \<notin> set (td_subject e) \<and> nl \<notin> set (td_shortOid e) \<and> CHR '' '' \<notin> set (td_shortOid e)"

lemma verb_plain: "CHR '' '' \<notin> set (actionVerb a)" "nl \<notin> set (actionVerb a)"
  by (cases a; simp)+

lemma step_commit_plain: "one_line_step e \<Longrightarrow> CHR '' '' \<notin> set (step_commit e)" "one_line_step e \<Longrightarrow> nl \<notin> set (step_commit e)"
  by (simp_all add: one_line_step_def step_commit_def hex_not_blank)

lemma cut_at: "c \<notin> set s \<Longrightarrow> takeWhile (\<lambda>x. x \<noteq> c) (s @ c # t) = s" "c \<notin> set s \<Longrightarrow> dropWhile (\<lambda>x. x \<noteq> c) (s @ c # t) = c # t"
  by (induction s) auto

lemma todoLine_reads_back:
  assumes "one_line_step e"
  shows "\<exists>line. todoLine e = line @ [nl] \<and> nl \<notin> set line \<and> read_step line = (actionVerb (td_action e), step_commit e, td_subject e)"
proof -
  let ?line = "actionVerb (td_action e) @ CHR '' '' # step_commit e @ CHR '' '' # td_subject e"
  have "todoLine e = ?line @ [nl]" by (simp add: todoLine_def step_commit_def)
  moreover have "nl \<notin> set ?line" using assms step_commit_plain(2) [OF assms] verb_plain(2) by (simp add: one_line_step_def)
  moreover have "read_step ?line = (actionVerb (td_action e), step_commit e, td_subject e)"
    using verb_plain(1) [of "td_action e"] step_commit_plain(1) [OF assms] by (simp add: read_step_def cut_at Let_def)
  ultimately show ?thesis by blast
qed

lemma get_lines_Cons: "nl \<notin> set line \<Longrightarrow> get_lines (line @ nl # rest) = line # get_lines rest"
proof -
  have "splitOn nl rest \<noteq> []" by (subst splitOn.simps) (simp split: option.split)
  then show "nl \<notin> set line \<Longrightarrow> get_lines (line @ nl # rest) = line # get_lines rest" by (simp add: get_lines_def splitOn_first Let_def)
qed

lemma get_lines_Nil [simp]: "get_lines [] = []"
  by (simp add: get_lines_def splitOn_last Let_def)

lemma plan_reads_back:
  "list_all one_line_step todo \<Longrightarrow>
   read_plan (serializeTodo todo) = map (\<lambda>e. (actionVerb (td_action e), step_commit e, td_subject e)) todo"
proof (induction todo)
  case (Cons e todo)
  obtain line where "todoLine e = line @ [nl]" "nl \<notin> set line" "read_step line = (actionVerb (td_action e), step_commit e, td_subject e)"
    using todoLine_reads_back Cons.prems by auto
  then show ?case using Cons get_lines_Cons [of line "serializeTodo todo"] by (simp add: read_plan_def serializeTodo_def)
qed (simp add: read_plan_def serializeTodo_def)

lemma rebaseInteractive_log:
  assumes "rebaseInteractive (logging answers) (log_disk tmp ex) dir req log = (out, log')"
  obtains front new before where "log' = log @ front @ new" "list_all (\<lambda>x. stashes (fst x)) front"
    "new = [] \<or> snd (rebaseWithPlan (logging answers) (log_disk tmp ex) dir req before) = before @ new"
proof -
  let ?s = "(stashCommand dir ''rebase'', answers log (stashCommand dir ''rebase''))"
  note found = that
  have runs: thesis if "rebaseWithPlan (logging answers) (log_disk tmp ex) dir req (log @ front) = (out, log')" "list_all (\<lambda>x. stashes (fst x)) front" for front
    using rebaseWithPlan_log [of answers tmp ex dir req "log @ front"] that by (auto intro: found [of front _ "log @ front"])
  consider "log' = log" | "log' = log @ [?s]" | "rebaseWithPlan (logging answers) (log_disk tmp ex) dir req log = (out, log')"
    | "rebaseWithPlan (logging answers) (log_disk tmp ex) dir req (log @ [?s]) = (out, log')"
    using assms by (auto simp: rebaseInteractive_def stashThen_def logging_def split: if_splits sum.splits)
  then show thesis
  proof cases
    case 1
    then show ?thesis by (intro that [of "[]" "[]"]) simp_all
  next
    case 2
    then show ?thesis by (intro that [of "[?s]" "[]"]) simp_all
  qed (use runs [of "[]"] runs [of "[?s]"] in simp_all)
qed

text \<open>
  C33. The plan of an interactive rebase reaches git as it was made, whatever the path of the
  temporary file: when git is asked to rebase interactively, the shell it starts as its editor copies
  a file into place whose lines are the steps of the request, in order.
\<close>

theorem rebase_plan_reaches_git:
  assumes "rebaseInteractive (logging answers) (log_disk tmp ex) dir req log = (out, log')"
    and "(command, answer) \<in> set (asked log log')" "take 2 (gc_args command) = [''rebase'', ''-i'']" "list_all one_line_step (ii_todo req)"
  shows "\<exists>editor before content path. (''GIT_SEQUENCE_EDITOR'', editor) \<in> set (gc_envOverrides command) \<and>
    sh_words False None editor = Some [''cp'', path] \<and> path = tmp content before \<and>
    read_plan content = map (\<lambda>e. (actionVerb (td_action e), step_commit e, td_subject e)) (ii_todo req)"
proof -
  obtain front new before where log': "log' = log @ front @ new" "list_all (\<lambda>x. stashes (fst x)) front"
    "new = [] \<or> snd (rebaseWithPlan (logging answers) (log_disk tmp ex) dir req before) = before @ new"
    using rebaseInteractive_log [OF assms(1)] .
  have "\<not> stashes command" using assms(3) by (cases "gc_args command") (auto simp: stashes_def)
  with assms(2) log'(1,2) have "(command, answer) \<in> set new" by (auto simp: list_all_iff)
  with log'(3) have in_rest: "(command, answer) \<in> set (asked before (snd (rebaseWithPlan (logging answers) (log_disk tmp ex) dir req before)))"
    by auto
  define path where "path = tmp (serializeTodo (ii_todo req)) before"
  have "command = applyRebaseEnv path (git_command dir ([''rebase'', ''-i''] @ ontoArgs (ii_onto req) @ [ii_upstream req]))"
    using in_rest by (auto simp: rebaseWithPlan_def runRebase_def logging_def asked_def path_def Let_def split: if_splits sum.splits)
  then have "(''GIT_SEQUENCE_EDITOR'', ''cp '' @ shellQuote path) \<in> set (gc_envOverrides command)"
    by (simp add: applyRebaseEnv_def)
  moreover have "sh_words False None (''cp '' @ shellQuote path) = Some [''cp'', path]"
    by (simp add: plain_char_def word_char_def shellQuote_reads_back)
  ultimately show ?thesis using plan_reads_back [OF assms(4)] path_def by blast
qed

definition sample_plan :: RebaseInteractiveRequest where
  "sample_plan = \<lparr>ii_upstream = ''main'', ii_onto = [],
     ii_todo = [\<lparr>td_action = TodoSquash, td_oid = null_oid, td_shortOid = ''abc'', td_subject = ''two words''\<rparr>], ii_stashFirst = False\<rparr>"

definition sample_temp :: string where
  "sample_temp = ''/tmp/it'' @ CHR 0x27 # ''s mine''"

theorem rebase_plan_reaches_git_witness:
  "\<exists>editor content. sh_words False None editor = Some [''cp'', sample_temp] \<and> read_plan content = [(''squash'', ''abc'', ''two words'')]"
proof -
  let ?c = "applyRebaseEnv sample_temp (git_command ''/w'' [''rebase'', ''-i'', ''main''])"
  have run: "\<exists>out. rebaseInteractive (logging (\<lambda>_ _. Inr [])) (log_disk (\<lambda>_ _. sample_temp) (\<lambda>_ _. False)) ''/w'' sample_plan [] =
      (out, [(?c, Inr [])])"
    by (simp add: rebaseInteractive_def rebaseWithPlan_def stashThen_def runRebase_def logging_def sample_plan_def ontoArgs_def sample_temp_def)
  then obtain out where "rebaseInteractive (logging (\<lambda>_ _. Inr [])) (log_disk (\<lambda>_ _. sample_temp) (\<lambda>_ _. False)) ''/w'' sample_plan [] =
      (out, [(?c, Inr [])])" by blast
  note reaches = rebase_plan_reaches_git [OF this, of ?c "Inr []"]
  have "(?c, Inr []) \<in> set (asked [] [(?c, Inr [])])" "take 2 (gc_args ?c) = [''rebase'', ''-i'']" "list_all one_line_step (ii_todo sample_plan)"
    by (simp_all add: asked_def applyRebaseEnv_def git_command_def sample_plan_def one_line_step_def)
  from reaches [OF this] obtain editor content where "sh_words False None editor = Some [''cp'', sample_temp]"
    "read_plan content = map (\<lambda>e. (actionVerb (td_action e), step_commit e, td_subject e)) (ii_todo sample_plan)" by blast
  then show ?thesis by (intro exI [of _ editor] exI [of _ content]) (simp add: sample_plan_def step_commit_def)
qed

end
