(* ===== verification/LruCaches.thy ===== *)
theory LruCaches
  imports GBM_Prelude
begin

text \<open>
  \<^verbatim>\<open>LruByBytes\<close> of \<^verbatim>\<open>src/core/git/DiffService.h\<close>: a cache bounded by the bytes of what it holds, which
  gives up what was used longest ago. The hash map and the list of keys are two parts of the state, as
  in the sources; the position a map entry keeps in the list is found by its key. Each method holds
  the mutex throughout, so a method is one step.
\<close>

record ('k, 'v) LruByBytes =
  lru_budget :: nat
  lru_used :: nat
  lru_order :: "'k list"
  lru_map :: "'k \<rightharpoonup> 'v \<times> nat"

definition new_lru :: "nat \<Rightarrow> ('k, 'v) LruByBytes" where
  "new_lru budgetBytes = \<lparr>lru_budget = budgetBytes, lru_used = 0, lru_order = [], lru_map = Map.empty\<rparr>"

definition lru_get :: "'k \<Rightarrow> ('k, 'v) LruByBytes \<Rightarrow> 'v option \<times> ('k, 'v) LruByBytes" where
  "lru_get key c =
     (case lru_map c key of
        None \<Rightarrow> (None, c)
      | Some (v, bytes) \<Rightarrow> (Some v, c\<lparr>lru_order := key # remove1 key (lru_order c)\<rparr>))"

definition lru_forget :: "'k \<Rightarrow> ('k, 'v) LruByBytes \<Rightarrow> ('k, 'v) LruByBytes" where
  "lru_forget key c =
     (case lru_map c key of
        None \<Rightarrow> c
      | Some (v, bytes) \<Rightarrow>
          c\<lparr>lru_used := lru_used c - bytes, lru_order := remove1 key (lru_order c), lru_map := (lru_map c)(key := None)\<rparr>)"

function lru_evict :: "('k, 'v) LruByBytes \<Rightarrow> ('k, 'v) LruByBytes" where
  "lru_evict c =
     (if lru_used c > lru_budget c \<and> lru_order c \<noteq> []
      then let oldest = last (lru_order c);
               c' = (case lru_map c oldest of
                       None \<Rightarrow> c
                     | Some (v, bytes) \<Rightarrow> c\<lparr>lru_used := lru_used c - bytes, lru_map := (lru_map c)(oldest := None)\<rparr>)
           in lru_evict (c'\<lparr>lru_order := butlast (lru_order c)\<rparr>)
      else c)"
  by auto
termination by (relation "measure (\<lambda>c. length (lru_order c))") auto

declare lru_evict.simps [simp del]

definition lru_put :: "'k \<Rightarrow> 'v \<Rightarrow> nat \<Rightarrow> ('k, 'v) LruByBytes \<Rightarrow> ('k, 'v) LruByBytes" where
  "lru_put key v bytes c =
     (let c = lru_forget key c
      in lru_evict (c\<lparr>lru_order := key # lru_order c, lru_map := (lru_map c)(key \<mapsto> (v, bytes)), lru_used := lru_used c + bytes\<rparr>))"

definition lru_clear :: "('k, 'v) LruByBytes \<Rightarrow> ('k, 'v) LruByBytes" where
  "lru_clear c = c\<lparr>lru_map := Map.empty, lru_order := [], lru_used := 0\<rparr>"

definition lru_usedBytes :: "('k, 'v) LruByBytes \<Rightarrow> nat" where
  "lru_usedBytes c = lru_used c"

definition lru_size :: "('k, 'v) LruByBytes \<Rightarrow> nat" where
  "lru_size c = card (dom (lru_map c))"

section \<open>What a cache stands for\<close>

text \<open>The entries from the one used last to the one used longest ago.\<close>

definition lru_entry_of :: "('k \<rightharpoonup> 'v \<times> nat) \<Rightarrow> 'k \<Rightarrow> 'k \<times> 'v \<times> nat" where
  "lru_entry_of m k = (k, the (m k))"

definition lru_entries :: "('k, 'v) LruByBytes \<Rightarrow> ('k \<times> 'v \<times> nat) list" where
  "lru_entries c = map (lru_entry_of (lru_map c)) (lru_order c)"

definition total_bytes :: "('k \<times> 'v \<times> nat) list \<Rightarrow> nat" where
  "total_bytes es = sum_list (map (\<lambda>(k, v, b). b) es)"

definition lru_linked :: "('k, 'v) LruByBytes \<Rightarrow> bool" where
  "lru_linked c \<longleftrightarrow> distinct (lru_order c) \<and> set (lru_order c) = dom (lru_map c) \<and> lru_used c = total_bytes (lru_entries c)"

definition lru_ok :: "('k, 'v) LruByBytes \<Rightarrow> bool" where
  "lru_ok c \<longleftrightarrow> lru_linked c \<and> lru_used c \<le> lru_budget c"

text \<open>The longest front of a list that stays within a budget.\<close>

fun fit :: "nat \<Rightarrow> ('k \<times> 'v \<times> nat) list \<Rightarrow> ('k \<times> 'v \<times> nat) list" where
  "fit n [] = []"
| "fit n ((k, v, b) # es) = (if b \<le> n then (k, v, b) # fit (n - b) es else [])"

lemma total_bytes_simps [simp]:
  "total_bytes [] = 0" "total_bytes ((k, v, b) # es) = b + total_bytes es" "total_bytes (xs @ ys) = total_bytes xs + total_bytes ys"
  by (simp_all add: total_bytes_def)

lemma fit_all: "total_bytes es \<le> n \<Longrightarrow> fit n es = es"
  by (induction n es rule: fit.induct) auto

lemma fit_snoc: "total_bytes (es @ [e]) > n \<Longrightarrow> fit n (es @ [e]) = fit n es"
  by (induction n es rule: fit.induct) (cases e; auto)+

lemma fit_bounded: "total_bytes (fit n es) \<le> n"
  by (induction n es rule: fit.induct) auto

lemma fit_nil_budget: "fit n es = [] \<Longrightarrow> es = [] \<or> n < total_bytes es"
  by (cases es) (auto split: if_splits)

lemma map_of_entries: "set ks \<subseteq> dom m \<Longrightarrow> k \<in> set ks \<Longrightarrow> map_of (map (lru_entry_of m) ks) k = m k"
  by (induction ks) (auto simp: lru_entry_of_def)

lemma map_of_entries_None: "k \<notin> set ks \<Longrightarrow> map_of (map (lru_entry_of m) ks) k = None"
  by (induction ks) (auto simp: lru_entry_of_def)

lemma lookup_lru_entries: "lru_linked c \<Longrightarrow> map_of (lru_entries c) k = lru_map c k"
  using map_of_entries [of "lru_order c" "lru_map c" k] map_of_entries_None [of k "lru_order c" "lru_map c"]
  by (cases "k \<in> set (lru_order c)"; cases "lru_map c k") (auto simp: lru_linked_def lru_entries_def)

lemma entries_other: "k \<notin> set ks \<Longrightarrow> map (lru_entry_of (m(k := x))) ks = map (lru_entry_of m) ks"
  by (induction ks) (auto simp: lru_entry_of_def)

lemma filter_entries: "distinct ks \<Longrightarrow> filter (\<lambda>e. fst e \<noteq> k) (map (lru_entry_of m) ks) = map (lru_entry_of m) (remove1 k ks)"
  by (induction ks) (auto simp: lru_entry_of_def remove1_idem)

lemma total_without: "distinct ks \<Longrightarrow> k \<in> set ks \<Longrightarrow> m k = Some (v, b) \<Longrightarrow>
    total_bytes (map (lru_entry_of m) ks) = b + total_bytes (map (lru_entry_of m) (remove1 k ks))"
  by (induction ks) (auto simp: lru_entry_of_def total_bytes_def)

lemma forget_refines:
  assumes "lru_linked c"
  shows "lru_linked (lru_forget k c)" "lru_entries (lru_forget k c) = filter (\<lambda>e. fst e \<noteq> k) (lru_entries c)"
    "lru_map (lru_forget k c) k = None" "lru_budget (lru_forget k c) = lru_budget c" "k \<notin> set (lru_order (lru_forget k c))"
proof -
  have d: "distinct (lru_order c)" "set (lru_order c) = dom (lru_map c)" "lru_used c = total_bytes (lru_entries c)"
    using assms by (simp_all add: lru_linked_def)
  have e: "lru_entries (lru_forget k c) = filter (\<lambda>e. fst e \<noteq> k) (lru_entries c)"
  proof (cases "lru_map c k")
    case None
    then have "k \<notin> set (lru_order c)" using d(2) by auto
    with None filter_entries [OF d(1), of k "lru_map c"] show ?thesis by (simp add: lru_forget_def lru_entries_def remove1_idem)
  next
    case (Some vb)
    then show ?thesis using d(1) filter_entries [OF d(1), of k "lru_map c"] entries_other [of k "remove1 k (lru_order c)" "lru_map c" None]
      by (cases vb) (simp add: lru_forget_def lru_entries_def)
  qed
  show "lru_entries (lru_forget k c) = filter (\<lambda>e. fst e \<noteq> k) (lru_entries c)" by (rule e)
  show "lru_map (lru_forget k c) k = None" "lru_budget (lru_forget k c) = lru_budget c" "k \<notin> set (lru_order (lru_forget k c))"
    using d by (auto simp: lru_forget_def split: option.split)
  show "lru_linked (lru_forget k c)"
  proof (cases "lru_map c k")
    case None
    with assms show ?thesis by (simp add: lru_forget_def)
  next
    case (Some vb)
    obtain v b where vb: "vb = (v, b)" by (cases vb)
    have "k \<in> set (lru_order c)" using Some d(2) by auto
    from total_without [OF d(1) this, of "lru_map c" v b] Some vb d(3)
    have "lru_used c - b = total_bytes (map (lru_entry_of (lru_map c)) (remove1 k (lru_order c)))" by (simp add: lru_entries_def)
    with Some vb d(1,2) e show ?thesis
      using entries_other [of k "remove1 k (lru_order c)" "lru_map c" None]
      by (simp add: lru_linked_def lru_forget_def lru_entries_def)
  qed
qed

lemma evict_refines:
  "lru_linked c \<Longrightarrow> lru_ok (lru_evict c) \<and> lru_entries (lru_evict c) = fit (lru_budget c) (lru_entries c) \<and>
   lru_budget (lru_evict c) = lru_budget c"
proof (induction c rule: lru_evict.induct)
  case (1 c)
  show ?case
  proof (cases "lru_used c > lru_budget c \<and> lru_order c \<noteq> []")
    case False
    have "lru_used c \<le> lru_budget c"
      using False 1(2) by (cases "lru_order c = []") (auto simp: lru_linked_def lru_entries_def)
    then show ?thesis using False 1(2) fit_all [of "lru_entries c" "lru_budget c"]
      by (subst (1 2 3) lru_evict.simps) (auto simp: lru_ok_def lru_linked_def)
  next
    case True
    let ?k = "last (lru_order c)" and ?front = "butlast (lru_order c)"
    have order: "lru_order c = ?front @ [?k]" using True by simp
    have d: "distinct (lru_order c)" "set (lru_order c) = dom (lru_map c)" "lru_used c = total_bytes (lru_entries c)"
      using 1(2) by (simp_all add: lru_linked_def)
    have "?k \<in> dom (lru_map c)" using d(2) True last_in_set [of "lru_order c"] by auto
    then obtain v b where kv: "lru_map c ?k = Some (v, b)" by auto
    have k: "?k \<notin> set ?front" using d(1) order by (metis distinct_append disjoint_iff list.set_intros(1))
    define c' where "c' = c\<lparr>lru_used := lru_used c - b, lru_map := (lru_map c)(?k := None), lru_order := ?front\<rparr>"
    have step: "lru_evict c = lru_evict c'"
      using True kv by (subst lru_evict.simps) (simp add: c'_def)
    have es: "lru_entries c = lru_entries c' @ [(?k, v, b)]"
      using arg_cong [OF order, of "map (lru_entry_of (lru_map c))"] entries_other [OF k, of "lru_map c" None] kv
      by (simp add: lru_entries_def c'_def lru_entry_of_def)
    have sets: "set ?front = dom ((lru_map c)(?k := None))"
      using arg_cong [OF order, of set] d(2) k by auto
    have linked: "lru_linked c'"
      using d(1,3) es sets distinct_butlast [of "lru_order c"] by (simp add: lru_linked_def c'_def)
    have IH: "lru_ok (lru_evict c') \<and> lru_entries (lru_evict c') = fit (lru_budget c') (lru_entries c') \<and> lru_budget (lru_evict c') = lru_budget c'"
      using 1(1) [OF True refl refl] linked kv by (simp add: c'_def)
    moreover have "fit (lru_budget c) (lru_entries c) = fit (lru_budget c) (lru_entries c')"
      using fit_snoc [of "lru_budget c" "lru_entries c'" "(?k, v, b)"] True d(3) es by simp
    ultimately show ?thesis using step by (simp add: c'_def)
  qed
qed

text \<open>What the methods mean on the entries.\<close>

definition touched :: "'k \<Rightarrow> ('k \<times> 'v \<times> nat) list \<Rightarrow> ('k \<times> 'v \<times> nat) list" where
  "touched k es = (case map_of es k of None \<Rightarrow> es | Some vb \<Rightarrow> (k, vb) # filter (\<lambda>e. fst e \<noteq> k) es)"

lemma put_refines:
  assumes "lru_linked c"
  shows "lru_ok (lru_put k v b c)" "lru_budget (lru_put k v b c) = lru_budget c"
    "lru_entries (lru_put k v b c) = fit (lru_budget c) ((k, v, b) # filter (\<lambda>e. fst e \<noteq> k) (lru_entries c))"
proof -
  define c1 where "c1 = lru_forget k c"
  define c2 where "c2 = c1\<lparr>lru_order := k # lru_order c1, lru_map := (lru_map c1)(k \<mapsto> (v, b)), lru_used := lru_used c1 + b\<rparr>"
  note f = forget_refines [OF assms, of k, folded c1_def]
  have es: "lru_entries c2 = (k, v, b) # filter (\<lambda>e. fst e \<noteq> k) (lru_entries c)"
    using f(2) entries_other [OF f(5), of "lru_map c1" "Some (v, b)"] by (simp add: lru_entries_def c2_def lru_entry_of_def)
  then have "lru_linked c2" using f(1,2,3,5) by (auto simp: lru_linked_def c2_def)
  from evict_refines [OF this] es f(4)
  show "lru_ok (lru_put k v b c)" "lru_budget (lru_put k v b c) = lru_budget c"
    "lru_entries (lru_put k v b c) = fit (lru_budget c) ((k, v, b) # filter (\<lambda>e. fst e \<noteq> k) (lru_entries c))"
    by (simp_all add: lru_put_def Let_def c1_def [symmetric] c2_def [symmetric]) (simp_all add: c2_def)
qed

lemma get_refines:
  assumes "lru_linked c"
  shows "fst (lru_get k c) = map_option fst (map_of (lru_entries c) k)" "lru_entries (snd (lru_get k c)) = touched k (lru_entries c)"
    "lru_linked (snd (lru_get k c))" "lru_used (snd (lru_get k c)) = lru_used c" "lru_budget (snd (lru_get k c)) = lru_budget c"
proof -
  have d: "distinct (lru_order c)" "set (lru_order c) = dom (lru_map c)" "lru_used c = total_bytes (lru_entries c)"
    using assms by (simp_all add: lru_linked_def)
  show "fst (lru_get k c) = map_option fst (map_of (lru_entries c) k)"
    using lookup_lru_entries [OF assms, of k] by (simp add: lru_get_def split: option.split)
  show es: "lru_entries (snd (lru_get k c)) = touched k (lru_entries c)"
    using lookup_lru_entries [OF assms, of k] filter_entries [OF d(1), of k "lru_map c"]
    by (auto simp: lru_get_def touched_def lru_entries_def lru_entry_of_def split: option.split)
  show "lru_used (snd (lru_get k c)) = lru_used c" "lru_budget (snd (lru_get k c)) = lru_budget c"
    by (simp_all add: lru_get_def split: option.split)
  show "lru_linked (snd (lru_get k c))"
  proof (cases "lru_map c k")
    case None
    with assms show ?thesis by (simp add: lru_get_def)
  next
    case (Some vb)
    then have k: "k \<in> set (lru_order c)" using d(2) by auto
    obtain v b where vb: "vb = (v, b)" by (cases vb)
    have "total_bytes (lru_entries c) = b + total_bytes (map (lru_entry_of (lru_map c)) (remove1 k (lru_order c)))"
      using total_without [OF d(1) k] Some vb by (simp add: lru_entries_def)
    with Some vb k d show ?thesis by (auto simp: lru_linked_def lru_get_def lru_entries_def lru_entry_of_def total_bytes_def)
  qed
qed

section \<open>Any sequence of calls\<close>

datatype ('k, 'v) LruCall = GetCall 'k | PutCall 'k 'v nat | ClearCall

fun lru_call :: "('k, 'v) LruCall \<Rightarrow> ('k, 'v) LruByBytes \<Rightarrow> ('k, 'v) LruByBytes" where
  "lru_call (GetCall k) c = snd (lru_get k c)"
| "lru_call (PutCall k v b) c = lru_put k v b c"
| "lru_call ClearCall c = lru_clear c"

text \<open>The reference: the entries by the time of their last use, cut to the budget at every put.\<close>

fun lru_spec :: "nat \<Rightarrow> ('k, 'v) LruCall \<Rightarrow> ('k \<times> 'v \<times> nat) list \<Rightarrow> ('k \<times> 'v \<times> nat) list" where
  "lru_spec n (GetCall k) es = touched k es"
| "lru_spec n (PutCall k v b) es = fit n ((k, v, b) # filter (\<lambda>e. fst e \<noteq> k) es)"
| "lru_spec n ClearCall es = []"

lemma new_lru_ok: "lru_ok (new_lru n)" "lru_entries (new_lru n) = []" "lru_budget (new_lru n) = n"
  by (simp_all add: lru_ok_def lru_linked_def new_lru_def lru_entries_def)

lemma call_refines:
  assumes "lru_ok c"
  shows "lru_ok (lru_call call c) \<and> lru_budget (lru_call call c) = lru_budget c \<and>
    lru_entries (lru_call call c) = lru_spec (lru_budget c) call (lru_entries c)"
proof (cases call)
  case (GetCall k)
  with assms get_refines [of c k] show ?thesis by (simp add: lru_ok_def)
next
  case (PutCall k v b)
  with assms put_refines [of c k v b] show ?thesis by (simp add: lru_ok_def)
next
  case ClearCall
  then show ?thesis by (simp add: lru_ok_def lru_linked_def lru_clear_def lru_entries_def)
qed

lemma calls_refine:
  "lru_ok c \<Longrightarrow> lru_ok (fold lru_call calls c) \<and> lru_budget (fold lru_call calls c) = lru_budget c \<and>
   lru_entries (fold lru_call calls c) = fold (lru_spec (lru_budget c)) calls (lru_entries c)"
  by (induction calls arbitrary: c) (use call_refines in fastforce)+

text \<open>
  C35. The cache is the list of what was used last, cut to its budget: after any sequence of
  puts, gets and clears, its entries in order are those of the reference, they hold at most the budget
  of bytes and the counter is their exact sum, and a get answers what the reference holds.
\<close>

theorem lru_refines:
  shows "let c = fold lru_call calls (new_lru n); es = fold (lru_spec n) calls []
    in lru_entries c = es \<and> lru_usedBytes c = total_bytes es \<and> total_bytes es \<le> n \<and> lru_size c = length es \<and>
       fst (lru_get k c) = map_option fst (map_of es k)"
proof -
  let ?c = "fold lru_call calls (new_lru n)"
  have "lru_ok (new_lru n :: ('a, 'b) LruByBytes)" "lru_entries (new_lru n :: ('a, 'b) LruByBytes) = []"
    "lru_budget (new_lru n :: ('a, 'b) LruByBytes) = n" by (simp_all add: new_lru_ok)
  with calls_refine [of "new_lru n" calls]
  have c: "lru_ok ?c" "lru_budget ?c = n" "lru_entries ?c = fold (lru_spec n) calls []" by simp_all
  then have "lru_linked ?c" by (simp add: lru_ok_def)
  moreover have "lru_size ?c = length (lru_order ?c)"
    using \<open>lru_linked ?c\<close> distinct_card [of "lru_order ?c"] by (simp add: lru_size_def lru_linked_def)
  moreover have "length (lru_order ?c) = length (fold (lru_spec n) calls [])" using c(3) by (metis length_map lru_entries_def)
  ultimately show ?thesis using c get_refines(1) [of ?c k] by (simp add: Let_def lru_ok_def lru_linked_def lru_usedBytes_def)
qed

section \<open>What a client of a cache relies on\<close>

text \<open>
  A cache answers only what it holds, and holds only what was put into it; so when every value put
  under a key is right for that key, every answer is.
\<close>

locale value_cache =
  fixes get :: "'k \<Rightarrow> 'c \<Rightarrow> 'v option \<times> 'c"
    and put :: "'k \<Rightarrow> 'v \<Rightarrow> nat \<Rightarrow> 'c \<Rightarrow> 'c"
    and ok :: "'c \<Rightarrow> bool"
    and holds :: "'c \<Rightarrow> 'k \<Rightarrow> 'v \<Rightarrow> bool"
  assumes get_holds: "ok c \<Longrightarrow> get k c = (Some v, c') \<Longrightarrow> holds c k v"
    and get_keeps: "ok c \<Longrightarrow> get k c = (r, c') \<Longrightarrow> ok c' \<and> (holds c' k' v \<longrightarrow> holds c k' v)"
    and put_keeps: "ok c \<Longrightarrow> ok (put k v b c) \<and> (holds (put k v b c) k' v' \<longrightarrow> k' = k \<and> v' = v \<or> holds c k' v')"
begin

definition sound :: "('k \<Rightarrow> 'v \<Rightarrow> bool) \<Rightarrow> 'c \<Rightarrow> bool" where
  "sound P c \<longleftrightarrow> ok c \<and> (\<forall>k v. holds c k v \<longrightarrow> P k v)"

lemma sound_get: "sound P c \<Longrightarrow> get k c = (r, c') \<Longrightarrow> sound P c' \<and> (\<forall>v. r = Some v \<longrightarrow> P k v)"
  using get_holds [of c k _ c'] get_keeps [of c k r c'] unfolding sound_def by blast

lemma sound_put: "sound P c \<Longrightarrow> P k v \<Longrightarrow> sound P (put k v b c)"
  using put_keeps [of c k v b] unfolding sound_def by blast

end

definition lru_holds :: "('k, 'v) LruByBytes \<Rightarrow> 'k \<Rightarrow> 'v \<Rightarrow> bool" where
  "lru_holds c k v \<longleftrightarrow> (\<exists>b. lru_map c k = Some (v, b))"

lemma map_of_fit: "map_of (fit n es) k = Some vb \<Longrightarrow> map_of es k = Some vb"
  by (induction n es rule: fit.induct) (auto split: if_splits)

lemma map_of_filter_other: "map_of (filter (\<lambda>e. fst e \<noteq> k) es) k' = (if k' = k then None else map_of es k')"
  by (induction es) auto

lemma put_holds:
  assumes "lru_ok c" "lru_holds (lru_put k v b c) k' v'"
  shows "k' = k \<and> v' = v \<or> lru_holds c k' v'"
proof -
  have linked: "lru_linked c" "lru_linked (lru_put k v b c)" using assms(1) put_refines(1) [of c k v b] by (simp_all add: lru_ok_def)
  obtain b' where "map_of (lru_entries (lru_put k v b c)) k' = Some (v', b')"
    using assms(2) lookup_lru_entries [OF linked(2)] by (auto simp: lru_holds_def)
  then have "map_of ((k, v, b) # filter (\<lambda>e. fst e \<noteq> k) (lru_entries c)) k' = Some (v', b')"
    unfolding put_refines(3) [OF linked(1)] by (rule map_of_fit)
  then show ?thesis
    using lookup_lru_entries [OF linked(1), of k'] by (auto simp: lru_holds_def map_of_filter_other split: if_splits)
qed

lemma get_map: "lru_map (snd (lru_get k c)) = lru_map c"
  by (simp add: lru_get_def split: option.split)

interpretation lru: value_cache lru_get lru_put lru_ok lru_holds
proof
  fix c :: "('k, 'v) LruByBytes" and k k' :: 'k and v v' :: 'v and r c' b
  assume ok: "lru_ok c"
  show "lru_holds c k v" if "lru_get k c = (Some v, c')" using that by (auto simp: lru_get_def lru_holds_def split: option.splits)
  show "lru_ok c' \<and> (lru_holds c' k' v \<longrightarrow> lru_holds c k' v)" if "lru_get k c = (r, c')"
    using that ok get_refines(3,4,5) [of c k] get_map [of k c] by (simp add: lru_ok_def lru_holds_def)
  show "lru_ok (lru_put k v b c) \<and> (lru_holds (lru_put k v b c) k' v' \<longrightarrow> k' = k \<and> v' = v \<or> lru_holds c k' v')"
    using put_holds [OF ok, of k v b k' v'] put_refines(1) [of c k v b] ok unfolding lru_ok_def [of c] by blast
qed

end
