(* ===== verification/DiffServices.thy ===== *)
theory DiffServices
  imports LruCaches OperationSteps WorkingCopy
begin

text \<open>
  \<^verbatim>\<open>src/core/git/DiffService\<close>: the changed files of commits with their line counts, the diffs of commits,
  of the work tree, of stashes and of untracked files, and the two caches in front of git. What the
  service asks of the world is a record of functions: a command that is run, one whose records are
  collected between NUL bytes, one whose lines are streamed (with what came before a failure), and what the
  file system says of a path. How many bytes a value takes is an argument, since it depends on the
  layout of the compiler.
\<close>

record 'g Services =
  sv_run :: "'g Git"
  sv_records :: "GitCommand \<Rightarrow> 'g \<Rightarrow> string list GitResult \<times> 'g"
  sv_lines :: "GitCommand \<Rightarrow> 'g \<Rightarrow> (string list \<times> GitError option) \<times> 'g"
  sv_isRegularFile :: "string \<Rightarrow> 'g \<Rightarrow> bool"
  sv_fileSize :: "string \<Rightarrow> 'g \<Rightarrow> nat option"

section \<open>Options\<close>

record DiffSettings =
  dx_contextLines :: nat
  dx_ignoreWhitespace :: bool
  dx_ignoreEolOnly :: bool
  dx_detectRenames :: bool
  dx_firstParentOnly :: bool
  dx_renameDetectionLimit :: nat

definition plainDiff :: DiffSettings where
  "plainDiff = \<lparr>dx_contextLines = 3, dx_ignoreWhitespace = False, dx_ignoreEolOnly = False, dx_detectRenames = True,
     dx_firstParentOnly = True, dx_renameDetectionLimit = 2000\<rparr>"

definition fullFile :: DiffSettings where
  "fullFile = plainDiff\<lparr>dx_contextLines := 2147483647\<rparr>"

definition mix :: "64 word \<Rightarrow> nat \<Rightarrow> 64 word" where
  "mix h v = (h XOR of_nat v) * 0x100000001b3"

definition settingsHash :: "DiffSettings \<Rightarrow> 64 word" where
  "settingsHash options =
     foldl mix 0xcbf29ce484222325
       [dx_contextLines options, of_bool (dx_ignoreWhitespace options), of_bool (dx_ignoreEolOnly options), of_bool (dx_detectRenames options),
        of_bool (dx_firstParentOnly options), dx_renameDetectionLimit options]"

definition hashText :: "DiffSettings \<Rightarrow> string" where
  "hashText options = to_string (unat (settingsHash options))"

definition diffFlags :: "DiffSettings \<Rightarrow> string list" where
  "diffFlags options =
     [''--no-color'', ''-U'' @ to_string (dx_contextLines options)] @
     (if dx_detectRenames options then [''--find-renames'', ''-l'' @ to_string (dx_renameDetectionLimit options)] else [''--no-renames'']) @
     (if dx_ignoreWhitespace options then [''-w''] else if dx_ignoreEolOnly options then [''--ignore-cr-at-eol''] else []) @
     [''--indent-heuristic'']"

definition rawRenameFlag :: "DiffSettings \<Rightarrow> string" where
  "rawRenameFlag options = (if dx_detectRenames options then ''--find-renames'' else ''--no-renames'')"

definition firstParentFlag :: "DiffSettings \<Rightarrow> string list" where
  "firstParentFlag options = (if dx_firstParentOnly options then [''--diff-merges=first-parent''] else [])"

section \<open>Changed files\<close>

record ChangedFile =
  cf_path :: string
  cf_oldPath :: string
  cf_kind :: FileChangeKind
  cf_oldMode :: string
  cf_newMode :: string
  cf_oldBlob :: string
  cf_newBlob :: string
  cf_similarity :: nat
  cf_addedLines :: nat
  cf_removedLines :: nat

definition kindForStatusLetter :: "char \<Rightarrow> FileChangeKind" where
  "kindForStatusLetter letter =
     (if letter = CHR ''A'' then FileAdded else if letter = CHR ''D'' then FileDeleted
      else if letter = CHR ''R'' then FileRenamed else if letter = CHR ''C'' then FileCopied
      else if letter = CHR ''T'' then FileTypeChanged else FileModified)"

text \<open>The fields of a metadata record: an empty last one is not listed.\<close>

definition rawFields :: "string \<Rightarrow> string list" where
  "rawFields meta = (let fs = splitOn (CHR '' '') meta in if last fs = [] then butlast fs else fs)"

definition changed_file :: "string list \<Rightarrow> ChangedFile" where
  "changed_file fs =
     (let status = fs ! 4
      in \<lparr>cf_path = [], cf_oldPath = [], cf_kind = kindForStatusLetter (if status = [] then CHR ''M'' else hd status),
          cf_oldMode = fs ! 0, cf_newMode = fs ! 1, cf_oldBlob = fs ! 2, cf_newBlob = fs ! 3,
          cf_similarity = dec_value (filter is_digit (drop 1 status)), cf_addedLines = 0, cf_removedLines = 0\<rparr>)"

text \<open>A metadata record, if it is one.\<close>

definition rawMeta :: "string \<Rightarrow> ChangedFile option" where
  "rawMeta rec =
     (let meta = dropWhile (\<lambda>c. c = nl \<or> c = cr) rec
      in if meta = [] \<or> hd meta \<noteq> CHR '':'' then None
         else let fs = rawFields (tl meta) in if length fs < 5 then None else Some (changed_file fs))"

definition hasTwoPaths :: "ChangedFile \<Rightarrow> bool" where
  "hasTwoPaths file \<longleftrightarrow> cf_kind file = FileRenamed \<or> cf_kind file = FileCopied"

text \<open>The records from a position to the end of a slice.\<close>

fun parseRawRecords :: "string list \<Rightarrow> ChangedFile list" where
  "parseRawRecords [] = []"
| "parseRawRecords (rec # recs) =
     (case rawMeta rec of
        None \<Rightarrow> parseRawRecords recs
      | Some file \<Rightarrow>
          (case recs of
             [] \<Rightarrow> []
           | p # rest \<Rightarrow>
               (case rest of
                  q # rest' \<Rightarrow>
                    if hasTwoPaths file then file\<lparr>cf_oldPath := p, cf_path := q\<rparr> # parseRawRecords rest'
                    else file\<lparr>cf_path := p\<rparr> # parseRawRecords rest
                | [] \<Rightarrow> [file\<lparr>cf_path := p\<rparr>])))"

definition applyLineCounts :: "string \<Rightarrow> string \<Rightarrow> string \<Rightarrow> ChangedFile list \<Rightarrow> ChangedFile list" where
  "applyLineCounts addedField removedField path files =
     (if addedField = ''-'' \<or> removedField = ''-'' then files
      else updateFirst (\<lambda>f. cf_path f = path) (\<lambda>f. f\<lparr>cf_addedLines := countField addedField, cf_removedLines := countField removedField\<rparr>) files)"

fun joinLineCounts :: "string list \<Rightarrow> ChangedFile list \<Rightarrow> ChangedFile list" where
  "joinLineCounts [] files = files"
| "joinLineCounts (rec # recs) files =
     (case find_char (CHR 0x09) rec of
        None \<Rightarrow> joinLineCounts recs files
      | Some firstTab \<Rightarrow>
          (case find_char_from (CHR 0x09) rec (firstTab + 1) of
             None \<Rightarrow> joinLineCounts recs files
           | Some secondTab \<Rightarrow>
               let addedField = take firstTab rec;
                   removedField = substr rec (firstTab + 1) (secondTab - firstTab - 1);
                   pathField = drop (secondTab + 1) rec
               in if pathField = [] then
                    (case recs of
                       _ # newPath # recs' \<Rightarrow> joinLineCounts recs' (applyLineCounts addedField removedField newPath files)
                     | _ \<Rightarrow> files)
                  else joinLineCounts recs (applyLineCounts addedField removedField pathField files)))"

declare joinLineCounts.simps(2) [simp del]

definition treeCommand :: "string \<Rightarrow> string \<Rightarrow> DiffSettings \<Rightarrow> ObjectId \<Rightarrow> GitCommand" where
  "treeCommand dir format options commit =
     timed dir ([''diff-tree'', ''-r'', format, ''-z'', ''--no-commit-id'', ''--root'', rawRenameFlag options] @ firstParentFlag options @ [hex commit]) 120000"

definition attachLineCounts ::
  "'g Services \<Rightarrow> string \<Rightarrow> ObjectId \<Rightarrow> DiffSettings \<Rightarrow> ChangedFile list \<Rightarrow> 'g \<Rightarrow> ChangedFile list GitResult \<times> 'g" where
  "attachLineCounts sv dir commit options files g =
     (if files = [] then (Inr files, g)
      else case sv_records sv (treeCommand dir ''--numstat'' options commit) g of
             (Inl e, g) \<Rightarrow> (Inl e, g)
           | (Inr recs, g) \<Rightarrow> (Inr (joinLineCounts recs files), g))"

section \<open>The service\<close>

record DiffService =
  ds_diffCache :: "(string, ParsedDiff) LruByBytes"
  ds_fileListCache :: "(string, ChangedFile list) LruByBytes"

definition kDiffCacheBytes :: nat where "kDiffCacheBytes = 48 * 1024 * 1024"
definition kFileListCacheEntries :: nat where "kFileListCacheEntries = 512"

definition new_diff_service :: DiffService where
  "new_diff_service = \<lparr>ds_diffCache = new_lru kDiffCacheBytes, ds_fileListCache = new_lru (kFileListCacheEntries * 4096)\<rparr>"

text \<open>A value from the cache, or computed and then cached.\<close>

definition cached_value ::
  "string \<Rightarrow> ('v \<Rightarrow> nat) \<Rightarrow> ('g \<Rightarrow> 'v GitResult \<times> 'g) \<Rightarrow> (string, 'v) LruByBytes \<Rightarrow> 'g \<Rightarrow> ('v GitResult \<times> (string, 'v) LruByBytes) \<times> 'g" where
  "cached_value key estimateBytes compute c g =
     (case lru_get key c of
        (Some v, c) \<Rightarrow> ((Inr v, c), g)
      | (None, c) \<Rightarrow>
          (case compute g of
             (Inl e, g) \<Rightarrow> ((Inl e, c), g)
           | (Inr v, g) \<Rightarrow> ((Inr v, lru_put key v (estimateBytes v) c), g)))"

definition readChangedFiles :: "'g Services \<Rightarrow> string \<Rightarrow> ObjectId \<Rightarrow> DiffSettings \<Rightarrow> 'g \<Rightarrow> ChangedFile list GitResult \<times> 'g" where
  "readChangedFiles sv dir commit options g =
     (case sv_records sv (treeCommand dir ''--raw'' options commit) g of
        (Inl e, g) \<Rightarrow> (Inl e, g)
      | (Inr recs, g) \<Rightarrow> attachLineCounts sv dir commit options (parseRawRecords recs) g)"

definition changedFiles ::
  "'g Services \<Rightarrow> (ChangedFile list \<Rightarrow> nat) \<Rightarrow> string \<Rightarrow> ObjectId \<Rightarrow> DiffSettings \<Rightarrow> DiffService \<Rightarrow> 'g \<Rightarrow> (ChangedFile list GitResult \<times> DiffService) \<times> 'g" where
  "changedFiles sv estimateBytes dir commit options s g =
     (let ((r, c), g) = cached_value (hex commit @ '':files:'' @ hashText options) estimateBytes (readChangedFiles sv dir commit options)
                          (ds_fileListCache s) g
      in ((r, s\<lparr>ds_fileListCache := c\<rparr>), g))"

record CommitFileCount =
  fc_commit :: ObjectId
  fc_fileCount :: nat

definition kHeader :: string where "kHeader = ''COMMIT ''"

text \<open>The headers with the records up to the next header.\<close>

fun cutAtHeaders :: "string list \<Rightarrow> (string \<times> string list) list" where
  "cutAtHeaders [] = []"
| "cutAtHeaders (field # recs) =
     (if starts_with field kHeader
      then (drop (length kHeader) field, takeWhile (\<lambda>r. \<not> starts_with r kHeader) recs) # cutAtHeaders recs
      else cutAtHeaders recs)"

definition countSlice :: "string \<times> string list \<Rightarrow> CommitFileCount" where
  "countSlice headed = \<lparr>fc_commit = fromHex (fst headed), fc_fileCount = u32 (length (parseRawRecords (snd headed)))\<rparr>"

definition countsCommand :: "string \<Rightarrow> ObjectId list \<Rightarrow> DiffSettings \<Rightarrow> GitCommand" where
  "countsCommand dir commits options =
     timed dir ([''log'', ''--no-walk'', ''--format=%x00COMMIT %H'', ''-r'', ''--raw'', ''-z'', rawRenameFlag options] @ firstParentFlag options @
       map hex commits) 120000"

definition commitFileCounts ::
  "'g Services \<Rightarrow> string \<Rightarrow> ObjectId list \<Rightarrow> DiffSettings \<Rightarrow> 'g \<Rightarrow> CommitFileCount list GitResult \<times> 'g" where
  "commitFileCounts sv dir commits options g =
     (if commits = [] then (Inr [], g)
      else case sv_records sv (countsCommand dir commits options) g of
             (Inl e, g) \<Rightarrow> (Inl e, g)
           | (Inr recs, g) \<Rightarrow> (Inr (map countSlice (cutAtHeaders recs)), g))"

section \<open>Diffs of commits\<close>

definition parsedOutput :: "'g Services \<Rightarrow> GitCommand \<Rightarrow> 'g \<Rightarrow> ParsedDiff GitResult \<times> 'g" where
  "parsedOutput sv command g =
     (case sv_run sv command g of
        (Inl e, g) \<Rightarrow> (Inl e, g)
      | (Inr out, g) \<Rightarrow> (Inr (UnifiedDiff.parse default_options out), g))"

definition commitDiffArgs :: "ObjectId \<Rightarrow> DiffSettings \<Rightarrow> string list" where
  "commitDiffArgs commit options =
     [''diff-tree'', ''-p'', ''-r'', ''--no-commit-id'', ''--root''] @ diffFlags options @ firstParentFlag options @ [hex commit]"

definition commitDiffKey :: "ObjectId \<Rightarrow> DiffSettings \<Rightarrow> string" where
  "commitDiffKey commit options = hex commit @ '':diff:'' @ hashText options"

definition commitDiff ::
  "'g Services \<Rightarrow> (ParsedDiff \<Rightarrow> nat) \<Rightarrow> string \<Rightarrow> ObjectId \<Rightarrow> DiffSettings \<Rightarrow> DiffService \<Rightarrow> 'g \<Rightarrow> (ParsedDiff GitResult \<times> DiffService) \<times> 'g" where
  "commitDiff sv estimateBytes dir commit options s g =
     (let ((r, c), g) = cached_value (commitDiffKey commit options) estimateBytes (parsedOutput sv (timed dir (commitDiffArgs commit options) 180000))
                          (ds_diffCache s) g
      in ((r, s\<lparr>ds_diffCache := c\<rparr>), g))"

definition fileDiffKey :: "ObjectId \<Rightarrow> string \<Rightarrow> string \<Rightarrow> DiffSettings \<Rightarrow> string" where
  "fileDiffKey commit path oldPath options = hex commit @ '':file:'' @ oldPath @ ''->'' @ path @ '':'' @ hashText options"

definition fileDiffArgs :: "ObjectId \<Rightarrow> string \<Rightarrow> string \<Rightarrow> DiffSettings \<Rightarrow> string list" where
  "fileDiffArgs commit path oldPath options =
     commitDiffArgs commit options @ [''--''] @ (if oldPath \<noteq> [] \<and> oldPath \<noteq> path then [oldPath] else []) @ [path]"

definition commitFileDiff ::
  "'g Services \<Rightarrow> (ParsedDiff \<Rightarrow> nat) \<Rightarrow> string \<Rightarrow> ObjectId \<Rightarrow> string \<Rightarrow> string \<Rightarrow> DiffSettings \<Rightarrow> DiffService \<Rightarrow> 'g \<Rightarrow>
    (ParsedDiff GitResult \<times> DiffService) \<times> 'g" where
  "commitFileDiff sv estimateBytes dir commit path oldPath options s g =
     (let ((r, c), g) = cached_value (fileDiffKey commit path oldPath options) estimateBytes
                          (parsedOutput sv (timed dir (fileDiffArgs commit path oldPath options) 120000)) (ds_diffCache s) g
      in ((r, s\<lparr>ds_diffCache := c\<rparr>), g))"

definition clearCaches :: "DiffService \<Rightarrow> DiffService" where
  "clearCaches s = s\<lparr>ds_diffCache := lru_clear (ds_diffCache s), ds_fileListCache := lru_clear (ds_fileListCache s)\<rparr>"

section \<open>Diffs of the work tree\<close>

definition isPathInIndex :: "'g Services \<Rightarrow> string \<Rightarrow> string \<Rightarrow> 'g \<Rightarrow> bool GitResult \<times> 'g" where
  "isPathInIndex sv dir path g =
     (case sv_run sv (timed dir [''ls-files'', ''-z'', ''--'', path] 30000) g of
        (Inl e, g) \<Rightarrow> (Inl e, g)
      | (Inr out, g) \<Rightarrow> (Inr (out \<noteq> []), g))"

definition empty_diff :: ParsedDiff where
  "empty_diff = \<lparr>pd_files = [], pd_truncated = False, pd_inputBytes = 0\<rparr>"

definition untrackedCommand :: "string \<Rightarrow> string \<Rightarrow> DiffSettings \<Rightarrow> GitCommand" where
  "untrackedCommand dir path options =
     (timed dir (worktreeReadFlags @ [''diff'', ''--no-index''] @ diffFlags options @ [''--'', ''/dev/null'', path]) 180000)\<lparr>gc_benignExitCodes := [1]\<rparr>"

text \<open>The lines are joined as \<^verbatim>\<open>run\<close> joins them: a line feed behind each, the last one taken off.\<close>

definition joined_lines :: "string list \<Rightarrow> string" where
  "joined_lines ls = (let out = concat (map (\<lambda>l. l @ [nl]) ls) in if out \<noteq> [] \<and> last out = nl then butlast out else out)"

definition untrackedFileDiff :: "'g Services \<Rightarrow> string \<Rightarrow> string \<Rightarrow> DiffSettings \<Rightarrow> 'g \<Rightarrow> ParsedDiff GitResult \<times> 'g" where
  "untrackedFileDiff sv dir path options g =
     (case sv_lines sv (untrackedCommand dir path options) g of
        ((ls, failure), g) \<Rightarrow>
          (let out = joined_lines ls
           in case failure of
                None \<Rightarrow> (Inr (UnifiedDiff.parse default_options out), g)
              | Some e \<Rightarrow>
                  if ge_code e = Cancelled \<or> ge_exitCode e \<noteq> 1 \<or> out = [] then (Inr empty_diff, g)
                  else (Inr (UnifiedDiff.parse default_options out), g)))"

definition workTreeArgs :: "bool \<Rightarrow> string list \<Rightarrow> DiffSettings \<Rightarrow> string list" where
  "workTreeArgs stagedSide paths options =
     (if stagedSide then [] else worktreeReadFlags) @ [''diff''] @ (if stagedSide then [''--cached''] else []) @ diffFlags options @
     (if paths = [] then [] else ''--'' # paths)"

text \<open>The path of an empty answer on the unstaged side: shown whole if it is an untracked file.\<close>

definition untrackedAnswer :: "'g Services \<Rightarrow> RepoPaths \<Rightarrow> string \<Rightarrow> DiffSettings \<Rightarrow> ParsedDiff \<Rightarrow> 'g \<Rightarrow> ParsedDiff GitResult \<times> 'g" where
  "untrackedAnswer sv rp path options parsed g =
     (let path' = path_join (rp_workDir rp) path
      in if isBare rp \<or> \<not> sv_isRegularFile sv path' g then (Inr parsed, g)
         else case isPathInIndex sv (commandDir rp) path g of
                (Inl _, g) \<Rightarrow> (Inr parsed, g)
              | (Inr True, g) \<Rightarrow> (Inr parsed, g)
              | (Inr False, g) \<Rightarrow>
                  (case sv_fileSize sv path' g of
                     None \<Rightarrow> (Inr parsed, g)
                   | Some bytes \<Rightarrow>
                       if bytes > do_maxBytes default_options then (Inr (empty_diff\<lparr>pd_truncated := True, pd_inputBytes := bytes\<rparr>), g)
                       else untrackedFileDiff sv (commandDir rp) path options g))"

definition workingTreeDiff :: "'g Services \<Rightarrow> RepoPaths \<Rightarrow> bool \<Rightarrow> string list \<Rightarrow> DiffSettings \<Rightarrow> 'g \<Rightarrow> ParsedDiff GitResult \<times> 'g" where
  "workingTreeDiff sv rp stagedSide paths options g =
     (case parsedOutput sv (timed (commandDir rp) (workTreeArgs stagedSide paths options) 180000) g of
        (Inl e, g) \<Rightarrow> (Inl e, g)
      | (Inr parsed, g) \<Rightarrow>
          if stagedSide \<or> length paths \<noteq> 1 \<or> pd_files parsed \<noteq> [] then (Inr parsed, g)
          else untrackedAnswer sv rp (hd paths) options parsed g)"

definition commitVsWorkingTree :: "'g Services \<Rightarrow> string \<Rightarrow> ObjectId \<Rightarrow> DiffSettings \<Rightarrow> 'g \<Rightarrow> ParsedDiff GitResult \<times> 'g" where
  "commitVsWorkingTree sv dir commit options =
     parsedOutput sv (timed dir (worktreeReadFlags @ [''diff''] @ diffFlags options @ [hex commit]) 180000)"

definition stashName :: "int \<Rightarrow> string" where
  "stashName index = ''stash'' @ [CHR 0x40, CHR 0x7B] @ int_to_string index @ [CHR 0x7D]"

definition stashDiff :: "'g Services \<Rightarrow> string \<Rightarrow> int \<Rightarrow> bool \<Rightarrow> DiffSettings \<Rightarrow> 'g \<Rightarrow> ParsedDiff GitResult \<times> 'g" where
  "stashDiff sv dir stashIndex includeUntracked options =
     parsedOutput sv (timed dir ([''stash'', ''show'', ''-p''] @ diffFlags options @ (if includeUntracked then [''--include-untracked''] else []) @
       [stashName stashIndex]) 180000)"

end
