(* ===== verification/DiffServicePromises.thy ===== *)
theory DiffServicePromises
  imports DiffServices StatusReading MetaReading
begin

text \<open>
  What the diff service promises: the changed files git lists read back with their counts, the counts
  of many commits agree with the lists of each, and a diff from the cache is the diff git would print.
\<close>

section \<open>Changed files read back\<close>

definition status_letter :: "FileChangeKind \<Rightarrow> char" where
  "status_letter kind =
     (case kind of FileAdded \<Rightarrow> CHR ''A'' | FileDeleted \<Rightarrow> CHR ''D'' | FileRenamed \<Rightarrow> CHR ''R'' | FileCopied \<Rightarrow> CHR ''C''
      | FileTypeChanged \<Rightarrow> CHR ''T'' | _ \<Rightarrow> CHR ''M'')"

text \<open>Git prints two paths for a rename and for a copy, and their similarity.\<close>

definition moved :: "ChangedFile \<Rightarrow> bool" where
  "moved f \<longleftrightarrow> cf_kind f \<in> {FileRenamed, FileCopied}"

text \<open>Git pads the similarity to three digits.\<close>

definition score_text :: "nat \<Rightarrow> string" where
  "score_text n = replicate (3 - length (to_string n)) (CHR ''0'') @ to_string n"

definition raw_header :: "ChangedFile \<Rightarrow> string" where
  "raw_header f = CHR '':'' # joined (CHR '' '') [cf_oldMode f, cf_newMode f, cf_oldBlob f, cf_newBlob f,
     status_letter (cf_kind f) # (if moved f then score_text (cf_similarity f) else [])]"

definition raw_records :: "ChangedFile \<Rightarrow> string list" where
  "raw_records f = (if moved f then [raw_header f, cf_oldPath f, cf_path f] else [raw_header f, cf_path f])"

definition uncounted :: "ChangedFile \<Rightarrow> ChangedFile" where
  "uncounted f = f\<lparr>cf_addedLines := 0, cf_removedLines := 0\<rparr>"

definition git_change :: "ChangedFile \<Rightarrow> bool" where
  "git_change f \<longleftrightarrow> cf_kind f \<noteq> FileModeChanged \<and> cf_path f \<noteq> [] \<and>
     CHR '' '' \<notin> set (cf_oldMode f) \<and> CHR '' '' \<notin> set (cf_newMode f) \<and> CHR '' '' \<notin> set (cf_oldBlob f) \<and> CHR '' '' \<notin> set (cf_newBlob f) \<and>
     (\<not> moved f \<longrightarrow> cf_oldPath f = [] \<and> cf_similarity f = 0) \<and> cf_addedLines f < 2 ^ 32 \<and> cf_removedLines f < 2 ^ 32"

lemma kind_of_letter: "kind \<noteq> FileModeChanged \<Longrightarrow> kindForStatusLetter (status_letter kind) = kind"
  by (cases kind) (simp_all add: kindForStatusLetter_def status_letter_def)

lemma dec_value_zeros: "dec_value (replicate n (CHR ''0'') @ ds) = dec_value ds"
  by (induction n) (simp_all add: dec_value_def digit_val_def)

lemma space_no_digit: "\<not> is_digit (CHR '' '')"
  by (simp add: is_digit_def)

lemma score_digits: "filter is_digit (score_text n) = score_text n" "CHR '' '' \<notin> set (score_text n)"
proof -
  have "is_digit c" if "c \<in> set (score_text n)" for c
    using that to_string_digits [of c n] by (auto simp: score_text_def is_digit_def)
  then show "filter is_digit (score_text n) = score_text n" "CHR '' '' \<notin> set (score_text n)"
    using space_no_digit by (force simp: filter_id_conv)+
qed

lemma score_value: "dec_value (filter is_digit (score_text n)) = n"
  unfolding score_digits(1) by (simp add: score_text_def dec_value_zeros)

lemma rawMeta_header:
  assumes "git_change f" "set pre \<subseteq> {nl, cr}"
  shows "\<exists>file. rawMeta (pre @ raw_header f) = Some file \<and> hasTwoPaths file = moved f \<and>
    file\<lparr>cf_oldPath := cf_oldPath f, cf_path := cf_path f\<rparr> = uncounted f"
proof -
  let ?status = "status_letter (cf_kind f) # (if moved f then score_text (cf_similarity f) else [])"
  let ?fs = "[cf_oldMode f, cf_newMode f, cf_oldBlob f, cf_newBlob f, ?status]"
  have letter: "status_letter (cf_kind f) \<noteq> CHR '' ''" by (cases "cf_kind f") (simp_all add: status_letter_def)
  have free: "list_all (\<lambda>g. CHR '' '' \<notin> set g) ?fs" using assms(1) letter score_digits(2) by (auto simp: git_change_def)
  have "splitOn (CHR '' '') (joined (CHR '' '') ?fs) = ?fs" by (rule splitOn_joined [OF free]) simp
  then have fs: "rawFields (tl (raw_header f)) = ?fs" by (simp add: rawFields_def raw_header_def Let_def)
  have drop: "dropWhile (\<lambda>c. c = nl \<or> c = cr) (pre @ raw_header f) = raw_header f"
    using assms(2) by (subst dropWhile_append2) (auto simp: raw_header_def)
  have "rawMeta (pre @ raw_header f) = Some (changed_file ?fs)"
    unfolding rawMeta_def drop Let_def fs by (simp add: raw_header_def)
  moreover have "changed_file ?fs = (uncounted f)\<lparr>cf_oldPath := [], cf_path := []\<rparr>"
    using assms(1) kind_of_letter [of "cf_kind f"] score_value [of "cf_similarity f"]
    by (auto simp: changed_file_def uncounted_def git_change_def dec_value_def Let_def)
  ultimately show ?thesis by (simp add: uncounted_def hasTwoPaths_def moved_def)
qed

declare parseRawRecords.simps(2) [simp del]

lemma raw_step:
  assumes "git_change f" "set pre \<subseteq> {nl, cr}"
  shows "parseRawRecords ((pre @ raw_header f) # tl (raw_records f) @ recs) = uncounted f # parseRawRecords recs"
proof -
  obtain r where f: "rawMeta (pre @ raw_header f) = Some r" "hasTwoPaths r = moved f"
    "r\<lparr>cf_oldPath := cf_oldPath f, cf_path := cf_path f\<rparr> = uncounted f" using rawMeta_header [OF assms] by blast
  show ?thesis
  proof (cases "moved f")
    case True
    with f show ?thesis by (simp add: raw_records_def parseRawRecords.simps(2))
  next
    case False
    then have "cf_oldPath f = []" using assms(1) by (simp add: git_change_def)
    moreover have "cf_oldPath r = []" using f(1) by (auto simp: rawMeta_def Let_def changed_file_def split: if_splits)
    ultimately have "r\<lparr>cf_path := cf_path f\<rparr> = uncounted f" using f(3) by (cases r) simp
    with False f(1,2) show ?thesis by (cases recs) (simp_all add: raw_records_def parseRawRecords.simps(2))
  qed
qed

lemma raw_records_Cons: "raw_records f = raw_header f # tl (raw_records f)"
  by (simp add: raw_records_def)

lemma raw_reads_back: "list_all git_change fs \<Longrightarrow> parseRawRecords (concat (map raw_records fs)) = map uncounted fs"
proof (induction fs)
  case (Cons f fs)
  have "parseRawRecords (concat (map raw_records (f # fs))) = parseRawRecords (([] @ raw_header f) # tl (raw_records f) @ concat (map raw_records fs))"
    by (simp add: arg_cong [OF raw_records_Cons [of f], of "\<lambda>r. parseRawRecords (r @ concat (map raw_records fs))"])
  also have "\<dots> = uncounted f # parseRawRecords (concat (map raw_records fs))" using Cons.prems by (intro raw_step) simp_all
  finally show ?case using Cons by simp
qed simp

text \<open>What numstat prints of a file: nothing to count for a binary one.\<close>

definition count_item :: "bool \<times> ChangedFile \<Rightarrow> NumstatItem" where
  "count_item bf = (let f = snd bf in (cf_path f, if moved f then Some (cf_oldPath f) else None,
     if fst bf then None else Some (cf_addedLines f, cf_removedLines f)))"

definition with_counts :: "NumstatItem list \<Rightarrow> ChangedFile \<Rightarrow> ChangedFile" where
  "with_counts items f =
     (case map_of items (cf_path f) of
        Some (_, Some (added, removed)) \<Rightarrow> f\<lparr>cf_addedLines := added, cf_removedLines := removed\<rparr>
      | _ \<Rightarrow> f)"

lemma joinLineCounts_record:
  "joinLineCounts ((count_fields counts @ path) # recs) fs =
     (if path = []
      then (case recs of _ # p # recs' \<Rightarrow> joinLineCounts recs' (applyLineCounts (added_text counts) (removed_text counts) p fs) | _ \<Rightarrow> fs)
      else joinLineCounts recs (applyLineCounts (added_text counts) (removed_text counts) path fs))"
proof -
  let ?r = "added_text counts @ tab # removed_text counts @ tab # path"
  have "find_char tab ?r = Some (length (added_text counts))" using no_tab by simp
  moreover have "find_char_from tab ?r (length (added_text counts) + 1) = Some (length (added_text counts) + 1 + length (removed_text counts))"
    using no_tab by (simp add: find_char_from_def)
  ultimately show ?thesis by (simp add: joinLineCounts.simps(2) count_fields_eq substr_def Let_def)
qed

lemma applyLineCounts_item:
  assumes "numstat_ok (path, old, counts)" "distinct (map cf_path fs)"
  shows "applyLineCounts (added_text counts) (removed_text counts) path fs = map (with_counts [(path, old, counts)]) fs"
proof (cases counts)
  case None
  then have "with_counts [(path, old, counts)] f = f" for f by (simp add: with_counts_def)
  then show ?thesis using None by (simp add: applyLineCounts_def added_text_def map_idI)
next
  case (Some c)
  then obtain m n where c: "counts = Some (m, n)" by (cases c) auto
  with assms(1) have "m < 2 ^ 32" "n < 2 ^ 32" by (auto simp: numstat_ok_def)
  then have "countField (to_string m) = m" "countField (to_string n) = n"
    using from_chars_to_string [of _ 32 "[]"] by (simp_all add: countField_def)
  with c assms(2) show ?thesis
    by (auto simp: applyLineCounts_def added_text_def removed_text_def to_string_not_dash updateFirst_map with_counts_def)
qed

lemma cf_path_with_counts [simp]: "cf_path (with_counts items f) = cf_path f"
  by (simp add: with_counts_def split: option.splits prod.splits)

lemma joinLineCounts_items:
  assumes "list_all numstat_ok items" "distinct (map fst items)" "distinct (map cf_path fs)"
  shows "joinLineCounts (concat (map numstat_records items)) fs = map (with_counts items) fs"
  using assms
proof (induction items arbitrary: fs)
  case Nil
  then show ?case by (simp add: with_counts_def)
next
  case (Cons item items)
  obtain path old counts where item: "item = (path, old, counts)" by (cases item)
  have "path \<noteq> []" using Cons.prems(1) by (simp add: item numstat_ok_def)
  then have "joinLineCounts (concat (map numstat_records (item # items))) fs =
      joinLineCounts (concat (map numstat_records items)) (map (with_counts [item]) fs)"
    using joinLineCounts_record [of counts path "concat (map numstat_records items)" fs] joinLineCounts_record [of counts "[]" _ fs]
      applyLineCounts_item [of path old counts fs] Cons.prems by (cases old) (simp_all add: item)
  also have "\<dots> = map (with_counts items) (map (with_counts [item]) fs)"
    using Cons.prems by (intro Cons.IH) (simp_all add: comp_def)
  also have "\<dots> = map (with_counts (item # items)) fs"
    using Cons.prems(2) by (auto simp: item with_counts_def map_of_eq_None_iff [THEN iffD2] split: option.splits prod.splits)
  finally show ?case .
qed

definition git_listing :: "(bool \<times> ChangedFile) list \<Rightarrow> bool" where
  "git_listing bfs \<longleftrightarrow> list_all git_change (map snd bfs) \<and> distinct (map (cf_path \<circ> snd) bfs) \<and>
     list_all (\<lambda>(binary, f). binary \<longrightarrow> cf_addedLines f = 0 \<and> cf_removedLines f = 0) bfs"

lemma counts_restored:
  assumes "git_listing bfs" "(binary, f) \<in> set bfs"
  shows "with_counts (map count_item bfs) (uncounted f) = f"
proof -
  have "map_of (map count_item bfs) (cf_path f) =
      Some (if moved f then Some (cf_oldPath f) else None, if binary then None else Some (cf_addedLines f, cf_removedLines f))"
  proof (rule map_of_is_SomeI)
    show "distinct (map fst (map count_item bfs))" using assms(1) by (simp add: git_listing_def comp_def count_item_def Let_def)
    show "(cf_path f, if moved f then Some (cf_oldPath f) else None, if binary then None else Some (cf_addedLines f, cf_removedLines f)) \<in>
        set (map count_item bfs)"
      using assms(2) by (force simp: count_item_def Let_def)
  qed
  moreover have "binary \<Longrightarrow> cf_addedLines f = 0 \<and> cf_removedLines f = 0" using assms by (auto simp: git_listing_def list_all_iff)
  ultimately show ?thesis by (cases f) (auto simp: with_counts_def uncounted_def)
qed

text \<open>
  Whatever files git lists as changed by a commit, renames, copies and binary files
  included, the list comes back in order, each file with its own modes, blobs, paths and line counts.
\<close>

theorem changed_files_read_back:
  assumes "git_listing bfs"
    and "sv_records sv (treeCommand dir ''--raw'' options commit) g = (Inr (concat (map raw_records (map snd bfs))), g')"
    and "sv_records sv (treeCommand dir ''--numstat'' options commit) g' = (Inr (concat (map numstat_records (map count_item bfs))), g'')"
  shows "fst (readChangedFiles sv dir commit options g) = Inr (map snd bfs)"
proof -
  have parsed: "parseRawRecords (concat (map raw_records (map snd bfs))) = map uncounted (map snd bfs)"
    using assms(1) by (intro raw_reads_back) (simp add: git_listing_def)
  have "list_all numstat_ok (map count_item bfs)"
    using assms(1) by (fastforce simp: list_all_iff git_listing_def git_change_def numstat_ok_def count_item_def Let_def)
  moreover have "distinct (map fst (map count_item bfs))" using assms(1) by (simp add: git_listing_def comp_def count_item_def Let_def)
  moreover have "distinct (map cf_path (map uncounted (map snd bfs)))" using assms(1) by (simp add: git_listing_def comp_def uncounted_def)
  ultimately have joined: "joinLineCounts (concat (map numstat_records (map count_item bfs))) (map uncounted (map snd bfs)) =
      map (with_counts (map count_item bfs)) (map uncounted (map snd bfs))" by (rule joinLineCounts_items)
  have "map (with_counts (map count_item bfs)) (map uncounted (map snd bfs)) = map snd bfs"
    using counts_restored [OF assms(1)] by (simp add: comp_def) (metis prod.collapse)
  then show ?thesis using assms(2,3) parsed joined by (simp add: readChangedFiles_def attachLineCounts_def)
qed

definition sample_listing :: "(bool \<times> ChangedFile) list" where
  "sample_listing =
     [(False, \<lparr>cf_path = ''new name'', cf_oldPath = ''old'', cf_kind = FileRenamed, cf_oldMode = ''100644'', cf_newMode = ''100755'', cf_oldBlob = ''aa'',
        cf_newBlob = ''bb'', cf_similarity = 86, cf_addedLines = 3, cf_removedLines = 4\<rparr>),
      (True, \<lparr>cf_path = ''logo.png'', cf_oldPath = [], cf_kind = FileAdded, cf_oldMode = ''000000'', cf_newMode = ''100644'', cf_oldBlob = ''00'',
        cf_newBlob = ''cc'', cf_similarity = 0, cf_addedLines = 0, cf_removedLines = 0\<rparr>)]"

definition sample_services :: "unit Services" where
  "sample_services = \<lparr>sv_run = \<lambda>_ g. (Inr [], g),
     sv_records = \<lambda>command g. (Inr (if gc_args command ! 2 = ''--raw'' then concat (map raw_records (map snd sample_listing))
       else concat (map numstat_records (map count_item sample_listing))), g),
     sv_lines = \<lambda>_ g. (([], None), g), sv_isRegularFile = \<lambda>_ _. False, sv_fileSize = \<lambda>_ _. None\<rparr>"

theorem changed_files_read_back_witness:
  "fst (readChangedFiles sample_services [] null_oid plainDiff ()) = Inr (map snd sample_listing)"
proof (rule changed_files_read_back)
  show "git_listing sample_listing" by (simp add: git_listing_def sample_listing_def git_change_def moved_def)
qed (simp_all add: sample_services_def treeCommand_def)

section \<open>Counting the files of many commits\<close>

text \<open>The output of one command over many commits: a header of each, and its records, the first behind a line feed.\<close>

definition headed_records :: "ObjectId \<times> string list \<Rightarrow> string list" where
  "headed_records part = (kHeader @ hex (fst part)) # (case snd part of [] \<Rightarrow> [] | r # rs \<Rightarrow> (nl # r) # rs)"

definition header_free :: "string list \<Rightarrow> bool" where
  "header_free recs \<longleftrightarrow> list_all (\<lambda>r. \<not> starts_with r kHeader) recs"

lemma rawMeta_nl: "rawMeta (nl # r) = rawMeta r"
  by (simp add: rawMeta_def)

lemma parseRawRecords_nl: "parseRawRecords ((nl # r) # rs) = parseRawRecords (r # rs)"
  by (simp add: parseRawRecords.simps(2) rawMeta_nl)

lemma starts_with_header [simp]: "starts_with (kHeader @ s) kHeader" "\<not> starts_with (nl # s) kHeader"
  by (simp_all add: kHeader_def starts_with_def)

lemma cutAtHeaders_body: "header_free body \<Longrightarrow> cutAtHeaders (body @ rest) = cutAtHeaders rest"
  by (induction body) (simp_all add: header_free_def)

lemma cutAtHeaders_headed:
  assumes "header_free body" "rest = [] \<or> starts_with (hd rest) kHeader"
  shows "cutAtHeaders ((kHeader @ s) # body @ rest) = (s, body) # cutAtHeaders rest"
proof -
  have "takeWhile (\<lambda>r. \<not> starts_with r kHeader) (body @ rest) = body"
    using assms by (cases rest) (auto simp: header_free_def list_all_iff takeWhile_append2)
  then show ?thesis using cutAtHeaders_body [OF assms(1)] by simp
qed

lemma cut_headed_records:
  "list_all (\<lambda>part. header_free (snd part)) parts \<Longrightarrow>
   map countSlice (cutAtHeaders (concat (map headed_records parts))) =
   map (\<lambda>part. \<lparr>fc_commit = fromHex (hex (fst part)), fc_fileCount = u32 (length (parseRawRecords (snd part)))\<rparr>) parts"
proof (induction parts)
  case (Cons part parts)
  define body where "body = (case snd part of [] \<Rightarrow> [] | r # rs \<Rightarrow> (nl # r) # rs)"
  have "header_free body" using Cons.prems by (auto simp: body_def header_free_def split: list.split)
  moreover have "concat (map headed_records parts) = [] \<or> starts_with (hd (concat (map headed_records parts))) kHeader"
    by (cases parts) (simp_all add: headed_records_def)
  ultimately have "cutAtHeaders (concat (map headed_records (part # parts))) = (hex (fst part), body) # cutAtHeaders (concat (map headed_records parts))"
    using cutAtHeaders_headed [of body "concat (map headed_records parts)" "hex (fst part)"] by (simp add: headed_records_def body_def [symmetric])
  moreover have "parseRawRecords body = parseRawRecords (snd part)" by (simp add: body_def parseRawRecords_nl split: list.split)
  ultimately show ?case using Cons by (simp add: countSlice_def)
qed simp

text \<open>
  The number shown beside a commit is the length of the list its panel shows: when git
  answers for many commits with the records it answers for each, the counts are those of the lists, commit
  by commit, provided no path begins like a header.
\<close>

theorem file_counts_agree:
  assumes "list_all (\<lambda>part. printable_oid (fst part) \<and> header_free (snd part)) parts" and "parts \<noteq> []"
    and "sv_records sv (countsCommand dir (map fst parts) options) g = (Inr (concat (map headed_records parts)), g')"
  shows "fst (commitFileCounts sv dir (map fst parts) options g) =
    Inr (map (\<lambda>part. \<lparr>fc_commit = fst part, fc_fileCount = u32 (length (parseRawRecords (snd part)))\<rparr>) parts)"
proof -
  have "map countSlice (cutAtHeaders (concat (map headed_records parts))) =
      map (\<lambda>part. \<lparr>fc_commit = fromHex (hex (fst part)), fc_fileCount = u32 (length (parseRawRecords (snd part)))\<rparr>) parts"
    using assms(1) by (intro cut_headed_records) (simp add: list_all_iff)
  also have "\<dots> = map (\<lambda>part. \<lparr>fc_commit = fst part, fc_fileCount = u32 (length (parseRawRecords (snd part)))\<rparr>) parts"
    using assms(1) by (auto simp: list_all_iff fromHex_printed)
  finally show ?thesis using assms(2,3) by (simp add: commitFileCounts_def)
qed

definition one_commit :: "ObjectId \<times> string list" where
  "one_commit = (sample_oid, raw_records (snd (hd sample_listing)))"

definition counting_services :: "unit Services" where
  "counting_services = sample_services\<lparr>sv_records := \<lambda>_ g. (Inr (headed_records one_commit), g)\<rparr>"

theorem file_counts_agree_witness:
  "fst (commitFileCounts counting_services [] (map fst [one_commit]) plainDiff ()) = Inr [\<lparr>fc_commit = sample_oid, fc_fileCount = 1\<rparr>]"
proof -
  let ?f = "snd (hd sample_listing)"
  have "git_change ?f" by (simp add: sample_listing_def git_change_def moved_def)
  then have one: "parseRawRecords (snd one_commit) = [uncounted ?f]" using raw_reads_back [of "[?f]"] by (simp add: one_commit_def)
  have free: "header_free (snd one_commit)"
    by (simp add: one_commit_def raw_records_def sample_listing_def header_free_def raw_header_def kHeader_def starts_with_def)
  have "fst (commitFileCounts counting_services [] (map fst [one_commit]) plainDiff ()) =
      Inr (map (\<lambda>part. \<lparr>fc_commit = fst part, fc_fileCount = u32 (length (parseRawRecords (snd part)))\<rparr>) [one_commit])"
    by (rule file_counts_agree) (use free sample_printable in \<open>simp_all add: counting_services_def one_commit_def\<close>)
  then show ?thesis by (simp only: list.map one) (simp add: u32_def one_commit_def)
qed

text \<open>
  A path that begins like a header is taken for one: the commit is shown with fewer files than its
  panel lists, and a commit that is none is answered for.
\<close>

lemma header_like_path_miscounts:
  assumes "git_change f" "\<not> moved f" "cf_path f = kHeader @ name"
  shows "map countSlice (cutAtHeaders (headed_records (commit, raw_records f))) =
    [\<lparr>fc_commit = fromHex (hex commit), fc_fileCount = 0\<rparr>, \<lparr>fc_commit = fromHex name, fc_fileCount = 0\<rparr>]"
proof -
  have "rawMeta (raw_header f) \<noteq> None" using rawMeta_header [OF assms(1), of "[]"] by auto
  then have none: "parseRawRecords [nl # raw_header f] = []" by (auto simp: parseRawRecords.simps(2) rawMeta_nl)
  have "cutAtHeaders (headed_records (commit, raw_records f)) = [(hex commit, [nl # raw_header f]), (name, [])]"
    using assms(2,3) by (simp add: headed_records_def raw_records_def)
  with none show ?thesis by (simp add: countSlice_def u32_def)
qed

section \<open>Diffs from the cache\<close>

text \<open>A request for a diff of a commit, whole or of one file.\<close>

datatype DiffRequest = WholeDiff ObjectId DiffSettings | FileDiff ObjectId string string DiffSettings

fun request_key :: "DiffRequest \<Rightarrow> string" where
  "request_key (WholeDiff commit options) = commitDiffKey commit options"
| "request_key (FileDiff commit path oldPath options) = fileDiffKey commit path oldPath options"

fun request_command :: "string \<Rightarrow> DiffRequest \<Rightarrow> GitCommand" where
  "request_command dir (WholeDiff commit options) = timed dir (commitDiffArgs commit options) 180000"
| "request_command dir (FileDiff commit path oldPath options) = timed dir (fileDiffArgs commit path oldPath options) 120000"

fun serve_diff :: "'g Services \<Rightarrow> (ParsedDiff \<Rightarrow> nat) \<Rightarrow> string \<Rightarrow> DiffRequest \<Rightarrow> DiffService \<times> 'g \<Rightarrow> ParsedDiff GitResult \<times> DiffService \<times> 'g" where
  "serve_diff sv est dir (WholeDiff commit options) (s, g) = (case commitDiff sv est dir commit options s g of ((r, s), g) \<Rightarrow> (r, s, g))"
| "serve_diff sv est dir (FileDiff commit path oldPath options) (s, g) =
     (case commitFileDiff sv est dir commit path oldPath options s g of ((r, s), g) \<Rightarrow> (r, s, g))"

definition serve_all :: "'g Services \<Rightarrow> (ParsedDiff \<Rightarrow> nat) \<Rightarrow> string \<Rightarrow> DiffRequest list \<Rightarrow> DiffService \<times> 'g \<Rightarrow> DiffService \<times> 'g" where
  "serve_all sv est dir reqs sg = foldl (\<lambda>sg req. snd (serve_diff sv est dir req sg)) sg reqs"

text \<open>The keys tell requests apart whose options have different hashes and whose old path holds no arrow.\<close>

definition arrow_free :: "string \<Rightarrow> bool" where
  "arrow_free s \<longleftrightarrow> \<not> (\<exists>u v. s = u @ ''->'' @ v)"

fun plain_request :: "DiffSettings set \<Rightarrow> DiffRequest \<Rightarrow> bool" where
  "plain_request opts (WholeDiff commit options) \<longleftrightarrow> printable_oid commit \<and> options \<in> opts"
| "plain_request opts (FileDiff commit path oldPath options) \<longleftrightarrow> printable_oid commit \<and> options \<in> opts \<and> arrow_free oldPath"

lemma cut_unique:
  assumes "c \<notin> set a" "c \<notin> set b" "a @ c # x = b @ c # y"
  shows "a = b \<and> x = y"
proof -
  have cut: "takeWhile (\<lambda>d. d \<noteq> c) (w @ c # z) = w" if "c \<notin> set w" for w z using that by (induction w) auto
  have "a = b" using cut [OF assms(1)] cut [OF assms(2)] assms(3) by metis
  with assms(3) show ?thesis by simp
qed

lemma cut_unique_back:
  assumes "c \<notin> set x" "c \<notin> set y" "a @ c # x = b @ c # y"
  shows "a = b \<and> x = y"
  using cut_unique [of c "rev x" "rev y" "rev a" "rev b"] assms by (metis append_Cons append_Nil append_assoc rev.simps(2) rev_append rev_is_rev_conv set_rev)

lemma arrow_step: "us @ ''->'' @ x = ''->'' @ y \<Longrightarrow> us = [] \<or> (\<exists>v. us = ''->'' @ v)"
  by (cases us; cases "tl us") auto

lemma arrow_unique:
  assumes "arrow_free a" "arrow_free b" "a @ ''->'' @ x = b @ ''->'' @ y"
  shows "a = b \<and> x = y"
proof -
  obtain us where "a = b @ us \<and> us @ ''->'' @ x = ''->'' @ y \<or> a @ us = b \<and> ''->'' @ x = us @ ''->'' @ y"
    using assms(3) by (auto simp: append_eq_append_conv2)
  then have "us = []"
  proof
    assume *: "a = b @ us \<and> us @ ''->'' @ x = ''->'' @ y"
    then show ?thesis using arrow_step [of us x y] assms(1) unfolding arrow_free_def by blast
  next
    assume *: "a @ us = b \<and> ''->'' @ x = us @ ''->'' @ y"
    then have "us @ ''->'' @ y = ''->'' @ x" by (rule conjunct2 [THEN sym])
    then show ?thesis using arrow_step [of us y x] assms(2) * unfolding arrow_free_def by blast
  qed
  with \<open>a = b @ us \<and> _ \<or> _\<close> assms(3) show ?thesis by auto
qed

lemma colon_free: "CHR '':'' \<notin> set (hex oid)" "CHR '':'' \<notin> set (hashText options)"
  using hex_nibbles [of "CHR '':''" oid] to_string_digits [of "CHR '':''"] by (auto simp: kDigits_def hashText_def is_digit_def)

lemma hex_inj: "printable_oid a \<Longrightarrow> printable_oid b \<Longrightarrow> hex a = hex b \<Longrightarrow> a = b"
  by (metis fromHex_printed)

lemma hashText_inj: "hashText a = hashText b \<Longrightarrow> settingsHash a = settingsHash b"
  using dec_value_to_string by (metis hashText_def unsigned_word_eqI)

lemma same_settings: "inj_on settingsHash opts \<Longrightarrow> a \<in> opts \<Longrightarrow> b \<in> opts \<Longrightarrow> hashText a = hashText b \<Longrightarrow> a = b"
  using hashText_inj by (metis inj_onD)

lemma commit_key: "hex a @ CHR '':'' # x = hex b @ CHR '':'' # y \<Longrightarrow> hex a = hex b \<and> x = y"
  by (rule cut_unique [OF colon_free(1) colon_free(1)])

lemma keys_inj:
  assumes "inj_on settingsHash opts" "plain_request opts p" "plain_request opts q" "request_key p = request_key q"
  shows "p = q"
proof (cases p; cases q)
  fix a o1 b o2
  assume pq: "p = WholeDiff a o1" "q = WholeDiff b o2"
  with assms(4) have "hex a = hex b \<and> ''diff:'' @ hashText o1 = ''diff:'' @ hashText o2"
    by (intro commit_key) (simp add: commitDiffKey_def)
  then have "hex a = hex b" "hashText o1 = hashText o2" by simp_all
  with assms(2,3) pq have "a = b" "o1 = o2" by (simp_all add: hex_inj same_settings [OF assms(1)])
  with pq show ?thesis by simp
next
  fix a o1 b path old o2
  assume pq: "p = WholeDiff a o1" "q = FileDiff b path old o2"
  with assms(4) have "hex a = hex b \<and> ''diff:'' @ hashText o1 = ''file:'' @ old @ ''->'' @ path @ '':'' @ hashText o2"
    by (intro commit_key) (simp add: commitDiffKey_def fileDiffKey_def)
  then show ?thesis by simp
next
  fix a path old o1 b o2
  assume pq: "p = FileDiff a path old o1" "q = WholeDiff b o2"
  with assms(4) have "hex a = hex b \<and> ''file:'' @ old @ ''->'' @ path @ '':'' @ hashText o1 = ''diff:'' @ hashText o2"
    by (intro commit_key) (simp add: commitDiffKey_def fileDiffKey_def)
  then show ?thesis by simp
next
  fix a path old o1 b path' old' o2
  assume pq: "p = FileDiff a path old o1" "q = FileDiff b path' old' o2"
  with assms(4) have "hex a = hex b \<and> ''file:'' @ old @ ''->'' @ path @ '':'' @ hashText o1 = ''file:'' @ old' @ ''->'' @ path' @ '':'' @ hashText o2"
    by (intro commit_key) (simp add: fileDiffKey_def)
  then have "hex a = hex b" and paths: "old @ ''->'' @ (path @ '':'' @ hashText o1) = old' @ ''->'' @ (path' @ '':'' @ hashText o2)" by simp_all
  from arrow_unique [OF _ _ paths] assms(2,3) pq have "old = old'" "path @ CHR '':'' # hashText o1 = path' @ CHR '':'' # hashText o2" by auto
  with cut_unique_back [OF colon_free(2) colon_free(2)] have "path = path'" "hashText o1 = hashText o2" by blast+
  with \<open>hex a = hex b\<close> assms(2,3) pq have "a = b" "o1 = o2" by (simp_all add: hex_inj same_settings [OF assms(1)])
  with \<open>old = old'\<close> \<open>path = path'\<close> pq show ?thesis by simp
qed

definition fresh_diff :: "'g Services \<Rightarrow> string \<Rightarrow> DiffRequest \<Rightarrow> 'g \<Rightarrow> ParsedDiff GitResult" where
  "fresh_diff sv dir req g = fst (parsedOutput sv (request_command dir req) g)"

text \<open>What git prints for a request does not depend on when it is asked, since a commit never changes.\<close>

definition stable_request :: "'g Services \<Rightarrow> string \<Rightarrow> DiffRequest \<Rightarrow> bool" where
  "stable_request sv dir req \<longleftrightarrow> (\<forall>g g'. fresh_diff sv dir req g = fresh_diff sv dir req g')"

text \<open>What the cache may hold: under each key the diff of a request that has been made with this key.\<close>

definition asked_diff :: "'g Services \<Rightarrow> string \<Rightarrow> DiffRequest set \<Rightarrow> string \<Rightarrow> ParsedDiff \<Rightarrow> bool" where
  "asked_diff sv dir R key d \<longleftrightarrow> (\<exists>p \<in> R. request_key p = key \<and> (\<forall>g. fresh_diff sv dir p g = Inr d))"

lemma serve_cached:
  "serve_diff sv est dir req (s, g) =
     (case cached_value (request_key req) est (parsedOutput sv (request_command dir req)) (ds_diffCache s) g of
        ((r, c), g) \<Rightarrow> (r, s\<lparr>ds_diffCache := c\<rparr>, g))"
  by (cases req) (simp_all add: commitDiff_def commitFileDiff_def Let_def split: prod.split)

lemma cached_right:
  assumes "req \<in> R" "stable_request sv dir req" "lru.sound (asked_diff sv dir R) c"
    and "cached_value (request_key req) est (parsedOutput sv (request_command dir req)) c g = ((r, c'), g')"
  shows "lru.sound (asked_diff sv dir R) c' \<and> (\<exists>p \<in> R. request_key p = request_key req \<and> r = fresh_diff sv dir p g)"
proof -
  obtain found c1 where got: "lru_get (request_key req) c = (found, c1)" by fastforce
  note s = lru.sound_get [OF assms(3) got]
  show ?thesis
  proof (cases found)
    case (Some d)
    then have "r = Inr d" "c' = c1" using assms(4) got by (simp_all add: cached_value_def)
    moreover obtain p where "p \<in> R" "request_key p = request_key req" "fresh_diff sv dir p g = Inr d"
      using s Some by (auto simp: asked_diff_def)
    ultimately show ?thesis using s by metis
  next
    case None
    obtain r1 g1 where run: "parsedOutput sv (request_command dir req) g = (r1, g1)" by fastforce
    then have fresh: "fresh_diff sv dir req g = r1" by (simp add: fresh_diff_def)
    show ?thesis
    proof (cases r1)
      case (Inl e)
      then have "r = fresh_diff sv dir req g" "c' = c1" using None got run fresh assms(4) by (simp_all add: cached_value_def)
      with s assms(1) show ?thesis by blast
    next
      case (Inr d)
      then have out: "r = fresh_diff sv dir req g" "c' = lru_put (request_key req) d (est d) c1"
        using None got run fresh assms(4) by (simp_all add: cached_value_def)
      have "fresh_diff sv dir req h = Inr d" for h using assms(2) fresh Inr unfolding stable_request_def by metis
      then have "asked_diff sv dir R (request_key req) d" using assms(1) unfolding asked_diff_def by blast
      from lru.sound_put [OF conjunct1 [OF s] this] out assms(1) show ?thesis by blast
    qed
  qed
qed

lemma new_service_right: "lru.sound P (ds_diffCache new_diff_service)"
  by (simp add: lru.sound_def new_diff_service_def new_lru_ok lru_holds_def) (simp add: new_lru_def)

lemma serve_all_right:
  "\<forall>req \<in> set reqs. req \<in> R \<and> stable_request sv dir req \<Longrightarrow> lru.sound (asked_diff sv dir R) (ds_diffCache s) \<Longrightarrow>
    lru.sound (asked_diff sv dir R) (ds_diffCache (fst (serve_all sv est dir reqs (s, g))))"
proof (induction reqs arbitrary: s g)
  case (Cons req reqs)
  obtain r c g' where run: "cached_value (request_key req) est (parsedOutput sv (request_command dir req)) (ds_diffCache s) g = ((r, c), g')"
    by (metis prod.collapse)
  from cached_right [OF _ _ Cons.prems(2) run] Cons.prems(1) have "lru.sound (asked_diff sv dir R) c" by simp
  then have "lru.sound (asked_diff sv dir R) (ds_diffCache (fst (serve_all sv est dir reqs (s\<lparr>ds_diffCache := c\<rparr>, g'))))"
    using Cons.prems(1) by (intro Cons.IH) simp_all
  then show ?case using run by (simp add: serve_all_def serve_cached)
qed (simp add: serve_all_def)

text \<open>
  C34. Whatever diffs of commits were asked for before, a request is answered with a diff that git prints now: the one
  of this request, or of one made before that has the same key. Where the options in use have different hashes and no old
  path holds an arrow, keys differ as the requests do, and the answer is the diff of the request itself, exactly as if
  nothing had been cached. An old path with an arrow can be answered with another request's diff
  (lemma \<^verbatim>\<open>arrow_path_answered_wrong\<close> below). What git prints for a commit is taken not to change.
\<close>

theorem cached_diffs_fresh:
  assumes "\<forall>p \<in> set (req # reqs). stable_request sv dir p"
    and "serve_all sv est dir reqs (new_diff_service, g) = (s, g')"
  shows "(\<exists>p \<in> set (req # reqs). request_key p = request_key req \<and> fst (serve_diff sv est dir req (s, g')) = fresh_diff sv dir p g') \<and>
    (inj_on settingsHash opts \<and> list_all (plain_request opts) (req # reqs) \<longrightarrow>
      fst (serve_diff sv est dir req (s, g')) = fresh_diff sv dir req g')"
proof -
  let ?R = "set (req # reqs)"
  have sound: "lru.sound (asked_diff sv dir ?R) (ds_diffCache s)"
    using serve_all_right [of reqs ?R sv dir new_diff_service est g, OF _ new_service_right] assms by simp
  obtain r c g'' where run: "cached_value (request_key req) est (parsedOutput sv (request_command dir req)) (ds_diffCache s) g' = ((r, c), g'')"
    by (metis prod.collapse)
  from cached_right [OF _ _ sound run] assms(1) obtain p where p: "p \<in> ?R" "request_key p = request_key req" "r = fresh_diff sv dir p g'" by auto
  have ans: "fst (serve_diff sv est dir req (s, g')) = r" using run by (simp add: serve_cached)
  have "p = req" if "inj_on settingsHash opts" "list_all (plain_request opts) (req # reqs)"
    using that(2) p(1,2) by (intro keys_inj [OF that(1)]) (auto simp: list_all_iff)
  with p ans show ?thesis by blast
qed

text \<open>The prime of the hash is odd, so each step of it can be undone.\<close>

lemma prime_cancel: "x * 0x100000001b3 = y * 0x100000001b3 \<Longrightarrow> x = y" for x y :: "64 word"
proof -
  have one: "(0x100000001b3 :: 64 word) * 0xce965057aff6957b = 1" by simp
  assume "x * 0x100000001b3 = y * 0x100000001b3"
  then have "x * (0x100000001b3 * 0xce965057aff6957b) = y * (0x100000001b3 * 0xce965057aff6957b)" by (simp only: mult.assoc [symmetric])
  then show "x = y" unfolding one by simp
qed

lemma mix_cancel: "mix h v = mix h' v \<longleftrightarrow> h = h'"
proof
  assume "mix h v = mix h' v"
  then have "h XOR of_nat v = h' XOR of_nat v" unfolding mix_def by (rule prime_cancel)
  then have "(h XOR of_nat v) XOR of_nat v = (h' XOR of_nat v) XOR of_nat v" by simp
  then show "h = h'" by (simp add: xor.assoc)
qed simp

lemma mix_value:
  assumes "mix h v = mix h w"
  shows "(of_nat v :: 64 word) = of_nat w"
proof -
  from assms have "h XOR of_nat v = h XOR of_nat w" unfolding mix_def by (rule prime_cancel)
  then have "h XOR (h XOR of_nat v) = h XOR (h XOR of_nat w)" by simp
  then show ?thesis by (simp add: xor.assoc [symmetric])
qed

lemma default_hashes_differ: "inj_on settingsHash {plainDiff, fullFile}"
proof -
  have "settingsHash plainDiff \<noteq> settingsHash fullFile"
    using mix_value [of "0xcbf29ce484222325" 3 2147483647] by (auto simp: settingsHash_def plainDiff_def fullFile_def mix_cancel)
  then show ?thesis by (simp add: inj_on_def)
qed

theorem cached_diffs_fresh_witness:
  "fst (serve_diff sample_services (\<lambda>_. 100) [] (FileDiff sample_oid ''b'' ''a'' fullFile)
     (serve_all sample_services (\<lambda>_. 100) [] [WholeDiff sample_oid plainDiff, FileDiff sample_oid ''b'' [] fullFile] (new_diff_service, ()))) =
   fresh_diff sample_services [] (FileDiff sample_oid ''b'' ''a'' fullFile) ()"
proof -
  have "arrow_free []" "arrow_free ''a''" by (auto simp: arrow_free_def append_eq_Cons_conv Cons_eq_append_conv)
  then have plain: "list_all (plain_request {plainDiff, fullFile})
      [FileDiff sample_oid ''b'' ''a'' fullFile, WholeDiff sample_oid plainDiff, FileDiff sample_oid ''b'' [] fullFile]"
    using sample_printable by simp
  have stable: "\<forall>p \<in> set reqs. stable_request sample_services [] p" for reqs by (simp add: stable_request_def)
  obtain s g where run: "serve_all sample_services (\<lambda>_. 100) [] [WholeDiff sample_oid plainDiff, FileDiff sample_oid ''b'' [] fullFile] (new_diff_service, ()) = (s, g)"
    by (rule prod.exhaust)
  from mp [OF conjunct2 [OF cached_diffs_fresh [OF stable run]] conjI [OF default_hashes_differ plain]] show ?thesis
    unfolding run by (simp del: serve_diff.simps)
qed

text \<open>
  An arrow inside an old path joins the keys of two different requests: the second is answered with the
  diff of the first.
\<close>

lemma arrow_keys_collide: "fileDiffKey commit ''c'' ''a->b'' options = fileDiffKey commit ''b->c'' ''a'' options"
  by (simp add: fileDiffKey_def)

lemma arrow_path_answered_wrong:
  assumes "sv_run sv (request_command dir (FileDiff commit ''c'' ''a->b'' options)) g = (Inr out, g')"
    and "est (UnifiedDiff.parse default_options out) \<le> kDiffCacheBytes"
    and "serve_all sv est dir [FileDiff commit ''c'' ''a->b'' options] (new_diff_service, g) = (s, g')"
  shows "fst (serve_diff sv est dir (FileDiff commit ''b->c'' ''a'' options) (s, g')) = Inr (UnifiedDiff.parse default_options out)"
proof -
  let ?key = "fileDiffKey commit ''c'' ''a->b'' options" and ?d = "UnifiedDiff.parse default_options out"
  have linked: "lru_linked (new_lru kDiffCacheBytes :: (string, ParsedDiff) LruByBytes)"
    by (simp add: lru_linked_def new_lru_def lru_entries_def)
  have "ds_diffCache s = lru_put ?key ?d (est ?d) (new_lru kDiffCacheBytes)"
    using assms(1,3) by (auto simp: serve_all_def serve_cached cached_value_def new_diff_service_def lru_get_def new_lru_def parsedOutput_def)
  moreover have "lru_entries (lru_put ?key ?d (est ?d) (new_lru kDiffCacheBytes)) = [(?key, ?d, est ?d)]"
    using put_refines(3) [OF linked, of ?key ?d "est ?d"] assms(2) by (simp add: new_lru_ok)
  ultimately have "fst (lru_get ?key (ds_diffCache s)) = Some ?d"
    using get_refines(1) [of "ds_diffCache s" ?key] put_refines(1) [OF linked, of ?key ?d "est ?d"] by (simp add: lru_ok_def)
  then obtain c where "lru_get ?key (ds_diffCache s) = (Some ?d, c)" by (metis prod.collapse)
  then show ?thesis by (simp add: serve_cached cached_value_def arrow_keys_collide [symmetric])
qed

end
