(* ===== verification/StageOperations.thy ===== *)
theory StageOperations
  imports DiffServices ReplayOperations
begin

text \<open>
  \<^verbatim>\<open>src/core/git/ops/StageOps\<close>: staging and unstaging of files, hunks and lines, and the discarding of
  hunks and lines. A hunk or a selection of lines is looked up in a diff read afresh, written as a patch
  and given to \<^verbatim>\<open>git apply\<close>.
\<close>

definition applyPatch :: "string \<Rightarrow> string \<Rightarrow> bool \<Rightarrow> bool \<Rightarrow> GitCommand" where
  "applyPatch dir patch cached reverse =
     (timed dir ([''apply''] @ (if cached then [''--cached''] else []) @ [''--whitespace=nowarn''] @ (if reverse then [''--reverse''] else []) @ [''-'']) 60000)
       \<lparr>gc_stdinData := Some patch\<rparr>"

definition restoreStaged :: "string \<Rightarrow> string list \<Rightarrow> GitCommand" where
  "restoreStaged dir targets = timed dir ([''restore'', ''--staged'', ''--''] @ targets) 120000"

definition describePaths :: "string \<Rightarrow> string list \<Rightarrow> string" where
  "describePaths verb paths =
     (if length paths = 1 then verb @ '' '' @ hd paths else verb @ '' '' @ to_string (length paths) @ '' files'')"

definition makeStageFilesOperation :: "string list \<Rightarrow> Operation" where
  "makeStageFilesOperation paths = (new_operation (describePaths ''Stage'' paths))\<lparr>o_retriesOnLockHeld := True\<rparr>"

definition stageFiles :: "'g Git \<Rightarrow> string \<Rightarrow> string list \<Rightarrow> 'g \<Rightarrow> OperationOutcome \<times> 'g" where
  "stageFiles git dir paths g =
     (if paths = [] then (invalidArgument ''No files selected to stage'', g)
      else runOne git (timed dir ([''add'', ''--''] @ paths) 120000) (\<lambda>_. describePaths ''Stage'' paths) g)"

definition makeUnstageFilesOperation :: "string list \<Rightarrow> Operation" where
  "makeUnstageFilesOperation paths = (new_operation (describePaths ''Unstage'' paths))\<lparr>o_retriesOnLockHeld := True\<rparr>"

definition unstageFiles :: "'g Git \<Rightarrow> string \<Rightarrow> string list \<Rightarrow> 'g \<Rightarrow> OperationOutcome \<times> 'g" where
  "unstageFiles git dir paths g =
     (if paths = [] then (invalidArgument ''No files selected to unstage'', g)
      else runOne git (restoreStaged dir paths) (\<lambda>_. describePaths ''Unstage'' paths) g)"

definition applyPatchOperation :: "'g Git \<Rightarrow> string \<Rightarrow> string \<Rightarrow> bool \<Rightarrow> 'g \<Rightarrow> OperationOutcome \<times> 'g" where
  "applyPatchOperation git dir patch reverse g =
     (if patch = [] then (invalidArgument ''Nothing to apply'', g)
      else runOne git (applyPatch dir patch True reverse) (\<lambda>_. if reverse then ''Unstage selected changes'' else ''Stage selected changes'') g)"

section \<open>Hunks and lines\<close>

record PartialStageRequest =
  pq_path :: string
  pq_oldPath :: string
  pq_staged :: bool
  pq_hunkIndex :: nat
  pq_lineIndices :: "nat list"

record DiscardLinesRequest =
  dq_path :: string
  dq_hunkIndex :: nat
  dq_lineIndices :: "nat list"

definition isChange :: "DiffLine \<Rightarrow> bool" where
  "isChange line \<longleftrightarrow> dl_kind line = Added \<or> dl_kind line = Removed"

definition selectionCoversWholeAddedFile :: "DiffFile \<Rightarrow> DiffHunk \<Rightarrow> bool list \<Rightarrow> bool" where
  "selectionCoversWholeAddedFile f hunk selected \<longleftrightarrow>
     df_kind f = FileAdded \<and> length (df_hunks f) = 1 \<and>
     list_all (\<lambda>(i, line). isChange line \<longrightarrow> i < length selected \<and> selected ! i) (enumerate 0 (dh_lines hunk))"

text \<open>No index means every line of the hunk; an index beyond it is ignored.\<close>

definition selectedLines :: "DiffHunk \<Rightarrow> nat list \<Rightarrow> bool list" where
  "selectedLines hunk indices =
     foldl (\<lambda>selected i. if i < length selected then selected[i := True] else selected) (replicate (length (dh_lines hunk)) (indices = [])) indices"

definition pairsARename :: "PartialStageRequest \<Rightarrow> bool" where
  "pairsARename req \<longleftrightarrow> pq_staged req \<and> pq_oldPath req \<noteq> [] \<and> pq_oldPath req \<noteq> pq_path req"

definition stagePathspec :: "PartialStageRequest \<Rightarrow> string list" where
  "stagePathspec req = (if pairsARename req then [pq_oldPath req, pq_path req] else [pq_path req])"

definition noPendingChanges :: "string \<Rightarrow> OperationOutcome" where
  "noPendingChanges path = invalidArgument (''No pending changes found for '' @ quoted path)"

definition noLongerExists :: OperationOutcome where
  "noLongerExists = invalidArgument ''That change no longer exists -- the file may have changed''"

text \<open>The file the request is about, in the diff that was read.\<close>

definition stagedFile :: "PartialStageRequest \<Rightarrow> DiffFile list \<Rightarrow> OperationOutcome + DiffFile" where
  "stagedFile req files =
     (case files of
        [] \<Rightarrow> Inl (noPendingChanges (pq_path req))
      | f # _ \<Rightarrow>
          if pairsARename req
          then (case find (\<lambda>f. df_newPath f = pq_path req) files of
                  None \<Rightarrow> Inl noLongerExists
                | Some f \<Rightarrow> if df_kind f \<noteq> FileRenamed \<or> df_oldPath f \<noteq> pq_oldPath req then Inl noLongerExists else Inr f)
          else Inr f)"

definition describePartial :: "PartialStageRequest \<Rightarrow> string" where
  "describePartial req =
     (if pq_staged req then ''Unstage '' else ''Stage '') @ (if pq_lineIndices req = [] then ''hunk in '' else ''selected lines in '') @ pq_path req"

definition makePartialStageOperation :: "PartialStageRequest \<Rightarrow> Operation" where
  "makePartialStageOperation req = (new_operation (describePartial req))\<lparr>o_retriesOnLockHeld := True\<rparr>"

definition partialPatch :: "DiffFile \<Rightarrow> DiffHunk \<Rightarrow> nat list \<Rightarrow> bool \<Rightarrow> string" where
  "partialPatch f hunk indices unstaging =
     (if indices = [] then buildHunkPatch f hunk False unstaging
      else buildLineSelectionPatch f hunk (selectedLines hunk indices) unstaging)"

definition stageHunk :: "'g Git \<Rightarrow> string \<Rightarrow> PartialStageRequest \<Rightarrow> DiffFile \<Rightarrow> 'g \<Rightarrow> OperationOutcome \<times> 'g" where
  "stageHunk git dir req f g =
     (if pq_hunkIndex req \<ge> length (df_hunks f) then (noLongerExists, g)
      else let hunk = df_hunks f ! pq_hunkIndex req;
               selected = selectedLines hunk (pq_lineIndices req)
           in if pq_staged req \<and> selectionCoversWholeAddedFile f hunk selected
              then runOne git (restoreStaged dir [pq_path req]) (\<lambda>_. describePartial req) g
              else let patch = partialPatch f hunk (pq_lineIndices req) (pq_staged req)
                   in if patch = [] then (invalidArgument ''Nothing selected to apply'', g)
                      else runOne git (applyPatch dir patch True (pq_staged req)) (\<lambda>_. describePartial req) g)"

definition partialStage :: "'g Services \<Rightarrow> RepoPaths \<Rightarrow> PartialStageRequest \<Rightarrow> 'g \<Rightarrow> OperationOutcome \<times> 'g" where
  "partialStage sv rp req g =
     (if pq_path req = [] then (invalidArgument ''No file specified'', g)
      else case workingTreeDiff sv rp (pq_staged req) (stagePathspec req) plainDiff g of
             (Inl e, g) \<Rightarrow> (failedWith e (ge_message e), g)
           | (Inr diff, g) \<Rightarrow>
               (case stagedFile req (pd_files diff) of
                  Inl out \<Rightarrow> (out, g)
                | Inr f \<Rightarrow> stageHunk (sv_run sv) (commandDir rp) req f g))"

definition describeDiscard :: "DiscardLinesRequest \<Rightarrow> string" where
  "describeDiscard req =
     ''Discard '' @
     (if dq_lineIndices req = [] then ''hunk in '' else if length (dq_lineIndices req) = 1 then ''1 line in ''
      else to_string (length (dq_lineIndices req)) @ '' lines in '') @ dq_path req"

definition discardHunk :: "'g Git \<Rightarrow> string \<Rightarrow> DiscardLinesRequest \<Rightarrow> DiffFile \<Rightarrow> 'g \<Rightarrow> OperationOutcome \<times> 'g" where
  "discardHunk git dir req f g =
     (if dq_hunkIndex req \<ge> length (df_hunks f) then (noLongerExists, g)
      else let patch = partialPatch f (df_hunks f ! dq_hunkIndex req) (dq_lineIndices req) True
           in if patch = [] then (invalidArgument ''Nothing selected to discard'', g)
              else runOne git (applyPatch dir patch False True) (\<lambda>_. describeDiscard req) g)"

definition discardLines :: "'g Services \<Rightarrow> RepoPaths \<Rightarrow> DiscardLinesRequest \<Rightarrow> 'g \<Rightarrow> OperationOutcome \<times> 'g" where
  "discardLines sv rp req g =
     (if dq_path req = [] then (invalidArgument ''No file specified'', g)
      else case workingTreeDiff sv rp False [dq_path req] plainDiff g of
             (Inl e, g) \<Rightarrow> (failedWith e (ge_message e), g)
           | (Inr diff, g) \<Rightarrow>
               (case pd_files diff of
                  [] \<Rightarrow> (noPendingChanges (dq_path req), g)
                | f # _ \<Rightarrow> discardHunk (sv_run sv) (commandDir rp) req f g))"

end
