(* ===== verification/StagePromises.thy ===== *)
theory StagePromises
  imports StageOperations DiffPatches
begin

text \<open>
  What the staging of hunks and lines asks of git, whatever git answers: beside reading, one command that
  touches the index only, with a patch that makes exactly the chosen change to the diff just read. The
  discarding of lines asks for one patch that touches the work tree only.
\<close>

section \<open>Services that keep a log\<close>

text \<open>The commands asked so far; every answer may depend on them.\<close>

definition log_services ::
  "(GitCommand list \<Rightarrow> GitCommand \<Rightarrow> string GitResult) \<Rightarrow> (GitCommand list \<Rightarrow> GitCommand \<Rightarrow> string list \<times> GitError option) \<Rightarrow>
   (string \<Rightarrow> GitCommand list \<Rightarrow> bool) \<Rightarrow> (string \<Rightarrow> GitCommand list \<Rightarrow> nat option) \<Rightarrow> GitCommand list Services" where
  "log_services answers lns regular bytes =
     \<lparr>sv_run = \<lambda>command log. (answers log command, log @ [command]), sv_records = \<lambda>command log. (Inr [], log @ [command]),
      sv_lines = \<lambda>command log. (lns log command, log @ [command]), sv_isRegularFile = regular, sv_fileSize = bytes\<rparr>"

lemma log_services_simps [simp]:
  "sv_run (log_services answers lns regular bytes) command log = (answers log command, log @ [command])"
  "sv_lines (log_services answers lns regular bytes) command log = (lns log command, log @ [command])"
  "sv_isRegularFile (log_services answers lns regular bytes) = regular" "sv_fileSize (log_services answers lns regular bytes) = bytes"
  by (simp_all add: log_services_def)

definition reading :: "GitCommand \<Rightarrow> bool" where
  "reading command \<longleftrightarrow> hd (gc_args command) \<in> {''-c'', ''diff'', ''ls-files''}"

lemma reading_commands [simp]:
  "reading (timed dir (workTreeArgs staged' paths options) ms)" "reading (timed dir (''ls-files'' # more') ms)" "reading (untrackedCommand dir path options)"
  "\<not> reading (applyPatch dir patch cached reverse)" "\<not> reading (restoreStaged dir targets)"
  by (simp_all add: reading_def workTreeArgs_def worktreeReadFlags_def untrackedCommand_def timed_def git_command_def applyPatch_def restoreStaged_def)

lemma workingTreeDiff_log:
  "\<exists>new. snd (workingTreeDiff (log_services answers lns regular bytes) rp staged' paths options log) = log @ new \<and> list_all reading new"
proof -
  let ?sv = "log_services answers lns regular bytes"
  have untracked: "\<exists>new. snd (untrackedFileDiff ?sv dir path options log) = log @ new \<and> list_all reading new" for dir path log
    by (cases "lns log (untrackedCommand dir path options)") (auto simp: untrackedFileDiff_def Let_def split: option.split)
  have answer: "\<exists>new. snd (untrackedAnswer ?sv rp path options parsed log) = log @ new \<and> list_all reading new" for path parsed log
  proof (cases "isBare rp \<or> \<not> regular (path_join (rp_workDir rp) path) log")
    case True
    then show ?thesis by (simp add: untrackedAnswer_def Let_def)
  next
    case False
    let ?ls = "timed (commandDir rp) [''ls-files'', ''-z'', ''--'', path] 30000"
    show ?thesis
    proof (cases "answers log ?ls = Inr [] \<and> (\<exists>n. bytes (path_join (rp_workDir rp) path) (log @ [?ls]) = Some n \<and> n \<le> do_maxBytes default_options)")
      case True
      then obtain n where n: "answers log ?ls = Inr []" "bytes (path_join (rp_workDir rp) path) (log @ [?ls]) = Some n" "\<not> n > do_maxBytes default_options"
        by auto
      have "untrackedAnswer ?sv rp path options parsed log = untrackedFileDiff ?sv (commandDir rp) path options (log @ [?ls])"
        unfolding untrackedAnswer_def isPathInIndex_def Let_def using False n by simp
      then show ?thesis using untracked [of "commandDir rp" path "log @ [?ls]"] by auto
    next
      case no: False
      have "snd (untrackedAnswer ?sv rp path options parsed log) = log @ [?ls]"
        unfolding untrackedAnswer_def isPathInIndex_def Let_def using False no
        by (cases "answers log ?ls") (auto split: option.split bool.split)
      then show ?thesis by simp
    qed
  qed
  let ?c = "timed (commandDir rp) (workTreeArgs staged' paths options) 180000"
  show ?thesis
  proof (cases "answers log ?c")
    case (Inl e)
    then show ?thesis by (simp add: workingTreeDiff_def parsedOutput_def)
  next
    case (Inr printed)
    let ?p = "UnifiedDiff.parse default_options printed"
    show ?thesis
    proof (cases "staged' \<or> length paths \<noteq> 1 \<or> pd_files ?p \<noteq> []")
      case True
      then show ?thesis using Inr by (simp add: workingTreeDiff_def parsedOutput_def)
    next
      case False
      then have "snd (workingTreeDiff ?sv rp staged' paths options log) = snd (untrackedAnswer ?sv rp (hd paths) options ?p (log @ [?c]))"
        using Inr by (simp add: workingTreeDiff_def parsedOutput_def)
      then show ?thesis using answer [of "hd paths" ?p "log @ [?c]"] by auto
    qed
  qed
qed

section \<open>What a selection means\<close>

definition chosen :: "DiffHunk \<Rightarrow> nat list \<Rightarrow> bool list" where
  "chosen hunk indices = map (\<lambda>i. indices = [] \<or> i \<in> set indices) [0..<length (dh_lines hunk)]"

lemma select_fold:
  "foldl (\<lambda>selected i. if i < length selected then selected[i := True] else selected) bs indices =
   map (\<lambda>i. bs ! i \<or> i \<in> set indices) [0..<length bs]"
proof (induction indices arbitrary: bs)
  case Nil
  show ?case by (rule nth_equalityI) simp_all
next
  case (Cons j indices)
  show ?case by (auto simp: Cons.IH nth_list_update)
qed

lemma selectedLines_chosen: "selectedLines hunk indices = chosen hunk indices"
  by (simp add: selectedLines_def chosen_def select_fold)

lemma chosen_all: "isSelected (chosen hunk []) i \<longleftrightarrow> i < length (dh_lines hunk)"
  by (auto simp: isSelected_def chosen_def)

lemma whole_sides:
  "(\<forall>j < length ls. isSelected sel (i + j)) \<Longrightarrow>
   staged_lines sel i ls = map dl_text (filter (\<lambda>l. dl_kind l \<in> {Context, Added}) ls) \<and>
   unstaged_lines sel i ls = map dl_text (filter (\<lambda>l. dl_kind l \<in> {Context, Removed}) ls)"
proof (induction ls arbitrary: i)
  case (Cons l ls)
  have "isSelected sel i" "\<forall>j < length ls. isSelected sel (Suc i + j)" using Cons.prems by auto
  with Cons.IH [of "Suc i"] show ?case by auto
qed simp

text \<open>A patch that makes the chosen change of a hunk: staged forwards, or taken back in reverse.\<close>

definition changes_exactly :: "bool \<Rightarrow> bool list \<Rightarrow> DiffFile \<Rightarrow> DiffHunk \<Rightarrow> string \<Rightarrow> bool" where
  "changes_exactly unstaging sel f hunk patch \<longleftrightarrow>
     (\<exists>h. reads_as f unstaging h (UnifiedDiff.parse default_options patch) \<and>
        (if unstaging then hunk_new h = hunk_new hunk \<and> hunk_old h = unstaged_lines sel 0 (dh_lines hunk)
         else hunk_old h = hunk_old hunk \<and> hunk_new h = staged_lines sel 0 (dh_lines hunk)))"

definition patchable :: "DiffFile \<Rightarrow> DiffHunk \<Rightarrow> string \<Rightarrow> bool" where
  "patchable f hunk patch \<longleftrightarrow> file_ok f \<and> hunk_ok default_options hunk \<and> length patch \<le> do_maxBytes default_options"

lemma view_sides:
  assumes "map line_view ls = map line_view ls'"
  shows "map dl_text (filter (\<lambda>l. dl_kind l \<in> {Context, Removed}) ls) = map dl_text (filter (\<lambda>l. dl_kind l \<in> {Context, Removed}) ls')"
    "map dl_text (filter (\<lambda>l. dl_kind l \<in> {Context, Added}) ls) = map dl_text (filter (\<lambda>l. dl_kind l \<in> {Context, Added}) ls')"
  using assms by (induction ls ls' rule: list_induct2') (auto simp: line_view_def split: if_splits)

lemma hunk_patch_exact:
  assumes "patchable f hunk (buildHunkPatch f hunk False u)"
  shows "changes_exactly u (chosen hunk []) f hunk (buildHunkPatch f hunk False u)"
proof -
  obtain h where h: "reads_as f u h (UnifiedDiff.parse default_options (buildHunkPatch f hunk False u))" "map line_view (dh_lines h) = map line_view (dh_lines hunk)"
    using hunk_patch_reads_back [of f default_options hunk u] assms unfolding patchable_def by blast
  have sides: "hunk_old h = hunk_old hunk" "hunk_new h = hunk_new hunk" using view_sides [OF h(2)] by (simp_all add: hunk_old_def hunk_new_def)
  have all: "staged_lines (chosen hunk []) 0 (dh_lines hunk) = hunk_new hunk" "unstaged_lines (chosen hunk []) 0 (dh_lines hunk) = hunk_old hunk"
    using whole_sides [of "dh_lines hunk" "chosen hunk []" 0] by (simp_all add: chosen_all hunk_old_def hunk_new_def)
  show ?thesis unfolding changes_exactly_def using h(1) sides all by (intro exI [of _ h]) simp
qed

lemma selection_patch_exact:
  assumes "patchable f hunk (buildLineSelectionPatch f hunk sel u)" "buildLineSelectionPatch f hunk sel u \<noteq> []"
  shows "changes_exactly u sel f hunk (buildLineSelectionPatch f hunk sel u)"
proof -
  have sel: "selects_change sel 0 (dh_lines hunk)" using assms(2) by (auto simp: selectionPatch_text Let_def split: if_splits)
  define body where "body = selectionBody u sel 0 False (dh_lines hunk)"
  define h where "h = hunk_of (dh_oldStart hunk) (u32 (length (old_lines body))) (dh_newStart hunk) (u32 (length (new_lines body))) body"
  have "reads_as f u h (UnifiedDiff.parse default_options (buildLineSelectionPatch f hunk sel u))"
    unfolding h_def by (rule selection_reads_as) (use assms(1) sel in \<open>simp_all add: patchable_def body_def\<close>)
  moreover have "if u then hunk_new h = hunk_new hunk \<and> hunk_old h = unstaged_lines sel 0 (dh_lines hunk)
      else hunk_old h = hunk_old hunk \<and> hunk_new h = staged_lines sel 0 (dh_lines hunk)"
    using selectionBody_stage [of sel 0 False "dh_lines hunk"] selectionBody_unstage [of sel 0 False "dh_lines hunk"]
    by (cases u) (simp_all add: h_def body_def hunk_old_def [of hunk] hunk_new_def [of hunk])
  ultimately show ?thesis unfolding changes_exactly_def by blast
qed

lemma partialPatch_exact:
  assumes "patchable f hunk (partialPatch f hunk indices u)" "partialPatch f hunk indices u \<noteq> []"
  shows "changes_exactly u (chosen hunk indices) f hunk (partialPatch f hunk indices u)"
  using assms hunk_patch_exact [of f hunk u] selection_patch_exact [of f hunk "chosen hunk indices" u]
  by (cases "indices = []") (simp_all add: partialPatch_def selectedLines_chosen)

section \<open>Staging and discarding\<close>

text \<open>The one command a partial stage may ask beside reading.\<close>

definition stages_exactly :: "string \<Rightarrow> PartialStageRequest \<Rightarrow> DiffFile \<Rightarrow> GitCommand \<Rightarrow> bool" where
  "stages_exactly dir req f command \<longleftrightarrow>
     (let hunk = df_hunks f ! pq_hunkIndex req; sel = chosen hunk (pq_lineIndices req)
      in pq_hunkIndex req < length (df_hunks f) \<and>
         (pq_staged req \<and> selectionCoversWholeAddedFile f hunk sel \<and> command = restoreStaged dir [pq_path req] \<or>
          (\<exists>patch. command = applyPatch dir patch True (pq_staged req) \<and>
             (patchable f hunk patch \<longrightarrow> changes_exactly (pq_staged req) sel f hunk patch))))"

lemma runOne_log: "snd (runOne (sv_run (log_services answers lns regular bytes)) command summary log) = log @ [command]"
  by (simp add: runOne_def split: sum.split)

lemmas outcome_simps = invalidArgument_def failedWith_def succeededWith_def noLongerExists_def noPendingChanges_def new_outcome_def

lemma runOne_succeeds: "oo_succeeded (fst (runOne (sv_run (log_services answers lns regular bytes)) command summary log)) \<longleftrightarrow> (\<exists>printed. answers log command = Inr printed)"
  by (cases "answers log command") (simp_all add: runOne_def outcome_simps)

lemma stagedFile_refuses: "stagedFile req files = Inl refusal \<Longrightarrow> \<not> oo_succeeded refusal"
  by (auto simp: stagedFile_def outcome_simps split: list.splits if_splits option.splits)

lemma stageHunk_log:
  assumes "stageHunk (sv_run (log_services answers lns regular bytes)) dir req f log = (out, log')"
  shows "\<exists>cmds. log' = log @ cmds \<and> (cmds = [] \<and> \<not> oo_succeeded out \<or>
    (\<exists>command. cmds = [command] \<and> (oo_succeeded out \<longleftrightarrow> (\<exists>printed. answers log command = Inr printed)) \<and> stages_exactly dir req f command))"
proof (cases "pq_hunkIndex req \<ge> length (df_hunks f)")
  case True
  then show ?thesis using assms by (auto simp: stageHunk_def outcome_simps)
next
  case False
  define hunk where "hunk = df_hunks f ! pq_hunkIndex req"
  define patch where "patch = partialPatch f hunk (pq_lineIndices req) (pq_staged req)"
  define whole where "whole \<longleftrightarrow> pq_staged req \<and> selectionCoversWholeAddedFile f hunk (chosen hunk (pq_lineIndices req))"
  have ran: "stageHunk (sv_run (log_services answers lns regular bytes)) dir req f log =
      (if whole then runOne (sv_run (log_services answers lns regular bytes)) (restoreStaged dir [pq_path req]) (\<lambda>_. describePartial req) log
       else if patch = [] then (invalidArgument ''Nothing selected to apply'', log)
       else runOne (sv_run (log_services answers lns regular bytes)) (applyPatch dir patch True (pq_staged req)) (\<lambda>_. describePartial req) log)"
    using False by (simp add: stageHunk_def hunk_def patch_def whole_def Let_def selectedLines_chosen)
  have stages: "stages_exactly dir req f command"
    if "whole \<and> command = restoreStaged dir [pq_path req] \<or> command = applyPatch dir patch True (pq_staged req) \<and> patch \<noteq> []" for command
    using that False partialPatch_exact [of f hunk "pq_lineIndices req" "pq_staged req"]
    unfolding stages_exactly_def hunk_def [symmetric] Let_def patch_def whole_def by auto
  have one: "\<exists>cmds. log' = log @ cmds \<and> (\<exists>c. cmds = [c] \<and> (oo_succeeded out \<longleftrightarrow> (\<exists>printed. answers log c = Inr printed)) \<and> stages_exactly dir req f c)"
    if "runOne (sv_run (log_services answers lns regular bytes)) command (\<lambda>_. describePartial req) log = (out, log')" "stages_exactly dir req f command" for command
    using that runOne_log [of answers lns regular bytes command "\<lambda>_. describePartial req" log]
      runOne_succeeds [of answers lns regular bytes command "\<lambda>_. describePartial req" log] by auto
  show ?thesis
  proof (cases "\<not> whole \<and> patch = []")
    case True
    then show ?thesis using assms unfolding ran by (auto simp: outcome_simps)
  next
    case False
    then show ?thesis
      using assms stages one [of "restoreStaged dir [pq_path req]"] one [of "applyPatch dir patch True (pq_staged req)"] unfolding ran by (cases whole) auto
  qed
qed

text \<open>
  C3. Staging or unstaging a hunk, or lines of it, asks git for a diff and then at most once for a change, of the index
  only. It is made from the hunk that has the requested position in the diff read at that moment: a patch that, for a
  hunk in the form git prints, reads back as exactly the chosen lines of it, applied forward to stage and in reverse to
  unstage; or, when all of an added file is unstaged, the restoring of that file. The request succeeds exactly if git
  accepts that change; when the diff cannot be read, or has no such file or hunk, it fails and nothing is changed.
\<close>

theorem partial_stage_exact:
  assumes "partialStage (log_services answers lns regular bytes) rp req log = (out, log')"
  shows "\<exists>new cmds. log' = log @ new @ cmds \<and> list_all reading new \<and>
    (cmds = [] \<and> \<not> oo_succeeded out \<or>
     (\<exists>diff f command. cmds = [command] \<and> (oo_succeeded out \<longleftrightarrow> (\<exists>printed. answers (log @ new) command = Inr printed)) \<and>
       fst (workingTreeDiff (log_services answers lns regular bytes) rp (pq_staged req) (stagePathspec req) plainDiff log) = Inr diff \<and>
       stagedFile req (pd_files diff) = Inr f \<and> stages_exactly (commandDir rp) req f command))"
proof -
  let ?sv = "log_services answers lns regular bytes"
  obtain r new where diff: "workingTreeDiff ?sv rp (pq_staged req) (stagePathspec req) plainDiff log = (r, log @ new)" "list_all reading new"
    using workingTreeDiff_log [of answers lns regular bytes rp "pq_staged req" "stagePathspec req" plainDiff log] by (metis prod.collapse)
  consider "pq_path req = []" | e where "pq_path req \<noteq> []" "r = Inl e" | d refusal where "pq_path req \<noteq> []" "r = Inr d" "stagedFile req (pd_files d) = Inl refusal"
    | d f where "pq_path req \<noteq> []" "r = Inr d" "stagedFile req (pd_files d) = Inr f"
    by (cases r; cases "stagedFile req (pd_files (projr r))") auto
  then show ?thesis
  proof cases
    case 1
    then show ?thesis using assms by (intro exI [of _ "[]"]) (auto simp: partialStage_def outcome_simps)
  next
    case 2
    then show ?thesis using assms diff by (intro exI [of _ new] exI [of _ "[]"]) (auto simp: partialStage_def outcome_simps)
  next
    case 3
    then have "out = refusal" "log' = log @ new" using assms diff by (auto simp: partialStage_def)
    with 3(3) diff(2) stagedFile_refuses show ?thesis by (intro exI [of _ new] exI [of _ "[]"]) auto
  next
    case 4
    then have "stageHunk (sv_run ?sv) (commandDir rp) req f (log @ new) = (out, log')" using assms diff by (auto simp: partialStage_def)
    from stageHunk_log [OF this] obtain cmds where "log' = (log @ new) @ cmds"
      "cmds = [] \<and> \<not> oo_succeeded out \<or> (\<exists>command. cmds = [command] \<and> (oo_succeeded out \<longleftrightarrow> (\<exists>printed. answers (log @ new) command = Inr printed)) \<and>
         stages_exactly (commandDir rp) req f command)" by blast
    with 4 diff show ?thesis by (intro exI [of _ new] exI [of _ cmds]) auto
  qed
qed

text \<open>
  What the user saw when choosing has no part in this: when the file has changed since, the same position may be that of
  another hunk, and that one is staged.
\<close>

lemma other_hunk_staged:
  assumes "fst (workingTreeDiff (log_services answers lns regular bytes) rp False [pq_path req] plainDiff log) = Inr diff" and "pd_files diff = f # fs"
    and "\<not> pq_staged req" and "pq_path req \<noteq> []" and "pq_hunkIndex req < length (df_hunks f)"
    and "partialPatch f (df_hunks f ! pq_hunkIndex req) (pq_lineIndices req) False \<noteq> []"
  shows "last (snd (partialStage (log_services answers lns regular bytes) rp req log)) =
    applyPatch (commandDir rp) (partialPatch f (df_hunks f ! pq_hunkIndex req) (pq_lineIndices req) False) True False"
proof -
  obtain log' where "workingTreeDiff (log_services answers lns regular bytes) rp False [pq_path req] plainDiff log = (Inr diff, log')"
    using assms(1) by (metis prod.collapse)
  then show ?thesis
    using assms(2-6) by (simp add: partialStage_def stagePathspec_def pairsARename_def stagedFile_def stageHunk_def Let_def runOne_log)
qed

definition discards_exactly :: "string \<Rightarrow> DiscardLinesRequest \<Rightarrow> DiffFile \<Rightarrow> GitCommand \<Rightarrow> bool" where
  "discards_exactly dir req f command \<longleftrightarrow>
     (let hunk = df_hunks f ! dq_hunkIndex req
      in dq_hunkIndex req < length (df_hunks f) \<and>
         (\<exists>patch. command = applyPatch dir patch False True \<and>
            (patchable f hunk patch \<longrightarrow> changes_exactly True (chosen hunk (dq_lineIndices req)) f hunk patch)))"

text \<open>
  C14. Discarding a hunk or lines of it never touches the index: whatever git answers, beside
  commands that read, only a patch is asked for, applied in reverse to the work tree, and it reads back as
  the chosen change of that hunk in the diff just read.
\<close>

theorem discard_exact:
  assumes "discardLines (log_services answers lns regular bytes) rp req log = (out, log')"
    and "command \<in> set (drop (length log) log')" and "\<not> reading command"
  shows "\<exists>diff f. fst (workingTreeDiff (log_services answers lns regular bytes) rp False [dq_path req] plainDiff log) = Inr diff \<and>
    f \<in> set (pd_files diff) \<and> discards_exactly (commandDir rp) req f command"
proof -
  let ?sv = "log_services answers lns regular bytes"
  obtain r new where diff: "workingTreeDiff ?sv rp False [dq_path req] plainDiff log = (r, log @ new)" "list_all reading new"
    using workingTreeDiff_log [of answers lns regular bytes rp False "[dq_path req]" plainDiff log] by (metis prod.collapse)
  have only_read: "log' \<noteq> log @ new" "log' \<noteq> log" using assms(2,3) diff(2) by (auto simp: list_all_iff)
  obtain d f fs where d: "r = Inr d" "pd_files d = f # fs" and hunk: "discardHunk (sv_run ?sv) (commandDir rp) req f (log @ new) = (out, log')"
    using assms(1) only_read diff(1) by (auto simp: discardLines_def split: if_splits sum.splits list.splits)
  define patch where "patch = partialPatch f (df_hunks f ! dq_hunkIndex req) (dq_lineIndices req) True"
  have cond: "dq_hunkIndex req < length (df_hunks f)" "patch \<noteq> []" and log': "log' = (log @ new) @ [applyPatch (commandDir rp) patch False True]"
    using hunk only_read runOne_log [of answers lns regular bytes "applyPatch (commandDir rp) patch False True" "\<lambda>_. describeDiscard req" "log @ new"]
    by (auto simp: discardHunk_def Let_def patch_def split: if_splits)
  have "command = applyPatch (commandDir rp) patch False True" using assms(2,3) diff(2) log' by (auto simp: list_all_iff)
  moreover have "patchable f (df_hunks f ! dq_hunkIndex req) patch \<longrightarrow>
      changes_exactly True (chosen (df_hunks f ! dq_hunkIndex req) (dq_lineIndices req)) f (df_hunks f ! dq_hunkIndex req) patch"
    using partialPatch_exact cond(2) unfolding patch_def by blast
  ultimately have "discards_exactly (commandDir rp) req f command" using cond(1) unfolding discards_exactly_def Let_def by blast
  then show ?thesis using diff(1) d by auto
qed

section \<open>On a concrete diff\<close>

definition demo_text :: string where
  "demo_text = buildHunkPatch demo_diff_file demo_hunk False False"

definition demo_answers :: "GitCommand list \<Rightarrow> GitCommand \<Rightarrow> string GitResult" where
  "demo_answers log command = (if hd (gc_args command) = ''-c'' then Inr demo_text else Inr [])"

definition demo_services :: "GitCommand list Services" where
  "demo_services = log_services demo_answers (\<lambda>_ _. ([], None)) (\<lambda>_ _. False) (\<lambda>_ _. None)"

definition demo_paths :: RepoPaths where
  "demo_paths = repo_paths ''/w'' ''/w/.git'' []"

definition demo_stage :: PartialStageRequest where
  "demo_stage = \<lparr>pq_path = ''src/a.c'', pq_oldPath = [], pq_staged = False, pq_hunkIndex = 0, pq_lineIndices = []\<rparr>"

definition demo_discard :: DiscardLinesRequest where
  "demo_discard = \<lparr>dq_path = ''src/a.c'', dq_hunkIndex = 0, dq_lineIndices = []\<rparr>"

lemma demo_parsed: "\<exists>f h. pd_files (UnifiedDiff.parse default_options demo_text) = [f] \<and> df_hunks f = [h]"
  using hunk_patch_reads_back [OF demo_ok demo_patch_size, of False] unfolding demo_text_def reads_as_def by blast

lemma hunk_patch_nonempty: "buildHunkPatch f hunk reverse u \<noteq> []"
  by (simp add: buildHunkPatch_def rangeLine_def Let_def split: prod.split)

lemma demo_dir: "commandDir demo_paths = ''/w''"
  by (simp add: demo_paths_def repo_paths_def commandDir_def)

lemma demo_diff_read:
  "workingTreeDiff demo_services demo_paths False [''src/a.c''] plainDiff [] =
     (Inr (UnifiedDiff.parse default_options demo_text), [timed ''/w'' (workTreeArgs False [''src/a.c''] plainDiff) 180000])"
  using demo_parsed
  by (auto simp: workingTreeDiff_def parsedOutput_def demo_services_def demo_dir) (auto simp: demo_answers_def workTreeArgs_def worktreeReadFlags_def)

definition demo_diff_reading :: GitCommand where
  "demo_diff_reading = timed ''/w'' (workTreeArgs False [''src/a.c''] plainDiff) 180000"

theorem partial_stage_exact_witness:
  "\<exists>f command. f \<in> set (pd_files (UnifiedDiff.parse default_options demo_text)) \<and> stages_exactly ''/w'' demo_stage f command \<and>
     last (snd (partialStage demo_services demo_paths demo_stage [])) = command"
proof -
  obtain f h where f: "pd_files (UnifiedDiff.parse default_options demo_text) = [f]" "df_hunks f = [h]" using demo_parsed by blast
  let ?c = "applyPatch ''/w'' (buildHunkPatch f h False False) True False"
  have "\<exists>out. partialStage demo_services demo_paths demo_stage [] =
      (out, [timed ''/w'' (workTreeArgs False [''src/a.c''] plainDiff) 180000, ?c])"
    using f demo_diff_read hunk_patch_nonempty [of f h False False]
    by (simp add: partialStage_def demo_stage_def stagePathspec_def pairsARename_def stagedFile_def stageHunk_def partialPatch_def demo_dir Let_def)
      (simp add: demo_services_def runOne_def split: sum.split)
  then obtain out where run: "partialStage demo_services demo_paths demo_stage [] = (out, [timed ''/w'' (workTreeArgs False [''src/a.c''] plainDiff) 180000, ?c])" ..
  have change: "\<not> reading ?c" "demo_diff_reading = timed ''/w'' (workTreeArgs False [''src/a.c''] plainDiff) 180000" by (simp_all add: demo_diff_reading_def)
  have cut: "new = [demo_diff_reading] \<and> cmds = [?c]" if "[demo_diff_reading, ?c] = new @ cmds" "list_all reading new" "length cmds \<le> 1" for new cmds
    using that change(1) by (cases new; cases "tl new") (auto simp: Cons_eq_append_conv)
  from partial_stage_exact [OF run [unfolded demo_services_def], folded demo_services_def]
  obtain new cmds where parts: "[demo_diff_reading, ?c] = new @ cmds" "list_all reading new"
    "cmds = [] \<or> (\<exists>diff f command. cmds = [command] \<and> fst (workingTreeDiff demo_services demo_paths (pq_staged demo_stage) (stagePathspec demo_stage) plainDiff []) = Inr diff \<and>
       stagedFile demo_stage (pd_files diff) = Inr f \<and> stages_exactly (commandDir demo_paths) demo_stage f command)"
    unfolding change(2) append_Nil by blast
  then have "cmds = [?c]" using cut [OF parts(1,2)] by auto
  with parts(3) show ?thesis using demo_diff_read f run by (auto simp: demo_dir demo_stage_def stagePathspec_def pairsARename_def stagedFile_def)
qed

theorem discard_exact_witness:
  "\<exists>f command. f \<in> set (pd_files (UnifiedDiff.parse default_options demo_text)) \<and> discards_exactly ''/w'' demo_discard f command"
proof -
  obtain f h where f: "pd_files (UnifiedDiff.parse default_options demo_text) = [f]" "df_hunks f = [h]" using demo_parsed by blast
  let ?c = "applyPatch ''/w'' (buildHunkPatch f h False True) False True"
  have "\<exists>out. discardLines demo_services demo_paths demo_discard [] =
      (out, [timed ''/w'' (workTreeArgs False [''src/a.c''] plainDiff) 180000, ?c])"
    using f demo_diff_read hunk_patch_nonempty [of f h False True]
    by (simp add: discardLines_def demo_discard_def discardHunk_def partialPatch_def demo_dir Let_def) (simp add: demo_services_def runOne_def split: sum.split)
  then obtain out where run: "discardLines demo_services demo_paths demo_discard [] = (out, [timed ''/w'' (workTreeArgs False [''src/a.c''] plainDiff) 180000, ?c])" ..
  from discard_exact [OF run [unfolded demo_services_def], of ?c, folded demo_services_def]
  show ?thesis using demo_diff_read by (auto simp: demo_dir demo_discard_def)
qed

end
