(* ===== verification/ThreadPools.thy ===== *)
theory ThreadPools
  imports GBM_Prelude
begin

text \<open>
  The pool of worker threads, \<^verbatim>\<open>src/core/workers/ThreadPool\<close>, as a step relation. A thread that waits on a
  condition variable sleeps until a notification or a spurious wake-up, and then looks at its condition
  under the lock. A notification that is sent after the lock was released is a step of its own.
\<close>

section \<open>The pool\<close>

datatype Worker = Asleep | Awake | Busy nat | Exited

datatype IdleCall = DrainCall | CancelCall

text \<open>A caller that waits for the pool to be idle.\<close>

record Waiter =
  w_call :: nat
  w_kind :: IdleCall
  w_asleep :: bool

text \<open>
  Tasks are numbered in the order they were accepted, and the calls that wait in the order they were
  made; \<open>tp_started\<close> and \<open>tp_discarded\<close> are the tasks that left the queue either way; \<open>tp_notifies\<close> are
  the calls of \<^verbatim>\<open>notify_one\<close> that have not taken effect yet.
\<close>

record ThreadPool =
  tp_tasks :: "nat list"
  tp_activeTasks :: nat
  tp_stopping :: bool
  tp_workers :: "Worker list"
  tp_notifies :: nat
  tp_notifyAll :: bool
  tp_waiters :: "Waiter list"
  tp_posted :: nat
  tp_started :: "nat list"
  tp_discarded :: "nat list"
  tp_calls :: nat

definition defaultThreadCount :: "nat \<Rightarrow> nat" where
  "defaultThreadCount hardware = (if hardware \<le> 1 then 2 else max 2 (min 6 (hardware - 1)))"

definition new_pool :: "nat \<Rightarrow> nat \<Rightarrow> ThreadPool" where
  "new_pool threads hardware =
     \<lparr>tp_tasks = [], tp_activeTasks = 0, tp_stopping = False,
      tp_workers = replicate (if threads = 0 then defaultThreadCount hardware else threads) Awake,
      tp_notifies = 0, tp_notifyAll = False, tp_waiters = [], tp_posted = 0, tp_started = [], tp_discarded = [], tp_calls = 0\<rparr>"

definition post :: "ThreadPool \<Rightarrow> ThreadPool" where
  "post p =
     (if tp_stopping p then p
      else p\<lparr>tp_tasks := tp_tasks p @ [tp_posted p], tp_posted := tp_posted p + 1, tp_notifies := tp_notifies p + 1\<rparr>)"

definition postFront :: "ThreadPool \<Rightarrow> ThreadPool" where
  "postFront p =
     (if tp_stopping p then p
      else p\<lparr>tp_tasks := tp_posted p # tp_tasks p, tp_posted := tp_posted p + 1, tp_notifies := tp_notifies p + 1\<rparr>)"

definition queueDepth :: "ThreadPool \<Rightarrow> nat" where
  "queueDepth p = length (tp_tasks p)"

text \<open>The condition a waiting caller looks at.\<close>

fun idle_for :: "IdleCall \<Rightarrow> ThreadPool \<Rightarrow> bool" where
  "idle_for DrainCall p \<longleftrightarrow> tp_tasks p = [] \<and> tp_activeTasks p = 0"
| "idle_for CancelCall p \<longleftrightarrow> tp_activeTasks p = 0"

text \<open>A call looks at its condition at once, and returns or goes to sleep.\<close>

definition wait_idle :: "IdleCall \<Rightarrow> ThreadPool \<Rightarrow> ThreadPool" where
  "wait_idle kind p =
     p\<lparr>tp_calls := tp_calls p + 1,
       tp_waiters := if idle_for kind p then tp_waiters p
                     else tp_waiters p @ [\<lparr>w_call = tp_calls p, w_kind = kind, w_asleep = True\<rparr>]\<rparr>"

definition drain :: "ThreadPool \<Rightarrow> ThreadPool" where
  "drain p = wait_idle DrainCall p"

definition cancelQueuedAndDrain :: "ThreadPool \<Rightarrow> ThreadPool" where
  "cancelQueuedAndDrain p = wait_idle CancelCall (p\<lparr>tp_tasks := [], tp_discarded := tp_discarded p @ tp_tasks p\<rparr>)"

text \<open>A woken caller looks again.\<close>

definition lookAgain :: "Waiter \<Rightarrow> ThreadPool \<Rightarrow> ThreadPool" where
  "lookAgain w p =
     p\<lparr>tp_waiters := if idle_for (w_kind w) p then filter (\<lambda>v. w_call v \<noteq> w_call w) (tp_waiters p)
                     else map (\<lambda>v. if w_call v = w_call w then v\<lparr>w_asleep := True\<rparr> else v) (tp_waiters p)\<rparr>"

definition shutdown :: "ThreadPool \<Rightarrow> ThreadPool" where
  "shutdown p = (if tp_stopping p then p else p\<lparr>tp_stopping := True, tp_notifyAll := True\<rparr>)"

section \<open>The workers\<close>

text \<open>An awake worker takes a task, goes to sleep, or leaves its loop.\<close>

definition takeTask :: "nat \<Rightarrow> ThreadPool \<Rightarrow> ThreadPool" where
  "takeTask i p =
     (case tp_tasks p of
        [] \<Rightarrow> p\<lparr>tp_workers := (tp_workers p)[i := if tp_stopping p then Exited else Asleep]\<rparr>
      | t # ts \<Rightarrow> p\<lparr>tp_tasks := ts, tp_activeTasks := tp_activeTasks p + 1, tp_workers := (tp_workers p)[i := Busy t],
                     tp_started := tp_started p @ [t]\<rparr>)"

definition wake_waiters :: "ThreadPool \<Rightarrow> ThreadPool" where
  "wake_waiters p = p\<lparr>tp_waiters := map (\<lambda>w. w\<lparr>w_asleep := False\<rparr>) (tp_waiters p)\<rparr>"

text \<open>A task ends, by returning or by an exception that is reported.\<close>

definition endTask :: "nat \<Rightarrow> ThreadPool \<Rightarrow> ThreadPool" where
  "endTask i p =
     (let q = p\<lparr>tp_activeTasks := tp_activeTasks p - 1, tp_workers := (tp_workers p)[i := Awake]\<rparr>
      in if tp_tasks q = [] \<and> tp_activeTasks q = 0 then wake_waiters q else q)"

definition notifyOne :: "nat \<Rightarrow> ThreadPool \<Rightarrow> ThreadPool" where
  "notifyOne i p = p\<lparr>tp_notifies := tp_notifies p - 1, tp_workers := (tp_workers p)[i := Awake]\<rparr>"

definition notifyNone :: "ThreadPool \<Rightarrow> ThreadPool" where
  "notifyNone p = p\<lparr>tp_notifies := tp_notifies p - 1\<rparr>"

definition notifyEvery :: "ThreadPool \<Rightarrow> ThreadPool" where
  "notifyEvery p = p\<lparr>tp_notifyAll := False, tp_workers := map (\<lambda>w. if w = Asleep then Awake else w) (tp_workers p)\<rparr>"

definition wakes_up :: "nat \<Rightarrow> ThreadPool \<Rightarrow> ThreadPool" where
  "wakes_up i p = p\<lparr>tp_workers := (tp_workers p)[i := Awake]\<rparr>"

text \<open>What the workers do by themselves, notifications on their way included.\<close>

inductive workers_step :: "ThreadPool \<Rightarrow> ThreadPool \<Rightarrow> bool" where
  takes: "i < length (tp_workers p) \<Longrightarrow> tp_workers p ! i = Awake \<Longrightarrow> workers_step p (takeTask i p)"
| ends: "i < length (tp_workers p) \<Longrightarrow> tp_workers p ! i = Busy t \<Longrightarrow> workers_step p (endTask i p)"
| notifies: "0 < tp_notifies p \<Longrightarrow> i < length (tp_workers p) \<Longrightarrow> tp_workers p ! i = Asleep \<Longrightarrow> workers_step p (notifyOne i p)"
| notifies_none: "0 < tp_notifies p \<Longrightarrow> Asleep \<notin> set (tp_workers p) \<Longrightarrow> workers_step p (notifyNone p)"
| notifies_all: "tp_notifyAll p \<Longrightarrow> workers_step p (notifyEvery p)"

definition caller_wakes :: "nat \<Rightarrow> ThreadPool \<Rightarrow> ThreadPool" where
  "caller_wakes c p = p\<lparr>tp_waiters := map (\<lambda>w. if w_call w = c then w\<lparr>w_asleep := False\<rparr> else w) (tp_waiters p)\<rparr>"

text \<open>
  Any interleaving with the callers. With \<open>alone\<close>, the queue is only cancelled while nobody waits for
  the pool, as when repositories are closed one at a time.
\<close>

inductive pool_step :: "bool \<Rightarrow> ThreadPool \<Rightarrow> ThreadPool \<Rightarrow> bool" for alone where
  posts: "pool_step alone p (post p)"
| posts_front: "pool_step alone p (postFront p)"
| drains: "pool_step alone p (drain p)"
| cancels: "alone \<longrightarrow> tp_waiters p = [] \<Longrightarrow> pool_step alone p (cancelQueuedAndDrain p)"
| shuts: "pool_step alone p (shutdown p)"
| works: "workers_step p q \<Longrightarrow> pool_step alone p q"
| looks: "w \<in> set (tp_waiters p) \<Longrightarrow> \<not> w_asleep w \<Longrightarrow> pool_step alone p (lookAgain w p)"
| spurious_worker: "i < length (tp_workers p) \<Longrightarrow> tp_workers p ! i = Asleep \<Longrightarrow> pool_step alone p (wakes_up i p)"
| spurious_caller: "pool_step alone p (caller_wakes c p)"

inductive_cases workers_stepE: "workers_step p q"
inductive_cases pool_stepE: "pool_step alone p q"

abbreviation pool_init :: "ThreadPool \<Rightarrow> bool" where
  "pool_init p \<equiv> \<exists>threads hardware. p = new_pool threads hardware"

abbreviation pool_reachable :: "bool \<Rightarrow> ThreadPool \<Rightarrow> bool" where
  "pool_reachable alone \<equiv> reachable pool_init (pool_step alone)"

end
