(* ===== verification/Accounting.thy ===== *)
theory Accounting
  imports GBM_Prelude "HOL-Library.Multiset"
begin

text \<open>
  Things handed out under consecutive numbers and kept in several places: when the places together hold
  each number once, nothing is lost and nothing is there twice.
\<close>

definition numbered :: "nat \<Rightarrow> nat multiset" where
  "numbered n = mset [0..<n]"

lemma numbered_0 [simp]: "numbered 0 = {#}"
  by (simp add: numbered_def)

lemma numbered_Suc [simp]: "numbered (Suc n) = add_mset n (numbered n)"
  unfolding numbered_def by (simp only: upt_Suc_append mset_append) simp

lemma numbered_distinct:
  assumes "mset xs = numbered n"
  shows "distinct xs \<and> set xs = {0..<n}"
  using assms unfolding numbered_def by (metis atLeastLessThan_upt distinct_upt mset_eq_imp_distinct_iff mset_eq_setD)

end
