(* ===== verification/PoolPromises.thy ===== *)
theory PoolPromises
  imports ThreadPools Accounting
begin

text \<open>
  What the pool of threads promises: a task is run at most once, no queued task is forgotten by
  sleeping workers, a caller that cancels the queue leaves nothing of its own behind, and the wake-ups a
  waiting caller can miss.
\<close>

section \<open>Counting workers\<close>

fun busy_with :: "Worker \<Rightarrow> nat list" where
  "busy_with (Busy t) = [t]"
| "busy_with _ = []"

definition busy_list :: "Worker list \<Rightarrow> nat list" where
  "busy_list ws = concat (map busy_with ws)"

definition awake :: "Worker list \<Rightarrow> nat" where
  "awake ws = count_list ws Awake"

lemma busy_update:
  assumes "i < length ws"
  shows "mset (busy_list (ws[i := w])) + mset (busy_with (ws ! i)) = mset (busy_list ws) + mset (busy_with w)"
  using assms unfolding busy_list_def by (induction ws arbitrary: i) (auto split: nat.splits simp: add_ac)

lemma awake_update:
  assumes "i < length ws"
  shows "awake (ws[i := w]) + (if ws ! i = Awake then 1 else 0) = awake ws + (if w = Awake then 1 else 0)"
  using assms unfolding awake_def
proof (induction ws arbitrary: i)
  case (Cons v ws)
  show ?case
  proof (cases i)
    case (Suc k)
    with Cons.IH [of k] Cons.prems show ?thesis by auto
  qed simp
qed simp

lemma busy_length_update:
  assumes "i < length ws"
  shows "length (busy_list (ws[i := w])) + length (busy_with (ws ! i)) = length (busy_list ws) + length (busy_with w)"
  using arg_cong [OF busy_update [OF assms], of size w] by simp

lemma busy_set_update: "i < length ws \<Longrightarrow> busy_with (ws ! i) = [] \<Longrightarrow> set (busy_list (ws[i := w])) = set (busy_list ws) \<union> set (busy_with w)"
  using busy_update [of i ws w] by (metis add.right_neutral mset.simps(1) mset_append set_append set_mset_mset)

lemma busy_set_released: "i < length ws \<Longrightarrow> busy_with w = [] \<Longrightarrow> set (busy_list (ws[i := w])) \<subseteq> set (busy_list ws)"
  using busy_update [of i ws w] by (metis add.right_neutral mset.simps(1) mset_subset_eq_add_left set_mset_mono set_mset_mset)

lemma busy_woken: "busy_list (map (\<lambda>w. if w = Asleep then Awake else w) ws) = busy_list ws"
  unfolding busy_list_def by (induction ws) auto

lemma busy_none: "i < length ws \<Longrightarrow> ws ! i = Busy t \<Longrightarrow> t \<in> set (busy_list ws)"
  unfolding busy_list_def by (auto intro!: bexI [of _ "ws ! i"] nth_mem)

section \<open>The book-keeping\<close>

definition workers_counted :: "ThreadPool \<Rightarrow> bool" where
  "workers_counted p \<longleftrightarrow> tp_activeTasks p = length (busy_list (tp_workers p)) \<and> set (busy_list (tp_workers p)) \<subseteq> set (tp_started p)"

definition wakeups_sent :: "ThreadPool \<Rightarrow> bool" where
  "wakeups_sent p \<longleftrightarrow>
     (Asleep \<in> set (tp_workers p) \<longrightarrow> length (tp_tasks p) \<le> tp_notifies p + awake (tp_workers p) \<and> (tp_stopping p \<longrightarrow> tp_notifyAll p)) \<and>
     (Exited \<in> set (tp_workers p) \<longrightarrow> tp_stopping p \<and> tp_tasks p = []) \<and> tp_workers p \<noteq> []"

definition tasks_accounted :: "ThreadPool \<Rightarrow> bool" where
  "tasks_accounted p \<longleftrightarrow> mset (tp_started p) + mset (tp_tasks p) + mset (tp_discarded p) = numbered (tp_posted p)"

definition pool_inv :: "ThreadPool \<Rightarrow> bool" where
  "pool_inv p \<longleftrightarrow> workers_counted p \<and> wakeups_sent p \<and> tasks_accounted p"

lemmas pool_inv_defs = pool_inv_def workers_counted_def wakeups_sent_def tasks_accounted_def

lemma inv_new_pool: "pool_inv (new_pool threads hardware)"
proof -
  have "busy_list (replicate n Awake) = []" for n by (simp add: busy_list_def)
  moreover have "0 < defaultThreadCount hardware" by (simp add: defaultThreadCount_def max_def)
  ultimately show ?thesis by (simp add: pool_inv_defs new_pool_def numbered_def)
qed

text \<open>The calls that leave the workers as they are.\<close>

lemma inv_posts: "pool_inv p \<Longrightarrow> pool_inv (post p)" "pool_inv p \<Longrightarrow> pool_inv (postFront p)"
  by (auto simp: pool_inv_defs post_def postFront_def)

lemma inv_waits:
  assumes "pool_inv p"
  shows "pool_inv (shutdown p)" "pool_inv (wait_idle kind p)" "pool_inv (lookAgain w p)"
    "pool_inv (wake_waiters p)" "pool_inv (caller_wakes c p)"
  using assms
  by (simp_all add: pool_inv_defs shutdown_def wait_idle_def lookAgain_def wake_waiters_def caller_wakes_def)

lemma inv_cleared: "pool_inv p \<Longrightarrow> pool_inv (p\<lparr>tp_tasks := [], tp_discarded := tp_discarded p @ tp_tasks p\<rparr>)"
  by (simp add: pool_inv_defs add_ac)

text \<open>The steps of a worker.\<close>

lemma update_other: "v \<in> set (ws[i := w]) \<Longrightarrow> w \<noteq> v \<Longrightarrow> v \<in> set ws"
  using set_update_subset_insert [of ws i w] by auto

lemma inv_takeTask:
  assumes "pool_inv p" "i < length (tp_workers p)" "tp_workers p ! i = Awake"
  shows "pool_inv (takeTask i p)"
proof (cases "tp_tasks p")
  case Nil
  let ?w = "if tp_stopping p then Exited else Asleep"
  have "length (busy_list ((tp_workers p)[i := ?w])) = length (busy_list (tp_workers p))"
    "set (busy_list ((tp_workers p)[i := ?w])) = set (busy_list (tp_workers p))"
    using busy_length_update [OF assms(2)] busy_set_update [OF assms(2)] assms(3) by simp_all
  with Nil assms(1) show ?thesis by (auto simp: pool_inv_defs takeTask_def dest: update_other)
next
  case (Cons t ts)
  let ?ws = "(tp_workers p)[i := Busy t]"
  have "length (busy_list ?ws) = length (busy_list (tp_workers p)) + 1" "set (busy_list ?ws) = insert t (set (busy_list (tp_workers p)))"
    using busy_length_update [OF assms(2), of "Busy t"] busy_set_update [OF assms(2), of "Busy t"] assms(3) by simp_all
  moreover have "awake ?ws + 1 = awake (tp_workers p)" using awake_update [OF assms(2), of "Busy t"] assms(3) by simp
  ultimately show ?thesis using Cons assms(1) by (auto simp: pool_inv_defs takeTask_def add_ac dest: update_other)
qed

lemma inv_endTask:
  assumes "pool_inv p" "i < length (tp_workers p)" "tp_workers p ! i = Busy t"
  shows "pool_inv (endTask i p)"
proof -
  let ?q = "p\<lparr>tp_activeTasks := tp_activeTasks p - 1, tp_workers := (tp_workers p)[i := Awake]\<rparr>"
  have "length (busy_list (tp_workers ?q)) + 1 = length (busy_list (tp_workers p))" "set (busy_list (tp_workers ?q)) \<subseteq> set (busy_list (tp_workers p))"
    using busy_length_update [OF assms(2), of Awake] busy_set_released [OF assms(2), of Awake] assms(3) by simp_all
  moreover have "awake (tp_workers ?q) = awake (tp_workers p) + 1" using awake_update [OF assms(2), of Awake] assms(3) by simp
  ultimately have "pool_inv ?q" using assms(1) by (auto simp: pool_inv_defs dest: update_other)
  with inv_waits(4) [OF this] show ?thesis by (auto simp only: endTask_def Let_def split: if_split)
qed

lemma inv_woken:
  assumes "pool_inv p" "i < length (tp_workers p)" "tp_workers p ! i = Asleep" "n \<le> tp_notifies p" "tp_notifies p \<le> n + 1"
  shows "pool_inv (p\<lparr>tp_notifies := n, tp_workers := (tp_workers p)[i := Awake]\<rparr>)"
proof -
  let ?ws = "(tp_workers p)[i := Awake]"
  have "length (busy_list ?ws) = length (busy_list (tp_workers p))" "set (busy_list ?ws) = set (busy_list (tp_workers p))"
    using busy_length_update [OF assms(2), of Awake] busy_set_update [OF assms(2), of Awake] assms(3) by simp_all
  moreover have "awake ?ws = awake (tp_workers p) + 1" using awake_update [OF assms(2), of Awake] assms(3) by simp
  ultimately show ?thesis using assms(1,4,5) by (auto simp: pool_inv_defs dest: update_other)
qed

lemma inv_workers_step: "workers_step p q \<Longrightarrow> pool_inv p \<Longrightarrow> pool_inv q"
proof (induction rule: workers_step.induct)
  case (notifies p i)
  then show ?case using inv_woken [of p i "tp_notifies p - 1"] by (simp add: notifyOne_def)
next
  case (notifies_all p)
  have "Asleep \<notin> set (tp_workers (notifyEvery p))" by (auto simp: notifyEvery_def)
  with notifies_all show ?case by (simp add: pool_inv_defs) (auto simp: notifyEvery_def busy_woken)
next
  case (notifies_none p)
  then show ?case by (simp add: pool_inv_defs notifyNone_def)
qed (auto intro: inv_takeTask inv_endTask)

lemma inv_pool_step: "pool_step alone p q \<Longrightarrow> pool_inv p \<Longrightarrow> pool_inv q"
proof (induction rule: pool_step.induct)
  case (spurious_worker i p)
  then show ?case using inv_woken [of p i "tp_notifies p"] by (simp add: wakes_up_def)
qed (auto intro: inv_posts inv_waits inv_cleared inv_workers_step simp: drain_def cancelQueuedAndDrain_def)

interpretation pool: state_machine pool_init "pool_step alone" pool_inv
  by unfold_locales (auto intro: inv_new_pool inv_pool_step)

section \<open>What holds of every state\<close>

text \<open>
  In every interleaving of callers and workers, each accepted task is in exactly one place:
  still queued, discarded, or started, and it was started only once.
\<close>

theorem each_task_once:
  assumes "pool_reachable alone p"
  shows "distinct (tp_started p @ tp_tasks p @ tp_discarded p) \<and> set (tp_started p @ tp_tasks p @ tp_discarded p) = {0..<tp_posted p}"
proof (rule numbered_distinct)
  show "mset (tp_started p @ tp_tasks p @ tp_discarded p) = numbered (tp_posted p)"
    using pool.reachable_inv [OF assms] by (simp add: pool_inv_defs add_ac)
qed

text \<open>
  The work left to the workers: each of their steps does some of it.
\<close>

fun worker_work :: "Worker \<Rightarrow> nat" where
  "worker_work (Busy t) = 2"
| "worker_work Awake = 1"
| "worker_work _ = 0"

definition pool_work :: "ThreadPool \<Rightarrow> nat" where
  "pool_work p = 2 * length (tp_tasks p) + sum_list (map worker_work (tp_workers p)) + 2 * tp_notifies p +
     (if tp_notifyAll p then 1 + length (tp_workers p) else 0)"

lemma sum_update:
  "i < length ws \<Longrightarrow> sum_list (map worker_work (ws[i := w])) + worker_work (ws ! i) = sum_list (map worker_work ws) + worker_work w"
  by (induction ws arbitrary: i) (auto split: nat.splits)

lemma sum_woken: "sum_list (map worker_work (map (\<lambda>w. if w = Asleep then Awake else w) ws)) \<le> length ws + sum_list (map worker_work ws)"
  by (induction ws) auto

lemma work_decreases: "workers_step p q \<Longrightarrow> pool_work q < pool_work p"
proof (induction rule: workers_step.induct)
  case (takes i p)
  then show ?case using sum_update [of i "tp_workers p" "Busy (hd (tp_tasks p))"] sum_update [of i "tp_workers p" "if tp_stopping p then Exited else Asleep"]
    by (cases "tp_tasks p") (auto simp: pool_work_def takeTask_def split: if_splits)
next
  case (ends i p t)
  then show ?case using sum_update [of i "tp_workers p" Awake] by (simp add: pool_work_def endTask_def wake_waiters_def Let_def)
next
  case (notifies p i)
  then show ?case using sum_update [of i "tp_workers p" Awake] by (simp add: pool_work_def notifyOne_def)
next
  case (notifies_all p)
  then show ?case using sum_woken [of "tp_workers p"] by (simp add: pool_work_def notifyEvery_def)
qed (simp add: pool_work_def notifyNone_def)

definition at_rest :: "ThreadPool \<Rightarrow> bool" where
  "at_rest p \<longleftrightarrow> set (tp_workers p) \<subseteq> {Asleep, Exited} \<and> \<not> tp_notifyAll p \<and> tp_notifies p = 0"

lemma at_restI: "(\<And>q. \<not> workers_step p q) \<Longrightarrow> at_rest p"
proof -
  assume stuck: "\<And>q. \<not> workers_step p q"
  have "w \<in> {Asleep, Exited}" if w: "w \<in> set (tp_workers p)" for w
  proof (cases w)
    case (Busy t)
    with w stuck show ?thesis by (metis ends in_set_conv_nth)
  next
    case Awake
    with w stuck show ?thesis by (metis takes in_set_conv_nth)
  qed simp_all
  moreover have "\<not> tp_notifyAll p" using stuck notifies_all by blast
  moreover have "tp_notifies p = 0" using stuck notifies notifies_none by (metis gr0I in_set_conv_nth)
  ultimately show ?thesis by (auto simp: at_rest_def)
qed

lemma rest_idle:
  assumes "pool_inv p" "at_rest p"
  shows "tp_tasks p = []" "tp_activeTasks p = 0"
proof -
  have "awake (tp_workers p) = 0" using assms(2) by (auto simp: at_rest_def awake_def count_list_0_iff)
  moreover have "Asleep \<in> set (tp_workers p) \<or> Exited \<in> set (tp_workers p)"
    using assms by (cases "tp_workers p") (auto simp: at_rest_def pool_inv_defs)
  ultimately show "tp_tasks p = []" using assms by (auto simp: at_rest_def pool_inv_defs)
  have "busy_list (tp_workers p) = []" using assms(2) by (fastforce simp: at_rest_def busy_list_def)
  then show "tp_activeTasks p = 0" using assms(1) by (simp add: pool_inv_defs)
qed

text \<open>
  No queued task is forgotten by sleeping workers: every step of the workers and of the
  notifications on their way does some of a finite amount of work, and when none is left to do, the queue
  is empty, no task runs, and a pool that is shut down has no worker left.
\<close>

theorem pool_drains:
  assumes "pool_reachable alone p"
  shows "(\<exists>q. workers_step p q \<and> pool_work q < pool_work p) \<or>
    (tp_tasks p = [] \<and> tp_activeTasks p = 0 \<and> (tp_stopping p \<longrightarrow> set (tp_workers p) \<subseteq> {Exited}))"
proof (cases "\<exists>q. workers_step p q")
  case True
  then show ?thesis using work_decreases by blast
next
  case False
  then have "at_rest p" using at_restI by blast
  moreover note inv = pool.reachable_inv [OF assms]
  moreover have "set (tp_workers p) \<subseteq> {Exited}" if "tp_stopping p"
    using that \<open>at_rest p\<close> inv by (auto simp: at_rest_def pool_inv_defs)
  ultimately show ?thesis using rest_idle by blast
qed

section \<open>Callers that wait\<close>

definition waiting_calls :: "ThreadPool \<Rightarrow> nat list" where
  "waiting_calls p = map w_call (tp_waiters p)"

lemma waiting_simps [simp]:
  "waiting_calls (p\<lparr>tp_tasks := ts, tp_discarded := ds\<rparr>) = waiting_calls p"
  "waiting_calls (wake_waiters p) = waiting_calls p"
  "waiting_calls (caller_wakes d p) = waiting_calls p"
  "set (waiting_calls (wait_idle kind p)) = set (waiting_calls p) \<union> (if idle_for kind p then {} else {tp_calls p})"
  "set (waiting_calls (lookAgain w p)) = set (waiting_calls p) - (if idle_for (w_kind w) p then {w_call w} else {})"
  by (auto simp: waiting_calls_def wake_waiters_def caller_wakes_def wait_idle_def lookAgain_def comp_def if_distrib cong: if_cong)

text \<open>What a call of \<^verbatim>\<open>cancelQueuedAndDrain\<close> leaves behind while it waits and after it returned.\<close>

definition closing :: "nat \<Rightarrow> nat \<Rightarrow> ThreadPool \<Rightarrow> bool" where
  "closing n c p \<longleftrightarrow> n \<le> tp_posted p \<and> (\<forall>t\<in>set (tp_tasks p). n \<le> t) \<and>
     (c \<in> set (waiting_calls p) \<or> (\<forall>t\<in>set (busy_list (tp_workers p)). n \<le> t))"

lemma no_busy: "pool_inv p \<Longrightarrow> tp_activeTasks p = 0 \<Longrightarrow> busy_list (tp_workers p) = []"
  by (simp add: pool_inv_defs)

lemma closing_posts: "closing n c p \<Longrightarrow> closing n c (post p)" "closing n c p \<Longrightarrow> closing n c (postFront p)"
  by (auto simp: closing_def post_def postFront_def waiting_calls_def)

lemma waits_keep [simp]:
  "tp_tasks (wait_idle kind p) = tp_tasks p" "tp_workers (wait_idle kind p) = tp_workers p" "tp_posted (wait_idle kind p) = tp_posted p"
  "tp_tasks (lookAgain w p) = tp_tasks p" "tp_workers (lookAgain w p) = tp_workers p" "tp_posted (lookAgain w p) = tp_posted p"
  "tp_tasks (wake_waiters p) = tp_tasks p" "tp_workers (wake_waiters p) = tp_workers p" "tp_posted (wake_waiters p) = tp_posted p"
  "tp_tasks (caller_wakes d p) = tp_tasks p" "tp_workers (caller_wakes d p) = tp_workers p" "tp_posted (caller_wakes d p) = tp_posted p"
  by (simp_all add: wait_idle_def lookAgain_def wake_waiters_def caller_wakes_def)

lemma closing_calls:
  assumes "closing n c p"
  shows "closing n c (shutdown p)" "closing n c (wait_idle kind p)"
    "closing n c (wake_waiters p)" "closing n c (caller_wakes d p)" "closing n c (p\<lparr>tp_tasks := [], tp_discarded := d'\<rparr>)"
  using assms by (auto simp: closing_def shutdown_def) (auto simp: waiting_calls_def)

lemma idle_inactive: "idle_for kind p \<Longrightarrow> tp_activeTasks p = 0"
  by (cases kind) auto

lemma closing_lookAgain: "pool_inv p \<Longrightarrow> closing n c p \<Longrightarrow> closing n c (lookAgain w p)"
  using idle_inactive [of "w_kind w" p] no_busy [of p] by (auto simp: closing_def)

lemma closing_workers_step: "workers_step p q \<Longrightarrow> closing n c p \<Longrightarrow> closing n c q"
proof (induction rule: workers_step.induct)
  case (takes i p)
  then show ?case using busy_set_update [of i "tp_workers p"] by (cases "tp_tasks p") (auto simp: closing_def takeTask_def waiting_calls_def)
next
  case (ends i p t)
  let ?q = "p\<lparr>tp_activeTasks := tp_activeTasks p - 1, tp_workers := (tp_workers p)[i := Awake]\<rparr>"
  have "closing n c ?q" using ends busy_set_released [of i "tp_workers p" Awake] by (auto simp: closing_def waiting_calls_def)
  with closing_calls(3) [OF this] show ?case by (auto simp only: endTask_def Let_def split: if_split)
next
  case (notifies p i)
  then show ?case using busy_set_update [of i "tp_workers p" Awake] by (auto simp: closing_def notifyOne_def waiting_calls_def)
next
  case (notifies_all p)
  then show ?case by (simp add: closing_def notifyEvery_def busy_woken waiting_calls_def)
qed (simp add: closing_def notifyNone_def waiting_calls_def)

lemma closing_step: "pool_step alone p q \<Longrightarrow> pool_inv p \<Longrightarrow> closing n c p \<Longrightarrow> closing n c q"
proof (induction rule: pool_step.induct)
  case (spurious_worker i p)
  then show ?case using busy_set_update [of i "tp_workers p" Awake] by (auto simp: closing_def wakes_up_def waiting_calls_def)
qed (auto intro: closing_posts closing_calls closing_lookAgain closing_workers_step simp: drain_def cancelQueuedAndDrain_def)

lemma closing_starts:
  assumes "pool_inv p"
  shows "closing (tp_posted p) (tp_calls p) (cancelQueuedAndDrain p)"
  using no_busy [OF assms] by (auto simp: closing_def cancelQueuedAndDrain_def)

text \<open>
  C26. When \<^verbatim>\<open>cancelQueuedAndDrain\<close> has returned to a caller, no task that was posted before the call is
  queued or running, then or at any later time, whatever other callers do meanwhile.
\<close>

theorem close_leaves_nothing:
  assumes "pool_reachable alone p" and "reachable (\<lambda>s. s = cancelQueuedAndDrain p) (pool_step alone) q"
    and "tp_calls p \<notin> set (waiting_calls q)" and "t < tp_posted p"
  shows "t \<notin> set (tp_tasks q) \<and> Busy t \<notin> set (tp_workers q)"
proof -
  have "pool_inv q \<and> closing (tp_posted p) (tp_calls p) q" using assms(2)
  proof (induction rule: reachable.induct)
    case (reach_init s)
    then show ?case using pool.reachable_inv [OF assms(1)] closing_starts inv_cleared inv_waits(2) by (simp add: cancelQueuedAndDrain_def)
  next
    case (reach_step s u)
    then show ?case using inv_pool_step closing_step by blast
  qed
  then have "\<forall>t\<in>set (tp_tasks q). tp_posted p \<le> t" "\<forall>t\<in>set (busy_list (tp_workers q)). tp_posted p \<le> t"
    using assms(3) by (auto simp: closing_def)
  then show ?thesis using assms(4) busy_none by (metis in_set_conv_nth not_le)
qed

text \<open>With one closing at a time, no caller sleeps over an idle pool.\<close>

definition none_missed :: "ThreadPool \<Rightarrow> bool" where
  "none_missed p \<longleftrightarrow> tp_tasks p \<noteq> [] \<or> 0 < tp_activeTasks p \<or> (\<forall>w\<in>set (tp_waiters p). \<not> w_asleep w)"

lemma missed_waits: "none_missed p \<Longrightarrow> none_missed (wait_idle kind p)"
  by (cases kind) (auto simp: none_missed_def wait_idle_def)

lemma missed_lookAgain: "none_missed p \<Longrightarrow> none_missed (lookAgain w p)"
  by (cases "w_kind w") (auto simp: none_missed_def lookAgain_def)

lemma missed_workers_step: "workers_step p q \<Longrightarrow> none_missed p \<Longrightarrow> none_missed q"
proof (induction rule: workers_step.induct)
  case (takes i p)
  then show ?case by (cases "tp_tasks p") (auto simp: none_missed_def takeTask_def)
next
  case (ends i p t)
  then show ?case by (auto simp: none_missed_def endTask_def wake_waiters_def Let_def)
qed (auto simp: none_missed_def notifyOne_def notifyNone_def notifyEvery_def)

lemma missed_step: "pool_step True p q \<Longrightarrow> none_missed p \<Longrightarrow> none_missed q"
proof (induction rule: pool_step.induct)
  case (cancels p)
  then show ?case by (auto simp: none_missed_def cancelQueuedAndDrain_def wait_idle_def)
qed (auto intro: missed_waits missed_lookAgain missed_workers_step simp: drain_def,
    auto simp: none_missed_def post_def postFront_def shutdown_def wakes_up_def caller_wakes_def)

interpretation one_closes: state_machine pool_init "pool_step True" none_missed
  by unfold_locales (force simp: none_missed_def new_pool_def, blast intro: missed_step)

text \<open>
  When repositories are closed one at a time, no caller misses the moment the pool becomes
  idle: once the workers have nothing left to do, every caller that still waits is awake and finds its
  condition true.
\<close>

theorem waiting_callers_return:
  assumes "pool_reachable True p" and "\<forall>q. \<not> workers_step p q" and "w \<in> set (tp_waiters p)"
  shows "\<not> w_asleep w \<and> idle_for (w_kind w) p"
proof -
  have "tp_tasks p = []" "tp_activeTasks p = 0"
    using rest_idle [OF pool.reachable_inv [OF assms(1)] at_restI] assms(2) by blast+
  then show ?thesis using one_closes.reachable_inv [OF assms(1)] assms(3) by (cases "w_kind w") (auto simp: none_missed_def)
qed

section \<open>Concrete pools\<close>

text \<open>A pool of one worker that runs a task while a caller closes.\<close>

definition running_pool :: ThreadPool where
  "running_pool = takeTask 0 (notifyNone (post (new_pool 1 0)))"

definition closing_pool :: ThreadPool where
  "closing_pool = cancelQueuedAndDrain running_pool"

lemmas pool_ops = post_def takeTask_def notifyNone_def endTask_def wake_waiters_def cancelQueuedAndDrain_def wait_idle_def new_pool_def Let_def

lemma running_pool_eq:
  "running_pool = \<lparr>tp_tasks = [], tp_activeTasks = 1, tp_stopping = False, tp_workers = [Busy 0], tp_notifies = 0, tp_notifyAll = False,
     tp_waiters = [], tp_posted = 1, tp_started = [0], tp_discarded = [], tp_calls = 0\<rparr>"
  by (simp add: running_pool_def pool_ops)

lemma closing_pool_eq:
  "closing_pool = \<lparr>tp_tasks = [], tp_activeTasks = 1, tp_stopping = False, tp_workers = [Busy 0], tp_notifies = 0, tp_notifyAll = False,
     tp_waiters = [\<lparr>w_call = 0, w_kind = CancelCall, w_asleep = True\<rparr>], tp_posted = 1, tp_started = [0], tp_discarded = [], tp_calls = 1\<rparr>"
  by (simp add: closing_pool_def running_pool_eq cancelQueuedAndDrain_def wait_idle_def)

lemmas pool_reach = reachable.reach_step [of pool_init "pool_step alone" for alone]

lemma running_reachable: "pool_reachable alone running_pool"
proof -
  have "pool_reachable alone (new_pool 1 0)" by (rule reachable.reach_init) blast
  then have "pool_reachable alone (post (new_pool 1 0))" by (rule pool_reach) (rule posts)
  then have "pool_reachable alone (notifyNone (post (new_pool 1 0)))"
    by (rule pool_reach) (intro works notifies_none, simp_all add: pool_ops)
  then show ?thesis unfolding running_pool_def
    by (rule pool_reach) (intro works takes, simp_all add: pool_ops)
qed

lemma closing_reachable: "pool_reachable alone closing_pool"
  unfolding closing_pool_def by (rule pool_reach [OF running_reachable]) (intro cancels, simp add: running_pool_eq)

lemma stuck_at_rest:
  assumes "at_rest p"
  shows "\<not> workers_step p q"
proof
  assume "workers_step p q"
  then show False by (rule workers_stepE) (use assms in \<open>auto simp: at_rest_def in_set_conv_nth subset_iff\<close>)
qed

theorem each_task_once_witness: "distinct (tp_started running_pool @ tp_tasks running_pool @ tp_discarded running_pool)"
  using each_task_once [OF running_reachable] by blast

theorem pool_drains_witness: "\<exists>q. workers_step running_pool q \<and> pool_work q < pool_work running_pool"
  using pool_drains [OF running_reachable] by (auto simp: running_pool_eq)

text \<open>The task has ended; the worker sleeps and the caller is awake.\<close>

definition closed_pool :: ThreadPool where
  "closed_pool = takeTask 0 (endTask 0 closing_pool)"

lemma closed_pool_eq:
  "closed_pool = \<lparr>tp_tasks = [], tp_activeTasks = 0, tp_stopping = False, tp_workers = [Asleep], tp_notifies = 0, tp_notifyAll = False,
     tp_waiters = [\<lparr>w_call = 0, w_kind = CancelCall, w_asleep = False\<rparr>], tp_posted = 1, tp_started = [0], tp_discarded = [], tp_calls = 1\<rparr>"
  by (simp add: closed_pool_def closing_pool_eq pool_ops)

lemma closed_steps: "pool_step alone closing_pool (endTask 0 closing_pool)" "pool_step alone (endTask 0 closing_pool) closed_pool"
  unfolding closed_pool_def by (intro works ends takes; simp add: closing_pool_eq pool_ops)+

theorem waiting_callers_return_witness: "\<not> w_asleep (hd (tp_waiters closed_pool)) \<and> idle_for CancelCall closed_pool"
proof -
  have "pool_reachable True closed_pool" by (rule pool_reach [OF pool_reach [OF closing_reachable closed_steps(1)] closed_steps(2)])
  moreover have "\<forall>q. \<not> workers_step closed_pool q" by (intro allI stuck_at_rest) (simp add: at_rest_def closed_pool_eq)
  ultimately show ?thesis using waiting_callers_return [of closed_pool "hd (tp_waiters closed_pool)"] by (simp add: closed_pool_eq)
qed

theorem close_leaves_nothing_witness:
  "0 \<notin> set (tp_tasks (lookAgain (hd (tp_waiters closed_pool)) closed_pool)) \<and>
   Busy 0 \<notin> set (tp_workers (lookAgain (hd (tp_waiters closed_pool)) closed_pool))"
proof (rule close_leaves_nothing [OF running_reachable])
  have "reachable (\<lambda>s. s = cancelQueuedAndDrain running_pool) (pool_step False) closing_pool"
    by (rule reachable.reach_init) (simp add: closing_pool_def)
  from reachable.reach_step [OF reachable.reach_step [OF this closed_steps(1)] closed_steps(2)]
  show "reachable (\<lambda>s. s = cancelQueuedAndDrain running_pool) (pool_step False) (lookAgain (hd (tp_waiters closed_pool)) closed_pool)"
    by (rule reachable.reach_step) (intro looks, simp_all add: closed_pool_eq)
qed (simp_all add: waiting_calls_def lookAgain_def closed_pool_eq running_pool_eq)

text \<open>A task is posted while the caller waits, and a second caller closes before the worker has taken it.\<close>

definition hung_pool :: ThreadPool where
  "hung_pool = takeTask 0 (cancelQueuedAndDrain (endTask 0 (notifyNone (post closing_pool))))"

lemma hung_pool_eq:
  "hung_pool = \<lparr>tp_tasks = [], tp_activeTasks = 0, tp_stopping = False, tp_workers = [Asleep], tp_notifies = 0, tp_notifyAll = False,
     tp_waiters = [\<lparr>w_call = 0, w_kind = CancelCall, w_asleep = True\<rparr>], tp_posted = 2, tp_started = [0], tp_discarded = [1], tp_calls = 2\<rparr>"
  by (simp add: hung_pool_def closing_pool_eq pool_ops)

lemma hung_reachable: "pool_reachable False hung_pool"
proof -
  have "pool_reachable False (post closing_pool)" by (rule pool_reach [OF closing_reachable]) (rule posts)
  then have "pool_reachable False (notifyNone (post closing_pool))"
    by (rule pool_reach) (intro works notifies_none, simp_all add: closing_pool_eq pool_ops)
  then have "pool_reachable False (endTask 0 (notifyNone (post closing_pool)))"
    by (rule pool_reach) (intro works ends, simp_all add: closing_pool_eq pool_ops)
  then have "pool_reachable False (cancelQueuedAndDrain (endTask 0 (notifyNone (post closing_pool))))"
    by (rule pool_reach) (intro cancels, simp)
  then show ?thesis unfolding hung_pool_def
    by (rule pool_reach) (intro works takes, simp_all add: closing_pool_eq pool_ops)
qed

text \<open>
  C30. When two repositories are closed at the same time, a caller of \<^verbatim>\<open>cancelQueuedAndDrain\<close> can be left
  asleep with the pool idle and nothing on its way that would wake it.
\<close>

theorem close_can_hang:
  "\<exists>p w. pool_reachable False p \<and> (\<forall>q. \<not> workers_step p q) \<and> tp_waiters p = [w] \<and> w_asleep w \<and> idle_for (w_kind w) p"
proof (rule exI [of _ hung_pool], rule exI [of _ "hd (tp_waiters hung_pool)"], intro conjI)
  show "pool_reachable False hung_pool" by (rule hung_reachable)
  show "\<forall>q. \<not> workers_step hung_pool q" by (intro allI stuck_at_rest) (simp add: at_rest_def hung_pool_eq)
qed (simp_all add: hung_pool_eq)

end
