(* ===== verification/Tokens.thy ===== *)
theory Tokens
  imports Accounting
begin

text \<open>
  Cancellation tokens, \<^verbatim>\<open>src/core/base/CancellationToken.h\<close>, as a machine of the threads that register
  callbacks, give them up and cancel, and busy tokens, \<^verbatim>\<open>src/core/workers/BusyToken.h\<close>, as a machine over the
  tokens of a program. Callbacks are numbered in the order they were handed over.
\<close>

section \<open>Cancellation\<close>

record CancellationState =
  cs_cancelled :: bool
  cs_callbacks :: "(nat \<times> nat) list"
  cs_nextCallbackId :: nat

definition new_cancellation :: CancellationState where
  "new_cancellation = \<lparr>cs_cancelled = False, cs_callbacks = [], cs_nextCallbackId = 0\<rparr>"

definition removeCallback :: "nat \<Rightarrow> CancellationState \<Rightarrow> CancellationState" where
  "removeCallback id' s = s\<lparr>cs_callbacks := filter (\<lambda>entry. fst entry \<noteq> id') (cs_callbacks s)\<rparr>"

text \<open>A registration is empty or names its callback in the state.\<close>

type_synonym Registration = "nat option"

definition isCancelled :: "CancellationState option \<Rightarrow> bool" where
  "isCancelled token \<longleftrightarrow> (case token of None \<Rightarrow> False | Some s \<Rightarrow> cs_cancelled s)"

text \<open>The part under the lock: an empty registration means that the caller runs its callback itself.\<close>

definition onCancel :: "nat \<Rightarrow> CancellationState \<Rightarrow> Registration \<times> CancellationState" where
  "onCancel callback s =
     (if cs_cancelled s then (None, s)
      else (Some (cs_nextCallbackId s),
            s\<lparr>cs_nextCallbackId := cs_nextCallbackId s + 1, cs_callbacks := cs_callbacks s @ [(cs_nextCallbackId s, callback)]\<rparr>))"

definition resetRegistration :: "Registration \<Rightarrow> CancellationState \<Rightarrow> Registration \<times> CancellationState" where
  "resetRegistration r s = (case r of None \<Rightarrow> (None, s) | Some id' \<Rightarrow> (None, removeCallback id' s))"

text \<open>Assigning a registration gives up the one that was held and empties the other.\<close>

definition assignRegistration :: "Registration \<Rightarrow> Registration \<Rightarrow> CancellationState \<Rightarrow> (Registration \<times> Registration) \<times> CancellationState" where
  "assignRegistration r other s = ((other, None), snd (resetRegistration r s))"

text \<open>The part under the lock, with the callbacks to run after it.\<close>

definition cancelSource :: "CancellationState \<Rightarrow> nat list \<times> CancellationState" where
  "cancelSource s =
     (if cs_cancelled s then ([], s)
      else (map snd (cs_callbacks s), s\<lparr>cs_cancelled := True, cs_callbacks := []\<rparr>))"

text \<open>
  The threads around one source: callbacks a cancelling thread has taken out and not yet run, those a
  registering thread is to run itself, those that ran, and the registrations that are held.
\<close>

record CancelWorld =
  cw_state :: CancellationState
  cw_toRun :: "nat list"
  cw_immediate :: "nat list"
  cw_ran :: "nat list"
  cw_held :: "(nat \<times> nat) list"
  cw_given :: nat
  cw_unregistered :: "nat list"
  cw_resets :: "nat list"

definition new_cancel_world :: CancelWorld where
  "new_cancel_world = \<lparr>cw_state = new_cancellation, cw_toRun = [], cw_immediate = [], cw_ran = [], cw_held = [], cw_given = 0,
     cw_unregistered = [], cw_resets = []\<rparr>"

definition registered :: "CancelWorld \<Rightarrow> CancelWorld" where
  "registered w =
     (case onCancel (cw_given w) (cw_state w) of
        (None, s) \<Rightarrow> w\<lparr>cw_state := s, cw_immediate := cw_immediate w @ [cw_given w], cw_given := cw_given w + 1\<rparr>
      | (Some id', s) \<Rightarrow> w\<lparr>cw_state := s, cw_held := cw_held w @ [(id', cw_given w)], cw_given := cw_given w + 1\<rparr>)"

definition given_up :: "nat \<times> nat \<Rightarrow> CancelWorld \<Rightarrow> CancelWorld" where
  "given_up r w =
     w\<lparr>cw_state := snd (resetRegistration (Some (fst r)) (cw_state w)), cw_held := filter (\<lambda>h. h \<noteq> r) (cw_held w), cw_resets := cw_resets w @ [snd r],
       cw_unregistered := cw_unregistered w @ map snd (filter (\<lambda>entry. fst entry = fst r) (cs_callbacks (cw_state w)))\<rparr>"

definition cancelled_by :: "CancelWorld \<Rightarrow> CancelWorld" where
  "cancelled_by w = (let (toRun, s) = cancelSource (cw_state w) in w\<lparr>cw_state := s, cw_toRun := cw_toRun w @ toRun\<rparr>)"

inductive cancel_step :: "CancelWorld \<Rightarrow> CancelWorld \<Rightarrow> bool" where
  registers: "cancel_step w (registered w)"
| gives_up: "r \<in> set (cw_held w) \<Longrightarrow> cancel_step w (given_up r w)"
| cancels: "cancel_step w (cancelled_by w)"
| runs_next: "cw_toRun w = k # ks \<Longrightarrow> cancel_step w (w\<lparr>cw_toRun := ks, cw_ran := cw_ran w @ [k]\<rparr>)"
| runs_own: "k \<in> set (cw_immediate w) \<Longrightarrow> cancel_step w (w\<lparr>cw_immediate := remove1 k (cw_immediate w), cw_ran := cw_ran w @ [k]\<rparr>)"

section \<open>Busy tokens\<close>

type_synonym BusyToken = "nat option"

text \<open>Firing calls the release, if there is one, and leaves the token empty.\<close>

definition fire :: "BusyToken \<Rightarrow> nat list \<times> BusyToken" where
  "fire token = (case token of None \<Rightarrow> ([], None) | Some release \<Rightarrow> ([release], None))"

definition moveConstruct :: "BusyToken \<Rightarrow> BusyToken \<times> BusyToken" where
  "moveConstruct other = (other, None)"

definition moveAssign :: "BusyToken \<Rightarrow> BusyToken \<Rightarrow> nat list \<times> BusyToken \<times> BusyToken" where
  "moveAssign token other = (fst (fire token), other, None)"

definition owns :: "BusyToken \<Rightarrow> bool" where
  "owns token \<longleftrightarrow> token \<noteq> None"

record BusyWorld =
  bw_tokens :: "BusyToken list"
  bw_fired :: "nat list"
  bw_made :: nat

definition new_busy_world :: BusyWorld where
  "new_busy_world = \<lparr>bw_tokens = [], bw_fired = [], bw_made = 0\<rparr>"

definition constructed :: "BusyWorld \<Rightarrow> BusyWorld" where
  "constructed w = w\<lparr>bw_tokens := bw_tokens w @ [Some (bw_made w)], bw_made := bw_made w + 1\<rparr>"

definition moved_out :: "nat \<Rightarrow> BusyWorld \<Rightarrow> BusyWorld" where
  "moved_out i w = (let (token, other) = moveConstruct (bw_tokens w ! i) in w\<lparr>bw_tokens := (bw_tokens w)[i := other] @ [token]\<rparr>)"

definition assigned :: "nat \<Rightarrow> nat \<Rightarrow> BusyWorld \<Rightarrow> BusyWorld" where
  "assigned i j w =
     (if i = j then w
      else let (fired, token, other) = moveAssign (bw_tokens w ! i) (bw_tokens w ! j)
           in w\<lparr>bw_tokens := (bw_tokens w)[i := token, j := other], bw_fired := bw_fired w @ fired\<rparr>)"

definition released :: "nat \<Rightarrow> BusyWorld \<Rightarrow> BusyWorld" where
  "released i w = (let (fired, token) = fire (bw_tokens w ! i) in w\<lparr>bw_tokens := (bw_tokens w)[i := token], bw_fired := bw_fired w @ fired\<rparr>)"

text \<open>A reset and a destructor both fire.\<close>

inductive busy_step :: "BusyWorld \<Rightarrow> BusyWorld \<Rightarrow> bool" where
  constructs: "busy_step w (constructed w)"
| moves: "i < length (bw_tokens w) \<Longrightarrow> busy_step w (moved_out i w)"
| assigns: "i < length (bw_tokens w) \<Longrightarrow> j < length (bw_tokens w) \<Longrightarrow> busy_step w (assigned i j w)"
| releases: "i < length (bw_tokens w) \<Longrightarrow> busy_step w (released i w)"

section \<open>Callbacks and cancellation\<close>

definition cancel_inv :: "CancelWorld \<Rightarrow> bool" where
  "cancel_inv w \<longleftrightarrow>
     mset (cw_ran w) + mset (cw_toRun w) + mset (cw_immediate w) + mset (map snd (cs_callbacks (cw_state w))) + mset (cw_unregistered w) =
       numbered (cw_given w) \<and>
     (cs_cancelled (cw_state w) \<longrightarrow> cs_callbacks (cw_state w) = [])"

lemma mset_filter_split: "mset (map snd (filter (\<lambda>x. P x) xs)) + mset (map snd (filter (\<lambda>x. \<not> P x) xs)) = mset (map snd xs)"
  by (induction xs) auto

lemma cancel_inv_step: "cancel_step w v \<Longrightarrow> cancel_inv w \<Longrightarrow> cancel_inv v"
proof (induction rule: cancel_step.induct)
  case (registers w)
  then show ?case by (auto simp: cancel_inv_def registered_def onCancel_def)
next
  case (gives_up r w)
  then show ?case using mset_filter_split [of "\<lambda>x. fst x = fst r" "cs_callbacks (cw_state w)"]
    by (simp add: cancel_inv_def given_up_def resetRegistration_def removeCallback_def add_ac)
next
  case (cancels w)
  then show ?case by (auto simp: cancel_inv_def cancelled_by_def cancelSource_def add_ac)
qed (auto simp: cancel_inv_def add_ac)

abbreviation cancel_reachable :: "CancelWorld \<Rightarrow> bool" where
  "cancel_reachable \<equiv> reachable (\<lambda>w. w = new_cancel_world) cancel_step"

interpretation cancellation: state_machine "\<lambda>w. w = new_cancel_world" cancel_step cancel_inv
proof
  show "cancel_inv w" if "w = new_cancel_world" for w by (simp add: that cancel_inv_def new_cancel_world_def new_cancellation_def)
qed (blast intro: cancel_inv_step)


text \<open>
  Once a source was cancelled and nothing is on its way any more, every callback that was ever
  handed over ran, and ran only once, except those whose registration was given up before the
  cancellation, whatever the threads did in between.
\<close>

theorem cancel_reaches_all:
  assumes "cancel_reachable w" and "cs_cancelled (cw_state w)" and "cw_toRun w = []" and "cw_immediate w = []"
  shows "distinct (cw_ran w @ cw_unregistered w) \<and> set (cw_ran w @ cw_unregistered w) = {0..<cw_given w}"
proof (rule numbered_distinct)
  show "mset (cw_ran w @ cw_unregistered w) = numbered (cw_given w)"
    using cancellation.reachable_inv [OF assms(1)] assms(2-4) by (auto simp: cancel_inv_def)
qed

text \<open>Before a cancellation, a held registration still has its callback in the list.\<close>

definition held_registered :: "CancelWorld \<Rightarrow> bool" where
  "held_registered w \<longleftrightarrow> (\<not> cs_cancelled (cw_state w) \<longrightarrow>
     set (cw_held w) \<subseteq> set (cs_callbacks (cw_state w)) \<and>
     distinct (map fst (cs_callbacks (cw_state w))) \<and> (\<forall>id'\<in>fst ` set (cs_callbacks (cw_state w)). id' < cs_nextCallbackId (cw_state w)))"

lemma held_step: "cancel_step w v \<Longrightarrow> held_registered w \<Longrightarrow> held_registered v"
proof (induction rule: cancel_step.induct)
  case (registers w)
  then show ?case by (auto simp: held_registered_def registered_def onCancel_def)
next
  case (gives_up r w)
  have "h \<in> set (filter (\<lambda>entry. fst entry \<noteq> fst r) cs)"
    if "h \<in> set hs" "set hs \<subseteq> set cs" "distinct (map fst cs)" "r \<in> set hs" "h \<noteq> r" for h hs and cs :: "(nat \<times> nat) list"
    using that eq_key_imp_eq_value [of cs "fst h" "snd h" "snd r"] by (fastforce simp: prod_eq_iff)
  with gives_up show ?case
    by (fastforce simp: held_registered_def given_up_def resetRegistration_def removeCallback_def distinct_map_filter)
qed (auto simp: held_registered_def cancelled_by_def cancelSource_def)

interpretation registrations: state_machine "\<lambda>w. w = new_cancel_world" cancel_step held_registered
proof
  show "held_registered w" if "w = new_cancel_world" for w
    by (simp add: that held_registered_def new_cancel_world_def new_cancellation_def)
qed (blast intro: held_step)

lemma unregistered_stays: "cancel_step w v \<Longrightarrow> set (cw_unregistered w) \<subseteq> set (cw_unregistered v)"
  by (induction rule: cancel_step.induct) (auto simp: registered_def onCancel_def given_up_def cancelled_by_def cancelSource_def)

text \<open>
  A callback whose registration was given up before the source was cancelled never runs.
\<close>

theorem reset_before_cancel:
  assumes "cancel_reachable w" and "r \<in> set (cw_held w)" and "\<not> cs_cancelled (cw_state w)"
    and "reachable (\<lambda>x. x = given_up r w) cancel_step v"
  shows "snd r \<notin> set (cw_ran v)"
proof -
  have "cancel_inv v \<and> snd r \<in> set (cw_unregistered v)" using assms(4)
  proof (induction rule: reachable.induct)
    case (reach_init s)
    have "r \<in> set (cs_callbacks (cw_state w))"
      using registrations.reachable_inv [OF assms(1)] assms(2,3) by (auto simp: held_registered_def)
    then have "snd r \<in> set (cw_unregistered (given_up r w))" by (auto simp: given_up_def)
    with reach_init show ?case using cancel_inv_step [OF gives_up [OF assms(2)] cancellation.reachable_inv [OF assms(1)]] by simp
  next
    case (reach_step s t)
    then show ?case using cancel_inv_step unregistered_stays by blast
  qed
  then have "mset (cw_ran v @ cw_toRun v @ cw_immediate v @ map snd (cs_callbacks (cw_state v)) @ cw_unregistered v) = numbered (cw_given v)"
    "snd r \<in> set (cw_unregistered v)" by (simp_all add: cancel_inv_def add_ac)
  then show ?thesis using numbered_distinct by fastforce
qed

text \<open>One callback, registered, then taken out by a cancellation, then given up, then run.\<close>

definition taken_world :: CancelWorld where
  "taken_world = cancelled_by (registered new_cancel_world)"

lemmas cancel_reach = reachable.reach_step [of "\<lambda>w. w = new_cancel_world" cancel_step]

lemma registered_reachable: "cancel_reachable (registered new_cancel_world)"
  by (rule cancel_reach [OF reachable.reach_init], simp, rule registers)

lemma taken_reachable: "cancel_reachable taken_world"
  unfolding taken_world_def by (rule cancel_reach [OF registered_reachable cancels])

lemma taken_world_eq:
  "taken_world = \<lparr>cw_state = \<lparr>cs_cancelled = True, cs_callbacks = [], cs_nextCallbackId = 1\<rparr>, cw_toRun = [0], cw_immediate = [], cw_ran = [],
     cw_held = [(0, 0)], cw_given = 1, cw_unregistered = [], cw_resets = []\<rparr>"
  by (simp add: taken_world_def cancelled_by_def cancelSource_def registered_def onCancel_def new_cancel_world_def new_cancellation_def)

theorem cancel_reaches_all_witness: "distinct (cw_ran (taken_world\<lparr>cw_toRun := [], cw_ran := [0]\<rparr>) @ []) \<and> set [0] = {0..<cw_given taken_world}"
proof -
  have "cancel_step taken_world (taken_world\<lparr>cw_toRun := [], cw_ran := cw_ran taken_world @ [0]\<rparr>)" by (rule runs_next) (simp add: taken_world_eq)
  then have "cancel_reachable (taken_world\<lparr>cw_toRun := [], cw_ran := [0]\<rparr>)"
    using cancel_reach [OF taken_reachable] by (simp add: taken_world_eq)
  from cancel_reaches_all [OF this] show ?thesis by (simp add: taken_world_eq)
qed

theorem reset_before_cancel_witness: "0 \<notin> set (cw_ran (cancelled_by (given_up (0, 0) (registered new_cancel_world))))"
proof -
  have "(0, 0) \<in> set (cw_held (registered new_cancel_world))" "\<not> cs_cancelled (cw_state (registered new_cancel_world))"
    by (simp_all add: registered_def onCancel_def new_cancel_world_def new_cancellation_def)
  moreover have "reachable (\<lambda>x. x = given_up (0, 0) (registered new_cancel_world)) cancel_step (cancelled_by (given_up (0, 0) (registered new_cancel_world)))"
    by (rule reachable.reach_step [OF reachable.reach_init], simp, rule cancels)
  ultimately show ?thesis using reset_before_cancel [OF registered_reachable] by force
qed

text \<open>
  Giving a registration up does not wait for a callback that a cancelling thread has already taken out:
  the callback can run after the reset has returned.
\<close>

lemma callback_runs_after_reset:
  "\<exists>w v. cancel_reachable w \<and> 0 \<in> set (cw_resets w) \<and> 0 \<notin> set (cw_ran w) \<and> cancel_step w v \<and> 0 \<in> set (cw_ran v)"
proof -
  let ?w = "given_up (0, 0) taken_world"
  have w: "?w = taken_world\<lparr>cw_held := [], cw_resets := [0]\<rparr>"
    by (simp add: given_up_def resetRegistration_def removeCallback_def taken_world_eq)
  have "cancel_reachable ?w" by (rule cancel_reach [OF taken_reachable gives_up]) (simp add: taken_world_eq)
  moreover have "cancel_step ?w (?w\<lparr>cw_toRun := [], cw_ran := cw_ran ?w @ [0]\<rparr>)" by (rule runs_next) (simp add: w, simp add: taken_world_eq)
  ultimately show ?thesis by (intro exI [of _ ?w] exI conjI) (simp_all add: w, simp_all add: taken_world_eq)
qed

section \<open>Busy tokens fire once\<close>

definition owned :: "BusyToken list \<Rightarrow> nat list" where
  "owned ts = concat (map (\<lambda>t. case t of None \<Rightarrow> [] | Some r \<Rightarrow> [r]) ts)"

lemma owned_update:
  "i < length ts \<Longrightarrow> mset (owned (ts[i := t])) + mset (owned [ts ! i]) = mset (owned ts) + mset (owned [t])"
  unfolding owned_def by (induction ts arbitrary: i) (auto split: nat.splits simp: add_ac)

lemma owned_append: "owned (ts @ us) = owned ts @ owned us"
  by (simp add: owned_def)

lemma fired_owned: "fst (fire t) = owned [t]"
  by (simp add: fire_def owned_def split: option.splits)

lemma fired_empty: "snd (fire t) = None"
  by (simp add: fire_def split: option.splits)

lemma owned_None [simp]: "owned [None] = []" "owned [Some r] = [r]" "owned [] = []"
  by (simp_all add: owned_def)

lemma swapped: "x + j = y \<Longrightarrow> y + i = t + j \<Longrightarrow> x + i = (t :: nat multiset)"
  by (auto simp: add_ac)

definition busy_inv :: "BusyWorld \<Rightarrow> bool" where
  "busy_inv w \<longleftrightarrow> mset (bw_fired w) + mset (owned (bw_tokens w)) = numbered (bw_made w)"

lemma busy_inv_step: "busy_step w v \<Longrightarrow> busy_inv w \<Longrightarrow> busy_inv v"
proof (induction rule: busy_step.induct)
  case (moves i w)
  then show ?case using owned_update [of i "bw_tokens w" None] by (simp add: busy_inv_def moved_out_def moveConstruct_def owned_append)
next
  case (assigns i w j)
  let ?t = "bw_tokens w"
  have "mset (owned (?t[i := ?t ! j, j := None])) + mset (owned [?t ! i]) = mset (owned ?t)" if "i \<noteq> j"
  proof -
    have "mset (owned (?t[i := ?t ! j, j := None])) + mset (owned [?t ! j]) = mset (owned (?t[i := ?t ! j]))"
      using owned_update [of j "?t[i := ?t ! j]" None] assigns(1,2) that by simp
    moreover have "mset (owned (?t[i := ?t ! j])) + mset (owned [?t ! i]) = mset (owned ?t) + mset (owned [?t ! j])"
      using owned_update [of i ?t "?t ! j"] assigns(1) by simp
    ultimately show ?thesis by (rule swapped)
  qed
  with assigns(3) show ?case by (auto simp: busy_inv_def assigned_def moveAssign_def fired_owned add_ac)
next
  case (releases i w)
  then show ?case using owned_update [of i "bw_tokens w" None]
    by (simp add: busy_inv_def released_def case_prod_unfold fired_owned fired_empty add_ac)
qed (simp add: busy_inv_def constructed_def owned_append)

abbreviation busy_reachable :: "BusyWorld \<Rightarrow> bool" where
  "busy_reachable \<equiv> reachable (\<lambda>w. w = new_busy_world) busy_step"

interpretation busy: state_machine "\<lambda>w. w = new_busy_world" busy_step busy_inv
proof
  show "busy_inv w" if "w = new_busy_world" for w by (simp add: that busy_inv_def new_busy_world_def)
qed (blast intro: busy_inv_step)

text \<open>
  However tokens are moved, assigned, reset and destroyed, each release was called once or is
  still owned by one token.
\<close>

theorem busy_fires_once:
  assumes "busy_reachable w"
  shows "distinct (bw_fired w @ owned (bw_tokens w)) \<and> set (bw_fired w @ owned (bw_tokens w)) = {0..<bw_made w}"
  using busy.reachable_inv [OF assms] by (intro numbered_distinct) (simp add: busy_inv_def)

theorem busy_fires_once_witness: "set (bw_fired (released 0 (constructed new_busy_world))) = {0..<1}"
proof -
  have "busy_reachable (constructed new_busy_world)" by (rule reachable.reach_step [OF reachable.reach_init], simp, rule constructs)
  then have "busy_reachable (released 0 (constructed new_busy_world))"
    by (rule reachable.reach_step) (rule releases, simp add: constructed_def new_busy_world_def)
  from busy_fires_once [OF this] show ?thesis by (simp add: released_def fire_def constructed_def new_busy_world_def)
qed

end
