(* ===== verification/RepositoryOperations.thy ===== *)
theory RepositoryOperations
  imports StageOperations
begin

text \<open>
  The operations on stashes, tags, remotes, identities and the work tree, \<^verbatim>\<open>StashOps\<close>, \<^verbatim>\<open>ResetOps\<close>, \<^verbatim>\<open>TagOps\<close>,
  \<^verbatim>\<open>CommitOps\<close>, \<^verbatim>\<open>RemoteOps\<close>, \<^verbatim>\<open>UndoOps\<close>, \<^verbatim>\<open>ConflictOps\<close>, \<^verbatim>\<open>ConfigOps\<close>, \<^verbatim>\<open>SquashMessageOps\<close> and
  \<^verbatim>\<open>PreparedMessageOps\<close> of \<^verbatim>\<open>src/core/git/ops\<close>, with the lists and previews they read.
\<close>

text \<open>The lines of an output that the readers walk over, empty ones included.\<close>

definition pathArgs :: "string list \<Rightarrow> string list" where
  "pathArgs paths = (if paths = [] then [] else ''--'' # paths)"

section \<open>Stashes\<close>

record StashEntry =
  se_index :: int
  se_message :: string
  se_oid :: string
  se_timestamp :: int

record StashSaveRequest =
  ss_message :: string
  ss_includeUntracked :: bool
  ss_keepIndex :: bool
  ss_paths :: "string list"

record StashApplyRequest =
  sa_index :: int
  sa_pop :: bool

definition parseStashIndex :: "string \<Rightarrow> int" where
  "parseStashIndex gd =
     (case find_char (CHR 0x7B) gd of
        None \<Rightarrow> 0
      | Some open' \<Rightarrow>
          (case find_char_from (CHR 0x7D) gd open' of
             None \<Rightarrow> 0
           | Some close' \<Rightarrow> (case from_chars_int (substr gd (open' + 1) (close' - open' - 1)) of Some v \<Rightarrow> v | None \<Rightarrow> 0)))"

definition stashSaveArgs :: "StashSaveRequest \<Rightarrow> string list" where
  "stashSaveArgs req =
     [''stash'', ''push''] @ (if ss_message req \<noteq> [] then [''-m'', ss_message req] else []) @
     (if ss_includeUntracked req then [''--include-untracked''] else []) @ (if ss_keepIndex req then [''--keep-index''] else []) @
     pathArgs (ss_paths req)"

definition kNothingStashed :: string where "kNothingStashed = ''No local changes to save''"

definition stashSave :: "'g Git \<Rightarrow> string \<Rightarrow> StashSaveRequest \<Rightarrow> 'g \<Rightarrow> OperationOutcome \<times> 'g" where
  "stashSave git dir req g =
     (case git (timed dir (stashSaveArgs req) kLocalCeiling) g of
        (Inl e, g) \<Rightarrow> (failedWith e (ge_message e), g)
      | (Inr out, g) \<Rightarrow>
          if find_str kNothingStashed out \<noteq> None
          then (failedWith (git_error InvalidArgument ''There are no local changes to stash'' []) ''There are no local changes to stash'', g)
          else (succeededWith ''Stashed changes'', g))"

definition stashApply :: "'g Git \<Rightarrow> string \<Rightarrow> StashApplyRequest \<Rightarrow> 'g \<Rightarrow> OperationOutcome \<times> 'g" where
  "stashApply git dir req g =
     runOne git (timed dir [''stash'', if sa_pop req then ''pop'' else ''apply'', stashName (sa_index req)] 120000)
       (\<lambda>_. if sa_pop req then ''Popped stash'' else ''Applied stash'') g"

definition stashDrop :: "'g Git \<Rightarrow> string \<Rightarrow> int \<Rightarrow> 'g \<Rightarrow> OperationOutcome \<times> 'g" where
  "stashDrop git dir index g = runOne git (timed dir [''stash'', ''drop'', stashName index] 60000) (\<lambda>_. ''Dropped stash'') g"

definition stashBranch :: "'g Git \<Rightarrow> string \<Rightarrow> int \<Rightarrow> string \<Rightarrow> 'g \<Rightarrow> OperationOutcome \<times> 'g" where
  "stashBranch git dir index branchName g =
     runOne git (timed dir [''stash'', ''branch'', branchName, stashName index] 120000) (\<lambda>_. ''Created '' @ branchName @ '' from stash'') g"

definition new_stash :: StashEntry where
  "new_stash = \<lparr>se_index = 0, se_message = [], se_oid = [], se_timestamp = 0\<rparr>"

definition stashColumn :: "nat \<Rightarrow> string \<Rightarrow> StashEntry \<Rightarrow> StashEntry" where
  "stashColumn col v e =
     (if col = 0 then e\<lparr>se_index := parseStashIndex v\<rparr>
      else if col = 1 then e\<lparr>se_oid := v\<rparr>
      else if col = 2 then e\<lparr>se_timestamp := parseInt v\<rparr>
      else e\<lparr>se_message := v\<rparr>)"

definition stashLines :: "string \<Rightarrow> StashEntry list" where
  "stashLines out = map (\<lambda>line. readColumns 4 stashColumn line new_stash) (filter (\<lambda>line. line \<noteq> []) (splitOn nl out))"

definition stashList :: "'g Git \<Rightarrow> string \<Rightarrow> 'g \<Rightarrow> StashEntry list GitResult \<times> 'g" where
  "stashList git dir g =
     (case git (timed dir [''stash'', ''list'', ''--format=%gd%x09%H%x09%at%x09%gs''] 30000) g of
        (Inl e, g) \<Rightarrow> (Inl e, g)
      | (Inr out, g) \<Rightarrow> (Inr (stashLines out), g))"

section \<open>Resetting, restoring and cleaning\<close>

datatype ResetMode = Soft | Mixed | Hard

record ResetRequest =
  rq_target :: string
  rq_mode :: ResetMode

record RestoreRequest =
  rt_paths :: "string list"
  rt_staged :: bool
  rt_source :: string

record CleanEntry =
  ce_path :: string
  ce_isDirectory :: bool

fun resetFlag :: "ResetMode \<Rightarrow> string" where
  "resetFlag Soft = ''--soft''"
| "resetFlag Mixed = ''--mixed''"
| "resetFlag Hard = ''--hard''"

definition describeReset :: "ResetRequest \<Rightarrow> string" where
  "describeReset req =
     (case rq_mode req of Soft \<Rightarrow> ''Soft reset to '' | Hard \<Rightarrow> ''Hard reset to '' | Mixed \<Rightarrow> ''Reset to '') @
     (if rq_target req = [] then ''HEAD'' else rq_target req)"

definition resetTo :: "'g Git \<Rightarrow> string \<Rightarrow> ResetRequest \<Rightarrow> 'g \<Rightarrow> OperationOutcome \<times> 'g" where
  "resetTo git dir req g =
     runOne git (timed dir ([''reset'', resetFlag (rq_mode req)] @ (if rq_target req \<noteq> [] then [rq_target req] else []))
         (if rq_mode req = Hard then kLocalCeiling else 60000))
       (\<lambda>_. describeReset req) g"

definition describeRestore :: "RestoreRequest \<Rightarrow> string" where
  "describeRestore req =
     (if rt_staged req then ''Unstage '' else ''Discard changes to '') @ to_string (length (rt_paths req)) @ '' path(s)''"

definition restoreArgs :: "RestoreRequest \<Rightarrow> string list" where
  "restoreArgs req =
     [''restore''] @ (if rt_staged req then [''--staged''] else []) @ (if rt_source req \<noteq> [] then [''--source'', rt_source req] else []) @
     [''--''] @ rt_paths req"

definition restorePaths :: "'g Git \<Rightarrow> string \<Rightarrow> RestoreRequest \<Rightarrow> 'g \<Rightarrow> OperationOutcome \<times> 'g" where
  "restorePaths git dir req g =
     (if rt_paths req = [] then (invalidArgument ''No paths selected to restore'', g)
      else runOne git (git_command dir (restoreArgs req)) (\<lambda>_. describeRestore req) g)"

definition cleanPaths :: "'g Git \<Rightarrow> string \<Rightarrow> string list \<Rightarrow> bool \<Rightarrow> 'g \<Rightarrow> OperationOutcome \<times> 'g" where
  "cleanPaths git dir paths includeIgnored g =
     runOne git (git_command dir ([''clean'', ''-f'', ''-d''] @ (if includeIgnored then [''-x''] else []) @ pathArgs paths))
       (\<lambda>_. ''Removed untracked files'') g"

definition kWouldRemove :: string where "kWouldRemove = ''Would remove ''"

definition cleanLine :: "string \<Rightarrow> CleanEntry list" where
  "cleanLine line =
     (if starts_with line kWouldRemove
      then let rest = drop (length kWouldRemove) line; isDirectory = (rest \<noteq> [] \<and> last rest = CHR ''/'')
           in [\<lparr>ce_path = (if isDirectory then butlast rest else rest), ce_isDirectory = isDirectory\<rparr>]
      else [])"

definition cleanPreview :: "'g Git \<Rightarrow> string \<Rightarrow> bool \<Rightarrow> 'g \<Rightarrow> CleanEntry list GitResult \<times> 'g" where
  "cleanPreview git dir includeIgnored g =
     (case git (timed dir ([''clean'', ''-n'', ''-d''] @ (if includeIgnored then [''-x''] else [])) 60000) g of
        (Inl e, g) \<Rightarrow> (Inl e, g)
      | (Inr out, g) \<Rightarrow> (Inr (concat (map cleanLine (splitOn nl out))), g))"

section \<open>Tags\<close>

record CreateTagRequest =
  ct_name :: string
  ct_target :: string
  ct_message :: string
  ct_force :: bool

record DeleteTagRequest =
  dt_name :: string
  dt_alsoRemote :: bool
  dt_remoteName :: string
  dt_askpassDir :: string

definition createTagArgs :: "CreateTagRequest \<Rightarrow> string list" where
  "createTagArgs req =
     [''tag''] @ (if ct_message req \<noteq> [] then [''-a''] else []) @ (if ct_force req then [''-f''] else []) @ [ct_name req] @
     (if ct_message req \<noteq> [] then [''-m'', ct_message req] else []) @ (if ct_target req \<noteq> [] then [ct_target req] else [])"

definition createTag :: "'g Git \<Rightarrow> string \<Rightarrow> CreateTagRequest \<Rightarrow> 'g \<Rightarrow> OperationOutcome \<times> 'g" where
  "createTag git dir req g =
     (if \<not> isValidBranchName (ct_name req) then (invalidArgument (quoted (ct_name req) @ '' is not a valid tag name''), g)
      else runOne git (timed dir (createTagArgs req) 60000) (\<lambda>_. ''Created tag '' @ ct_name req) g)"

definition deleteTag :: "'g Git \<Rightarrow> string option \<Rightarrow> string \<Rightarrow> DeleteTagRequest \<Rightarrow> 'g \<Rightarrow> OperationOutcome \<times> 'g" where
  "deleteTag git exe dir req g =
     (case git (timed dir [''tag'', ''-d'', dt_name req] 60000) g of
        (Inl e, g) \<Rightarrow> (failedWith e (ge_message e), g)
      | (Inr _, g) \<Rightarrow>
          if \<not> dt_alsoRemote req then (succeededWith (''Deleted tag '' @ dt_name req), g)
          else (case git (wire exe (dt_askpassDir req) (git_command dir [''push'', dt_remoteName req, ''--delete'', ''refs/tags/'' @ dt_name req])) g of
                  (Inl e, g) \<Rightarrow> (failedWith e (''Deleted locally, but could not delete on '' @ dt_remoteName req @ '': '' @ ge_message e), g)
                | (Inr _, g) \<Rightarrow> (succeededWith (''Deleted tag '' @ dt_name req @ '' locally and on '' @ dt_remoteName req), g)))"

definition describePushTag :: "string \<Rightarrow> string \<Rightarrow> string" where
  "describePushTag remoteName name =
     (if name = [] then ''Push all tags to '' @ remoteName else ''Push tag '' @ name @ '' to '' @ remoteName)"

definition pushTag :: "'g Git \<Rightarrow> string option \<Rightarrow> string \<Rightarrow> string \<Rightarrow> string \<Rightarrow> string \<Rightarrow> 'g \<Rightarrow> OperationOutcome \<times> 'g" where
  "pushTag git exe dir remoteName name askpassDir g =
     runOne git (wire exe askpassDir (git_command dir [''push'', remoteName, if name = [] then ''--tags'' else ''refs/tags/'' @ name]))
       (\<lambda>_. describePushTag remoteName name) g"

section \<open>Committing\<close>

record CommitRequest =
  cq_message :: string
  cq_amend :: bool
  cq_signOff :: bool

definition isBlank :: "string \<Rightarrow> bool" where
  "isBlank s \<longleftrightarrow> list_all is_space s"

definition makeCommitOperation :: "CommitRequest \<Rightarrow> Operation" where
  "makeCommitOperation req = (new_operation (if cq_amend req then ''Amend commit'' else ''Commit''))\<lparr>o_kind := Some ''commit''\<rparr>"

definition keepsMessage :: "CommitRequest \<Rightarrow> bool" where
  "keepsMessage req \<longleftrightarrow> cq_amend req \<and> cq_message req = []"

definition commitCommand :: "string \<Rightarrow> CommitRequest \<Rightarrow> GitCommand" where
  "commitCommand dir req =
     (timed dir ([''commit''] @ (if cq_amend req then [''--amend''] else []) @ (if cq_signOff req then [''--signoff''] else []) @
        (if keepsMessage req then [''--no-edit''] else [''--file'', ''-''])) 120000)
       \<lparr>gc_stdinData := if keepsMessage req then None else Some (cq_message req)\<rparr>"

definition commitStaged :: "'g Git \<Rightarrow> string \<Rightarrow> CommitRequest \<Rightarrow> 'g \<Rightarrow> OperationOutcome \<times> 'g" where
  "commitStaged git dir req g =
     (if \<not> keepsMessage req \<and> isBlank (cq_message req) then (invalidArgument ''The commit message is empty'', g)
      else runOne git (commitCommand dir req) (\<lambda>_. if cq_amend req then ''Amend commit'' else ''Commit'') g)"

section \<open>Remotes\<close>

record RemoteInfo =
  rm_name :: string
  rm_fetchUrl :: string
  rm_pushUrl :: string

record FetchRequest =
  fe_remoteName :: string
  fe_refs :: "string list"
  fe_prune :: bool
  fe_tags :: bool
  fe_askpassDir :: string
  fe_background :: bool
  fe_refsBefore :: "RefSnapshot option"

record PullRequest =
  pl_remoteName :: string
  pl_branch :: string
  pl_rebase :: bool
  pl_stashFirst :: bool
  pl_askpassDir :: string

record PushRequest =
  ps_remoteName :: string
  ps_branches :: "string list"
  ps_setUpstream :: bool
  ps_pushTags :: bool
  ps_forceWithLease :: bool
  ps_askpassDir :: string

definition describeFetch :: "FetchRequest \<Rightarrow> string" where
  "describeFetch req = (if fe_remoteName req = [] then ''Fetch all remotes'' else ''Fetch '' @ fe_remoteName req)"

definition makeFetchOperation :: "FetchRequest \<Rightarrow> Operation" where
  "makeFetchOperation req = (new_operation (describeFetch req))\<lparr>o_kind := Some ''fetch'', o_isBackground := fe_background req\<rparr>"

definition fetchArgs :: "FetchRequest \<Rightarrow> string list" where
  "fetchArgs req =
     [''fetch''] @ (if fe_background req then [''--no-auto-maintenance'', ''--no-write-fetch-head''] else []) @
     (if fe_prune req then [''--prune''] else []) @ (if fe_tags req then [''--tags''] else []) @
     (if fe_remoteName req = [] then [''--all''] else fe_remoteName req # fe_refs req)"

text \<open>
  \<open>loadRefs\<close> is the read of the refs in the state after the fetch; it answers \<open>None\<close> when an exception leaves
  it, which ends the operation.
\<close>

definition refsMovedSinceLastRefresh :: "('g \<Rightarrow> RefSnapshot GitResult option) \<Rightarrow> FetchRequest \<Rightarrow> 'g \<Rightarrow> bool option" where
  "refsMovedSinceLastRefresh loadRefs req g =
     (case fe_refsBefore req of
        None \<Rightarrow> Some True
      | Some before \<Rightarrow>
          (case loadRefs g of
             None \<Rightarrow> None
           | Some (Inl _) \<Rightarrow> Some True
           | Some (Inr after') \<Rightarrow> Some (\<not> sameRefTips before after')))"

definition fetch :: "'g Git \<Rightarrow> ('g \<Rightarrow> RefSnapshot GitResult option) \<Rightarrow> string option \<Rightarrow> string \<Rightarrow> FetchRequest \<Rightarrow> 'g \<Rightarrow> (OperationOutcome \<times> 'g) option" where
  "fetch git loadRefs exe dir req g =
     (if fe_refs req \<noteq> [] \<and> fe_remoteName req = [] then Some (invalidArgument ''Fetching specific refs requires a remote name'', g)
      else let command = git_command dir (fetchArgs req);
               command = (if fe_background req then wireRefusing exe command else wire exe (fe_askpassDir req) command)
           in case git command g of
                (Inl e, g) \<Rightarrow> Some (failedWith e (ge_message e), g)
              | (Inr _, g) \<Rightarrow>
                  if fe_background req
                  then map_option (\<lambda>moved. ((succeededWith (describeFetch req))\<lparr>oo_refsMoved := Some moved\<rparr>, g)) (refsMovedSinceLastRefresh loadRefs req g)
                  else Some (succeededWith (describeFetch req), g))"

definition pullArgs :: "PullRequest \<Rightarrow> string list" where
  "pullArgs req =
     [''pull''] @ (if pl_rebase req then [''--rebase''] else []) @
     (if pl_remoteName req \<noteq> [] then pl_remoteName req # (if pl_branch req \<noteq> [] then [pl_branch req] else []) else [])"

definition pullNow :: "'g Git \<Rightarrow> string option \<Rightarrow> string \<Rightarrow> PullRequest \<Rightarrow> 'g \<Rightarrow> OperationOutcome \<times> 'g" where
  "pullNow git exe dir req g = runOne git (wire exe (pl_askpassDir req) (git_command dir (pullArgs req))) (\<lambda>_. ''Pulled'') g"

definition pull :: "'g Git \<Rightarrow> string option \<Rightarrow> string \<Rightarrow> PullRequest \<Rightarrow> 'g \<Rightarrow> OperationOutcome \<times> 'g" where
  "pull git exe dir req g = stashThen git dir (pl_stashFirst req) ''pull'' ''pulled'' (pullNow git exe dir req) g"

definition pushArgs :: "PushRequest \<Rightarrow> string list" where
  "pushArgs req =
     [''push''] @ (if ps_forceWithLease req then [''--force-with-lease''] else []) @ (if ps_setUpstream req then [''--set-upstream''] else []) @
     (if ps_pushTags req then [''--tags''] else []) @
     (if ps_remoteName req \<noteq> [] then ps_remoteName req # filter (\<lambda>b. b \<noteq> []) (ps_branches req) else [])"

definition describePush :: "PushRequest \<Rightarrow> string" where
  "describePush req =
     ''Push'' @ (if length (ps_branches req) > 1 then '' '' @ to_string (length (ps_branches req)) @ '' branches'' else []) @
     (if ps_remoteName req = [] then [] else '' to '' @ ps_remoteName req)"

definition push :: "'g Git \<Rightarrow> string option \<Rightarrow> string \<Rightarrow> PushRequest \<Rightarrow> 'g \<Rightarrow> OperationOutcome \<times> 'g" where
  "push git exe dir req g = runOne git (wire exe (ps_askpassDir req) (git_command dir (pushArgs req))) (\<lambda>_. describePush req) g"

definition pruneRemote :: "'g Git \<Rightarrow> string \<Rightarrow> string list \<Rightarrow> 'g \<Rightarrow> OperationOutcome \<times> 'g" where
  "pruneRemote git dir refs g =
     (if refs = [] then (succeededWith ''Nothing to prune'', g)
      else runOne git (timed dir ([''branch'', ''--delete'', ''--remotes''] @ refs) 60000)
             (\<lambda>_. ''Pruned '' @ to_string (length refs) @ (if length refs = 1 then '' ref'' else '' refs'')) g)"

definition addRemote :: "'g Git \<Rightarrow> string \<Rightarrow> string \<Rightarrow> string \<Rightarrow> 'g \<Rightarrow> OperationOutcome \<times> 'g" where
  "addRemote git dir name url g =
     (if name = [] then (invalidArgument ''Remote name is required'', g)
      else if url = [] then (invalidArgument ''Remote URL is required'', g)
      else runOne git (timed dir [''remote'', ''add'', name, url] 30000) (\<lambda>_. ''Add remote '' @ name) g)"

definition removeRemote :: "'g Git \<Rightarrow> string \<Rightarrow> string \<Rightarrow> 'g \<Rightarrow> OperationOutcome \<times> 'g" where
  "removeRemote git dir name g =
     (if name = [] then (invalidArgument ''Remote name is required'', g)
      else runOne git (timed dir [''remote'', ''remove'', name] 30000) (\<lambda>_. ''Remove remote '' @ name) g)"

text \<open>A line names a remote, a URL and its use; the first line of a name makes its entry.\<close>

definition setUrl :: "bool \<Rightarrow> string \<Rightarrow> RemoteInfo \<Rightarrow> RemoteInfo" where
  "setUrl isPush url r = (if isPush then r\<lparr>rm_pushUrl := url\<rparr> else r\<lparr>rm_fetchUrl := url\<rparr>)"

fun setRemote :: "string \<Rightarrow> bool \<Rightarrow> string \<Rightarrow> RemoteInfo list \<Rightarrow> RemoteInfo list" where
  "setRemote name isPush url [] = [setUrl isPush url \<lparr>rm_name = name, rm_fetchUrl = [], rm_pushUrl = []\<rparr>]"
| "setRemote name isPush url (r # rs) = (if rm_name r = name then setUrl isPush url r # rs else r # setRemote name isPush url rs)"

definition remoteLine :: "RemoteInfo list \<Rightarrow> string \<Rightarrow> RemoteInfo list" where
  "remoteLine remotes line =
     (case (find_char tab line, rfind_str '' ('' line) of
        (Some t, Some space) \<Rightarrow>
          if space > t
          then setRemote (take t line) (find_str ''push'' (drop space line) \<noteq> None) (substr line (t + 1) (space - t - 1)) remotes
          else remotes
      | _ \<Rightarrow> remotes)"

definition remoteList :: "'g Git \<Rightarrow> string \<Rightarrow> 'g \<Rightarrow> RemoteInfo list GitResult \<times> 'g" where
  "remoteList git dir g =
     (case git (timed dir [''remote'', ''-v''] 30000) g of
        (Inl e, g) \<Rightarrow> (Inl e, g)
      | (Inr out, g) \<Rightarrow> (Inr (foldl remoteLine [] (splitOn nl out)), g))"

definition kWouldPrune :: string where "kWouldPrune = ''[would prune] ''"

definition prunedRef :: "string \<Rightarrow> string list" where
  "prunedRef line =
     (case find_str kWouldPrune line of
        None \<Rightarrow> []
      | Some at \<Rightarrow>
          let ref = drop_back (\<lambda>c. c = cr \<or> c = CHR '' '') (drop (at + length kWouldPrune) line) in if ref = [] then [] else [ref])"

definition prunePreview :: "'g Git \<Rightarrow> string \<Rightarrow> string \<Rightarrow> 'g \<Rightarrow> string list GitResult \<times> 'g" where
  "prunePreview git dir remoteName g =
     (if remoteName = [] then (Inl (git_error InvalidArgument ''No remote selected'' []), g)
      else case git (timed dir [''remote'', ''prune'', remoteName, ''--dry-run''] 30000) g of
             (Inl e, g) \<Rightarrow> (Inl e, g)
           | (Inr out, g) \<Rightarrow> (Inr (concat (map prunedRef (splitOn nl out))), g))"

section \<open>Undoing\<close>

record UndoRequest =
  ud_headBefore :: ObjectId
  ud_branchBefore :: string

definition makeUndoOperation :: "UndoRequest \<Rightarrow> Operation" where
  "makeUndoOperation req = new_operation ''Undo''"

definition undoCommand :: "string \<Rightarrow> UndoRequest \<Rightarrow> GitCommand" where
  "undoCommand dir req = git_command dir [''reset'', ''--hard'', hex (ud_headBefore req)]"

text \<open>\<open>answer\<close> answers the commands by which HEAD is read.\<close>

definition undo :: "'g Git \<Rightarrow> ('g \<Rightarrow> string list \<Rightarrow> string GitResult) \<Rightarrow> string \<Rightarrow> UndoRequest \<Rightarrow> 'g \<Rightarrow> (OperationOutcome \<times> 'g) option" where
  "undo git answer dir req g =
     (if isNull (ud_headBefore req) then Some (invalidArgument ''Nothing to undo'', g)
      else case readHead (answer g) of
             None \<Rightarrow> None
           | Some (Inl e) \<Rightarrow> Some (failedWith e (ge_message e), g)
           | Some (Inr head) \<Rightarrow>
               if ud_branchBefore req \<noteq> [] \<and> hi_kind head = HeadBranch \<and> hi_branchName head \<noteq> ud_branchBefore req
               then Some (invalidArgument (''Switch back to '' @ quoted (ud_branchBefore req) @ '' before undoing this''), g)
               else Some (runOne git (undoCommand dir req) (\<lambda>_. ''Undid the last operation'') g))"

text \<open>The session asks for the undo of the latest entry of its copy of the journal.\<close>

definition undoLastOperation :: "UndoEntry list \<Rightarrow> UndoRequest option" where
  "undoLastOperation journal =
     (if journal = [] then None
      else Some \<lparr>ud_headBefore = ue_headBefore (last journal), ud_branchBefore = ue_branchBefore (last journal)\<rparr>)"

section \<open>Resolving conflicts\<close>

datatype ConflictResolution = TakeOurs | TakeTheirs | MarkResolved | WriteResolved

record ResolveConflictRequest =
  rc_path :: string
  rc_resolution :: ConflictResolution
  rc_oursBlobMissing :: bool
  rc_theirsBlobMissing :: bool
  rc_resolvedContent :: string

definition makeResolveConflictOperation :: "ResolveConflictRequest \<Rightarrow> Operation" where
  "makeResolveConflictOperation req = (new_operation (''Resolve '' @ rc_path req))\<lparr>o_allowedDuringSequencerOperation := True\<rparr>"

definition stageResolved :: "'g Git \<Rightarrow> string \<Rightarrow> string \<Rightarrow> 'g \<Rightarrow> OperationOutcome \<times> 'g" where
  "stageResolved git dir path g = runOne git (timed dir [''add'', ''-A'', ''--'', path] 60000) (\<lambda>_. ''Resolved '' @ path) g"

definition takeSide :: "'g Git \<Rightarrow> string \<Rightarrow> ResolveConflictRequest \<Rightarrow> bool \<Rightarrow> 'g \<Rightarrow> OperationOutcome \<times> 'g" where
  "takeSide git dir req ours g =
     (if (if ours then rc_oursBlobMissing req else rc_theirsBlobMissing req)
      then runOne git (timed dir [''rm'', ''-f'', ''--'', rc_path req] 60000) (\<lambda>_. ''Resolved '' @ rc_path req @ '' as deleted'') g
      else case git (timed dir [''checkout'', if ours then ''--ours'' else ''--theirs'', ''--'', rc_path req] 60000) g of
             (Inl e, g) \<Rightarrow> (failedWith e (ge_message e), g)
           | (Inr _, g) \<Rightarrow> stageResolved git dir (rc_path req) g)"

text \<open>\<open>writeFile\<close> opens, writes and closes a file, and answers whether all of it succeeded.\<close>

definition writeResolved ::
  "'g Git \<Rightarrow> (string \<Rightarrow> string \<Rightarrow> 'g \<Rightarrow> bool \<times> 'g) \<Rightarrow> RepoPaths \<Rightarrow> ResolveConflictRequest \<Rightarrow> 'g \<Rightarrow> OperationOutcome \<times> 'g" where
  "writeResolved git writeFile paths req g =
     (if rc_resolvedContent req = [] then (invalidArgument ''No resolved content to write'', g)
      else if rp_workDir paths = [] then (invalidArgument ''No working tree to write into'', g)
      else case writeFile (path_join (rp_workDir paths) (rc_path req)) (rc_resolvedContent req) g of
             (False, g) \<Rightarrow> (new_outcome\<lparr>oo_error := Some (git_error Io (''Could not write '' @ rc_path req) [])\<rparr>, g)
           | (True, g) \<Rightarrow> stageResolved git (commandDir paths) (rc_path req) g)"

definition resolveConflict ::
  "'g Git \<Rightarrow> (string \<Rightarrow> string \<Rightarrow> 'g \<Rightarrow> bool \<times> 'g) \<Rightarrow> RepoPaths \<Rightarrow> ResolveConflictRequest \<Rightarrow> 'g \<Rightarrow> OperationOutcome \<times> 'g" where
  "resolveConflict git writeFile paths req g =
     (if rc_path req = [] then (invalidArgument ''No path to resolve'', g)
      else case rc_resolution req of
             TakeOurs \<Rightarrow> takeSide git (commandDir paths) req True g
           | TakeTheirs \<Rightarrow> takeSide git (commandDir paths) req False g
           | MarkResolved \<Rightarrow> stageResolved git (commandDir paths) (rc_path req) g
           | WriteResolved \<Rightarrow> writeResolved git writeFile paths req g)"

section \<open>Identity\<close>

record LocalIdentity =
  li_name :: string
  li_email :: string
  li_overridden :: bool

record EffectiveIdentity =
  ei_name :: string
  ei_email :: string

definition readConfigValue :: "'g Git \<Rightarrow> string \<Rightarrow> string list \<Rightarrow> 'g \<Rightarrow> string \<times> 'g" where
  "readConfigValue git dir arguments g =
     (case git ((timed dir arguments 10000)\<lparr>gc_benignExitCodes := [1]\<rparr>) g of
        (Inl _, g) \<Rightarrow> ([], g)
      | (Inr out, g) \<Rightarrow> (drop_back is_line_end out, g))"

definition setLocalIdentity :: "'g Git \<Rightarrow> string \<Rightarrow> string \<Rightarrow> string \<Rightarrow> 'g \<Rightarrow> OperationOutcome \<times> 'g" where
  "setLocalIdentity git dir name email g =
     (case git (timed dir [''config'', ''--local'', ''user.name'', name] 10000) g of
        (Inl e, g) \<Rightarrow> (failedWith e (ge_message e), g)
      | (Inr _, g) \<Rightarrow> runOne git (timed dir [''config'', ''--local'', ''user.email'', email] 10000) (\<lambda>_. ''Set repository Git identity'') g)"

definition unsetCommand :: "string \<Rightarrow> string \<Rightarrow> GitCommand" where
  "unsetCommand dir key = (timed dir [''config'', ''--local'', ''--unset'', key] 10000)\<lparr>gc_benignExitCodes := [5]\<rparr>"

definition clearLocalIdentity :: "'g Git \<Rightarrow> string \<Rightarrow> 'g \<Rightarrow> OperationOutcome \<times> 'g" where
  "clearLocalIdentity git dir g =
     (let g = snd (git (unsetCommand dir ''user.name'') g); g = snd (git (unsetCommand dir ''user.email'') g)
      in (succeededWith ''Clear repository Git identity override'', g))"

definition readLocalIdentity :: "'g Git \<Rightarrow> string \<Rightarrow> 'g \<Rightarrow> LocalIdentity GitResult \<times> 'g" where
  "readLocalIdentity git dir g =
     (let (name, g) = readConfigValue git dir [''config'', ''--local'', ''--get'', ''user.name''] g;
          (email, g) = readConfigValue git dir [''config'', ''--local'', ''--get'', ''user.email''] g
      in (Inr \<lparr>li_name = name, li_email = email, li_overridden = (name \<noteq> [] \<or> email \<noteq> [])\<rparr>, g))"

definition readEffectiveIdentity :: "'g Git \<Rightarrow> string \<Rightarrow> 'g \<Rightarrow> EffectiveIdentity GitResult \<times> 'g" where
  "readEffectiveIdentity git dir g =
     (let (name, g) = readConfigValue git dir [''config'', ''--get'', ''user.name''] g;
          (email, g) = readConfigValue git dir [''config'', ''--get'', ''user.email''] g
      in (Inr \<lparr>ei_name = name, ei_email = email\<rparr>, g))"

section \<open>Messages prepared by git\<close>

record SquashMessagePreview =
  sm_headOid :: ObjectId
  sm_sourceOid :: ObjectId
  sm_message :: string

definition resolveCommit :: "'g Git \<Rightarrow> string \<Rightarrow> string \<Rightarrow> 'g \<Rightarrow> ObjectId GitResult \<times> 'g" where
  "resolveCommit git dir revision g =
     (case git (timed dir [''rev-parse'', ''--verify'', revision @ ''^'' @ [CHR 0x7B] @ ''commit'' @ [CHR 0x7D]] 30000) g of
        (Inl e, g) \<Rightarrow> (Inl e, g)
      | (Inr out, g) \<Rightarrow> (Inr (fromHex (drop_back is_line_end out)), g))"

definition squashLogCommand :: "string \<Rightarrow> ObjectId \<Rightarrow> ObjectId \<Rightarrow> GitCommand" where
  "squashLogCommand dir headOid sourceOid =
     timed dir [''log'', ''--pretty=medium'', ''--no-decorate'', ''--no-abbrev-commit'', ''--no-mailmap'', ''--no-expand-tabs'', ''--no-notes'',
       ''--no-show-signature'', ''--no-color'', ''--date=default'', hex headOid @ ''..'' @ hex sourceOid] 60000"

definition squashPreview :: "'g Git \<Rightarrow> string \<Rightarrow> string \<Rightarrow> 'g \<Rightarrow> SquashMessagePreview GitResult \<times> 'g" where
  "squashPreview git dir source g =
     (if source = [] \<or> hd source = CHR ''-'' then (Inl (git_error InvalidArgument (''Not a branch to squash: '' @ source) []), g)
      else case resolveCommit git dir ''HEAD'' g of
             (Inl e, g) \<Rightarrow> (Inl e, g)
           | (Inr head, g) \<Rightarrow>
               (case resolveCommit git dir source g of
                  (Inl e, g) \<Rightarrow> (Inl e, g)
                | (Inr tip, g) \<Rightarrow>
                    (case git (squashLogCommand dir head tip) g of
                       (Inl e, g) \<Rightarrow> (Inl e, g)
                     | (Inr log, g) \<Rightarrow>
                         (Inr \<lparr>sm_headOid = head, sm_sourceOid = tip,
                               sm_message = (if log = [] then [] else ''Squashed commit of the following:'' @ [nl, nl] @ log @ [nl])\<rparr>, g))))"

text \<open>\<open>readSmall\<close> reads a file, if it is there.\<close>

definition mergeMsgFile :: "RepoPaths \<Rightarrow> string" where "mergeMsgFile p = path_join (rp_gitDir p) ''MERGE_MSG''"

definition rebaseMergeMessageFile :: "RepoPaths \<Rightarrow> string" where "rebaseMergeMessageFile p = path_join (rebaseMergeDir p) ''message''"

definition readPreparedCommitMessage :: "(string \<Rightarrow> string option) \<Rightarrow> RepoPaths \<Rightarrow> string" where
  "readPreparedCommitMessage readSmall paths =
     (case readSmall (squashMsgFile paths) of None \<Rightarrow> [] | Some m \<Rightarrow> m) @ (case readSmall (mergeMsgFile paths) of None \<Rightarrow> [] | Some m \<Rightarrow> m)"

definition readOriginalOperationMessage :: "(string \<Rightarrow> string option) \<Rightarrow> RepoPaths \<Rightarrow> string" where
  "readOriginalOperationMessage readSmall paths =
     (case readSmall (rebaseMergeMessageFile paths) of
        Some m \<Rightarrow> m
      | None \<Rightarrow> (case readSmall (mergeMsgFile paths) of Some m \<Rightarrow> m | None \<Rightarrow> []))"

definition preparedMessage :: "'g Git \<Rightarrow> ('g \<Rightarrow> string \<Rightarrow> string option) \<Rightarrow> RepoPaths \<Rightarrow> 'g \<Rightarrow> string GitResult \<times> 'g" where
  "preparedMessage git readSmall paths g =
     (let prepared = readPreparedCommitMessage (readSmall g) paths
      in if prepared = [] then (Inr [], g)
         else git ((timed (commandDir paths) [''stripspace'', ''--strip-comments''] 30000)\<lparr>gc_stdinData := Some prepared\<rparr>) g)"

end
