(* ===== verification/RepositoryPromises.thy ===== *)
theory RepositoryPromises
  imports RepositoryOperations MetaReading ReplayPromises
begin

text \<open>
  What the operations on the repository keep: the lists git prints line by line are read back as the stashes,
  remotes and untracked files they describe; a pull stashes before it pulls; and where an undo may land.
\<close>

section \<open>Lists printed line by line\<close>

text \<open>An output of git: lines that describe an item each, and lines that describe none.\<close>

definition printed_lines :: "('e \<Rightarrow> string) \<Rightarrow> ('e + string) list \<Rightarrow> string" where
  "printed_lines text_of ls = joined nl (map (case_sum text_of (\<lambda>s. s)) ls)"

definition described :: "('e + string) list \<Rightarrow> 'e list" where
  "described ls = concat (map (case_sum (\<lambda>e. [e]) (\<lambda>_. [])) ls)"

lemma described_simps [simp]: "described [] = []" "described (Inl e # ls) = e # described ls" "described (Inr s # ls) = described ls"
  by (simp_all add: described_def)

lemma described_all [simp]: "described (map Inl es) = es"
  by (induction es) simp_all

text \<open>
  A reader that turns each line into the entries it describes. The line of an item comes back as that item, and
  the lines of the list that describe no item are skipped.
\<close>

locale line_list =
  fixes text_of :: "'e \<Rightarrow> string" and readLine :: "string \<Rightarrow> 'e list" and good :: "'e \<Rightarrow> bool" and skipped :: "string \<Rightarrow> bool"
  assumes item_line: "good e \<Longrightarrow> nl \<notin> set (text_of e)"
    and item_read: "good e \<Longrightarrow> readLine (text_of e) = [e]"
    and skipped_line: "skipped s \<Longrightarrow> nl \<notin> set s"
    and skipped_read: "skipped s \<Longrightarrow> readLine s = []"
    and empty_read: "readLine [] = []"
begin

lemma each_line_read: "list_all (case_sum good skipped) ls \<Longrightarrow> concat (map (readLine \<circ> case_sum text_of (\<lambda>s. s)) ls) = described ls"
  by (induction ls) (auto simp: item_read skipped_read split: sum.splits)

lemma list_read:
  assumes "list_all (case_sum good skipped) ls"
  shows "concat (map readLine (splitOn nl (printed_lines text_of ls))) = described ls"
proof (cases "ls = []")
  case True
  then show ?thesis by (simp add: printed_lines_def splitOn.simps empty_read)
next
  case False
  have "list_all (\<lambda>f. nl \<notin> set f) (map (case_sum text_of (\<lambda>s. s)) ls)"
    using assms by (auto simp: list_all_iff item_line skipped_line split: sum.splits)
  with False show ?thesis
    using each_line_read [OF assms] by (simp add: printed_lines_def splitOn_joined)
qed

end

section \<open>Stashes\<close>

definition stash_line :: "StashEntry \<Rightarrow> string" where
  "stash_line e = joined (CHR 0x09) [''stash'' @ CHR 0x40 # CHR 0x7B # to_string (nat (se_index e)) @ [CHR 0x7D], se_oid e,
     int_to_string (se_timestamp e), se_message e]"

definition git_stash :: "StashEntry \<Rightarrow> bool" where
  "git_stash e \<longleftrightarrow> 0 \<le> se_index e \<and> se_index e < 2 ^ 31 \<and> plain (se_oid e) \<and> \<bar>se_timestamp e\<bar> < 2 ^ 63 \<and> plain (se_message e)"

lemma parseStashIndex_reflog: "parseStashIndex = parseReflogIndex"
  by (simp add: fun_eq_iff parseStashIndex_def parseReflogIndex_def)

lemma stash_line_read:
  assumes "git_stash e"
  shows "readColumns 4 stashColumn (stash_line e) new_stash = e"
proof -
  have idx: "nat (se_index e) < 2 ^ 31" using assms by (auto simp: git_stash_def)
  have "CHR 0x09 \<notin> set (to_string (nat (se_index e)))" by (rule notin_to_string) simp
  then have cols: "list_all (\<lambda>f. CHR 0x09 \<notin> set f) [''stash'' @ CHR 0x40 # CHR 0x7B # to_string (nat (se_index e)) @ [CHR 0x7D], se_oid e,
     int_to_string (se_timestamp e), se_message e]"
    using assms int_to_string_free [of "CHR 0x09"] by (simp add: git_stash_def plain_def)
  show ?thesis
    unfolding stash_line_def using assms parseReflogIndex_text [OF idx, of "''stash''"] parseInt_text [of "se_timestamp e" "[]"]
    by (subst readColumns_joined [OF cols])
      (simp_all add: enumerate_eq_zip stashColumn_def git_stash_def parseStashIndex_reflog new_stash_def)
qed

lemma stash_line_no_nl: "git_stash e \<Longrightarrow> nl \<notin> set (stash_line e) \<and> stash_line e \<noteq> []"
  using int_to_string_free [of nl "se_timestamp e"] notin_to_string [of nl "nat (se_index e)"]
  by (simp add: stash_line_def git_stash_def plain_def)

interpretation stash_lines: line_list stash_line "\<lambda>line. if line = [] then [] else [readColumns 4 stashColumn line new_stash]" git_stash "\<lambda>s. s = []"
  by unfold_locales (simp_all add: stash_line_no_nl stash_line_read)

lemma concat_unless: "concat (map (\<lambda>x. if P x then [] else [f x]) xs) = map f (filter (\<lambda>x. \<not> P x) xs)"
  by (induction xs) simp_all

lemma stashLines_concat:
  "stashLines out = concat (map (\<lambda>line. if line = [] then [] else [readColumns 4 stashColumn line new_stash]) (splitOn nl out))"
  by (simp add: stashLines_def concat_unless)

text \<open>The stashes git lists are read back in order, with index, commit, time and message.\<close>

theorem stashes_read_back:
  assumes "list_all git_stash es" and "git (timed dir [''stash'', ''list'', ''--format=%gd%x09%H%x09%at%x09%gs''] 30000) g = (Inr (printed_lines stash_line (map Inl es)), g')"
  shows "stashList git dir g = (Inr es, g')"
proof -
  have "list_all (case_sum git_stash (\<lambda>s. s = [])) (map Inl es)" using assms(1) by (simp add: list_all_iff)
  from stash_lines.list_read [OF this] show ?thesis using assms(2) by (simp add: stashList_def stashLines_concat)
qed

definition sample_stash :: StashEntry where
  "sample_stash = \<lparr>se_index = 12, se_message = ''WIP on main'', se_oid = ''a1b2'', se_timestamp = 1700000000\<rparr>"

theorem stashes_read_back_witness:
  "stashList (\<lambda>c g. (Inr (printed_lines stash_line [Inl sample_stash]), g)) ''/r'' () = (Inr [sample_stash], ())"
  using stashes_read_back [of "[sample_stash]" "\<lambda>c g. (Inr (printed_lines stash_line [Inl sample_stash]), g)" "''/r''" "()" "()"]
  by (simp add: git_stash_def sample_stash_def plain_def)

section \<open>Untracked files\<close>

definition clean_line :: "CleanEntry \<Rightarrow> string" where
  "clean_line e = kWouldRemove @ ce_path e @ (if ce_isDirectory e then ''/'' else [])"

definition git_clean :: "CleanEntry \<Rightarrow> bool" where
  "git_clean e \<longleftrightarrow> nl \<notin> set (ce_path e) \<and> (ce_isDirectory e \<or> ce_path e = [] \<or> last (ce_path e) \<noteq> CHR ''/'')"

interpretation clean_lines: line_list clean_line cleanLine git_clean "\<lambda>s. nl \<notin> set s \<and> \<not> starts_with s kWouldRemove"
proof
  show "cleanLine (clean_line e) = [e]" if "git_clean e" for e
    using that by (cases "ce_isDirectory e") (auto simp: clean_line_def cleanLine_def git_clean_def Let_def)
qed (auto simp: clean_line_def cleanLine_def git_clean_def kWouldRemove_def starts_with_def)

text \<open>
  The names git prints as they are come back, with directories told from files, and the lines about other
  repositories are skipped; so removing what was previewed names exactly these paths to git.
\<close>

theorem clean_preview_reads_back:
  assumes "list_all (case_sum git_clean (\<lambda>s. nl \<notin> set s \<and> \<not> starts_with s kWouldRemove)) ls"
    and "git (timed dir ([''clean'', ''-n'', ''-d''] @ (if x then [''-x''] else [])) 60000) g = (Inr (printed_lines clean_line ls), g')"
  shows "cleanPreview git dir x g = (Inr (described ls), g')"
  using clean_lines.list_read [OF assms(1)] assms(2) by (simp add: cleanPreview_def)

definition sample_clean :: "(CleanEntry + string) list" where
  "sample_clean = [Inl \<lparr>ce_path = ''build'', ce_isDirectory = True\<rparr>, Inr ''Would skip repository sub/'', Inl \<lparr>ce_path = ''a b.txt'', ce_isDirectory = False\<rparr>]"

theorem clean_preview_reads_back_witness:
  "fst (cleanPreview (\<lambda>c g. (Inr (printed_lines clean_line sample_clean), g)) ''/r'' False ()) =
     Inr [\<lparr>ce_path = ''build'', ce_isDirectory = True\<rparr>, \<lparr>ce_path = ''a b.txt'', ce_isDirectory = False\<rparr>]"
  using clean_preview_reads_back [of sample_clean "\<lambda>c g. (Inr (printed_lines clean_line sample_clean), g)" "''/r''" False "()" "()"]
  by (simp add: git_clean_def sample_clean_def kWouldRemove_def starts_with_def)

text \<open>
  A name that git quotes is not read as the name of the file: the file \<^verbatim>\<open>a"b\<close>, which git clean prints as
  \<^verbatim>\<open>"a\"b"\<close>, is previewed under its quoted form, and removing the previewed entry names another path to git.
\<close>

lemma quoted_name_kept_quoted:
  "cleanLine (kWouldRemove @ [CHR 0x22] @ ''a'' @ [CHR 0x5C, CHR 0x22] @ ''b'' @ [CHR 0x22]) =
     [\<lparr>ce_path = [CHR 0x22] @ ''a'' @ [CHR 0x5C, CHR 0x22] @ ''b'' @ [CHR 0x22], ce_isDirectory = False\<rparr>]"
  by (simp add: cleanLine_def kWouldRemove_def starts_with_def)

section \<open>Stale remote branches\<close>

definition prune_line :: "string \<Rightarrow> string" where
  "prune_line ref = '' * '' @ kWouldPrune @ ref"

definition git_pruned :: "string \<Rightarrow> bool" where
  "git_pruned ref \<longleftrightarrow> ref \<noteq> [] \<and> nl \<notin> set ref \<and> last ref \<notin> {cr, CHR '' ''}"

interpretation prune_lines: line_list prune_line prunedRef git_pruned "\<lambda>s. nl \<notin> set s \<and> find_str kWouldPrune s = None"
proof
  show "prunedRef (prune_line ref) = [ref]" if "git_pruned ref" for ref
  proof -
    have "find_str kWouldPrune (prune_line ref) = Some 3" by (simp add: prune_line_def kWouldPrune_def starts_with_def)
    moreover have "drop_back (\<lambda>c. c = cr \<or> c = CHR '' '') ref = ref"
      using that drop_back_stop [of ref "\<lambda>c. c = cr \<or> c = CHR '' ''" "[]"] by (auto simp: git_pruned_def)
    ultimately show ?thesis using that by (simp add: prunedRef_def prune_line_def kWouldPrune_def git_pruned_def)
  qed
qed (auto simp: prune_line_def prunedRef_def git_pruned_def kWouldPrune_def)

section \<open>Remotes\<close>

lemma rfind_str_append: "rfind_str p t = Some i \<Longrightarrow> rfind_str p (s @ t) = Some (length s + i)"
  by (induction s) simp_all

definition remote_line :: "string \<Rightarrow> string \<Rightarrow> string \<Rightarrow> string" where
  "remote_line name url purpose = name @ tab # url @ '' ('' @ purpose @ '')''"

definition remote_lines :: "RemoteInfo \<Rightarrow> string list" where
  "remote_lines r = [remote_line (rm_name r) (rm_fetchUrl r) ''fetch'', remote_line (rm_name r) (rm_pushUrl r) ''push'']"

definition git_remote :: "RemoteInfo \<Rightarrow> bool" where
  "git_remote r \<longleftrightarrow> plain (rm_name r) \<and> nl \<notin> set (rm_fetchUrl r) \<and> nl \<notin> set (rm_pushUrl r)"

lemma remoteLine_text:
  assumes "tab \<notin> set name" and "purpose \<in> {''fetch'', ''push''}"
  shows "remoteLine acc (remote_line name url purpose) = setRemote name (purpose = ''push'') url acc"
proof -
  let ?line = "remote_line name url purpose"
  have tab: "find_char tab ?line = Some (length name)" using assms(1) by (simp add: remote_line_def find_char_append_notin)
  have "rfind_str '' ('' ((name @ tab # url) @ '' ('' @ purpose @ '')'') = Some (length (name @ tab # url) + 0)"
    by (rule rfind_str_append) (use assms(2) in \<open>auto simp: starts_with_def\<close>)
  then have space: "rfind_str '' ('' ?line = Some (length name + 1 + length url)" by (simp add: remote_line_def)
  have "find_str ''push'' ('' ('' @ purpose @ '')'') \<noteq> None \<longleftrightarrow> purpose = ''push''" using assms(2) by (auto simp: starts_with_def)
  then show ?thesis unfolding remoteLine_def tab space by (simp add: remote_line_def substr_def)
qed

lemma setRemote_new: "name \<notin> rm_name ` set acc \<Longrightarrow> setRemote name p url acc = acc @ [setUrl p url \<lparr>rm_name = name, rm_fetchUrl = [], rm_pushUrl = []\<rparr>]"
  by (induction acc) auto

lemma setRemote_last: "rm_name r \<notin> rm_name ` set acc \<Longrightarrow> setRemote (rm_name r) p url (acc @ [r]) = acc @ [setUrl p url r]"
  by (induction acc) auto

lemma remote_both:
  assumes "git_remote r" and "rm_name r \<notin> rm_name ` set acc"
  shows "foldl remoteLine acc (remote_lines r) = acc @ [r]"
proof -
  have tab: "tab \<notin> set (rm_name r)" using assms(1) by (simp add: git_remote_def plain_def)
  let ?r = "\<lparr>rm_name = rm_name r, rm_fetchUrl = rm_fetchUrl r, rm_pushUrl = []\<rparr>"
  have "setRemote (rm_name r) True (rm_pushUrl r) (acc @ [?r]) = acc @ [setUrl True (rm_pushUrl r) ?r]"
    using setRemote_last [of ?r acc] assms(2) by simp
  with tab assms(2) show ?thesis by (simp add: remote_lines_def remoteLine_text setRemote_new setUrl_def)
qed

text \<open>Every remote is read back with the URL it fetches from and the URL it pushes to, whatever characters a URL holds.\<close>

theorem remotes_read_back:
  assumes "list_all git_remote rs" and "distinct (map rm_name rs)"
    and "git (timed dir [''remote'', ''-v''] 30000) g = (Inr (joined nl (concat (map remote_lines rs))), g')"
  shows "remoteList git dir g = (Inr rs, g')"
proof -
  have read: "foldl remoteLine [] (concat (map remote_lines rs)) = rs" using assms(1,2)
  proof (induction rs rule: rev_induct)
    case (snoc r rs)
    then show ?case using remote_both [of r rs] by simp
  qed simp
  have "list_all (\<lambda>f. nl \<notin> set f) (concat (map remote_lines rs))"
    using assms(1) by (auto simp: list_all_iff remote_lines_def remote_line_def git_remote_def plain_def)
  moreover have "concat (map remote_lines rs) = [] \<longleftrightarrow> rs = []" by (cases rs) (simp_all add: remote_lines_def)
  ultimately have "foldl remoteLine [] (splitOn nl (joined nl (concat (map remote_lines rs)))) = rs"
    using read by (cases "rs = []") (simp add: splitOn.simps remoteLine_def, simp add: splitOn_joined)
  then show ?thesis using assms(3) by (simp add: remoteList_def)
qed

definition sample_remotes :: "RemoteInfo list" where
  "sample_remotes = [\<lparr>rm_name = ''origin'', rm_fetchUrl = ''/srv/a (b).git'', rm_pushUrl = ''push@h:c''\<rparr>, \<lparr>rm_name = ''up'', rm_fetchUrl = ''u'', rm_pushUrl = ''u''\<rparr>]"

theorem remotes_read_back_witness:
  "remoteList (\<lambda>c g. (Inr (joined nl (concat (map remote_lines sample_remotes))), g)) ''/r'' () = (Inr sample_remotes, ())"
  by (rule remotes_read_back) (simp_all add: sample_remotes_def git_remote_def plain_def)

section \<open>Pulling\<close>

interpretation pulls: stashing_operation "\<lambda>req git. pull git exe dir req" dir "\<lambda>_. None" pl_stashFirst "\<lambda>_. ''pull''" "''pulled''"
    "\<lambda>req git. pullNow git exe dir req" for exe dir
proof
  show "asks_no_stash (pullNow (logging answers) exe dir r)" for r answers
  proof (rule one_command_no_stash)
    show "snd (pullNow (logging answers) exe dir r log) =
        log @ [(wire exe (pl_askpassDir r) (git_command dir (pullArgs r)), answers log (wire exe (pl_askpassDir r) (git_command dir (pullArgs r))))]" for log
      by (simp add: pullNow_def runOne_def logging_def split: sum.split)
    show "\<not> stashes (wire exe (pl_askpassDir r) (git_command dir (pullArgs r)))"
      by (simp add: stashes_def git_command_def pullArgs_def)
  qed
qed (simp_all add: pull_def)

text \<open>
  A pull that is to stash first asks nothing else of git until the stash has succeeded, and ends with the error of
  the stash when it fails.
\<close>

theorem pull_stashes_first:
  assumes "pull (logging answers) exe dir req log = (out, log')"
  shows "(\<exists>e. pl_stashFirst req \<and> asked log log' = [(stashCommand dir ''pull'', Inl e)] \<and> oo_error out = Some e \<and> \<not> oo_succeeded out) \<or>
    (\<exists>saved command. asked log log' = (if pl_stashFirst req then [(stashCommand dir ''pull'', Inr saved)] else []) @ [command] \<and>
       gc_args (fst command) = pullArgs req)"
proof (cases "pl_stashFirst req")
  case True
  with assms show ?thesis
    by (cases "answers log (stashCommand dir ''pull'')")
      (auto simp: pull_def stashThen_def pullNow_def runOne_def logging_def git_command_def failedWith_def new_outcome_def split: sum.splits)
next
  case False
  with assms show ?thesis
    by (auto simp: pull_def stashThen_def pullNow_def runOne_def logging_def git_command_def split: sum.splits)
qed

section \<open>Undoing\<close>

lemma undo_asks:
  assumes "undoLastOperation (recordUndoPoint journal what (Inr before) t) = Some req" and "\<not> isNull (hi_target before)"
    and "readHead (answer log) = Some (Inr now)" and "undo (logging answers) answer dir req log = Some (out, log')"
  shows "map (gc_args \<circ> fst) (asked log log') =
    (if hi_branchName before \<noteq> [] \<and> hi_kind now = HeadBranch \<and> hi_branchName now \<noteq> hi_branchName before then []
     else [[''reset'', ''--hard'', hex (hi_target before)]])"
proof -
  have "req = \<lparr>ud_headBefore = hi_target before, ud_branchBefore = hi_branchName before\<rparr>"
    using assms(1) by (auto simp: undoLastOperation_def recordUndoPoint_def Let_def last_tl split: if_splits)
  with assms(2-) show ?thesis
    by (auto simp: undo_def undoCommand_def runOne_def logging_def asked_def git_command_def split: if_splits sum.splits)
qed

definition detached_at :: "ObjectId \<Rightarrow> HeadInfo" where
  "detached_at oid = \<lparr>hi_kind = HeadDetached, hi_branchName = [], hi_fullRef = [], hi_target = oid\<rparr>"

text \<open>
  An operation that started with HEAD detached and ended on a branch, a checkout say, is undone by resetting that
  branch, with the work tree, to the commit HEAD was detached at.
\<close>

lemma undo_moves_other_branch:
  assumes "\<not> isNull oid" and "undoLastOperation (recordUndoPoint journal what (Inr (detached_at oid)) t) = Some req"
    and "readHead (answer log) = Some (Inr now)" and "hi_kind now = HeadBranch" and "undo (logging answers) answer dir req log = Some (out, log')"
  shows "map (gc_args \<circ> fst) (asked log log') = [[''reset'', ''--hard'', hex oid]]"
  using undo_asks [OF assms(2) _ assms(3,5)] assms(1) by (simp add: detached_at_def)

definition main_answer :: "string list \<Rightarrow> string GitResult" where
  "main_answer arguments = Inr (''aa'' @ [nl] @ ''refs/heads/main'')"

lemma main_answer_read:
  "readHead main_answer =
     Some (Inr \<lparr>hi_kind = HeadBranch, hi_branchName = ''main'', hi_fullRef = ''refs/heads/main'', hi_target = fromHex ''aa''\<rparr>)"
  by (simp add: main_answer_def readHead_def kHeadsPrefix_def)

lemma last_request:
  "undoLastOperation (recordUndoPoint [] what (Inr before) t) = Some \<lparr>ud_headBefore = hi_target before, ud_branchBefore = hi_branchName before\<rparr>"
  by (simp add: undoLastOperation_def recordUndoPoint_def kMaxUndoEntries_def)

lemma undo_returns:
  assumes "\<not> isNull oid"
  obtains out log' where "undo (logging (\<lambda>_ _. Inr [])) (\<lambda>_. main_answer) ''/r'' \<lparr>ud_headBefore = oid, ud_branchBefore = b\<rparr> [] = Some (out, log')"
  using assms by (cases "undo (logging (\<lambda>_ _. Inr [])) (\<lambda>_. main_answer) ''/r'' \<lparr>ud_headBefore = oid, ud_branchBefore = b\<rparr> []")
    (auto simp: undo_def main_answer_read split: if_splits)

lemma sample_not_null: "\<not> isNull sample_oid"
  using sample_printable by (simp add: printable_oid_def)

text \<open>The branch that is checked out, none when HEAD is detached, has changed since.\<close>

definition checkout_changed :: "HeadInfo \<Rightarrow> HeadInfo \<Rightarrow> bool" where
  "checkout_changed before now \<longleftrightarrow> hi_branchName now \<noteq> hi_branchName before"

text \<open>
  C20. Undo does not keep its promise to refuse when what is checked out has changed since the operation. It refuses, and
  asks nothing of git, when a branch was checked out then and another branch is now. But when HEAD was detached then and
  a branch is checked out now, it resets that branch, which the operation may never have touched, with the work tree to
  the commit recorded; and it resets too when a branch was checked out then and HEAD is detached now.
\<close>

theorem undo_resets_changed_branch:
  assumes "undoLastOperation (recordUndoPoint journal what (Inr before) t) = Some req" and "\<not> isNull (hi_target before)"
    and "readHead (answer log) = Some (Inr now)" and "checkout_changed before now" and "undo (logging answers) answer dir req log = Some (out, log')"
  shows "map (gc_args \<circ> fst) (asked log log') =
    (if hi_branchName before \<noteq> [] \<and> hi_kind now = HeadBranch then [] else [[''reset'', ''--hard'', hex (hi_target before)]])"
  using undo_asks [OF assms(1-3,5)] assms(4) by (simp add: checkout_changed_def split: if_splits)

theorem undo_resets_changed_branch_witness:
  "map (gc_args \<circ> fst) (asked [] (snd (the (undo (logging (\<lambda>_ _. Inr [])) (\<lambda>_. main_answer) ''/r''
     \<lparr>ud_headBefore = sample_oid, ud_branchBefore = []\<rparr> [])))) = [[''reset'', ''--hard'', hex sample_oid]]"
proof -
  obtain out log' where ran': "undo (logging (\<lambda>_ _. Inr [])) (\<lambda>_. main_answer) ''/r'' \<lparr>ud_headBefore = sample_oid, ud_branchBefore = []\<rparr> [] = Some (out, log')"
    by (rule undo_returns [OF sample_not_null])
  have "map (gc_args \<circ> fst) (asked [] log') = [[''reset'', ''--hard'', hex sample_oid]]"
    using undo_resets_changed_branch [where answer = "\<lambda>_. main_answer", OF last_request [of "''x''" "detached_at sample_oid" 0] _ main_answer_read, where log = "[]" and answers = "\<lambda>_ _. Inr []" and dir = "''/r''" and out = out and log' = log'] ran' sample_not_null
    by (simp add: detached_at_def checkout_changed_def)
  then show ?thesis unfolding ran' by simp
qed

end
