(* ===== verification/CatFiles.thy ===== *)
theory CatFiles
  imports CommitMetas GitProcesses OperationSteps
begin

text \<open>
  The long-lived \<^verbatim>\<open>git cat-file --batch\<close> of \<^verbatim>\<open>src/core/git/CatFileBatch.cpp\<close>, which answers a request for an object
  with a header line, as many bytes as the header says and a line end. The child process, its pipes and the
  watchdog that kills it are what the system answers, an argument.
\<close>

section \<open>The child and its pipes\<close>

text \<open>
  What the system does on a state \<open>'w\<close>. \<open>pp_spawn\<close> starts a child and its watchdog, or says why it could not;
  \<open>pp_close\<close> ends them. \<open>pp_write\<close> and \<open>pp_read\<close> are one call each, repeated when interrupted: how many bytes were
  taken, none when it failed; and which bytes came, none at the end or when it failed. \<open>pp_arm\<close> starts the clock
  of a request and \<open>pp_disarm\<close> ends it, answering whether the watchdog had killed the child for it.
\<close>

record 'w Pipes =
  pp_spawn :: "string list \<Rightarrow> 'w \<Rightarrow> GitError option \<times> 'w"
  pp_close :: "'w \<Rightarrow> 'w"
  pp_write :: "string \<Rightarrow> 'w \<Rightarrow> nat \<times> 'w"
  pp_read :: "nat \<Rightarrow> 'w \<Rightarrow> string \<times> 'w"
  pp_arm :: "int \<Rightarrow> 'w \<Rightarrow> 'w"
  pp_disarm :: "'w \<Rightarrow> bool \<times> 'w"
  pp_cancelled :: "'w \<Rightarrow> bool"
  pp_nextOperationId :: "'w \<Rightarrow> nat \<times> 'w"
  pp_queuedOperationId :: "'w \<Rightarrow> nat"
  pp_recordOperation :: "OperationRecord \<Rightarrow> 'w \<Rightarrow> 'w"

function writeAll :: "'w Pipes \<Rightarrow> string \<Rightarrow> 'w \<Rightarrow> bool \<times> 'w" where
  "writeAll pp data w =
     (if data = [] then (True, w)
      else case pp_write pp data w of (n, w) \<Rightarrow> if n = 0 then (False, w) else writeAll pp (drop n data) w)"
  by pat_completeness auto
termination by (relation "measure (\<lambda>(pp, data, w). length data)") auto

function readExact :: "'w Pipes \<Rightarrow> nat \<Rightarrow> 'w \<Rightarrow> string option \<times> 'w" where
  "readExact pp n w =
     (if n = 0 then (Some [], w)
      else case pp_read pp n w of
             (bytes, w) \<Rightarrow>
               if bytes = [] then (None, w)
               else (case readExact pp (n - length bytes) w of (rest, w) \<Rightarrow> (map_option ((@) bytes) rest, w)))"
  by pat_completeness auto
termination by (relation "measure (\<lambda>(pp, n, w). n)") auto

definition kMaxHeader :: nat where "kMaxHeader = 64 * 1024"

function readHeader :: "'w Pipes \<Rightarrow> string \<Rightarrow> 'w \<Rightarrow> string option \<times> 'w" where
  "readHeader pp out w =
     (if length out > kMaxHeader then (None, w)
      else case pp_read pp 1 w of
             ([], w) \<Rightarrow> (None, w)
           | (c # _, w) \<Rightarrow> if c = nl then (Some out, w) else readHeader pp (out @ [c]) w)"
  by pat_completeness auto
termination by (relation "measure (\<lambda>(pp, out, w). Suc kMaxHeader - length out)") auto

function drainPayload :: "'w Pipes \<Rightarrow> nat \<Rightarrow> 'w \<Rightarrow> bool \<times> 'w" where
  "drainPayload pp remaining w =
     (if remaining = 0 then (True, w)
      else case pp_read pp (min remaining (64 * 1024)) w of
             (bytes, w) \<Rightarrow> if bytes = [] then (False, w) else drainPayload pp (remaining - length bytes) w)"
  by pat_completeness auto
termination by (relation "measure (\<lambda>(pp, remaining, w). remaining)") auto

declare writeAll.simps [simp del] readExact.simps [simp del] readHeader.simps [simp del] drainPayload.simps [simp del]

section \<open>One request and its answer\<close>

record Object =
  ob_oid :: ObjectId
  ob_type :: string
  ob_content :: string

definition kMaxObjectBytes :: nat where "kMaxObjectBytes = 128 * 1024 * 1024"

text \<open>The size, in 64 bits.\<close>

fun headerSize :: "string \<Rightarrow> nat \<Rightarrow> nat option" where
  "headerSize [] n = Some n"
| "headerSize (c # cs) n = (if is_digit c then headerSize cs ((n * 10 + digit_val c) mod 2 ^ 64) else None)"

text \<open>What a header line says: an error, and whether it poisons the child; or an object and its size.\<close>

definition readHeaderLine :: "string \<Rightarrow> string \<Rightarrow> (GitError \<times> bool) + (ObjectId \<times> string \<times> nat)" where
  "readHeaderLine revision header =
     (if length header > 8 \<and> drop (length header - 8) header = '' missing''
      then Inl (git_error NotFound (''No such object: '' @ revision) [], False)
      else if find_str '' ambiguous'' header \<noteq> None
      then Inl (git_error InvalidArgument (''Ambiguous object name: '' @ revision) [], False)
      else case find_char (CHR '' '') header of
             None \<Rightarrow> Inl (git_error ParseError ''Unexpected cat-file response'' header, True)
           | Some firstSpace \<Rightarrow>
               (case find_char_from (CHR '' '') header (firstSpace + 1) of
                  None \<Rightarrow> Inl (git_error ParseError ''Unexpected cat-file response'' header, True)
                | Some secondSpace \<Rightarrow>
                    (case headerSize (drop (secondSpace + 1) header) 0 of
                       None \<Rightarrow> Inl (git_error ParseError ''Unexpected cat-file size'' header, True)
                     | Some n \<Rightarrow>
                         Inr (fromHex (take firstSpace header), substr header (firstSpace + 1) (secondSpace - firstSpace - 1), n))))"

definition stoppedResponding :: GitError where
  "stoppedResponding = git_error Io ''The git cat-file process stopped responding'' []"

definition tooLarge :: "nat \<Rightarrow> GitError" where
  "tooLarge n = git_error TooLarge (''Object is too large to display ('' @ to_string (n div (1024 * 1024)) @ '' MB)'') []"

definition readPayload :: "'w Pipes \<Rightarrow> ObjectId \<times> string \<times> nat \<Rightarrow> 'w \<Rightarrow> (Object GitResult \<times> bool) \<times> 'w" where
  "readPayload pp = (\<lambda>(oid, kind, n) w.
     if n > kMaxObjectBytes
     then (case drainPayload pp ((n + 1) mod 2 ^ 64) w of (complete, w) \<Rightarrow> ((Inl (tooLarge n), \<not> complete), w))
     else case readExact pp n w of
            (None, w) \<Rightarrow> ((Inl (git_error Io ''The git cat-file process stopped mid-object'' []), True), w)
          | (Some content, w) \<Rightarrow>
              (case readExact pp 1 w of
                 (trailing, w) \<Rightarrow>
                   if trailing \<noteq> Some [nl] then ((Inl (git_error ParseError ''Malformed cat-file record terminator'' []), True), w)
                   else ((Inr \<lparr>ob_oid = oid, ob_type = kind, ob_content = content\<rparr>, False), w)))"

text \<open>The answer to a request, and whether the child is poisoned by it.\<close>

definition exchangeLocked :: "'w Pipes \<Rightarrow> string \<Rightarrow> 'w \<Rightarrow> (Object GitResult \<times> bool) \<times> 'w" where
  "exchangeLocked pp revision w =
     (case writeAll pp (revision @ [nl]) w of
        (False, w) \<Rightarrow> ((Inl stoppedResponding, True), w)
      | (True, w) \<Rightarrow>
          (case readHeader pp [] w of
             (None, w) \<Rightarrow> ((Inl stoppedResponding, True), w)
           | (Some header, w) \<Rightarrow>
               (case readHeaderLine revision header of
                  Inl (e, poisons) \<Rightarrow> ((Inl e, poisons), w)
                | Inr announced \<Rightarrow> readPayload pp announced w)))"

section \<open>The batch\<close>

text \<open>\<open>cfb_running\<close>: a child has been started and not closed.\<close>

record CatFileBatch =
  cfb_git :: string
  cfb_dir :: string
  cfb_requestDeadline :: int
  cfb_running :: bool
  cfb_poisoned :: bool

definition kRequestDeadline :: int where "kRequestDeadline = 30000"

definition new_batch :: "string \<Rightarrow> string \<Rightarrow> CatFileBatch" where
  "new_batch git dir = \<lparr>cfb_git = git, cfb_dir = dir, cfb_requestDeadline = kRequestDeadline, cfb_running = False, cfb_poisoned = False\<rparr>"

definition batchArgv :: "CatFileBatch \<Rightarrow> string list" where
  "batchArgv b = [cfb_git b] @ globalFlags @ [''-C'', cfb_dir b, ''cat-file'', ''--batch'']"

definition isRunning :: "CatFileBatch \<Rightarrow> bool" where
  "isRunning b \<longleftrightarrow> cfb_running b \<and> \<not> cfb_poisoned b"

text \<open>A running child is kept; a poisoned one is closed and replaced.\<close>

definition startBatch :: "'w Pipes \<Rightarrow> CatFileBatch \<Rightarrow> 'w \<Rightarrow> GitError option \<times> CatFileBatch \<times> 'w" where
  "startBatch pp b w =
     (if isRunning b then (None, b, w)
      else case pp_spawn pp (batchArgv b) (if cfb_running b then pp_close pp w else w) of
             (Some e, w) \<Rightarrow> (Some e, b\<lparr>cfb_running := False, cfb_poisoned := False\<rparr>, w)
           | (None, w) \<Rightarrow> (None, b\<lparr>cfb_running := True, cfb_poisoned := False\<rparr>, w))"

definition stopBatch :: "'w Pipes \<Rightarrow> CatFileBatch \<Rightarrow> 'w \<Rightarrow> CatFileBatch \<times> 'w" where
  "stopBatch pp b w = (b\<lparr>cfb_running := False\<rparr>, if cfb_running b then pp_close pp w else w)"

definition recordTimeoutLocked :: "'w Pipes \<Rightarrow> CatFileBatch \<Rightarrow> string \<Rightarrow> int \<Rightarrow> 'w \<Rightarrow> 'w" where
  "recordTimeoutLocked pp b revision deadline w =
     (case pp_nextOperationId pp w of
        (oid, w) \<Rightarrow>
          pp_recordOperation pp
            \<lparr>op_repoDir = cfb_dir b, op_argv = batchArgv b, op_exitCode = -1, op_stderrText = ''No answer for request: '' @ revision,
             op_cancelled = False, op_timedOut = True, op_benignExit = False, op_id = oid, op_running = False, op_timeoutMs = deadline,
             op_idleTimeoutMs = 0, op_queuedOperationId = pp_queuedOperationId pp w\<rparr> w)"

definition requestLocked :: "'w Pipes \<Rightarrow> int \<Rightarrow> string \<Rightarrow> CatFileBatch \<Rightarrow> 'w \<Rightarrow> Object GitResult \<times> CatFileBatch \<times> 'w" where
  "requestLocked pp multiplier revision b w =
     (let deadline = scaledTimeout multiplier (cfb_requestDeadline b)
      in case exchangeLocked pp revision (pp_arm pp deadline w) of
           ((object, poisons), w) \<Rightarrow>
             let b = b\<lparr>cfb_poisoned := cfb_poisoned b \<or> poisons\<rparr>
             in case pp_disarm pp w of
                  (True, w) \<Rightarrow>
                    (Inl (git_error Timeout (''git cat-file did not answer within '' @ int_to_string deadline @ '' ms'') []), b\<lparr>cfb_poisoned := True\<rparr>,
                     recordTimeoutLocked pp b revision deadline w)
                | (False, w) \<Rightarrow> (object, b, w))"

definition readObject :: "'w Pipes \<Rightarrow> int \<Rightarrow> string \<Rightarrow> CatFileBatch \<Rightarrow> 'w \<Rightarrow> Object GitResult \<times> CatFileBatch \<times> 'w" where
  "readObject pp multiplier revision b w =
     (if revision = [] \<or> nl \<in> set revision then (Inl (git_error InvalidArgument ''Invalid object revision'' []), b, w)
      else if pp_cancelled pp w then (Inl (git_error Cancelled ''Read cancelled'' []), b, w)
      else case startBatch pp b w of
             (Some e, b, w) \<Rightarrow> (Inl e, b, w)
           | (None, b, w) \<Rightarrow> requestLocked pp multiplier revision b w)"

section \<open>Commits\<close>

definition readCommit :: "'w Pipes \<Rightarrow> int \<Rightarrow> ObjectId \<Rightarrow> CatFileBatch \<Rightarrow> 'w \<Rightarrow> CommitMeta GitResult \<times> CatFileBatch \<times> 'w" where
  "readCommit pp multiplier oid b w =
     (if isNull oid then (Inl (git_error InvalidArgument ''Null object id'' []), b, w)
      else case readObject pp multiplier (hex oid) b w of
             (Inl e, b, w) \<Rightarrow> (Inl e, b, w)
           | (Inr object, b, w) \<Rightarrow>
               if ob_type object \<noteq> ''commit''
               then (Inl (git_error InvalidArgument (''Object '' @ shortHex 8 oid @ '' is a '' @ ob_type object @ '', not a commit'') []), b, w)
               else (Inr (parseRawCommit oid (ob_content object)), b, w))"

fun readCommits :: "'w Pipes \<Rightarrow> int \<Rightarrow> ObjectId list \<Rightarrow> CatFileBatch \<Rightarrow> 'w \<Rightarrow> CommitMeta list \<times> CatFileBatch \<times> 'w" where
  "readCommits pp multiplier [] b w = ([], b, w)"
| "readCommits pp multiplier (oid # oids) b w =
     (if pp_cancelled pp w then ([], b, w)
      else case readCommit pp multiplier oid b w of
             (meta, b, w) \<Rightarrow>
               (case readCommits pp multiplier oids b w of
                  (metas, b, w) \<Rightarrow> (case meta of Inr m \<Rightarrow> (m # metas, b, w) | Inl _ \<Rightarrow> (metas, b, w))))"

end
