(* ===== verification/CatFilePromises.thy ===== *)
theory CatFilePromises
  imports CatFiles RefReading MetaReading
begin

text \<open>
  What the batch promises: however the pipes cut what is written and read, and whenever they fail, a request is
  answered with the object git printed for that request or with an error, never with bytes of another answer.
\<close>

section \<open>Reading from a pipe\<close>

text \<open>A pipe gives the bytes that are in it, in order, in pieces of any size.\<close>

locale pipe =
  fixes pp :: "'w Pipes" and unread :: "'w \<Rightarrow> string" and unsent :: "'w \<Rightarrow> string"
  assumes read_bytes: "pp_read pp n w = (bs, w') \<Longrightarrow> unread w = bs @ unread w' \<and> length bs \<le> n \<and> unsent w' = unsent w"
begin

lemma readExact_bytes:
  "readExact pp n w = (Some bs, w') \<Longrightarrow> unread w = bs @ unread w' \<and> length bs = n \<and> unsent w' = unsent w"
proof (induction pp\<equiv>pp n w arbitrary: bs w' rule: readExact.induct)
  case (1 n w)
  show ?case
  proof (cases "n = 0")
    case True
    with 1(2) show ?thesis by (simp add: readExact.simps)
  next
    case False
    obtain piece w1 where piece: "pp_read pp n w = (piece, w1)" by (cases "pp_read pp n w")
    obtain rest w2 where rest: "readExact pp (n - length piece) w1 = (rest, w2)" by (cases "readExact pp (n - length piece) w1")
    from 1(2) False piece rest obtain tail where "piece \<noteq> []" "rest = Some tail" "bs = piece @ tail" "w' = w2"
      by (cases rest) (auto simp: readExact.simps [of pp n w] split: if_splits)
    with 1(1) [OF False piece [symmetric]] rest read_bytes [OF piece] show ?thesis by auto
  qed
qed

lemma readHeader_bytes:
  "readHeader pp out w = (Some header, w') \<Longrightarrow>
   \<exists>line. header = out @ line \<and> nl \<notin> set line \<and> unread w = line @ nl # unread w' \<and> unsent w' = unsent w"
proof (induction pp\<equiv>pp out w arbitrary: header w' rule: readHeader.induct)
  case (1 out w)
  obtain piece w1 where piece: "pp_read pp 1 w = (piece, w1)" by (cases "pp_read pp 1 w")
  from 1(2) have short: "\<not> length out > kMaxHeader" by (auto simp: readHeader.simps [of pp out w])
  with 1(2) piece obtain c where c: "piece = [c]"
    using read_bytes [OF piece] by (cases piece) (auto simp: readHeader.simps [of pp out w])
  show ?case
  proof (cases "c = nl")
    case True
    with 1(2) short piece c read_bytes [OF piece] show ?thesis by (auto simp: readHeader.simps [of pp out w])
  next
    case False
    with 1(2) short piece c have "readHeader pp (out @ [c]) w1 = (Some header, w')" by (auto simp: readHeader.simps [of pp out w])
    from 1(1) [OF short piece [symmetric] c False this] obtain line where
      "header = (out @ [c]) @ line" "nl \<notin> set line" "unread w1 = line @ nl # unread w'" "unsent w' = unsent w1" by blast
    with c False read_bytes [OF piece] show ?thesis by (intro exI [of _ "c # line"]) auto
  qed
qed

lemma drain_bytes:
  "drainPayload pp n w = (True, w') \<Longrightarrow> \<exists>bs. unread w = bs @ unread w' \<and> length bs = n \<and> unsent w' = unsent w"
proof (induction pp\<equiv>pp n w arbitrary: w' rule: drainPayload.induct)
  case (1 n w)
  show ?case
  proof (cases "n = 0")
    case True
    with 1(2) show ?thesis by (simp add: drainPayload.simps)
  next
    case False
    obtain piece w1 where piece: "pp_read pp (min n (64 * 1024)) w = (piece, w1)" by (cases "pp_read pp (min n (64 * 1024)) w")
    from 1(2) False piece have some: "piece \<noteq> []" and rest: "drainPayload pp (n - length piece) w1 = (True, w')"
      by (auto simp: drainPayload.simps [of pp n w] split: if_splits)
    from 1(1) [OF False piece [symmetric] some rest] obtain tail where
      "unread w1 = tail @ unread w'" "length tail = n - length piece" "unsent w' = unsent w1" by blast
    with read_bytes [OF piece] show ?thesis by (intro exI [of _ "piece @ tail"]) auto
  qed
qed

end

section \<open>What git answers\<close>

text \<open>
  For a request git prints that there is no such object, that the name is ambiguous, or the object: its id, type and
  size on a line, its content, and a line end.
\<close>

datatype GitAnswer = NoObject | AmbiguousName | ObjectAnswer Object

definition object_header :: "Object \<Rightarrow> string" where
  "object_header ob = hex (ob_oid ob) @ CHR '' '' # ob_type ob @ CHR '' '' # to_string (length (ob_content ob))"

fun answer_text :: "string \<Rightarrow> GitAnswer \<Rightarrow> string" where
  "answer_text revision NoObject = (revision @ '' missing'') @ [nl]"
| "answer_text revision AmbiguousName = (revision @ '' ambiguous'') @ [nl]"
| "answer_text revision (ObjectAnswer ob) = object_header ob @ nl # ob_content ob @ [nl]"

definition git_object :: "Object \<Rightarrow> bool" where
  "git_object ob \<longleftrightarrow> printable_oid (ob_oid ob) \<and> ob_type ob \<in> {''commit'', ''tree'', ''blob'', ''tag''} \<and> length (ob_content ob) + 1 < 2 ^ 64"

text \<open>What the request is to be answered with.\<close>

fun expected :: "string \<Rightarrow> GitAnswer \<Rightarrow> Object GitResult" where
  "expected revision NoObject = Inl (git_error NotFound (''No such object: '' @ revision) [])"
| "expected revision AmbiguousName = Inl (git_error InvalidArgument (''Ambiguous object name: '' @ revision) [])"
| "expected revision (ObjectAnswer ob) =
     (if length (ob_content ob) > kMaxObjectBytes then Inl (tooLarge (length (ob_content ob))) else Inr ob)"

text \<open>A failure of the child, not an answer about the object.\<close>

definition faulty :: "Object GitResult \<Rightarrow> bool" where
  "faulty r \<longleftrightarrow> (\<exists>e. r = Inl e \<and> ge_code e \<in> {Io, ParseError})"

lemma first_line: "a @ nl # b = c @ nl # d \<Longrightarrow> nl \<notin> set a \<Longrightarrow> nl \<notin> set c \<Longrightarrow> c = a \<and> d = b"
proof (induction a arbitrary: c)
  case Nil
  then show ?case by (cases c) auto
next
  case (Cons x a)
  then show ?case by (cases c) auto
qed

subsection \<open>The header line\<close>

lemma starts_with_chars: "starts_with s p \<Longrightarrow> set p \<subseteq> set s"
  unfolding starts_with_def by (metis set_take_subset)

lemma find_str_chars: "find_str p s \<noteq> None \<Longrightarrow> set p \<subseteq> set s"
proof (induction s)
  case (Cons x s)
  then show ?case using starts_with_chars [of "x # s" p] by (cases "starts_with (x # s) p") auto
qed (auto split: if_splits)

lemma find_str_suffix: "find_str p (s @ p) \<noteq> None"
  by (induction s) (cases p; auto simp: starts_with_def)+

lemma headerSize_mod:
  "list_all is_digit ds \<Longrightarrow> headerSize ds (a mod 2 ^ 64) = Some (foldl (\<lambda>acc c. 10 * acc + digit_val c) a ds mod 2 ^ 64)"
proof (induction ds arbitrary: a)
  case (Cons c ds)
  have "(a mod 2 ^ 64 * 10 + digit_val c) mod 2 ^ 64 = (10 * a + digit_val c) mod 2 ^ 64"
    by (metis mod_add_left_eq mod_mult_left_eq mult.commute)
  with Cons show ?case by simp
qed simp

lemma headerSize_text: "n < 2 ^ 64 \<Longrightarrow> headerSize (to_string n) 0 = Some n"
  using headerSize_mod [of "to_string n" 0] dec_value_to_string [of n] to_string_digits [of _ n] by (simp add: dec_value_def list_all_iff)

lemma last_missing: "last '' missing'' = CHR ''g'' \<and> \<not> is_digit (CHR ''g'')"
  by (simp add: is_digit_def)

lemma last_drop_missing: "drop n s = '' missing'' \<Longrightarrow> \<not> is_digit (last s)"
  by (metis append_take_drop_id is_digit_def last_append last_missing list.distinct(1))

lemma git_object_chars:
  assumes "git_object ob" and "c \<in> set (object_header ob)"
  shows "c \<noteq> CHR ''u'' \<and> c \<noteq> nl"
proof -
  have "c \<in> set (hex (ob_oid ob)) \<or> c = CHR '' '' \<or> c \<in> set (ob_type ob) \<or> is_digit c"
    using assms(2) to_string_digits by (auto simp: object_header_def)
  moreover have "CHR ''u'' \<notin> set (hex (ob_oid ob))" using hex_nibbles [of "CHR ''u''" "ob_oid ob"] by (auto simp: kDigits_def)
  ultimately show ?thesis
    using assms(1) hex_not_blank(2) [of "ob_oid ob"] by (auto simp: git_object_def is_digit_def)
qed

lemma header_object:
  assumes "git_object ob"
  shows "readHeaderLine revision (object_header ob) = Inr (ob_oid ob, ob_type ob, length (ob_content ob))"
proof -
  let ?h = "object_header ob"
  have "last ?h = last (to_string (length (ob_content ob)))" by (simp add: object_header_def)
  then have "is_digit (last ?h)" by (simp add: to_string_digits [of _ "length (ob_content ob)"])
  then have missing: "drop (length ?h - 8) ?h \<noteq> '' missing''"
    by (metis (mono_tags) last_drop_missing)
  have ambiguous: "find_str '' ambiguous'' ?h = None"
    using find_str_chars [of "'' ambiguous''" ?h] git_object_chars [OF assms, of "CHR ''u''"] by (cases "find_str '' ambiguous'' ?h") auto
  have first: "find_char (CHR '' '') ?h = Some (length (hex (ob_oid ob)))"
    using hex_not_blank(1) [of "ob_oid ob"] by (simp add: object_header_def find_char_append_notin)
  have "CHR '' '' \<notin> set (ob_type ob)" using assms by (auto simp: git_object_def)
  then have second: "find_char_from (CHR '' '') ?h (length (hex (ob_oid ob)) + 1) = Some (length (hex (ob_oid ob)) + 1 + length (ob_type ob))"
    by (simp add: find_char_from_def object_header_def find_char_append_notin)
  have "headerSize (to_string (length (ob_content ob))) 0 = Some (length (ob_content ob))"
    by (rule headerSize_text) (use assms in \<open>simp add: git_object_def\<close>)
  then show ?thesis
    using missing assms unfolding readHeaderLine_def ambiguous first option.case second
    by (simp add: object_header_def substr_def git_object_def fromHex_printed)
qed

lemma to_string_length: "n < 10 ^ Suc k \<Longrightarrow> length (to_string n) \<le> Suc k"
proof (induction k arbitrary: n)
  case 0
  then show ?case by (simp add: to_string.simps)
next
  case (Suc k)
  then have "n div 10 < 10 ^ Suc k" by (simp add: less_mult_imp_div_less mult.commute)
  from Suc.IH [OF this] show ?case by (subst to_string.simps) simp
qed

lemma object_header_short:
  assumes "git_object ob"
  shows "length (object_header ob) \<le> kMaxHeader"
proof -
  have "length (ob_content ob) < 10 ^ Suc 19" using assms by (simp add: git_object_def)
  then have "length (to_string (length (ob_content ob))) \<le> 20" using to_string_length [of "length (ob_content ob)" 19] by simp
  moreover have "length (hex (ob_oid ob)) \<le> 64"
    using assms hex_looks_like [of "ob_oid ob"] by (auto simp: git_object_def looksLikeObjectHex_def)
  moreover have "length (ob_type ob) \<le> 6" using assms by (auto simp: git_object_def)
  ultimately show ?thesis by (simp add: object_header_def kMaxHeader_def)
qed

lemma header_missing: "revision \<noteq> [] \<Longrightarrow> readHeaderLine revision (revision @ '' missing'') = Inl (git_error NotFound (''No such object: '' @ revision) [], False)"
  by (cases revision) (simp_all add: readHeaderLine_def)

lemma header_ambiguous:
  "readHeaderLine revision (revision @ '' ambiguous'') = Inl (git_error InvalidArgument (''Ambiguous object name: '' @ revision) [], False)"
  using find_str_suffix [of "'' ambiguous''" revision] by (simp add: readHeaderLine_def)

section \<open>The child\<close>

text \<open>What a child makes of the bytes it receives: a request is answered when its line is complete.\<close>

fun receive :: "(string \<Rightarrow> string) \<Rightarrow> string \<Rightarrow> string \<Rightarrow> string \<times> string" where
  "receive reply partial [] = (partial, [])"
| "receive reply partial (c # cs) =
     (if c = nl then (case receive reply [] cs of (p, out) \<Rightarrow> (p, reply partial @ out)) else receive reply (partial @ [c]) cs)"

lemma receive_append:
  "receive reply partial (xs @ ys) =
     (case receive reply partial xs of (p, out) \<Rightarrow> (case receive reply p ys of (p', out') \<Rightarrow> (p', out @ out')))"
  by (induction reply partial xs rule: receive.induct) (auto split: prod.splits)

lemma receive_line: "nl \<notin> set l \<Longrightarrow> receive reply partial (l @ [nl]) = ([], reply (partial @ l))"
  by (induction l arbitrary: partial) auto

text \<open>Requests one after the other, and the errors that are no answer about the object.\<close>

definition unanswered :: "Object GitResult \<Rightarrow> bool" where
  "unanswered r \<longleftrightarrow> (\<exists>e. r = Inl e \<and> ge_code e \<in> {Io, ParseError, Timeout, Cancelled, SpawnFailed})"

definition valid_revision :: "string \<Rightarrow> bool" where
  "valid_revision revision \<longleftrightarrow> revision \<noteq> [] \<and> nl \<notin> set revision"

fun requests :: "'w Pipes \<Rightarrow> int \<Rightarrow> string list \<Rightarrow> CatFileBatch \<Rightarrow> 'w \<Rightarrow> Object GitResult list" where
  "requests pp m [] b w = []"
| "requests pp m (revision # revisions) b w =
     (case readObject pp m revision b w of (r, b, w) \<Rightarrow> r # requests pp m revisions b w)"

locale git_child = pipe +
  fixes answers :: "string \<Rightarrow> GitAnswer"
  assumes write_bytes: "pp_write pp data w = (n, w') \<Longrightarrow> n \<le> length data \<and>
      (unsent w', unread w') = (case receive (\<lambda>l. answer_text l (answers l)) (unsent w) (take n data) of (p, out) \<Rightarrow> (p, unread w @ out))"
    and spawned: "pp_spawn pp argv w = (None, w') \<Longrightarrow> unread w' = [] \<and> unsent w' = []"
    and armed: "unread (pp_arm pp deadline w) = unread w \<and> unsent (pp_arm pp deadline w) = unsent w"
    and disarmed: "pp_disarm pp w = (fired, w') \<Longrightarrow> unread w' = unread w \<and> unsent w' = unsent w"
    and unspawned: "pp_spawn pp argv w = (Some e, w') \<Longrightarrow> ge_code e = SpawnFailed"
    and objects: "answers l = ObjectAnswer ob \<Longrightarrow> git_object ob"
begin

lemma writeAll_bytes:
  "writeAll pp data w = (True, w') \<Longrightarrow>
   (unsent w', unread w') = (case receive (\<lambda>l. answer_text l (answers l)) (unsent w) data of (p, out) \<Rightarrow> (p, unread w @ out))"
proof (induction pp\<equiv>pp data w arbitrary: w' rule: writeAll.induct)
  case (1 data w)
  show ?case
  proof (cases "data = []")
    case True
    with 1(2) show ?thesis by (simp add: writeAll.simps)
  next
    case False
    obtain n w1 where wrote: "pp_write pp data w = (n, w1)" by (cases "pp_write pp data w")
    from 1(2) False wrote have n: "n \<noteq> 0" and rest: "writeAll pp (drop n data) w1 = (True, w')"
      by (auto simp: writeAll.simps [of pp data w] split: if_splits)
    show ?thesis
      using 1(1) [OF False wrote [symmetric] n rest] write_bytes [OF wrote]
        receive_append [of "\<lambda>l. answer_text l (answers l)" "unsent w" "take n data" "drop n data"] by (auto split: prod.splits)
  qed
qed

definition aligned where
  "aligned w \<longleftrightarrow> unread w = [] \<and> unsent w = []"

lemma payload_read:
  assumes "git_object ob" and "unread w = ob_content ob @ [nl]" and "unsent w = []"
    and "readPayload pp (ob_oid ob, ob_type ob, length (ob_content ob)) w = ((r, poisons), w')"
  shows "(\<not> poisons \<longrightarrow> aligned w') \<and> (r = expected revision (ObjectAnswer ob) \<or> poisons \<and> faulty r)"
proof (cases "length (ob_content ob) > kMaxObjectBytes")
  case True
  obtain complete w1 where drained': "drainPayload pp (length (ob_content ob) + 1) w = (complete, w1)"
    by (cases "drainPayload pp (length (ob_content ob) + 1) w")
  have "(length (ob_content ob) + 1) mod 2 ^ 64 = length (ob_content ob) + 1" using assms(1) by (simp add: git_object_def)
  with assms(4) True drained' have "r = Inl (tooLarge (length (ob_content ob)))" "poisons \<longleftrightarrow> \<not> complete" "w' = w1"
    by (auto simp: readPayload_def)
  moreover have "aligned w1" if whole: complete
  proof -
    have "\<exists>bs. unread w = bs @ unread w1 \<and> length bs = length (ob_content ob) + 1 \<and> unsent w1 = unsent w"
      using drain_bytes [of "length (ob_content ob) + 1" w w1] drained' whole by simp
    then obtain bs where bs: "unread w = bs @ unread w1" "length bs = length (ob_content ob) + 1" "unsent w1 = unsent w" by blast
    have "length (unread w) = length bs + length (unread w1)" using bs(1) by simp
    moreover have "length (unread w) = length (ob_content ob) + 1" using assms(2) by simp
    ultimately have "unread w1 = []" using bs(2) by simp
    with bs(3) assms(3) show ?thesis by (simp add: aligned_def)
  qed
  ultimately show ?thesis using True by auto
next
  case False
  obtain content w1 where content: "readExact pp (length (ob_content ob)) w = (content, w1)" by (cases "readExact pp (length (ob_content ob)) w")
  obtain trailing w2 where trailing: "readExact pp 1 w1 = (trailing, w2)" by (cases "readExact pp 1 w1")
  show ?thesis
  proof (cases "content \<noteq> None \<and> trailing = Some [nl]")
    case True
    then obtain bytes where bytes: "content = Some bytes" by auto
    then have "bytes = ob_content ob \<and> unread w1 = [nl] \<and> unsent w1 = []"
      using readExact_bytes [of "length (ob_content ob)" w bytes w1] content assms(2,3) by auto
    then show ?thesis
      using True bytes content trailing False readExact_bytes [of 1 w1 "[nl]" w2] assms(4) by (auto simp: readPayload_def aligned_def)
  next
    case failed: False
    with False content trailing assms(4) have "poisons \<and> faulty r" by (auto simp: readPayload_def faulty_def git_error_def split: option.splits if_splits)
    then show ?thesis by blast
  qed
qed

lemma answer_split:
  assumes "answer_text revision a = h @ nl # t" and "nl \<notin> set h" and "nl \<notin> set revision" and "\<And>ob. a = ObjectAnswer ob \<Longrightarrow> git_object ob"
  shows "case a of NoObject \<Rightarrow> h = revision @ '' missing'' \<and> t = [] | AmbiguousName \<Rightarrow> h = revision @ '' ambiguous'' \<and> t = []
    | ObjectAnswer ob \<Rightarrow> h = object_header ob \<and> t = ob_content ob @ [nl]"
proof (cases a)
  case NoObject
  with assms(1-3) first_line [of "revision @ '' missing''" "[]" h t] show ?thesis by simp
next
  case AmbiguousName
  with assms(1-3) first_line [of "revision @ '' ambiguous''" "[]" h t] show ?thesis by simp
next
  case (ObjectAnswer ob)
  then have "nl \<notin> set (object_header ob)" using assms(4) git_object_chars by blast
  with assms(1,2) ObjectAnswer show ?thesis using first_line [of "object_header ob" "ob_content ob @ [nl]" h t] by simp
qed

lemma exchange_exact:
  assumes "aligned w" and "revision \<noteq> []" and "nl \<notin> set revision" and "exchangeLocked pp revision w = ((r, poisons), w')"
  shows "(\<not> poisons \<longrightarrow> aligned w') \<and> (r = expected revision (answers revision) \<or> poisons \<and> faulty r)"
proof -
  obtain sent w1 where sent: "writeAll pp (revision @ [nl]) w = (sent, w1)" by (cases "writeAll pp (revision @ [nl]) w")
  obtain header w2 where header: "readHeader pp [] w1 = (header, w2)" by (cases "readHeader pp [] w1")
  show ?thesis
  proof (cases "sent \<and> header \<noteq> None")
    case False
    with sent header assms(4) have "poisons \<and> faulty r"
      by (cases sent; cases header) (auto simp: exchangeLocked_def faulty_def stoppedResponding_def git_error_def)
    then show ?thesis by blast
  next
    case True
    then obtain h where h: "header = Some h" by auto
    have "unread w1 = answer_text revision (answers revision)" "unsent w1 = []"
      using writeAll_bytes [of "revision @ [nl]" w w1] sent True assms(1,3) receive_line [of revision] by (auto simp: aligned_def)
    moreover obtain "nl \<notin> set h" "unread w1 = h @ nl # unread w2" "unsent w2 = unsent w1"
      using readHeader_bytes [of "[]" w1 h w2] header h by auto
    ultimately have split: "answer_text revision (answers revision) = h @ nl # unread w2" "nl \<notin> set h" "unsent w2 = []" by auto
    note parts = answer_split [OF split(1,2) assms(3) objects]
    have run': "(case readHeaderLine revision h of Inl (e, poisons) \<Rightarrow> ((Inl e, poisons), w2) | Inr announced \<Rightarrow> readPayload pp announced w2) = ((r, poisons), w')"
      using assms(4) sent header h True by (simp add: exchangeLocked_def)
    show ?thesis
    proof (cases "answers revision")
      case (ObjectAnswer ob)
      then have "git_object ob" by (rule objects)
      with ObjectAnswer parts run' split(3) payload_read [of ob w2 r poisons w'] header_object show ?thesis by auto
    qed (use parts run' split(3) header_missing [OF assms(2)] header_ambiguous in \<open>auto simp: aligned_def\<close>)
  qed
qed

lemma start_exact:
  assumes "isRunning b \<longrightarrow> aligned w" and "startBatch pp b w = (e, b', w')"
  shows "case e of None \<Rightarrow> isRunning b' \<and> aligned w' | Some e \<Rightarrow> \<not> isRunning b' \<and> ge_code e = SpawnFailed"
  using assms spawned unspawned
  by (auto simp: startBatch_def isRunning_def aligned_def split: if_splits option.splits prod.splits)

lemma request_exact:
  assumes "aligned w" and "isRunning b" and "revision \<noteq> []" and "nl \<notin> set revision" and "requestLocked pp m revision b w = (r, b', w')"
  shows "(isRunning b' \<longrightarrow> aligned w') \<and> (r = expected revision (answers revision) \<or> unanswered r)"
proof -
  let ?w = "pp_arm pp (scaledTimeout m (cfb_requestDeadline b)) w"
  obtain object poisons w1 where exchange: "exchangeLocked pp revision ?w = ((object, poisons), w1)" by (metis prod.exhaust)
  obtain fired w2 where disarm: "pp_disarm pp w1 = (fired, w2)" by (cases "pp_disarm pp w1")
  have "aligned ?w" using assms(1) armed by (simp add: aligned_def)
  note exact = exchange_exact [OF this assms(3,4) exchange]
  show ?thesis
  proof (cases fired)
    case True
    with assms(5) exchange disarm show ?thesis by (auto simp: requestLocked_def Let_def isRunning_def unanswered_def git_error_def)
  next
    case False
    with assms(5) exchange disarm have "r = object" "w' = w2" "cfb_poisoned b' \<longleftrightarrow> cfb_poisoned b \<or> poisons"
      by (auto simp: requestLocked_def Let_def)
    moreover have "aligned w1 \<longrightarrow> aligned w2" using disarmed [OF disarm] by (simp add: aligned_def)
    ultimately show ?thesis using exact by (auto simp: isRunning_def faulty_def unanswered_def)
  qed
qed

lemma readObject_exact:
  assumes "isRunning b \<longrightarrow> aligned w" and "revision \<noteq> []" and "nl \<notin> set revision" and "readObject pp m revision b w = (r, b', w')"
  shows "(isRunning b' \<longrightarrow> aligned w') \<and> (r = expected revision (answers revision) \<or> unanswered r)"
proof (cases "pp_cancelled pp w")
  case True
  with assms show ?thesis by (auto simp: readObject_def unanswered_def git_error_def)
next
  case False
  obtain e b1 w1 where start: "startBatch pp b w = (e, b1, w1)" by (metis prod.exhaust)
  with start_exact [OF assms(1) start] show ?thesis
    using assms(2-4) False request_exact [of w1 b1 revision m r b' w']
    by (cases e) (auto simp: readObject_def unanswered_def)
qed

lemma requests_exact:
  assumes "isRunning b \<longrightarrow> aligned w" and "list_all valid_revision revisions"
  shows "list_all2 (\<lambda>revision r. r = expected revision (answers revision) \<or> unanswered r) revisions (requests pp m revisions b w)"
  using assms
proof (induction revisions arbitrary: b w)
  case (Cons revision revisions)
  obtain r b' w' where first: "readObject pp m revision b w = (r, b', w')" by (metis prod.exhaust)
  have "(isRunning b' \<longrightarrow> aligned w') \<and> (r = expected revision (answers revision) \<or> unanswered r)"
    using readObject_exact [OF Cons.prems(1) _ _ first] Cons.prems(2) by (simp add: valid_revision_def)
  with Cons first show ?case by simp
qed simp

end

section \<open>Children of every kind\<close>

text \<open>
  A child that answers requests in order while the system does as it likes: \<open>moves t\<close> is how many bytes the call at
  time \<open>t\<close> moves at most, none if it fails then; \<open>fires t\<close> whether the watchdog has fired, \<open>fails t\<close> whether a child
  cannot be started, and \<open>cancels t\<close> whether the request has been cancelled.
\<close>

record GitChild =
  gch_partial :: string
  gch_output :: string
  gch_time :: nat

definition tick :: "GitChild \<Rightarrow> GitChild" where
  "tick c = c\<lparr>gch_time := gch_time c + 1\<rparr>"

definition child_write :: "(string \<Rightarrow> GitAnswer) \<Rightarrow> (nat \<Rightarrow> nat) \<Rightarrow> string \<Rightarrow> GitChild \<Rightarrow> nat \<times> GitChild" where
  "child_write answers moves data c =
     (let n = min (moves (gch_time c)) (length data)
      in case receive (\<lambda>l. answer_text l (answers l)) (gch_partial c) (take n data) of
           (p, out) \<Rightarrow> (n, (tick c)\<lparr>gch_partial := p, gch_output := gch_output c @ out\<rparr>))"

definition child_read :: "(nat \<Rightarrow> nat) \<Rightarrow> nat \<Rightarrow> GitChild \<Rightarrow> string \<times> GitChild" where
  "child_read moves n c =
     (let k = min n (moves (gch_time c)) in (take k (gch_output c), (tick c)\<lparr>gch_output := drop k (gch_output c)\<rparr>))"

definition child_spawn :: "(nat \<Rightarrow> bool) \<Rightarrow> string list \<Rightarrow> GitChild \<Rightarrow> GitError option \<times> GitChild" where
  "child_spawn fails argv c =
     (if fails (gch_time c) then (Some (git_error SpawnFailed ''Could not start git cat-file --batch'' []), tick c)
      else (None, (tick c)\<lparr>gch_partial := [], gch_output := []\<rparr>))"

definition child_pipes ::
  "(string \<Rightarrow> GitAnswer) \<Rightarrow> (nat \<Rightarrow> nat) \<Rightarrow> (nat \<Rightarrow> bool) \<Rightarrow> (nat \<Rightarrow> bool) \<Rightarrow> (nat \<Rightarrow> bool) \<Rightarrow> GitChild Pipes" where
  "child_pipes answers moves fires fails cancels =
     \<lparr>pp_spawn = child_spawn fails, pp_close = tick, pp_write = child_write answers moves, pp_read = child_read moves,
      pp_arm = (\<lambda>_. tick), pp_disarm = (\<lambda>c. (fires (gch_time c), tick c)), pp_cancelled = (\<lambda>c. cancels (gch_time c)),
      pp_nextOperationId = (\<lambda>c. (gch_time c, tick c)), pp_queuedOperationId = (\<lambda>_. 0), pp_recordOperation = (\<lambda>_. tick)\<rparr>"

lemma tick_simps [simp]: "gch_output (tick c) = gch_output c" "gch_partial (tick c) = gch_partial c"
  by (simp_all add: tick_def)

text \<open>Every answer git can give; an object it cannot print counts as missing.\<close>

definition answering :: "(string \<Rightarrow> GitAnswer) \<Rightarrow> string \<Rightarrow> GitAnswer" where
  "answering answers l = (case answers l of ObjectAnswer ob \<Rightarrow> if git_object ob then ObjectAnswer ob else NoObject | a \<Rightarrow> a)"

lemma answering_id: "(\<And>l ob. answers l = ObjectAnswer ob \<Longrightarrow> git_object ob) \<Longrightarrow> answering answers = answers"
  by (auto simp: answering_def fun_eq_iff split: GitAnswer.split)

interpretation children: git_child "child_pipes (answering answers) moves fires fails cancels" gch_output gch_partial "answering answers"
    for answers moves fires fails cancels
proof
  show "git_object ob" if "answering answers l = ObjectAnswer ob" for l ob
    using that by (auto simp: answering_def split: GitAnswer.splits if_splits)
qed (auto simp: child_pipes_def child_read_def child_write_def child_spawn_def git_error_def Let_def split: prod.splits if_splits)

text \<open>
  C18. However the pipes cut what is sent and read, and whenever they fail, the watchdog fires, a child cannot be started
  or requests are cancelled: each request of a sequence is answered with what git printed for that very request,
  or with an error of the child. No request is answered with, or reported missing because of, another's bytes.
\<close>

theorem each_answer_its_own:
  assumes "\<And>l ob. answers l = ObjectAnswer ob \<Longrightarrow> git_object ob" and "list_all valid_revision revisions"
  shows "list_all2 (\<lambda>revision r. r = expected revision (answers revision) \<or> unanswered r) revisions
    (requests (child_pipes answers moves fires fails cancels) m revisions (new_batch git dir) c)"
proof -
  have "isRunning (new_batch git dir) \<longrightarrow> P" for P by (simp add: isRunning_def new_batch_def)
  from children.requests_exact [OF this assms(2), of answers] show ?thesis by (simp add: answering_id [OF assms(1)])
qed

section \<open>A child that works\<close>

text \<open>The commit a request for its id is to give; nothing if it is missing, no commit, or too large.\<close>

definition commits_of :: "ObjectId \<Rightarrow> GitAnswer \<Rightarrow> CommitMeta list" where
  "commits_of oid a =
     (case a of ObjectAnswer ob \<Rightarrow> if ob_type ob = ''commit'' \<and> length (ob_content ob) \<le> kMaxObjectBytes then [parseRawCommit oid (ob_content ob)] else []
      | _ \<Rightarrow> [])"

text \<open>Calls that always move something, a watchdog that does not fire, and no cancellation.\<close>

locale reliable_child = git_child +
  assumes reads_some: "pp_read pp n w = (bs, w') \<Longrightarrow> n \<noteq> 0 \<Longrightarrow> unread w \<noteq> [] \<Longrightarrow> bs \<noteq> []"
    and writes_some: "pp_write pp data w = (n, w') \<Longrightarrow> data \<noteq> [] \<Longrightarrow> n \<noteq> 0"
    and starts: "pp_spawn pp argv w = (e, w') \<Longrightarrow> e = None"
    and never_fires: "pp_disarm pp w = (fired, w') \<Longrightarrow> \<not> fired"
    and not_cancelled: "\<not> pp_cancelled pp w"
begin

lemma writeAll_done: "fst (writeAll pp data w)"
proof (induction pp\<equiv>pp data w rule: writeAll.induct)
  case (1 data w)
  obtain n w1 where wrote: "pp_write pp data w = (n, w1)" by (cases "pp_write pp data w")
  then show ?case using 1 writes_some [OF wrote] by (cases "data = []") (simp add: writeAll.simps, simp add: writeAll.simps [of pp data w])
qed

lemma readExact_done: "n \<le> length (unread w) \<Longrightarrow> fst (readExact pp n w) \<noteq> None"
proof (induction pp\<equiv>pp n w rule: readExact.induct)
  case (1 n w)
  show ?case
  proof (cases "n = 0")
    case False
    obtain bs w1 where got: "pp_read pp n w = (bs, w1)" by (cases "pp_read pp n w")
    have "unread w \<noteq> []" using 1(2) False by auto
    with got False have "bs \<noteq> []" by (rule reads_some)
    moreover have "n - length bs \<le> length (unread w1)" using read_bytes [OF got] 1(2) by auto
    ultimately show ?thesis
      using 1(1) [OF False got [symmetric]] False got by (auto simp: readExact.simps [of pp n w] split: prod.splits)
  qed (simp add: readExact.simps)
qed

lemma readHeader_done:
  "unread w = line @ nl # rest \<Longrightarrow> nl \<notin> set line \<Longrightarrow> length out + length line \<le> kMaxHeader \<Longrightarrow> fst (readHeader pp out w) \<noteq> None"
proof (induction line arbitrary: out w)
  case Nil
  obtain bs w1 where got: "pp_read pp 1 w = (bs, w1)" by (cases "pp_read pp 1 w")
  have "bs \<noteq> []" by (rule reads_some [OF got]) (use Nil in auto)
  then have "bs = [nl]" using read_bytes [OF got] Nil by (cases bs) auto
  then show ?case using got Nil by (simp add: readHeader.simps [of pp out w])
next
  case (Cons c line)
  obtain bs w1 where got: "pp_read pp 1 w = (bs, w1)" by (cases "pp_read pp 1 w")
  have "bs \<noteq> []" by (rule reads_some [OF got]) (use Cons in auto)
  then have "bs = [c]" "unread w1 = line @ nl # rest" using read_bytes [OF got] Cons.prems by (cases bs; auto)+
  then show ?case using got Cons by (simp add: readHeader.simps [of pp out w])
qed

lemma drain_done: "n \<le> length (unread w) \<Longrightarrow> fst (drainPayload pp n w)"
proof (induction pp\<equiv>pp n w rule: drainPayload.induct)
  case (1 n w)
  show ?case
  proof (cases "n = 0")
    case False
    obtain bs w1 where got: "pp_read pp (min n (64 * 1024)) w = (bs, w1)" by (cases "pp_read pp (min n (64 * 1024)) w")
    have some: "bs \<noteq> []" by (rule reads_some [OF got]) (use False 1(2) in auto)
    moreover have "n - length bs \<le> length (unread w1)" using read_bytes [OF got] 1(2) by auto
    ultimately show ?thesis using 1(1) [OF False got [symmetric] some] False got by (simp add: drainPayload.simps [of pp n w])
  qed (simp add: drainPayload.simps)
qed

lemma payload_done:
  assumes "git_object ob" and "unread w = ob_content ob @ [nl]"
  shows "\<not> snd (fst (readPayload pp (ob_oid ob, ob_type ob, length (ob_content ob)) w))"
proof (cases "length (ob_content ob) > kMaxObjectBytes")
  case True
  have "(length (ob_content ob) + 1) mod 2 ^ 64 = length (ob_content ob) + 1" using assms(1) by (simp add: git_object_def)
  then show ?thesis
    using True drain_done [of "length (ob_content ob) + 1" w] assms(2)
    by (cases "drainPayload pp (length (ob_content ob) + 1) w") (simp add: readPayload_def)
next
  case False
  obtain content w1 where content: "readExact pp (length (ob_content ob)) w = (Some content, w1)"
    using readExact_done [of "length (ob_content ob)" w] assms(2) by (cases "readExact pp (length (ob_content ob)) w") auto
  then have left: "unread w1 = [nl]" using readExact_bytes [OF content] assms(2) by auto
  obtain trailing w2 where trailing: "readExact pp 1 w1 = (Some trailing, w2)"
    using readExact_done [of 1 w1] left by (cases "readExact pp 1 w1") auto
  then have "trailing = [nl]" using readExact_bytes [OF trailing] left by (cases trailing) auto
  with content trailing False show ?thesis by (simp add: readPayload_def)
qed

lemma answer_line:
  assumes "nl \<notin> set revision" and "length revision + 10 \<le> kMaxHeader"
  obtains line rest where "answer_text revision (answers revision) = line @ nl # rest" "nl \<notin> set line" "length line \<le> kMaxHeader"
proof (cases "answers revision")
  case (ObjectAnswer ob)
  then have ob: "git_object ob" by (rule objects)
  have "length (object_header ob) \<le> kMaxHeader" by (rule object_header_short [OF ob])
  with ObjectAnswer git_object_chars [OF ob] show ?thesis by (intro that [of "object_header ob"]) auto
qed (use assms that [of "revision @ '' missing''" "[]"] that [of "revision @ '' ambiguous''" "[]"] in auto)

lemma exchange_done:
  assumes "aligned w" and "revision \<noteq> []" and "nl \<notin> set revision" and "length revision + 10 \<le> kMaxHeader"
  shows "\<not> snd (fst (exchangeLocked pp revision w))"
proof -
  obtain w1 where sent: "writeAll pp (revision @ [nl]) w = (True, w1)" using writeAll_done [of "revision @ [nl]" w] by (metis (full_types) prod.collapse)
  have unread: "unread w1 = answer_text revision (answers revision)"
    using writeAll_bytes [OF sent] assms(1,3) receive_line [of revision] by (auto simp: aligned_def)
  obtain line rest where "answer_text revision (answers revision) = line @ nl # rest" "nl \<notin> set line" "length line \<le> kMaxHeader"
    by (rule answer_line [OF assms(3,4)])
  then obtain h w2 where header: "readHeader pp [] w1 = (Some h, w2)"
    using readHeader_done [of w1 line rest "[]"] unread by (cases "readHeader pp [] w1") auto
  have split: "answer_text revision (answers revision) = h @ nl # unread w2" "nl \<notin> set h"
    using readHeader_bytes [OF header] unread by auto
  note parts = answer_split [OF split assms(3) objects]
  show ?thesis
  proof (cases "answers revision")
    case (ObjectAnswer ob)
    then have "git_object ob" by (rule objects)
    with ObjectAnswer parts sent header payload_done [of ob w2] header_object [of ob revision] show ?thesis by (simp add: exchangeLocked_def)
  qed (use parts sent header header_missing [OF assms(2)] header_ambiguous in \<open>simp_all add: exchangeLocked_def\<close>)
qed

text \<open>Then every request is answered, and the batch stays as it should be.\<close>

lemma readObject_done:
  assumes "isRunning b \<longrightarrow> aligned w" and "revision \<noteq> []" and "nl \<notin> set revision" and "length revision + 10 \<le> kMaxHeader"
    and "readObject pp m revision b w = (r, b', w')"
  shows "isRunning b' \<and> aligned w' \<and> r = expected revision (answers revision)"
proof -
  obtain e b1 w1 where start: "startBatch pp b w = (e, b1, w1)" by (metis prod.exhaust)
  then have "e = None" using starts by (auto simp: startBatch_def split: if_splits option.splits prod.splits)
  with start_exact [OF assms(1) start] have b1: "isRunning b1" and w1: "aligned w1" by auto
  let ?w = "pp_arm pp (scaledTimeout m (cfb_requestDeadline b1)) w1"
  have armed': "aligned ?w" using w1 armed by (simp add: aligned_def)
  obtain object poisons w2 where exchange: "exchangeLocked pp revision ?w = ((object, poisons), w2)" by (metis prod.exhaust)
  have "\<not> poisons" using exchange_done [OF armed' assms(2-4)] exchange by simp
  with exchange_exact [OF armed' assms(2,3) exchange] have w2: "aligned w2" "object = expected revision (answers revision)" by auto
  obtain fired w3 where disarm: "pp_disarm pp w2 = (fired, w3)" by (cases "pp_disarm pp w2")
  have "\<not> fired" by (rule never_fires [OF disarm])
  with assms(2,3,5) start \<open>e = None\<close> exchange disarm not_cancelled \<open>\<not> poisons\<close> have "r = object" "b' = b1\<lparr>cfb_poisoned := cfb_poisoned b1\<rparr>" "w' = w3"
    by (auto simp: readObject_def requestLocked_def Let_def)
  with b1 w2 disarmed [OF disarm] show ?thesis by (auto simp: isRunning_def aligned_def)
qed

lemma readCommits_done:
  assumes "isRunning b \<longrightarrow> aligned w" and "list_all printable_oid oids"
  shows "fst (readCommits pp m oids b w) = concat (map (\<lambda>oid. commits_of oid (answers (hex oid))) oids)"
  using assms
proof (induction oids arbitrary: b w)
  case (Cons oid oids)
  have oid: "printable_oid oid" using Cons.prems by simp
  obtain r b' w' where first: "readObject pp m (hex oid) b w = (r, b', w')" by (metis prod.exhaust)
  have "length (hex oid) + 10 \<le> kMaxHeader" using hex_looks_like [OF oid] by (auto simp: looksLikeObjectHex_def kMaxHeader_def)
  with readObject_done [OF Cons.prems(1) _ _ _ first] hex_nonempty [OF oid] hex_not_blank(2) [of oid]
  have ok: "isRunning b'" "aligned w'" "r = expected (hex oid) (answers (hex oid))" by auto
  have "fst (readCommits pp m (oid # oids) b w) =
      (case r of Inl _ \<Rightarrow> [] | Inr ob \<Rightarrow> if ob_type ob = ''commit'' then [parseRawCommit oid (ob_content ob)] else []) @ fst (readCommits pp m oids b' w')"
    using oid first not_cancelled by (auto simp: readCommit_def printable_oid_def split: sum.splits prod.splits)
  with Cons.IH [of b' w'] Cons.prems(2) ok show ?case by (cases "answers (hex oid)") (simp_all add: commits_of_def)
qed simp

end

interpretation working: reliable_child "child_pipes (answering answers) (\<lambda>t. Suc (moves t)) (\<lambda>_. False) (\<lambda>_. False) (\<lambda>_. False)"
    gch_output gch_partial "answering answers" for answers moves
  by unfold_locales (auto simp: child_pipes_def child_read_def child_write_def child_spawn_def Let_def split: prod.splits)

text \<open>A repository: its commits by id, with the further headers of each. Its child answers for an id with the text of its commit.\<close>

type_synonym Repository = "ObjectId \<Rightarrow> (CommitMeta \<times> (string \<times> string list) list) option"

definition git_repository :: "Repository \<Rightarrow> bool" where
  "git_repository repo \<longleftrightarrow> (\<forall>oid c others. repo oid = Some (c, others) \<longrightarrow>
     printable_oid oid \<and> cm_oid c = oid \<and> git_commit c others \<and> length (commit_text c others) \<le> kMaxObjectBytes)"

definition repository_answers :: "Repository \<Rightarrow> string \<Rightarrow> GitAnswer" where
  "repository_answers repo revision =
     (case repo (fromHex revision) of
        None \<Rightarrow> NoObject
      | Some (c, others) \<Rightarrow> ObjectAnswer \<lparr>ob_oid = fromHex revision, ob_type = ''commit'', ob_content = commit_text c others\<rparr>)"

lemma repository_objects: "git_repository repo \<Longrightarrow> repository_answers repo l = ObjectAnswer ob \<Longrightarrow> git_object ob"
  unfolding git_repository_def repository_answers_def git_object_def kMaxObjectBytes_def by (fastforce split: option.splits prod.splits)

text \<open>
  C19. While the child works, however its pipes cut what is sent and read, the commits asked for by their ids come
  back as the repository has them, in the order asked and without those it does not have.
\<close>

theorem commits_reach_the_list:
  assumes "git_repository repo" and "list_all printable_oid oids" and "\<And>t. moves t \<noteq> 0"
  shows "fst (readCommits (child_pipes (repository_answers repo) moves (\<lambda>_. False) (\<lambda>_. False) (\<lambda>_. False)) m oids (new_batch git dir) c) =
    concat (map (\<lambda>oid. case repo oid of None \<Rightarrow> [] | Some (commit, _) \<Rightarrow> [commit]) oids)"
proof -
  have moves: "moves = (\<lambda>t. Suc (moves t - 1))" using assms(3) by (simp add: fun_eq_iff)
  have running: "isRunning (new_batch git dir) \<longrightarrow> P" for P by (simp add: isRunning_def new_batch_def)
  have answers: "answering (repository_answers repo) = repository_answers repo" using repository_objects [OF assms(1)] by (rule answering_id)
  have one: "commits_of oid (repository_answers repo (hex oid)) = (case repo oid of None \<Rightarrow> [] | Some (commit, _) \<Rightarrow> [commit])"
    if "printable_oid oid" for oid
  proof (cases "repo oid")
    case (Some entry)
    obtain commit others where entry: "entry = (commit, others)" by (cases entry)
    then have commit: "cm_oid commit = oid" "git_commit commit others" "length (commit_text commit others) \<le> kMaxObjectBytes"
      using assms(1) Some by (auto simp: git_repository_def)
    have "parseRawCommit oid (commit_text commit others) = commit" using raw_commit_read [OF commit(2)] commit(1) by simp
    with Some entry commit(3) that show ?thesis by (simp add: repository_answers_def commits_of_def fromHex_printed)
  qed (use that in \<open>simp add: repository_answers_def commits_of_def fromHex_printed\<close>)
  have each: "map (\<lambda>oid. commits_of oid (repository_answers repo (hex oid))) oids = map (\<lambda>oid. case repo oid of None \<Rightarrow> [] | Some (commit, _) \<Rightarrow> [commit]) oids"
    using assms(2) one by (auto simp: list_all_iff)
  have all: "fst (readCommits (child_pipes (repository_answers repo) moves (\<lambda>_. False) (\<lambda>_. False) (\<lambda>_. False)) m oids (new_batch git dir) c) =
      concat (map (\<lambda>oid. commits_of oid (repository_answers repo (hex oid))) oids)"
    using working.readCommits_done [OF running assms(2), of "repository_answers repo" "\<lambda>t. moves t - 1" m] unfolding answers moves [symmetric] .
  show ?thesis by (simp only: all each)
qed

definition sample_repository :: Repository where
  "sample_repository oid = (if oid = sample_oid then Some (sample_commit\<lparr>cm_oid := sample_oid\<rparr>, [(''gpgsig -----BEGIN'', [''abc''])]) else None)"

definition idle_child :: GitChild where
  "idle_child = \<lparr>gch_partial = [], gch_output = [], gch_time = 0\<rparr>"

lemma sample_repository_good: "git_repository sample_repository"
proof -
  have hex: "length (hex sample_oid) \<le> 64" using hex_looks_like [OF sample_printable] by (auto simp: looksLikeObjectHex_def)
  have signature: "length (signature_text sample_signature) = 19"
    by (simp add: signature_text_def sample_signature_def zone_text_def two_digits_def int_to_string_def to_string.simps)
  have "length (commit_text (sample_commit\<lparr>cm_oid := sample_oid\<rparr>) [(''gpgsig -----BEGIN'', [''abc''])]) \<le> kMaxObjectBytes"
    using hex signature by (simp add: commit_text_def sample_commit_def header_text_def kMaxObjectBytes_def)
  moreover have "git_commit (sample_commit\<lparr>cm_oid := sample_oid\<rparr>) [(''gpgsig -----BEGIN'', [''abc''])]"
    using sample_printable
    by (simp add: git_commit_def sample_commit_def sample_signature_def git_signature_def other_header_def known_header_def is_line_end_def)
  ultimately show ?thesis using sample_printable by (auto simp: git_repository_def sample_repository_def)
qed

theorem commits_reach_the_list_witness:
  "fst (readCommits (child_pipes (repository_answers sample_repository) (\<lambda>_. 3) (\<lambda>_. False) (\<lambda>_. False) (\<lambda>_. False)) 1 [sample_oid, sample_oid]
     (new_batch ''git'' ''/r'') idle_child) = [sample_commit\<lparr>cm_oid := sample_oid\<rparr>, sample_commit\<lparr>cm_oid := sample_oid\<rparr>]"
  by (subst commits_reach_the_list [OF sample_repository_good]) (simp_all add: sample_printable sample_repository_def)

theorem each_answer_its_own_witness:
  "list_all2 (\<lambda>revision r. r = expected revision (repository_answers sample_repository revision) \<or> unanswered r) [hex sample_oid, ''HEAD:a'']
    (requests (child_pipes (repository_answers sample_repository) (\<lambda>t. if t = 9 then 0 else 2) (\<lambda>t. t = 50) (\<lambda>_. False) (\<lambda>_. False)) 1
       [hex sample_oid, ''HEAD:a''] (new_batch ''git'' ''/r'') idle_child)"
  by (rule each_answer_its_own [OF repository_objects [OF sample_repository_good]])
    (simp_all add: valid_revision_def hex_nonempty [OF sample_printable] hex_not_blank)

end
