(* ===== verification/CompareOperations.thy ===== *)
theory CompareOperations
  imports RepositoryOperations CatFiles TextTraits
begin

text \<open>
  Comparing two refs, patches, housekeeping, making repositories and exporting files: \<^verbatim>\<open>CompareOps\<close>, \<^verbatim>\<open>PatchOps\<close>,
  \<^verbatim>\<open>MaintenanceOps\<close>, \<^verbatim>\<open>InitCloneOps\<close> and \<^verbatim>\<open>BlobOps\<close> of \<^verbatim>\<open>src/core/git/ops\<close>.
\<close>

section \<open>Comparing\<close>

record CompareCommitEntry =
  ce_oid :: ObjectId
  ce_onRightOnly :: bool
  ce_authorName :: string
  ce_authorDate :: int
  ce_subject :: string

record CompareRequest =
  cr_leftRef :: string
  cr_rightRef :: string
  cr_threeDot :: bool

record CompareResult =
  cp_mergeBase :: ObjectId
  cp_commits :: "CompareCommitEntry list"
  cp_files :: "DiffFile list"

definition nul :: char where "nul = CHR 0x00"

definition rangeExpr :: "string \<Rightarrow> string \<Rightarrow> bool \<Rightarrow> string" where
  "rangeExpr left right threeDot = left @ (if threeDot then ''...'' else ''..'') @ right"

definition splitNul :: "string \<Rightarrow> string list" where
  "splitNul s = (let records = splitOn nul s in if last records = [] then butlast records else records)"

definition readMergeBase :: "'g Git \<Rightarrow> string \<Rightarrow> string \<Rightarrow> string \<Rightarrow> 'g \<Rightarrow> ObjectId GitResult \<times> 'g" where
  "readMergeBase git dir left right g =
     (case git ((timed dir [''merge-base'', left, right] 30000)\<lparr>gc_benignExitCodes := [1]\<rparr>) g of
        (Inl e, g) \<Rightarrow> (if ge_exitCode e = 1 then Inr null_oid else Inl e, g)
      | (Inr out, g) \<Rightarrow> (Inr (fromHex (drop_back is_line_end out)), g))"

definition new_compare_commit :: CompareCommitEntry where
  "new_compare_commit = \<lparr>ce_oid = null_oid, ce_onRightOnly = False, ce_authorName = [], ce_authorDate = 0, ce_subject = []\<rparr>"

text \<open>The columns after the marker: three cut at tabs, and the subject to the end of the line.\<close>

definition compareColumns :: "string \<Rightarrow> CompareCommitEntry \<Rightarrow> CompareCommitEntry" where
  "compareColumns rest entry =
     (case find_char tab rest of
        None \<Rightarrow> entry
      | Some t1 \<Rightarrow>
          let entry = entry\<lparr>ce_oid := fromHex (take t1 rest)\<rparr>; rest = drop (t1 + 1) rest
          in case find_char tab rest of
               None \<Rightarrow> entry
             | Some t2 \<Rightarrow>
                 let entry = entry\<lparr>ce_authorName := take t2 rest\<rparr>; rest = drop (t2 + 1) rest
                 in case find_char tab rest of
                      None \<Rightarrow> entry\<lparr>ce_authorDate := parseInt rest\<rparr>
                    | Some t3 \<Rightarrow> entry\<lparr>ce_authorDate := parseInt (take t3 rest), ce_subject := drop (t3 + 1) rest\<rparr>)"

definition compareCommitLine :: "string \<Rightarrow> CompareCommitEntry list" where
  "compareCommitLine line =
     (case find_char (CHR 0x01) line of
        None \<Rightarrow> []
      | Some marker \<Rightarrow>
          [compareColumns (drop (marker + 1) line) (new_compare_commit\<lparr>ce_onRightOnly := (take marker line \<noteq> [] \<and> hd (take marker line) = CHR ''>'')\<rparr>)])"

definition compareLogCommand :: "string \<Rightarrow> string \<Rightarrow> string \<Rightarrow> bool \<Rightarrow> GitCommand" where
  "compareLogCommand dir left right threeDot =
     timed dir [''log'', ''--left-right'', ''--format=%m'' @ [CHR 0x01] @ ''%H'' @ [tab] @ ''%an'' @ [tab] @ ''%at'' @ [tab] @ ''%s'',
       rangeExpr left right threeDot] 60000"

definition readCompareCommits :: "'g Git \<Rightarrow> string \<Rightarrow> string \<Rightarrow> string \<Rightarrow> bool \<Rightarrow> 'g \<Rightarrow> CompareCommitEntry list GitResult \<times> 'g" where
  "readCompareCommits git dir left right threeDot g =
     (case git (compareLogCommand dir left right threeDot) g of
        (Inl e, g) \<Rightarrow> (Inl e, g)
      | (Inr out, g) \<Rightarrow> (Inr (concat (map compareCommitLine (splitOn nl out))), g))"

definition kindFromStatus :: "char \<Rightarrow> FileChangeKind" where
  "kindFromStatus code =
     (if code = CHR ''A'' then FileAdded else if code = CHR ''D'' then FileDeleted else if code = CHR ''R'' then FileRenamed
      else if code = CHR ''C'' then FileCopied else if code = CHR ''T'' then FileTypeChanged else FileModified)"

text \<open>The sides of an added or deleted file that does not exist there are cleared.\<close>

definition clearSides :: "DiffFile \<Rightarrow> DiffFile" where
  "clearSides f =
     (let f = (if df_kind f = FileAdded then f\<lparr>df_oldPath := []\<rparr> else f)
      in if df_kind f = FileDeleted then f\<lparr>df_newPath := []\<rparr> else f)"

definition isTwoPaths :: "string \<Rightarrow> bool" where
  "isTwoPaths status \<longleftrightarrow> kindFromStatus (hd status) = FileRenamed \<or> kindFromStatus (hd status) = FileCopied"

definition twoPathFile :: "string \<Rightarrow> string \<Rightarrow> string \<Rightarrow> DiffFile" where
  "twoPathFile status old new =
     new_file\<lparr>df_kind := kindFromStatus (hd status), df_similarity := (case from_chars_int (tl status) of Some n \<Rightarrow> n | None \<Rightarrow> 0),
       df_oldPath := old, df_newPath := new\<rparr>"

definition onePathFile :: "string \<Rightarrow> string \<Rightarrow> DiffFile" where
  "onePathFile status path = clearSides (new_file\<lparr>df_kind := kindFromStatus (hd status), df_oldPath := path, df_newPath := path\<rparr>)"

fun statusFiles :: "string list \<Rightarrow> DiffFile list" where
  "statusFiles [] = []"
| "statusFiles (status # records) =
     (if status = [] then statusFiles records
      else if isTwoPaths status
      then (case records of
              [] \<Rightarrow> [twoPathFile status [] []]
            | [old] \<Rightarrow> [twoPathFile status old []]
            | old # new # records' \<Rightarrow> twoPathFile status old new # statusFiles records')
      else (case records of [] \<Rightarrow> [onePathFile status []] | path # records' \<Rightarrow> onePathFile status path # statusFiles records'))"

text \<open>The last file of a path counts.\<close>

definition indexByDisplayPath :: "DiffFile list \<Rightarrow> string \<rightharpoonup> nat" where
  "indexByDisplayPath files = map_of (rev (zip (map displayPath files) [0..<length files]))"

definition numberOf :: "string \<Rightarrow> nat" where
  "numberOf s = (case fst (from_chars 32 s) of Some n \<Rightarrow> n | None \<Rightarrow> 0)"

definition setLineCounts :: "string \<Rightarrow> string \<Rightarrow> DiffFile \<Rightarrow> DiffFile" where
  "setLineCounts added removed f =
     (if added = ''-'' \<or> removed = ''-'' then f\<lparr>df_binary := True\<rparr>
      else f\<lparr>df_binary := False, df_addedLines := numberOf added, df_removedLines := numberOf removed\<rparr>)"

definition countFile :: "(string \<rightharpoonup> nat) \<Rightarrow> string \<Rightarrow> string \<Rightarrow> string \<Rightarrow> DiffFile list \<Rightarrow> DiffFile list" where
  "countFile index path added removed files =
     (case index path of None \<Rightarrow> files | Some i \<Rightarrow> files[i := setLineCounts added removed (files ! i)])"

fun countFiles :: "(string \<rightharpoonup> nat) \<Rightarrow> string list \<Rightarrow> DiffFile list \<Rightarrow> DiffFile list" where
  "countFiles index [] files = files"
| "countFiles index (record' # records) files =
     (case find_char tab record' of
        None \<Rightarrow> countFiles index records files
      | Some t1 \<Rightarrow>
          (case find_char_from tab record' (t1 + 1) of
             None \<Rightarrow> countFiles index records files
           | Some t2 \<Rightarrow>
               if drop (t2 + 1) record' \<noteq> []
               then countFiles index records (countFile index (drop (t2 + 1) record') (take t1 record') (substr record' (t1 + 1) (t2 - t1 - 1)) files)
               else (case records of
                       old # new # records' \<Rightarrow>
                         countFiles index records' (countFile index new (take t1 record') (substr record' (t1 + 1) (t2 - t1 - 1)) files)
                     | _ \<Rightarrow> countFile index [] (take t1 record') (substr record' (t1 + 1) (t2 - t1 - 1)) files)))"

definition readCompareFiles :: "'g Git \<Rightarrow> string \<Rightarrow> string \<Rightarrow> string \<Rightarrow> bool \<Rightarrow> 'g \<Rightarrow> DiffFile list GitResult \<times> 'g" where
  "readCompareFiles git dir left right threeDot g =
     (case git (timed dir [''diff'', ''--name-status'', ''-M'', ''-z'', rangeExpr left right threeDot] 60000) g of
        (Inl e, g) \<Rightarrow> (Inl e, g)
      | (Inr statusOut, g) \<Rightarrow>
          (case git (timed dir [''diff'', ''--numstat'', ''-M'', ''-z'', rangeExpr left right threeDot] 60000) g of
             (Inl e, g) \<Rightarrow> (Inl e, g)
           | (Inr numstatOut, g) \<Rightarrow>
               let files = statusFiles (splitNul statusOut) in (Inr (countFiles (indexByDisplayPath files) (splitNul numstatOut) files), g)))"

definition compare :: "'g Git \<Rightarrow> string \<Rightarrow> CompareRequest \<Rightarrow> 'g \<Rightarrow> CompareResult GitResult \<times> 'g" where
  "compare git dir req g =
     (if cr_leftRef req = [] \<or> cr_rightRef req = [] then (Inl (git_error InvalidArgument ''Compare needs two refs'' []), g)
      else case readMergeBase git dir (cr_leftRef req) (cr_rightRef req) g of
             (Inl e, g) \<Rightarrow> (Inl e, g)
           | (Inr base, g) \<Rightarrow>
               (case readCompareCommits git dir (cr_leftRef req) (cr_rightRef req) (cr_threeDot req) g of
                  (Inl e, g) \<Rightarrow> (Inl e, g)
                | (Inr commits, g) \<Rightarrow>
                    (case readCompareFiles git dir (cr_leftRef req) (cr_rightRef req) (cr_threeDot req) g of
                       (Inl e, g) \<Rightarrow> (Inl e, g)
                     | (Inr files, g) \<Rightarrow> (Inr \<lparr>cp_mergeBase = base, cp_commits = commits, cp_files = files\<rparr>, g))))"

record CompareFileDiffRequest =
  cd_leftRef :: string
  cd_rightRef :: string
  cd_threeDot :: bool
  cd_path :: string
  cd_oldPath :: string

definition compareFileDiff :: "'g Git \<Rightarrow> string \<Rightarrow> CompareFileDiffRequest \<Rightarrow> 'g \<Rightarrow> ParsedDiff GitResult \<times> 'g" where
  "compareFileDiff git dir req g =
     (if cd_leftRef req = [] \<or> cd_rightRef req = [] \<or> cd_path req = []
      then (Inl (git_error InvalidArgument ''Compare file diff needs two refs and a path'' []), g)
      else case git (timed dir ([''diff'', ''-M'', rangeExpr (cd_leftRef req) (cd_rightRef req) (cd_threeDot req), ''--''] @
               (if cd_oldPath req \<noteq> [] \<and> cd_oldPath req \<noteq> cd_path req then [cd_oldPath req] else []) @ [cd_path req]) 60000) g of
             (Inl e, g) \<Rightarrow> (Inl e, g)
           | (Inr out, g) \<Rightarrow> (Inr (UnifiedDiff.parse default_options out), g))"

section \<open>Patches\<close>

definition exportCommand :: "string \<Rightarrow> string \<Rightarrow> nat \<Rightarrow> ObjectId \<Rightarrow> GitCommand" where
  "exportCommand dir outputDir i oid = timed dir [''format-patch'', ''-1'', hex oid, ''--start-number'', to_string (i + 1), ''-o'', outputDir] 60000"

text \<open>\<open>halted\<close>: whether the operation has been cancelled.\<close>

fun exportEach :: "'g Git \<Rightarrow> ('g \<Rightarrow> bool) \<Rightarrow> string \<Rightarrow> string \<Rightarrow> nat \<Rightarrow> ObjectId list \<Rightarrow> 'g \<Rightarrow> OperationOutcome option \<times> 'g" where
  "exportEach git halted dir outputDir i [] g = (None, g)"
| "exportEach git halted dir outputDir i (oid # oids) g =
     (if halted g then (Some (new_outcome\<lparr>oo_error := Some cancelled\<rparr>), g)
      else case git (exportCommand dir outputDir i oid) g of
             (Inl e, g) \<Rightarrow> (Some (failedWith e (ge_message e)), g)
           | (Inr _, g) \<Rightarrow> exportEach git halted dir outputDir (i + 1) oids g)"

definition exportPatches :: "'g Git \<Rightarrow> ('g \<Rightarrow> bool) \<Rightarrow> string \<Rightarrow> ObjectId list \<Rightarrow> string \<Rightarrow> 'g \<Rightarrow> OperationOutcome \<times> 'g" where
  "exportPatches git halted dir commits outputDir g =
     (if commits = [] then (invalidArgument ''No commits selected'', g)
      else if outputDir = [] then (invalidArgument ''No output folder chosen'', g)
      else case exportEach git halted dir outputDir 0 commits g of
             (Some outcome, g) \<Rightarrow> (outcome, g)
           | (None, g) \<Rightarrow> (succeededWith (to_string (length commits) @ '' patch(es) written to '' @ outputDir), g))"

definition applyPatchFiles :: "'g Git \<Rightarrow> string \<Rightarrow> string list \<Rightarrow> bool \<Rightarrow> bool \<Rightarrow> 'g \<Rightarrow> OperationOutcome \<times> 'g" where
  "applyPatchFiles git dir patchFiles threeWay updateIndex g =
     (if patchFiles = [] then (invalidArgument ''No patch file chosen'', g)
      else runOne git (timed dir ([''apply''] @ (if threeWay then [''--3way''] else []) @ (if updateIndex then [''--index''] else []) @ patchFiles) 60000)
             (\<lambda>_. ''Apply patch'') g)"

definition describeImport :: "string list \<Rightarrow> string" where
  "describeImport patchFiles = ''Import '' @ to_string (length patchFiles) @ '' patch(es)''"

definition importPatches :: "'g Git \<Rightarrow> string \<Rightarrow> string list \<Rightarrow> bool \<Rightarrow> 'g \<Rightarrow> OperationOutcome \<times> 'g" where
  "importPatches git dir patchFiles threeWay g =
     (if patchFiles = [] then (invalidArgument ''No patch file chosen'', g)
      else runOne git (timed dir ([''am''] @ (if threeWay then [''--3way''] else []) @ patchFiles) 120000) (\<lambda>_. describeImport patchFiles) g)"

definition amContinue :: "'g Git \<Rightarrow> string \<Rightarrow> 'g \<Rightarrow> OperationOutcome \<times> 'g" where
  "amContinue git dir g = runOne git (timed dir [''am'', ''--continue''] 120000) (\<lambda>_. ''Continue applying patches'') g"

definition amSkip :: "'g Git \<Rightarrow> string \<Rightarrow> 'g \<Rightarrow> OperationOutcome \<times> 'g" where
  "amSkip git dir g = runOne git (timed dir [''am'', ''--skip''] 120000) (\<lambda>_. ''Skip patch'') g"

definition amAbort :: "'g Git \<Rightarrow> string \<Rightarrow> 'g \<Rightarrow> OperationOutcome \<times> 'g" where
  "amAbort git dir g = runOne git (timed dir [''am'', ''--abort''] 120000) (\<lambda>_. ''Abort patch import'') g"

section \<open>Housekeeping\<close>

datatype CommitGraphPreference = PreferenceUnset | PreferenceEnabled | PreferenceDeclined

definition commitGraphFile :: "RepoPaths \<Rightarrow> string" where
  "commitGraphFile p = path_join (path_join (path_join (rp_commonDir p) ''objects'') ''info'') ''commit-graph''"

definition commitGraphChainFile :: "RepoPaths \<Rightarrow> string" where
  "commitGraphChainFile p = path_join (path_join (path_join (path_join (rp_commonDir p) ''objects'') ''info'') ''commit-graphs'') ''commit-graph-chain''"

definition hasCommitGraph :: "(string \<Rightarrow> bool) \<Rightarrow> RepoPaths \<Rightarrow> bool" where
  "hasCommitGraph exists p \<longleftrightarrow> exists (commitGraphFile p) \<or> exists (commitGraphChainFile p)"

definition kCommitGraphAdviceMinRows :: nat where "kCommitGraphAdviceMinRows = 25000"

definition shouldOfferCommitGraph :: "bool \<Rightarrow> nat \<Rightarrow> CommitGraphPreference \<Rightarrow> bool" where
  "shouldOfferCommitGraph hasGraph rowCount preference \<longleftrightarrow>
     (if hasGraph then False else if preference \<noteq> PreferenceUnset then False else rowCount \<ge> kCommitGraphAdviceMinRows)"

text \<open>In milliseconds of the clock.\<close>

definition kIndexRefreshMinInterval :: int where "kIndexRefreshMinInterval = 30000"

definition shouldRefreshIndex :: "int option \<Rightarrow> int \<Rightarrow> bool" where
  "shouldRefreshIndex last' now \<longleftrightarrow> (case last' of None \<Rightarrow> True | Some t \<Rightarrow> now - t \<ge> kIndexRefreshMinInterval)"

definition makeWriteCommitGraphOperation :: Operation where
  "makeWriteCommitGraphOperation = (new_operation ''Build commit-graph'')\<lparr>o_killableMidFlight := True\<rparr>"

definition writeCommitGraph :: "'g Git \<Rightarrow> string \<Rightarrow> bool \<Rightarrow> bool \<Rightarrow> 'g \<Rightarrow> OperationOutcome \<times> 'g" where
  "writeCommitGraph git dir changedPaths split g =
     runOne git (git_command dir ([''commit-graph'', ''write'', ''--reachable''] @ (if changedPaths then [''--changed-paths''] else []) @
         (if split then [''--split''] else []))) (\<lambda>_. ''Built commit-graph'') g"

definition makeRefreshIndexOperation :: Operation where
  "makeRefreshIndexOperation = (new_operation ''Refresh index'')\<lparr>o_isBackground := True, o_isHousekeeping := True\<rparr>"

definition refreshIndex :: "'g Git \<Rightarrow> string \<Rightarrow> 'g \<Rightarrow> OperationOutcome \<times> 'g" where
  "refreshIndex git dir g =
     runOne git ((git_command dir [''update-index'', ''-q'', ''--refresh''])\<lparr>gc_benignExitCodes := [1, 128]\<rparr>) (\<lambda>_. []) g"

section \<open>Making repositories\<close>

record InitRepoRequest =
  in_path :: string
  in_initialBranch :: string

record CloneRepoRequest =
  cl_url :: string
  cl_destPath :: string
  cl_askpassDir :: string
  cl_recurseSubmodules :: bool
  cl_depth :: int

definition notABranchName :: "string \<Rightarrow> GitError" where
  "notABranchName name = git_error InvalidArgument (CHR 0x27 # name @ [CHR 0x27] @ '' is not a valid branch name'') []"

definition nameCheckError :: "string \<Rightarrow> GitError \<Rightarrow> GitError" where
  "nameCheckError name e =
     (if ge_exitCode e = 0 then e
      else if ge_exitCode e \<noteq> 128
      then git_error (ge_code e) (''Could not check the branch name: git exited with code '' @ int_to_string (ge_exitCode e)) (ge_detail e)
      else notABranchName name)"

definition checkNameCommand :: "string \<Rightarrow> GitCommand" where
  "checkNameCommand name = timed [] [''check-ref-format'', ''--branch'', name] 30000"

definition checkInitialBranch :: "'g Git \<Rightarrow> string \<Rightarrow> 'g \<Rightarrow> GitError option \<times> 'g" where
  "checkInitialBranch git name g =
     (case git (checkNameCommand name) g of
        (Inl e, g) \<Rightarrow> (Some (nameCheckError name e), g)
      | (Inr out, g) \<Rightarrow> (if out \<noteq> name then Some (notABranchName name) else None, g))"

definition initCommand :: "InitRepoRequest \<Rightarrow> GitCommand" where
  "initCommand req =
     timed [] ([''init'', ''--quiet''] @ (if in_initialBranch req \<noteq> [] then [''-b'', in_initialBranch req] else []) @ [in_path req]) 30000"

definition runInitRepo :: "'g Git \<Rightarrow> InitRepoRequest \<Rightarrow> 'g \<Rightarrow> unit GitResult \<times> 'g" where
  "runInitRepo git req g =
     (if in_path req = [] then (Inl (git_error InvalidArgument ''A repository path is required'' []), g)
      else case (if in_initialBranch req \<noteq> [] then checkInitialBranch git (in_initialBranch req) g else (None, g)) of
             (Some e, g) \<Rightarrow> (Inl e, g)
           | (None, g) \<Rightarrow> (case git (initCommand req) g of (Inl e, g) \<Rightarrow> (Inl e, g) | (Inr _, g) \<Rightarrow> (Inr (), g)))"

definition cloneArgs :: "CloneRepoRequest \<Rightarrow> string list" where
  "cloneArgs req =
     [''clone'', ''--quiet''] @ (if cl_recurseSubmodules req then [''--recurse-submodules''] else []) @
     (if cl_depth req > 0 then [''--depth'', int_to_string (cl_depth req)] else []) @ [''--'', cl_url req, cl_destPath req]"

definition cloneRefusal :: "CloneRepoRequest \<Rightarrow> GitError option" where
  "cloneRefusal req =
     (if cl_url req = [] then Some (git_error InvalidArgument ''A repository URL is required'' [])
      else if cl_destPath req = [] then Some (git_error InvalidArgument ''A destination path is required'' [])
      else if hd (cl_url req) = CHR ''-'' then Some (git_error InvalidArgument (''A repository URL cannot start with '' @ [CHR 0x27, CHR ''-'', CHR 0x27]) [])
      else if cl_depth req < 0 then Some (git_error InvalidArgument ''A clone depth cannot be negative'' [])
      else None)"

text \<open>
  \<open>stream\<close> runs a command and hands over the pieces of its progress meter; what the caller is told are those
  that can be read.
\<close>

definition runCloneRepo ::
  "(GitCommand \<Rightarrow> 'g \<Rightarrow> (string list \<times> GitError option) \<times> 'g) \<Rightarrow> string option \<Rightarrow> CloneRepoRequest \<Rightarrow> 'g \<Rightarrow> (TransferProgress list \<times> unit GitResult) \<times> 'g" where
  "runCloneRepo stream exe req g =
     (case cloneRefusal req of
        Some e \<Rightarrow> (([], Inl e), g)
      | None \<Rightarrow>
          (case stream (wire exe (cl_askpassDir req) (git_command [] (cloneArgs req))) g of
             ((chunks, result), g) \<Rightarrow> ((List.map_filter parseTransferProgress chunks, case result of None \<Rightarrow> Inr () | Some e \<Rightarrow> Inl e), g)))"

section \<open>Exporting a file of a revision\<close>

record FileAtRevisionRequest =
  fr_revision :: string
  fr_path :: string
  fr_destination :: string

definition quotedPath :: "string \<Rightarrow> string" where
  "quotedPath path = CHR 0x27 # path @ [CHR 0x27]"

datatype WriteResult = WroteAll | CannotOpen | WroteSome

text \<open>\<open>writeFile\<close> opens, writes and closes a file; \<open>removeFile\<close> removes one.\<close>

definition exportFileAtRevision ::
  "'w Pipes \<Rightarrow> int \<Rightarrow> (string \<Rightarrow> string \<Rightarrow> 'w \<Rightarrow> WriteResult \<times> 'w) \<Rightarrow> (string \<Rightarrow> 'w \<Rightarrow> 'w) \<Rightarrow> FileAtRevisionRequest \<Rightarrow> CatFileBatch \<Rightarrow> 'w \<Rightarrow>
    nat GitResult \<times> CatFileBatch \<times> 'w" where
  "exportFileAtRevision pp m writeFile removeFile req b w =
     (if fr_revision req = [] \<or> fr_path req = [] \<or> fr_destination req = []
      then (Inl (git_error InvalidArgument ''A revision, a path and a destination are all required'' []), b, w)
      else case readObject pp m (fr_revision req @ '':'' @ fr_path req) b w of
             (Inl e, b, w) \<Rightarrow>
               (Inl (if ge_code e = NotFound then e\<lparr>ge_message := quotedPath (fr_path req) @ '' is not a file at '' @ fr_revision req\<rparr> else e), b, w)
           | (Inr ob, b, w) \<Rightarrow>
               if ob_type ob \<noteq> ''blob''
               then (Inl (git_error InvalidArgument (quotedPath (fr_path req) @ '' is a '' @ ob_type ob @ '' at '' @ fr_revision req @ '', not a file'') []), b, w)
               else case writeFile (fr_destination req) (ob_content ob) w of
                      (CannotOpen, w) \<Rightarrow> (Inl (git_error Io (''Could not open '' @ quotedPath (fr_destination req) @ '' for writing'') []), b, w)
                    | (WroteSome, w) \<Rightarrow>
                        (Inl (git_error Io (''Could not write '' @ quotedPath (fr_destination req)) []), b, removeFile (fr_destination req) w)
                    | (WroteAll, w) \<Rightarrow> (Inr (length (ob_content ob)), b, w))"

end
