(* ===== verification/CompareReading.thy ===== *)
theory CompareReading
  imports CompareOperations RepositoryPromises
begin

text \<open>
  What comparing two refs reads: the merge base, the commits of either side and the changed files come back as git
  has them, each file with its own kind, paths, similarity and line counts, in whatever order the counts come.
\<close>

section \<open>Records between NUL bytes\<close>

definition terminated :: "string list \<Rightarrow> string" where
  "terminated records = concat (map (\<lambda>r. r @ [nul]) records)"

lemma splitOn_terminated: "list_all (\<lambda>r. nul \<notin> set r) records \<Longrightarrow> splitOn nul (terminated records) = records @ [[]]"
proof (induction records)
  case Nil
  then show ?case by (simp add: terminated_def splitOn.simps)
next
  case (Cons r records)
  then show ?case using splitOn_first [of nul r "terminated records"] by (simp add: terminated_def)
qed

lemma splitNul_terminated: "list_all (\<lambda>r. nul \<notin> set r) records \<Longrightarrow> splitNul (terminated records) = records"
  by (simp add: splitNul_def splitOn_terminated)

section \<open>Changed files\<close>

text \<open>What git prints of a file: its status with the paths, and its counts.\<close>

definition two_paths :: "DiffFile \<Rightarrow> bool" where
  "two_paths f \<longleftrightarrow> df_kind f = FileRenamed \<or> df_kind f = FileCopied"

fun compare_letter :: "FileChangeKind \<Rightarrow> char" where
  "compare_letter FileAdded = CHR ''A''"
| "compare_letter FileDeleted = CHR ''D''"
| "compare_letter FileRenamed = CHR ''R''"
| "compare_letter FileCopied = CHR ''C''"
| "compare_letter FileTypeChanged = CHR ''T''"
| "compare_letter _ = CHR ''M''"

definition compare_score :: "nat \<Rightarrow> string" where
  "compare_score n = [digit_char (n div 100), digit_char (n div 10 mod 10), digit_char (n mod 10)]"

definition status_records :: "DiffFile \<Rightarrow> string list" where
  "status_records f =
     (if two_paths f then [compare_letter (df_kind f) # compare_score (nat (df_similarity f)), df_oldPath f, df_newPath f]
      else [[compare_letter (df_kind f)], displayPath f])"

definition added_number :: "DiffFile \<Rightarrow> string" where
  "added_number f = (if df_binary f then ''-'' else to_string (df_addedLines f))"

definition removed_number :: "DiffFile \<Rightarrow> string" where
  "removed_number f = (if df_binary f then ''-'' else to_string (df_removedLines f))"

definition counts_text :: "DiffFile \<Rightarrow> string" where
  "counts_text f = added_number f @ [tab] @ removed_number f @ [tab]"

definition count_records :: "DiffFile \<Rightarrow> string list" where
  "count_records f = (if two_paths f then [counts_text f, df_oldPath f, df_newPath f] else [counts_text f @ displayPath f])"

definition bare :: "DiffFile \<Rightarrow> DiffFile" where
  "bare f = f\<lparr>df_binary := False, df_addedLines := 0, df_removedLines := 0\<rparr>"

text \<open>A changed file as a comparison describes it.\<close>

definition compared_file :: "DiffFile \<Rightarrow> bool" where
  "compared_file f \<longleftrightarrow>
     df_kind f \<in> {FileAdded, FileDeleted, FileRenamed, FileCopied, FileTypeChanged, FileModified} \<and>
     nul \<notin> set (df_oldPath f) \<and> nul \<notin> set (df_newPath f) \<and> displayPath f \<noteq> [] \<and>
     (if two_paths f then 0 \<le> df_similarity f \<and> df_similarity f < 1000 else df_similarity f = 0) \<and>
     (df_kind f = FileAdded \<longrightarrow> df_oldPath f = []) \<and> (df_kind f = FileDeleted \<longrightarrow> df_newPath f = []) \<and>
     (df_kind f \<in> {FileTypeChanged, FileModified} \<longrightarrow> df_oldPath f = df_newPath f) \<and>
     (if df_binary f then df_addedLines f = 0 \<and> df_removedLines f = 0 else df_addedLines f < 2 ^ 32 \<and> df_removedLines f < 2 ^ 32) \<and>
     df_oldMode f = [] \<and> df_newMode f = [] \<and> df_oldBlob f = [] \<and> df_newBlob f = [] \<and> df_hunks f = []"

lemma score_read: "n < 1000 \<Longrightarrow> from_chars_int (compare_score n) = Some (int n)"
proof -
  assume n: "n < 1000"
  have digits: "n div 100 < 10" "n div 10 mod 10 < 10" "n mod 10 < 10" using n by auto
  have all: "takeWhile is_digit (compare_score n) = compare_score n" using digits by (simp add: compare_score_def)
  have "n div 100 = n div 10 div 10" by (simp add: div_mult2_eq [symmetric])
  then have "100 * (n div 100) + 10 * (n div 10 mod 10) + n mod 10 = n" using mult_div_mod_eq [of 10 n] mult_div_mod_eq [of 10 "n div 10"] by linarith
  then have "dec_value (compare_score n) = n" using digits by (simp add: compare_score_def dec_value_def)
  moreover have "digit_char (n div 100) \<noteq> CHR ''-''" using digits(1) letters_not_digits(4) is_digit_digit_char by metis
  ultimately show ?thesis using n all by (simp add: from_chars_int_def from_chars_def Let_def) (simp add: compare_score_def)
qed

lemma compare_letter_kind: "compared_file f \<Longrightarrow> kindFromStatus (compare_letter (df_kind f)) = df_kind f"
  by (cases "df_kind f") (auto simp: compared_file_def kindFromStatus_def)

lemma status_records_read: "compared_file f \<Longrightarrow> statusFiles (status_records f @ records) = bare f # statusFiles records"
proof -
  assume f: "compared_file f"
  note kind = compare_letter_kind [OF f]
  show ?thesis
  proof (cases "two_paths f")
    case True
    then have "nat (df_similarity f) < 1000" "0 \<le> df_similarity f" using f by (auto simp: compared_file_def)
    with score_read [of "nat (df_similarity f)"] have "twoPathFile (compare_letter (df_kind f) # compare_score (nat (df_similarity f))) (df_oldPath f) (df_newPath f) = bare f"
      using f kind by (cases f) (simp add: twoPathFile_def bare_def new_file_def compared_file_def)
    with True kind show ?thesis by (simp add: status_records_def isTwoPaths_def two_paths_def)
  next
    case False
    have "onePathFile [compare_letter (df_kind f)] (displayPath f) = bare f"
      using f kind False
      by (cases f) (auto simp: onePathFile_def clearSides_def bare_def new_file_def compared_file_def displayPath_def two_paths_def Let_def)
    with False kind show ?thesis by (simp add: status_records_def isTwoPaths_def two_paths_def)
  qed
qed

lemma statusFiles_read: "list_all compared_file fs \<Longrightarrow> statusFiles (concat (map status_records fs)) = map bare fs"
  by (induction fs) (simp_all add: status_records_read)

lemma displayPath_bare [simp]: "displayPath (bare f) = displayPath f"
  by (simp add: displayPath_def bare_def)

lemma numberOf_text: "n < 2 ^ 32 \<Longrightarrow> numberOf (to_string n) = n"
  using from_chars_to_string [of n 32 "[]"] by (simp add: numberOf_def)

lemma setLineCounts_read:
  assumes "compared_file f" and "g = f \<or> g = bare f"
  shows "setLineCounts (added_number f) (removed_number f) g = f"
proof -
  have "to_string n \<noteq> ''-''" for n using to_string_digits [of "CHR ''-''" n] by (auto simp: is_digit_def)
  with assms show ?thesis by (cases f) (auto simp: setLineCounts_def added_number_def removed_number_def bare_def compared_file_def numberOf_text)
qed

lemma counts_cut:
  shows "find_char tab (counts_text f @ rest) = Some (length (added_number f))"
    and "find_char_from tab (counts_text f @ rest) (length (added_number f) + 1) = Some (length (added_number f) + 1 + length (removed_number f))"
    and "take (length (added_number f)) (counts_text f @ rest) = added_number f"
    and "substr (counts_text f @ rest) (length (added_number f) + 1) (length (removed_number f)) = removed_number f"
    and "drop (length (added_number f) + 1 + length (removed_number f) + 1) (counts_text f @ rest) = rest"
proof -
  have tab: "tab \<notin> set (to_string n)" for n by (rule notin_to_string) (simp add: is_digit_def)
  then have free: "tab \<notin> set (added_number f)" "tab \<notin> set (removed_number f)" by (simp_all add: added_number_def removed_number_def)
  show "find_char tab (counts_text f @ rest) = Some (length (added_number f))"
    using free by (simp add: counts_text_def find_char_append_notin)
  show "find_char_from tab (counts_text f @ rest) (length (added_number f) + 1) = Some (length (added_number f) + 1 + length (removed_number f))"
    using free by (simp add: counts_text_def find_char_from_def find_char_append_notin)
qed (simp_all add: counts_text_def substr_def)

lemma count_records_read:
  assumes "compared_file f"
  shows "countFiles index (count_records f @ records) files =
    countFiles index records (countFile index (displayPath f) (added_number f) (removed_number f) files)"
proof (cases "two_paths f")
  case True
  then have "displayPath f = df_newPath f" by (auto simp: two_paths_def displayPath_def)
  with True show ?thesis using counts_cut [of f "[]"] by (simp add: count_records_def)
next
  case False
  then show ?thesis using counts_cut [of f "displayPath f"] assms by (simp add: count_records_def compared_file_def)
qed

text \<open>The files while some of them have been given their counts.\<close>

definition counted_in :: "DiffFile set \<Rightarrow> DiffFile list \<Rightarrow> DiffFile list" where
  "counted_in S fs = map (\<lambda>f. if f \<in> S then f else bare f) fs"

lemma index_read:
  assumes "distinct (map displayPath fs)" and "i < length fs"
  shows "indexByDisplayPath (map bare fs) (displayPath (fs ! i)) = Some i"
proof -
  let ?xs = "zip (map displayPath fs) [0..<length fs]"
  have "(displayPath (fs ! i), i) \<in> set (rev ?xs)" using assms(2) by (auto simp: set_zip intro!: exI [of _ i])
  moreover have "distinct (map fst (rev ?xs))" using assms(1) by (simp add: rev_map [symmetric])
  ultimately have "map_of (rev ?xs) (displayPath (fs ! i)) = Some i" by (rule map_of_is_SomeI [rotated])
  then show ?thesis by (simp add: indexByDisplayPath_def comp_def)
qed

lemma countFile_counted:
  assumes "distinct (map displayPath fs)" and "f \<in> set fs" and "compared_file f"
  shows "countFile (indexByDisplayPath (map bare fs)) (displayPath f) (added_number f) (removed_number f) (counted_in S fs) = counted_in (insert f S) fs"
proof -
  obtain i where i: "i < length fs" "fs ! i = f" using assms(2) by (auto simp: in_set_conv_nth)
  have "distinct fs" using assms(1) by (simp add: distinct_map)
  then have other: "fs ! j = f \<longleftrightarrow> j = i" if "j < length fs" for j using i that nth_eq_iff_index_eq by blast
  have "setLineCounts (added_number f) (removed_number f) (counted_in S fs ! i) = f"
    using i assms(3) by (intro setLineCounts_read) (auto simp: counted_in_def)
  moreover have "(counted_in S fs)[i := f] = counted_in (insert f S) fs"
    using i other by (intro nth_equalityI) (auto simp: counted_in_def nth_list_update)
  ultimately show ?thesis using index_read [OF assms(1) i(1)] i(2) by (simp add: countFile_def)
qed

lemma countFiles_read:
  assumes "distinct (map displayPath fs)" and "set ns \<subseteq> set fs" and "list_all compared_file fs"
  shows "countFiles (indexByDisplayPath (map bare fs)) (concat (map count_records ns)) (counted_in S fs) = counted_in (set ns \<union> S) fs"
  using assms(2)
proof (induction ns arbitrary: S)
  case (Cons f ns)
  then have f: "compared_file f" "f \<in> set fs" using assms(3) by (auto simp: list_all_iff)
  show ?case
    using Cons.IH [of "insert f S"] Cons.prems countFile_counted [OF assms(1) f(2,1), of S]
    by (simp add: count_records_read [OF f(1)])
qed simp

lemma files_read:
  assumes "list_all compared_file fs" and "distinct (map displayPath fs)" and "set ns = set fs"
  shows "countFiles (indexByDisplayPath (statusFiles (concat (map status_records fs)))) (concat (map count_records ns))
    (statusFiles (concat (map status_records fs))) = fs"
proof -
  have "counted_in {} fs = map bare fs" "counted_in (set fs) fs = fs" by (simp_all add: counted_in_def map_idI)
  with countFiles_read [OF assms(2) _ assms(1), of ns "{}"] assms(3) show ?thesis by (simp add: statusFiles_read [OF assms(1)])
qed

lemma not_digit_nul: "\<not> 48 \<le> (of_char (CHR 0x00) :: nat)"
  by simp

lemma records_free:
  assumes "compared_file f"
  shows "list_all (\<lambda>r. nul \<notin> set r) (status_records f) \<and> list_all (\<lambda>r. nul \<notin> set r) (count_records f)"
proof -
  have free: "nul \<notin> set (to_string n)" for n by (rule notin_to_string) (simp add: is_digit_def nul_def)
  have "nul \<noteq> digit_char d" if "d < 10" for d
    using is_digit_digit_char [OF that] by (metis is_digit_def nul_def not_digit_nul)
  then have "nul \<notin> set (compare_score (nat (df_similarity f)))" if "two_paths f"
    using that assms by (auto simp: compare_score_def compared_file_def)
  moreover have "nul \<noteq> compare_letter (df_kind f)" by (cases "df_kind f") (simp_all add: nul_def)
  moreover have "nul \<notin> set (displayPath f)" using assms by (auto simp: displayPath_def compared_file_def)
  ultimately show ?thesis
    using assms free by (auto simp: status_records_def count_records_def counts_text_def added_number_def removed_number_def compared_file_def nul_def)
qed

section \<open>The commits of either side\<close>

definition compare_line :: "CompareCommitEntry \<Rightarrow> string" where
  "compare_line e =
     [if ce_onRightOnly e then CHR ''>'' else CHR ''<'', CHR 0x01] @ hex (ce_oid e) @ tab # ce_authorName e @ tab # int_to_string (ce_authorDate e) @ tab # ce_subject e"

definition compared_commit :: "CompareCommitEntry \<Rightarrow> bool" where
  "compared_commit e \<longleftrightarrow> printable_oid (ce_oid e) \<and> plain (ce_authorName e) \<and> \<bar>ce_authorDate e\<bar> < 2 ^ 63 \<and> nl \<notin> set (ce_subject e)"

interpretation compare_lines: line_list compare_line compareCommitLine compared_commit "\<lambda>s. s = []"
proof
  show "compareCommitLine (compare_line e) = [e]" if "compared_commit e" for e
  proof -
    have free: "tab \<notin> set (hex (ce_oid e))" "tab \<notin> set (ce_authorName e)" "tab \<notin> set (int_to_string (ce_authorDate e))"
      using that hex_not_blank(4) int_to_string_free [of tab] by (simp_all add: compared_commit_def plain_def)
    have "parseInt (int_to_string (ce_authorDate e)) = ce_authorDate e" using that parseInt_text [of "ce_authorDate e" "[]"] by (simp add: compared_commit_def)
    then show ?thesis using free that
      by (cases e) (auto simp: compareCommitLine_def compare_line_def compareColumns_def find_char_append_notin new_compare_commit_def
        compared_commit_def fromHex_printed Let_def)
  qed
qed (use hex_not_blank(2) int_to_string_free [of nl] in \<open>auto simp: compare_line_def compared_commit_def plain_def compareCommitLine_def\<close>)

section \<open>The comparison\<close>

text \<open>
  C21. When git answers each command of a comparison with what it prints for a merge base, commits and changed
  files, the comparison is exactly that base, those commits in order and those files, in whatever order git counts
  their lines.
\<close>

theorem compare_reads_back:
  assumes "cr_leftRef req \<noteq> []" and "cr_rightRef req \<noteq> []" and "printable_oid base" and "list_all compared_commit cs"
    and "list_all compared_file fs" and "distinct (map displayPath fs)" and "set ns = set fs"
    and "answers ((timed dir [''merge-base'', cr_leftRef req, cr_rightRef req] 30000)\<lparr>gc_benignExitCodes := [1]\<rparr>) = Inr (hex base)"
    and "answers (compareLogCommand dir (cr_leftRef req) (cr_rightRef req) (cr_threeDot req)) = Inr (printed_lines compare_line (map Inl cs))"
    and "answers (timed dir [''diff'', ''--name-status'', ''-M'', ''-z'', rangeExpr (cr_leftRef req) (cr_rightRef req) (cr_threeDot req)] 60000) =
      Inr (terminated (concat (map status_records fs)))"
    and "answers (timed dir [''diff'', ''--numstat'', ''-M'', ''-z'', rangeExpr (cr_leftRef req) (cr_rightRef req) (cr_threeDot req)] 60000) =
      Inr (terminated (concat (map count_records ns)))"
  shows "compare (\<lambda>c g. (answers c, g)) dir req g = (Inr \<lparr>cp_mergeBase = base, cp_commits = cs, cp_files = fs\<rparr>, g)"
proof -
  have "list_all compared_file ns" using assms(5,7) by (simp add: list_all_iff)
  then have records: "splitNul (terminated (concat (map status_records fs))) = concat (map status_records fs)"
    "splitNul (terminated (concat (map count_records ns))) = concat (map count_records ns)"
    using assms(5) records_free by (intro splitNul_terminated; fastforce simp: list_all_iff)+
  have "list_all (case_sum compared_commit (\<lambda>s. s = [])) (map Inl cs)" using assms(4) by (simp add: list_all_iff)
  note commits = compare_lines.list_read [OF this]
  have "last (hex base) \<in> set (hex base)" using hex_nonempty [OF assms(3)] by simp
  then have "\<not> is_line_end (last (hex base))" using hex_not_blank(2,3) [of base] by (metis is_line_end_def)
  then have base: "fromHex (drop_back is_line_end (hex base)) = base"
    using drop_back_stop [of "hex base" is_line_end "[]"] fromHex_printed [OF assms(3)] by simp
  show ?thesis
    using assms(1,2,8-11) base commits files_read [OF assms(5-7)] records
    by (simp add: compare_def readMergeBase_def readCompareCommits_def readCompareFiles_def Let_def)
qed

definition sample_compare_commit :: CompareCommitEntry where
  "sample_compare_commit = \<lparr>ce_oid = sample_oid, ce_onRightOnly = True, ce_authorName = ''Ann Lee'', ce_authorDate = -7, ce_subject = ''a'' @ [tab] @ ''b''\<rparr>"

definition sample_renamed :: DiffFile where
  "sample_renamed = new_file\<lparr>df_kind := FileRenamed, df_oldPath := ''a b'', df_newPath := ''c'' @ [tab], df_similarity := 95, df_addedLines := 3\<rparr>"

definition sample_deleted :: DiffFile where
  "sample_deleted = new_file\<lparr>df_kind := FileDeleted, df_oldPath := ''d'', df_binary := True\<rparr>"

definition sample_compare :: CompareRequest where
  "sample_compare = \<lparr>cr_leftRef = ''main'', cr_rightRef = ''topic'', cr_threeDot = True\<rparr>"

definition sample_compare_answers :: "GitCommand \<Rightarrow> string GitResult" where
  "sample_compare_answers c =
     (if hd (gc_args c) = ''merge-base'' then Inr (hex sample_oid)
      else if hd (gc_args c) = ''log'' then Inr (printed_lines compare_line [Inl sample_compare_commit])
      else if gc_args c ! 1 = ''--name-status'' then Inr (terminated (concat (map status_records [sample_renamed, sample_deleted])))
      else Inr (terminated (concat (map count_records [sample_deleted, sample_renamed]))))"

theorem compare_reads_back_witness:
  "compare (\<lambda>c g. (sample_compare_answers c, g)) ''/r'' sample_compare () =
     (Inr \<lparr>cp_mergeBase = sample_oid, cp_commits = [sample_compare_commit], cp_files = [sample_renamed, sample_deleted]\<rparr>, ())"
  by (rule compare_reads_back [where ns = "[sample_deleted, sample_renamed]"])
    (auto simp: sample_compare_def sample_printable sample_compare_commit_def sample_renamed_def sample_deleted_def sample_compare_answers_def
      compared_commit_def compared_file_def plain_def two_paths_def displayPath_def new_file_def nul_def compareLogCommand_def timed_def git_command_def)

end
