(* ===== verification/ToolOperations.thy ===== *)
theory ToolOperations
  imports RepositoryOperations CommitMetas
begin

text \<open>
  Worktrees, submodules, bisecting and large files, \<^verbatim>\<open>WorktreeOps\<close>, \<^verbatim>\<open>SubmoduleOps\<close>, \<^verbatim>\<open>BisectOps\<close> and \<^verbatim>\<open>LfsOps\<close> of
  \<^verbatim>\<open>src/core/git/ops\<close>: the commands they send and what they read from git's output, with the comparison of paths of
  \<^verbatim>\<open>src/core/base/FsUtil.cpp\<close> and \<^verbatim>\<open>src/core/git/OperationLogScope.cpp\<close>.
\<close>

section \<open>Paths as keys\<close>

text \<open>
  \<^verbatim>\<open>lexically_normal\<close> without the separator it may leave at the end: empty and \<^verbatim>\<open>.\<close> components vanish, \<^verbatim>\<open>..\<close> takes
  the component before it, and above the root there is nothing. The components are kept in reverse.
\<close>

fun normalStep :: "bool \<Rightarrow> string list \<Rightarrow> string \<Rightarrow> string list" where
  "normalStep absolute done c =
     (if c = [] \<or> c = ''.'' then done
      else if c = ''..'' then (case done of [] \<Rightarrow> if absolute then [] else [c] | d # ds \<Rightarrow> if d = ''..'' then c # done else ds)
      else c # done)"

fun joinComponents :: "string list \<Rightarrow> string" where
  "joinComponents [] = []"
| "joinComponents [c] = c"
| "joinComponents (c # d # cs) = c @ CHR ''/'' # joinComponents (d # cs)"

definition isAbsolute :: "string \<Rightarrow> bool" where
  "isAbsolute path \<longleftrightarrow> path \<noteq> [] \<and> hd path = CHR ''/''"

definition normalComponents :: "string \<Rightarrow> string list" where
  "normalComponents path = rev (foldl (normalStep (isAbsolute path)) [] (splitOn (CHR ''/'') path))"

definition normalText :: "string \<Rightarrow> string" where
  "normalText path =
     (if path = [] then []
      else if isAbsolute path then CHR ''/'' # joinComponents (normalComponents path)
      else if normalComponents path = [] then ''.'' else joinComponents (normalComponents path))"

definition canonicalKey :: "bool \<Rightarrow> string \<Rightarrow> string" where
  "canonicalKey caseInsensitive path = (if caseInsensitive then map tolower (normalText path) else normalText path)"

text \<open>\<open>identify\<close> is \<^verbatim>\<open>resolvedDirId\<close>: which directory a path leads to, if any.\<close>

definition recordBelongsToSession :: "bool \<Rightarrow> (string \<Rightarrow> 'i option) \<Rightarrow> string \<Rightarrow> string list \<Rightarrow> bool" where
  "recordBelongsToSession caseInsensitive identify recordRepoDir sessionDirs =
     (if recordRepoDir = [] then False
      else if list_ex (\<lambda>dir. canonicalKey caseInsensitive dir = canonicalKey caseInsensitive recordRepoDir) sessionDirs then True
      else identify recordRepoDir \<noteq> None \<and> list_ex (\<lambda>dir. identify dir = identify recordRepoDir) sessionDirs)"

section \<open>Worktrees\<close>

datatype WorktreePendingCountState = Unmeasured | Measured | NotApplicable | FailedCount

record WorktreeInfo =
  wt_path :: string
  wt_headOid :: string
  wt_branch :: string
  wt_isMain :: bool
  wt_isPrimary :: bool
  wt_isBare :: bool
  wt_isDetached :: bool
  wt_isLocked :: bool
  wt_lockReason :: string
  wt_isPrunable :: bool
  wt_prunableReason :: string
  wt_pendingChanges :: nat
  wt_pendingCountState :: WorktreePendingCountState
  wt_createdAtUnix :: int

definition new_worktree :: WorktreeInfo where
  "new_worktree =
     \<lparr>wt_path = [], wt_headOid = [], wt_branch = [], wt_isMain = False, wt_isPrimary = False, wt_isBare = False, wt_isDetached = False,
      wt_isLocked = False, wt_lockReason = [], wt_isPrunable = False, wt_prunableReason = [], wt_pendingChanges = 0,
      wt_pendingCountState = Unmeasured, wt_createdAtUnix = 0\<rparr>"

text \<open>The entry being collected comes last.\<close>

definition splitEntryLine :: "string list list \<Rightarrow> string \<Rightarrow> string list list" where
  "splitEntryLine entries line =
     (let entries = (if starts_with line ''worktree '' then entries @ [[]] else entries)
      in if line \<noteq> [] \<and> entries \<noteq> [] then butlast entries @ [last entries @ [line]] else entries)"

definition splitEntries :: "string \<Rightarrow> string list list" where
  "splitEntries out = foldl splitEntryLine [] (splitOn nl out)"

definition worktreeLine :: "WorktreeInfo \<Rightarrow> string \<Rightarrow> WorktreeInfo" where
  "worktreeLine info line =
     (if starts_with line ''worktree '' then info\<lparr>wt_path := drop 9 line\<rparr>
      else if starts_with line ''HEAD '' then info\<lparr>wt_headOid := drop 5 line\<rparr>
      else if starts_with line ''branch ''
      then let ref = drop 7 line in info\<lparr>wt_branch := if starts_with ref kHeadsPrefix then drop (length kHeadsPrefix) ref else ref\<rparr>
      else if line = ''bare'' then info\<lparr>wt_isBare := True\<rparr>
      else if line = ''detached'' then info\<lparr>wt_isDetached := True\<rparr>
      else if starts_with line ''locked''
      then info\<lparr>wt_isLocked := True, wt_lockReason := if length line > 7 \<and> line ! 6 = CHR '' '' then drop 7 line else wt_lockReason info\<rparr>
      else if starts_with line ''prunable''
      then info\<lparr>wt_isPrunable := True, wt_prunableReason := if length line > 9 \<and> line ! 8 = CHR '' '' then drop 9 line else wt_prunableReason info\<rparr>
      else info)"

definition parseEntry :: "(string \<Rightarrow> 'i option) \<Rightarrow> string \<Rightarrow> string list \<Rightarrow> WorktreeInfo" where
  "parseEntry identify mainWorkDir lines' =
     (let info = foldl worktreeLine new_worktree lines'
      in if mainWorkDir \<noteq> [] \<and> wt_path info \<noteq> []
         then info\<lparr>wt_isMain := identify (wt_path info) \<noteq> None \<and> identify mainWorkDir \<noteq> None \<and> identify (wt_path info) = identify mainWorkDir\<rparr>
         else info)"

definition is_trailing :: "char \<Rightarrow> bool" where
  "is_trailing c \<longleftrightarrow> c = nl \<or> c = cr \<or> c = CHR '' ''"

definition trimmedEnd :: "string \<Rightarrow> string" where
  "trimmedEnd s = drop_back is_trailing s"

text \<open>\<^verbatim>\<open>from_chars\<close> of 64 bits for a number that must be all there is.\<close>

definition wholeInt :: "string \<Rightarrow> int option" where
  "wholeInt s =
     (let negative = (s \<noteq> [] \<and> hd s = CHR ''-''); ds = (if negative then tl s else s)
      in if ds = [] \<or> \<not> list_all is_digit ds then None
         else if negative then (if dec_value ds > 2 ^ 63 then None else Some (- int (dec_value ds)))
         else if dec_value ds \<ge> 2 ^ 63 then None else Some (int (dec_value ds)))"

definition reflogEntryTime :: "string \<Rightarrow> int option" where
  "reflogEntryTime line =
     (let line = trimmedEnd (case find_char (CHR 0x09) line of None \<Rightarrow> line | Some t \<Rightarrow> take t line)
      in case rfind_char (CHR '' '') line of
           None \<Rightarrow> None
         | Some tzAt \<Rightarrow>
             let head = take tzAt line
             in case rfind_char (CHR '' '') head of
                  None \<Rightarrow> None
                | Some timeAt \<Rightarrow> (case wholeInt (drop (timeAt + 1) head) of Some seconds \<Rightarrow> if seconds \<le> 0 then None else Some seconds | None \<Rightarrow> None))"

text \<open>What the disk holds: the entries of a directory if it is one, and a small file if it is there.\<close>

record 'i AdminDirEntry =
  ad_adminDir :: string
  ad_id :: "'i option"
  ad_key :: string

definition parentPath :: "string \<Rightarrow> string" where
  "parentPath path =
     (case rfind_char (CHR ''/'') path of
        None \<Rightarrow> []
      | Some i \<Rightarrow> (let front = drop_back (\<lambda>c. c = CHR ''/'') (take i path) in if front = [] then ''/'' else front))"

definition adminEntry :: "bool \<Rightarrow> (string \<Rightarrow> 'i option) \<Rightarrow> (string \<Rightarrow> string option) \<Rightarrow> string \<Rightarrow> 'i AdminDirEntry list" where
  "adminEntry ci identify readSmall entry =
     (case readSmall (path_join entry ''gitdir'') of
        None \<Rightarrow> []
      | Some gitdir \<Rightarrow>
          let pointer = trimmedEnd gitdir
          in if pointer = [] then []
             else [\<lparr>ad_adminDir = entry, ad_id = identify (parentPath pointer), ad_key = canonicalKey ci (parentPath pointer)\<rparr>])"

definition sameWorktree :: "bool \<Rightarrow> (string \<Rightarrow> 'i option) \<Rightarrow> WorktreeInfo \<Rightarrow> 'i AdminDirEntry \<Rightarrow> bool" where
  "sameWorktree ci identify worktree admin \<longleftrightarrow>
     (case (identify (wt_path worktree), ad_id admin) of
        (Some a, Some b) \<Rightarrow> a = b
      | _ \<Rightarrow> ad_key admin = canonicalKey ci (wt_path worktree))"

definition createdAt :: "bool \<Rightarrow> (string \<Rightarrow> 'i option) \<Rightarrow> (string \<Rightarrow> string option) \<Rightarrow> 'i AdminDirEntry list \<Rightarrow> WorktreeInfo \<Rightarrow> WorktreeInfo" where
  "createdAt ci identify readSmall index worktree =
     (case find (sameWorktree ci identify worktree) index of
        None \<Rightarrow> worktree
      | Some admin \<Rightarrow>
          (case readSmall (path_join (path_join (ad_adminDir admin) ''logs'') ''HEAD'') of
             None \<Rightarrow> worktree
           | Some reflog \<Rightarrow>
               (case reflogEntryTime (case find_char nl reflog of None \<Rightarrow> reflog | Some i \<Rightarrow> take i reflog) of
                  None \<Rightarrow> worktree
                | Some at \<Rightarrow> worktree\<lparr>wt_createdAtUnix := at\<rparr>)))"

definition attachCreatedAt ::
  "bool \<Rightarrow> (string \<Rightarrow> 'i option) \<Rightarrow> (string \<Rightarrow> string option) \<Rightarrow> (string \<Rightarrow> string list option) \<Rightarrow> RepoPaths \<Rightarrow> WorktreeInfo list \<Rightarrow> WorktreeInfo list" where
  "attachCreatedAt ci identify readSmall listDir paths worktrees =
     (case listDir (path_join (rp_commonDir paths) ''worktrees'') of
        None \<Rightarrow> worktrees
      | Some entries \<Rightarrow> map (createdAt ci identify readSmall (concat (map (adminEntry ci identify readSmall) entries))) worktrees)"

definition worktreeList ::
  "'g Git \<Rightarrow> bool \<Rightarrow> (string \<Rightarrow> 'i option) \<Rightarrow> (string \<Rightarrow> string option) \<Rightarrow> (string \<Rightarrow> string list option) \<Rightarrow> RepoPaths \<Rightarrow> 'g \<Rightarrow> WorktreeInfo list GitResult \<times> 'g" where
  "worktreeList git ci identify readSmall listDir paths g =
     (case git (timed (commandDir paths) [''worktree'', ''list'', ''--porcelain''] 30000) g of
        (Inl e, g) \<Rightarrow> (Inl e, g)
      | (Inr out, g) \<Rightarrow>
          let infos = map (parseEntry identify (rp_workDir paths)) (filter (\<lambda>entry. entry \<noteq> []) (splitEntries out));
              infos = (case infos of [] \<Rightarrow> [] | info # rest \<Rightarrow> info\<lparr>wt_isPrimary := True\<rparr> # rest)
          in (Inr (attachCreatedAt ci identify readSmall listDir paths infos), g))"

definition pendingCommand :: "string \<Rightarrow> GitCommand" where
  "pendingCommand path = timed path [''status'', ''--porcelain=v2'', ''-z'', ''--untracked-files=normal'', ''--ignore-submodules=none''] 30000"

definition attachPending :: "(GitCommand \<Rightarrow> 'g \<Rightarrow> string list GitResult \<times> 'g) \<Rightarrow> WorktreeInfo \<Rightarrow> 'g \<Rightarrow> WorktreeInfo \<times> 'g" where
  "attachPending records worktree g =
     (if wt_isBare worktree \<or> wt_isPrunable worktree then (worktree\<lparr>wt_pendingCountState := NotApplicable\<rparr>, g)
      else case records (pendingCommand (wt_path worktree)) g of
             (Inl _, g) \<Rightarrow> (worktree\<lparr>wt_pendingCountState := FailedCount\<rparr>, g)
           | (Inr rs, g) \<Rightarrow> (worktree\<lparr>wt_pendingChanges := length (parsePorcelainV2Records rs) mod 2 ^ 32, wt_pendingCountState := Measured\<rparr>, g))"

fun attachPendingCounts :: "(GitCommand \<Rightarrow> 'g \<Rightarrow> string list GitResult \<times> 'g) \<Rightarrow> WorktreeInfo list \<Rightarrow> 'g \<Rightarrow> WorktreeInfo list \<times> 'g" where
  "attachPendingCounts records [] g = ([], g)"
| "attachPendingCounts records (w # ws) g =
     (case attachPending records w g of (w, g) \<Rightarrow> (case attachPendingCounts records ws g of (ws, g) \<Rightarrow> (w # ws, g)))"

subsection \<open>Operations on worktrees\<close>

record AddWorktreeRequest =
  aw_path :: string
  aw_branch :: string
  aw_createBranch :: bool
  aw_newBranchName :: string
  aw_detach :: bool
  aw_force :: bool

definition addWorktreeArgs :: "AddWorktreeRequest \<Rightarrow> string list" where
  "addWorktreeArgs req =
     [''worktree'', ''add''] @ (if aw_force req then [''--force''] else []) @
     (if aw_createBranch req then [''-b'', aw_newBranchName req] else if aw_detach req then [''--detach''] else []) @
     [aw_path req] @ (if aw_branch req \<noteq> [] then [aw_branch req] else [])"

definition addWorktree :: "'g Git \<Rightarrow> string \<Rightarrow> AddWorktreeRequest \<Rightarrow> 'g \<Rightarrow> OperationOutcome \<times> 'g" where
  "addWorktree git dir req g =
     (if aw_path req = [] then (invalidArgument ''No worktree path given'', g)
      else if aw_createBranch req \<and> \<not> isValidBranchName (aw_newBranchName req)
      then (invalidArgument (quoted (aw_newBranchName req) @ '' is not a valid branch name''), g)
      else runOne git (git_command dir (addWorktreeArgs req)) (\<lambda>_. ''Added worktree at '' @ aw_path req) g)"

text \<open>A worktree that was removed is followed by a prune, whose answer does not count.\<close>

definition removeWorktree :: "'g Git \<Rightarrow> string \<Rightarrow> string \<Rightarrow> bool \<Rightarrow> 'g \<Rightarrow> OperationOutcome \<times> 'g" where
  "removeWorktree git dir path force g =
     (case git (timed dir ([''worktree'', ''remove''] @ (if force then [''--force''] else []) @ [path]) 120000) g of
        (Inr _, g) \<Rightarrow> (succeededWith (''Removed worktree '' @ path), snd (git (git_command dir [''worktree'', ''prune'']) g))
      | (Inl e, g) \<Rightarrow> (failedWith e (ge_message e), g))"

definition pruneWorktrees :: "'g Git \<Rightarrow> string \<Rightarrow> bool \<Rightarrow> 'g \<Rightarrow> OperationOutcome \<times> 'g" where
  "pruneWorktrees git dir dryRun g =
     runOne git (timed dir ([''worktree'', ''prune'', ''--verbose''] @ (if dryRun then [''--dry-run''] else [])) 60000)
       (\<lambda>out. if out = [] then ''Nothing to prune'' else out) g"

definition lockWorktree :: "'g Git \<Rightarrow> string \<Rightarrow> string \<Rightarrow> string \<Rightarrow> 'g \<Rightarrow> OperationOutcome \<times> 'g" where
  "lockWorktree git dir path reason g =
     runOne git (timed dir ([''worktree'', ''lock''] @ (if reason \<noteq> [] then [''--reason'', reason] else []) @ [path]) 30000) (\<lambda>_. ''Locked '' @ path) g"

definition unlockWorktree :: "'g Git \<Rightarrow> string \<Rightarrow> string \<Rightarrow> 'g \<Rightarrow> OperationOutcome \<times> 'g" where
  "unlockWorktree git dir path g = runOne git (timed dir [''worktree'', ''unlock'', path] 30000) (\<lambda>_. ''Unlocked '' @ path) g"

definition moveWorktree :: "'g Git \<Rightarrow> string \<Rightarrow> string \<Rightarrow> string \<Rightarrow> 'g \<Rightarrow> OperationOutcome \<times> 'g" where
  "moveWorktree git dir origin destination g =
     runOne git (timed dir [''worktree'', ''move'', origin, destination] 120000) (\<lambda>_. ''Moved worktree to '' @ destination) g"

section \<open>Submodules\<close>

datatype SubmoduleState = NotInitialized | UpToDate | Modified | Conflicted

record SubmoduleInfo =
  su_name :: string
  su_path :: string
  su_url :: string
  su_branch :: string
  su_headOid :: string
  su_state :: SubmoduleState

text \<open>What \<^verbatim>\<open>.gitmodules\<close> says, by section name; the paths with the name of the section that declared them last.\<close>

record Declared =
  dc_url :: string
  dc_branch :: string

record Declarations =
  dl_byName :: "string \<rightharpoonup> Declared"
  dl_byPath :: "string \<rightharpoonup> string"

definition no_declarations :: Declarations where
  "no_declarations = \<lparr>dl_byName = Map.empty, dl_byPath = Map.empty\<rparr>"

definition kSubmodule :: string where "kSubmodule = ''submodule.''"

definition declarationLine :: "Declarations \<Rightarrow> string \<Rightarrow> Declarations" where
  "declarationLine d line =
     (case find_char (CHR '' '') line of
        None \<Rightarrow> d
      | Some sp \<Rightarrow>
          if \<not> starts_with line kSubmodule then d
          else let setting = drop (length kSubmodule) (take sp line); v = drop (sp + 1) line
               in case rfind_char (CHR ''.'') setting of
                    None \<Rightarrow> d
                  | Some lastDot \<Rightarrow>
                      let name = take lastDot setting; attr = drop (lastDot + 1) setting;
                          entry = (case dl_byName d name of Some e \<Rightarrow> e | None \<Rightarrow> \<lparr>dc_url = [], dc_branch = []\<rparr>);
                          entry = (if attr = ''url'' then entry\<lparr>dc_url := v\<rparr> else if attr = ''branch'' then entry\<lparr>dc_branch := v\<rparr> else entry)
                      in \<lparr>dl_byName = (dl_byName d)(name \<mapsto> entry), dl_byPath = (if attr = ''path'' then (dl_byPath d)(v \<mapsto> name) else dl_byPath d)\<rparr>)"

definition readDeclarations :: "string \<Rightarrow> Declarations" where
  "readDeclarations out = foldl declarationLine no_declarations (splitOn nl out)"

definition submoduleState :: "char \<Rightarrow> SubmoduleState" where
  "submoduleState c =
     (if c = CHR ''-'' then NotInitialized else if c = CHR ''+'' then Modified else if c = CHR ''U'' then Conflicted else UpToDate)"

definition submoduleLine :: "Declarations \<Rightarrow> string \<Rightarrow> SubmoduleInfo list" where
  "submoduleLine d line =
     (if length line \<le> 1 then []
      else case find_char (CHR '' '') (tl line) of
             None \<Rightarrow> []
           | Some sp \<Rightarrow>
               let pathAndDescribe = drop (sp + 1) (tl line);
                   path = (case rfind_str '' ('' pathAndDescribe of None \<Rightarrow> pathAndDescribe | Some paren \<Rightarrow> take paren pathAndDescribe);
                   info = \<lparr>su_name = path, su_path = path, su_url = [], su_branch = [], su_headOid = take sp (tl line), su_state = submoduleState (hd line)\<rparr>
               in case dl_byPath d path of
                    None \<Rightarrow> [info]
                  | Some name \<Rightarrow>
                      [case dl_byName d name of
                         None \<Rightarrow> info\<lparr>su_name := name\<rparr>
                       | Some e \<Rightarrow> info\<lparr>su_name := name, su_url := dc_url e, su_branch := dc_branch e\<rparr>])"

definition submoduleList :: "'g Git \<Rightarrow> (string \<Rightarrow> bool) \<Rightarrow> RepoPaths \<Rightarrow> 'g \<Rightarrow> SubmoduleInfo list GitResult \<times> 'g" where
  "submoduleList git exists paths g =
     (let (d, g) =
        (if rp_workDir paths \<noteq> [] \<and> exists (path_join (rp_workDir paths) ''.gitmodules'')
         then case git (timed (commandDir paths) [''config'', ''--file'', ''.gitmodules'', ''--get-regexp'', ''^submodule'' @ [CHR 0x5C] @ ''.''] 30000) g of
                (Inl _, g) \<Rightarrow> (no_declarations, g)
              | (Inr out, g) \<Rightarrow> (readDeclarations out, g)
         else (no_declarations, g))
      in case git (timed (commandDir paths) [''submodule'', ''status''] 120000) g of
           (Inl e, g) \<Rightarrow> (Inl e, g)
         | (Inr out, g) \<Rightarrow> (Inr (concat (map (submoduleLine d) (splitOn nl out))), g))"

record AddSubmoduleRequest =
  as_url :: string
  as_path :: string
  as_branch :: string
  as_askpassDir :: string

definition describeAddSubmodule :: "AddSubmoduleRequest \<Rightarrow> string" where
  "describeAddSubmodule req = (if as_path req = [] then ''Add submodule'' else ''Add submodule '' @ as_path req)"

definition addSubmodule :: "'g Git \<Rightarrow> string option \<Rightarrow> string \<Rightarrow> AddSubmoduleRequest \<Rightarrow> 'g \<Rightarrow> OperationOutcome \<times> 'g" where
  "addSubmodule git exe dir req g =
     (if as_url req = [] then (invalidArgument ''A submodule URL is required'', g)
      else runOne git (wire exe (as_askpassDir req) (git_command dir ([''submodule'', ''add''] @
             (if as_branch req \<noteq> [] then [''-b'', as_branch req] else []) @ [as_url req] @ (if as_path req \<noteq> [] then [as_path req] else []))))
             (\<lambda>_. describeAddSubmodule req) g)"

definition initSubmodules :: "'g Git \<Rightarrow> string \<Rightarrow> string list \<Rightarrow> 'g \<Rightarrow> OperationOutcome \<times> 'g" where
  "initSubmodules git dir paths g = runOne git (timed dir ([''submodule'', ''init''] @ pathArgs paths) 60000) (\<lambda>_. ''Initialise submodules'') g"

record UpdateSubmodulesRequest =
  us_paths :: "string list"
  us_recursive :: bool
  us_init :: bool
  us_remote :: bool
  us_askpassDir :: string

definition updateSubmodules :: "'g Git \<Rightarrow> string option \<Rightarrow> string \<Rightarrow> UpdateSubmodulesRequest \<Rightarrow> 'g \<Rightarrow> OperationOutcome \<times> 'g" where
  "updateSubmodules git exe dir req g =
     runOne git (wire exe (us_askpassDir req) (git_command dir ([''submodule'', ''update''] @ (if us_init req then [''--init''] else []) @
         (if us_recursive req then [''--recursive''] else []) @ (if us_remote req then [''--remote''] else []) @ pathArgs (us_paths req))))
       (\<lambda>_. ''Update submodules'') g"

definition syncSubmodules :: "'g Git \<Rightarrow> string \<Rightarrow> string list \<Rightarrow> bool \<Rightarrow> 'g \<Rightarrow> OperationOutcome \<times> 'g" where
  "syncSubmodules git dir paths recursive g =
     runOne git (timed dir ([''submodule'', ''sync''] @ (if recursive then [''--recursive''] else []) @ pathArgs paths) 60000) (\<lambda>_. ''Sync submodule URLs'') g"

definition deinitSubmodules :: "'g Git \<Rightarrow> string \<Rightarrow> string list \<Rightarrow> bool \<Rightarrow> 'g \<Rightarrow> OperationOutcome \<times> 'g" where
  "deinitSubmodules git dir paths force g =
     runOne git (timed dir ([''submodule'', ''deinit''] @ (if force then [''-f''] else []) @ (if paths = [] then [''--all''] else pathArgs paths)) 60000)
       (\<lambda>_. ''Deinitialise submodules'') g"

section \<open>Bisecting\<close>

record BisectStatus =
  bs_active :: bool
  bs_currentOid :: string
  bs_badOid :: string
  bs_goodOids :: "string list"
  bs_skippedOids :: "string list"
  bs_logText :: string

definition new_bisect :: BisectStatus where
  "new_bisect = \<lparr>bs_active = False, bs_currentOid = [], bs_badOid = [], bs_goodOids = [], bs_skippedOids = [], bs_logText = []\<rparr>"

definition summaryOrDescribe :: "string \<Rightarrow> string \<Rightarrow> string" where
  "summaryOrDescribe stdOut fallback = (if trimmedEnd stdOut = [] then fallback else trimmedEnd stdOut)"

record BisectStartRequest =
  bq_badRef :: string
  bq_goodRefs :: "string list"
  bq_paths :: "string list"
  bq_noCheckout :: bool

definition bisectStart :: "'g Git \<Rightarrow> string \<Rightarrow> BisectStartRequest \<Rightarrow> 'g \<Rightarrow> OperationOutcome \<times> 'g" where
  "bisectStart git dir req g =
     runOne git (git_command dir ([''bisect'', ''start''] @ (if bq_noCheckout req then [''--no-checkout''] else []) @
         (if bq_badRef req \<noteq> [] then [bq_badRef req] else []) @ bq_goodRefs req @ pathArgs (bq_paths req)))
       (\<lambda>out. summaryOrDescribe out ''Start bisect'') g"

definition describeMark :: "bool \<Rightarrow> string \<Rightarrow> string" where
  "describeMark good ref = (if good then ''Mark good'' else ''Mark bad'') @ (if ref = [] then [] else '' '' @ ref)"

definition bisectMark :: "'g Git \<Rightarrow> string \<Rightarrow> bool \<Rightarrow> string \<Rightarrow> 'g \<Rightarrow> OperationOutcome \<times> 'g" where
  "bisectMark git dir good ref g =
     runOne git (git_command dir ([''bisect'', if good then ''good'' else ''bad''] @ (if ref \<noteq> [] then [ref] else [])))
       (\<lambda>out. summaryOrDescribe out (describeMark good ref)) g"

definition bisectSkip :: "'g Git \<Rightarrow> string \<Rightarrow> string list \<Rightarrow> 'g \<Rightarrow> OperationOutcome \<times> 'g" where
  "bisectSkip git dir refs g = runOne git (git_command dir ([''bisect'', ''skip''] @ refs)) (\<lambda>out. summaryOrDescribe out ''Skip commit'') g"

definition bisectReset :: "'g Git \<Rightarrow> string \<Rightarrow> string \<Rightarrow> 'g \<Rightarrow> OperationOutcome \<times> 'g" where
  "bisectReset git dir target g =
     runOne git (git_command dir ([''bisect'', ''reset''] @ (if target \<noteq> [] then [target] else []))) (\<lambda>_. ''End bisect'') g"

definition extractBracketedOid :: "string \<Rightarrow> string \<Rightarrow> string option" where
  "extractBracketedOid line prefix =
     (if \<not> starts_with line prefix then None
      else let rest = drop (length prefix) line in map_option (\<lambda>close'. take close' rest) (find_char (CHR '']'') rest))"

definition bisectLine :: "BisectStatus \<Rightarrow> string \<Rightarrow> BisectStatus" where
  "bisectLine s line =
     (case extractBracketedOid line ''# bad: ['' of
        Some oid \<Rightarrow> s\<lparr>bs_badOid := oid\<rparr>
      | None \<Rightarrow>
          (case extractBracketedOid line ''# good: ['' of
             Some oid \<Rightarrow> s\<lparr>bs_goodOids := bs_goodOids s @ [oid]\<rparr>
           | None \<Rightarrow>
               (case extractBracketedOid line ''# skip: ['' of
                  Some oid \<Rightarrow> s\<lparr>bs_skippedOids := bs_skippedOids s @ [oid]\<rparr>
                | None \<Rightarrow> s)))"

definition readBisectLog :: "string \<Rightarrow> BisectStatus" where
  "readBisectLog log = foldl bisectLine (new_bisect\<lparr>bs_active := True, bs_logText := log\<rparr>) (splitOn nl log)"

definition bisectStatus :: "'g Git \<Rightarrow> (string \<Rightarrow> bool) \<Rightarrow> RepoPaths \<Rightarrow> 'g \<Rightarrow> BisectStatus GitResult \<times> 'g" where
  "bisectStatus git exists paths g =
     (if \<not> exists (bisectLogFile paths) then (Inr new_bisect, g)
      else case git (timed (commandDir paths) [''bisect'', ''log''] 30000) g of
             (Inl e, g) \<Rightarrow> (Inl e, g)
           | (Inr log, g) \<Rightarrow>
               (case git (timed (commandDir paths) [''rev-parse'', ''HEAD''] 10000) g of
                  (Inl _, g) \<Rightarrow> (Inr (readBisectLog log), g)
                | (Inr head, g) \<Rightarrow> (Inr ((readBisectLog log)\<lparr>bs_currentOid := head\<rparr>), g)))"

section \<open>Large files\<close>

record LfsFileInfo =
  lf_path :: string
  lf_oid :: string
  lf_downloadedLocally :: bool

definition lfsInstall :: "'g Git \<Rightarrow> string \<Rightarrow> 'g \<Rightarrow> OperationOutcome \<times> 'g" where
  "lfsInstall git dir g = runOne git (timed dir [''lfs'', ''install'', ''--local''] 30000) (\<lambda>_. ''Set up Git LFS for this repository'') g"

definition lfsTrack :: "'g Git \<Rightarrow> string \<Rightarrow> string \<Rightarrow> 'g \<Rightarrow> OperationOutcome \<times> 'g" where
  "lfsTrack git dir pattern g =
     (if pattern = [] then (invalidArgument ''A pattern is required'', g)
      else runOne git (timed dir [''lfs'', ''track'', pattern] 30000) (\<lambda>_. ''Track '' @ pattern @ '' with LFS'') g)"

definition lfsUntrack :: "'g Git \<Rightarrow> string \<Rightarrow> string \<Rightarrow> 'g \<Rightarrow> OperationOutcome \<times> 'g" where
  "lfsUntrack git dir pattern g =
     (if pattern = [] then (invalidArgument ''A pattern is required'', g)
      else runOne git (timed dir [''lfs'', ''untrack'', pattern] 30000) (\<lambda>_. ''Untrack '' @ pattern @ '' from LFS'') g)"

definition lfsPull :: "'g Git \<Rightarrow> string option \<Rightarrow> string \<Rightarrow> string \<Rightarrow> string \<Rightarrow> 'g \<Rightarrow> OperationOutcome \<times> 'g" where
  "lfsPull git exe dir remoteName askpassDir g =
     runOne git (wire exe askpassDir (git_command dir ([''lfs'', ''pull''] @ (if remoteName \<noteq> [] then [remoteName] else [])))) (\<lambda>_. ''Pull LFS objects'') g"

definition lfsFetch :: "'g Git \<Rightarrow> string option \<Rightarrow> string \<Rightarrow> string \<Rightarrow> string \<Rightarrow> 'g \<Rightarrow> OperationOutcome \<times> 'g" where
  "lfsFetch git exe dir remoteName askpassDir g =
     runOne git (wire exe askpassDir (git_command dir ([''lfs'', ''fetch''] @ (if remoteName \<noteq> [] then [remoteName] else [])))) (\<lambda>_. ''Fetch LFS objects'') g"

definition lfsPrune :: "'g Git \<Rightarrow> string \<Rightarrow> bool \<Rightarrow> 'g \<Rightarrow> OperationOutcome \<times> 'g" where
  "lfsPrune git dir dryRun g =
     runOne git (timed dir ([''lfs'', ''prune''] @ (if dryRun then [''--dry-run''] else [])) 120000) (\<lambda>out. if out = [] then ''Prune old LFS objects'' else out) g"

definition detectLfs :: "'g Git \<Rightarrow> string \<Rightarrow> 'g \<Rightarrow> string option \<times> 'g" where
  "detectLfs git dir g = (case git (timed dir [''lfs'', ''version''] 10000) g of (Inl _, g) \<Rightarrow> (None, g) | (Inr out, g) \<Rightarrow> (Some out, g))"

text \<open>The patterns collected, and whether the section of tracked patterns is being read.\<close>

definition trackedLine :: "string list \<times> bool \<Rightarrow> string \<Rightarrow> string list \<times> bool" where
  "trackedLine = (\<lambda>(patterns, inTrackedSection) line.
     if line = ''Listing tracked patterns'' then (patterns, True)
     else if line = ''Listing excluded patterns'' then (patterns, False)
     else if inTrackedSection
     then (let trimmed = dropWhile (\<lambda>c. c = CHR '' '') line
           in case rfind_str '' ('' trimmed of
                Some paren \<Rightarrow> (if trimmed \<noteq> [] then (patterns @ [take paren trimmed], True) else (patterns, True))
              | None \<Rightarrow> (patterns, True))
     else (patterns, inTrackedSection))"

definition trackedPatterns :: "'g Git \<Rightarrow> string \<Rightarrow> 'g \<Rightarrow> string list GitResult \<times> 'g" where
  "trackedPatterns git dir g =
     (case git (timed dir [''lfs'', ''track''] 30000) g of
        (Inl e, g) \<Rightarrow> (Inl e, g)
      | (Inr out, g) \<Rightarrow> (Inr (fst (foldl trackedLine ([], False) (splitOn nl out))), g))"

definition lfsLine :: "string \<Rightarrow> LfsFileInfo list" where
  "lfsLine line =
     (case find_char (CHR '' '') line of
        None \<Rightarrow> []
      | Some firstSpace \<Rightarrow>
          if firstSpace + 2 < length line \<and> line ! (firstSpace + 2) = CHR '' ''
          then [\<lparr>lf_path = drop (firstSpace + 3) line, lf_oid = take firstSpace line, lf_downloadedLocally = (line ! (firstSpace + 1) = CHR ''*'')\<rparr>]
          else [])"

definition lfsFiles :: "'g Git \<Rightarrow> string \<Rightarrow> 'g \<Rightarrow> LfsFileInfo list GitResult \<times> 'g" where
  "lfsFiles git dir g =
     (case git (timed dir [''lfs'', ''ls-files'', ''--long''] 60000) g of
        (Inl e, g) \<Rightarrow> (Inl e, g)
      | (Inr out, g) \<Rightarrow> (Inr (concat (map lfsLine (splitOn nl out))), g))"

end
