(* ===== verification/ToolPromises.thy ===== *)
theory ToolPromises
  imports ToolOperations CompareOperations RepositoryPromises
begin

text \<open>
  What worktrees, submodules, bisecting, large files and new repositories promise: lists read back, a bisect is
  where its log says, a repository is given only a branch name git accepted, and how submodules are misread.
\<close>

section \<open>Worktrees\<close>








































section \<open>Submodules\<close>

text \<open>
  A submodule whose name holds a space, as one has that was added at such a path, is not read from the settings: the
  line is cut at the first space, which stands in the name, and so its URL and branch are lost.
\<close>

lemma rfind_str_None: "c \<notin> set s \<Longrightarrow> rfind_str (d # c # p) s = None"
proof (induction s)
  case (Cons a s)
  have "take (Suc (length p)) s \<noteq> c # p"
    using Cons.prems set_take_subset [of "Suc (length p)" s] by auto
  with Cons show ?case by (auto simp: starts_with_def)
qed (simp add: starts_with_def)

lemma name_with_space_unread:
  assumes "CHR '' '' \<notin> set front" and "CHR ''.'' \<notin> set front"
  shows "declarationLine d (kSubmodule @ front @ CHR '' '' # rest) = d"
proof -
  have "CHR '' '' \<notin> set (kSubmodule @ front)" using assms(1) by (simp add: kSubmodule_def)
  from find_char_append_notin [OF this, of rest] have cut: "find_char (CHR '' '') (kSubmodule @ front @ CHR '' '' # rest) = Some (length kSubmodule + length front)"
    by simp
  show ?thesis unfolding declarationLine_def cut by (simp add: rfind_char_None [THEN iffD2, OF assms(2)])
qed

lemma space_in_name_loses_url:
  "readDeclarations (joined nl [kSubmodule @ ''my lib.path my lib'', kSubmodule @ ''my lib.url https://h/l.git'']) = no_declarations"
proof -
  have "splitOn nl (joined nl [kSubmodule @ ''my lib.path my lib'', kSubmodule @ ''my lib.url https://h/l.git'']) =
      [kSubmodule @ ''my'' @ CHR '' '' # ''lib.path my lib'', kSubmodule @ ''my'' @ CHR '' '' # ''lib.url https://h/l.git'']"
    by (subst splitOn_joined) (simp_all add: kSubmodule_def)
  then show ?thesis by (simp only: readDeclarations_def foldl_Cons foldl_Nil) (simp add: name_with_space_unread [of "''my''", simplified])
qed

text \<open>
  The path of a submodule that is not initialised, after which git prints no description, is cut where a parenthesis
  opens in it.
\<close>

lemma uninitialised_path_cut:
  assumes "CHR '' '' \<notin> set oid" and "CHR ''('' \<notin> set rest"
  shows "map su_path (submoduleLine d (CHR ''-'' # oid @ CHR '' '' # path @ '' ('' @ rest)) = [path]"
proof -
  have "rfind_str '' ('' ('' ('' @ rest) = Some 0" using rfind_str_None [OF assms(2)] by (simp add: starts_with_def)
  from rfind_str_append [OF this] have "rfind_str '' ('' (path @ '' ('' @ rest) = Some (length path)" by simp
  moreover have "find_char (CHR '' '') (oid @ CHR '' '' # path @ '' ('' @ rest) = Some (length oid)" using assms(1) by (simp add: find_char_append_notin)
  ultimately show ?thesis by (simp add: submoduleLine_def Let_def split: option.split)
qed

section \<open>Bisecting\<close>

text \<open>What a log says: commits marked with their subjects, and other lines.\<close>

datatype BisectMark = BadMark string string | GoodMark string string | SkipMark string string | OtherLine string

fun mark_line :: "BisectMark \<Rightarrow> string" where
  "mark_line (BadMark oid subject) = ''# bad: ['' @ oid @ ''] '' @ subject"
| "mark_line (GoodMark oid subject) = ''# good: ['' @ oid @ ''] '' @ subject"
| "mark_line (SkipMark oid subject) = ''# skip: ['' @ oid @ ''] '' @ subject"
| "mark_line (OtherLine l) = l"

fun git_mark :: "BisectMark \<Rightarrow> bool" where
  "git_mark (BadMark oid subject) = (CHR '']'' \<notin> set oid \<and> nl \<notin> set oid \<and> nl \<notin> set subject)"
| "git_mark (GoodMark oid subject) = (CHR '']'' \<notin> set oid \<and> nl \<notin> set oid \<and> nl \<notin> set subject)"
| "git_mark (SkipMark oid subject) = (CHR '']'' \<notin> set oid \<and> nl \<notin> set oid \<and> nl \<notin> set subject)"
| "git_mark (OtherLine l) = (nl \<notin> set l \<and> \<not> starts_with l ''# bad: ['' \<and> \<not> starts_with l ''# good: ['' \<and> \<not> starts_with l ''# skip: ['')"

definition last_bad :: "BisectMark list \<Rightarrow> string" where
  "last_bad ms = foldl (\<lambda>b m. case m of BadMark oid _ \<Rightarrow> oid | _ \<Rightarrow> b) [] ms"

definition goods :: "BisectMark list \<Rightarrow> string list" where
  "goods ms = concat (map (\<lambda>m. case m of GoodMark oid _ \<Rightarrow> [oid] | _ \<Rightarrow> []) ms)"

definition skips :: "BisectMark list \<Rightarrow> string list" where
  "skips ms = concat (map (\<lambda>m. case m of SkipMark oid _ \<Rightarrow> [oid] | _ \<Rightarrow> []) ms)"

lemma extract_text: "CHR '']'' \<notin> set oid \<Longrightarrow> extractBracketedOid (prefix @ oid @ CHR '']'' # rest) prefix = Some oid"
  by (simp add: extractBracketedOid_def find_char_append_notin Let_def)

lemma bisectLine_mark:
  assumes "git_mark m"
  shows "bisectLine s (mark_line m) =
    (case m of BadMark oid _ \<Rightarrow> s\<lparr>bs_badOid := oid\<rparr> | GoodMark oid _ \<Rightarrow> s\<lparr>bs_goodOids := bs_goodOids s @ [oid]\<rparr>
     | SkipMark oid _ \<Rightarrow> s\<lparr>bs_skippedOids := bs_skippedOids s @ [oid]\<rparr> | OtherLine _ \<Rightarrow> s)"
proof (cases m)
  case (BadMark oid subject)
  then show ?thesis using assms extract_text [of oid "''# bad: [''"] by (simp add: bisectLine_def)
next
  case (GoodMark oid subject)
  then show ?thesis using assms extract_text [of oid "''# good: [''"] by (simp add: bisectLine_def) (simp add: extractBracketedOid_def starts_with_def)
next
  case (SkipMark oid subject)
  then show ?thesis using assms extract_text [of oid "''# skip: [''"] by (simp add: bisectLine_def) (simp add: extractBracketedOid_def starts_with_def)
next
  case (OtherLine l)
  then show ?thesis using assms by (simp add: bisectLine_def extractBracketedOid_def)
qed

text \<open>The status of a bisect is what its log says: the latest bad commit, and every good and skipped one in order.\<close>

lemma bisect_log_read:
  assumes "list_all git_mark ms" and "ms \<noteq> []"
  shows "readBisectLog (joined nl (map mark_line ms)) =
    \<lparr>bs_active = True, bs_currentOid = [], bs_badOid = last_bad ms, bs_goodOids = goods ms, bs_skippedOids = skips ms, bs_logText = joined nl (map mark_line ms)\<rparr>"
proof -
  have nls: "nl \<notin> set (mark_line m)" if "git_mark m" for m using that by (cases m) auto
  have split: "splitOn nl (joined nl (map mark_line ms)) = map mark_line ms"
    using assms nls by (intro splitOn_joined) (auto simp: list_all_iff)
  have "foldl bisectLine \<lparr>bs_active = True, bs_currentOid = [], bs_badOid = [], bs_goodOids = [], bs_skippedOids = [], bs_logText = t\<rparr> (map mark_line ms) =
      \<lparr>bs_active = True, bs_currentOid = [], bs_badOid = last_bad ms, bs_goodOids = goods ms, bs_skippedOids = skips ms, bs_logText = t\<rparr>" for t
    using assms(1)
  proof (induction ms rule: rev_induct)
    case (snoc m ms)
    then have "git_mark m" by simp
    from bisectLine_mark [OF this] snoc show ?case
      by (simp add: last_bad_def goods_def skips_def split: BisectMark.splits del: mark_line.simps git_mark.simps)
  qed (simp add: last_bad_def goods_def skips_def)
  then show ?thesis by (simp add: readBisectLog_def split new_bisect_def)
qed

section \<open>Large files\<close>

definition lfs_line :: "LfsFileInfo \<Rightarrow> string" where
  "lfs_line f = lf_oid f @ CHR '' '' # (if lf_downloadedLocally f then CHR ''*'' else CHR ''-'') # CHR '' '' # lf_path f"

interpretation lfs_lines: line_list lfs_line lfsLine "\<lambda>f. plain (lf_oid f) \<and> CHR '' '' \<notin> set (lf_oid f) \<and> nl \<notin> set (lf_path f)" "\<lambda>s. s = []"
proof
  show "lfsLine (lfs_line f) = [f]" if "plain (lf_oid f) \<and> CHR '' '' \<notin> set (lf_oid f) \<and> nl \<notin> set (lf_path f)" for f
    using that by (cases f) (simp add: lfsLine_def lfs_line_def find_char_append_notin nth_append)
qed (auto simp: lfs_line_def lfsLine_def plain_def)

section \<open>New repositories\<close>

text \<open>
  C23. A repository is made with an initial branch only after git has accepted that very name: either no name was
  asked for, or the check came first and printed the name unchanged; otherwise nothing but the check is asked and the
  request fails.
\<close>

theorem init_only_checked_names:
  assumes "runInitRepo (logging answers) req log = (result, log')"
  shows "asked log log' = [] \<and> in_path req = [] \<or>
    (\<exists>a. asked log log' = [(initCommand req, a)] \<and> in_initialBranch req = []) \<or>
    (\<exists>a e. asked log log' = [(checkNameCommand (in_initialBranch req), a)] \<and> a \<noteq> Inr (in_initialBranch req) \<and> result = Inl e) \<or>
    (\<exists>a. asked log log' = [(checkNameCommand (in_initialBranch req), Inr (in_initialBranch req)), (initCommand req, a)])"
proof (cases "in_path req = [] \<or> in_initialBranch req = []")
  case True
  with assms show ?thesis by (auto simp: runInitRepo_def asked_def logging_def split: if_splits sum.splits)
next
  case False
  then show ?thesis
  proof (cases "answers log (checkNameCommand (in_initialBranch req)) = Inr (in_initialBranch req)")
    case True
    with False assms show ?thesis by (auto simp: runInitRepo_def checkInitialBranch_def logging_def split: sum.splits)
  next
    case refused: False
    then have "asked log log' = [(checkNameCommand (in_initialBranch req), answers log (checkNameCommand (in_initialBranch req)))] \<and> (\<exists>e. result = Inl e)"
      using False assms by (cases "answers log (checkNameCommand (in_initialBranch req))") (auto simp: runInitRepo_def checkInitialBranch_def logging_def)
    with refused show ?thesis by blast
  qed
qed

definition sample_init :: InitRepoRequest where
  "sample_init = \<lparr>in_path = ''/new'', in_initialBranch = ''main''\<rparr>"

theorem init_only_checked_names_witness:
  "map (gc_args \<circ> fst) (asked [] (snd (runInitRepo (logging (\<lambda>_ _. Inr ''main'')) sample_init []))) =
     [[''check-ref-format'', ''--branch'', ''main''], [''init'', ''--quiet'', ''-b'', ''main'', ''/new'']]"
proof -
  obtain result log' where ran': "runInitRepo (logging (\<lambda>_ _. Inr ''main'')) sample_init [] = (result, log')"
    by (cases "runInitRepo (logging (\<lambda>_ _. Inr ''main'')) sample_init []")
  have "result = Inr ()"
    using ran' by (auto simp: runInitRepo_def checkInitialBranch_def sample_init_def logging_def)
  with init_only_checked_names [OF ran'] ran' show ?thesis
    by (auto simp: sample_init_def checkNameCommand_def initCommand_def runInitRepo_def checkInitialBranch_def logging_def)
qed

end
