(* ===== verification/RepoIndexes.thy ===== *)
theory RepoIndexes
  imports ToolOperations
begin

text \<open>
  The index of repositories that were found, \<^verbatim>\<open>src/core/cache/RepoIndexDb\<close>: its tables as lists of rows, and what
  each SQL statement of the sources does to them. A statement that SQLite refuses changes nothing and is an error;
  who calls these definitions says when that happens.
\<close>

section \<open>Tables\<close>

datatype RepoKind = NotARepo | NormalRepo | BareRepo | LinkedWorktreeRepo | SubmoduleRepo

record BaseFolderRecord =
  bf_id :: int
  bf_path :: string
  bf_enabled :: bool
  bf_maxDepth :: int
  bf_followLinks :: bool
  bf_generation :: int
  bf_lastScanStarted :: int
  bf_lastScanFinished :: int
  bf_lastScanDirs :: int
  bf_lastScanMs :: int
  bf_lastScanSkipped :: int

record RepoRecord =
  re_id :: int
  re_baseFolderId :: int
  re_workDir :: string
  re_gitDir :: string
  re_commonDir :: string
  re_kind :: RepoKind
  re_name :: string
  re_parentRepoId :: "int option"
  re_depth :: int
  re_discoveredAt :: int
  re_lastSeenGeneration :: int
  re_missingSince :: "int option"

record RepoProbe =
  pb_repoId :: int
  pb_headKind :: int
  pb_headRef :: string
  pb_headOid :: ObjectId
  pb_upstreamRef :: string
  pb_ahead :: int
  pb_behind :: int
  pb_dirtyFiles :: int
  pb_stashCount :: int
  pb_inProgressFlags :: "32 word"
  pb_probedAt :: int
  pb_gitDirMtimeNs :: int
  pb_indexMtimeNs :: int

record DirSignature =
  ds_baseFolderId :: int
  ds_dirPath :: string
  ds_mtimeNs :: int
  ds_childDirs :: int
  ds_hadRepo :: bool

text \<open>\<open>ix_version\<close> is the version in \<^verbatim>\<open>schema_info\<close>, 0 when there is no such table.\<close>

record RepoIndex =
  ix_version :: int
  ix_folders :: "BaseFolderRecord list"
  ix_repos :: "RepoRecord list"
  ix_probes :: "RepoProbe list"
  ix_sigs :: "DirSignature list"

definition empty_index :: RepoIndex where
  "empty_index = \<lparr>ix_version = 0, ix_folders = [], ix_repos = [], ix_probes = [], ix_sigs = []\<rparr>"

text \<open>The key of a row whose column is \<^verbatim>\<open>INTEGER PRIMARY KEY\<close>: one more than the largest.\<close>

definition newRowId :: "int list \<Rightarrow> int" where
  "newRowId ids = (if ids = [] then 1 else Max (set ids) + 1)"

text \<open>\<^verbatim>\<open>ON DELETE CASCADE\<close>: rows go with the rows they refer to.\<close>

definition dropProbes :: "int set \<Rightarrow> RepoIndex \<Rightarrow> RepoIndex" where
  "dropProbes ids ix = ix\<lparr>ix_probes := filter (\<lambda>p. pb_repoId p \<notin> ids) (ix_probes ix)\<rparr>"

section \<open>Base folders\<close>

definition addBaseFolder :: "string \<Rightarrow> int \<Rightarrow> bool \<Rightarrow> RepoIndex \<Rightarrow> int \<times> RepoIndex" where
  "addBaseFolder path maxDepth followLinks ix =
     (case find (\<lambda>f. bf_path f = path) (ix_folders ix) of
        Some f \<Rightarrow>
          (bf_id f, ix\<lparr>ix_folders := map (\<lambda>f. if bf_path f = path then f\<lparr>bf_enabled := True, bf_maxDepth := maxDepth, bf_followLinks := followLinks\<rparr> else f)
             (ix_folders ix)\<rparr>)
      | None \<Rightarrow>
          (let i = newRowId (map bf_id (ix_folders ix))
           in (i, ix\<lparr>ix_folders := ix_folders ix @
                [\<lparr>bf_id = i, bf_path = path, bf_enabled = True, bf_maxDepth = maxDepth, bf_followLinks = followLinks, bf_generation = 0,
                  bf_lastScanStarted = 0, bf_lastScanFinished = 0, bf_lastScanDirs = 0, bf_lastScanMs = 0, bf_lastScanSkipped = 0\<rparr>]\<rparr>)))"

definition updateFolder :: "int \<Rightarrow> (BaseFolderRecord \<Rightarrow> BaseFolderRecord) \<Rightarrow> RepoIndex \<Rightarrow> RepoIndex" where
  "updateFolder i f ix = ix\<lparr>ix_folders := map (\<lambda>b. if bf_id b = i then f b else b) (ix_folders ix)\<rparr>"

definition clearDirSignatures :: "int \<Rightarrow> RepoIndex \<Rightarrow> RepoIndex" where
  "clearDirSignatures i ix = ix\<lparr>ix_sigs := filter (\<lambda>s. ds_baseFolderId s \<noteq> i) (ix_sigs ix)\<rparr>"

definition setBaseFolderMaxDepth :: "int \<Rightarrow> int \<Rightarrow> RepoIndex \<Rightarrow> RepoIndex" where
  "setBaseFolderMaxDepth i maxDepth ix = clearDirSignatures i (updateFolder i (\<lambda>b. b\<lparr>bf_maxDepth := maxDepth\<rparr>) ix)"

definition setBaseFolderEnabled :: "int \<Rightarrow> bool \<Rightarrow> RepoIndex \<Rightarrow> RepoIndex" where
  "setBaseFolderEnabled i enabled ix = updateFolder i (\<lambda>b. b\<lparr>bf_enabled := enabled\<rparr>) ix"

definition baseFolders :: "RepoIndex \<Rightarrow> BaseFolderRecord list" where
  "baseFolders ix = sort_key (\<lambda>b. map (of_char :: char \<Rightarrow> nat) (bf_path b)) (ix_folders ix)"

definition beginScan :: "int \<Rightarrow> int \<Rightarrow> RepoIndex \<Rightarrow> int GitResult \<times> RepoIndex" where
  "beginScan now i ix =
     (let ix = updateFolder i (\<lambda>b. b\<lparr>bf_generation := bf_generation b + 1, bf_lastScanStarted := now\<rparr>) ix
      in case find (\<lambda>b. bf_id b = i) (ix_folders ix) of
           None \<Rightarrow> (Inl (git_error NotFound ''No such base folder'' []), ix)
         | Some b \<Rightarrow> (Inr (bf_generation b), ix))"

definition finishScan :: "int \<Rightarrow> int \<Rightarrow> int \<Rightarrow> int \<Rightarrow> int \<Rightarrow> RepoIndex \<Rightarrow> RepoIndex" where
  "finishScan now i dirs ms skipped ix =
     updateFolder i (\<lambda>b. b\<lparr>bf_lastScanFinished := now, bf_lastScanDirs := dirs, bf_lastScanMs := ms, bf_lastScanSkipped := skipped\<rparr>) ix"

section \<open>Repositories\<close>

definition sameRepo :: "RepoRecord \<Rightarrow> RepoRecord \<Rightarrow> bool" where
  "sameRepo a b \<longleftrightarrow> re_gitDir a = re_gitDir b \<and> re_workDir a = re_workDir b"

definition overwriteRow :: "RepoRecord \<Rightarrow> RepoRecord \<Rightarrow> RepoRecord" where
  "overwriteRow r old =
     old\<lparr>re_baseFolderId := re_baseFolderId r, re_commonDir := re_commonDir r, re_kind := re_kind r, re_name := re_name r,
       re_parentRepoId := re_parentRepoId r, re_depth := re_depth r, re_lastSeenGeneration := re_lastSeenGeneration r, re_missingSince := None\<rparr>"

definition upsertRepo :: "int \<Rightarrow> RepoRecord \<Rightarrow> RepoIndex \<Rightarrow> RepoIndex" where
  "upsertRepo now r ix =
     ix\<lparr>ix_repos :=
       if list_ex (sameRepo r) (ix_repos ix) then map (\<lambda>old. if sameRepo r old then overwriteRow r old else old) (ix_repos ix)
       else ix_repos ix @
         [r\<lparr>re_id := newRowId (map re_id (ix_repos ix)),
            re_discoveredAt := if re_discoveredAt r \<noteq> 0 then re_discoveredAt r else now, re_missingSince := None\<rparr>]\<rparr>"

text \<open>The id the caller is told.\<close>

definition upsertedId :: "RepoRecord \<Rightarrow> RepoIndex \<Rightarrow> int option" where
  "upsertedId r ix = map_option re_id (find (sameRepo r) (ix_repos ix))"

text \<open>\<^verbatim>\<open>ORDER BY name COLLATE NOCASE\<close>: by the letters of ASCII folded to lower case; rows of one name keep their order.\<close>

definition foldAscii :: "string \<Rightarrow> nat list" where
  "foldAscii s = map (\<lambda>c. of_char (tolower c)) s"

definition byName :: "RepoRecord list \<Rightarrow> RepoRecord list" where
  "byName rs = sort_key (foldAscii \<circ> re_name) rs"

definition repos :: "bool \<Rightarrow> RepoIndex \<Rightarrow> RepoRecord list" where
  "repos includeMissing ix = byName (filter (\<lambda>r. includeMissing \<or> re_missingSince r = None) (ix_repos ix))"

definition reposInBaseFolder :: "int \<Rightarrow> RepoIndex \<Rightarrow> RepoRecord list" where
  "reposInBaseFolder i ix = byName (filter (\<lambda>r. re_baseFolderId r = i \<and> re_missingSince r = None) (ix_repos ix))"

definition findRepoByGitDir :: "string \<Rightarrow> RepoIndex \<Rightarrow> RepoRecord option" where
  "findRepoByGitDir gitDir ix = find (\<lambda>r. re_gitDir r = gitDir) (ix_repos ix)"

definition isOutdated :: "int \<Rightarrow> int \<Rightarrow> RepoRecord \<Rightarrow> bool" where
  "isOutdated i generation r \<longleftrightarrow> re_baseFolderId r = i \<and> re_lastSeenGeneration r < generation \<and> re_missingSince r = None"

definition markMissing :: "int \<Rightarrow> int \<Rightarrow> int \<Rightarrow> RepoIndex \<Rightarrow> nat \<times> RepoIndex" where
  "markMissing now i generation ix =
     (length (filter (isOutdated i generation) (ix_repos ix)),
      ix\<lparr>ix_repos := map (\<lambda>r. if isOutdated i generation r then r\<lparr>re_missingSince := Some now\<rparr> else r) (ix_repos ix)\<rparr>)"

section \<open>LIKE\<close>

text \<open>
  A pattern of SQL's \<^verbatim>\<open>LIKE\<close> with a backslash as its escape: a percent sign stands for any text, an underscore for
  one character, and letters of ASCII match in either case.
\<close>

abbreviation backslash :: char where "backslash \<equiv> CHR 0x5C"

definition sameLetter :: "char \<Rightarrow> char \<Rightarrow> bool" where
  "sameLetter a b \<longleftrightarrow> tolower a = tolower b"

fun tailsOf :: "'a list \<Rightarrow> 'a list list" where
  "tailsOf [] = [[]]"
| "tailsOf (x # xs) = (x # xs) # tailsOf xs"

fun like :: "string \<Rightarrow> string \<Rightarrow> bool" where
  "like [] s = (s = [])"
| "like (p # ps) s =
     (if p = backslash
      then (case (ps, s) of (q # qs, c # cs) \<Rightarrow> sameLetter q c \<and> like qs cs | _ \<Rightarrow> False)
      else if p = CHR ''%'' then list_ex (like ps) (tailsOf s)
      else if p = CHR ''_'' then (case s of [] \<Rightarrow> False | c # cs \<Rightarrow> like ps cs)
      else (case s of [] \<Rightarrow> False | c # cs \<Rightarrow> sameLetter p c \<and> like ps cs))"

definition escapeLike :: "string \<Rightarrow> string" where
  "escapeLike s = concat (map (\<lambda>c. if c = CHR ''%'' \<or> c = CHR ''_'' \<or> c = backslash then [backslash, c] else [c]) s)"

definition isUnder :: "int \<Rightarrow> string \<Rightarrow> RepoRecord \<Rightarrow> bool" where
  "isUnder i pathPrefix r \<longleftrightarrow>
     re_baseFolderId r = i \<and> (like (escapeLike pathPrefix @ ''%'') (re_workDir r) \<or> like (escapeLike pathPrefix @ ''%'') (re_gitDir r))"

definition touchReposUnder :: "int \<Rightarrow> string \<Rightarrow> int \<Rightarrow> RepoIndex \<Rightarrow> nat \<times> RepoIndex" where
  "touchReposUnder i pathPrefix generation ix =
     (length (filter (isUnder i pathPrefix) (ix_repos ix)),
      ix\<lparr>ix_repos := map (\<lambda>r. if isUnder i pathPrefix r then r\<lparr>re_lastSeenGeneration := generation\<rparr> else r) (ix_repos ix)\<rparr>)"

definition search :: "string \<Rightarrow> nat \<Rightarrow> RepoIndex \<Rightarrow> RepoRecord list" where
  "search query limit ix =
     (let pattern = ''%'' @ escapeLike query @ ''%''
      in take limit (byName (filter (\<lambda>r. re_missingSince r = None \<and>
           (like pattern (re_name r) \<or> like pattern (re_workDir r) \<or> like pattern (re_gitDir r))) (ix_repos ix))))"

text \<open>Deleting a repository deletes those whose parent it is, and theirs.\<close>

fun descendants :: "nat \<Rightarrow> RepoRecord list \<Rightarrow> int set \<Rightarrow> int set" where
  "descendants 0 rs ids = ids"
| "descendants (Suc n) rs ids =
     descendants n rs (ids \<union> set (map re_id (filter (\<lambda>r. case re_parentRepoId r of Some p \<Rightarrow> p \<in> ids | None \<Rightarrow> False) rs)))"

definition deleteRepo :: "int \<Rightarrow> RepoIndex \<Rightarrow> RepoIndex" where
  "deleteRepo i ix =
     (if i \<notin> set (map re_id (ix_repos ix)) then ix
      else let gone = descendants (length (ix_repos ix)) (ix_repos ix) {i}
           in dropProbes gone (ix\<lparr>ix_repos := filter (\<lambda>r. re_id r \<notin> gone) (ix_repos ix)\<rparr>))"

text \<open>A folder goes with its repositories and its signatures.\<close>

definition removeBaseFolder :: "int \<Rightarrow> RepoIndex \<Rightarrow> RepoIndex" where
  "removeBaseFolder i ix =
     (let gone = descendants (length (ix_repos ix)) (ix_repos ix) (set (map re_id (filter (\<lambda>r. re_baseFolderId r = i) (ix_repos ix))))
      in dropProbes gone (ix\<lparr>ix_folders := filter (\<lambda>f. bf_id f \<noteq> i) (ix_folders ix), ix_repos := filter (\<lambda>r. re_id r \<notin> gone) (ix_repos ix),
           ix_sigs := filter (\<lambda>s. ds_baseFolderId s \<noteq> i) (ix_sigs ix)\<rparr>))"

section \<open>Probes and signatures\<close>

definition saveProbe :: "int \<Rightarrow> RepoProbe \<Rightarrow> RepoIndex \<Rightarrow> RepoIndex" where
  "saveProbe now p ix =
     (let p = p\<lparr>pb_probedAt := if pb_probedAt p \<noteq> 0 then pb_probedAt p else now\<rparr>
      in ix\<lparr>ix_probes := filter (\<lambda>q. pb_repoId q \<noteq> pb_repoId p) (ix_probes ix) @ [p]\<rparr>)"

text \<open>A blob that is not as long as an object id is read as none.\<close>

definition repoProbe :: "int \<Rightarrow> RepoIndex \<Rightarrow> RepoProbe option" where
  "repoProbe i ix = find (\<lambda>p. pb_repoId p = i) (ix_probes ix)"

definition dirSignature :: "int \<Rightarrow> string \<Rightarrow> RepoIndex \<Rightarrow> DirSignature option" where
  "dirSignature i path ix = find (\<lambda>s. ds_baseFolderId s = i \<and> ds_dirPath s = path) (ix_sigs ix)"

definition saveDirSignature :: "DirSignature \<Rightarrow> RepoIndex \<Rightarrow> RepoIndex" where
  "saveDirSignature s ix =
     ix\<lparr>ix_sigs := filter (\<lambda>t. \<not> (ds_baseFolderId t = ds_baseFolderId s \<and> ds_dirPath t = ds_dirPath s)) (ix_sigs ix) @ [s]\<rparr>"

section \<open>Schema\<close>

definition kSchemaVersion :: int where "kSchemaVersion = 3"

definition newerSchema :: "int \<Rightarrow> GitError" where
  "newerSchema version =
     git_error Unsupported ''The repository cache was created by a newer version of this application''
       (''cache schema '' @ int_to_string version @ '', supported '' @ int_to_string kSchemaVersion)"

text \<open>
  The columns a step of the upgrade adds hold what a record of this model has anyway. The first step deletes every
  base folder, and with them every repository, probe and signature.
\<close>

definition migrate :: "RepoIndex \<Rightarrow> unit GitResult \<times> RepoIndex" where
  "migrate ix =
     (if ix_version ix = 0 then (Inr (), ix\<lparr>ix_version := kSchemaVersion\<rparr>)
      else if ix_version ix = kSchemaVersion then (Inr (), ix)
      else if ix_version ix > kSchemaVersion then (Inl (newerSchema (ix_version ix)), ix)
      else (Inr (), (if ix_version ix < 2 then ix\<lparr>ix_folders := [], ix_repos := [], ix_probes := [], ix_sigs := []\<rparr> else ix)\<lparr>ix_version := kSchemaVersion\<rparr>))"

end
