(* ===== verification/Discovery.thy ===== *)
theory Discovery
  imports RepoIndexes BranchOperations
begin

text \<open>
  How repositories are recognized, \<^verbatim>\<open>src/core/discovery\<close>: the names that are not entered (\<^verbatim>\<open>SkipRules\<close>) and what a
  directory is (\<^verbatim>\<open>RepoClassifier\<close>). Paths are texts with \<^verbatim>\<open>/\<close> between their components.
\<close>

section \<open>Names that are skipped\<close>

datatype Platform = Windows | Mac | OtherPlatform

fun platformPatterns :: "Platform \<Rightarrow> string list" where
  "platformPatterns Windows = [''$RECYCLE.BIN'', ''System Volume Information'', ''Temp'', ''AppData'']"
| "platformPatterns Mac = [''Library'', ''.Trash'', ''.Spotlight-V100'', ''.fseventsd'']"
| "platformPatterns OtherPlatform = [''.Trash'', ''proc'', ''sys'', ''dev'']"

definition builtinPatterns :: "Platform \<Rightarrow> string list" where
  "builtinPatterns platform =
     [''node_modules'', ''.venv'', ''venv'', ''__pycache__'', ''.tox'', ''.mypy_cache'', ''.pytest_cache'', ''build'', ''build-*'', ''cmake-build-*'',
      ''out'', ''target'', ''dist'', ''bin'', ''obj'', ''.gradle'', ''.cache'', ''.ccache'', ''Pods'', ''vendor'', ''.terraform'', ''.next'', ''.nuxt'',
      ''.svelte-kit'', ''.parcel-cache'', ''.turbo'', ''bower_components'', ''Carthage'', ''.git'', ''.svn'', ''.hg''] @ platformPatterns platform"

record SkipRules =
  sk_builtin :: "string list"
  sk_user :: "string list"

definition default_rules :: "Platform \<Rightarrow> SkipRules" where
  "default_rules platform = \<lparr>sk_builtin = builtinPatterns platform, sk_user = []\<rparr>"

definition matchesPattern :: "bool \<Rightarrow> string \<Rightarrow> string \<Rightarrow> bool" where
  "matchesPattern ci name pattern \<longleftrightarrow>
     (if pattern = [] then False
      else if last pattern = CHR ''*''
      then (if length name < length (butlast pattern) then False
            else pathsEquivalent ci (take (length (butlast pattern)) name) (butlast pattern))
      else pathsEquivalent ci name pattern)"

definition shouldSkipName :: "bool \<Rightarrow> SkipRules \<Rightarrow> string \<Rightarrow> bool" where
  "shouldSkipName ci rules name \<longleftrightarrow> list_ex (matchesPattern ci name) (sk_builtin rules) \<or> list_ex (matchesPattern ci name) (sk_user rules)"

text \<open>The last component of a path.\<close>

definition filename :: "string \<Rightarrow> string" where
  "filename path = (case rfind_char (CHR ''/'') path of None \<Rightarrow> path | Some i \<Rightarrow> drop (i + 1) path)"

definition shouldSkip :: "bool \<Rightarrow> SkipRules \<Rightarrow> string \<Rightarrow> bool" where
  "shouldSkip ci rules directory \<longleftrightarrow> shouldSkipName ci rules (filename directory)"

definition addPattern :: "string \<Rightarrow> SkipRules \<Rightarrow> SkipRules" where
  "addPattern pattern rules = (if pattern \<noteq> [] then rules\<lparr>sk_user := sk_user rules @ [pattern]\<rparr> else rules)"

definition clearUserPatterns :: "SkipRules \<Rightarrow> SkipRules" where
  "clearUserPatterns rules = rules\<lparr>sk_user := []\<rparr>"

section \<open>What a directory is\<close>

text \<open>
  The disk: what is a directory, what is a file, what a file holds if it is not longer than a limit; when a directory
  was last modified; and what stands in a directory, with whether all of it could be read.
\<close>

record 'i DirEntry =
  de_entryName :: string
  de_isDirectory :: bool
  de_isPlaceholder :: bool
  de_isLinkLike :: bool
  de_fileId :: "'i option"

record 'i ScanDisk =
  dk_isDirectory :: "string \<Rightarrow> bool"
  dk_isRegularFile :: "string \<Rightarrow> bool"
  dk_readSmallFile :: "string \<Rightarrow> nat \<Rightarrow> string option"
  dk_modifiedTimeNs :: "string \<Rightarrow> int option"
  dk_list :: "string \<Rightarrow> 'i DirEntry list \<times> bool"

record ClassifiedRepo =
  cl_kind :: RepoKind
  cl_paths :: RepoPaths
  cl_unreadable :: bool

definition not_a_repo :: ClassifiedRepo where
  "not_a_repo = \<lparr>cl_kind = NotARepo, cl_paths = repo_paths [] [] [], cl_unreadable = False\<rparr>"

definition isRepo :: "ClassifiedRepo \<Rightarrow> bool" where
  "isRepo c \<longleftrightarrow> cl_kind c \<noteq> NotARepo"

definition trimmedBoth :: "string \<Rightarrow> string" where
  "trimmedBoth s = dropWhile (\<lambda>c. c = CHR '' '' \<or> c = CHR 0x09) (trimmedEnd s)"

definition resolvedAgainst :: "string \<Rightarrow> string \<Rightarrow> string" where
  "resolvedAgainst dir target = normalText (if isAbsolute target then target else path_join dir target)"

definition resolveGitDirFile :: "'i ScanDisk \<Rightarrow> string \<Rightarrow> string \<Rightarrow> string option" where
  "resolveGitDirFile disk gitFile containingDir =
     (case dk_readSmallFile disk gitFile 4096 of
        None \<Rightarrow> None
      | Some contents \<Rightarrow>
          if \<not> starts_with (trimmedBoth contents) ''gitdir:'' then None
          else let target = trimmedBoth (drop (length ''gitdir:'') (trimmedBoth contents))
               in if target = [] then None else Some (resolvedAgainst containingDir target))"

definition resolveCommonDir :: "'i ScanDisk \<Rightarrow> string \<Rightarrow> string" where
  "resolveCommonDir disk gitDir =
     (case dk_readSmallFile disk (path_join gitDir ''commondir'') 4096 of
        None \<Rightarrow> normalText gitDir
      | Some contents \<Rightarrow>
          (let target = trimmedBoth contents in if target = [] then normalText gitDir else resolvedAgainst gitDir target))"

text \<open>\<^verbatim>\<open>extension() == ".git"\<close>: a dot that begins the name does not begin an extension.\<close>

definition hasGitExtension :: "string \<Rightarrow> bool" where
  "hasGitExtension path \<longleftrightarrow>
     length (filename path) > 4 \<and> drop (length (filename path) - 4) (filename path) = ''.git''"

definition looksBare :: "'i ScanDisk \<Rightarrow> string \<Rightarrow> bool" where
  "looksBare disk dir \<longleftrightarrow>
     (if \<not> dk_isRegularFile disk (path_join dir ''HEAD'') then False
      else if \<not> dk_isDirectory disk (path_join dir ''objects'') \<or> \<not> dk_isDirectory disk (path_join dir ''refs'') then False
      else case dk_readSmallFile disk (path_join dir ''config'') (256 * 1024) of
             None \<Rightarrow> hasGitExtension dir
           | Some config \<Rightarrow>
               if find_str ''bare = true'' config \<noteq> None then True
               else if find_str ''bare = false'' config \<noteq> None then False
               else hasGitExtension dir)"

definition classifyDotGitFile :: "'i ScanDisk \<Rightarrow> string \<Rightarrow> ClassifiedRepo" where
  "classifyDotGitFile disk dir =
     (case resolveGitDirFile disk (path_join dir ''.git'') dir of
        None \<Rightarrow> not_a_repo\<lparr>cl_unreadable := True\<rparr>
      | Some gitDir \<Rightarrow>
          if \<not> dk_isDirectory disk gitDir then not_a_repo\<lparr>cl_unreadable := True\<rparr>
          else not_a_repo\<lparr>cl_kind :=
                   (if find_str ''/worktrees/'' gitDir \<noteq> None then LinkedWorktreeRepo
                    else if find_str ''/modules/'' gitDir \<noteq> None then SubmoduleRepo else NormalRepo),
                 cl_paths := repo_paths dir gitDir (resolveCommonDir disk gitDir)\<rparr>)"

definition classify :: "'i ScanDisk \<Rightarrow> string \<Rightarrow> ClassifiedRepo" where
  "classify disk dir =
     (let dotGit = path_join dir ''.git''
      in if dk_isDirectory disk dotGit
         then (if \<not> dk_isRegularFile disk (path_join dotGit ''HEAD'') then not_a_repo\<lparr>cl_unreadable := True\<rparr>
               else not_a_repo\<lparr>cl_kind := NormalRepo, cl_paths := repo_paths dir dotGit (resolveCommonDir disk dotGit)\<rparr>)
         else if dk_isRegularFile disk dotGit then classifyDotGitFile disk dir
         else if looksBare disk dir then not_a_repo\<lparr>cl_kind := BareRepo, cl_paths := repo_paths [] dir (resolveCommonDir disk dir)\<rparr>
         else not_a_repo)"

definition displayName :: "RepoPaths \<Rightarrow> string" where
  "displayName p =
     (if rp_workDir p \<noteq> [] then filename (rp_workDir p)
      else if filename (rp_gitDir p) = ''.git'' \<and> parentPath (rp_gitDir p) \<noteq> [] then filename (parentPath (rp_gitDir p))
      else filename (rp_gitDir p))"

end
