(* ===== verification/Scanners.thy ===== *)
theory Scanners
  imports Discovery
begin

text \<open>
  The scanner, \<^verbatim>\<open>src/core/discovery/Scanner\<close>: workers that share one queue of directories, as a step relation over
  what they share and what each of them is doing. A section between two locks, or one call of the index, is one step.
  The file system does not change while it is scanned.
\<close>

section \<open>What is scanned\<close>

datatype ScanMode = Incremental | FullScan

type_synonym WorkItem = "string \<times> int"

text \<open>\<open>tk_refused\<close>: whether the index refuses to look up the signature of a directory.\<close>

record 'i ScanTask =
  tk_disk :: "'i ScanDisk"
  tk_caseInsensitive :: bool
  tk_rules :: SkipRules
  tk_folder :: BaseFolderRecord
  tk_mode :: ScanMode
  tk_generation :: int
  tk_refused :: "string \<Rightarrow> bool"

definition kBatchSize :: nat where "kBatchSize = 20"

text \<open>\<open>hardware\<close> is the number of threads the machine runs at a time, 0 if it is not known.\<close>

definition workerCountFor :: "bool \<Rightarrow> nat \<Rightarrow> nat" where
  "workerCountFor isNetworkPath hardware =
     (if isNetworkPath then 1 else let n = (if hardware = 0 then 2 else hardware div 2) in if n < 2 then 2 else if n > 4 then 4 else n)"

section \<open>The shared state\<close>

text \<open>What a worker is doing. An iteration that ends says whether the worker ends with it.\<close>

datatype 'i ScanWorker =
    Seeking
  | Taken WorkItem
  | Touching WorkItem
  | Examining WorkItem
  | Swapping WorkItem
  | Committing WorkItem "RepoRecord list"
  | Enumerating WorkItem "'i DirEntry list" nat "WorkItem list"
  | Closing bool
  | Left

text \<open>
  \<open>sn_failed\<close> is the error of a scan that failed; \<open>sn_done\<close> and \<open>sn_pruned\<close> are the directories that were dealt with
  and those passed over with all below them, which only what is proved looks at.
\<close>

record 'i ScanState =
  sn_queue :: "WorkItem list"
  sn_visited :: "'i list"
  sn_pending :: "RepoRecord list"
  sn_scanned :: nat
  sn_skipped :: nat
  sn_unreadable :: nat
  sn_found :: nat
  sn_activeWorkers :: nat
  sn_signatures :: "DirSignature list"
  sn_failed :: "GitError option"
  sn_index :: RepoIndex
  sn_cancelled :: bool
  sn_workers :: "'i ScanWorker list"
  sn_done :: "WorkItem list"
  sn_pruned :: "WorkItem list"

definition scanInit :: "'i ScanTask \<Rightarrow> nat \<Rightarrow> RepoIndex \<Rightarrow> bool \<Rightarrow> 'i ScanState" where
  "scanInit t n ix cancelled' =
     \<lparr>sn_queue = [(bf_path (tk_folder t), 0)], sn_visited = [], sn_pending = [], sn_scanned = 0, sn_skipped = 0, sn_unreadable = 0, sn_found = 0,
      sn_activeWorkers = 0, sn_signatures = [], sn_failed = None, sn_index = ix, sn_cancelled = cancelled', sn_workers = replicate n Seeking,
      sn_done = [], sn_pruned = []\<rparr>"

section \<open>One worker\<close>

definition takeItem :: "'i ScanState \<Rightarrow> 'i ScanWorker \<times> 'i ScanState" where
  "takeItem s =
     (case sn_queue s of
        [] \<Rightarrow> (if sn_activeWorkers s = 0 then Left else Seeking, s)
      | item # items \<Rightarrow> (Taken item, s\<lparr>sn_queue := items, sn_activeWorkers := sn_activeWorkers s + 1\<rparr>))"

definition itemKey :: "'i ScanTask \<Rightarrow> WorkItem \<Rightarrow> string" where
  "itemKey t item = canonicalKey (tk_caseInsensitive t) (fst item)"

definition isUnchanged :: "'i ScanTask \<Rightarrow> WorkItem \<Rightarrow> RepoIndex \<Rightarrow> bool" where
  "isUnchanged t item ix \<longleftrightarrow>
     tk_mode t = Incremental \<and>
     (case (dk_modifiedTimeNs (tk_disk t) (fst item), if tk_refused t (itemKey t item) then None else dirSignature (bf_id (tk_folder t)) (itemKey t item) ix) of
        (Some mtime, Some stored) \<Rightarrow> ds_mtimeNs stored = mtime \<and> \<not> ds_hadRepo stored
      | _ \<Rightarrow> False)"

definition isPastDepth :: "'i ScanTask \<Rightarrow> WorkItem \<Rightarrow> bool" where
  "isPastDepth t item \<longleftrightarrow> snd item > bf_maxDepth (tk_folder t)"

definition isSkipped :: "'i ScanTask \<Rightarrow> WorkItem \<Rightarrow> bool" where
  "isSkipped t item \<longleftrightarrow> snd item > 0 \<and> shouldSkip (tk_caseInsensitive t) (tk_rules t) (fst item)"

definition skipItem :: "WorkItem \<Rightarrow> 'i ScanState \<Rightarrow> 'i ScanState" where
  "skipItem item s = s\<lparr>sn_skipped := sn_skipped s + 1, sn_done := item # sn_done s\<rparr>"

definition beginItem :: "'i ScanTask \<Rightarrow> WorkItem \<Rightarrow> 'i ScanState \<Rightarrow> 'i ScanWorker \<times> 'i ScanState" where
  "beginItem t item s =
     (if sn_cancelled s then (Closing True, s)
      else if isPastDepth t item then (Closing False, skipItem item s)
      else if isSkipped t item then (Closing False, skipItem item s)
      else if isUnchanged t item (sn_index s) then (Touching item, s)
      else (Examining item, s))"

definition pruneItem :: "'i ScanTask \<Rightarrow> WorkItem \<Rightarrow> 'i ScanState \<Rightarrow> 'i ScanWorker \<times> 'i ScanState" where
  "pruneItem t item s =
     (Closing False,
      s\<lparr>sn_index := snd (touchReposUnder (bf_id (tk_folder t)) (fst item) (tk_generation t) (sn_index s)), sn_skipped := sn_skipped s + 1,
        sn_pruned := item # sn_pruned s\<rparr>)"

definition scanRecord :: "'i ScanTask \<Rightarrow> int \<Rightarrow> WorkItem \<Rightarrow> RepoRecord" where
  "scanRecord t now item =
     (let c = classify (tk_disk t) (fst item)
      in \<lparr>re_id = 0, re_baseFolderId = bf_id (tk_folder t), re_workDir = rp_workDir (cl_paths c), re_gitDir = rp_gitDir (cl_paths c),
          re_commonDir = rp_commonDir (cl_paths c), re_kind = cl_kind c, re_name = displayName (cl_paths c), re_parentRepoId = None,
          re_depth = snd item, re_discoveredAt = now, re_lastSeenGeneration = tk_generation t, re_missingSince = None\<rparr>)"

definition enumerate :: "'i ScanTask \<Rightarrow> WorkItem \<Rightarrow> 'i ScanWorker" where
  "enumerate t item = Enumerating item (fst (dk_list (tk_disk t) (fst item))) 0 []"

definition examineItem :: "'i ScanTask \<Rightarrow> int \<Rightarrow> WorkItem \<Rightarrow> 'i ScanState \<Rightarrow> 'i ScanWorker \<times> 'i ScanState" where
  "examineItem t now item s =
     (if isRepo (classify (tk_disk t) (fst item))
      then let s = s\<lparr>sn_pending := sn_pending s @ [scanRecord t now item], sn_found := sn_found s + 1\<rparr>
           in (if length (sn_pending s) \<ge> kBatchSize then Swapping item else enumerate t item, s)
      else (enumerate t item, s))"

text \<open>\<^verbatim>\<open>flushPending\<close>: the records are taken under the lock, and then written in one transaction.\<close>

definition swapPending :: "'i ScanTask \<Rightarrow> WorkItem \<Rightarrow> 'i ScanState \<Rightarrow> 'i ScanWorker \<times> 'i ScanState" where
  "swapPending t item s = (if sn_pending s = [] then enumerate t item else Committing item (sn_pending s), s\<lparr>sn_pending := []\<rparr>)"

definition upsertAll :: "int \<Rightarrow> RepoRecord list \<Rightarrow> RepoIndex \<Rightarrow> RepoIndex" where
  "upsertAll now batch ix = foldl (\<lambda>ix r. upsertRepo now r ix) ix batch"

definition commitBatch :: "'i ScanTask \<Rightarrow> int \<Rightarrow> WorkItem \<Rightarrow> RepoRecord list \<Rightarrow> 'i ScanState \<Rightarrow> 'i ScanWorker \<times> 'i ScanState" where
  "commitBatch t now item batch s = (enumerate t item, s\<lparr>sn_index := upsertAll now batch (sn_index s)\<rparr>)"

definition childItem :: "WorkItem \<Rightarrow> 'i DirEntry \<Rightarrow> WorkItem" where
  "childItem item e = (path_join (fst item) (de_entryName e), snd item + 1)"

definition descends :: "'i ScanTask \<Rightarrow> WorkItem \<Rightarrow> bool" where
  "descends t item \<longleftrightarrow> \<not> isRepo (classify (tk_disk t) (fst item))"

text \<open>Whether an entry becomes an item; a link is followed once.\<close>

definition visitEntry :: "'i ScanTask \<Rightarrow> 'i DirEntry \<Rightarrow> 'i ScanState \<Rightarrow> bool \<times> 'i ScanState" where
  "visitEntry t e s =
     (if de_isPlaceholder e then (False, s\<lparr>sn_skipped := sn_skipped s + 1\<rparr>)
      else if de_isLinkLike e
      then (if \<not> bf_followLinks (tk_folder t) then (False, s)
            else case de_fileId e of
                   None \<Rightarrow> (True, s)
                 | Some i \<Rightarrow> if i \<in> set (sn_visited s) then (False, s) else (True, s\<lparr>sn_visited := i # sn_visited s\<rparr>))
      else (True, s))"

definition enumerateEntry ::
  "'i ScanTask \<Rightarrow> WorkItem \<Rightarrow> 'i DirEntry \<Rightarrow> 'i DirEntry list \<Rightarrow> nat \<Rightarrow> WorkItem list \<Rightarrow> 'i ScanState \<Rightarrow> 'i ScanWorker \<times> 'i ScanState" where
  "enumerateEntry t item e es childDirs children s =
     (if \<not> de_isDirectory e then (Enumerating item es childDirs children, s)
      else if \<not> descends t item then (Enumerating item es (childDirs + 1) children, s)
      else case visitEntry t e s of
             (enters, s) \<Rightarrow> (Enumerating item es (childDirs + 1) (if enters then children @ [childItem item e] else children), s))"

definition itemSignature :: "'i ScanTask \<Rightarrow> WorkItem \<Rightarrow> nat \<Rightarrow> DirSignature list" where
  "itemSignature t item childDirs =
     (case dk_modifiedTimeNs (tk_disk t) (fst item) of
        None \<Rightarrow> []
      | Some mtime \<Rightarrow>
          [\<lparr>ds_baseFolderId = bf_id (tk_folder t), ds_dirPath = itemKey t item, ds_mtimeNs = mtime, ds_childDirs = int childDirs,
            ds_hadRepo = isRepo (classify (tk_disk t) (fst item))\<rparr>])"

definition endItem :: "'i ScanTask \<Rightarrow> WorkItem \<Rightarrow> nat \<Rightarrow> WorkItem list \<Rightarrow> 'i ScanState \<Rightarrow> 'i ScanWorker \<times> 'i ScanState" where
  "endItem t item childDirs children s =
     (let s = s\<lparr>sn_scanned := sn_scanned s + 1, sn_queue := sn_queue s @ children, sn_done := item # sn_done s\<rparr>
      in (Closing False,
          if snd (dk_list (tk_disk t) (fst item)) then s\<lparr>sn_unreadable := sn_unreadable s + 1\<rparr>
          else s\<lparr>sn_signatures := sn_signatures s @ itemSignature t item childDirs\<rparr>))"

definition closeItem :: "bool \<Rightarrow> 'i ScanState \<Rightarrow> 'i ScanWorker \<times> 'i ScanState" where
  "closeItem leaves s = (if leaves then Left else Seeking, s\<lparr>sn_activeWorkers := sn_activeWorkers s - 1\<rparr>)"

text \<open>What a worker does next, when the index accepts what it asks.\<close>

fun workerStep :: "'i ScanTask \<Rightarrow> int \<Rightarrow> 'i ScanWorker \<Rightarrow> 'i ScanState \<Rightarrow> 'i ScanWorker \<times> 'i ScanState" where
  "workerStep t now Seeking s = takeItem s"
| "workerStep t now (Taken item) s = beginItem t item s"
| "workerStep t now (Touching item) s = pruneItem t item s"
| "workerStep t now (Examining item) s = examineItem t now item s"
| "workerStep t now (Swapping item) s = swapPending t item s"
| "workerStep t now (Committing item batch) s = commitBatch t now item batch s"
| "workerStep t now (Enumerating item [] childDirs children) s = endItem t item childDirs children s"
| "workerStep t now (Enumerating item (e # es) childDirs children) s = enumerateEntry t item e es childDirs children s"
| "workerStep t now (Closing leaves) s = closeItem leaves s"
| "workerStep t now Left s = (Left, s)"

text \<open>Where the index may refuse, and where a worker may be stopped by an exception.\<close>

fun asksIndex :: "'i ScanWorker \<Rightarrow> bool" where
  "asksIndex (Touching item) = True"
| "asksIndex (Committing item batch) = True"
| "asksIndex w = False"

fun isWorking :: "'i ScanWorker \<Rightarrow> bool" where
  "isWorking Seeking = False"
| "isWorking Left = False"
| "isWorking w = True"

section \<open>All workers\<close>

definition putWorker :: "nat \<Rightarrow> 'i ScanWorker \<Rightarrow> 'i ScanState \<Rightarrow> 'i ScanState" where
  "putWorker i w s = s\<lparr>sn_workers := (sn_workers s)[i := w]\<rparr>"

definition workerMoves :: "'i ScanTask \<Rightarrow> int \<Rightarrow> nat \<Rightarrow> 'i ScanState \<Rightarrow> 'i ScanState" where
  "workerMoves t now i s = (case workerStep t now (sn_workers s ! i) s of (w, s') \<Rightarrow> putWorker i w s')"

definition refuse :: "nat \<Rightarrow> GitError \<Rightarrow> 'i ScanState \<Rightarrow> 'i ScanState" where
  "refuse i e s = putWorker i (Closing True) (s\<lparr>sn_failed := Some e\<rparr>)"

definition throwIn :: "nat \<Rightarrow> GitError \<Rightarrow> 'i ScanState \<Rightarrow> 'i ScanState" where
  "throwIn i e s = putWorker i Left (s\<lparr>sn_failed := Some e, sn_activeWorkers := sn_activeWorkers s - 1\<rparr>)"

inductive scanStep :: "'i ScanTask \<Rightarrow> 'i ScanState \<Rightarrow> 'i ScanState \<Rightarrow> bool" for t :: "'i ScanTask" where
  moves: "i < length (sn_workers s) \<Longrightarrow> scanStep t s (workerMoves t now i s)"
| refused: "i < length (sn_workers s) \<Longrightarrow> asksIndex (sn_workers s ! i) \<Longrightarrow> scanStep t s (refuse i e s)"
| thrown: "i < length (sn_workers s) \<Longrightarrow> isWorking (sn_workers s ! i) \<Longrightarrow> scanStep t s (throwIn i e s)"
| cancels: "scanStep t s (s\<lparr>sn_cancelled := True\<rparr>)"

section \<open>Before and after the workers\<close>

definition scanStart :: "'i ScanDisk \<Rightarrow> BaseFolderRecord \<Rightarrow> ScanMode \<Rightarrow> int \<Rightarrow> RepoIndex \<Rightarrow> int GitResult \<times> RepoIndex" where
  "scanStart disk folder mode now ix =
     (if \<not> dk_isDirectory disk (bf_path folder)
      then (Inl (git_error NotFound (''The folder '' @ bf_path folder @ '' could not be read'') []), ix)
      else case beginScan now (bf_id folder) ix of
             (Inl e, ix) \<Rightarrow> (Inl e, ix)
           | (Inr generation, ix) \<Rightarrow> (Inr generation, if mode = FullScan then clearDirSignatures (bf_id folder) ix else ix))"

record ScanResult =
  sr_directoriesScanned :: nat
  sr_directoriesSkipped :: nat
  sr_directoriesUnreadable :: nat
  sr_reposFound :: nat
  sr_reposMarkedMissing :: nat
  sr_elapsedMs :: int
  sr_cancelled :: bool

definition kSignatureChunkSize :: nat where "kSignatureChunkSize = 500"

text \<open>The calls of the index after the workers; \<open>answer\<close> says which of them are refused.\<close>

datatype IndexCall = FlushCall | SignatureCall nat | MarkCall | FinishCall

function saveSignatures :: "(IndexCall \<Rightarrow> GitError option) \<Rightarrow> nat \<Rightarrow> DirSignature list \<Rightarrow> RepoIndex \<Rightarrow> GitError option \<times> RepoIndex" where
  "saveSignatures answer chunk sigs ix =
     (if sigs = [] then (None, ix)
      else case answer (SignatureCall chunk) of
             Some e \<Rightarrow> (Some e, ix)
           | None \<Rightarrow> saveSignatures answer (chunk + 1) (drop kSignatureChunkSize sigs) (foldl (\<lambda>ix s. saveDirSignature s ix) ix (take kSignatureChunkSize sigs)))"
  by pat_completeness auto
termination by (relation "measure (\<lambda>(answer, chunk, sigs, ix). length sigs)") (auto simp: kSignatureChunkSize_def)

definition flushRest :: "(IndexCall \<Rightarrow> GitError option) \<Rightarrow> int \<Rightarrow> 'i ScanState \<Rightarrow> GitError option \<times> RepoIndex" where
  "flushRest answer now s =
     (if sn_pending s = [] then (None, sn_index s)
      else case answer FlushCall of Some e \<Rightarrow> (Some e, sn_index s) | None \<Rightarrow> (None, upsertAll now (sn_pending s) (sn_index s)))"

definition scanResult :: "'i ScanState \<Rightarrow> nat \<Rightarrow> int \<Rightarrow> ScanResult" where
  "scanResult s marked elapsed =
     \<lparr>sr_directoriesScanned = sn_scanned s, sr_directoriesSkipped = sn_skipped s, sr_directoriesUnreadable = sn_unreadable s, sr_reposFound = sn_found s,
      sr_reposMarkedMissing = marked, sr_elapsedMs = elapsed, sr_cancelled = sn_cancelled s\<rparr>"

definition sweepMissing ::
  "'i ScanTask \<Rightarrow> (IndexCall \<Rightarrow> GitError option) \<Rightarrow> int \<Rightarrow> int \<Rightarrow> 'i ScanState \<Rightarrow> RepoIndex \<Rightarrow> ScanResult GitResult \<times> RepoIndex" where
  "sweepMissing t answer now elapsed s ix =
     (case answer MarkCall of
        Some e \<Rightarrow> (Inl e, ix)
      | None \<Rightarrow>
          (case markMissing now (bf_id (tk_folder t)) (tk_generation t) ix of
             (marked, ix) \<Rightarrow>
               (case answer FinishCall of
                  Some e \<Rightarrow> (Inl e, ix)
                | None \<Rightarrow> (Inr (scanResult s marked elapsed), finishScan now (bf_id (tk_folder t)) (int (sn_scanned s)) elapsed (int (sn_skipped s)) ix))))"

text \<open>\<open>late\<close>: whether the scan has been cancelled by the time it asks for the last time.\<close>

definition scanEnd :: "'i ScanTask \<Rightarrow> (IndexCall \<Rightarrow> GitError option) \<Rightarrow> int \<Rightarrow> int \<Rightarrow> bool \<Rightarrow> 'i ScanState \<Rightarrow> ScanResult GitResult \<times> RepoIndex" where
  "scanEnd t answer now elapsed late s =
     (case sn_failed s of
        Some e \<Rightarrow> (Inl e, sn_index s)
      | None \<Rightarrow>
          (case flushRest answer now s of
             (Some e, ix) \<Rightarrow> (Inl e, ix)
           | (None, ix) \<Rightarrow>
               (case if sn_cancelled s then (None, ix) else saveSignatures answer 0 (sn_signatures s) ix of
                  (Some e, ix) \<Rightarrow> (Inl e, ix)
                | (None, ix) \<Rightarrow>
                    if sn_cancelled s \<or> late then (Inr (scanResult (s\<lparr>sn_cancelled := True\<rparr>) 0 elapsed), ix)
                    else sweepMissing t answer now elapsed s ix)))"

end
