(* ===== verification/ScanInvariants.thy ===== *)
theory ScanInvariants
  imports Scanners
begin

text \<open>
  What every state of a scan keeps: which directories belong to the tree that is scanned, that none of them is lost
  between the queue, the workers and what is done, and that every repository found is on its way to the index.
\<close>

section \<open>The tree\<close>

definition entersItem :: "'i ScanTask \<Rightarrow> WorkItem \<Rightarrow> bool" where
  "entersItem t item \<longleftrightarrow> \<not> isPastDepth t item \<and> \<not> isSkipped t item"

definition isPlainDir :: "'i DirEntry \<Rightarrow> bool" where
  "isPlainDir e \<longleftrightarrow> de_isDirectory e \<and> \<not> de_isPlaceholder e \<and> \<not> de_isLinkLike e"

definition childrenOf :: "'i ScanTask \<Rightarrow> WorkItem \<Rightarrow> 'i DirEntry list \<Rightarrow> WorkItem list" where
  "childrenOf t item es = (if descends t item then map (childItem item) (filter isPlainDir es) else [])"

definition plainChildren :: "'i ScanTask \<Rightarrow> WorkItem \<Rightarrow> WorkItem list" where
  "plainChildren t item = childrenOf t item (fst (dk_list (tk_disk t) (fst item)))"

definition baseItem :: "'i ScanTask \<Rightarrow> WorkItem" where
  "baseItem t = (bf_path (tk_folder t), 0)"

inductive_set inTree :: "'i ScanTask \<Rightarrow> WorkItem set" for t :: "'i ScanTask" where
  base: "baseItem t \<in> inTree t"
| below: "item \<in> inTree t \<Longrightarrow> entersItem t item \<Longrightarrow> c \<in> set (plainChildren t item) \<Longrightarrow> c \<in> inTree t"

definition isRepoItem :: "'i ScanTask \<Rightarrow> WorkItem \<Rightarrow> bool" where
  "isRepoItem t item \<longleftrightarrow> isRepo (classify (tk_disk t) (fst item))"

definition isFound :: "'i ScanTask \<Rightarrow> WorkItem \<Rightarrow> bool" where
  "isFound t item \<longleftrightarrow> item \<in> inTree t \<and> entersItem t item \<and> isRepoItem t item"

section \<open>What the workers hold\<close>

definition parts :: "('w \<Rightarrow> 'a list) \<Rightarrow> 'w list \<Rightarrow> 'a set" where
  "parts f ws = (\<Union>w \<in> set ws. set (f w))"

lemma parts_update:
  assumes "i < length ws"
  shows "parts f ws \<subseteq> parts f (ws[i := w]) \<union> set (f (ws ! i))"
    and "set (f w) \<subseteq> parts f (ws[i := w])"
    and "parts f (ws[i := w]) \<subseteq> parts f ws \<union> set (f w)"
proof -
  show "parts f ws \<subseteq> parts f (ws[i := w]) \<union> set (f (ws ! i))"
  proof
    fix x assume "x \<in> parts f ws"
    then obtain v where "v \<in> set ws" "x \<in> set (f v)" by (auto simp: parts_def)
    then obtain j where j: "j < length ws" "x \<in> set (f (ws ! j))" by (metis in_set_conv_nth)
    show "x \<in> parts f (ws[i := w]) \<union> set (f (ws ! i))"
    proof (cases "j = i")
      case False
      then have "ws[i := w] ! j = ws ! j" by simp
      moreover have "ws[i := w] ! j \<in> set (ws[i := w])" using j by (intro nth_mem) simp
      ultimately have "ws ! j \<in> set (ws[i := w])" by simp
      with j have "ws ! j \<in> set (ws[i := w])" "x \<in> set (f (ws ! j))" by simp_all
      then show ?thesis by (auto simp: parts_def)
    qed (use j in simp)
  qed
  show "set (f w) \<subseteq> parts f (ws[i := w])" using set_update_memI [OF assms] by (auto simp: parts_def)
  show "parts f (ws[i := w]) \<subseteq> parts f ws \<union> set (f w)" using set_update_subset_insert [of ws i w] by (auto simp: parts_def)
qed

lemma parts_replicate [simp]: "f w = [] \<Longrightarrow> parts f (replicate n w) = {}"
  by (auto simp: parts_def)

fun heldItem :: "'i ScanWorker \<Rightarrow> WorkItem list" where
  "heldItem (Taken item) = [item]"
| "heldItem (Touching item) = [item]"
| "heldItem (Examining item) = [item]"
| "heldItem (Swapping item) = [item]"
| "heldItem (Committing item batch) = [item]"
| "heldItem (Enumerating item es childDirs children) = [item]"
| "heldItem w = []"

text \<open>The items known to be entered, and those of them whose repository has been recorded.\<close>

fun enteredItem :: "'i ScanWorker \<Rightarrow> WorkItem list" where
  "enteredItem (Taken item) = []"
| "enteredItem w = heldItem w"

fun recordedItem :: "'i ScanWorker \<Rightarrow> WorkItem list" where
  "recordedItem (Touching item) = []"
| "recordedItem (Examining item) = []"
| "recordedItem w = enteredItem w"

fun heldRecords :: "'i ScanWorker \<Rightarrow> RepoRecord list" where
  "heldRecords (Committing item batch) = batch"
| "heldRecords w = []"

fun collected :: "'i ScanWorker \<Rightarrow> WorkItem list" where
  "collected (Enumerating item es childDirs children) = children"
| "collected w = []"

definition knownItems :: "'i ScanState \<Rightarrow> WorkItem set" where
  "knownItems s = set (sn_queue s) \<union> parts heldItem (sn_workers s) \<union> set (sn_done s) \<union> set (sn_pruned s)"

definition waitingRecords :: "'i ScanState \<Rightarrow> RepoRecord set" where
  "waitingRecords s = set (sn_pending s) \<union> parts heldRecords (sn_workers s)"

text \<open>Whether the index has a row for a repository that this scan has seen.\<close>

definition isSeen :: "'i ScanTask \<Rightarrow> RepoIndex \<Rightarrow> RepoRecord \<Rightarrow> bool" where
  "isSeen t ix r \<longleftrightarrow>
     list_ex (\<lambda>row. sameRepo r row \<and> re_baseFolderId row = bf_id (tk_folder t) \<and> re_lastSeenGeneration row = tk_generation t \<and> re_missingSince row = None)
       (ix_repos ix)"

definition isRecorded :: "'i ScanTask \<Rightarrow> 'i ScanState \<Rightarrow> WorkItem \<Rightarrow> bool" where
  "isRecorded t s item \<longleftrightarrow> (\<exists>now. scanRecord t now item \<in> waitingRecords s) \<or> isSeen t (sn_index s) (scanRecord t 0 item)"

definition isOurs :: "'i ScanTask \<Rightarrow> RepoRecord \<Rightarrow> bool" where
  "isOurs t r \<longleftrightarrow> re_baseFolderId r = bf_id (tk_folder t) \<and> re_lastSeenGeneration r = tk_generation t \<and> re_missingSince r = None"

lemma scanRecord_ours [simp]: "isOurs t (scanRecord t now item)"
  by (simp add: isOurs_def scanRecord_def Let_def)

lemma sameRepo_trans: "sameRepo a b \<Longrightarrow> sameRepo b c \<Longrightarrow> sameRepo a c"
  by (simp add: sameRepo_def)

lemma sameRepo_refl [simp]: "sameRepo a a"
  by (simp add: sameRepo_def)

lemma sameRepo_now: "sameRepo (scanRecord t now item) r \<longleftrightarrow> sameRepo (scanRecord t 0 item) r"
  by (simp add: sameRepo_def scanRecord_def Let_def)

section \<open>Rows of the index\<close>

text \<open>A change of the rows that keeps what this scan has seen: each row stays the same repository.\<close>

definition keepsRows :: "'i ScanTask \<Rightarrow> RepoIndex \<Rightarrow> RepoIndex \<Rightarrow> bool" where
  "keepsRows t ix ix' \<longleftrightarrow>
     (\<forall>r \<in> set (ix_repos ix). \<exists>r' \<in> set (ix_repos ix'). sameRepo r r' \<and>
        (re_baseFolderId r = bf_id (tk_folder t) \<longrightarrow> re_baseFolderId r' = bf_id (tk_folder t)) \<and>
        (re_lastSeenGeneration r = tk_generation t \<longrightarrow> re_lastSeenGeneration r' = tk_generation t) \<and>
        (re_missingSince r = None \<longrightarrow> re_missingSince r' = None))"

lemma keepsRows_refl [simp]: "keepsRows t ix ix"
  unfolding keepsRows_def by (intro ballI bexI) auto

lemma keepsRows_trans: "keepsRows t a b \<Longrightarrow> keepsRows t b c \<Longrightarrow> keepsRows t a c"
  unfolding keepsRows_def by (meson sameRepo_trans)

lemma keepsRows_seen: "keepsRows t ix ix' \<Longrightarrow> isSeen t ix r \<Longrightarrow> isSeen t ix' r"
  unfolding keepsRows_def isSeen_def list_ex_iff by (meson sameRepo_trans)

lemma keepsRows_map:
  assumes "\<And>r. sameRepo r (f r)"
    and "\<And>r. re_baseFolderId r = bf_id (tk_folder t) \<Longrightarrow> re_baseFolderId (f r) = bf_id (tk_folder t)"
    and "\<And>r. re_lastSeenGeneration r = tk_generation t \<Longrightarrow> re_lastSeenGeneration (f r) = tk_generation t"
    and "\<And>r. re_missingSince r = None \<Longrightarrow> re_missingSince (f r) = None"
    and "ix_repos ix' = map f (ix_repos ix) @ more'"
  shows "keepsRows t ix ix'"
  using assms unfolding keepsRows_def by (auto intro!: bexI [where x = "f _"])

lemma upsertRepo_keeps: "isOurs t r \<Longrightarrow> keepsRows t ix (upsertRepo now r ix)"
proof (cases "list_ex (sameRepo r) (ix_repos ix)")
  case True
  assume "isOurs t r"
  with True show ?thesis
    by (intro keepsRows_map [where more' = "[]" and f = "\<lambda>old. if sameRepo r old then overwriteRow r old else old"]) (auto simp: upsertRepo_def overwriteRow_def isOurs_def sameRepo_def)
next
  case False
  then show ?thesis by (intro keepsRows_map [where f = id]) (auto simp: upsertRepo_def sameRepo_def)
qed

lemma upsertRepo_seen:
  assumes "isOurs t r"
  shows "isSeen t (upsertRepo now r ix) r"
proof (cases "list_ex (sameRepo r) (ix_repos ix)")
  case True
  then obtain old where "old \<in> set (ix_repos ix)" "sameRepo r old" by (auto simp: list_ex_iff)
  then have "overwriteRow r old \<in> set (ix_repos (upsertRepo now r ix))" using True by (auto simp: upsertRepo_def)
  moreover have "sameRepo r (overwriteRow r old)" using \<open>sameRepo r old\<close> by (simp add: overwriteRow_def sameRepo_def)
  ultimately show ?thesis using assms unfolding isSeen_def list_ex_iff by (intro bexI) (auto simp: isOurs_def overwriteRow_def)
next
  case False
  with assms show ?thesis by (simp add: isSeen_def upsertRepo_def isOurs_def sameRepo_def)
qed

lemma upsertAll_keeps: "list_all (isOurs t) rs \<Longrightarrow> keepsRows t ix (upsertAll now rs ix)"
  unfolding upsertAll_def by (induction rs arbitrary: ix) (auto intro: keepsRows_trans upsertRepo_keeps)

lemma upsertAll_seen:
  assumes "list_all (isOurs t) rs" and "r \<in> set rs"
  shows "isSeen t (upsertAll now rs ix) r"
  using assms
proof (induction rs arbitrary: ix)
  case (Cons a rs)
  have split: "upsertAll now (a # rs) ix = upsertAll now rs (upsertRepo now a ix)" by (simp add: upsertAll_def)
  show ?case
  proof (cases "r \<in> set rs")
    case False
    with Cons.prems have "isSeen t (upsertRepo now a ix) r" by (auto intro: upsertRepo_seen)
    then show ?thesis unfolding split using Cons.prems(1) by (auto intro: keepsRows_seen upsertAll_keeps)
  qed (use Cons split in simp)
qed simp

lemma touchReposUnder_keeps: "keepsRows t ix (snd (touchReposUnder i path (tk_generation t) ix))"
  by (intro keepsRows_map [where more' = "[]" and f = "\<lambda>r. if isUnder i path r then r\<lparr>re_lastSeenGeneration := tk_generation t\<rparr> else r"])
    (auto simp: touchReposUnder_def sameRepo_def)

section \<open>One worker's step\<close>

lemmas worker_defs = takeItem_def beginItem_def skipItem_def pruneItem_def examineItem_def swapPending_def commitBatch_def enumerate_def
  endItem_def enumerateEntry_def visitEntry_def closeItem_def Let_def

fun enumOk :: "'i ScanTask \<Rightarrow> 'i ScanWorker \<Rightarrow> bool" where
  "enumOk t (Enumerating item es childDirs children) = (children @ childrenOf t item es = plainChildren t item)"
| "enumOk t w = True"

definition foundRecords :: "'i ScanTask \<Rightarrow> RepoRecord set" where
  "foundRecords t = {scanRecord t now item | now item. isFound t item}"

lemma found_ours: "set rs \<subseteq> foundRecords t \<Longrightarrow> list_all (isOurs t) rs"
  by (auto simp: foundRecords_def list_all_iff)

lemma found_keeps: "set rs \<subseteq> foundRecords t \<Longrightarrow> keepsRows t ix (upsertAll now rs ix)"
  using upsertAll_keeps [OF found_ours] .

lemma found_seen: "set rs \<subseteq> foundRecords t \<Longrightarrow> r \<in> set rs \<Longrightarrow> isSeen t (upsertAll now rs ix) r"
  using upsertAll_seen [OF found_ours] .

lemma worker_frame:
  assumes "workerStep t now w s = (w', s')"
  shows "sn_workers s' = sn_workers s" and "sn_cancelled s' = sn_cancelled s" and "sn_failed s' = sn_failed s"
  using assms by (cases "(t, now, w, s)" rule: workerStep.cases; auto simp: worker_defs split: list.splits if_splits option.splits prod.splits)+

lemma worker_tree:
  assumes "workerStep t now w s = (w', s')" and "\<not> bf_followLinks (tk_folder t)" and "enumOk t w"
    and "set (sn_queue s) \<subseteq> inTree t" and "set (sn_done s) \<subseteq> inTree t" and "set (sn_pruned s) \<subseteq> inTree t"
    and "set (heldItem w) \<subseteq> inTree t" and "set (enteredItem w) \<subseteq> {item. entersItem t item}"
  shows "enumOk t w'" and "set (sn_queue s') \<subseteq> inTree t" and "set (sn_done s') \<subseteq> inTree t" and "set (sn_pruned s') \<subseteq> inTree t"
    and "set (heldItem w') \<subseteq> inTree t" and "set (enteredItem w') \<subseteq> {item. entersItem t item}"
proof -
  show "enumOk t w'" "set (sn_done s') \<subseteq> inTree t" "set (sn_pruned s') \<subseteq> inTree t"
    "set (heldItem w') \<subseteq> inTree t" "set (enteredItem w') \<subseteq> {item. entersItem t item}"
    using assms by (cases "(t, now, w, s)" rule: workerStep.cases;
      auto simp: worker_defs plainChildren_def childrenOf_def isPlainDir_def entersItem_def split: list.splits if_splits option.splits prod.splits)+
  show "set (sn_queue s') \<subseteq> inTree t"
  proof (cases "(t, now, w, s)" rule: workerStep.cases)
    case (7 t' now' item childDirs children s0)
    then have "set children = set (plainChildren t item)" "item \<in> inTree t" "entersItem t item"
      using assms(3,7,8) by (simp_all add: childrenOf_def split: if_splits)
    then have "set children \<subseteq> inTree t" by (auto intro: inTree.below)
    then show ?thesis using 7 assms(1,4) by (auto simp: endItem_def Let_def split: if_splits)
  qed (use assms in \<open>auto simp: worker_defs split: list.splits if_splits option.splits prod.splits\<close>)
qed

lemma worker_known:
  assumes "workerStep t now w s = (w', s')" and "\<not> sn_cancelled s"
  shows "set (sn_queue s) \<union> set (heldItem w) \<union> set (sn_done s) \<union> set (sn_pruned s) \<subseteq>
    set (sn_queue s') \<union> set (heldItem w') \<union> set (sn_done s') \<union> set (sn_pruned s')"
  using assms by (cases "(t, now, w, s)" rule: workerStep.cases;
    auto simp: worker_defs split: list.splits if_splits option.splits prod.splits)

lemma worker_records:
  assumes "workerStep t now w s = (w', s')" and "set (heldItem w) \<subseteq> inTree t" and "set (enteredItem w) \<subseteq> {item. entersItem t item}"
    and "set (sn_pending s) \<subseteq> foundRecords t" and "set (heldRecords w) \<subseteq> foundRecords t"
  shows "set (sn_pending s') \<subseteq> foundRecords t" and "set (heldRecords w') \<subseteq> foundRecords t"
    and "keepsRows t (sn_index s) (sn_index s')"
    and "r \<in> set (sn_pending s) \<union> set (heldRecords w) \<Longrightarrow> r \<in> set (sn_pending s') \<union> set (heldRecords w') \<or> isSeen t (sn_index s') r"
proof -
  show "set (sn_pending s') \<subseteq> foundRecords t" "set (heldRecords w') \<subseteq> foundRecords t"
    using assms by (cases "(t, now, w, s)" rule: workerStep.cases;
      auto simp: worker_defs foundRecords_def isFound_def isRepoItem_def split: list.splits if_splits option.splits prod.splits)+
  show "keepsRows t (sn_index s) (sn_index s')"
    using assms(1,5) by (cases "(t, now, w, s)" rule: workerStep.cases;
      auto simp: worker_defs touchReposUnder_keeps found_keeps split: list.splits if_splits option.splits prod.splits)
  show "r \<in> set (sn_pending s') \<union> set (heldRecords w') \<or> isSeen t (sn_index s') r" if "r \<in> set (sn_pending s) \<union> set (heldRecords w)"
    using assms(1,5) that by (cases "(t, now, w, s)" rule: workerStep.cases;
      auto simp: worker_defs found_seen split: list.splits if_splits option.splits prod.splits)
qed

lemma worker_done:
  assumes "workerStep t now w s = (w', s')" and "enumOk t w" and "item \<in> set (sn_done s')" and "item \<notin> set (sn_done s)" and "entersItem t item"
  shows "item \<in> set (recordedItem w)" and "set (plainChildren t item) \<subseteq> set (sn_queue s')"
  using assms by (cases "(t, now, w, s)" rule: workerStep.cases;
    auto simp: worker_defs entersItem_def childrenOf_def split: list.splits if_splits option.splits prod.splits)+

lemma worker_recorded:
  assumes "workerStep t now w s = (w', s')" and "item \<in> set (recordedItem w')" and "item \<notin> set (recordedItem w)" and "isRepoItem t item"
  shows "\<exists>now. scanRecord t now item \<in> set (sn_pending s')"
  using assms by (cases "(t, now, w, s)" rule: workerStep.cases;
    auto simp: worker_defs isRepoItem_def split: list.splits if_splits option.splits prod.splits)

end
