(* ===== verification/ScanProgress.thy ===== *)
theory ScanProgress
  imports ScanInvariants
begin

text \<open>
  What holds in every state a scan can reach, whatever its workers do in turn, and that its work comes to an end.
\<close>

section \<open>Rows that change\<close>

lemma upsertRepo_rows:
  assumes "isOurs t r" and "row \<in> set (ix_repos (upsertRepo now r ix))"
  shows "row \<in> set (ix_repos ix) \<or> re_lastSeenGeneration row = tk_generation t \<and> sameRepo r row"
  using assms by (auto simp: upsertRepo_def overwriteRow_def isOurs_def sameRepo_def split: if_splits)

lemma upsertAll_rows:
  assumes "list_all (isOurs t) rs" and "row \<in> set (ix_repos (upsertAll now rs ix))"
  shows "row \<in> set (ix_repos ix) \<or> re_lastSeenGeneration row = tk_generation t \<and> (\<exists>r \<in> set rs. sameRepo r row)"
  using assms
proof (induction rs arbitrary: ix)
  case (Cons a rs)
  have "upsertAll now (a # rs) ix = upsertAll now rs (upsertRepo now a ix)" by (simp add: upsertAll_def)
  with Cons.IH [of "upsertRepo now a ix"] Cons.prems have "row \<in> set (ix_repos (upsertRepo now a ix)) \<or>
      re_lastSeenGeneration row = tk_generation t \<and> (\<exists>r \<in> set rs. sameRepo r row)" by simp
  then show ?case using upsertRepo_rows [of t a row now ix] Cons.prems(1) by auto
qed (simp add: upsertAll_def)

lemma touchReposUnder_rows:
  assumes "row \<in> set (ix_repos (snd (touchReposUnder i path generation ix)))"
  shows "row \<in> set (ix_repos ix) \<or> re_lastSeenGeneration row = generation"
    and "isUnder i path row \<Longrightarrow> re_lastSeenGeneration row = generation"
proof -
  from assms obtain r where r: "r \<in> set (ix_repos ix)" and row: "row = (if isUnder i path r then r\<lparr>re_lastSeenGeneration := generation\<rparr> else r)"
    by (auto simp: touchReposUnder_def)
  have under: "isUnder i path (r\<lparr>re_lastSeenGeneration := generation\<rparr>) = isUnder i path r" by (simp add: isUnder_def)
  show "row \<in> set (ix_repos ix) \<or> re_lastSeenGeneration row = generation" using r row by simp
  show "re_lastSeenGeneration row = generation" if "isUnder i path row" using that under unfolding row by (simp split: if_splits)
qed

fun isTouching :: "'i ScanWorker \<Rightarrow> bool" where
  "isTouching (Touching item) = True"
| "isTouching w = False"

lemma worker_rows:
  assumes "workerStep t now w s = (w', s')" and "set (heldRecords w) \<subseteq> foundRecords t" and "row \<in> set (ix_repos (sn_index s'))"
  shows "row \<in> set (ix_repos (sn_index s)) \<or>
    re_lastSeenGeneration row = tk_generation t \<and> (isTouching w \<or> (\<exists>r \<in> foundRecords t. sameRepo r row))"
proof (cases "(t, now, w, s)" rule: workerStep.cases)
  case (3 t' now' item s0)
  then show ?thesis using assms touchReposUnder_rows(1) [of row "bf_id (tk_folder t)" "fst item" "tk_generation t" "sn_index s"]
    by (auto simp: pruneItem_def)
next
  case (6 t' now' item batch s0)
  then have "row \<in> set (ix_repos (upsertAll now batch (sn_index s)))" "set batch \<subseteq> foundRecords t" using assms by (auto simp: commitBatch_def)
  then show ?thesis using upsertAll_rows [OF found_ours, of batch t row now "sn_index s"] by blast
qed (use assms in \<open>auto simp: worker_defs split: list.splits if_splits option.splits prod.splits\<close>)

lemma worker_pruned:
  assumes "workerStep t now w s = (w', s')"
  shows "set (sn_pruned s') = set (sn_pruned s) \<or>
    (\<exists>item. w = Touching item \<and> set (sn_pruned s') = insert item (set (sn_pruned s)) \<and>
      sn_index s' = snd (touchReposUnder (bf_id (tk_folder t)) (fst item) (tk_generation t) (sn_index s)))"
  using assms by (cases "(t, now, w, s)" rule: workerStep.cases;
    auto simp: worker_defs split: list.splits if_splits option.splits prod.splits)

section \<open>Invariants\<close>

definition treeInv :: "'i ScanTask \<Rightarrow> 'i ScanState \<Rightarrow> bool" where
  "treeInv t s \<longleftrightarrow>
     set (sn_queue s) \<subseteq> inTree t \<and> set (sn_done s) \<subseteq> inTree t \<and> set (sn_pruned s) \<subseteq> inTree t \<and> parts heldItem (sn_workers s) \<subseteq> inTree t \<and>
     parts enteredItem (sn_workers s) \<subseteq> {item. entersItem t item} \<and> (\<forall>w \<in> set (sn_workers s). enumOk t w) \<and>
     set (sn_pending s) \<subseteq> foundRecords t \<and> parts heldRecords (sn_workers s) \<subseteq> foundRecords t"

definition countInv :: "'i ScanState \<Rightarrow> bool" where
  "countInv s \<longleftrightarrow> sn_activeWorkers s = length (filter isWorking (sn_workers s))"

definition isQuiet :: "'i ScanState \<Rightarrow> bool" where
  "isQuiet s \<longleftrightarrow> sn_failed s = None \<and> \<not> sn_cancelled s"

definition progressInv :: "'i ScanTask \<Rightarrow> 'i ScanState \<Rightarrow> bool" where
  "progressInv t s \<longleftrightarrow>
     (isQuiet s \<longrightarrow> baseItem t \<in> knownItems s \<and>
       (\<forall>item \<in> set (sn_done s). entersItem t item \<longrightarrow> set (plainChildren t item) \<subseteq> knownItems s \<and> (isRepoItem t item \<longrightarrow> isRecorded t s item)) \<and>
       (\<forall>item \<in> parts recordedItem (sn_workers s). isRepoItem t item \<longrightarrow> isRecorded t s item) \<and>
       Closing True \<notin> set (sn_workers s) \<and> (Left \<in> set (sn_workers s) \<longrightarrow> sn_queue s = [] \<and> sn_activeWorkers s = 0))"

definition rowsInv :: "'i ScanTask \<Rightarrow> RepoIndex \<Rightarrow> 'i ScanState \<Rightarrow> bool" where
  "rowsInv t ix s \<longleftrightarrow>
     keepsRows t ix (sn_index s) \<and>
     (\<forall>item \<in> set (sn_pruned s). \<forall>row \<in> set (ix_repos (sn_index s)).
        isUnder (bf_id (tk_folder t)) (fst item) row \<longrightarrow> re_lastSeenGeneration row = tk_generation t)"

definition fullInv :: "'i ScanTask \<Rightarrow> RepoIndex \<Rightarrow> 'i ScanState \<Rightarrow> bool" where
  "fullInv t ix s \<longleftrightarrow>
     (tk_mode t = FullScan \<longrightarrow> sn_pruned s = [] \<and> (\<forall>w \<in> set (sn_workers s). \<not> isTouching w) \<and>
       (\<forall>row \<in> set (ix_repos (sn_index s)). row \<in> set (ix_repos ix) \<or> (\<exists>r \<in> foundRecords t. sameRepo r row)))"

definition scanInv :: "'i ScanTask \<Rightarrow> RepoIndex \<Rightarrow> 'i ScanState \<Rightarrow> bool" where
  "scanInv t ix s \<longleftrightarrow> treeInv t s \<and> countInv s \<and> progressInv t s \<and> rowsInv t ix s \<and> fullInv t ix s"

lemma put_simps [simp]:
  "sn_queue (putWorker i w s) = sn_queue s" "sn_done (putWorker i w s) = sn_done s" "sn_pruned (putWorker i w s) = sn_pruned s"
  "sn_pending (putWorker i w s) = sn_pending s" "sn_index (putWorker i w s) = sn_index s" "sn_failed (putWorker i w s) = sn_failed s"
  "sn_cancelled (putWorker i w s) = sn_cancelled s" "sn_activeWorkers (putWorker i w s) = sn_activeWorkers s"
  "sn_workers (putWorker i w s) = (sn_workers s)[i := w]" "sn_found (putWorker i w s) = sn_found s"
  by (simp_all add: putWorker_def)

lemma part_here: "i < length ws \<Longrightarrow> set (f (ws ! i)) \<subseteq> parts f ws"
  by (auto simp: parts_def intro!: bexI [where x = "ws ! i"])

lemma parts_mono:
  assumes "parts f ws \<subseteq> A" and "set (f w) \<subseteq> A" and "i < length ws"
  shows "parts f (ws[i := w]) \<subseteq> A"
  using parts_update(3) [OF assms(3), of f w] assms(1,2) by blast

lemma ball_update: "\<forall>v \<in> set ws. P v \<Longrightarrow> P w \<Longrightarrow> \<forall>v \<in> set (ws[i := w]). P v"
  by (auto dest: set_update_subset_insert [THEN subsetD])

lemma treeInvD:
  assumes "treeInv t s"
  shows "set (sn_queue s) \<subseteq> inTree t" and "set (sn_done s) \<subseteq> inTree t" and "set (sn_pruned s) \<subseteq> inTree t"
    and "set (sn_pending s) \<subseteq> foundRecords t" and "parts heldItem (sn_workers s) \<subseteq> inTree t"
    and "parts enteredItem (sn_workers s) \<subseteq> {item. entersItem t item}" and "parts heldRecords (sn_workers s) \<subseteq> foundRecords t"
    and "\<forall>w \<in> set (sn_workers s). enumOk t w"
  using assms by (simp_all add: treeInv_def)

lemma treeInv_held:
  assumes "treeInv t s" and "i < length (sn_workers s)"
  shows "set (heldItem (sn_workers s ! i)) \<subseteq> inTree t" and "set (enteredItem (sn_workers s ! i)) \<subseteq> {item. entersItem t item}"
    and "set (heldRecords (sn_workers s ! i)) \<subseteq> foundRecords t" and "enumOk t (sn_workers s ! i)"
  using treeInvD(5-7) [OF assms(1)] part_here [OF assms(2)] treeInvD(8) [OF assms(1)] nth_mem [OF assms(2)]
  by (meson subset_trans)+

lemma treeInv_moves:
  assumes "treeInv t s" and "\<not> bf_followLinks (tk_folder t)" and "i < length (sn_workers s)" and "workerStep t now (sn_workers s ! i) s = (w, s')"
  shows "treeInv t (putWorker i w s')"
proof -
  note inv = treeInvD [OF assms(1)] and held = treeInv_held [OF assms(1,3)]
  note tree = worker_tree [OF assms(4,2) held(4) inv(1-3) held(1,2)]
  note recs = worker_records(1,2) [OF assms(4) held(1,2) inv(4) held(3)]
  show ?thesis unfolding treeInv_def put_simps worker_frame(1) [OF assms(4)]
    by (intro conjI parts_mono ball_update tree recs inv(5-8) assms(3))
qed

lemma count_update:
  "i < length xs \<Longrightarrow>
    length (filter P (xs[i := w])) + (if P (xs ! i) then 1 else 0) = length (filter P xs) + (if P w then 1 else 0)"
proof (induction xs arbitrary: i)
  case (Cons x xs)
  then show ?case by (cases i) auto
qed simp

lemma worker_count:
  assumes "workerStep t now w s = (w', s')" and "isWorking w \<longrightarrow> 0 < sn_activeWorkers s"
  shows "sn_activeWorkers s' + (if isWorking w then 1 else 0) = sn_activeWorkers s + (if isWorking w' then 1 else 0)"
  using assms by (cases "(t, now, w, s)" rule: workerStep.cases;
    auto simp: worker_defs split: list.splits if_splits option.splits prod.splits)

lemma working_counts: "countInv s \<Longrightarrow> w \<in> set (sn_workers s) \<Longrightarrow> isWorking w \<Longrightarrow> 0 < sn_activeWorkers s"
  by (auto simp: countInv_def filter_empty_conv)

lemma countInv_moves:
  assumes "countInv s" and "i < length (sn_workers s)" and "workerStep t now (sn_workers s ! i) s = (w, s')"
  shows "countInv (putWorker i w s')"
proof -
  have "isWorking (sn_workers s ! i) \<longrightarrow> 0 < sn_activeWorkers s" using working_counts [OF assms(1) nth_mem [OF assms(2)]] by blast
  from worker_count [OF assms(3) this] count_update [OF assms(2), of isWorking w] assms(1) worker_frame(1) [OF assms(3)]
  show ?thesis by (simp add: countInv_def)
qed

lemma countInv_stops:
  assumes "countInv s" and "i < length (sn_workers s)" and "isWorking (sn_workers s ! i)"
  shows "countInv (refuse i e s)" and "countInv (throwIn i e s)"
  using assms count_update [OF assms(2), of isWorking "Closing True"] count_update [OF assms(2), of isWorking Left]
  by (simp_all add: countInv_def refuse_def throwIn_def)

lemma known_moves:
  assumes "i < length (sn_workers s)" and "workerStep t now (sn_workers s ! i) s = (w, s')" and "\<not> sn_cancelled s"
  shows "knownItems s \<subseteq> knownItems (putWorker i w s')"
  using worker_known [OF assms(2,3)] parts_update(1,2) [OF assms(1), of heldItem w] worker_frame(1) [OF assms(2)]
  unfolding knownItems_def by simp blast

lemma recorded_moves:
  assumes "treeInv t s" and "i < length (sn_workers s)" and "workerStep t now (sn_workers s ! i) s = (w, s')" and "isRecorded t s item"
  shows "isRecorded t (putWorker i w s') item"
proof -
  let ?w = "sn_workers s ! i"
  note held = treeInv_held [OF assms(1,2)]
  note recs = worker_records(3,4) [OF assms(3) held(1,2) treeInvD(4) [OF assms(1)] held(3)]
  show ?thesis
  proof (cases "isSeen t (sn_index s) (scanRecord t 0 item)")
    case True
    then show ?thesis using keepsRows_seen [OF recs(1)] by (simp add: isRecorded_def)
  next
    case False
    with assms(4) obtain now' where r: "scanRecord t now' item \<in> waitingRecords s" by (auto simp: isRecorded_def)
    have seen: "isSeen t ix (scanRecord t now' item) = isSeen t ix (scanRecord t 0 item)" for ix
      by (simp add: isSeen_def sameRepo_now [of t now'])
    have parts: "waitingRecords s \<subseteq> set (sn_pending s) \<union> set (heldRecords ?w) \<union> parts heldRecords ((sn_workers s)[i := w])"
      using parts_update(1) [OF assms(2), of heldRecords w] by (auto simp: waitingRecords_def)
    have "set (sn_pending s') \<union> set (heldRecords w) \<union> parts heldRecords ((sn_workers s)[i := w]) = waitingRecords (putWorker i w s')"
      using parts_update(2) [OF assms(2), of heldRecords w] worker_frame(1) [OF assms(3)] by (auto simp: waitingRecords_def)
    with r parts recs(2) [of "scanRecord t now' item"] have "scanRecord t now' item \<in> waitingRecords (putWorker i w s') \<or>
        isSeen t (sn_index s') (scanRecord t now' item)" by blast
    then show ?thesis by (auto simp: isRecorded_def seen)
  qed
qed

lemma worker_quiet:
  assumes "workerStep t now w s = (w', s')" and "\<not> sn_cancelled s" and "w \<noteq> Closing True"
  shows "w' \<noteq> Closing True" and "w' = Left \<Longrightarrow> w = Left \<or> sn_queue s = [] \<and> sn_activeWorkers s = 0"
    and "w = Left \<or> sn_queue s = [] \<and> sn_activeWorkers s = 0 \<and> w = Seeking \<Longrightarrow> w' = Left \<and> s' = s"
    and "w' = Left \<Longrightarrow> s' = s"
  using assms by (cases "(t, now, w, s)" rule: workerStep.cases;
    auto simp: worker_defs split: list.splits if_splits option.splits prod.splits)+

lemma not_working: "\<not> isWorking w \<Longrightarrow> w = Left \<or> w = Seeking"
  by (cases w) simp_all

section \<open>Every step keeps them\<close>

text \<open>Once a worker has left a quiet scan, nothing is left to do for the others.\<close>

lemma left_stays:
  assumes "progressInv t s" and "countInv s" and "isQuiet s" and "i < length (sn_workers s)"
    and "workerStep t now (sn_workers s ! i) s = (w, s')" and "Left \<in> set ((sn_workers s)[i := w])"
  shows "s' = s" and "sn_queue s = []" and "sn_activeWorkers s = 0"
proof -
  have quiet: "\<not> sn_cancelled s" "Closing True \<notin> set (sn_workers s)" using assms(1,3) by (simp_all add: progressInv_def isQuiet_def)
  then have "sn_workers s ! i \<noteq> Closing True" using nth_mem [OF assms(4)] by metis
  note step = worker_quiet [OF assms(5) quiet(1) this]
  have "Left \<in> set (sn_workers s) \<or> w = Left" using assms(6) set_update_subset_insert [of "sn_workers s" i w] by auto
  then have "s' = s \<and> sn_queue s = [] \<and> sn_activeWorkers s = 0"
  proof
    assume "Left \<in> set (sn_workers s)"
    then have idle: "sn_queue s = [] \<and> sn_activeWorkers s = 0" using assms(1,3) by (simp add: progressInv_def)
    then have "\<not> isWorking (sn_workers s ! i)" using working_counts [OF assms(2) nth_mem [OF assms(4)]] by auto
    then show ?thesis using not_working [of "sn_workers s ! i"] idle step(3) by blast
  next
    assume w: "w = Left"
    have "sn_workers s ! i = Left \<Longrightarrow> sn_queue s = [] \<and> sn_activeWorkers s = 0"
      using assms(1,3) nth_mem [OF assms(4)] by (simp add: progressInv_def)
    with step(2,4) [OF w] show ?thesis by blast
  qed
  then show "s' = s" "sn_queue s = []" "sn_activeWorkers s = 0" by simp_all
qed

lemma progress_done:
  assumes "treeInv t s" and "progressInv t s" and "isQuiet s" and "i < length (sn_workers s)"
    and "workerStep t now (sn_workers s ! i) s = (w, s')" and "item \<in> set (sn_done s')" and "entersItem t item"
  shows "set (plainChildren t item) \<subseteq> knownItems (putWorker i w s')"
    and "isRepoItem t item \<Longrightarrow> isRecorded t (putWorker i w s') item"
proof -
  have quiet: "\<not> sn_cancelled s" using assms(3) by (simp add: isQuiet_def)
  note known = known_moves [OF assms(4,5) quiet]
  note kept = recorded_moves [OF assms(1,4,5)]
  have old: "set (plainChildren t item) \<subseteq> knownItems s \<and> (isRepoItem t item \<longrightarrow> isRecorded t s item)" if "item \<in> set (sn_done s)"
    using assms(2,3,7) that by (simp add: progressInv_def)
  have new: "item \<in> set (recordedItem (sn_workers s ! i))" "set (plainChildren t item) \<subseteq> set (sn_queue s')" if "item \<notin> set (sn_done s)"
    using worker_done [OF assms(5) treeInv_held(4) [OF assms(1,4)] assms(6) that assms(7)] by simp_all
  show "set (plainChildren t item) \<subseteq> knownItems (putWorker i w s')"
  proof (cases "item \<in> set (sn_done s)")
    case False
    from new(2) [OF this] show ?thesis by (auto simp: knownItems_def)
  qed (use old known in blast)
  show "isRecorded t (putWorker i w s') item" if "isRepoItem t item"
  proof (cases "item \<in> set (sn_done s)")
    case False
    from new(1) [OF this] part_here [OF assms(4), of recordedItem] have "item \<in> parts recordedItem (sn_workers s)" by blast
    then show ?thesis using assms(2,3) that kept by (simp add: progressInv_def)
  qed (use old that kept in blast)
qed

lemma progressInv_moves:
  assumes "treeInv t s" and "countInv s" and "progressInv t s" and "i < length (sn_workers s)" and "workerStep t now (sn_workers s ! i) s = (w, s')"
  shows "progressInv t (putWorker i w s')"
  unfolding progressInv_def
proof (intro impI conjI ballI)
  note frame = worker_frame [OF assms(5)]
  assume "isQuiet (putWorker i w s')"
  then have quiet: "isQuiet s" using frame by (simp add: isQuiet_def)
  then have running: "\<not> sn_cancelled s" by (simp add: isQuiet_def)
  note known = known_moves [OF assms(4,5) running] and kept = recorded_moves [OF assms(1,4,5)]
  show "baseItem t \<in> knownItems (putWorker i w s')" using assms(3) quiet known by (auto simp: progressInv_def)
  show "isRecorded t (putWorker i w s') item"
    if "item \<in> set (sn_done (putWorker i w s'))" "entersItem t item" "isRepoItem t item" for item
    using progress_done(2) [OF assms(1,3) quiet assms(4,5), of item] that by simp
  show "set (plainChildren t item) \<subseteq> knownItems (putWorker i w s')"
    if "item \<in> set (sn_done (putWorker i w s'))" "entersItem t item" for item
    using progress_done(1) [OF assms(1,3) quiet assms(4,5), of item] that by simp
  show "isRecorded t (putWorker i w s') item" if "item \<in> parts recordedItem (sn_workers (putWorker i w s'))" "isRepoItem t item" for item
  proof (cases "item \<in> parts recordedItem (sn_workers s)")
    case True
    then show ?thesis using assms(3) quiet that(2) kept by (simp add: progressInv_def)
  next
    case False
    then have "item \<in> set (recordedItem w)" "item \<notin> set (recordedItem (sn_workers s ! i))"
      using that(1) frame(1) parts_update(3) [OF assms(4), of recordedItem w] part_here [OF assms(4), of recordedItem] by auto
    then show ?thesis using worker_recorded [OF assms(5) _ _ that(2)] by (auto simp: isRecorded_def waitingRecords_def)
  qed
  have "sn_workers s ! i \<noteq> Closing True" using assms(3) quiet nth_mem [OF assms(4)] by (metis progressInv_def)
  from worker_quiet(1) [OF assms(5) running this] show "Closing True \<notin> set (sn_workers (putWorker i w s'))"
    using assms(3) quiet frame(1) set_update_subset_insert [of "sn_workers s" i w] by (auto simp: progressInv_def)
  show "sn_queue (putWorker i w s') = []" "sn_activeWorkers (putWorker i w s') = 0" if "Left \<in> set (sn_workers (putWorker i w s'))"
    using left_stays [OF assms(3,2) quiet assms(4,5)] that frame(1) by simp_all
qed

lemma rowsInv_moves:
  assumes "treeInv t s" and "rowsInv t ix s" and "i < length (sn_workers s)" and "workerStep t now (sn_workers s ! i) s = (w, s')"
  shows "rowsInv t ix (putWorker i w s')"
proof -
  let ?w = "sn_workers s ! i"
  note held = treeInv_held [OF assms(1,3)]
  have "keepsRows t ix (sn_index s')"
    using keepsRows_trans [OF _ worker_records(3) [OF assms(4) held(1,2) treeInvD(4) [OF assms(1)] held(3)]] assms(2) by (simp add: rowsInv_def)
  moreover have "re_lastSeenGeneration row = tk_generation t"
    if item: "item \<in> set (sn_pruned s')" and row: "row \<in> set (ix_repos (sn_index s'))" "isUnder (bf_id (tk_folder t)) (fst item) row" for item row
  proof (cases "item \<in> set (sn_pruned s)")
    case True
    with worker_rows [OF assms(4) held(3) row(1)] assms(2) row(2) show ?thesis by (auto simp: rowsInv_def)
  next
    case False
    with worker_pruned [OF assms(4)] item have
      "sn_index s' = snd (touchReposUnder (bf_id (tk_folder t)) (fst item) (tk_generation t) (sn_index s))" by auto
    with touchReposUnder_rows(2) [of row _ _ _ "sn_index s"] row show ?thesis by metis
  qed
  ultimately show ?thesis by (auto simp: rowsInv_def)
qed

lemma worker_touching:
  assumes "workerStep t now w s = (w', s')" and "tk_mode t = FullScan"
  shows "\<not> isTouching w'"
  using assms by (cases "(t, now, w, s)" rule: workerStep.cases;
    auto simp: worker_defs isUnchanged_def split: list.splits if_splits option.splits prod.splits)

lemma fullInv_moves:
  assumes "treeInv t s" and "fullInv t ix s" and "i < length (sn_workers s)" and "workerStep t now (sn_workers s ! i) s = (w, s')"
  shows "fullInv t ix (putWorker i w s')"
  unfolding fullInv_def put_simps
proof (intro impI conjI)
  note held = treeInv_held [OF assms(1,3)]
  assume mode: "tk_mode t = FullScan"
  with assms(2) have inv: "sn_pruned s = []" "\<forall>w \<in> set (sn_workers s). \<not> isTouching w"
    "\<forall>row \<in> set (ix_repos (sn_index s)). row \<in> set (ix_repos ix) \<or> (\<exists>r \<in> foundRecords t. sameRepo r row)"
    by (simp_all add: fullInv_def)
  have still: "\<not> isTouching (sn_workers s ! i)" using inv(2) nth_mem [OF assms(3)] by blast
  then show "sn_pruned s' = []" using worker_pruned [OF assms(4)] inv(1) by auto
  show "\<forall>w \<in> set ((sn_workers s')[i := w]). \<not> isTouching w"
    using worker_frame(1) [OF assms(4)] ball_update [OF inv(2)] worker_touching [OF assms(4) mode] by simp
  show "\<forall>row \<in> set (ix_repos (sn_index s')). row \<in> set (ix_repos ix) \<or> (\<exists>r \<in> foundRecords t. sameRepo r row)"
    using worker_rows [OF assms(4) held(3)] still inv(3) by blast
qed

text \<open>A refusal or an exception only makes a worker stop, and a cancellation only stops it later.\<close>

lemma scanInv_stopped:
  assumes "scanInv t ix s" and "i < length (sn_workers s)" and "w = Closing True \<or> w = Left" and "sn_failed s' \<noteq> None"
    and "sn_workers s' = (sn_workers s)[i := w]" and "countInv s'" and "sn_queue s' = sn_queue s" and "sn_done s' = sn_done s"
    and "sn_pruned s' = sn_pruned s" and "sn_pending s' = sn_pending s" and "sn_index s' = sn_index s"
  shows "scanInv t ix s'"
proof -
  have holds_none: "heldItem w = []" "enteredItem w = []" "heldRecords w = []" "enumOk t w" "\<not> isTouching w" using assms(3) by auto
  have "treeInv t s" using assms(1) by (simp add: scanInv_def)
  note tree = treeInvD [OF this]
  have "parts heldItem ((sn_workers s)[i := w]) \<subseteq> inTree t" "parts enteredItem ((sn_workers s)[i := w]) \<subseteq> {item. entersItem t item}"
    "parts heldRecords ((sn_workers s)[i := w]) \<subseteq> foundRecords t"
    using tree(5-7) holds_none(1-3) by (intro parts_mono [OF _ _ assms(2)]; simp)+
  then have "treeInv t s'" unfolding treeInv_def assms(5,7-10) using tree(1-4) ball_update [OF tree(8) holds_none(4)] by blast
  moreover have "rowsInv t ix s'" using assms(1) by (simp add: scanInv_def rowsInv_def assms(9,11))
  moreover have "fullInv t ix s'"
    using assms(1) ball_update [of "sn_workers s" "\<lambda>w. \<not> isTouching w" w i] holds_none(5) by (simp add: scanInv_def fullInv_def assms(5,9,11))
  moreover have "\<not> isQuiet s'" using assms(4) by (simp add: isQuiet_def)
  then have "progressInv t s'" by (simp add: progressInv_def)
  ultimately show ?thesis using assms(6) by (simp add: scanInv_def)
qed

lemma scanInv_cancelled: "scanInv t ix s \<Longrightarrow> scanInv t ix (s\<lparr>sn_cancelled := True\<rparr>)"
  by (simp add: scanInv_def treeInv_def countInv_def progressInv_def rowsInv_def fullInv_def isQuiet_def)

lemma asks_working: "asksIndex w \<Longrightarrow> isWorking w"
  by (cases w) simp_all

lemma scanInv_step:
  assumes "scanInv t ix s" and "\<not> bf_followLinks (tk_folder t)" and "scanStep t s s'"
  shows "scanInv t ix s'"
  using assms(3)
proof cases
  case (moves i now)
  obtain w s1 where step: "workerStep t now (sn_workers s ! i) s = (w, s1)" by fastforce
  have inv: "treeInv t s" "countInv s" "progressInv t s" "rowsInv t ix s" "fullInv t ix s" using assms(1) by (simp_all add: scanInv_def)
  show ?thesis unfolding moves(1) workerMoves_def step prod.case scanInv_def
    using treeInv_moves [OF inv(1) assms(2) moves(2) step] countInv_moves [OF inv(2) moves(2) step] progressInv_moves [OF inv(1-3) moves(2) step]
      rowsInv_moves [OF inv(1,4) moves(2) step] fullInv_moves [OF inv(1,5) moves(2) step] by blast
next
  case (refused i e)
  have "countInv s" using assms(1) by (simp add: scanInv_def)
  from countInv_stops(1) [OF this refused(2) asks_working [OF refused(3)]]
  show ?thesis unfolding refused(1) by (intro scanInv_stopped [OF assms(1) refused(2), of "Closing True"]) (simp_all add: refuse_def)
next
  case (thrown i e)
  have "countInv s" using assms(1) by (simp add: scanInv_def)
  from countInv_stops(2) [OF this thrown(2,3)]
  show ?thesis unfolding thrown(1) by (intro scanInv_stopped [OF assms(1) thrown(2), of Left]) (simp_all add: throwIn_def)
qed (use scanInv_cancelled [OF assms(1)] in simp)

lemma scanInv_init: "scanInv t ix (scanInit t n ix c)"
  by (simp add: scanInv_def treeInv_def countInv_def progressInv_def rowsInv_def fullInv_def scanInit_def baseItem_def [symmetric] inTree.base
      knownItems_def)

definition starts :: "'i ScanTask \<Rightarrow> nat \<Rightarrow> RepoIndex \<Rightarrow> 'i ScanState \<Rightarrow> bool" where
  "starts t n ix s \<longleftrightarrow> (\<exists>c. s = scanInit t n ix c)"

interpretation scanning: state_machine "starts t n ix" "scanStep t" "\<lambda>s. \<not> bf_followLinks (tk_folder t) \<longrightarrow> scanInv t ix s" for t n ix
  by unfold_locales (auto simp: starts_def scanInv_init intro: scanInv_step)

lemma countInv_step:
  assumes "countInv s" and "scanStep t s s'"
  shows "countInv s'"
  using assms(2)
proof cases
  case (moves i now)
  then show ?thesis using countInv_moves [OF assms(1) moves(2)] by (simp add: workerMoves_def split: prod.split)
next
  case (refused i e)
  then show ?thesis using countInv_stops(1) [OF assms(1)] asks_working by blast
next
  case (thrown i e)
  then show ?thesis using countInv_stops(2) [OF assms(1)] by blast
qed (use assms(1) in \<open>simp add: countInv_def\<close>)

lemma countInv_init: "starts t n ix s \<Longrightarrow> countInv s"
  by (auto simp: starts_def countInv_def scanInit_def)

interpretation counting: state_machine "starts t n ix" "scanStep t" countInv for t n ix
  by unfold_locales (fact countInv_init, fact countInv_step)

section \<open>The work that is left\<close>

text \<open>
  How much there is to do below a path, as deep as the scan goes; a worker has done something when the sum over the
  queue and the workers has gone down.
\<close>

fun belowWork :: "'i ScanTask \<Rightarrow> nat \<Rightarrow> string \<Rightarrow> nat" where
  "belowWork t 0 path = 0"
| "belowWork t (Suc n) path =
     sum_list (map (\<lambda>e. 9 + belowWork t n (path_join path (de_entryName e))) (fst (dk_list (tk_disk t) path)))"

definition depthLeft :: "'i ScanTask \<Rightarrow> int \<Rightarrow> nat" where
  "depthLeft t d = nat (bf_maxDepth (tk_folder t) - d + 1)"

definition itemWork :: "'i ScanTask \<Rightarrow> WorkItem \<Rightarrow> nat" where
  "itemWork t item = 8 + belowWork t (depthLeft t (snd item)) (fst item)"

definition itemsWork :: "'i ScanTask \<Rightarrow> WorkItem list \<Rightarrow> nat" where
  "itemsWork t items = sum_list (map (itemWork t) items)"

definition entriesWork :: "'i ScanTask \<Rightarrow> WorkItem \<Rightarrow> 'i DirEntry list \<Rightarrow> nat" where
  "entriesWork t item es = sum_list (map (\<lambda>e. 1 + itemWork t (childItem item e)) es)"

definition allWork :: "'i ScanTask \<Rightarrow> WorkItem \<Rightarrow> nat" where
  "allWork t item = entriesWork t item (fst (dk_list (tk_disk t) (fst item)))"

fun workerWork :: "'i ScanTask \<Rightarrow> 'i ScanWorker \<Rightarrow> nat" where
  "workerWork t Seeking = 1"
| "workerWork t (Taken item) = itemWork t item - 1"
| "workerWork t (Touching item) = 3"
| "workerWork t (Examining item) = 6 + allWork t item"
| "workerWork t (Swapping item) = 5 + allWork t item"
| "workerWork t (Committing item batch) = 4 + allWork t item"
| "workerWork t (Enumerating item es childDirs children) = 3 + entriesWork t item es + itemsWork t children"
| "workerWork t (Closing leaves) = 2"
| "workerWork t Left = 0"

definition scanWork :: "'i ScanTask \<Rightarrow> 'i ScanState \<Rightarrow> nat" where
  "scanWork t s = itemsWork t (sn_queue s) + sum_list (map (workerWork t) (sn_workers s)) + (if sn_cancelled s then 0 else 1)"

lemma belowWork_all: "\<not> isPastDepth t item \<Longrightarrow> itemWork t item = 8 + allWork t item"
proof -
  assume "\<not> isPastDepth t item"
  then have "depthLeft t (snd item) = Suc (depthLeft t (snd item + 1))" by (simp add: isPastDepth_def depthLeft_def nat_add_distrib)
  then show ?thesis by (simp add: itemWork_def allWork_def entriesWork_def childItem_def)
qed

lemma worker_work:
  assumes "workerStep t now w s = (w', s')" and "w \<noteq> Left" and "\<not> (w = Seeking \<and> sn_queue s = [] \<and> sn_activeWorkers s \<noteq> 0)"
  shows "itemsWork t (sn_queue s') + workerWork t w' < itemsWork t (sn_queue s) + workerWork t w"
proof (cases "(t, now, w, s)" rule: workerStep.cases)
  case (2 t' now' item s0)
  have "belowWork t (depthLeft t (snd item)) (fst item) = allWork t item" if "\<not> isPastDepth t item"
    using belowWork_all [OF that] by (simp add: itemWork_def)
  with 2 assms(1) show ?thesis by (auto simp: beginItem_def skipItem_def itemWork_def split: if_splits)
qed (use assms in \<open>auto simp: worker_defs itemsWork_def entriesWork_def allWork_def itemWork_def
      split: list.splits if_splits option.splits prod.splits\<close>)

lemma sum_list_put:
  "i < length ws \<Longrightarrow> sum_list (map f (ws[i := w])) + f (ws ! i) = sum_list (map f ws) + (f w :: nat)"
proof (induction ws arbitrary: i)
  case (Cons x xs)
  then show ?case by (cases i) auto
qed simp

lemma scanWork_put:
  assumes "i < length (sn_workers s)" and "sn_workers s' = sn_workers s" and "sn_cancelled s' = sn_cancelled s"
    and "itemsWork t (sn_queue s') + workerWork t w < itemsWork t (sn_queue s) + workerWork t (sn_workers s ! i)"
  shows "scanWork t (putWorker i w s') < scanWork t s"
  using assms(4) sum_list_put [OF assms(1), of "workerWork t" w] by (simp add: scanWork_def assms(2,3))

lemma workerMoves_work:
  assumes "i < length (sn_workers s)" and "sn_workers s ! i \<noteq> Left"
    and "\<not> (sn_workers s ! i = Seeking \<and> sn_queue s = [] \<and> sn_activeWorkers s \<noteq> 0)"
  shows "scanWork t (workerMoves t now i s) < scanWork t s"
proof -
  obtain w s' where step: "workerStep t now (sn_workers s ! i) s = (w, s')" by fastforce
  show ?thesis unfolding workerMoves_def step prod.case
    by (rule scanWork_put [OF assms(1) worker_frame(1,2) [OF step] worker_work [OF step assms(2,3)]])
qed

lemma put_same: "w = sn_workers s ! i \<Longrightarrow> putWorker i w s = s"
  by (simp add: putWorker_def)

lemma workerMoves_same:
  assumes "sn_workers s ! i = Left \<or> sn_workers s ! i = Seeking \<and> sn_queue s = [] \<and> sn_activeWorkers s \<noteq> 0"
  shows "workerMoves t now i s = s"
  using assms by (auto simp: workerMoves_def takeItem_def put_same)

lemma stops_work:
  assumes "i < length (sn_workers s)" and "isWorking (sn_workers s ! i)"
  shows "scanWork t (throwIn i e s) < scanWork t s" and "asksIndex (sn_workers s ! i) \<Longrightarrow> scanWork t (refuse i e s) < scanWork t s"
proof -
  have "0 < workerWork t (sn_workers s ! i)" using assms(2) by (cases "sn_workers s ! i") (simp_all add: itemWork_def)
  then show "scanWork t (throwIn i e s) < scanWork t s" unfolding throwIn_def by (intro scanWork_put [OF assms(1)]) simp_all
  assume "asksIndex (sn_workers s ! i)"
  then have "2 < workerWork t (sn_workers s ! i)" by (cases "sn_workers s ! i") simp_all
  then show "scanWork t (refuse i e s) < scanWork t s" unfolding refuse_def by (intro scanWork_put [OF assms(1)]) simp_all
qed

lemma scanStep_work:
  assumes "scanStep t s s'"
  shows "s' = s \<or> scanWork t s' < scanWork t s"
  using assms
proof cases
  case (moves i now)
  then show ?thesis using workerMoves_work [OF moves(2), of t now] workerMoves_same [of s i t now] by blast
next
  case (refused i e)
  then show ?thesis using stops_work(2) asks_working by blast
next
  case (thrown i e)
  then show ?thesis using stops_work(1) by blast
next
  case cancels
  then show ?thesis by (cases "sn_cancelled s") (simp_all add: scanWork_def)
qed

lemma some_worker_works:
  assumes "countInv s" and "w \<in> set (sn_workers s)" and "w \<noteq> Left"
  shows "\<exists>i < length (sn_workers s). scanWork t (workerMoves t now i s) < scanWork t s"
proof -
  obtain v where v: "v \<in> set (sn_workers s)" "v \<noteq> Left" "\<not> (v = Seeking \<and> sn_queue s = [] \<and> sn_activeWorkers s \<noteq> 0)"
  proof (cases "\<exists>v \<in> set (sn_workers s). isWorking v")
    case False
    then have "sn_activeWorkers s = 0" using assms(1) by (simp add: countInv_def filter_empty_conv)
    with assms(2,3) that show ?thesis by blast
  qed (use that in force)
  then show ?thesis by (metis in_set_conv_nth workerMoves_work)
qed

end
