(* ===== verification/ScanPromises.thy ===== *)
theory ScanPromises
  imports ScanProgress
begin

text \<open>
  What the scanner promises: a full scan finds exactly the repositories of the tree, a repository that is still there is
  not given up, a cancelled scan gives up none, and every scan ends; and what an incremental scan cannot see.
\<close>

section \<open>When all workers have left\<close>

lemma path_join_below: "\<exists>rest. path_join a b = a @ rest"
  by (simp add: path_join_def)

lemma plainChildren_below: "c \<in> set (plainChildren t item) \<Longrightarrow> \<exists>rest. fst c = fst item @ rest"
  by (auto simp: plainChildren_def childrenOf_def childItem_def path_join_below split: if_splits)

text \<open>Every directory of the tree was dealt with, or stands below one that was passed over.\<close>

lemma tree_covered:
  assumes "progressInv t s" and "isQuiet s" and "\<forall>w \<in> set (sn_workers s). w = Left" and "sn_workers s \<noteq> []" and "item \<in> inTree t"
  shows "item \<in> set (sn_done s) \<or> (\<exists>p \<in> set (sn_pruned s). \<exists>rest. fst item = fst p @ rest)"
proof -
  have "Left \<in> set (sn_workers s)" using assms(3,4) by (cases "sn_workers s") auto
  then have empty: "sn_queue s = []" using assms(1,2) by (simp add: progressInv_def)
  have "parts heldItem (sn_workers s) = {}" using assms(3) by (auto simp: parts_def)
  then have known: "knownItems s = set (sn_done s) \<union> set (sn_pruned s)" using empty by (simp add: knownItems_def)
  have cover: "x \<in> set (sn_done s) \<or> (\<exists>p \<in> set (sn_pruned s). \<exists>rest. fst x = fst p @ rest)" if "x \<in> knownItems s" for x
    using that unfolding known by (metis Un_iff append_Nil2)
  show ?thesis
    using assms(5)
  proof induction
    case base
    then show ?case using assms(1,2) by (intro cover) (simp add: progressInv_def)
  next
    case (below item c)
    show ?case
    proof (cases "item \<in> set (sn_done s)")
      case True
      then have "c \<in> knownItems s" using below.hyps assms(1,2) by (auto simp: progressInv_def)
      then show ?thesis by (rule cover)
    next
      case False
      then obtain p rest where "p \<in> set (sn_pruned s)" "fst item = fst p @ rest" using below.IH by blast
      then show ?thesis using plainChildren_below [OF below.hyps(3)] by (metis append_assoc)
    qed
  qed
qed

lemma all_left_records:
  assumes "\<forall>w \<in> set (sn_workers s). w = Left" and "isRecorded t s item" and "treeInv t s"
  shows "isSeen t (upsertAll now (sn_pending s) (sn_index s)) (scanRecord t 0 item)"
proof -
  have "parts heldRecords (sn_workers s) = {}" using assms(1) by (auto simp: parts_def)
  then have waiting: "waitingRecords s = set (sn_pending s)" by (simp add: waitingRecords_def)
  note found = treeInvD(4) [OF assms(3)]
  show ?thesis
  proof (cases "isSeen t (sn_index s) (scanRecord t 0 item)")
    case True
    then show ?thesis using keepsRows_seen found_keeps [OF found] by blast
  next
    case False
    with assms(2) waiting obtain now' where "scanRecord t now' item \<in> set (sn_pending s)" by (auto simp: isRecorded_def)
    from found_seen [OF found this] show ?thesis by (simp add: isSeen_def sameRepo_now [of t now'])
  qed
qed

section \<open>After the workers\<close>

declare saveSignatures.simps [simp del]

lemma saveSignatures_repos: "saveSignatures answer chunk sigs ix = (r, ix') \<Longrightarrow> ix_repos ix' = ix_repos ix"
proof (induction answer chunk sigs ix arbitrary: r ix' rule: saveSignatures.induct)
  case (1 answer chunk sigs ix)
  have step: "ix_repos (foldl (\<lambda>ix s. saveDirSignature s ix) ix ss) = ix_repos ix" for ss ix
    by (induction ss arbitrary: ix) (simp_all add: saveDirSignature_def)
  show ?case
  proof (cases "sigs = []")
    case False
    show ?thesis
    proof (cases "answer (SignatureCall chunk)")
      case None
      have "saveSignatures answer (chunk + 1) (drop kSignatureChunkSize sigs) (foldl (\<lambda>ix s. saveDirSignature s ix) ix (take kSignatureChunkSize sigs)) = (r, ix')"
        using "1.prems" False None by (simp add: saveSignatures.simps [of answer chunk sigs])
      from "1.IH" [OF False None this] step show ?thesis by simp
    qed (use "1.prems" False in \<open>simp add: saveSignatures.simps [of answer chunk sigs]\<close>)
  qed (use "1.prems" in \<open>simp add: saveSignatures.simps [of answer chunk "[]"]\<close>)
qed

lemma upsertAll_Nil [simp]: "upsertAll now [] ix = ix"
  by (simp add: upsertAll_def)

definition swept :: "'i ScanTask \<Rightarrow> int \<Rightarrow> RepoRecord \<Rightarrow> RepoRecord" where
  "swept t now r = (if isOutdated (bf_id (tk_folder t)) (tk_generation t) r then r\<lparr>re_missingSince := Some now\<rparr> else r)"

lemma sweepMissing_rows:
  assumes "sweepMissing t answer now elapsed s ix = (Inr result, ix')"
  shows "sr_cancelled result = sn_cancelled s" and "ix_repos ix' = map (swept t now) (ix_repos ix)"
  using assms by (auto simp: sweepMissing_def markMissing_def finishScan_def updateFolder_def scanResult_def swept_def split: option.splits)

lemma scanEnd_rows:
  assumes "scanEnd t answer now elapsed late s = (Inr result, ix')"
  shows "sn_failed s = None"
    and "sr_cancelled result \<Longrightarrow> ix_repos ix' = ix_repos (upsertAll now (sn_pending s) (sn_index s))"
    and "\<not> sr_cancelled result \<Longrightarrow> isQuiet s \<and> ix_repos ix' = map (swept t now) (ix_repos (upsertAll now (sn_pending s) (sn_index s)))"
proof -
  show failed: "sn_failed s = None" using assms by (simp add: scanEnd_def split: option.splits)
  obtain ix1 where flush: "flushRest answer now s = (None, ix1)" using assms failed by (auto simp: scanEnd_def split: prod.splits option.splits)
  then have ix1: "ix1 = upsertAll now (sn_pending s) (sn_index s)" by (auto simp: flushRest_def split: if_splits option.splits)
  obtain ix2 where saved: "(if sn_cancelled s then (None, ix1) else saveSignatures answer 0 (sn_signatures s) ix1) = (None, ix2)"
    using assms failed flush by (auto simp: scanEnd_def split: prod.splits option.splits)
  then have ix2: "ix_repos ix2 = ix_repos ix1" using saveSignatures_repos by (auto split: if_splits)
  have rest: "(if sn_cancelled s \<or> late then (Inr (scanResult (s\<lparr>sn_cancelled := True\<rparr>) 0 elapsed), ix2) else sweepMissing t answer now elapsed s ix2) =
      (Inr result, ix')" using assms failed flush saved by (simp add: scanEnd_def)
  then show "ix_repos ix' = ix_repos (upsertAll now (sn_pending s) (sn_index s))" if "sr_cancelled result"
    using that sweepMissing_rows(1) [of t answer now elapsed s ix2 result ix'] ix1 ix2 by (auto split: if_splits)
  show "isQuiet s \<and> ix_repos ix' = map (swept t now) (ix_repos (upsertAll now (sn_pending s) (sn_index s)))" if "\<not> sr_cancelled result"
    using that rest sweepMissing_rows [of t answer now elapsed s ix2 result ix'] ix1 ix2 failed
    by (auto simp: isQuiet_def scanResult_def split: if_splits)
qed

lemma scanEnd_found: "scanEnd t answer now elapsed late s = (Inr result, ix') \<Longrightarrow> sr_reposFound result = sn_found s"
  by (auto simp: scanEnd_def sweepMissing_def markMissing_def scanResult_def split: option.splits prod.splits if_splits)

lemma swept_same: "sameRepo r (swept t now r)" and swept_base: "re_baseFolderId (swept t now r) = re_baseFolderId r"
  by (simp_all add: swept_def sameRepo_def)

lemma swept_missing: "re_missingSince (swept t now r) = None \<longleftrightarrow> re_missingSince r = None \<and> \<not> isOutdated (bf_id (tk_folder t)) (tk_generation t) r"
  by (simp add: swept_def)

lemma seen_survives:
  assumes "isSeen t ix r"
  shows "\<exists>row \<in> set (map (swept t now) (ix_repos ix)). sameRepo r row \<and> re_baseFolderId row = bf_id (tk_folder t) \<and> re_missingSince row = None"
proof -
  obtain row where row: "row \<in> set (ix_repos ix)" "sameRepo r row" "re_baseFolderId row = bf_id (tk_folder t)"
    "re_lastSeenGeneration row = tk_generation t" "re_missingSince row = None" using assms by (auto simp: isSeen_def list_ex_iff)
  then have "sameRepo r (swept t now row) \<and> re_baseFolderId (swept t now row) = bf_id (tk_folder t) \<and> re_missingSince (swept t now row) = None"
    using sameRepo_trans [OF _ swept_same] by (auto simp: swept_base swept_missing isOutdated_def)
  with row(1) show ?thesis by auto
qed

section \<open>A row below a directory that was passed over\<close>

lemma like_escaped: "like (escapeLike p @ ''%'') (p @ rest)"
proof (induction p)
  case Nil
  have "list_ex (like []) (tailsOf rest)" by (induction rest) simp_all
  then show ?case by (simp add: escapeLike_def)
next
  case (Cons c p)
  have "escapeLike (c # p) = (if c = CHR ''%'' \<or> c = CHR ''_'' \<or> c = backslash then [backslash, c] else [c]) @ escapeLike p"
    by (simp add: escapeLike_def)
  with Cons.IH show ?case by (simp add: sameLetter_def)
qed

lemma repo_at_path:
  assumes "isRepoItem t item"
  shows "re_workDir (scanRecord t now item) = fst item \<or> re_gitDir (scanRecord t now item) = fst item"
  using assms
  by (auto simp: isRepoItem_def isRepo_def classify_def classifyDotGitFile_def not_a_repo_def scanRecord_def repo_paths_def Let_def
      split: if_splits option.splits)

lemma below_is_under:
  assumes "isRepoItem t item" and "fst item = p @ rest" and "sameRepo (scanRecord t 0 item) r" and "re_baseFolderId r = i"
  shows "isUnder i p r"
  using repo_at_path [OF assms(1), of 0] assms(2-4) like_escaped [of p rest] by (auto simp: isUnder_def sameRepo_def)

section \<open>A whole scan\<close>

text \<open>The generations of rows are behind those of their folders, and folders have different ids.\<close>

definition index_ok :: "RepoIndex \<Rightarrow> bool" where
  "index_ok ix \<longleftrightarrow>
     distinct (map bf_id (ix_folders ix)) \<and>
     (\<forall>r \<in> set (ix_repos ix). \<forall>b \<in> set (ix_folders ix). bf_id b = re_baseFolderId r \<longrightarrow> re_lastSeenGeneration r \<le> bf_generation b)"

text \<open>A state in which a scan of an index by \<open>n\<close> workers is over.\<close>

definition scannedBy :: "'i ScanTask \<Rightarrow> int \<Rightarrow> nat \<Rightarrow> RepoIndex \<Rightarrow> 'i ScanState \<Rightarrow> bool" where
  "scannedBy t before n ix s \<longleftrightarrow>
     (\<exists>ix1. scanStart (tk_disk t) (tk_folder t) (tk_mode t) before ix = (Inr (tk_generation t), ix1) \<and> reachable (starts t n ix1) (scanStep t) s) \<and>
     (\<forall>w \<in> set (sn_workers s). w = Left)"

lemma scanStart_rows:
  assumes "scanStart disk folder mode before ix = (Inr generation, ix1)"
  shows "ix_repos ix1 = ix_repos ix" and "mode = Incremental \<Longrightarrow> ix_sigs ix1 = ix_sigs ix"
    and "\<exists>b \<in> set (ix_folders ix). bf_id b = bf_id folder \<and> generation = bf_generation b + 1"
proof -
  show "ix_repos ix1 = ix_repos ix" "mode = Incremental \<Longrightarrow> ix_sigs ix1 = ix_sigs ix"
    using assms by (auto simp: scanStart_def beginScan_def updateFolder_def clearDirSignatures_def Let_def split: if_splits option.splits)
  show "\<exists>b \<in> set (ix_folders ix). bf_id b = bf_id folder \<and> generation = bf_generation b + 1"
    using assms by (auto simp: scanStart_def beginScan_def updateFolder_def Let_def find_Some_iff split: if_splits option.splits)
qed

lemma scanStart_behind:
  assumes "scanStart disk folder mode before ix = (Inr generation, ix1)" and "index_ok ix" and "r \<in> set (ix_repos ix1)"
    and "re_baseFolderId r = bf_id folder"
  shows "re_lastSeenGeneration r < generation"
proof -
  obtain b where "b \<in> set (ix_folders ix)" "bf_id b = bf_id folder" "generation = bf_generation b + 1" using scanStart_rows(3) [OF assms(1)] by blast
  with assms(2-4) scanStart_rows(1) [OF assms(1)] show ?thesis by (fastforce simp: index_ok_def)
qed

lemma workers_length: "reachable (starts t n ix) (scanStep t) s \<Longrightarrow> length (sn_workers s) = n"
proof (induction rule: reachable.induct)
  case (reach_step s s')
  from reach_step(2,3) show ?case
  proof cases
    case (moves i now)
    obtain w s1 where step: "workerStep t now (sn_workers s ! i) s = (w, s1)" by fastforce
    show ?thesis using reach_step(3) worker_frame(1) [OF step] by (simp add: moves(1) workerMoves_def step)
  qed (simp_all add: refuse_def throwIn_def)
qed (auto simp: starts_def scanInit_def)

lemma workerCountFor_pos: "0 < workerCountFor net hardware"
  by (simp add: workerCountFor_def Let_def)

lemma scannedBy_inv:
  assumes "scannedBy t before n ix s" and "\<not> bf_followLinks (tk_folder t)"
  obtains ix1 where "scanStart (tk_disk t) (tk_folder t) (tk_mode t) before ix = (Inr (tk_generation t), ix1)"
    and "scanInv t ix1 s" and "length (sn_workers s) = n"
  using assms scanning.reachable_inv workers_length unfolding scannedBy_def by blast

text \<open>What a quiet scan has found is in the index, or stands below a directory whose rows were touched.\<close>

lemma found_is_seen:
  assumes "scanInv t ix1 s" and "isQuiet s" and "\<forall>w \<in> set (sn_workers s). w = Left" and "sn_workers s \<noteq> []" and "isFound t item"
  shows "isSeen t (upsertAll now (sn_pending s) (sn_index s)) (scanRecord t 0 item) \<or>
    (\<exists>p \<in> set (sn_pruned s). \<exists>rest. fst item = fst p @ rest)"
proof -
  have inv: "treeInv t s" "progressInv t s" using assms(1) by (simp_all add: scanInv_def)
  have item: "item \<in> inTree t" "entersItem t item" "isRepoItem t item" using assms(5) by (simp_all add: isFound_def)
  show ?thesis
  proof (cases "item \<in> set (sn_done s)")
    case True
    then have "isRecorded t s item" using inv(2) assms(2) item by (simp add: progressInv_def)
    from all_left_records [OF assms(3) this inv(1)] show ?thesis ..
  qed (use tree_covered [OF inv(2) assms(2-4) item(1)] in blast)
qed

text \<open>
  C24. After a full scan that was not cancelled, whatever its workers did in turn, the index holds for the folder
  exactly the repositories that stand in its tree: each of them has a row that is not missing, and each row that is not
  missing is one of them.
\<close>

theorem full_scan_exact:
  assumes "scannedBy t before (workerCountFor net hardware) ix s" and "tk_mode t = FullScan" and "\<not> bf_followLinks (tk_folder t)" and "index_ok ix"
    and "scanEnd t answer now elapsed late s = (Inr result, ix')" and "\<not> sr_cancelled result"
  shows "(\<forall>item. isFound t item \<longrightarrow> (\<exists>r \<in> set (ix_repos ix'). sameRepo (scanRecord t 0 item) r \<and> re_baseFolderId r = bf_id (tk_folder t) \<and> re_missingSince r = None)) \<and>
    (\<forall>r \<in> set (ix_repos ix'). re_baseFolderId r = bf_id (tk_folder t) \<and> re_missingSince r = None \<longrightarrow>
      (\<exists>item. isFound t item \<and> sameRepo (scanRecord t 0 item) r))"
proof -
  obtain ix1 where start: "scanStart (tk_disk t) (tk_folder t) (tk_mode t) before ix = (Inr (tk_generation t), ix1)"
    and inv: "scanInv t ix1 s" and n: "length (sn_workers s) = workerCountFor net hardware" by (rule scannedBy_inv [OF assms(1,3)])
  have left: "\<forall>w \<in> set (sn_workers s). w = Left" using assms(1) by (simp add: scannedBy_def)
  have some: "sn_workers s \<noteq> []" using n workerCountFor_pos [of net hardware] by auto
  have quiet: "isQuiet s" and rows: "ix_repos ix' = map (swept t now) (ix_repos (upsertAll now (sn_pending s) (sn_index s)))"
    using scanEnd_rows(3) [OF assms(5,6)] by simp_all
  have full: "sn_pruned s = []" "\<forall>row \<in> set (ix_repos (sn_index s)). row \<in> set (ix_repos ix1) \<or> (\<exists>r \<in> foundRecords t. sameRepo r row)"
    using inv assms(2) by (simp_all add: scanInv_def fullInv_def)
  have pending: "set (sn_pending s) \<subseteq> foundRecords t" using inv treeInvD(4) by (auto simp: scanInv_def)
  have found: "\<exists>r \<in> set (ix_repos ix'). sameRepo (scanRecord t 0 item) r \<and> re_baseFolderId r = bf_id (tk_folder t) \<and> re_missingSince r = None"
    if "isFound t item" for item
    using found_is_seen [OF inv quiet left some that, of now] full(1) seen_survives [of t _ "scanRecord t 0 item" now] unfolding rows by auto
  have only: "\<exists>item. isFound t item \<and> sameRepo (scanRecord t 0 item) r"
    if row: "r \<in> set (ix_repos ix')" "re_baseFolderId r = bf_id (tk_folder t)" "re_missingSince r = None" for r
  proof -
    obtain r0 where r0: "r0 \<in> set (ix_repos (upsertAll now (sn_pending s) (sn_index s)))" "r = swept t now r0" using row(1) unfolding rows by auto
    then have kept: "\<not> isOutdated (bf_id (tk_folder t)) (tk_generation t) r0" "re_baseFolderId r0 = bf_id (tk_folder t)" "re_missingSince r0 = None"
      using row(2,3) by (simp_all add: swept_missing swept_base)
    then have "r0 \<notin> set (ix_repos ix1)" using scanStart_behind [OF start assms(4)] by (auto simp: isOutdated_def)
    with upsertAll_rows [OF found_ours [OF pending] r0(1)] full(2) pending have "\<exists>r \<in> foundRecords t. sameRepo r r0" by blast
    then obtain now' item where "isFound t item" "sameRepo (scanRecord t now' item) r0" by (auto simp: foundRecords_def)
    then have "isFound t item \<and> sameRepo (scanRecord t 0 item) r"
      using sameRepo_trans [OF _ swept_same [of r0 t now]] r0(2) by (simp add: sameRepo_now [of t now'])
    then show ?thesis by blast
  qed
  show ?thesis using found only by blast
qed

text \<open>
  C25. A repository of the folder that is still where it was stays in the list after any scan, full or
  incremental, cancelled or not: also when its directory was passed over.
\<close>

theorem scan_keeps_present:
  assumes "scannedBy t before (workerCountFor net hardware) ix s" and "\<not> bf_followLinks (tk_folder t)"
    and "scanEnd t answer now elapsed late s = (Inr result, ix')" and "isFound t item"
    and "r \<in> set (ix_repos ix)" and "sameRepo (scanRecord t 0 item) r" and "re_baseFolderId r = bf_id (tk_folder t)" and "re_missingSince r = None"
  shows "\<exists>r' \<in> set (ix_repos ix'). sameRepo r r' \<and> re_baseFolderId r' = bf_id (tk_folder t) \<and> re_missingSince r' = None"
proof -
  obtain ix1 where start: "scanStart (tk_disk t) (tk_folder t) (tk_mode t) before ix = (Inr (tk_generation t), ix1)"
    and inv: "scanInv t ix1 s" and n: "length (sn_workers s) = workerCountFor net hardware" by (rule scannedBy_inv [OF assms(1,2)])
  have left: "\<forall>w \<in> set (sn_workers s). w = Left" using assms(1) by (simp add: scannedBy_def)
  have some: "sn_workers s \<noteq> []" using n workerCountFor_pos [of net hardware] by auto
  let ?ix = "upsertAll now (sn_pending s) (sn_index s)"
  have kept: "keepsRows t ix1 ?ix"
    using inv keepsRows_trans found_keeps [OF treeInvD(4)] unfolding scanInv_def rowsInv_def by blast
  then obtain r1 where r1: "r1 \<in> set (ix_repos ?ix)" "sameRepo r r1" "re_baseFolderId r1 = bf_id (tk_folder t)" "re_missingSince r1 = None"
    using assms(5,7,8) scanStart_rows(1) [OF start] by (auto simp: keepsRows_def)
  show ?thesis
  proof (cases "sr_cancelled result")
    case True
    with scanEnd_rows(2) [OF assms(3)] r1 show ?thesis by auto
  next
    case False
    then have quiet: "isQuiet s" and rows: "ix_repos ix' = map (swept t now) (ix_repos ?ix)" using scanEnd_rows(3) [OF assms(3)] by simp_all
    from found_is_seen [OF inv quiet left some assms(4), of now] show ?thesis
    proof
      assume "isSeen t ?ix (scanRecord t 0 item)"
      from seen_survives [OF this, of now] show ?thesis unfolding rows using assms(6) by (auto simp: sameRepo_def)
    next
      assume "\<exists>p \<in> set (sn_pruned s). \<exists>rest. fst item = fst p @ rest"
      then obtain p rest where p: "p \<in> set (sn_pruned s)" "fst item = fst p @ rest" by blast
      have "sameRepo (scanRecord t 0 item) r1" using sameRepo_trans [OF assms(6) r1(2)] .
      moreover have "isRepoItem t item" using assms(4) by (simp add: isFound_def)
      ultimately have "isUnder (bf_id (tk_folder t)) (fst p) r1" using below_is_under [OF _ p(2) _ r1(3)] by blast
      moreover have "treeInv t s" using inv by (simp add: scanInv_def)
      ultimately have "re_lastSeenGeneration r1 = tk_generation t"
        using upsertAll_rows [OF found_ours [OF treeInvD(4)] r1(1)] inv p(1) by (auto simp: scanInv_def rowsInv_def)
      then have "sameRepo r (swept t now r1) \<and> re_baseFolderId (swept t now r1) = bf_id (tk_folder t) \<and> re_missingSince (swept t now r1) = None"
        using r1 sameRepo_trans [OF r1(2) swept_same] by (simp add: swept_base swept_missing isOutdated_def)
      then show ?thesis unfolding rows using r1(1) by auto
    qed
  qed
qed

text \<open>
  C27. A scan that was cancelled marks no repository as missing, of whatever folder.
\<close>

theorem cancelled_scan_marks_none:
  assumes "scannedBy t before n ix s" and "\<not> bf_followLinks (tk_folder t)"
    and "scanEnd t answer now elapsed late s = (Inr result, ix')" and "sr_cancelled result"
    and "r \<in> set (ix_repos ix)" and "re_missingSince r = None"
  shows "\<exists>r' \<in> set (ix_repos ix'). sameRepo r r' \<and> re_missingSince r' = None"
proof -
  obtain ix1 where start: "scanStart (tk_disk t) (tk_folder t) (tk_mode t) before ix = (Inr (tk_generation t), ix1)" and inv: "scanInv t ix1 s"
    by (rule scannedBy_inv [OF assms(1,2)])
  have "keepsRows t ix1 (upsertAll now (sn_pending s) (sn_index s))"
    using inv keepsRows_trans found_keeps [OF treeInvD(4)] unfolding scanInv_def rowsInv_def by blast
  with assms(5,6) scanStart_rows(1) [OF start] scanEnd_rows(2) [OF assms(3,4)] show ?thesis by (auto simp: keepsRows_def)
qed

text \<open>
  C28. Every scan ends, whatever its workers do in turn: each step that changes anything leaves less to do, and as
  long as a worker has not left, some worker can do something.
\<close>

theorem scans_end:
  assumes "reachable (starts t n ix) (scanStep t) s"
  shows "(scanStep t s s' \<longrightarrow> s' = s \<or> scanWork t s' < scanWork t s) \<and>
    ((\<exists>w \<in> set (sn_workers s). w \<noteq> Left) \<longrightarrow> (\<exists>i < length (sn_workers s). scanWork t (workerMoves t now i s) < scanWork t s))"
  using scanStep_work some_worker_works [OF counting.reachable_inv [OF assms]] by blast

section \<open>What an incremental scan does not see\<close>

fun blindWorker :: "'i ScanTask \<Rightarrow> 'i ScanWorker \<Rightarrow> bool" where
  "blindWorker t Seeking = True"
| "blindWorker t Left = True"
| "blindWorker t (Closing leaves) = True"
| "blindWorker t (Taken item) = (item = baseItem t)"
| "blindWorker t (Touching item) = (item = baseItem t)"
| "blindWorker t w = False"

definition blindRest :: "'i ScanTask \<Rightarrow> RepoIndex \<Rightarrow> 'i ScanState \<Rightarrow> bool" where
  "blindRest t ix s \<longleftrightarrow>
     set (sn_queue s) \<subseteq> {baseItem t} \<and> sn_pending s = [] \<and> sn_found s = 0 \<and> ix_sigs (sn_index s) = ix_sigs ix \<and>
     (\<forall>row \<in> set (ix_repos (sn_index s)). \<exists>r \<in> set (ix_repos ix). sameRepo r row)"

definition blindInv :: "'i ScanTask \<Rightarrow> RepoIndex \<Rightarrow> 'i ScanState \<Rightarrow> bool" where
  "blindInv t ix s \<longleftrightarrow> blindRest t ix s \<and> (\<forall>w \<in> set (sn_workers s). blindWorker t w)"

text \<open>What the folder itself must be like: its own signature is that of a directory that has not changed and is no repository.\<close>

definition topUnchanged :: "'i ScanTask \<Rightarrow> RepoIndex \<Rightarrow> bool" where
  "topUnchanged t ix \<longleftrightarrow>
     tk_mode t = Incremental \<and> 0 \<le> bf_maxDepth (tk_folder t) \<and> \<not> tk_refused t (itemKey t (baseItem t)) \<and>
     (\<exists>sig. dirSignature (bf_id (tk_folder t)) (itemKey t (baseItem t)) ix = Some sig \<and>
       dk_modifiedTimeNs (tk_disk t) (bf_path (tk_folder t)) = Some (ds_mtimeNs sig) \<and> \<not> ds_hadRepo sig)"

lemma topUnchanged_begin:
  assumes "topUnchanged t ix" and "ix_sigs (sn_index s) = ix_sigs ix"
  shows "beginItem t (baseItem t) s = (if sn_cancelled s then (Closing True, s) else (Touching (baseItem t), s))"
  using assms by (auto simp: topUnchanged_def beginItem_def isPastDepth_def isSkipped_def isUnchanged_def baseItem_def dirSignature_def)

lemma touch_blind:
  "ix_sigs (snd (touchReposUnder i path generation ix)) = ix_sigs ix"
  "row \<in> set (ix_repos (snd (touchReposUnder i path generation ix))) \<Longrightarrow> \<exists>r \<in> set (ix_repos ix). sameRepo r row"
  by (auto simp: touchReposUnder_def sameRepo_def)

lemma blind_pruned:
  assumes "blindRest t ix s"
  shows "blindRest t ix (snd (pruneItem t item s))"
proof -
  have "\<exists>r \<in> set (ix_repos ix). sameRepo r row"
    if "row \<in> set (ix_repos (snd (touchReposUnder i path generation (sn_index s))))" for row i path generation
    using touch_blind(2) [OF that] assms sameRepo_trans unfolding blindRest_def by blast
  with assms show ?thesis by (simp add: blindRest_def pruneItem_def touch_blind(1))
qed

lemma blind_worker:
  assumes "blindRest t ix s" and "topUnchanged t ix" and "blindWorker t w" and "workerStep t now w s = (w', s')"
  shows "blindWorker t w' \<and> blindRest t ix s'"
proof (cases w)
  case Seeking
  with assms(1,4) show ?thesis by (cases "sn_queue s") (auto simp: takeItem_def blindRest_def)
next
  case (Taken item)
  have "ix_sigs (sn_index s) = ix_sigs ix" using assms(1) by (simp add: blindRest_def)
  with topUnchanged_begin [OF assms(2) this] assms(1,3,4) Taken show ?thesis by (auto split: if_splits)
next
  case (Touching item)
  with assms(3,4) blind_pruned [OF assms(1), of item] show ?thesis by (auto simp: pruneItem_def)
next
  case (Closing leaves)
  with assms(1,4) show ?thesis by (auto simp: closeItem_def blindRest_def)
qed (use assms in auto)

lemma blindInv_put: "blindInv t ix s \<Longrightarrow> blindWorker t w \<Longrightarrow> blindRest t ix s' \<Longrightarrow> sn_workers s' = sn_workers s \<Longrightarrow> blindInv t ix (putWorker i w s')"
  using ball_update [of "sn_workers s" "blindWorker t" w i] by (simp add: blindInv_def blindRest_def)

lemma blindInv_step:
  assumes "topUnchanged t ix" and "blindInv t ix s" and "scanStep t s s'"
  shows "blindInv t ix s'"
  using assms(3)
proof cases
  case (moves i now)
  obtain w s1 where step: "workerStep t now (sn_workers s ! i) s = (w, s1)" by fastforce
  have "blindRest t ix s" "blindWorker t (sn_workers s ! i)" using assms(2) nth_mem [OF moves(2)] by (simp_all add: blindInv_def)
  from blind_worker [OF this(1) assms(1) this(2) step] show ?thesis
    unfolding moves(1) workerMoves_def step prod.case using blindInv_put [OF assms(2)] worker_frame(1) [OF step] by blast
next
  case (refused i e)
  show ?thesis unfolding refused(1) refuse_def using assms(2) by (intro blindInv_put [OF assms(2)]) (simp_all add: blindInv_def blindRest_def)
next
  case (thrown i e)
  show ?thesis unfolding thrown(1) throwIn_def using assms(2) by (intro blindInv_put [OF assms(2)]) (simp_all add: blindInv_def blindRest_def)
qed (use assms(2) in \<open>simp add: blindInv_def blindRest_def\<close>)

lemma blindInv_init:
  assumes "ix_sigs ix1 = ix_sigs ix" and "ix_repos ix1 = ix_repos ix" and "starts t n ix1 s"
  shows "blindInv t ix s"
proof -
  have "\<exists>r \<in> set (ix_repos ix). sameRepo r row" if "row \<in> set (ix_repos ix)" for row using that sameRepo_refl by blast
  with assms show ?thesis by (auto simp: starts_def blindInv_def blindRest_def scanInit_def baseItem_def)
qed

text \<open>
  C29. An incremental scan asks of a folder that is not itself a repository only whether it has changed: when it has
  not, the scan finds nothing and adds nothing, whatever was made in the directories that stand in it.
\<close>

theorem incremental_scan_blind:
  assumes "scannedBy t before n ix s" and "topUnchanged t ix" and "scanEnd t answer now elapsed late s = (Inr result, ix')"
  shows "sr_reposFound result = 0 \<and> (\<forall>r' \<in> set (ix_repos ix'). \<exists>r \<in> set (ix_repos ix). sameRepo r r')"
proof -
  obtain ix1 where start: "scanStart (tk_disk t) (tk_folder t) (tk_mode t) before ix = (Inr (tk_generation t), ix1)"
    and run: "reachable (starts t n ix1) (scanStep t) s" using assms(1) by (auto simp: scannedBy_def)
  have "ix_sigs ix1 = ix_sigs ix" "ix_repos ix1 = ix_repos ix"
    using scanStart_rows(1,2) [OF start] assms(2) by (simp_all add: topUnchanged_def)
  from run have inv: "blindInv t ix s"
    by (induction rule: reachable.induct) (auto intro: blindInv_init [OF \<open>ix_sigs ix1 = ix_sigs ix\<close> \<open>ix_repos ix1 = ix_repos ix\<close>] blindInv_step [OF assms(2)])
  then have rest: "sn_found s = 0" "upsertAll now (sn_pending s) (sn_index s) = sn_index s"
    "\<forall>row \<in> set (ix_repos (sn_index s)). \<exists>r \<in> set (ix_repos ix). sameRepo r row" by (simp_all add: blindInv_def blindRest_def)
  have "\<exists>r \<in> set (ix_repos ix). sameRepo r r'" if "r' \<in> set (ix_repos ix')" for r'
    using that rest(2,3) scanEnd_rows(2,3) [OF assms(3)] sameRepo_trans [OF _ swept_same]
    by (cases "sr_cancelled result") (fastforce, fastforce)
  moreover have "sr_reposFound result = sn_found s" using scanEnd_found [OF assms(3)] .
  ultimately show ?thesis using rest(1) by simp
qed

lemma saveSignatures_accepted: "fst (saveSignatures (\<lambda>_. None) chunk sigs ix) = None"
proof (induction "\<lambda>_ :: IndexCall. None :: GitError option" chunk sigs ix rule: saveSignatures.induct)
  case (1 chunk sigs ix)
  then show ?case by (cases "sigs = []") (simp_all add: saveSignatures.simps [of _ chunk sigs] saveSignatures.simps [of _ chunk "[]"])
qed

text \<open>When nothing failed and the index accepts everything, the scan has a result.\<close>

lemma scanEnd_accepted:
  assumes "sn_failed s = None"
  obtains result ix' where "scanEnd t (\<lambda>_. None) now elapsed late s = (Inr result, ix')" and "sr_cancelled result \<longleftrightarrow> sn_cancelled s \<or> late"
proof -
  obtain ix1 where flush: "flushRest (\<lambda>_. None) now s = (None, ix1)" by (cases "sn_pending s = []") (auto simp: flushRest_def)
  obtain ix2 where save: "(if sn_cancelled s then (None, ix1) else saveSignatures (\<lambda>_. None) 0 (sn_signatures s) ix1) = (None, ix2)"
    using saveSignatures_accepted [of 0 "sn_signatures s" ix1] by (metis prod.collapse)
  obtain n ix3 where mark: "markMissing now (bf_id (tk_folder t)) (tk_generation t) ix2 = (n, ix3)" by fastforce
  show thesis
  proof (cases "sn_cancelled s \<or> late")
    case True
    then show thesis by (intro that) (auto simp: scanEnd_def assms flush save scanResult_def simp del: if_split)
  next
    case False
    then have "\<not> sn_cancelled s" "\<not> late" "saveSignatures (\<lambda>_. None) 0 (sn_signatures s) ix1 = (None, ix2)" using save by simp_all
    then have over: "scanEnd t (\<lambda>_. None) now elapsed late s = (Inr (scanResult s n elapsed), finishScan now (bf_id (tk_folder t)) (int (sn_scanned s)) elapsed (int (sn_skipped s)) ix3)"
      by (simp add: scanEnd_def assms flush sweepMissing_def mark)
    show thesis by (rule that [OF over]) (simp add: scanResult_def False [simplified])
  qed
qed

section \<open>Neighbours and folders that are added again\<close>

text \<open>The rows below a directory are found by a prefix of their paths, so those of a sibling whose name is longer are found too.\<close>

lemma sibling_touched:
  assumes "re_baseFolderId r = i" and "re_workDir r = path @ rest"
  shows "isUnder i path r"
  using assms like_escaped [of path rest] by (simp add: isUnder_def)

text \<open>A folder that is added again with another depth keeps its signatures; to set its depth deletes them.\<close>

lemma readd_keeps_signatures: "ix_sigs (snd (addBaseFolder path depth followLinks ix)) = ix_sigs ix"
  by (simp add: addBaseFolder_def Let_def split: option.splits)

lemma set_depth_drops_signatures: "dirSignature i path (setBaseFolderMaxDepth i depth ix) = None"
  by (auto simp: setBaseFolderMaxDepth_def clearDirSignatures_def updateFolder_def dirSignature_def find_None_iff)

section \<open>A small tree\<close>

text \<open>One folder with one directory in it, a repository; and the moves of a single worker.\<close>

definition sample_disk :: "nat ScanDisk" where
  "sample_disk =
     \<lparr>dk_isDirectory = (\<lambda>p. p = ''/b'' \<or> p = ''/b/r'' \<or> p = ''/b/r/.git''), dk_isRegularFile = (\<lambda>p. p = ''/b/r/.git/HEAD''),
      dk_readSmallFile = (\<lambda>p limit. None), dk_modifiedTimeNs = (\<lambda>p. Some 5),
      dk_list = (\<lambda>p. (if p = ''/b'' then [\<lparr>de_entryName = ''r'', de_isDirectory = True, de_isPlaceholder = False, de_isLinkLike = False, de_fileId = None\<rparr>] else [], False))\<rparr>"

definition sample_folder :: BaseFolderRecord where
  "sample_folder = hd (ix_folders (snd (addBaseFolder ''/b'' 1 False empty_index)))"

definition sample_task :: "ScanMode \<Rightarrow> nat ScanTask" where
  "sample_task mode =
     \<lparr>tk_disk = sample_disk, tk_caseInsensitive = False, tk_rules = default_rules OtherPlatform, tk_folder = sample_folder,
      tk_mode = mode, tk_generation = 1, tk_refused = (\<lambda>_. False)\<rparr>"

text \<open>The index before the first scan; one in which the folder was seen while it was empty; and one that knows the repository.\<close>

definition sample_row :: RepoRecord where
  "sample_row = (scanRecord (sample_task FullScan) 7 (''/b/r'', 1))\<lparr>re_lastSeenGeneration := 0\<rparr>"

definition sample_index :: RepoIndex where
  "sample_index = empty_index\<lparr>ix_folders := [sample_folder]\<rparr>"

definition sample_seen :: RepoIndex where
  "sample_seen = saveDirSignature \<lparr>ds_baseFolderId = 1, ds_dirPath = ''/b'', ds_mtimeNs = 5, ds_childDirs = 0, ds_hadRepo = False\<rparr> sample_index"

definition sample_known :: RepoIndex where
  "sample_known = upsertRepo 7 sample_row sample_seen"

definition movesOf :: "'i ScanTask \<Rightarrow> nat \<Rightarrow> 'i ScanState \<Rightarrow> 'i ScanState" where
  "movesOf t k s = (workerMoves t 0 0 ^^ k) s"

lemma reachable_moves:
  assumes "starts t n ix s" and "0 < n"
  shows "reachable (starts t n ix) (scanStep t) (movesOf t k s)"
proof (induction k)
  case (Suc k)
  then have "0 < length (sn_workers (movesOf t k s))" using workers_length assms(2) by metis
  from reach_step [OF Suc scanStep.moves [OF this, of t 0]] show ?case by (simp add: movesOf_def)
qed (simp add: movesOf_def reach_init assms(1))

definition sample_scan :: "ScanMode \<Rightarrow> nat \<Rightarrow> RepoIndex \<Rightarrow> nat ScanState" where
  "sample_scan mode k ix =
     movesOf (sample_task mode) k (scanInit (sample_task mode) 1 (snd (scanStart sample_disk sample_folder mode 0 ix)) False)"

lemma sample_folder_simps: "bf_id sample_folder = 1" "bf_path sample_folder = ''/b''" "bf_maxDepth sample_folder = 1" "\<not> bf_followLinks sample_folder"
  by code_simp+

lemma sample_disk_simps:
  "dk_isDirectory sample_disk ''/b''" "dk_modifiedTimeNs sample_disk p = Some 5" "\<not> snd (dk_list sample_disk p)"
  "fst (dk_list sample_disk ''/b'') = [\<lparr>de_entryName = ''r'', de_isDirectory = True, de_isPlaceholder = False, de_isLinkLike = False, de_fileId = None\<rparr>]"
  "fst (dk_list sample_disk ''/b/r'') = []"
  by (simp_all add: sample_disk_def)

lemma sample_classified: "\<not> isRepo (classify sample_disk ''/b'')" "isRepo (classify sample_disk ''/b/r'')"
  by code_simp+

lemma sample_names: "\<not> shouldSkip False (default_rules OtherPlatform) ''/b/r''" "path_join ''/b'' ''r'' = ''/b/r''" "canonicalKey False ''/b'' = ''/b''"
  by code_simp+

lemma sample_task_simps:
  "tk_disk (sample_task mode) = sample_disk" "\<not> tk_caseInsensitive (sample_task mode)" "tk_rules (sample_task mode) = default_rules OtherPlatform"
  "tk_folder (sample_task mode) = sample_folder" "tk_mode (sample_task mode) = mode" "tk_generation (sample_task mode) = 1"
  "\<not> tk_refused (sample_task mode) p"
  by (simp_all add: sample_task_def)

lemmas sample_simps = sample_folder_simps sample_disk_simps sample_classified sample_names sample_task_simps

lemmas move_simps = sample_scan_def movesOf_def scanInit_def workerMoves_def putWorker_def takeItem_def beginItem_def isPastDepth_def isSkipped_def
  skipItem_def pruneItem_def examineItem_def enumerate_def kBatchSize_def enumerateEntry_def visitEntry_def descends_def childItem_def endItem_def closeItem_def

lemma sample_starts:
  "scanStart sample_disk sample_folder FullScan 0 sample_index = (Inr 1, snd (scanStart sample_disk sample_folder FullScan 0 sample_index))"
  "scanStart sample_disk sample_folder Incremental 0 sample_seen = (Inr 1, snd (scanStart sample_disk sample_folder Incremental 0 sample_seen))"
  "scanStart sample_disk sample_folder Incremental 0 sample_known = (Inr 1, snd (scanStart sample_disk sample_folder Incremental 0 sample_known))"
  by code_simp+

lemma sample_unchanged:
  "isUnchanged (sample_task Incremental) (''/b'', 0) (snd (scanStart sample_disk sample_folder Incremental 0 sample_seen))"
  "isUnchanged (sample_task Incremental) (''/b'', 0) (snd (scanStart sample_disk sample_folder Incremental 0 sample_known))"
  by code_simp+

lemma full_sample_over: "sn_workers (sample_scan FullScan 12 sample_index) = [Left]" "sn_failed (sample_scan FullScan 12 sample_index) = None"
  "\<not> sn_cancelled (sample_scan FullScan 12 sample_index)"
  by (simp_all add: eval_nat_numeral move_simps isUnchanged_def sample_simps)

lemma seen_sample_over: "sn_workers (sample_scan Incremental 5 sample_seen) = [Left]" "sn_failed (sample_scan Incremental 5 sample_seen) = None"
  by (simp_all add: eval_nat_numeral move_simps sample_unchanged sample_simps)

lemma known_sample_over: "sn_workers (sample_scan Incremental 5 sample_known) = [Left]" "sn_failed (sample_scan Incremental 5 sample_known) = None"
  by (simp_all add: eval_nat_numeral move_simps sample_unchanged sample_simps)

lemma sample_scanned:
  assumes "scanStart sample_disk sample_folder mode 0 ix = (Inr 1, snd (scanStart sample_disk sample_folder mode 0 ix))" and "sn_workers (sample_scan mode k ix) = [Left]"
  shows "scannedBy (sample_task mode) 0 (workerCountFor True 8) ix (sample_scan mode k ix)"
  unfolding scannedBy_def sample_task_simps
proof (intro conjI exI)
  show "scanStart sample_disk sample_folder mode 0 ix = (Inr 1, snd (scanStart sample_disk sample_folder mode 0 ix))" by (rule assms(1))
  have one: "workerCountFor True 8 = 1" by (simp add: workerCountFor_def)
  show "reachable (starts (sample_task mode) (workerCountFor True 8) (snd (scanStart sample_disk sample_folder mode 0 ix))) (scanStep (sample_task mode)) (sample_scan mode k ix)"
    unfolding sample_scan_def one by (rule reachable_moves) (auto simp: starts_def)
  show "\<forall>w \<in> set (sn_workers (sample_scan mode k ix)). w = Left" using assms(2) by simp
qed

lemma sample_found: "isFound (sample_task mode) (''/b/r'', 1)"
proof -
  have "(''/b'', 0) \<in> inTree (sample_task mode)" using inTree.base [of "sample_task mode"] by (simp add: baseItem_def sample_simps)
  moreover have "entersItem (sample_task mode) (''/b'', 0)" "entersItem (sample_task mode) (''/b/r'', 1)"
    by (simp_all add: entersItem_def isPastDepth_def isSkipped_def sample_simps)
  moreover have "(''/b/r'', 1) \<in> set (plainChildren (sample_task mode) (''/b'', 0))"
    by (simp add: plainChildren_def childrenOf_def descends_def isPlainDir_def childItem_def sample_simps)
  ultimately show ?thesis using inTree.below by (simp add: isFound_def isRepoItem_def sample_simps)
qed

text \<open>The full scan finds the repository; the incremental scans keep it, and find none that they do not know.\<close>

definition sample_end :: "ScanMode \<Rightarrow> bool \<Rightarrow> nat ScanState \<Rightarrow> ScanResult GitResult \<times> RepoIndex" where
  "sample_end mode late s = scanEnd (sample_task mode) (\<lambda>_. None) 9 0 late s"

lemma index_ok_sample: "index_ok sample_index"
  by (simp add: index_ok_def sample_index_def empty_index_def)

theorem full_scan_exact_witness:
  "\<exists>r \<in> set (ix_repos (snd (sample_end FullScan False (sample_scan FullScan 12 sample_index)))).
     sameRepo (scanRecord (sample_task FullScan) 0 (''/b/r'', 1)) r \<and> re_baseFolderId r = 1 \<and> re_missingSince r = None"
proof -
  obtain result ix' where over: "scanEnd (sample_task FullScan) (\<lambda>_. None) 9 0 False (sample_scan FullScan 12 sample_index) = (Inr result, ix')"
    and kept: "sr_cancelled result \<longleftrightarrow> sn_cancelled (sample_scan FullScan 12 sample_index) \<or> False" by (rule scanEnd_accepted [OF full_sample_over(2)])
  have "\<not> sr_cancelled result" using kept full_sample_over(3) by simp
  from full_scan_exact [OF sample_scanned [OF sample_starts(1) full_sample_over(1)] _ _ index_ok_sample over this] sample_found [of FullScan]
  show ?thesis by (simp add: sample_end_def over sample_simps)
qed

theorem scan_keeps_present_witness:
  "\<exists>r \<in> set (ix_repos (snd (sample_end Incremental False (sample_scan Incremental 5 sample_known)))).
     sameRepo (hd (ix_repos sample_known)) r \<and> re_baseFolderId r = 1 \<and> re_missingSince r = None"
proof -
  obtain result ix' where over: "scanEnd (sample_task Incremental) (\<lambda>_. None) 9 0 False (sample_scan Incremental 5 sample_known) = (Inr result, ix')"
    by (rule scanEnd_accepted [OF known_sample_over(2)])
  have row: "hd (ix_repos sample_known) \<in> set (ix_repos sample_known)" "sameRepo (scanRecord (sample_task Incremental) 0 (''/b/r'', 1)) (hd (ix_repos sample_known))"
    "re_baseFolderId (hd (ix_repos sample_known)) = bf_id (tk_folder (sample_task Incremental))" "re_missingSince (hd (ix_repos sample_known)) = None"
    by code_simp+
  from scan_keeps_present [OF sample_scanned [OF sample_starts(3) known_sample_over(1)] _ over sample_found row]
  show ?thesis by (simp add: sample_end_def over sample_simps)
qed

theorem cancelled_scan_marks_none_witness:
  "\<exists>r \<in> set (ix_repos (snd (sample_end Incremental True (sample_scan Incremental 5 sample_known)))).
     sameRepo (hd (ix_repos sample_known)) r \<and> re_missingSince r = None"
proof -
  obtain result ix' where over: "scanEnd (sample_task Incremental) (\<lambda>_. None) 9 0 True (sample_scan Incremental 5 sample_known) = (Inr result, ix')"
    and kept: "sr_cancelled result \<longleftrightarrow> sn_cancelled (sample_scan Incremental 5 sample_known) \<or> True" by (rule scanEnd_accepted [OF known_sample_over(2)])
  have row: "hd (ix_repos sample_known) \<in> set (ix_repos sample_known)" "re_missingSince (hd (ix_repos sample_known)) = None" by code_simp+
  have "sr_cancelled result" using kept by simp
  from cancelled_scan_marks_none [OF sample_scanned [OF sample_starts(3) known_sample_over(1)] _ over this row]
  show ?thesis by (simp add: sample_end_def over sample_simps)
qed

theorem scans_end_witness:
  "\<exists>i < length (sn_workers (sample_scan FullScan 4 sample_index)).
     scanWork (sample_task FullScan) (workerMoves (sample_task FullScan) 0 i (sample_scan FullScan 4 sample_index))
       < scanWork (sample_task FullScan) (sample_scan FullScan 4 sample_index)"
proof -
  have "reachable (starts (sample_task FullScan) 1 (snd (scanStart sample_disk sample_folder FullScan 0 sample_index))) (scanStep (sample_task FullScan))
    (sample_scan FullScan 4 sample_index)" unfolding sample_scan_def by (rule reachable_moves) (auto simp: starts_def)
  from scans_end [OF this, of undefined 0] show ?thesis by (simp add: eval_nat_numeral move_simps isUnchanged_def sample_simps)
qed

theorem incremental_scan_blind_witness:
  "isFound (sample_task Incremental) (''/b/r'', 1) \<and> ix_repos (snd (sample_end Incremental False (sample_scan Incremental 5 sample_seen))) = []"
proof -
  obtain result ix' where over: "scanEnd (sample_task Incremental) (\<lambda>_. None) 9 0 False (sample_scan Incremental 5 sample_seen) = (Inr result, ix')"
    by (rule scanEnd_accepted [OF seen_sample_over(2)])
  have "topUnchanged (sample_task Incremental) sample_seen"
    unfolding topUnchanged_def itemKey_def baseItem_def by (simp add: sample_simps sample_seen_def saveDirSignature_def dirSignature_def sample_index_def empty_index_def)
  moreover have "ix_repos sample_seen = []" by code_simp
  ultimately show ?thesis
    using incremental_scan_blind [OF sample_scanned [OF sample_starts(2) seen_sample_over(1)] _ over] sample_found [of Incremental] by (simp add: sample_end_def over)
qed

end
