(* ===== verification/Spec2Isabelle.thy ===== *)
theory Spec2Isabelle
  imports GraphPromises DiffPatches DiffParsing ConflictMarkers SideBySide StatusReading UntrackedCounts ConflictBatches OperationPromises RefreshLiveness
    RefReading HistoryPromises MetaReading BranchPromises ReplayPromises DiffServicePromises StagePromises PoolPromises Tokens RepositoryPromises CatFilePromises CompareReading ToolPromises
    ScanPromises
begin

text \<open>
  A verification library of git-branch-manager, a Git client whose C++ core (\<^verbatim>\<open>src/core\<close>, with
  its C interface in \<^verbatim>\<open>src/capi\<close>) runs git, reads what it prints, builds a commit graph, and serves
  snapshots of it to a user interface.

  \<^bold>\<open>How the parts work together.\<close> A session (\<^verbatim>\<open>capi/Session.cpp\<close>) receives refresh requests and
  coalesces them; a refresh reads the refs (\<^verbatim>\<open>RefStore\<close>), derives the tips to walk from, and runs a
  history walk (\<^verbatim>\<open>HistoryProvider\<close>). The walk runs \<^verbatim>\<open>git rev-list\<close> through the process runner, parses
  each line, feeds the commits to the graph builder (\<^verbatim>\<open>GraphBuilder\<close>, with its lane allocator) and
  publishes snapshots (\<^verbatim>\<open>GraphSnapshot\<close>), which the session shows only if no newer refresh has
  published. Beside it, the working-copy status is read and merged with line counts and conflict
  scans, diffs are parsed and turned back into patches for staging, and conflicted files are split
  into regions and reassembled. Every change of a repository goes through one queue of operations.

  \<^bold>\<open>The theories, by component.\<close> In each pair below the first theory holds the definitions, named
  after the functions of the sources, and the others what is proved of them.

  \<^item> \<open>GBM_Prelude\<close>: the strings, numbers and word arithmetic the sources use (\<^verbatim>\<open>find\<close>, \<^verbatim>\<open>from_chars\<close>,
    \<^verbatim>\<open>to_string\<close>, 32-bit wrap-around), reachability, and the locale \<open>state_machine\<close>: a machine's
    steps keep its invariant.
  \<^item> \<open>ObjectIds\<close> (\<^verbatim>\<open>base/ObjectId.h\<close>): packed object ids as 8-bit words; parsing and printing are
    inverse, and an id is read from exactly 40 or 64 digits.
  \<^item> \<open>GraphSnapshot\<close> (\<^verbatim>\<open>graph/GraphSnapshot\<close>): rows, edges, the sorted id index and the bucket index;
    every indexed query equals its plain specification.
  \<^item> \<open>LaneAllocator\<close> (\<^verbatim>\<open>graph/LaneAllocator.h\<close>): the 64-bit occupancy mask refines a set of lanes
    (locale \<open>lane_pool\<close>, interpreted on the masks); colours keep their distance.
  \<^item> \<open>GraphBuilder\<close>, \<open>GraphWalk\<close>, \<open>GraphLayout\<close>, \<open>GraphPromises\<close> (\<^verbatim>\<open>graph/GraphBuilder\<close>): the handler
    \<open>add\<close> step by step, the book-keeping invariant, the locale \<open>walk_invariant\<close> (what one commit keeps, a
    whole walk keeps) with its interpretations, and the promises of the layout: lines never overlap and
    never cross a foreign dot, first-parent chains are straight, the trunk is in lane 0, parents resolve
    to the right rows.
  \<^item> \<open>UnifiedDiff\<close>, \<open>DiffParsing\<close>, \<open>DiffPatches\<close>, \<open>SideBySide\<close> (\<^verbatim>\<open>git/UnifiedDiffParser\<close>,
    \<^verbatim>\<open>git/SideBySideDiff\<close>): the diff parser with its caps, the hunk patch and the line-selection patch; a
    patch built for staging or unstaging a selection reads back as exactly that change.
  \<^item> \<open>ConflictMarkers\<close> (\<^verbatim>\<open>git/ConflictMarkerParser\<close>): a file with conflicts reads back whole but for
    the one line that is dropped, and resolutions assemble.
  \<^item> \<open>TextTraits\<close>, \<open>GitErrors\<close> (\<^verbatim>\<open>git/TextTraits\<close>, \<^verbatim>\<open>git/TransferProgress\<close>, \<^verbatim>\<open>base/Error\<close>): line endings, the
    collapse of redraws, progress meters, and the classification of git's stderr.
  \<^item> \<open>WorkingCopy\<close>, \<open>StatusReading\<close>, \<open>UntrackedCounts\<close>, \<open>ConflictBatches\<close> (\<^verbatim>\<open>git/WorkingCopyStatus\<close>,
    \<^verbatim>\<open>git/ConflictBatch\<close>): status records read back, counts are attached to the right entries, failures of
    the counts leave the status whole, the cache of untracked counts is never stale in any interleaving
    of reads and writes (a \<open>state_machine\<close>), and a batch is the union of its scans.
  \<^item> \<open>GitProcesses\<close>, \<open>ProcessPromises\<close> (\<^verbatim>\<open>git/GitCommand\<close>, \<^verbatim>\<open>git/ProcessRunner.cpp\<close>): the splitter of
    records, the pump of a POSIX child turn by turn over what the system answers, deadlines, environment,
    outcome and log; output means the same however the pipe cuts it, and no command keeps its pipes past its
    limits, but the wait for the exit of a child that has closed them has none.
  \<^item> \<open>RefStores\<close>, \<open>RefReading\<close> (\<^verbatim>\<open>git/RefStore\<close>): refs, HEAD, branch names, the tips of a walk.
  \<^item> \<open>HistoryWalks\<close>, \<open>HistoryReading\<close>, \<open>HistoryPromises\<close> (\<^verbatim>\<open>git/HistoryProvider\<close>): the walk on the process
    runner and the builder together; from git's bytes to the published graph.
  \<^item> \<open>RepoStates\<close> (\<^verbatim>\<open>git/RepoPaths.h\<close>, \<^verbatim>\<open>git/RepoState\<close>): the state of a repository, read from the files git leaves.
  \<^item> \<open>OperationQueues\<close>, \<open>OperationPromises\<close> (\<^verbatim>\<open>git/OperationRunner\<close>): the queue of operations and its worker as
    an interleaving machine (a \<open>state_machine\<close>): operations complete once each and in order, cancels are
    final for what waits and never stop what must not be stopped, background work gives way, the queue
    drains, and only stale locks are removed.
  \<^item> \<open>CommitMetas\<close>, \<open>MetaReading\<close> (\<^verbatim>\<open>git/CommitMeta\<close>, \<^verbatim>\<open>git/ReflogStore\<close>, \<^verbatim>\<open>git/BlameStore\<close>, \<^verbatim>\<open>git/FileHistoryStore\<close>):
    raw commits, signatures, reflogs, blame annotations and file histories; what git prints reads back.
  \<^item> \<open>OperationSteps\<close>, \<open>BranchOperations\<close>, \<open>BranchPromises\<close> (\<^verbatim>\<open>git/ops/BranchOps\<close>): operations as sequences of
    git commands over a runner that is an argument; no branch is deleted by force unless its tip was checked
    in the same operation, and the old name of a branch is deleted on a remote only after the new one is there.
  \<^item> \<open>ReplayOperations\<close>, \<open>ReplayPromises\<close> (\<^verbatim>\<open>git/ops/CheckoutOp\<close>, \<^verbatim>\<open>MergeOps\<close>, \<^verbatim>\<open>RebaseOps\<close>, \<^verbatim>\<open>CherryPickOps\<close>,
    \<^verbatim>\<open>RevertOps\<close>): the locale \<open>stashing_operation\<close> with one interpretation per operation shows that nothing is
    changed before the stash has succeeded; a squash merge commits only its own changes, and the plan of an
    interactive rebase reaches git through the shell.
  \<^item> \<open>LruCaches\<close>, \<open>DiffServices\<close>, \<open>DiffServicePromises\<close> (\<^verbatim>\<open>git/DiffService\<close>): the cache refines the list of the most
    recently used entries that fit (locale \<open>value_cache\<close>); changed files and counts read back; a cached diff
    is one git would print for a request of the same key, and what keys two requests can share.
  \<^item> \<open>StageOperations\<close>, \<open>StagePromises\<close> (\<^verbatim>\<open>git/ops/StageOps\<close>): staging, unstaging and discarding of selected lines
    change exactly the selection in the diff read at that moment, and so not always in the one that was shown.
  \<^item> \<open>RepositoryOperations\<close>, \<open>RepositoryPromises\<close> (\<^verbatim>\<open>git/ops/StashOps\<close>, \<^verbatim>\<open>ResetOps\<close>, \<^verbatim>\<open>TagOps\<close>, \<^verbatim>\<open>CommitOps\<close>,
    \<^verbatim>\<open>RemoteOps\<close>, \<^verbatim>\<open>UndoOps\<close>, \<^verbatim>\<open>ConflictOps\<close>, \<^verbatim>\<open>ConfigOps\<close>, \<^verbatim>\<open>SquashMessageOps\<close>, \<^verbatim>\<open>PreparedMessageOps\<close>): the locale
    \<open>line_list\<close> for lists printed line by line, by which stashes and untracked files read back; what an
    undo resets, also when it should not.
  \<^item> \<open>CatFiles\<close>, \<open>CatFilePromises\<close> (\<^verbatim>\<open>git/CatFileBatch\<close>): the protocol with the long-lived \<^verbatim>\<open>git cat-file\<close>; the
    locales \<open>pipe\<close>, \<open>git_child\<close> and \<open>reliable_child\<close> say what the system and the child promise, and answers
    are never mixed up however pipes cut or fail.
  \<^item> \<open>CompareOperations\<close>, \<open>CompareReading\<close> (\<^verbatim>\<open>git/ops/CompareOps\<close>, \<^verbatim>\<open>PatchOps\<close>, \<^verbatim>\<open>MaintenanceOps\<close>, \<^verbatim>\<open>InitCloneOps\<close>,
    \<^verbatim>\<open>BlobOps\<close>): a comparison of two refs reads back whole, merge base, commits and counted files.
  \<^item> \<open>ToolOperations\<close>, \<open>ToolPromises\<close> (\<^verbatim>\<open>git/ops/WorktreeOps\<close>, \<^verbatim>\<open>SubmoduleOps\<close>, \<^verbatim>\<open>BisectOps\<close>, \<^verbatim>\<open>LfsOps\<close>,
    \<^verbatim>\<open>git/OperationLogScope\<close>): worktrees with their ages and large files read back, a bisect is where its log says, what is misread
    of submodules, and a repository is made only with a branch name git accepted.
  \<^item> \<open>RepoIndexes\<close> (\<^verbatim>\<open>cache/RepoIndexDb\<close>): the tables of the index of repositories and what each statement does to
    them. \<open>Discovery\<close>, \<open>Scanners\<close> (\<^verbatim>\<open>discovery\<close>): which names are skipped, what a directory is, and the scanner
    whose workers share a queue of directories. \<open>ScanInvariants\<close>, \<open>ScanProgress\<close>, \<open>ScanPromises\<close>: no directory
    and no repository is lost between the workers, and every step leaves less to do; so a full scan ends with
    exactly the repositories of the tree, a scan gives up none that is still there, and one that is cancelled
    gives up none; and an incremental scan does not look below a folder that has not changed.
  \<^item> \<open>Accounting\<close>, \<open>ThreadPools\<close>, \<open>PoolPromises\<close> (\<^verbatim>\<open>workers/ThreadPool\<close>): the pool with its condition variables as an
    interleaving machine; tasks run once, none is forgotten, a caller that closes leaves nothing behind, and
    the one wake-up that can be missed.
  \<^item> \<open>Tokens\<close> (\<^verbatim>\<open>base/CancellationToken.h\<close>, \<^verbatim>\<open>workers/BusyToken.h\<close>): a cancellation reaches every callback once, and
    a busy token fires once.
  \<^item> \<open>RefreshScheduling\<close>, \<open>RefreshSafety\<close>, \<open>RefreshLiveness\<close> (\<^verbatim>\<open>workers/Debouncer.h\<close>,
    \<^verbatim>\<open>workers/RefreshCoalescer.h\<close>, \<^verbatim>\<open>workers/StartupReadGate.h\<close>, \<^verbatim>\<open>workers/DelayTimer\<close>, the refresh handlers of
    \<^verbatim>\<open>capi/Session\<close>): an interleaving machine; what is shown never goes back; while the calls that arm the
    timer take effect in order an unserved request always has something under way that leads to its service, and a
    request can be lost when they do not.

  \<^bold>\<open>Choices of the model.\<close> Structs are records, enums datatypes, \<^verbatim>\<open>GitResult\<close> a sum with the error on
  the left; an exception that leaves a function, and a loop that still waits for the system, is \<open>None\<close>.
  Threads are step relations over explicit states. Row numbers, offsets and reference counts wrap at 32
  bits as in the sources and the theorems carry the bounds under which they do not; sizes and 64-bit
  counters are natural numbers. Hash maps are association lists, and unordered iteration is never
  observable in what is proved. Loops are structural or have a measure, and the
  one loop that may wait forever, the pump, consumes the list of the system's answers and is \<open>None\<close> when
  they run out; \<open>runs_end\<close> shows that a deadline ends it, and that \<open>execute\<close> is \<open>None\<close> after that only when the
  child is waited for without a limit. Only \<open>descendants\<close> counts its rounds: as many as there
  are rows, since every round before the last adds one. What is outside the sources, the answers of the
  operating system, the clock, the file system, is an argument of the definitions that use it.

  \<^bold>\<open>Not modelled.\<close> The database library and its wrapper, and the helpers for files and logging, which are
  database and file-system access; scans that follow links, of which only that they end is shown; the probes that
  refresh the list of repositories; the remaining requests of the session and the JSON and handle layer
  of the C interface; spawning and signalling of children and the Windows child; the exchange of files with
  the askpass helper; the text renderer of graphs.
\<close>

end
